(* ===== verification/Prelude.thy ===== *)
theory Prelude
  imports Complex_Main "HOL-Library.Sublist"
begin

text \<open>
  Shared vocabulary of the development.

  \<^item> JavaScript strings are lists of characters; the operations of the string library the
    sources call (\<open>includes\<close>, \<open>toLowerCase\<close>, \<open>startsWith\<close>, \<open>endsWith\<close>, \<open>trim\<close>, \<open>slice\<close>,
    \<open>join\<close>, decimal rendering) are executable functions. A character outside ASCII in a
    string literal of the sources is written as its UTF-8 bytes.
  \<^item> JSON values are a datatype whose objects are association lists in insertion order, as
    \<open>Object.entries\<close> enumerates them. JSON numbers are exact rationals.
  \<^item> Exceptions are values of a sum type, \<open>Inl\<close> for the thrown value.
  \<^item> \<open>frame\<close> collects the equations saying which parts of a state an operation leaves
    alone; \<open>inv_intro\<close> collects the preservation lemmas of the invariants.
\<close>

named_theorems frame \<open>state components an operation does not change\<close>
named_theorems inv_intro \<open>preservation of component invariants\<close>

section \<open>Strings\<close>

text \<open>Decimal rendering of a natural number, as a template literal prints it.\<close>

definition digit_char :: "nat \<Rightarrow> char" where
  "digit_char d = char_of (48 + d)"

fun show_nat :: "nat \<Rightarrow> string" where
  "show_nat n = (if n < 10 then [digit_char n] else show_nat (n div 10) @ [digit_char (n mod 10)])"

declare show_nat.simps [simp del]

lemma show_nat_small: "n < 10 \<Longrightarrow> show_nat n = [digit_char n]"
  by (subst show_nat.simps) simp

lemma show_nat_step: "10 \<le> n \<Longrightarrow> show_nat n = show_nat (n div 10) @ [digit_char (n mod 10)]"
  by (subst show_nat.simps) simp

lemma show_nat_not_Nil [simp]: "show_nat n \<noteq> []"
  by (subst show_nat.simps) simp

definition show_int :: "int \<Rightarrow> string" where
  "show_int i = (if i < 0 then ''-'' @ show_nat (nat (- i)) else show_nat (nat i))"

text \<open>\<open>hay.includes(needle)\<close>.\<close>

fun str_includes :: "string \<Rightarrow> string \<Rightarrow> bool" where
  "str_includes [] needle = (needle = [])"
| "str_includes (c # cs) needle = (prefix needle (c # cs) \<or> str_includes cs needle)"

lemma includes_iff_sublist: "str_includes hay needle \<longleftrightarrow> sublist needle hay"
  by (induction hay) (auto simp: sublist_Cons_right)

lemma includes_append_left: "str_includes hay n \<Longrightarrow> str_includes (pre @ hay) n"
  by (auto simp: includes_iff_sublist sublist_appendI intro: sublist_order.order_trans)

text \<open>\<open>needles.some((n) => haystack.includes(n))\<close>.\<close>

definition matches_any :: "string \<Rightarrow> string list \<Rightarrow> bool" where
  "matches_any hay needles = list_ex (str_includes hay) needles"

definition lower_char :: "char \<Rightarrow> char" where
  "lower_char c =
     (let k = (of_char c :: nat) in if 65 \<le> k \<and> k \<le> 90 then char_of (k + 32) else c)"

definition to_lower :: "string \<Rightarrow> string" where
  "to_lower = map lower_char"

lemma length_to_lower [simp]: "length (to_lower s) = length s"
  by (simp add: to_lower_def)

definition starts_with :: "string \<Rightarrow> string \<Rightarrow> bool" where
  "starts_with s p = prefix p s"

definition ends_with :: "string \<Rightarrow> string \<Rightarrow> bool" where
  "ends_with s p = suffix p s"

definition is_space :: "char \<Rightarrow> bool" where
  "is_space c = ((of_char c :: nat) \<in> {9, 10, 11, 12, 13, 32, 160})"

definition trim_start :: "string \<Rightarrow> string" where
  "trim_start = dropWhile is_space"

definition trim_end :: "string \<Rightarrow> string" where
  "trim_end s = rev (dropWhile is_space (rev s))"

definition trim_ws :: "string \<Rightarrow> string" where
  "trim_ws s = trim_end (trim_start s)"

text \<open>\<open>xs.join(sep)\<close>.\<close>

fun join :: "string \<Rightarrow> string list \<Rightarrow> string" where
  "join sep [] = []"
| "join sep [x] = x"
| "join sep (x # y # ys) = x @ sep @ join sep (y # ys)"

definition newline :: string where
  "newline = [char_of (10 :: nat)]"

lemma length_newline [simp]: "length newline = 1"
  by (simp add: newline_def)

text \<open>\<open>xs.slice(-n)\<close>: the last \<open>n\<close> elements, all of them for \<open>n = 0\<close> (\<open>-0\<close> is \<open>0\<close>).\<close>

definition slice_last :: "nat \<Rightarrow> 'a list \<Rightarrow> 'a list" where
  "slice_last n xs = (if n = 0 then xs else drop (length xs - n) xs)"

lemma slice_last_pos: "0 < n \<Longrightarrow> slice_last n xs = drop (length xs - n) xs"
  by (simp add: slice_last_def)

lemma length_slice_last: "0 < n \<Longrightarrow> length (slice_last n xs) = min n (length xs)"
  by (simp add: slice_last_def)

section \<open>Lists and association lists\<close>

text \<open>Lookup and update of a JavaScript \<open>Map\<close> or object kept in insertion order: updating a
  present key keeps its place, a new key goes to the end.\<close>

fun upd_assoc :: "'k \<Rightarrow> 'v \<Rightarrow> ('k \<times> 'v) list \<Rightarrow> ('k \<times> 'v) list" where
  "upd_assoc k v [] = [(k, v)]"
| "upd_assoc k v ((k', v') # xs) =
     (if k = k' then (k, v) # xs else (k', v') # upd_assoc k v xs)"

definition del_assoc :: "'k \<Rightarrow> ('k \<times> 'v) list \<Rightarrow> ('k \<times> 'v) list" where
  "del_assoc k xs = filter (\<lambda>p. fst p \<noteq> k) xs"

lemma map_of_upd_assoc [simp]: "map_of (upd_assoc k v xs) = (map_of xs)(k \<mapsto> v)"
  by (induction k v xs rule: upd_assoc.induct) auto

lemma map_of_del_assoc [simp]: "map_of (del_assoc k xs) = (map_of xs)(k := None)"
  by (induction xs) (auto simp: del_assoc_def)

lemma keys_upd_assoc:
  "map fst (upd_assoc k v xs) = (if k \<in> fst ` set xs then map fst xs else map fst xs @ [k])"
  by (induction k v xs rule: upd_assoc.induct) auto

lemma distinct_upd_assoc [simp]:
  "distinct (map fst xs) \<Longrightarrow> distinct (map fst (upd_assoc k v xs))"
  by (auto simp: keys_upd_assoc)

lemma distinct_del_assoc [simp]:
  "distinct (map fst xs) \<Longrightarrow> distinct (map fst (del_assoc k xs))"
  by (induction xs) (auto simp: del_assoc_def)

lemma set_del_assoc: "set (del_assoc k xs) = {p \<in> set xs. fst p \<noteq> k}"
  by (auto simp: del_assoc_def)

lemma del_assoc_fresh: "k \<notin> fst ` set xs \<Longrightarrow> del_assoc k xs = xs"
  by (induction xs) (auto simp: del_assoc_def)

lemma set_upd_assoc_subset: "set (upd_assoc k v xs) \<subseteq> insert (k, v) (set xs)"
  by (induction k v xs rule: upd_assoc.induct) auto

lemma set_upd_assoc:
  "distinct (map fst xs) \<Longrightarrow> set (upd_assoc k v xs) = insert (k, v) {p \<in> set xs. fst p \<noteq> k}"
  by (induction k v xs rule: upd_assoc.induct) force+

lemma map_of_None_iff: "map_of xs k = None \<longleftrightarrow> k \<notin> fst ` set xs"
  by (induction xs) auto

text \<open>Counting entries of an association list that satisfy a predicate.\<close>

definition count_if :: "('a \<Rightarrow> bool) \<Rightarrow> 'a list \<Rightarrow> nat" where
  "count_if P xs = length (filter P xs)"

lemma count_if_simps [simp]:
  "count_if P [] = 0"
  "count_if P (x # xs) = (if P x then Suc (count_if P xs) else count_if P xs)"
  "count_if P (xs @ ys) = count_if P xs + count_if P ys"
  by (simp_all add: count_if_def)

lemma count_if_le_length: "count_if P xs \<le> length xs"
  by (simp add: count_if_def)

lemma count_if_del_assoc_le: "count_if P (del_assoc k xs) \<le> count_if P xs"
  by (induction xs) (auto simp: del_assoc_def)

lemma count_if_del_assoc_less:
  "p \<in> set xs \<Longrightarrow> P p \<Longrightarrow> fst p = k \<Longrightarrow> count_if P (del_assoc k xs) < count_if P xs"
proof (induction xs)
  case Nil
  then show ?case by simp
next
  case (Cons x xs)
  have le: "count_if P (del_assoc k xs) \<le> count_if P xs" by (rule count_if_del_assoc_le)
  show ?case
  proof (cases "p = x")
    case True
    with Cons.prems le show ?thesis by (simp add: del_assoc_def)
  next
    case False
    with Cons have "count_if P (del_assoc k xs) < count_if P xs" by simp
    then show ?thesis by (auto simp: del_assoc_def)
  qed
qed

lemma count_if_upd_assoc_fresh:
  "k \<notin> fst ` set xs \<Longrightarrow> count_if P (upd_assoc k v xs) = count_if P xs + (if P (k, v) then 1 else 0)"
  by (induction k v xs rule: upd_assoc.induct) auto

lemma count_if_upd_assoc_le:
  "count_if P (upd_assoc k v xs) \<le> Suc (count_if P xs)"
  by (induction k v xs rule: upd_assoc.induct) auto

lemma count_if_upd_assoc_same:
  "map_of xs k = Some w \<Longrightarrow> (P (k, v) \<longrightarrow> P (k, w)) \<Longrightarrow>
   count_if P (upd_assoc k v xs) \<le> count_if P xs"
  by (induction k v xs rule: upd_assoc.induct) (auto split: if_splits)

lemma count_if_mono: "(\<And>x. P x \<Longrightarrow> R x) \<Longrightarrow> count_if P xs \<le> count_if R xs"
  by (induction xs) (auto intro: le_SucI)

text \<open>A list without its element at an index, as \<open>splice(k, 1)\<close> leaves it, and with another one there.\<close>

definition drop_nth :: "nat \<Rightarrow> 'a list \<Rightarrow> 'a list" where
  "drop_nth k xs = take k xs @ drop (Suc k) xs"

lemma set_drop_nth_subset: "set (drop_nth k xs) \<subseteq> set xs"
  by (auto simp: drop_nth_def dest: in_set_takeD in_set_dropD)

lemma length_drop_nth [simp]: "k < length xs \<Longrightarrow> length (drop_nth k xs) = length xs - 1"
  by (simp add: drop_nth_def)

lemma split_nth: "k < length xs \<Longrightarrow> xs = take k xs @ xs ! k # drop (Suc k) xs"
  by (rule id_take_nth_drop)

lemma count_if_drop_nth:
  "k < length xs \<Longrightarrow> count_if P xs = count_if P (drop_nth k xs) + (if P (xs ! k) then 1 else 0)"
  by (subst split_nth, assumption) (simp add: drop_nth_def)

lemma count_if_update:
  assumes "k < length xs"
  shows "count_if P (xs[k := x]) + (if P (xs ! k) then 1 else 0) = count_if P xs + (if P x then 1 else 0)"
proof -
  have "xs[k := x] = take k xs @ x # drop (Suc k) xs" using assms by (rule upd_conv_take_nth_drop)
  then have "count_if P (xs[k := x]) = count_if P (take k xs) + count_if P (drop (Suc k) xs) + (if P x then 1 else 0)" by simp
  moreover have "count_if P xs = count_if P (take k xs) + count_if P (drop (Suc k) xs) + (if P (xs ! k) then 1 else 0)"
    by (subst split_nth [OF assms]) simp
  ultimately show ?thesis by simp
qed

text \<open>Index of the last element that satisfies a predicate: a loop that counts down.\<close>

fun find_last_index :: "('a \<Rightarrow> bool) \<Rightarrow> 'a list \<Rightarrow> nat \<Rightarrow> nat option" where
  "find_last_index P xs 0 = None"
| "find_last_index P xs (Suc i) = (if P (xs ! i) then Some i else find_last_index P xs i)"

lemma find_last_index_Some:
  "find_last_index P xs n = Some i \<Longrightarrow> i < n \<and> P (xs ! i) \<and> (\<forall>j. i < j \<and> j < n \<longrightarrow> \<not> P (xs ! j))"
  by (induction n) (auto simp: less_Suc_eq split: if_splits)

lemma find_last_index_None:
  "find_last_index P xs n = None \<Longrightarrow> \<forall>j<n. \<not> P (xs ! j)"
  by (induction n) (auto simp: less_Suc_eq split: if_splits)

section \<open>JSON values\<close>

datatype json =
    JNull
  | JBool bool
  | JNum rat
  | JStr string
  | JArr "json list"
  | JObj "(string \<times> json) list"

definition is_integer_rat :: "rat \<Rightarrow> bool" where
  "is_integer_rat q = (snd (quotient_of q) = 1)"

text \<open>Rendering of a JSON number: the decimal expansion, which a double always has; the fuel
  bounds the digits after the point and 17 significant digits identify a double.\<close>

fun show_frac :: "nat \<Rightarrow> rat \<Rightarrow> string" where
  "show_frac 0 q = []"
| "show_frac (Suc n) q =
     (if q = 0 then [] else digit_char (nat \<lfloor>10 * q\<rfloor>) # show_frac n (10 * q - of_int \<lfloor>10 * q\<rfloor>))"

definition show_rat :: "rat \<Rightarrow> string" where
  "show_rat q =
     (if is_integer_rat q then show_int (fst (quotient_of q))
      else (if q < 0 then ''-'' else []) @ show_nat (nat \<lfloor>\<bar>q\<bar>\<rfloor>) @ ''.'' @
           show_frac 17 (\<bar>q\<bar> - of_int \<lfloor>\<bar>q\<bar>\<rfloor>))"

text \<open>\<open>String(value)\<close>: arrays are joined by commas with \<open>null\<close> printed as nothing.\<close>

fun js_string :: "json \<Rightarrow> string" where
  "js_string JNull = ''null''"
| "js_string (JBool b) = (if b then ''true'' else ''false'')"
| "js_string (JNum q) = show_rat q"
| "js_string (JStr s) = s"
| "js_string (JArr xs) = join '','' (map (\<lambda>x. if x = JNull then [] else js_string x) xs)"
| "js_string (JObj kvs) = ''[object Object]''"

end
