(* ===== verification/JsNumber.thy ===== *)
theory JsNumber
  imports Prelude
begin

text \<open>
  Double-precision arithmetic on the magnitudes the engine computes with. A JavaScript number
  is an exact rational here; every arithmetic operation of the sources whose result may be
  inexact is followed by \<open>rnd\<close>, which rounds to 53 significant bits, ties to even. Overflow
  to infinity and subnormals are outside the range of the token and time quantities modelled.
\<close>

definition pow2 :: "int \<Rightarrow> rat" where
  "pow2 e = (if 0 \<le> e then 2 ^ nat e else 1 / 2 ^ nat (- e))"

text \<open>Number of binary digits of an integer (0 for nonpositive ones).\<close>

function bit_length :: "int \<Rightarrow> nat" where
  "bit_length n = (if n \<le> 0 then 0 else Suc (bit_length (n div 2)))"
  by pat_completeness auto
termination
  by (relation "measure nat") auto

declare bit_length.simps [simp del]

text \<open>\<open>\<lfloor>log 2 x\<rfloor>\<close> of a positive rational, from the bit lengths of numerator and denominator.\<close>

definition lg2 :: "rat \<Rightarrow> int" where
  "lg2 x = (case quotient_of x of (p, q) \<Rightarrow>
     (let k = int (bit_length p) - int (bit_length q)
      in if pow2 k \<le> x then k else k - 1))"

definition round_half_even :: "rat \<Rightarrow> int" where
  "round_half_even m =
     (let f = \<lfloor>m\<rfloor>; r = m - of_int f
      in if r < 1 / 2 then f else if 1 / 2 < r then f + 1 else if even f then f else f + 1)"

definition rnd_pos :: "rat \<Rightarrow> rat" where
  "rnd_pos x = (let e = lg2 x - 52 in of_int (round_half_even (x / pow2 e)) * pow2 e)"

definition rnd :: "rat \<Rightarrow> rat" where
  "rnd x = (if x = 0 then 0 else if x < 0 then - rnd_pos (- x) else rnd_pos x)"

lemma pow2_pos [simp]: "0 < pow2 e"
  by (simp add: pow2_def)

lemma pow2_nonzero [simp]: "pow2 e \<noteq> 0"
  using pow2_pos [of e] by linarith

lemma pow2_powi: "pow2 e = 2 powi e"
  by (simp add: pow2_def power_int_def power_one_over inverse_eq_divide)

lemma pow2_add: "pow2 (a + b) = pow2 a * pow2 b"
  by (simp add: pow2_powi power_int_add)

lemma pow2_nat: "pow2 (int n) = 2 ^ n"
  by (simp add: pow2_def)

lemma pow2_mono: "a \<le> b \<Longrightarrow> pow2 a \<le> pow2 b"
  by (simp add: pow2_powi power_int_increasing)

lemma bit_length_bounds:
  "0 < n \<Longrightarrow> 2 ^ (bit_length n - 1) \<le> n \<and> n < 2 ^ bit_length n \<and> 0 < bit_length n"
proof (induction n rule: bit_length.induct)
  case (1 n)
  show ?case
  proof (cases "n = 1")
    case True
    then show ?thesis by (simp add: bit_length.simps)
  next
    case False
    with 1 have ih: "2 ^ (bit_length (n div 2) - 1) \<le> n div 2" "n div 2 < 2 ^ bit_length (n div 2)"
      "0 < bit_length (n div 2)" by auto
    have step: "bit_length n = Suc (bit_length (n div 2))" using "1.prems" by (simp add: bit_length.simps)
    have "(2 :: int) ^ bit_length (n div 2) = 2 * 2 ^ (bit_length (n div 2) - 1)"
      using ih(3) by (metis power_eq_if less_not_refl)
    with ih(1) have "2 ^ bit_length (n div 2) \<le> n" by linarith
    moreover have "n < 2 * 2 ^ bit_length (n div 2)" using ih(2) by linarith
    ultimately show ?thesis by (simp add: step)
  qed
qed

lemma bit_length_rat_bounds:
  assumes "0 < p"
  shows "pow2 (int (bit_length p) - 1) \<le> of_int p"
    and "of_int p < pow2 (int (bit_length p))"
proof -
  note b = bit_length_bounds [OF assms]
  have "int (bit_length p) - 1 = int (bit_length p - 1)" using b by simp
  then have "pow2 (int (bit_length p) - 1) = of_int (2 ^ (bit_length p - 1))" by (simp only: pow2_nat) simp
  then show "pow2 (int (bit_length p) - 1) \<le> of_int p" using b by (simp only: of_int_le_iff)
  have "pow2 (int (bit_length p)) = of_int (2 ^ bit_length p)" by (simp add: pow2_nat)
  then show "of_int p < pow2 (int (bit_length p))" using b by (simp only: of_int_less_iff)
qed

lemma lg2_bounds:
  assumes "0 < x"
  shows "pow2 (lg2 x) \<le> x" and "x < pow2 (lg2 x + 1)"
proof -
  obtain p q where pq: "quotient_of x = (p, q)" by (cases "quotient_of x")
  have x: "x = of_int p / of_int q" using pq by (rule quotient_of_div)
  have q: "0 < q" using pq by (rule quotient_of_denom_pos)
  have p: "0 < p" using assms x q by (simp add: zero_less_divide_iff)
  let ?a = "int (bit_length p)" and ?b = "int (bit_length q)"
  note P = bit_length_rat_bounds [OF p] and Q = bit_length_rat_bounds [OF q]
  have q': "(0 :: rat) < of_int q" using q by simp
  have up: "x < pow2 (?a - ?b + 1)"
  proof -
    have "pow2 (?a - ?b + 1) * of_int q \<ge> pow2 (?a - ?b + 1) * pow2 (?b - 1)"
      using Q(1) by (simp add: mult_left_mono)
    also have "pow2 (?a - ?b + 1) * pow2 (?b - 1) = pow2 ?a"
      by (simp flip: pow2_add)
    finally have "of_int p < pow2 (?a - ?b + 1) * of_int q" using P(2) by linarith
    then show ?thesis using q' x by (simp add: divide_less_eq)
  qed
  have lo: "pow2 (?a - ?b - 1) \<le> x"
  proof -
    have "pow2 (?a - ?b - 1) * of_int q \<le> pow2 (?a - ?b - 1) * pow2 ?b"
      using Q(2) by (simp add: mult_left_mono)
    also have "\<dots> = pow2 (?a - 1)" by (simp flip: pow2_add)
    finally have "pow2 (?a - ?b - 1) * of_int q \<le> of_int p" using P(1) by linarith
    then show ?thesis using q' x by (simp add: le_divide_eq)
  qed
  show "pow2 (lg2 x) \<le> x" using lo pq by (simp add: lg2_def Let_def)
  show "x < pow2 (lg2 x + 1)" using up pq by (auto simp: lg2_def Let_def)
qed

lemma round_half_even_ge:
  assumes "of_int n \<le> m"
  shows "n \<le> round_half_even m"
proof -
  have "n \<le> \<lfloor>m\<rfloor>" using assms by (simp add: le_floor_iff)
  then show ?thesis by (simp add: round_half_even_def Let_def)
qed

lemma round_half_even_of_int [simp]: "round_half_even (of_int n) = n"
  by (simp add: round_half_even_def)

lemma round_half_even_error: "of_int (round_half_even m) \<le> m + 1 / 2"
proof -
  have "of_int \<lfloor>m\<rfloor> \<le> m" by simp
  then have "of_int \<lfloor>m\<rfloor> \<le> m + 1 / 2" by linarith
  then show ?thesis by (simp add: round_half_even_def Let_def)
qed

lemma pow2_int_scale:
  assumes "e \<le> 0"
  shows "(of_int n :: rat) / pow2 e = of_int (n * 2 ^ nat (- e))"
  using assms by (simp add: pow2_def)

lemma rnd_ge_int:
  assumes "of_int n \<le> x" and "0 < x" and "n \<le> 2 ^ 53"
  shows "of_int n \<le> rnd x"
proof -
  define e where "e = lg2 x - 52"
  have rx: "rnd x = of_int (round_half_even (x / pow2 e)) * pow2 e"
    using assms(2) by (simp add: rnd_def rnd_pos_def e_def Let_def)
  show ?thesis
  proof (cases "e \<le> 0")
    case True
    have "of_int (n * 2 ^ nat (- e)) \<le> x / pow2 e"
      using assms(1) pow2_int_scale [OF True, of n]
      by (metis divide_right_mono less_imp_le pow2_pos)
    then have "n * 2 ^ nat (- e) \<le> round_half_even (x / pow2 e)" by (rule round_half_even_ge)
    then have "of_int n / pow2 e \<le> of_int (round_half_even (x / pow2 e))"
      using pow2_int_scale [OF True, of n] by (metis of_int_le_iff)
    then show ?thesis unfolding rx by (simp add: divide_le_eq)
  next
    case False
    have "pow2 (52 + e) \<le> x" using lg2_bounds(1) [OF assms(2)] by (simp add: e_def)
    then have "of_int (2 ^ 52) \<le> x / pow2 e"
      using pow2_nat [of 52] by (simp add: le_divide_eq pow2_add)
    then have "2 ^ 52 \<le> round_half_even (x / pow2 e)" by (rule round_half_even_ge)
    then have a: "(2 ^ 52 :: rat) \<le> of_int (round_half_even (x / pow2 e))"
      by (metis of_int_le_iff of_int_numeral of_int_power)
    have b: "2 \<le> pow2 e" using pow2_mono [of 1 e] False by (simp add: pow2_def)
    have "(2 ^ 52 :: rat) * 2 \<le> of_int (round_half_even (x / pow2 e)) * pow2 e"
      using a b by (intro mult_mono) auto
    moreover have "(of_int n :: rat) \<le> 2 ^ 52 * 2"
      using assms(3) of_int_le_iff [of n "2 ^ 53", where 'a = rat] by simp
    ultimately show ?thesis unfolding rx by linarith
  qed
qed

text \<open>The unit roundoff, and the relative error bound of one rounding from above.\<close>

definition unit_roundoff :: rat where
  "unit_roundoff = 1 / 2 ^ 53"

lemma rnd_le:
  assumes "0 \<le> x"
  shows "rnd x \<le> x * (1 + unit_roundoff)"
proof (cases "x = 0")
  case True
  then show ?thesis by (simp add: rnd_def)
next
  case False
  with assms have x: "0 < x" by simp
  define e where "e = lg2 x - 52"
  have rx: "rnd x = of_int (round_half_even (x / pow2 e)) * pow2 e"
    using x by (simp add: rnd_def rnd_pos_def e_def Let_def)
  have "rnd x \<le> (x / pow2 e + 1 / 2) * pow2 e"
    unfolding rx by (intro mult_right_mono round_half_even_error) (simp add: less_imp_le)
  also have "\<dots> = x + pow2 e / 2" by (simp add: distrib_right)
  also have "pow2 e / 2 \<le> x * unit_roundoff"
  proof -
    have "pow2 52 * pow2 e \<le> x" using lg2_bounds(1) [OF x] by (simp add: e_def flip: pow2_add)
    then have "2 ^ 52 * pow2 e \<le> x" using pow2_nat [of 52] by simp
    then show ?thesis by (simp add: unit_roundoff_def field_simps)
  qed
  finally show ?thesis by (simp add: distrib_left)
qed

lemma rnd_nonneg: "0 \<le> x \<Longrightarrow> 0 \<le> rnd x"
  using rnd_ge_int [of 0 x] by (cases "x = 0") (auto simp: rnd_def)

lemma rnd_int_exact:
  assumes "0 \<le> n" and "n < 2 ^ 53"
  shows "rnd (of_int n) = of_int n"
proof (cases "n = 0")
  case True
  then show ?thesis by (simp add: rnd_def)
next
  case False
  with assms(1) have n: "(0 :: rat) < of_int n" by simp
  define e where "e = lg2 (of_int n) - 52"
  have rx: "rnd (of_int n) = of_int (round_half_even (of_int n / pow2 e)) * pow2 e"
    using n by (simp add: rnd_def rnd_pos_def e_def Let_def)
  have e: "e \<le> 0"
  proof (rule ccontr)
    assume "\<not> e \<le> 0"
    then have "pow2 53 \<le> pow2 (lg2 (of_int n))" by (intro pow2_mono) (simp add: e_def)
    also have "\<dots> \<le> of_int n" by (rule lg2_bounds(1) [OF n])
    finally have "(of_int (2 ^ 53) :: rat) \<le> of_int n" using pow2_nat [of 53] by simp
    then show False using assms(2) by (simp only: of_int_le_iff)
  qed
  show ?thesis
    unfolding rx pow2_int_scale [OF e] round_half_even_of_int
    using pow2_int_scale [OF e, of n] by (simp add: divide_eq_eq)
qed

end
