(* ===== verification/RunGuards.thy ===== *)
theory RunGuards
  imports JsNumber "HOL-Library.List_Lexorder" "HOL-Library.Char_ord" "HOL-Library.Multiset"
begin

text \<open>
  The two guards every agent run carries: the shared token budget
  (\<open>packages/api/src/engine/budget-tracker.ts\<close>) and the detector of repeated failing tool
  calls (\<open>packages/api/src/engine/tool-loop-guard.ts\<close>). The tracker's fields are a record and
  its methods state transformers; the guard throws \<open>LoopAbortedError\<close> as an \<open>Inl\<close>.
\<close>

section \<open>BudgetTracker\<close>

record llm_usage =
  inputTokens :: nat
  outputTokens :: nat
  totalTokens :: nat
  cacheCreationInputTokens :: "nat option"
  cacheReadInputTokens :: "nat option"

record tracker =
  bt_used :: nat
  bt_graceInjected :: bool
  bt_budget :: "nat option"
  bt_graceLimit :: "nat option"
  bt_gracePercent :: nat

text \<open>\<open>Math.ceil(budget * (1 + gracePercent / 100))\<close>, each operation rounded to a double.\<close>

definition grace_limit :: "nat \<Rightarrow> nat \<Rightarrow> nat" where
  "grace_limit b p = nat \<lceil>rnd (of_nat b * rnd (1 + rnd (of_nat p / 100)))\<rceil>"

definition new_tracker :: "nat option \<Rightarrow> nat \<Rightarrow> nat \<Rightarrow> tracker" where
  "new_tracker b p initialUsed =
     \<lparr>bt_used = initialUsed, bt_graceInjected = False, bt_budget = b,
      bt_graceLimit = (case b of None \<Rightarrow> None | Some n \<Rightarrow> Some (grace_limit n p)),
      bt_gracePercent = p\<rparr>"

definition bt_record :: "llm_usage \<Rightarrow> tracker \<Rightarrow> tracker" where
  "bt_record u t = t\<lparr>bt_used := bt_used t + (inputTokens u + outputTokens u)\<rparr>"

definition is_over_grace :: "tracker \<Rightarrow> bool" where
  "is_over_grace t = (case bt_graceLimit t of None \<Rightarrow> False | Some g \<Rightarrow> g \<le> bt_used t)"

definition should_inject_grace :: "tracker \<Rightarrow> bool" where
  "should_inject_grace t =
     (case bt_budget t of
        None \<Rightarrow> False
      | Some b \<Rightarrow> \<not> bt_graceInjected t \<and> b \<le> bt_used t \<and> \<not> is_over_grace t)"

definition mark_grace_injected :: "tracker \<Rightarrow> tracker" where
  "mark_grace_injected t = t\<lparr>bt_graceInjected := True\<rparr>"

text \<open>The tracker's own invariant: the limits are those its constructor computed.\<close>

definition tracker_wf :: "tracker \<Rightarrow> bool" where
  "tracker_wf t =
     (bt_graceLimit t = map_option (\<lambda>b. grace_limit b (bt_gracePercent t)) (bt_budget t))"

lemma tracker_wf_new [inv_intro]: "tracker_wf (new_tracker b p n)"
  by (simp add: tracker_wf_def new_tracker_def split: option.split)

lemma tracker_wf_record [inv_intro]: "tracker_wf t \<Longrightarrow> tracker_wf (bt_record u t)"
  by (simp add: tracker_wf_def bt_record_def)

lemma tracker_wf_mark [inv_intro]: "tracker_wf t \<Longrightarrow> tracker_wf (mark_grace_injected t)"
  by (simp add: tracker_wf_def mark_grace_injected_def)

lemma bt_record_frame [frame]:
  "bt_budget (bt_record u t) = bt_budget t"
  "bt_graceLimit (bt_record u t) = bt_graceLimit t"
  "bt_graceInjected (bt_record u t) = bt_graceInjected t"
  "bt_used (bt_record u t) = bt_used t + (inputTokens u + outputTokens u)"
  by (simp_all add: bt_record_def)

lemma mark_grace_frame [frame]:
  "bt_budget (mark_grace_injected t) = bt_budget t"
  "bt_graceLimit (mark_grace_injected t) = bt_graceLimit t"
  "bt_used (mark_grace_injected t) = bt_used t"
  "bt_graceInjected (mark_grace_injected t)"
  by (simp_all add: mark_grace_injected_def)

text \<open>Once past the hard limit, recording more usage stays past it.\<close>

lemma is_over_grace_mono:
  "bt_graceLimit t' = bt_graceLimit t \<Longrightarrow> bt_used t \<le> bt_used t' \<Longrightarrow> is_over_grace t \<Longrightarrow> is_over_grace t'"
  by (auto simp: is_over_grace_def split: option.splits)

lemma rnd_percent_factor: "1 \<le> rnd (1 + rnd (of_nat p / 100))"
proof -
  have "0 \<le> rnd (of_nat p / 100)" by (rule rnd_nonneg) simp
  then show ?thesis using rnd_ge_int [of 1 "1 + rnd (of_nat p / 100)"] by simp
qed

lemma grace_limit_ge:
  assumes "b \<le> 2 ^ 53"
  shows "b \<le> grace_limit b p"
proof (cases "b = 0")
  case True
  then show ?thesis by simp
next
  case False
  let ?f = "rnd (1 + rnd (of_nat p / 100))"
  have "of_nat b * 1 \<le> of_nat b * ?f" by (intro mult_left_mono rnd_percent_factor) simp
  then have le: "of_int (int b) \<le> of_nat b * ?f" by simp
  have "(0 :: rat) < of_nat b" using False by simp
  with le have pos: "0 < of_nat b * ?f" by simp
  have bd: "int b \<le> 2 ^ 53" using assms by (simp add: numeral_power_le_of_nat_cancel_iff)
  from rnd_ge_int [OF le pos bd] have "of_int (int b) \<le> rnd (of_nat b * ?f)" .
  then have "int b \<le> \<lceil>rnd (of_nat b * ?f)\<rceil>" by linarith
  then show ?thesis unfolding grace_limit_def by linarith
qed

lemma three_roundings:
  "(1 + unit_roundoff) * (1 + unit_roundoff) * (1 + unit_roundoff) \<le> 1 + 4 * unit_roundoff"
  by (simp add: unit_roundoff_def)

lemma grace_product_le:
  "rnd (of_nat b * rnd (1 + rnd (of_nat p / 100)))
     \<le> of_nat b * (1 + of_nat p / 100) * (1 + 4 * unit_roundoff)"
proof -
  let ?u = "1 + unit_roundoff" and ?q = "of_nat p / 100 :: rat"
  have u: "1 \<le> ?u" by (simp add: unit_roundoff_def)
  have q0: "0 \<le> rnd ?q" by (rule rnd_nonneg) simp
  have f0: "0 \<le> rnd (1 + rnd ?q)" using rnd_percent_factor [of p] by linarith
  have "rnd ?q \<le> ?q * ?u" by (rule rnd_le) simp
  then have "1 + rnd ?q \<le> (1 + ?q) * ?u" using u by (simp add: distrib_right)
  moreover have "rnd (1 + rnd ?q) \<le> (1 + rnd ?q) * ?u" by (rule rnd_le) (use q0 in simp)
  moreover have "(1 + rnd ?q) * ?u \<le> (1 + ?q) * ?u * ?u"
    using calculation(1) u by (intro mult_right_mono) simp_all
  ultimately have f: "rnd (1 + rnd ?q) \<le> (1 + ?q) * ?u * ?u" by linarith
  have "rnd (of_nat b * rnd (1 + rnd ?q)) \<le> of_nat b * rnd (1 + rnd ?q) * ?u"
    by (rule rnd_le) (use f0 in simp)
  also have "\<dots> \<le> of_nat b * ((1 + ?q) * ?u * ?u) * ?u"
    using f u by (intro mult_right_mono mult_left_mono) simp_all
  also have "\<dots> = of_nat b * (1 + ?q) * (?u * ?u * ?u)" by (simp add: mult.assoc)
  also have "\<dots> \<le> of_nat b * (1 + ?q) * (1 + 4 * unit_roundoff)"
    by (intro mult_left_mono three_roundings) simp
  finally show ?thesis .
qed

lemma grace_limit_le_exact:
  assumes "of_nat b * (1 + of_nat p / 100) \<le> (2 ^ 50 :: rat)"
  shows "int (grace_limit b p) \<le> \<lceil>of_nat b * (1 + of_nat p / 100) :: rat\<rceil> + 1"
proof -
  let ?X = "of_nat b * (1 + of_nat p / 100) :: rat"
  have "?X * (4 * unit_roundoff) \<le> 2 ^ 50 * (4 * unit_roundoff)"
    using assms by (intro mult_right_mono) (simp_all add: unit_roundoff_def)
  also have "\<dots> \<le> 1" by (simp add: unit_roundoff_def)
  finally have "?X * (1 + 4 * unit_roundoff) \<le> ?X + 1" by (simp add: distrib_left)
  with grace_product_le [of b p]
  have "rnd (of_nat b * rnd (1 + rnd (of_nat p / 100))) \<le> ?X + 1" by linarith
  then have "\<lceil>rnd (of_nat b * rnd (1 + rnd (of_nat p / 100)))\<rceil> \<le> \<lceil>?X + 1\<rceil>"
    by (rule ceiling_mono)
  also have "\<lceil>?X + 1\<rceil> = \<lceil>?X\<rceil> + 1" by simp
  finally have "\<lceil>rnd (of_nat b * rnd (1 + rnd (of_nat p / 100)))\<rceil> \<le> \<lceil>?X\<rceil> + 1" .
  moreover have "0 \<le> \<lceil>?X\<rceil>" by (simp add: zero_le_ceiling) (rule less_le_trans [of _ 0], auto)
  ultimately show ?thesis unfolding grace_limit_def by linarith
qed

section \<open>ToolLoopGuard\<close>

text \<open>\<open>JSON.stringify\<close> of a string: quotes, backslashes and control characters escaped.\<close>

definition hex_digit :: "nat \<Rightarrow> char" where
  "hex_digit d = (if d < 10 then char_of (48 + d) else char_of (87 + d))"

definition json_escape_char :: "char \<Rightarrow> string" where
  "json_escape_char c =
     (let k = (of_char c :: nat) in
      if k = 34 then [char_of (92 :: nat), char_of (34 :: nat)]
      else if k = 92 then [char_of (92 :: nat), char_of (92 :: nat)]
      else if k = 8 then char_of (92 :: nat) # ''b''
      else if k = 9 then char_of (92 :: nat) # ''t''
      else if k = 10 then char_of (92 :: nat) # ''n''
      else if k = 12 then char_of (92 :: nat) # ''f''
      else if k = 13 then char_of (92 :: nat) # ''r''
      else if k < 32 then char_of (92 :: nat) # ''u00'' @ [hex_digit (k div 16), hex_digit (k mod 16)]
      else [c])"

definition json_quote :: "string \<Rightarrow> string" where
  "json_quote s = char_of (34 :: nat) # concat (map json_escape_char s) @ [char_of (34 :: nat)]"

fun stable_stringify :: "json \<Rightarrow> string" where
  "stable_stringify JNull = ''null''"
| "stable_stringify (JBool b) = (if b then ''true'' else ''false'')"
| "stable_stringify (JNum q) = show_rat q"
| "stable_stringify (JStr s) = json_quote s"
| "stable_stringify (JArr xs) = ''['' @ join '','' (map stable_stringify xs) @ '']''"
| "stable_stringify (JObj kvs) =
     ''{'' @ join '','' (map (\<lambda>(k, s). json_quote k @ '':'' @ s)
                       (sort_key fst (map (\<lambda>(k, v). (k, stable_stringify v)) kvs))) @ ''}''"

definition canonicalize_args :: "string \<Rightarrow> json \<Rightarrow> string" where
  "canonicalize_args toolName args = toolName @ '':'' @ stable_stringify args"

record loop_guard =
  lastFailingHash :: "string option"
  consecutiveFailures :: nat

datatype loop_aborted = LoopAbortedError string json

definition tool_loop_threshold :: nat where
  "tool_loop_threshold = 3"

definition new_guard :: loop_guard where
  "new_guard = \<lparr>lastFailingHash = None, consecutiveFailures = 0\<rparr>"

definition guard_record :: "string \<Rightarrow> json \<Rightarrow> bool \<Rightarrow> loop_guard \<Rightarrow> loop_aborted + loop_guard" where
  "guard_record toolName args isError g =
     (let hash = canonicalize_args toolName args in
      if isError \<and> lastFailingHash g = Some hash then
        (let g' = g\<lparr>consecutiveFailures := consecutiveFailures g + 1\<rparr> in
         if tool_loop_threshold \<le> consecutiveFailures g' then Inl (LoopAbortedError toolName args)
         else Inr g')
      else if isError then Inr (g\<lparr>lastFailingHash := Some hash, consecutiveFailures := 1\<rparr>)
      else Inr (g\<lparr>lastFailingHash := None, consecutiveFailures := 0\<rparr>))"

text \<open>A run of recorded calls; the exception ends it.\<close>

type_synonym recorded_call = "string \<times> json \<times> bool"

fun guard_run :: "loop_guard \<Rightarrow> recorded_call list \<Rightarrow> loop_aborted + loop_guard" where
  "guard_run g [] = Inr g"
| "guard_run g ((n, a, e) # cs) =
     (case guard_record n a e g of Inl x \<Rightarrow> Inl x | Inr g' \<Rightarrow> guard_run g' cs)"

text \<open>The specification looks at the calls alone: a failing call is identified by its hash, and
  the run must stop when three in a row carry the same one.\<close>

definition failing_hash :: "recorded_call \<Rightarrow> string option" where
  "failing_hash c = (case c of (n, a, e) \<Rightarrow> if e then Some (canonicalize_args n a) else None)"

fun three_in_a_row :: "'a option list \<Rightarrow> bool" where
  "three_in_a_row (a # b # c # hs) =
     ((a \<noteq> None \<and> a = b \<and> b = c) \<or> three_in_a_row (b # c # hs))"
| "three_in_a_row _ = False"

text \<open>The guard's state summarises the calls so far: the current streak.\<close>

definition streak :: "loop_guard \<Rightarrow> string option list" where
  "streak g = (case lastFailingHash g of None \<Rightarrow> [] | Some h \<Rightarrow> replicate (consecutiveFailures g) (Some h))"

definition guard_wf :: "loop_guard \<Rightarrow> bool" where
  "guard_wf g = (case lastFailingHash g of
      None \<Rightarrow> consecutiveFailures g = 0
    | Some h \<Rightarrow> consecutiveFailures g = 1 \<or> consecutiveFailures g = 2)"

lemma guard_wf_new [inv_intro]: "guard_wf new_guard"
  by (simp add: guard_wf_def new_guard_def)

lemma guard_wf_record [inv_intro]:
  "guard_wf g \<Longrightarrow> guard_record n a e g = Inr g' \<Longrightarrow> guard_wf g'"
  by (auto simp: guard_wf_def guard_record_def tool_loop_threshold_def Let_def
      split: if_splits option.splits)

lemma three_in_a_row_None [simp]: "three_in_a_row (None # hs) = three_in_a_row hs"
  by (cases hs rule: three_in_a_row.cases) auto

lemma three_in_a_row_None2 [simp]: "three_in_a_row (a # None # hs) = three_in_a_row hs"
  by (cases hs) auto

lemma three_in_a_row_None3 [simp]: "three_in_a_row (a # b # None # hs) = three_in_a_row hs"
  by (cases b) auto

lemma three_in_a_row_switch:
  "x \<noteq> y \<Longrightarrow> three_in_a_row (x # y # hs) = three_in_a_row (y # hs)"
  by (cases hs) auto

lemma three_in_a_row_switch2:
  "x \<noteq> y \<Longrightarrow> three_in_a_row (x # x # y # hs) = three_in_a_row (y # hs)"
  by (simp add: three_in_a_row_switch)

lemma guard_wf_cases:
  assumes "guard_wf g"
  obtains (none) "lastFailingHash g = None" "consecutiveFailures g = 0"
    | (one) h where "lastFailingHash g = Some h" "consecutiveFailures g = 1"
    | (two) h where "lastFailingHash g = Some h" "consecutiveFailures g = 2"
  using assms by (auto simp: guard_wf_def split: option.splits)

lemma streak_simps:
  "lastFailingHash g = None \<Longrightarrow> streak g = []"
  "lastFailingHash g = Some h \<Longrightarrow> consecutiveFailures g = 1 \<Longrightarrow> streak g = [Some h]"
  "lastFailingHash g = Some h \<Longrightarrow> consecutiveFailures g = 2 \<Longrightarrow> streak g = [Some h, Some h]"
  by (simp_all add: streak_def numeral_eq_Suc)

lemma guard_record_streak:
  assumes "guard_wf g"
  shows "three_in_a_row (streak g @ failing_hash (n, a, e) # hs) =
    (case guard_record n a e g of Inl _ \<Rightarrow> True | Inr g' \<Rightarrow> three_in_a_row (streak g' @ hs))"
  using assms
proof (cases rule: guard_wf_cases)
  case none
  then show ?thesis
    by (cases e) (simp_all add: guard_record_def failing_hash_def streak_def Let_def)
next
  case (one h)
  then show ?thesis
    by (cases e; cases "h = canonicalize_args n a")
      (simp_all add: guard_record_def failing_hash_def streak_def Let_def tool_loop_threshold_def
        three_in_a_row_switch numeral_eq_Suc)
next
  case (two h)
  then show ?thesis
    by (cases e; cases "h = canonicalize_args n a")
      (simp_all add: guard_record_def failing_hash_def streak_def Let_def tool_loop_threshold_def
        three_in_a_row_switch three_in_a_row_switch2 numeral_eq_Suc)
qed

lemma guard_run_streak:
  "guard_wf g \<Longrightarrow>
   isl (guard_run g cs) = three_in_a_row (streak g @ map failing_hash cs)"
proof (induction g cs rule: guard_run.induct)
  case (1 g)
  from 1 show ?case
    by (cases rule: guard_wf_cases) (simp_all add: streak_def numeral_eq_Suc)
next
  case (2 g n a e cs)
  show ?case
  proof (cases "guard_record n a e g")
    case (Inl x)
    then show ?thesis using guard_record_streak [OF "2.prems", of n a e "map failing_hash cs"] by simp
  next
    case (Inr g')
    then have "guard_wf g'" using "2.prems" by (rule guard_wf_record [rotated])
    then show ?thesis
      using Inr "2.IH" [OF Inr] guard_record_streak [OF "2.prems", of n a e "map failing_hash cs"]
      by simp
  qed
qed

lemma streak_new [simp]: "streak new_guard = []"
  by (simp add: streak_def new_guard_def)

lemma three_in_a_row_iff:
  "three_in_a_row hs \<longleftrightarrow> (\<exists>xs x ys. hs = xs @ [Some x, Some x, Some x] @ ys)"
proof (induction hs rule: three_in_a_row.induct)
  case (1 a b c hs)
  show ?case
  proof
    assume "three_in_a_row (a # b # c # hs)"
    then consider "a \<noteq> None \<and> a = b \<and> b = c" | "three_in_a_row (b # c # hs)" by auto
    then show "\<exists>xs w ys. a # b # c # hs = xs @ [Some w, Some w, Some w] @ ys"
    proof cases
      case 1
      then show ?thesis by (intro exI [of _ "[]"]) auto
    next
      case 2
      then obtain xs w ys where "b # c # hs = xs @ [Some w, Some w, Some w] @ ys"
        using "1.IH" by blast
      then show ?thesis by (intro exI [of _ "a # xs"]) auto
    qed
  next
    assume "\<exists>xs w ys. a # b # c # hs = xs @ [Some w, Some w, Some w] @ ys"
    then obtain xs w ys where eq: "a # b # c # hs = xs @ [Some w, Some w, Some w] @ ys"
      by blast
    show "three_in_a_row (a # b # c # hs)"
    proof (cases xs)
      case Nil
      then show ?thesis using eq by simp
    next
      case (Cons v vs)
      then have "\<exists>xs w ys. b # c # hs = xs @ [Some w, Some w, Some w] @ ys" using eq by auto
      then have "three_in_a_row (b # c # hs)" using "1.IH" by blast
      then show ?thesis by simp
    qed
  qed
qed (auto simp: Cons_eq_append_conv append_eq_Cons_conv)

text \<open>Key order does not matter to the hash.\<close>

lemma sort_key_eq_of_mset:
  assumes "mset xs = mset ys" and "distinct (map fst xs)"
  shows "sort_key fst xs = (sort_key fst ys :: ('a :: linorder \<times> 'b) list)"
proof (rule sort_key_inj_key_eq)
  show "mset xs = mset (sort_key fst ys)" using assms(1) by simp
  show "inj_on fst (set xs)" using assms(2) by (simp add: distinct_map)
  show "sorted (map fst (sort_key fst ys))" by simp
qed

lemma stable_stringify_permuted:
  assumes "mset kvs = mset kvs'" and "distinct (map fst kvs)"
  shows "stable_stringify (JObj kvs) = stable_stringify (JObj kvs')"
proof -
  let ?f = "\<lambda>(k :: string, v). (k, stable_stringify v)"
  have m: "mset (map ?f kvs) = mset (map ?f kvs')" using assms(1) by simp
  have d: "distinct (map fst (map ?f kvs))"
    using assms(2) by (simp add: case_prod_beta comp_def)
  have "sort_key fst (map ?f kvs) = sort_key fst (map ?f kvs')"
    using m d by (intro sort_key_eq_of_mset)
  then show ?thesis by simp
qed

section \<open>Properties\<close>

text \<open>
  C7: The tool-loop guard stops a run exactly when three consecutive recorded calls fail with
  the same canonical hash of tool name and arguments: no earlier, no later, and whatever the
  calls before and after are.
\<close>

theorem tool_loop_guard_exact:
  "isl (guard_run new_guard cs) \<longleftrightarrow>
     (\<exists>before h after. map failing_hash cs = before @ [Some h, Some h, Some h] @ after)"
  by (simp add: guard_run_streak [OF guard_wf_new] three_in_a_row_iff)

text \<open>
  The hash does not depend on the order of the keys of the arguments object, so the same
  call with reordered keys is recognised as the same call.
\<close>

theorem canonical_args_key_order:
  assumes "mset kvs = mset kvs'" and "distinct (map fst kvs)"
  shows "canonicalize_args n (JObj kvs) = canonicalize_args n (JObj kvs')"
  unfolding canonicalize_args_def by (simp only: stable_stringify_permuted [OF assms])

theorem canonical_args_key_order_witness:
  "canonicalize_args ''t'' (JObj [(''b'', JNum 1), (''a'', JNull)])
     = canonicalize_args ''t'' (JObj [(''a'', JNull), (''b'', JNum 1)])"
  by (rule canonical_args_key_order) simp_all

text \<open>
  The hard limit of a token budget, computed in double arithmetic, is never below the soft
  budget and never more than one token above the exact rounded-up percentage; below the budget
  neither stop fires, and the soft and the hard stop never fire together.
\<close>

theorem budget_limits:
  assumes "b \<le> 2 ^ 53" and "of_nat b * (1 + of_nat p / 100) \<le> (2 ^ 50 :: rat)"
    and "tracker_wf t" and "bt_budget t = Some b" and "bt_gracePercent t = p"
  shows "b \<le> grace_limit b p \<and>
    int (grace_limit b p) \<le> \<lceil>of_nat b * (1 + of_nat p / 100) :: rat\<rceil> + 1 \<and>
    (bt_used t < b \<longrightarrow> \<not> is_over_grace t \<and> \<not> should_inject_grace t) \<and>
    \<not> (is_over_grace t \<and> should_inject_grace t)"
proof (intro conjI)
  show g: "b \<le> grace_limit b p" using assms(1) by (rule grace_limit_ge)
  show "int (grace_limit b p) \<le> \<lceil>of_nat b * (1 + of_nat p / 100) :: rat\<rceil> + 1"
    using assms(2) by (rule grace_limit_le_exact)
  show "bt_used t < b \<longrightarrow> \<not> is_over_grace t \<and> \<not> should_inject_grace t"
    using g assms(3-5) by (auto simp: tracker_wf_def is_over_grace_def should_inject_grace_def)
  show "\<not> (is_over_grace t \<and> should_inject_grace t)"
    by (simp add: should_inject_grace_def split: option.split)
qed

theorem budget_limits_witness:
  "(100 \<le> grace_limit 100 10 \<and> int (grace_limit 100 10) \<le> \<lceil>110 :: rat\<rceil> + 1) \<and> grace_limit 100 10 = 111"
proof -
  let ?t = "new_tracker (Some 100) 10 0"
  have h: "(100 :: nat) \<le> 2 ^ 53" "of_nat 100 * (1 + of_nat 10 / 100) \<le> (2 ^ 50 :: rat)"
    "tracker_wf ?t" "bt_budget ?t = Some 100" "bt_gracePercent ?t = 10"
    by (simp_all add: tracker_wf_new) (simp_all add: new_tracker_def)
  have "grace_limit 100 10 = 111" by code_simp
  then show ?thesis using budget_limits [OF h] by simp
qed

end
