(* ===== verification/Chat.thy ===== *)
theory Chat
  imports RunGuards
begin

text \<open>
  The conversation types every engine component shares
  (\<open>packages/shared/src/providers/types.ts\<close>, \<open>provider.ts\<close>): messages, tool calls, responses,
  options, and the runtime guards on them. It also says what a well-paired conversation is:
  every tool result answers a tool call made earlier, which providers reject otherwise.
\<close>

datatype role = System | User | Assistant | Tool

primrec role_name :: "role \<Rightarrow> string" where
  "role_name System = ''system''"
| "role_name User = ''user''"
| "role_name Assistant = ''assistant''"
| "role_name Tool = ''tool''"

record tool_call =
  tc_id :: string
  tc_name :: string
  tc_arguments :: json

record chat_message =
  msg_role :: role
  msg_content :: string
  msg_senderId :: "string option"
  msg_toolCallId :: "string option"
  msg_toolCalls :: "tool_call list option"

text \<open>The object literals of the sources: only \<open>role\<close> and \<open>content\<close> set.\<close>

definition plain_msg :: "role \<Rightarrow> string \<Rightarrow> chat_message" where
  "plain_msg r c = \<lparr>msg_role = r, msg_content = c, msg_senderId = None,
     msg_toolCallId = None, msg_toolCalls = None\<rparr>"

definition tool_result_msg :: "string \<Rightarrow> string \<Rightarrow> chat_message" where
  "tool_result_msg c i = (plain_msg Tool c)\<lparr>msg_toolCallId := Some i\<rparr>"

definition assistant_calls_msg :: "string \<Rightarrow> tool_call list \<Rightarrow> chat_message" where
  "assistant_calls_msg c tcs = (plain_msg Assistant c)\<lparr>msg_toolCalls := Some tcs\<rparr>"

lemma plain_msg_simps [simp]:
  "msg_role (plain_msg r c) = r"
  "msg_content (plain_msg r c) = c"
  "msg_toolCallId (plain_msg r c) = None"
  "msg_toolCalls (plain_msg r c) = None"
  by (simp_all add: plain_msg_def)

lemma tool_result_msg_simps [simp]:
  "msg_role (tool_result_msg c i) = Tool"
  "msg_toolCallId (tool_result_msg c i) = Some i"
  "msg_toolCalls (tool_result_msg c i) = None"
  by (simp_all add: tool_result_msg_def)

lemma assistant_calls_msg_simps [simp]:
  "msg_role (assistant_calls_msg c tcs) = Assistant"
  "msg_toolCallId (assistant_calls_msg c tcs) = None"
  "msg_toolCalls (assistant_calls_msg c tcs) = Some tcs"
  by (simp_all add: assistant_calls_msg_def)

datatype finish_reason = FStop | FToolUse | FMaxTokens | FError

record llm_response =
  resp_content :: "string option"
  resp_toolCalls :: "tool_call list"
  resp_finishReason :: finish_reason
  resp_usage :: llm_usage

record generation_settings =
  gs_temperature :: "rat option"
  gs_maxTokens :: "nat option"
  gs_topP :: "rat option"
  gs_stopSequences :: "string list option"

definition empty_settings :: generation_settings where
  "empty_settings = \<lparr>gs_temperature = None, gs_maxTokens = None, gs_topP = None, gs_stopSequences = None\<rparr>"

record tool_definition =
  td_name :: string
  td_description :: string
  td_inputSchema :: json

record chat_options =
  co_model :: "string option"
  co_tools :: "tool_definition list option"
  co_settings :: "generation_settings option"

definition zero_usage :: llm_usage where
  "zero_usage = \<lparr>inputTokens = 0, outputTokens = 0, totalTokens = 0,
     cacheCreationInputTokens = None, cacheReadInputTokens = None\<rparr>"

text \<open>What a tool execution returns (\<open>engine/tool.ts\<close>).\<close>

record tool_result =
  tr_output :: string
  tr_isError :: bool

text \<open>\<open>isToolCallRequest\<close> on an arbitrary JSON value; \<open>None\<close> is \<open>undefined\<close>.\<close>

definition is_tool_call_request :: "json option \<Rightarrow> bool" where
  "is_tool_call_request v =
     (case v of
        Some (JObj kvs) \<Rightarrow>
          (case map_of kvs ''id'' of Some (JStr _) \<Rightarrow> True | _ \<Rightarrow> False) \<and>
          (case map_of kvs ''name'' of Some (JStr _) \<Rightarrow> True | _ \<Rightarrow> False) \<and>
          (case map_of kvs ''arguments'' of Some (JObj _) \<Rightarrow> True | _ \<Rightarrow> False)
      | _ \<Rightarrow> False)"

text \<open>\<open>createLLMResponse\<close>: each field defaults when it is absent. An explicit \<open>null\<close> content is
  the same as an absent one.\<close>

record partial_response =
  pr_content :: "string option"
  pr_toolCalls :: "tool_call list option"
  pr_finishReason :: "finish_reason option"
  pr_usage :: "llm_usage option"

definition create_llm_response :: "partial_response \<Rightarrow> llm_response" where
  "create_llm_response p =
     \<lparr>resp_content = pr_content p,
      resp_toolCalls = (case pr_toolCalls p of None \<Rightarrow> [] | Some t \<Rightarrow> t),
      resp_finishReason = (case pr_finishReason p of None \<Rightarrow> FStop | Some f \<Rightarrow> f),
      resp_usage = (case pr_usage p of None \<Rightarrow> zero_usage | Some u \<Rightarrow> u)\<rparr>"

section \<open>Well-paired conversations\<close>

text \<open>Ids of the tool calls an assistant message carries, and the scan that checks that every
  tool result's id was issued before it.\<close>

definition issued_ids :: "chat_message \<Rightarrow> string list" where
  "issued_ids m =
     (if msg_role m = Assistant then (case msg_toolCalls m of None \<Rightarrow> [] | Some tcs \<Rightarrow> map tc_id tcs) else [])"

definition answers :: "chat_message \<Rightarrow> string option" where
  "answers m = (if msg_role m = Tool then msg_toolCallId m else None)"

fun paired_from :: "string set \<Rightarrow> chat_message list \<Rightarrow> bool" where
  "paired_from seen [] = True"
| "paired_from seen (m # ms) =
     ((case answers m of None \<Rightarrow> True | Some i \<Rightarrow> i \<in> seen) \<and>
      paired_from (seen \<union> set (issued_ids m)) ms)"

definition well_paired :: "chat_message list \<Rightarrow> bool" where
  "well_paired ms = paired_from {} ms"

definition all_issued :: "chat_message list \<Rightarrow> string set" where
  "all_issued ms = (\<Union>m \<in> set ms. set (issued_ids m))"

lemma all_issued_simps [simp]:
  "all_issued [] = {}"
  "all_issued (m # ms) = set (issued_ids m) \<union> all_issued ms"
  "all_issued (xs @ ys) = all_issued xs \<union> all_issued ys"
  by (auto simp: all_issued_def)

lemma paired_from_append:
  "paired_from S (xs @ ys) \<longleftrightarrow> paired_from S xs \<and> paired_from (S \<union> all_issued xs) ys"
  by (induction xs arbitrary: S) (auto simp: Un_assoc)

lemma paired_from_mono: "paired_from S ms \<Longrightarrow> S \<subseteq> T \<Longrightarrow> paired_from T ms"
proof (induction ms arbitrary: S T)
  case Nil
  then show ?case by simp
next
  case (Cons m ms)
  from Cons.prems have "paired_from (S \<union> set (issued_ids m)) ms" by simp
  moreover have "S \<union> set (issued_ids m) \<subseteq> T \<union> set (issued_ids m)" using Cons.prems(2) by blast
  ultimately have "paired_from (T \<union> set (issued_ids m)) ms" by (rule Cons.IH)
  then show ?case using Cons.prems by (auto split: option.splits)
qed

text \<open>Messages that neither issue nor answer a tool call never break the pairing.\<close>

lemma paired_from_filter_neutral:
  assumes "\<And>m. m \<in> set ms \<Longrightarrow> \<not> P m \<Longrightarrow> issued_ids m = []"
  shows "paired_from S ms \<Longrightarrow> paired_from S (filter P ms)"
  using assms by (induction ms arbitrary: S) (auto split: option.splits)

lemma paired_from_neutral:
  "(\<And>m. m \<in> set ms \<Longrightarrow> answers m = None) \<Longrightarrow> paired_from S ms"
  by (induction ms arbitrary: S) auto

text \<open>Seen ids that no result asks for can be forgotten.\<close>

lemma paired_from_shrink:
  assumes "\<And>m i. m \<in> set ms \<Longrightarrow> answers m = Some i \<Longrightarrow> i \<notin> D"
  shows "paired_from (S \<union> D) ms \<Longrightarrow> paired_from S ms"
  using assms
proof (induction ms arbitrary: S)
  case Nil
  then show ?case by simp
next
  case (Cons m ms)
  from Cons.prems(1) have "paired_from ((S \<union> set (issued_ids m)) \<union> D) ms"
    by (simp add: Un_ac)
  then have "paired_from (S \<union> set (issued_ids m)) ms"
    using Cons.IH [of "S \<union> set (issued_ids m)"] Cons.prems(2) by auto
  moreover have "case answers m of None \<Rightarrow> True | Some i \<Rightarrow> i \<in> S"
    using Cons.prems by (auto split: option.splits)
  ultimately show ?case by simp
qed

lemma answers_system [simp]: "msg_role m = System \<Longrightarrow> answers m = None"
  by (simp add: answers_def)

lemma issued_system [simp]: "msg_role m = System \<Longrightarrow> issued_ids m = []"
  by (simp add: issued_ids_def)

end
