(* ===== verification/ErrorClassifier.thy ===== *)
theory ErrorClassifier
  imports Chat
begin

text \<open>
  \<open>packages/api/src/engine/error-classifier.ts\<close> and the types of
  \<open>recovery-loop.types.ts\<close>. A thrown value is a \<open>LoopAbortedError\<close>, another \<open>Error\<close> object
  (message, optional string code, optional numeric status, optional cause that is itself an
  \<open>Error\<close>), a string, or anything else.
\<close>

datatype error_category =
    Network | Timeout | Overloaded | ServerError | RateLimit
  | Auth | Billing | ModelNotFound | ProviderPolicy
  | ContextOverflow | PayloadTooLarge | BadRequest
  | Policy | ProviderNotAllowed | LoopAborted | Unknown

record recovery_flags =
  retryable :: bool
  compressible :: bool
  rotatable :: bool
  fallbackable :: bool

datatype error_obj = ErrorObj (eo_message: string) (eo_code: "string option")
  (eo_status: "int option") (eo_cause: "error_obj option")

datatype thrown = ThrownLoopAborted string json | ThrownError error_obj | ThrownString string | ThrownOther

record classified_error =
  ce_category :: error_category
  ce_text :: string
  ce_flags :: recovery_flags
  ce_cause :: thrown

definition no_flags :: recovery_flags where
  "no_flags = \<lparr>retryable = False, compressible = False, rotatable = False, fallbackable = False\<rparr>"

primrec flags_by_category :: "error_category \<Rightarrow> recovery_flags" where
  "flags_by_category Network = no_flags\<lparr>retryable := True\<rparr>"
| "flags_by_category Timeout = no_flags\<lparr>retryable := True\<rparr>"
| "flags_by_category Overloaded = no_flags\<lparr>retryable := True\<rparr>"
| "flags_by_category ServerError = no_flags\<lparr>retryable := True\<rparr>"
| "flags_by_category RateLimit = no_flags\<lparr>retryable := True\<rparr>"
| "flags_by_category Auth = no_flags\<lparr>rotatable := True\<rparr>"
| "flags_by_category Billing = no_flags\<lparr>rotatable := True\<rparr>"
| "flags_by_category ModelNotFound = no_flags\<lparr>fallbackable := True\<rparr>"
| "flags_by_category ProviderPolicy = no_flags\<lparr>fallbackable := True\<rparr>"
| "flags_by_category ContextOverflow = no_flags\<lparr>compressible := True\<rparr>"
| "flags_by_category PayloadTooLarge = no_flags"
| "flags_by_category BadRequest = no_flags"
| "flags_by_category Policy = no_flags"
| "flags_by_category ProviderNotAllowed = no_flags"
| "flags_by_category LoopAborted = no_flags"
| "flags_by_category Unknown = no_flags"

text \<open>The UTF-8 bytes of the two characters outside ASCII in the user-facing texts.\<close>

definition em_dash :: string where
  "em_dash = [CHR 0xE2, CHR 0x80, CHR 0x94]"

definition right_arrow :: string where
  "right_arrow = [CHR 0xE2, CHR 0x86, CHR 0x92]"

primrec user_messages :: "error_category \<Rightarrow> string" where
  "user_messages Network = ''I can't reach the AI provider right now. Please try again in a moment.''"
| "user_messages Timeout = ''I can't reach the AI provider right now. Please try again in a moment.''"
| "user_messages Overloaded = ''The AI provider is busy right now. Please try again shortly.''"
| "user_messages ServerError = ''The AI provider hit an internal error. Please try again shortly.''"
| "user_messages RateLimit = ''We've hit a rate limit. Please wait a minute and try again.''"
| "user_messages Auth = ''The AI provider rejected our credentials. An admin needs to check the API key.''"
| "user_messages Billing = ''The AI provider's account is out of credits. An admin needs to top up the account.''"
| "user_messages ModelNotFound = ''The configured AI model is unavailable. Please contact your administrator.''"
| "user_messages ProviderPolicy = ''Your message was flagged as potentially unsafe by the AI provider. Try rephrasing your request.''"
| "user_messages ContextOverflow = ''This conversation has grown too long for the AI to process. Please start a new chat or simplify your request.''"
| "user_messages PayloadTooLarge = ''An attached file or image is too large for the AI provider. Please upload a smaller file.''"
| "user_messages BadRequest = ''I couldn't process that '' @ em_dash @ '' the provider rejected the request shape.''"
| "user_messages Policy = ''This request isn't allowed by your account's plan or has exceeded its budget. Please contact your administrator.''"
| "user_messages ProviderNotAllowed = ''The agent's AI provider isn't enabled for your policy. An admin can add it under Settings '' @ right_arrow @ '' Policies.''"
| "user_messages LoopAborted = ''I got stuck retrying the same step. Please rephrase your request or try a different approach.''"
| "user_messages Unknown = ''Something went wrong while processing your message. Please try again.''"

section \<open>Pattern tables\<close>

definition network_codes :: "string list" where
  "network_codes = [''ECONNREFUSED'', ''ECONNRESET'', ''ETIMEDOUT'', ''ENOTFOUND'', ''EAI_AGAIN'',
     ''EPIPE'', ''EHOSTUNREACH'', ''ENETUNREACH'', ''UND_ERR_CONNECT_TIMEOUT'',
     ''UND_ERR_HEADERS_TIMEOUT'', ''UND_ERR_BODY_TIMEOUT'', ''UND_ERR_SOCKET'']"

definition network_patterns :: "string list" where
  "network_patterns = [''fetch failed'', ''network error'', ''socket hang up'', ''und_err_'']"

definition timeout_patterns :: "string list" where
  "timeout_patterns = [''status 504'', ''504 '', ''deadline exceeded'', ''request timed out'', ''request timeout'']"

definition overloaded_patterns :: "string list" where
  "overloaded_patterns = [''status 503'', ''503 '', ''status 529'', ''529 '', ''overloaded'', ''service unavailable'']"

definition server_error_patterns :: "string list" where
  "server_error_patterns = [''status 500'', ''500 '', ''status 502'', ''502 '', ''internal server error'']"

definition rate_limit_patterns :: "string list" where
  "rate_limit_patterns = [''rate limit'', ''rate_limit'', ''quota exceeded'', ''status 429'', ''429 '', ''too many requests'']"

definition auth_patterns :: "string list" where
  "auth_patterns = [''auth failed'', ''unauthorized'', ''api_key_invalid'', ''invalid api key'', ''status 401'', ''401 '']"

definition billing_patterns :: "string list" where
  "billing_patterns = [''status 402'', ''402 '', ''credit balance'', ''insufficient_quota'', ''insufficient quota'', ''out of credits'']"

definition model_not_found_patterns :: "string list" where
  "model_not_found_patterns = [''model not found'', ''model_deprecated'', ''model_not_found'']"

definition provider_policy_patterns :: "string list" where
  "provider_policy_patterns = [''unsafe or sensitive content'', ''safety system'', ''content policy'',
     ''content_policy'', ''content_filter'', ''flagged as inappropriate'',
     ''violates our usage policy'', ''violates our content policy'']"

definition context_overflow_patterns :: "string list" where
  "context_overflow_patterns = [''context length'', ''maximum context'', ''context_length_exceeded'',
     ''context window'', ''too many tokens'']"

definition payload_too_large_patterns :: "string list" where
  "payload_too_large_patterns = [''status 413'', ''413 '', ''request too large'', ''payload too large'']"

definition bad_request_patterns :: "string list" where
  "bad_request_patterns = [''request rejected'', ''invalid argument'', ''status 400'', ''400 '', ''bad request'']"

definition policy_patterns :: "string list" where
  "policy_patterns = [''is not allowed by policy'', ''token budget exceeded'', ''is inactive'']"

section \<open>The provider-allowlist expression\<close>

text \<open>\<open>/provider '([^']+)' is not allowed by policy/i\<close>: the match at one position, then the
  leftmost position that matches. The greedy group stops at the first quote, which no other
  choice could pass, so there is no backtracking.\<close>

definition quote_char :: char where
  "quote_char = CHR 0x27"

definition match_provider_at :: "string \<Rightarrow> string option" where
  "match_provider_at s =
     (if prefix (''provider '' @ [quote_char]) (to_lower s) then
        (let rest = drop 10 s;
             name = takeWhile (\<lambda>c. c \<noteq> quote_char) rest;
             after = dropWhile (\<lambda>c. c \<noteq> quote_char) rest
         in if name \<noteq> [] \<and> prefix (quote_char # '' is not allowed by policy'') (to_lower after)
            then Some name else None)
      else None)"

fun provider_not_allowed_exec :: "string \<Rightarrow> string option" where
  "provider_not_allowed_exec [] = None"
| "provider_not_allowed_exec (c # cs) =
     (case match_provider_at (c # cs) of Some n \<Rightarrow> Some n | None \<Rightarrow> provider_not_allowed_exec cs)"

section \<open>Classification\<close>

record error_shape =
  es_message :: string
  es_code :: "string option"
  es_status :: "int option"

text \<open>The \<open>LoopAbortedError\<close> case is decided before the shape is taken; its own message is
  written out for completeness. A falsy (empty) code falls through to the cause's code.\<close>

fun extract_error_shape :: "thrown \<Rightarrow> error_shape" where
  "extract_error_shape (ThrownError e) =
     (let message = eo_message e; code = eo_code e in
      case eo_cause e of
        None \<Rightarrow> \<lparr>es_message = message, es_code = code, es_status = eo_status e\<rparr>
      | Some c \<Rightarrow>
          \<lparr>es_message = (if eo_message c \<noteq> [] then message @ '' '' @ eo_message c else message),
           es_code = (if (code = None \<or> code = Some []) \<and> eo_code c \<noteq> None then eo_code c else code),
           es_status = eo_status e\<rparr>)"
| "extract_error_shape (ThrownString s) = \<lparr>es_message = s, es_code = None, es_status = None\<rparr>"
| "extract_error_shape (ThrownLoopAborted n a) =
     \<lparr>es_message = ''Tool '' @ n @ '' failed repeatedly with identical args; aborting'',
      es_code = None, es_status = None\<rparr>"
| "extract_error_shape ThrownOther = \<lparr>es_message = [], es_code = None, es_status = None\<rparr>"

definition build :: "error_category \<Rightarrow> thrown \<Rightarrow> classified_error" where
  "build c err = \<lparr>ce_category = c, ce_text = user_messages c, ce_flags = flags_by_category c, ce_cause = err\<rparr>"

text \<open>The checks after the allowlist expression, in the source's order.\<close>

definition category_of_shape :: "error_shape \<Rightarrow> error_category" where
  "category_of_shape shape =
     (let lower = to_lower (es_message shape); status = es_status shape in
      if matches_any lower policy_patterns then Policy
      else if matches_any lower context_overflow_patterns then ContextOverflow
      else if matches_any lower payload_too_large_patterns \<or> status = Some 413 then PayloadTooLarge
      else if matches_any lower provider_policy_patterns then ProviderPolicy
      else if matches_any lower model_not_found_patterns then ModelNotFound
      else if matches_any lower auth_patterns \<or> status = Some 401 then Auth
      else if matches_any lower billing_patterns \<or> status = Some 402 then Billing
      else if matches_any lower rate_limit_patterns \<or> status = Some 429 then RateLimit
      else if matches_any lower overloaded_patterns \<or> status = Some 503 \<or> status = Some 529 then Overloaded
      else if matches_any lower server_error_patterns \<or> status = Some 500 \<or> status = Some 502 then ServerError
      else if matches_any lower timeout_patterns \<or> status = Some 504 then Timeout
      else if (case es_code shape of Some c \<Rightarrow> c \<noteq> [] \<and> c \<in> set network_codes | None \<Rightarrow> False)
              \<or> matches_any lower network_patterns then Network
      else if matches_any lower bad_request_patterns \<or> status = Some 400 then BadRequest
      else Unknown)"

definition provider_not_allowed_text :: "string \<Rightarrow> string" where
  "provider_not_allowed_text name =
     ''The AI provider '' @ [quote_char] @ name @ [quote_char] @
     '' isn't enabled for your policy. An admin can add it under Settings '' @ right_arrow @ '' Policies.''"

definition classify_error :: "thrown \<Rightarrow> classified_error" where
  "classify_error err =
     (case err of
        ThrownLoopAborted _ _ \<Rightarrow> build LoopAborted err
      | _ \<Rightarrow>
          (let shape = extract_error_shape err in
           case provider_not_allowed_exec (es_message shape) of
             Some name \<Rightarrow> (build ProviderNotAllowed err)\<lparr>ce_text := provider_not_allowed_text name\<rparr>
           | None \<Rightarrow> build (category_of_shape shape) err))"

section \<open>Facts about classification\<close>

lemma retryable_category_iff:
  "retryable (flags_by_category c) \<longleftrightarrow> c \<in> {Network, Timeout, Overloaded, ServerError, RateLimit}"
  by (cases c) (simp_all add: no_flags_def)

lemma compressible_category_iff:
  "compressible (flags_by_category c) \<longleftrightarrow> c = ContextOverflow"
  by (cases c) (simp_all add: no_flags_def)

lemma classify_error_flags: "ce_flags (classify_error e) = flags_by_category (ce_category (classify_error e))"
  by (simp add: classify_error_def build_def Let_def split: thrown.split option.split)

lemma classify_error_cause: "ce_cause (classify_error e) = e"
  by (simp add: classify_error_def build_def Let_def split: thrown.split option.split)

lemma classify_retry_compress_exclusive:
  "\<not> (retryable (ce_flags (classify_error e)) \<and> compressible (ce_flags (classify_error e)))"
  by (auto simp: classify_error_flags retryable_category_iff compressible_category_iff)

lemma category_of_shape_retryable:
  assumes "retryable (flags_by_category (category_of_shape shape))"
  shows "\<not> matches_any (to_lower (es_message shape))
      (policy_patterns @ context_overflow_patterns @ payload_too_large_patterns @
       provider_policy_patterns @ model_not_found_patterns @ auth_patterns @ billing_patterns)
    \<and> es_status shape \<notin> {Some 413, Some 401, Some 402}"
  using assms
  by (auto simp: category_of_shape_def Let_def retryable_category_iff matches_any_def no_flags_def
      split: if_splits)

text \<open>A message with the allowlist phrase also matches the generic policy patterns, so the early
  return only refines the text, never the decision not to retry.\<close>

lemma to_lower_append: "to_lower (xs @ ys) = to_lower xs @ to_lower ys"
  by (simp add: to_lower_def)

lemma match_provider_at_Some:
  assumes "match_provider_at s = Some name"
  shows "str_includes (to_lower s) ''is not allowed by policy''"
proof -
  let ?rest = "drop 10 s"
  let ?after = "dropWhile (\<lambda>c. c \<noteq> quote_char) ?rest"
  from assms have "prefix (quote_char # '' is not allowed by policy'') (to_lower ?after)"
    by (simp add: match_provider_at_def Let_def split: if_splits)
  then obtain z where z: "to_lower ?after = (quote_char # '' '') @ ''is not allowed by policy'' @ z"
    by (auto simp: prefix_def)
  have "s = take 10 s @ takeWhile (\<lambda>c. c \<noteq> quote_char) ?rest @ ?after" by simp
  then have "to_lower s = to_lower (take 10 s @ takeWhile (\<lambda>c. c \<noteq> quote_char) ?rest) @ to_lower ?after"
    by (metis append.assoc to_lower_append)
  then show ?thesis unfolding includes_iff_sublist z
    by (metis append.assoc sublist_appendI)
qed

lemma provider_not_allowed_is_policy:
  "provider_not_allowed_exec s = Some name \<Longrightarrow> str_includes (to_lower s) ''is not allowed by policy''"
proof (induction s)
  case Nil
  then show ?case by simp
next
  case (Cons c cs)
  show ?case
  proof (cases "match_provider_at (c # cs)")
    case None
    with Cons have "str_includes (to_lower cs) ''is not allowed by policy''" by simp
    then show ?thesis by (simp add: to_lower_def)
  next
    case (Some n)
    then show ?thesis by (rule match_provider_at_Some)
  qed
qed

section \<open>Properties\<close>

text \<open>
  An error is retried only when its text and status carry no permanent cause: whenever the
  classification is retryable, the message matches no policy, context-overflow, payload,
  content-filter, model, authentication or billing pattern, the status is none of 401, 402 and
  413, and the error is not the abort of a tool loop.
\<close>

theorem retryable_is_transient:
  assumes "retryable (ce_flags (classify_error e))"
  shows "\<not> matches_any (to_lower (es_message (extract_error_shape e)))
      (policy_patterns @ context_overflow_patterns @ payload_too_large_patterns @
       provider_policy_patterns @ model_not_found_patterns @ auth_patterns @ billing_patterns)
    \<and> es_status (extract_error_shape e) \<notin> {Some 413, Some 401, Some 402}
    \<and> (\<forall>n a. e \<noteq> ThrownLoopAborted n a)"
proof -
  have "\<forall>n a. e \<noteq> ThrownLoopAborted n a"
    using assms by (auto simp: classify_error_def build_def no_flags_def)
  moreover have "retryable (flags_by_category (category_of_shape (extract_error_shape e)))"
    using assms
    by (cases e) (auto simp: classify_error_def build_def Let_def no_flags_def split: option.splits)
  ultimately show ?thesis using category_of_shape_retryable by blast
qed

theorem retryable_is_transient_witness:
  "\<not> matches_any (to_lower ''connect: fetch failed'') auth_patterns"
proof -
  have "retryable (ce_flags (classify_error (ThrownString ''connect: fetch failed'')))"
    by code_simp
  from retryable_is_transient [OF this] show ?thesis
    by (simp add: matches_any_def)
qed

text \<open>
  The text shown to the user never contains the error's own message: it is one of the fixed
  texts of the category, or the allowlist text around a name that the message quoted between
  single quotes and that contains none itself.
\<close>

lemma match_provider_name: "match_provider_at s = Some name \<Longrightarrow> quote_char \<notin> set name"
  by (auto simp: match_provider_at_def Let_def split: if_splits dest: set_takeWhileD)

lemma provider_exec_name: "provider_not_allowed_exec s = Some name \<Longrightarrow> quote_char \<notin> set name"
  by (induction s) (auto split: option.splits dest: match_provider_name)

theorem user_text_is_safe:
  "ce_text (classify_error e) = user_messages (ce_category (classify_error e)) \<or>
   (\<exists>name. quote_char \<notin> set name \<and> ce_category (classify_error e) = ProviderNotAllowed \<and>
           ce_text (classify_error e) = provider_not_allowed_text name)"
  by (auto simp: classify_error_def build_def Let_def dest: provider_exec_name
      split: thrown.split option.split)

end
