(* ===== verification/RecoveryLoop.thy ===== *)
theory RecoveryLoop
  imports ErrorClassifier
begin

text \<open>
  \<open>packages/api/src/engine/recovery-loop.ts\<close>: one provider call wrapped in classifier-driven
  recovery. The provider, the abort signal, the timer, the random source and the compressor are
  the fields of an environment record; \<open>'w\<close> is the state of the world they read and change.
  One turn of the \<open>for (;;)\<close> is \<open>recovery_step\<close>; the loop is \<open>recovery_loop\<close>, which stops
  because every turn that goes on raises \<open>totalActions\<close>, capped by the configuration.
\<close>

record recovery_config =
  rc_maxRetries :: nat
  rc_retryBackoffMs :: "nat list"
  rc_maxCompressions :: nat
  rc_globalCap :: nat

definition default_recovery_config :: recovery_config where
  "default_recovery_config =
     \<lparr>rc_maxRetries = 3, rc_retryBackoffMs = [500, 1000, 2000], rc_maxCompressions = 1, rc_globalCap = 5\<rparr>"

datatype recovery_action = Retry | Compress
datatype exhausted_reason = GlobalCap | NoAction | CompressFailed

datatype recovery_event =
    RecoveryAction recovery_action error_category nat "nat option"
  | RecoveryExhausted error_category nat exhausted_reason
  | RecoverySucceeded error_category nat "recovery_action option"

record 'w recovery_env =
  re_chat :: "chat_message list \<Rightarrow> chat_options \<Rightarrow> 'w \<Rightarrow> (thrown + llm_response) \<times> 'w"
  re_aborted :: "'w \<Rightarrow> bool"
  re_random :: "'w \<Rightarrow> rat \<times> 'w"
  re_timer :: "rat \<Rightarrow> 'w \<Rightarrow> bool \<times> 'w" \<comment> \<open>\<open>True\<close>: the timer fired, \<open>False\<close>: the abort came first\<close>
  re_classifier :: "thrown \<Rightarrow> classified_error"
  re_compressor :: "chat_message list \<Rightarrow> 'w \<Rightarrow> (thrown + chat_message list) \<times> 'w"

text \<open>\<open>delayWithJitter\<close>: \<open>True\<close> when the promise resolves, \<open>False\<close> when it rejects.\<close>

definition delay_with_jitter :: "'w recovery_env \<Rightarrow> nat \<Rightarrow> 'w \<Rightarrow> bool \<times> 'w" where
  "delay_with_jitter env baseMs w =
     (if baseMs = 0 then (True, w)
      else (case re_random env w of (r, w1) \<Rightarrow>
        (let jittered = of_nat baseMs + r * of_nat baseMs * (1 / 2) in
         if re_aborted env w1 then (False, w1) else re_timer env jittered w1)))"

record recovery_state =
  rs_currentMessages :: "chat_message list"
  rs_retryCount :: nat
  rs_compressCount :: nat
  rs_totalActions :: nat
  rs_lastAction :: "recovery_action option"
  rs_lastCategory :: "error_category option"
  rs_events :: "recovery_event list" \<comment> \<open>events handed to \<open>onRecoveryEvent\<close>, oldest first\<close>

definition init_recovery :: "chat_message list \<Rightarrow> recovery_state" where
  "init_recovery ms = \<lparr>rs_currentMessages = ms, rs_retryCount = 0, rs_compressCount = 0,
     rs_totalActions = 0, rs_lastAction = None, rs_lastCategory = None, rs_events = []\<rparr>"

type_synonym recovery_outcome = "thrown + (llm_response \<times> chat_message list)"

datatype 'w recovery_turn =
    Done recovery_outcome "recovery_event list" 'w
  | Continue recovery_state 'w

definition emit :: "recovery_event \<Rightarrow> recovery_state \<Rightarrow> recovery_state" where
  "emit e s = s\<lparr>rs_events := rs_events s @ [e]\<rparr>"

text \<open>The \<open>catch\<close> block: the error, the state before it, the world after the failed call.\<close>

definition recovery_catch ::
  "'w recovery_env \<Rightarrow> recovery_config \<Rightarrow> thrown \<Rightarrow> recovery_state \<Rightarrow> 'w \<Rightarrow> 'w recovery_turn" where
  "recovery_catch env cfg err s w =
     (if re_aborted env w then Done (Inl err) (rs_events s) w
      else
        (let classified = re_classifier env err;
             cat = ce_category classified;
             s1 = s\<lparr>rs_totalActions := rs_totalActions s + 1, rs_lastCategory := Some cat\<rparr>;
             total = rs_totalActions s1
         in
         if rc_globalCap cfg < total then
           Done (Inl err) (rs_events (emit (RecoveryExhausted cat total GlobalCap) s1)) w
         else if retryable (ce_flags classified) \<and> rs_retryCount s1 < rc_maxRetries cfg then
           (let delayMs = (if rs_retryCount s1 < length (rc_retryBackoffMs cfg)
                           then rc_retryBackoffMs cfg ! rs_retryCount s1 else 0);
                s2 = emit (RecoveryAction Retry cat total (Some delayMs))
                       (s1\<lparr>rs_retryCount := rs_retryCount s1 + 1, rs_lastAction := Some Retry\<rparr>)
            in case delay_with_jitter env delayMs w of
                 (ok, w1) \<Rightarrow> if ok then Continue s2 w1 else Done (Inl err) (rs_events s2) w1)
         else if compressible (ce_flags classified) \<and> rs_compressCount s1 < rc_maxCompressions cfg then
           (case re_compressor env (rs_currentMessages s1) w of
              (Inl _, w1) \<Rightarrow>
                Done (Inl err) (rs_events (emit (RecoveryExhausted cat total CompressFailed) s1)) w1
            | (Inr compressed, w1) \<Rightarrow>
                Continue (emit (RecoveryAction Compress cat total None)
                  (s1\<lparr>rs_currentMessages := compressed, rs_compressCount := rs_compressCount s1 + 1,
                      rs_lastAction := Some Compress\<rparr>)) w1)
         else Done (Inl err) (rs_events (emit (RecoveryExhausted cat total NoAction) s1)) w))"

definition recovery_step ::
  "'w recovery_env \<Rightarrow> recovery_config \<Rightarrow> chat_options \<Rightarrow> recovery_state \<Rightarrow> 'w \<Rightarrow> 'w recovery_turn" where
  "recovery_step env cfg opts s w =
     (case re_chat env (rs_currentMessages s) opts w of
        (Inr response, w1) \<Rightarrow>
          (let s1 = (if 0 < rs_totalActions s
                     then emit (RecoverySucceeded
                            (case rs_lastCategory s of None \<Rightarrow> Unknown | Some c \<Rightarrow> c)
                            (rs_totalActions s) (rs_lastAction s)) s
                     else s)
           in Done (Inr (response, rs_currentMessages s)) (rs_events s1) w1)
      | (Inl err, w1) \<Rightarrow> recovery_catch env cfg err s w1)"

lemma recovery_catch_Continue:
  "recovery_catch env cfg err s w = Continue s' w' \<Longrightarrow>
   rs_totalActions s' = Suc (rs_totalActions s) \<and> Suc (rs_totalActions s) \<le> rc_globalCap cfg \<and>
   (rs_retryCount s' = Suc (rs_retryCount s) \<and> rs_retryCount s < rc_maxRetries cfg \<and>
      rs_compressCount s' = rs_compressCount s \<and> rs_currentMessages s' = rs_currentMessages s \<and>
      retryable (ce_flags (re_classifier env err)) \<or>
    rs_compressCount s' = Suc (rs_compressCount s) \<and> rs_compressCount s < rc_maxCompressions cfg \<and>
      rs_retryCount s' = rs_retryCount s \<and>
      re_compressor env (rs_currentMessages s) w = (Inr (rs_currentMessages s'), w') \<and>
      compressible (ce_flags (re_classifier env err)))"
  by (auto simp: recovery_catch_def Let_def emit_def not_less split: if_splits prod.splits sum.splits)

lemma recovery_step_Continue:
  assumes "recovery_step env cfg opts s w = Continue s' w'"
  obtains err w1 where "re_chat env (rs_currentMessages s) opts w = (Inl err, w1)"
    "recovery_catch env cfg err s w1 = Continue s' w'"
  using assms by (auto simp: recovery_step_def Let_def split: prod.splits sum.splits)

lemma recovery_step_total:
  "recovery_step env cfg opts s w = Continue s' w' \<Longrightarrow>
   rs_totalActions s' = Suc (rs_totalActions s) \<and> Suc (rs_totalActions s) \<le> rc_globalCap cfg"
  by (erule recovery_step_Continue) (drule recovery_catch_Continue, simp)

function recovery_loop ::
  "'w recovery_env \<Rightarrow> recovery_config \<Rightarrow> chat_options \<Rightarrow> recovery_state \<Rightarrow> 'w \<Rightarrow>
   recovery_outcome \<times> recovery_event list \<times> 'w" where
  "recovery_loop env cfg opts s w =
     (case recovery_step env cfg opts s w of
        Done r evs w1 \<Rightarrow> (r, evs, w1)
      | Continue s1 w1 \<Rightarrow> recovery_loop env cfg opts s1 w1)"
  by pat_completeness auto
termination
  by (relation "measure (\<lambda>(env, cfg, opts, s, w). Suc (rc_globalCap cfg) - rs_totalActions s)")
    (auto dest: recovery_step_total)

declare recovery_loop.simps [simp del]

definition run_with_recovery ::
  "'w recovery_env \<Rightarrow> recovery_config \<Rightarrow> chat_message list \<Rightarrow> chat_options \<Rightarrow> 'w \<Rightarrow>
   recovery_outcome \<times> recovery_event list \<times> 'w" where
  "run_with_recovery env cfg messages opts w = recovery_loop env cfg opts (init_recovery messages) w"

section \<open>Loop facts\<close>

text \<open>The counters agree and stay within the configuration.\<close>

definition recovery_wf :: "recovery_config \<Rightarrow> recovery_state \<Rightarrow> bool" where
  "recovery_wf cfg s \<longleftrightarrow>
     rs_totalActions s = rs_retryCount s + rs_compressCount s \<and>
     rs_retryCount s \<le> rc_maxRetries cfg \<and> rs_compressCount s \<le> rc_maxCompressions cfg"

lemma recovery_wf_init [inv_intro]: "recovery_wf cfg (init_recovery ms)"
  by (simp add: recovery_wf_def init_recovery_def)

lemma recovery_wf_step [inv_intro]:
  assumes "recovery_wf cfg s" and "recovery_step env cfg opts s w = Continue s' w'"
  shows "recovery_wf cfg s'"
proof -
  obtain err w1 where "recovery_catch env cfg err s w1 = Continue s' w'"
    using assms(2) by (rule recovery_step_Continue)
  from recovery_catch_Continue [OF this] assms(1) show ?thesis
    by (auto simp: recovery_wf_def)
qed

text \<open>Rule for facts about the loop: an invariant of the turns that go on, and the last turn.\<close>

lemma recovery_loop_rule:
  assumes "I s w"
    and step: "\<And>s w s' w'. I s w \<Longrightarrow> recovery_step env cfg opts s w = Continue s' w' \<Longrightarrow> I s' w'"
    and fin: "\<And>s w r evs w'. I s w \<Longrightarrow> recovery_step env cfg opts s w = Done r evs w' \<Longrightarrow> Q r evs w'"
  shows "case recovery_loop env cfg opts s w of (r, evs, w') \<Rightarrow> Q r evs w'"
  using assms(1)
proof (induction "Suc (rc_globalCap cfg) - rs_totalActions s" arbitrary: s w rule: less_induct)
  case less
  show ?case
  proof (cases "recovery_step env cfg opts s w")
    case (Done r evs w')
    then show ?thesis using fin [OF less.prems Done] by (subst recovery_loop.simps) simp
  next
    case (Continue s' w')
    from recovery_step_total [OF Continue]
    have "Suc (rc_globalCap cfg) - rs_totalActions s' < Suc (rc_globalCap cfg) - rs_totalActions s" by auto
    moreover have "I s' w'" using less.prems Continue by (rule step)
    ultimately have "case recovery_loop env cfg opts s' w' of (r, evs, w') \<Rightarrow> Q r evs w'"
      by (rule less.hyps)
    then show ?thesis using Continue by (subst recovery_loop.simps) simp
  qed
qed

text \<open>What the last turn returns.\<close>

lemma recovery_step_Done:
  assumes "recovery_step env cfg opts s w = Done r evs w'"
  obtains (ok) response where "re_chat env (rs_currentMessages s) opts w = (Inr response, w')"
      "r = Inr (response, rs_currentMessages s)"
    | (failed) err w1 where "re_chat env (rs_currentMessages s) opts w = (Inl err, w1)" "r = Inl err"
  using assms
  by (auto simp: recovery_step_def recovery_catch_def Let_def split: prod.splits sum.splits if_splits)

lemma recovery_step_Done_events:
  assumes "recovery_step env cfg opts s w = Done r evs w'"
  shows "\<exists>new. evs = rs_events s @ new \<and> length new \<le> 1 \<and>
     (\<forall>c n. RecoveryExhausted c n GlobalCap \<in> set new \<longrightarrow> rc_globalCap cfg < Suc (rs_totalActions s))"
  using assms
  by (auto simp: recovery_step_def recovery_catch_def emit_def Let_def
      split: prod.splits sum.splits if_splits)

section \<open>Properties\<close>

lemma recovery_step_chat_count:
  assumes chat: "\<And>ms os w. calls (snd (re_chat env ms os w)) = Suc (calls w)"
    and rnd: "\<And>w. calls (snd (re_random env w)) = calls w"
    and tim: "\<And>d w. calls (snd (re_timer env d w)) = calls w"
    and cmp: "\<And>ms w. calls (snd (re_compressor env ms w)) = calls w"
  shows "recovery_step env cfg opts s w = Continue s' w' \<Longrightarrow> calls w' = Suc (calls w)"
    and "recovery_step env cfg opts s w = Done r evs w' \<Longrightarrow> calls w' = Suc (calls w)"
proof -
  have chat': "re_chat env ms os v = (x, v') \<Longrightarrow> calls v' = Suc (calls v)" for ms os v x v'
    using chat [of ms os v] by simp
  have rnd': "re_random env v = (x, v') \<Longrightarrow> calls v' = calls v" for v x v'
    using rnd [of v] by simp
  have tim': "re_timer env d v = (x, v') \<Longrightarrow> calls v' = calls v" for d v x v'
    using tim [of d v] by simp
  have cmp': "re_compressor env ms v = (x, v') \<Longrightarrow> calls v' = calls v" for ms v x v'
    using cmp [of ms v] by simp
  have del: "delay_with_jitter env d v = (x, v') \<Longrightarrow> calls v' = calls v" for d v x v'
    by (auto simp: delay_with_jitter_def Let_def dest!: rnd' tim' split: if_splits prod.splits)
  show "recovery_step env cfg opts s w = Continue s' w' \<Longrightarrow> calls w' = Suc (calls w)"
    by (auto simp: recovery_step_def recovery_catch_def Let_def dest!: chat' del cmp'
        split: prod.splits sum.splits if_splits)
  show "recovery_step env cfg opts s w = Done r evs w' \<Longrightarrow> calls w' = Suc (calls w)"
    by (auto simp: recovery_step_def recovery_catch_def Let_def dest!: chat' del cmp'
        split: prod.splits sum.splits if_splits)
qed

text \<open>
  C4: Recovery never repeats a provider call without bound: with any counter that every
  provider call raises by one and nothing else touches, a run makes at most one call more than
  the smaller of the global cap and the sum of the retry and compression budgets.
\<close>

theorem recovery_calls_bounded:
  assumes "\<And>ms os w. calls (snd (re_chat env ms os w)) = Suc (calls w)"
    and "\<And>w. calls (snd (re_random env w)) = calls w"
    and "\<And>d w. calls (snd (re_timer env d w)) = calls w"
    and "\<And>ms w. calls (snd (re_compressor env ms w)) = calls w"
  shows "calls (snd (snd (run_with_recovery env cfg ms opts w)))
    \<le> Suc (calls w + min (rc_globalCap cfg) (rc_maxRetries cfg + rc_maxCompressions cfg))"
proof -
  note count = recovery_step_chat_count [of calls, OF assms]
  let ?I = "\<lambda>s v. recovery_wf cfg s \<and> rs_totalActions s \<le> rc_globalCap cfg \<and>
                 calls v = calls w + rs_totalActions s"
  let ?Q = "\<lambda>r evs v. calls v
    \<le> Suc (calls w + min (rc_globalCap cfg) (rc_maxRetries cfg + rc_maxCompressions cfg))"
  have "case recovery_loop env cfg opts (init_recovery ms) w of (r, evs, v) \<Rightarrow> ?Q r evs v"
  proof (rule recovery_loop_rule [where I = ?I])
    show "?I (init_recovery ms) w" by (simp add: inv_intro) (simp add: init_recovery_def)
  next
    fix s v s' v'
    assume "?I s v" and "recovery_step env cfg opts s v = Continue s' v'"
    then show "?I s' v'"
      using recovery_step_total [of env cfg opts s v s' v'] count(1) by (auto intro: inv_intro)
  next
    fix s v r evs v'
    assume "?I s v" and "recovery_step env cfg opts s v = Done r evs v'"
    then show "?Q r evs v'" using count(2) by (fastforce simp: recovery_wf_def)
  qed
  then show ?thesis by (simp add: run_with_recovery_def case_prod_beta)
qed

text \<open>A world that counts calls, whose provider always reports an overload.\<close>

definition failing_env :: "nat recovery_env" where
  "failing_env =
     \<lparr>re_chat = (\<lambda>_ _ w. (Inl (ThrownString ''status 529''), Suc w)),
      re_aborted = (\<lambda>_. False),
      re_random = (\<lambda>w. (1 / 4, w)),
      re_timer = (\<lambda>_ w. (True, w)),
      re_classifier = classify_error,
      re_compressor = (\<lambda>ms w. (Inr ms, w))\<rparr>"

theorem recovery_calls_bounded_witness:
  "snd (snd (run_with_recovery failing_env default_recovery_config [] \<lparr>co_model = None, co_tools = None, co_settings = None\<rparr> 0)) \<le> (5 :: nat)"
  using recovery_calls_bounded [of id failing_env default_recovery_config "[]"
      "\<lparr>co_model = None, co_tools = None, co_settings = None\<rparr>" 0]
  by (simp add: failing_env_def default_recovery_config_def)

lemma recovery_outcome:
  "case run_with_recovery env cfg ms opts w of
     (Inl err, evs, w') \<Rightarrow> (\<exists>ms1 w1 w2. re_chat env ms1 opts w1 = (Inl err, w2))
   | (Inr (resp, ms1), evs, w') \<Rightarrow>
       (\<exists>w1. re_chat env ms1 opts w1 = (Inr resp, w')) \<and>
       (ms1 = ms \<or> (\<exists>ms0 wa wb. re_compressor env ms0 wa = (Inr ms1, wb)))"
proof -
  let ?I = "\<lambda>s v. rs_currentMessages s = ms \<or>
    (\<exists>ms0 wa wb. re_compressor env ms0 wa = (Inr (rs_currentMessages s), wb))"
  let ?Q = "\<lambda>r evs w'. case r of
     Inl err \<Rightarrow> (\<exists>ms1 w1 w2. re_chat env ms1 opts w1 = (Inl err, w2))
   | Inr (resp, ms1) \<Rightarrow> (\<exists>w1. re_chat env ms1 opts w1 = (Inr resp, w')) \<and>
       (ms1 = ms \<or> (\<exists>ms0 wa wb. re_compressor env ms0 wa = (Inr ms1, wb)))"
  have "case recovery_loop env cfg opts (init_recovery ms) w of (r, evs, v) \<Rightarrow> ?Q r evs v"
  proof (rule recovery_loop_rule [where I = ?I])
    show "?I (init_recovery ms) w" by (simp add: init_recovery_def)
  next
    fix s v s' v'
    assume I: "?I s v" and "recovery_step env cfg opts s v = Continue s' v'"
    then obtain err w1 where "recovery_catch env cfg err s w1 = Continue s' v'"
      by (blast elim: recovery_step_Continue)
    from recovery_catch_Continue [OF this] I show "?I s' v'" by auto
  next
    fix s v r evs v'
    assume I: "?I s v" and "recovery_step env cfg opts s v = Done r evs v'"
    then show "?Q r evs v'" by (elim recovery_step_Done) auto
  qed
  then show ?thesis by (simp add: run_with_recovery_def split: prod.splits sum.splits)
qed

text \<open>
  C5: What recovery hands back is genuine: a returned response is the provider's answer to
  exactly the messages returned with it, which are the caller's or a compressor's output; a
  thrown error is one the provider threw, never the compressor's or the timer's.
\<close>

theorem recovery_outcome_genuine:
  "case run_with_recovery env cfg ms opts w of
     (Inl err, evs, w') \<Rightarrow> (\<exists>ms1 w1 w2. re_chat env ms1 opts w1 = (Inl err, w2))
   | (Inr (resp, ms1), evs, w') \<Rightarrow>
       (\<exists>w1. re_chat env ms1 opts w1 = (Inr resp, w')) \<and>
       (ms1 = ms \<or> (\<exists>ms0 wa wb. re_compressor env ms0 wa = (Inr ms1, wb)))"
  by (rule recovery_outcome)

text \<open>
  With the default configuration the global cap is a pure safety net: no run ever reports
  it, because the retry and compression budgets are exhausted first.
\<close>

theorem default_config_never_hits_global_cap:
  "RecoveryExhausted c n GlobalCap \<notin>
     set (fst (snd (run_with_recovery env default_recovery_config ms opts w)))"
proof -
  let ?cfg = default_recovery_config
  let ?clean = "\<lambda>evs. \<forall>c n. RecoveryExhausted c n GlobalCap \<notin> set evs"
  have cfg: "rc_globalCap ?cfg = 5" "rc_maxRetries ?cfg = 3" "rc_maxCompressions ?cfg = 1"
    by (simp_all add: default_recovery_config_def)
  have "case recovery_loop env ?cfg opts (init_recovery ms) w of (r, evs, v) \<Rightarrow> ?clean evs"
  proof (rule recovery_loop_rule [where I = "\<lambda>s v. recovery_wf ?cfg s \<and> ?clean (rs_events s)"])
    show "recovery_wf ?cfg (init_recovery ms) \<and> ?clean (rs_events (init_recovery ms))"
      by (simp add: inv_intro) (simp add: init_recovery_def)
  next
    fix s v s' v'
    assume I: "recovery_wf ?cfg s \<and> ?clean (rs_events s)"
      and st: "recovery_step env ?cfg opts s v = Continue s' v'"
    from st have "?clean (rs_events s) \<Longrightarrow> ?clean (rs_events s')"
      by (auto simp: recovery_step_def recovery_catch_def emit_def Let_def
          split: prod.splits sum.splits if_splits)
    then show "recovery_wf ?cfg s' \<and> ?clean (rs_events s')"
      using I recovery_wf_step [OF _ st] by blast
  next
    fix s v r evs v'
    assume I: "recovery_wf ?cfg s \<and> ?clean (rs_events s)"
      and st: "recovery_step env ?cfg opts s v = Done r evs v'"
    from I have "rs_totalActions s \<le> 4" by (simp add: recovery_wf_def cfg)
    then show "?clean evs" using recovery_step_Done_events [OF st] I by (auto simp: cfg)
  qed
  then show ?thesis by (simp add: run_with_recovery_def case_prod_beta)
qed

end
