(* ===== verification/Compressor.thy ===== *)
theory Compressor
  imports RecoveryLoop
begin

text \<open>
  Shrinking a conversation: \<open>engine/compressor.ts\<close> (context-overflow recovery),
  \<open>engine/microcompact.ts\<close> (truncation before consolidation), the prompts of
  \<open>engine/compact-prompt.ts\<close>, and \<open>engine/history-visibility.ts\<close>. Settings store, provider
  resolution and the summarizing model are fields of an environment record.
\<close>

section \<open>Truncation of bulky messages\<close>

definition truncation_threshold :: nat where
  "truncation_threshold = 500"

definition truncatable_role :: "role \<Rightarrow> bool" where
  "truncatable_role r \<longleftrightarrow> r = Tool \<or> r = System"

text \<open>Rows of the session store, as \<open>microcompact.ts\<close> sees them.\<close>

record message_row =
  row_id :: string
  row_sessionId :: string
  row_role :: role
  row_content :: string
  row_toolCallId :: "string option"
  row_toolCalls :: "tool_call list option"
  row_ordering :: nat
  row_createdAt :: nat

definition truncation_marker :: "string \<Rightarrow> role \<Rightarrow> nat \<Rightarrow> string" where
  "truncation_marker dash r n =
     (if r = Tool then ''[tool result truncated '' @ dash @ '' originally '' @ show_nat n @ '' chars]''
      else ''[system message truncated '' @ dash @ '' originally '' @ show_nat n @ '' chars]'')"

definition microcompact_row :: "message_row \<Rightarrow> message_row" where
  "microcompact_row m =
     (if \<not> truncatable_role (row_role m) then m
      else if length (row_content m) \<le> truncation_threshold then m
      else m\<lparr>row_content := truncation_marker ''-'' (row_role m) (length (row_content m))\<rparr>)"

definition microcompact_messages :: "message_row list \<Rightarrow> message_row list" where
  "microcompact_messages ms = map microcompact_row ms"

definition truncate_large_content :: "chat_message list \<Rightarrow> chat_message list" where
  "truncate_large_content ms = map (\<lambda>m.
     if \<not> truncatable_role (msg_role m) then m
     else if length (msg_content m) \<le> truncation_threshold then m
     else m\<lparr>msg_content := truncation_marker em_dash (msg_role m) (length (msg_content m))\<rparr>) ms"

section \<open>Prompts\<close>

definition build_consolidation_system_prompt :: "string \<Rightarrow> string" where
  "build_consolidation_system_prompt existingSummary =
     join (newline @ newline)
       [''You are a memory consolidation assistant. Your job is to summarise old conversation messages into compact working memory.'',
        if existingSummary \<noteq> [] then ''Current memory context:'' @ newline @ existingSummary
        else ''No prior memory context.'']"

definition consolidation_guidelines :: string where
  "consolidation_guidelines =
     ''Please consolidate the following conversation messages into memory.'' @ newline @ newline @
     ''Write your response using the save_memory tool with these guidelines:'' @ newline @ newline @
     ''For `memory_update`, organize into these sections (omit empty sections):'' @ newline @
     ''1. **Primary Request & Intent** '' @ em_dash @ '' what the user is trying to accomplish'' @ newline @
     ''2. **Key Technical Context** '' @ em_dash @ '' languages, frameworks, APIs, domain concepts'' @ newline @
     ''3. **Files & Code** '' @ em_dash @ '' file paths, function names, code snippets referenced'' @ newline @
     ''4. **Errors & Fixes** '' @ em_dash @ '' problems encountered and how they were resolved'' @ newline @
     ''5. **Decisions Made** '' @ em_dash @ '' technical choices, trade-offs, rejected alternatives'' @ newline @
     ''6. **Pending Tasks** '' @ em_dash @ '' work acknowledged but not yet completed'' @ newline @
     ''7. **Current State** '' @ em_dash @ '' where the conversation left off'' @ newline @ newline @
     ''For `history_entry`, write a concise 2-3 sentence chronological log entry.''"

definition build_consolidation_user_prompt :: "string \<Rightarrow> string option \<Rightarrow> string" where
  "build_consolidation_user_prompt formattedChunk customInstructions =
     join (newline @ newline)
       ([consolidation_guidelines] @
        (case customInstructions of
           None \<Rightarrow> []
         | Some c \<Rightarrow> if c \<noteq> [] then [''Additional instructions: '' @ c] else []) @
        [''Messages to consolidate:'' @ newline @ newline @ formattedChunk])"

definition format_messages_for_summarizer :: "chat_message list \<Rightarrow> string" where
  "format_messages_for_summarizer ms =
     join newline (map (\<lambda>m. role_name (msg_role m) @ '': '' @ msg_content m) ms)"

section \<open>Boundaries\<close>

definition compression_keep_recent_cycles :: nat where
  "compression_keep_recent_cycles = 2"

text \<open>\<open>findVerbatimBoundary\<close>: the loop over \<open>i\<close> counts down; \<open>Suc i\<close> is the number of indices
  still to visit.\<close>

fun verbatim_loop :: "chat_message list \<Rightarrow> nat \<Rightarrow> nat \<Rightarrow> nat \<Rightarrow> int" where
  "verbatim_loop ms keepCycles 0 userSeen = -1"
| "verbatim_loop ms keepCycles (Suc i) userSeen =
     (if msg_role (ms ! i) = User then
        (if userSeen + 1 = keepCycles then int i
         else verbatim_loop ms keepCycles i (userSeen + 1))
      else verbatim_loop ms keepCycles i userSeen)"

definition find_verbatim_boundary :: "chat_message list \<Rightarrow> nat \<Rightarrow> int" where
  "find_verbatim_boundary ms keepCycles = verbatim_loop ms keepCycles (length ms) 0"

definition older_tool_use_ids :: "chat_message list \<Rightarrow> nat \<Rightarrow> string list" where
  "older_tool_use_ids ms b = filter (\<lambda>i. i \<noteq> []) (concat (map issued_ids (take b ms)))"

definition is_boundary_safe :: "chat_message list \<Rightarrow> nat \<Rightarrow> bool" where
  "is_boundary_safe ms b =
     (if b < length ms \<and> msg_role (ms ! b) = Tool then False
      else
        (let older = older_tool_use_ids ms b in
         if older = [] then True
         else list_all (\<lambda>m. \<not> (msg_role m = Tool \<and>
                (case msg_toolCallId m of None \<Rightarrow> False | Some i \<Rightarrow> i \<noteq> [] \<and> i \<in> set older)))
              (drop b ms)))"

text \<open>\<open>findSafeBoundary\<close>: the \<open>while\<close> walks back one user message at a time.\<close>

function safe_boundary_loop :: "chat_message list \<Rightarrow> nat \<Rightarrow> int" where
  "safe_boundary_loop ms boundary =
     (if 0 < boundary \<and> \<not> is_boundary_safe ms boundary then
        (case find_last_index (\<lambda>m. msg_role m = User) ms boundary of
           None \<Rightarrow> -1
         | Some prevUser \<Rightarrow> safe_boundary_loop ms prevUser)
      else if is_boundary_safe ms boundary then int boundary else -1)"
  by pat_completeness auto
termination
  by (relation "measure snd") (auto dest: find_last_index_Some)

declare safe_boundary_loop.simps [simp del]

definition find_safe_boundary :: "chat_message list \<Rightarrow> nat \<Rightarrow> int" where
  "find_safe_boundary ms keepCycles =
     (let boundary = find_verbatim_boundary ms keepCycles in
      if boundary \<le> 0 then boundary else safe_boundary_loop ms (nat boundary))"

section \<open>Compression\<close>

record ('r, 'w) compressor_env =
  ce_settings :: "'w \<Rightarrow> (thrown + (string \<times> json) list) \<times> 'w"
  ce_resolveProvider :: "string \<Rightarrow> 'w \<Rightarrow> (thrown + 'r) \<times> 'w"
  ce_chat :: "string \<Rightarrow> 'r \<Rightarrow> string \<Rightarrow> chat_message list \<Rightarrow> chat_options \<Rightarrow> 'w \<Rightarrow> (thrown + llm_response) \<times> 'w"

text \<open>\<open>resolveCompressionModel\<close>: any failure on the way falls back to the agent's model.\<close>

definition resolve_compression_model ::
  "('r, 'w) compressor_env \<Rightarrow> string \<times> string \<Rightarrow> 'w \<Rightarrow> (string \<times> string) \<times> 'w" where
  "resolve_compression_model env fallback w =
     (case ce_settings env w of
        (Inl _, w1) \<Rightarrow> (fallback, w1)
      | (Inr settings, w1) \<Rightarrow>
          (case map_of settings ''compressionModel'' of
             Some (JObj cm) \<Rightarrow>
               (case (map_of cm ''provider'', map_of cm ''model'') of
                  (Some (JStr p), Some (JStr m)) \<Rightarrow>
                    (case ce_resolveProvider env p w1 of
                       (Inl _, w2) \<Rightarrow> (fallback, w2)
                     | (Inr _, w2) \<Rightarrow> ((p, m), w2))
                | _ \<Rightarrow> (fallback, w1))
           | _ \<Rightarrow> (fallback, w1)))"

definition call_summarizer ::
  "('r, 'w) compressor_env \<Rightarrow> chat_message list \<Rightarrow> string \<times> string \<Rightarrow> 'w \<Rightarrow> (thrown + string) \<times> 'w" where
  "call_summarizer env older modelRef w =
     (case ce_resolveProvider env (fst modelRef) w of
        (Inl e, w1) \<Rightarrow> (Inl e, w1)
      | (Inr resolved, w1) \<Rightarrow>
          (let sysPrompt = build_consolidation_system_prompt [];
               userPrompt = build_consolidation_user_prompt (format_messages_for_summarizer older) None
           in case ce_chat env (fst modelRef) resolved (snd modelRef)
                     [plain_msg System sysPrompt, plain_msg User userPrompt]
                     \<lparr>co_model = Some (snd modelRef), co_tools = None, co_settings = None\<rparr> w1 of
                (Inl e, w2) \<Rightarrow> (Inl e, w2)
              | (Inr response, w2) \<Rightarrow>
                  (Inr (case resp_content response of None \<Rightarrow> [] | Some c \<Rightarrow> c), w2)))"

definition is_system :: "chat_message \<Rightarrow> bool" where
  "is_system m \<longleftrightarrow> msg_role m = System"

definition summary_msg :: "string \<Rightarrow> chat_message" where
  "summary_msg t = plain_msg System (''[Earlier conversation summary]'' @ newline @ t)"

definition compress ::
  "('r, 'w) compressor_env \<Rightarrow> chat_message list \<Rightarrow> string \<times> string \<Rightarrow> 'w \<Rightarrow>
   (thrown + chat_message list) \<times> 'w" where
  "compress env messages fallback w =
     (let boundary = find_safe_boundary messages compression_keep_recent_cycles in
      if boundary \<le> 0 then (Inr messages, w)
      else
        (let b = nat boundary;
             systemMessages = filter is_system messages;
             beforeBoundary = filter (\<lambda>m. \<not> is_system m) (take b messages);
             afterBoundary = filter (\<lambda>m. \<not> is_system m) (drop b messages);
             truncated = truncate_large_content beforeBoundary
         in case resolve_compression_model env fallback w of
              (modelRef, w1) \<Rightarrow>
                (case call_summarizer env truncated modelRef w1 of
                   (Inl e, w2) \<Rightarrow> (Inl e, w2)
                 | (Inr summaryText, w2) \<Rightarrow>
                     (Inr (systemMessages @ [summary_msg summaryText] @ afterBoundary), w2))))"

section \<open>History visibility\<close>

definition compute_hidden_in_history :: "chat_message list \<Rightarrow> bool \<Rightarrow> bool list" where
  "compute_hidden_in_history ms streamingUsed =
     (if streamingUsed then map (\<lambda>_. False) ms
      else case find_last_index (\<lambda>m. msg_role m = Assistant) ms (length ms) of
             None \<Rightarrow> map (\<lambda>_. False) ms
           | Some final \<Rightarrow> map (\<lambda>i. i \<noteq> final) [0..<length ms])"

section \<open>Facts\<close>

definition users_from :: "chat_message list \<Rightarrow> nat \<Rightarrow> nat" where
  "users_from ms b = count_if (\<lambda>m. msg_role m = User) (drop b ms)"

lemma users_from_step:
  "i < length ms \<Longrightarrow> users_from ms i = (if msg_role (ms ! i) = User then 1 else 0) + users_from ms (Suc i)"
  by (simp add: users_from_def flip: Cons_nth_drop_Suc)

lemma users_from_antimono: "a \<le> b \<Longrightarrow> users_from ms b \<le> users_from ms a"
proof -
  assume "a \<le> b"
  then have "drop a ms = take (b - a) (drop a ms) @ drop b ms"
    by (metis append_take_drop_id drop_drop le_add_diff_inverse2)
  then show ?thesis unfolding users_from_def by (metis count_if_simps(3) le_add2)
qed

lemma verbatim_loop_result:
  "n \<le> length ms \<Longrightarrow> verbatim_loop ms k n (users_from ms n) = r \<Longrightarrow> 0 \<le> r \<Longrightarrow>
   nat r < n \<and> msg_role (ms ! nat r) = User \<and> users_from ms (nat r) = k"
proof (induction n arbitrary: r)
  case 0
  then show ?case by simp
next
  case (Suc n)
  have step: "users_from ms n = (if msg_role (ms ! n) = User then 1 else 0) + users_from ms (Suc n)"
    using Suc.prems(1) by (intro users_from_step) simp
  show ?case
  proof (cases "msg_role (ms ! n) = User \<and> users_from ms (Suc n) + 1 = k")
    case True
    then have "r = int n" using Suc.prems(2) by simp
    with True step show ?thesis by simp
  next
    case False
    then have "verbatim_loop ms k n (users_from ms n) = r"
      using Suc.prems(2) step by (auto split: if_splits)
    from Suc.IH [OF _ this Suc.prems(3)] Suc.prems(1) show ?thesis by auto
  qed
qed

lemma find_verbatim_boundary_result:
  assumes "find_verbatim_boundary ms k = r" and "0 \<le> r"
  shows "nat r < length ms" and "msg_role (ms ! nat r) = User" and "users_from ms (nat r) = k"
  using verbatim_loop_result [of "length ms" ms k r] assms
  by (simp_all add: find_verbatim_boundary_def users_from_def)

lemma safe_boundary_loop_result:
  "b < length ms \<Longrightarrow> msg_role (ms ! b) = User \<Longrightarrow> safe_boundary_loop ms b = r \<Longrightarrow> 0 \<le> r \<Longrightarrow>
   nat r \<le> b \<and> msg_role (ms ! nat r) = User \<and> is_boundary_safe ms (nat r)"
proof (induction ms b arbitrary: r rule: safe_boundary_loop.induct)
  case (1 ms b)
  show ?case
  proof (cases "0 < b \<and> \<not> is_boundary_safe ms b")
    case True
    show ?thesis
    proof (cases "find_last_index (\<lambda>m. msg_role m = User) ms b")
      case None
      then have "r = -1" using "1.prems"(3) True by (simp add: safe_boundary_loop.simps)
      then show ?thesis using "1.prems"(4) by simp
    next
      case (Some p)
      have p: "p < b" "msg_role (ms ! p) = User" using find_last_index_Some [OF Some] by auto
      have "safe_boundary_loop ms p = r"
        using "1.prems"(3) True Some by (simp add: safe_boundary_loop.simps [of ms b])
      from "1.IH" [OF True Some _ p(2) this "1.prems"(4)] p(1) "1.prems"(1)
      show ?thesis by auto
    qed
  next
    case False
    then show ?thesis using "1.prems"
      by (auto simp: safe_boundary_loop.simps [of ms b] split: if_splits)
  qed
qed

lemma find_safe_boundary_result:
  assumes "find_safe_boundary ms k = r" and "0 < r"
  shows "nat r < length ms" and "msg_role (ms ! nat r) = User"
    and "k \<le> users_from ms (nat r)" and "is_boundary_safe ms (nat r)"
proof -
  let ?v = "find_verbatim_boundary ms k"
  have v: "0 < ?v" and l: "safe_boundary_loop ms (nat ?v) = r"
    using assms by (auto simp: find_safe_boundary_def Let_def split: if_splits)
  note V = find_verbatim_boundary_result [OF refl, of ms k, OF less_imp_le [OF v]]
  note S = safe_boundary_loop_result [OF V(1,2) l less_imp_le [OF assms(2)]]
  show "nat r < length ms" using S V(1) by auto
  show "msg_role (ms ! nat r) = User" "is_boundary_safe ms (nat r)" using S by auto
  show "k \<le> users_from ms (nat r)" using S V(3) users_from_antimono by metis
qed

lemma is_boundary_safe_separates:
  assumes "is_boundary_safe ms b" and "m \<in> set (drop b ms)" and "answers m = Some i" and "i \<noteq> []"
  shows "i \<notin> all_issued (take b ms)"
proof
  assume "i \<in> all_issued (take b ms)"
  then have "i \<in> set (older_tool_use_ids ms b)"
    using assms(4) by (auto simp: older_tool_use_ids_def all_issued_def)
  with assms show False
    by (auto simp: is_boundary_safe_def Let_def answers_def list_all_iff split: if_splits)
qed

text \<open>The shape of every compression that changes the conversation.\<close>

lemma compress_shape:
  assumes "compress env ms fb w = (Inr out, w')"
  obtains (same) "out = ms"
    | (cut) b t where "0 < b" "b < length ms" "msg_role (ms ! b) = User" "2 \<le> users_from ms b"
        "is_boundary_safe ms b"
        "out = filter is_system ms @ [summary_msg t] @ filter (\<lambda>m. \<not> is_system m) (drop b ms)"
proof (cases "find_safe_boundary ms compression_keep_recent_cycles \<le> 0")
  case True
  then show thesis using assms same by (simp add: compress_def)
next
  case False
  let ?r = "find_safe_boundary ms compression_keep_recent_cycles"
  have pos: "0 < ?r" using False by simp
  note R = find_safe_boundary_result [OF refl pos]
  from assms False obtain t where
    "out = filter is_system ms @ [summary_msg t] @ filter (\<lambda>m. \<not> is_system m) (drop (nat ?r) ms)"
    by (auto simp: compress_def Let_def split: prod.splits sum.splits)
  then show thesis
    using R pos by (intro cut [of "nat ?r" t]) (auto simp: compression_keep_recent_cycles_def)
qed

section \<open>Properties\<close>

lemma compress_pairing:
  assumes "well_paired ms"
    and "\<And>m i. m \<in> set ms \<Longrightarrow> answers m = Some i \<Longrightarrow> i \<noteq> []"
    and "compress env ms fb w = (Inr out, w')"
  shows "well_paired out"
  using assms(3)
proof (cases rule: compress_shape)
  case same
  with assms(1) show ?thesis by simp
next
  case (cut b t)
  let ?after = "filter (\<lambda>m. \<not> is_system m) (drop b ms)"
  have "paired_from {} (take b ms @ drop b ms)" using assms(1) by (simp add: well_paired_def)
  then have "paired_from (all_issued (take b ms)) (drop b ms)"
    unfolding paired_from_append by simp
  then have "paired_from (all_issued (take b ms)) ?after"
    by (rule paired_from_filter_neutral [rotated]) (simp add: is_system_def)
  moreover have "i \<notin> all_issued (take b ms)" if "m \<in> set ?after" "answers m = Some i" for m i
  proof (rule is_boundary_safe_separates [OF cut(5) _ that(2)])
    show m: "m \<in> set (drop b ms)" using that(1) by simp
    show "i \<noteq> []" using assms(2) [OF in_set_dropD [OF m] that(2)] .
  qed
  ultimately have after: "paired_from {} ?after"
    using paired_from_shrink [of ?after "all_issued (take b ms)" "{}"] by auto
  have "paired_from {} (filter is_system ms @ [summary_msg t])"
    by (rule paired_from_neutral) (auto simp: is_system_def summary_msg_def)
  then show ?thesis
    using after paired_from_mono [OF after]
    by (simp add: well_paired_def cut(6) paired_from_append)
qed

text \<open>
  C6: Compressing a conversation never separates a tool result from its call: if every tool
  result of the input answers a call made earlier in it (with nonempty ids), the same holds of
  the compressed conversation, so the provider accepts it.
\<close>

theorem compress_keeps_pairing:
  assumes "well_paired ms"
    and "\<And>m i. m \<in> set ms \<Longrightarrow> answers m = Some i \<Longrightarrow> i \<noteq> []"
    and "compress env ms fb w = (Inr out, w')"
  shows "well_paired out"
  using assms by (rule compress_pairing)

text \<open>A summarizing environment for the witnesses: no stored model, the summary is fixed.\<close>

definition sample_compressor :: "(unit, unit) compressor_env" where
  "sample_compressor =
     \<lparr>ce_settings = (\<lambda>w. (Inr [], w)),
      ce_resolveProvider = (\<lambda>_ w. (Inr (), w)),
      ce_chat = (\<lambda>_ _ _ _ _ w.
        (Inr \<lparr>resp_content = Some ''sum'', resp_toolCalls = [], resp_finishReason = FStop,
              resp_usage = zero_usage\<rparr>, w))\<rparr>"

definition sample_call :: tool_call where
  "sample_call = \<lparr>tc_id = ''c1'', tc_name = ''shell'', tc_arguments = JObj []\<rparr>"

definition sample_conversation :: "chat_message list" where
  "sample_conversation =
     [plain_msg System ''s'', plain_msg User ''u1'', assistant_calls_msg ''a'' [sample_call],
      tool_result_msg ''r'' ''c1'', plain_msg User ''u2'', plain_msg Assistant ''a2'', plain_msg User ''u3'']"

definition sample_compressed :: "chat_message list" where
  "sample_compressed =
     [plain_msg System ''s'', summary_msg ''sum'',
      plain_msg User ''u2'', plain_msg Assistant ''a2'', plain_msg User ''u3'']"

lemma sample_compress:
  "compress sample_compressor sample_conversation (''p'', ''m'') () = (Inr sample_compressed, ())"
proof -
  have "find_safe_boundary sample_conversation 2 = 4"
    by code_simp
  then show ?thesis
    by (simp add: compress_def compression_keep_recent_cycles_def resolve_compression_model_def
        call_summarizer_def sample_compressor_def sample_conversation_def sample_compressed_def is_system_def)
qed

theorem compress_keeps_pairing_witness: "well_paired sample_compressed"
  by (rule compress_keeps_pairing [OF _ _ sample_compress])
    (auto simp: well_paired_def sample_conversation_def answers_def issued_ids_def sample_call_def)

text \<open>
  Compression loses nothing recent and no system message: the result is the input itself,
  or all its system messages in order, one summary, and every non-system message from a user
  message on that has at least two user messages in its tail.
\<close>

theorem compress_keeps_recent:
  assumes "compress env ms fb w = (Inr out, w')"
  shows "out = ms \<or>
    (\<exists>b t. 0 < b \<and> b < length ms \<and> msg_role (ms ! b) = User \<and> 2 \<le> users_from ms b \<and>
       out = filter is_system ms @ [summary_msg t] @ filter (\<lambda>m. \<not> is_system m) (drop b ms))"
  using assms by (cases rule: compress_shape) blast+

theorem compress_keeps_recent_witness:
  "\<exists>b. 0 < b \<and> b < length sample_conversation \<and> 2 \<le> users_from sample_conversation b"
  using compress_keeps_recent [OF sample_compress]
  by (auto simp: sample_conversation_def sample_compressed_def plain_msg_def)

text \<open>
  Microcompaction is safe to repeat and touches only bulk: rows keep their identity, role,
  order and pairing, user and assistant rows are returned unchanged, every tool and system row
  ends up within the threshold, and a second pass changes nothing. The bound on the lengths is
  that of a string of fewer than \<open>10 ^ 400\<close> characters.
\<close>

lemma length_show_nat: "n < 10 ^ Suc k \<Longrightarrow> length (show_nat n) \<le> Suc k"
proof (induction k arbitrary: n)
  case 0
  then show ?case by (simp add: show_nat_small)
next
  case (Suc k)
  show ?case
  proof (cases "n < 10")
    case True
    then show ?thesis by (simp add: show_nat_small)
  next
    case False
    moreover have "n div 10 < 10 ^ Suc k" using Suc.prems by (simp add: less_mult_imp_div_less mult.commute)
    ultimately show ?thesis using Suc.IH by (simp add: show_nat_step)
  qed
qed

lemma length_truncation_marker:
  assumes "n < 10 ^ 400"
  shows "length (truncation_marker ''-'' r n) \<le> 500"
proof -
  have "length (show_nat n) \<le> 400" using length_show_nat [of n 399] assms by simp
  then show ?thesis by (simp add: truncation_marker_def)
qed

theorem microcompact_safe:
  assumes "\<And>m. m \<in> set ms \<Longrightarrow> length (row_content m) < 10 ^ 400"
  shows "map row_id (microcompact_messages ms) = map row_id ms \<and>
    map row_ordering (microcompact_messages ms) = map row_ordering ms \<and>
    map row_toolCallId (microcompact_messages ms) = map row_toolCallId ms \<and>
    filter (\<lambda>m. \<not> truncatable_role (row_role m)) (microcompact_messages ms)
      = filter (\<lambda>m. \<not> truncatable_role (row_role m)) ms \<and>
    (\<forall>m \<in> set (microcompact_messages ms).
       truncatable_role (row_role m) \<longrightarrow> length (row_content m) \<le> truncation_threshold) \<and>
    microcompact_messages (microcompact_messages ms) = microcompact_messages ms"
proof (intro conjI)
  have small: "truncatable_role (row_role (microcompact_row m)) \<Longrightarrow>
      length (row_content (microcompact_row m)) \<le> truncation_threshold" if "m \<in> set ms" for m
    using length_truncation_marker [OF assms [OF that]]
    by (simp add: microcompact_row_def truncation_threshold_def split: if_splits)
  show "map row_id (microcompact_messages ms) = map row_id ms"
    "map row_ordering (microcompact_messages ms) = map row_ordering ms"
    "map row_toolCallId (microcompact_messages ms) = map row_toolCallId ms"
    by (simp_all add: microcompact_messages_def microcompact_row_def comp_def)
  show "filter (\<lambda>m. \<not> truncatable_role (row_role m)) (microcompact_messages ms)
      = filter (\<lambda>m. \<not> truncatable_role (row_role m)) ms"
    by (induction ms) (auto simp: microcompact_messages_def microcompact_row_def)
  show "\<forall>m \<in> set (microcompact_messages ms).
      truncatable_role (row_role m) \<longrightarrow> length (row_content m) \<le> truncation_threshold"
    using small by (auto simp: microcompact_messages_def)
  show "microcompact_messages (microcompact_messages ms) = microcompact_messages ms"
    using small by (auto simp: microcompact_messages_def microcompact_row_def [of "microcompact_row _"])
qed

definition sample_row :: "nat \<Rightarrow> message_row" where
  "sample_row n = \<lparr>row_id = ''r'', row_sessionId = ''s'', row_role = Tool, row_content = replicate n CHR ''x'',
     row_toolCallId = Some ''c'', row_toolCalls = None, row_ordering = 0, row_createdAt = 0\<rparr>"

theorem microcompact_safe_witness:
  "microcompact_messages (microcompact_messages [sample_row 501]) = microcompact_messages [sample_row 501]"
proof (rule microcompact_safe [THEN conjunct2, THEN conjunct2, THEN conjunct2, THEN conjunct2, THEN conjunct2])
  fix m
  assume "m \<in> set [sample_row 501]"
  then have "length (row_content m) = 501" by (simp add: sample_row_def)
  moreover have "(501 :: nat) < 10 ^ 400" by simp
  ultimately show "length (row_content m) < 10 ^ 400" by simp
qed

text \<open>
  In the history of a run that did not stream, exactly one message of the run is visible
  when it has an assistant message, and that is its last assistant message; otherwise every
  message is.
\<close>

theorem history_shows_final_reply:
  assumes "\<not> streamed" and "m \<in> set ms" and "msg_role m = Assistant"
  shows "\<exists>f < length ms. msg_role (ms ! f) = Assistant \<and>
      (\<forall>j. f < j \<and> j < length ms \<longrightarrow> msg_role (ms ! j) \<noteq> Assistant) \<and>
      compute_hidden_in_history ms streamed = map (\<lambda>i. i \<noteq> f) [0..<length ms]"
proof (cases "find_last_index (\<lambda>m. msg_role m = Assistant) ms (length ms)")
  case None
  from find_last_index_None [OF None] assms(2,3) show ?thesis by (metis in_set_conv_nth)
next
  case (Some f)
  with find_last_index_Some [OF Some] assms(1) show ?thesis
    by (auto simp: compute_hidden_in_history_def)
qed

theorem history_shows_final_reply_witness:
  "\<exists>f < length sample_conversation.
      compute_hidden_in_history sample_conversation False = map (\<lambda>i. i \<noteq> f) [0..<length sample_conversation]"
  using history_shows_final_reply [of False "plain_msg Assistant ''a2''" sample_conversation]
  by (auto simp: sample_conversation_def)

end
