(* ===== verification/ReasoningLoop.thy ===== *)
theory ReasoningLoop
  imports Compressor
begin

text \<open>
  \<open>packages/api/src/engine/reasoning-loop.ts\<close>: the loop that alternates provider calls and
  tool executions. The token tracker is shared by reference with sub-agents, so it is part of
  the world: every external operation (provider, tools, callbacks) may change it. The rest of
  the world is the type parameter \<open>'x\<close>. Callbacks of the configuration are optional fields of
  the environment; logging, the heartbeat and the slow-tool timers only log and are left out.
  An exception leaves the loop as an \<open>Inl\<close>.
\<close>

section \<open>Environment, configuration, state\<close>

record 'x engine_world =
  ew_tracker :: "tracker option"
  ew_external :: 'x

datatype reasoning_event = AssistantChunk string bool | ToolStarted string json

datatype observation = OnIteration nat | OnToolStart string | OnToolEnd string

record 'x loop_env =
  le_recovery :: "'x engine_world recovery_env" \<comment> \<open>provider, abort signal, timers, compressor\<close>
  le_execute :: "string \<Rightarrow> json \<Rightarrow> 'x engine_world \<Rightarrow> (thrown + tool_result) \<times> 'x engine_world"
  le_definitions :: "tool_definition list"
  le_onEvent :: "(reasoning_event \<Rightarrow> 'x engine_world \<Rightarrow> thrown option \<times> 'x engine_world) option"
  le_onProgress :: "(string \<Rightarrow> 'x engine_world \<Rightarrow> 'x engine_world) option"
  le_observe :: "observation \<Rightarrow> 'x engine_world \<Rightarrow> 'x engine_world"
  le_externalAborted :: "'x engine_world \<Rightarrow> bool" \<comment> \<open>the caller's own signal\<close>

abbreviation le_aborted :: "'x loop_env \<Rightarrow> 'x engine_world \<Rightarrow> bool" where
  "le_aborted env \<equiv> re_aborted (le_recovery env)"

record loop_config =
  lc_maxIterations :: "nat option"
  lc_model :: "string option"
  lc_settings :: "generation_settings option"
  lc_stalenessMap :: "(string \<times> (string \<times> bool)) list option" \<comment> \<open>path to (name, stale)\<close>

record loop_result =
  lr_content :: "string option"
  lr_messages :: "chat_message list"
  lr_totalUsage :: llm_usage
  lr_iterations :: nat
  lr_hitMaxIterations :: bool
  lr_hitTokenBudget :: bool
  lr_hitTimeout :: bool

record loop_state =
  ls_messages :: "chat_message list"
  ls_totalUsage :: llm_usage
  ls_iterations :: nat
  ls_lastResponse :: "llm_response option"
  ls_hitTokenBudget :: bool
  ls_nextCallIsGraceTurn :: bool
  ls_toolLoopGuard :: loop_guard
  ls_injectedSkills :: "string list"

definition default_max_iterations :: nat where
  "default_max_iterations = 40"

definition grace_turn_max_tokens :: nat where
  "grace_turn_max_tokens = 1500"

definition skill_staleness_threshold_days :: nat where
  "skill_staleness_threshold_days = 14"

definition max_iterations :: "loop_config \<Rightarrow> nat" where
  "max_iterations cfg = (case lc_maxIterations cfg of None \<Rightarrow> default_max_iterations | Some n \<Rightarrow> n)"

section \<open>Helpers\<close>

definition or_zero :: "nat option \<Rightarrow> nat" where
  "or_zero x = (case x of None \<Rightarrow> 0 | Some n \<Rightarrow> n)"

definition add_usage :: "llm_usage \<Rightarrow> llm_usage \<Rightarrow> llm_usage" where
  "add_usage a b =
     (let cacheCreation = or_zero (cacheCreationInputTokens a) + or_zero (cacheCreationInputTokens b);
          cacheRead = or_zero (cacheReadInputTokens a) + or_zero (cacheReadInputTokens b)
      in \<lparr>inputTokens = inputTokens a + inputTokens b,
          outputTokens = outputTokens a + outputTokens b,
          totalTokens = totalTokens a + totalTokens b,
          cacheCreationInputTokens = (if 0 < cacheCreation then Some cacheCreation else None),
          cacheReadInputTokens = (if 0 < cacheRead then Some cacheRead else None)\<rparr>)"

text \<open>\<open>formatArgs\<close>; the arguments of a tool call are an object.\<close>

definition format_args :: "json \<Rightarrow> string" where
  "format_args args =
     (case args of
        JObj [] \<Rightarrow> []
      | JObj [(k, v)] \<Rightarrow> [CHR 0x22] @ js_string v @ [CHR 0x22]
      | JObj kvs \<Rightarrow> ''{'' @ show_nat (length kvs) @ '' args}''
      | _ \<Rightarrow> [])"

definition chat_options_of :: "'x loop_env \<Rightarrow> loop_config \<Rightarrow> chat_options" where
  "chat_options_of env cfg =
     \<lparr>co_model = (case lc_model cfg of Some m \<Rightarrow> if m = [] then None else Some m | None \<Rightarrow> None),
      co_tools = Some (le_definitions env),
      co_settings = lc_settings cfg\<rparr>"

text \<open>The restricted options of the wrap-up turn: no tools, capped output.\<close>

definition grace_options :: "chat_options \<Rightarrow> chat_options" where
  "grace_options opts =
     opts\<lparr>co_tools := Some [],
          co_settings := Some ((case co_settings opts of None \<Rightarrow> empty_settings | Some s \<Rightarrow> s)
                                 \<lparr>gs_maxTokens := Some grace_turn_max_tokens\<rparr>)\<rparr>"

definition grace_msg :: chat_message where
  "grace_msg = plain_msg System
     ''You are at your token limit. Summarize your findings and finish in this turn.''"

definition staleness_msg :: "string \<Rightarrow> bool \<Rightarrow> chat_message" where
  "staleness_msg name stale = plain_msg System
     (''You just loaded skill '' @ [CHR 0x22] @ name @ [CHR 0x22] @
      (if stale then '' (not updated in '' @ show_nat skill_staleness_threshold_days @ ''+ days)'' else []) @
      ''. After completing the current task using this skill, reflect: '' @
      ''did the skill accurately guide you? If anything was wrong, missing, '' @
      ''or outdated, patch it with edit_file before moving on.'')"

definition push :: "chat_message \<Rightarrow> loop_state \<Rightarrow> loop_state" where
  "push m s = s\<lparr>ls_messages := ls_messages s @ [m]\<rparr>"

definition content_or_empty :: "llm_response \<Rightarrow> string" where
  "content_or_empty r = (case resp_content r of None \<Rightarrow> [] | Some c \<Rightarrow> c)"

text \<open>Awaited streaming callback: \<open>Some e\<close> when it throws.\<close>

definition fire_event ::
  "'x loop_env \<Rightarrow> reasoning_event \<Rightarrow> 'x engine_world \<Rightarrow> thrown option \<times> 'x engine_world" where
  "fire_event env ev w = (case le_onEvent env of None \<Rightarrow> (None, w) | Some f \<Rightarrow> f ev w)"

definition tracker_over :: "'x engine_world \<Rightarrow> bool" where
  "tracker_over w = (case ew_tracker w of None \<Rightarrow> False | Some t \<Rightarrow> is_over_grace t)"

definition tracker_wants_grace :: "'x engine_world \<Rightarrow> bool" where
  "tracker_wants_grace w = (case ew_tracker w of None \<Rightarrow> False | Some t \<Rightarrow> should_inject_grace t)"

definition upd_tracker :: "(tracker \<Rightarrow> tracker) \<Rightarrow> 'x engine_world \<Rightarrow> 'x engine_world" where
  "upd_tracker f w = w\<lparr>ew_tracker := map_option f (ew_tracker w)\<rparr>"

section \<open>Tool execution\<close>

text \<open>The staleness reminder after a successful \<open>read_file\<close> of a skill.\<close>

definition staleness_hint :: "loop_config \<Rightarrow> tool_call \<Rightarrow> tool_result \<Rightarrow> loop_state \<Rightarrow> loop_state" where
  "staleness_hint cfg tc res s =
     (case lc_stalenessMap cfg of
        None \<Rightarrow> s
      | Some smap \<Rightarrow>
          if \<not> tr_isError res \<and> smap \<noteq> [] \<and> tc_name tc = ''read_file'' then
            (let filePath = (case tc_arguments tc of
                   JObj kvs \<Rightarrow> (case map_of kvs ''path'' of
                       None \<Rightarrow> [] | Some JNull \<Rightarrow> [] | Some v \<Rightarrow> js_string v)
                 | _ \<Rightarrow> [])
             in if filePath \<in> set (ls_injectedSkills s) then s
                else (case map_of smap filePath of
                        None \<Rightarrow> s
                      | Some (name, stale) \<Rightarrow>
                          push (staleness_msg name stale)
                            (s\<lparr>ls_injectedSkills := ls_injectedSkills s @ [filePath]\<rparr>)))
          else s)"

text \<open>One tool call: announce, run (the \<open>finally\<close> reports the end), guard, result, reminder.\<close>

definition exec_tool_call ::
  "'x loop_env \<Rightarrow> loop_config \<Rightarrow> tool_call \<Rightarrow> loop_state \<Rightarrow> 'x engine_world \<Rightarrow>
   (thrown + loop_state) \<times> 'x engine_world" where
  "exec_tool_call env cfg tc s w =
     (case fire_event env (ToolStarted (tc_name tc) (tc_arguments tc)) w of
        (Some e, w1) \<Rightarrow> (Inl e, w1)
      | (None, w1) \<Rightarrow>
          (let w2 = le_observe env (OnToolStart (tc_name tc)) w1 in
           case le_execute env (tc_name tc) (tc_arguments tc) w2 of
             (Inl e, w3) \<Rightarrow> (Inl e, le_observe env (OnToolEnd (tc_name tc)) w3)
           | (Inr res, w3) \<Rightarrow>
               (let w4 = le_observe env (OnToolEnd (tc_name tc)) w3 in
                case guard_record (tc_name tc) (tc_arguments tc) (tr_isError res) (ls_toolLoopGuard s) of
                  Inl (LoopAbortedError n a) \<Rightarrow> (Inl (ThrownLoopAborted n a), w4)
                | Inr g \<Rightarrow>
                    (Inr (staleness_hint cfg tc res
                       (push (tool_result_msg (tr_output res) (tc_id tc)) (s\<lparr>ls_toolLoopGuard := g\<rparr>))), w4))))"

fun exec_tool_calls ::
  "'x loop_env \<Rightarrow> loop_config \<Rightarrow> tool_call list \<Rightarrow> loop_state \<Rightarrow> 'x engine_world \<Rightarrow>
   (thrown + loop_state) \<times> 'x engine_world" where
  "exec_tool_calls env cfg [] s w = (Inr s, w)"
| "exec_tool_calls env cfg (tc # tcs) s w =
     (case exec_tool_call env cfg tc s w of
        (Inl e, w1) \<Rightarrow> (Inl e, w1)
      | (Inr s1, w1) \<Rightarrow> exec_tool_calls env cfg tcs s1 w1)"

section \<open>One iteration\<close>

datatype 'x turn =
    Throw thrown "'x engine_world"
  | Break loop_state "'x engine_world"
  | Next loop_state "'x engine_world"

text \<open>After the response: accounting, streaming, the two budget stops, the terminal responses,
  and the tool calls.\<close>

definition after_usage :: "llm_response \<Rightarrow> loop_state \<Rightarrow> loop_state" where
  "after_usage response s =
     s\<lparr>ls_lastResponse := Some response, ls_totalUsage := add_usage (ls_totalUsage s) (resp_usage response)\<rparr>"

definition emit_chunk ::
  "'x loop_env \<Rightarrow> llm_response \<Rightarrow> 'x engine_world \<Rightarrow> thrown option \<times> 'x engine_world" where
  "emit_chunk env response w =
     (case resp_content response of
        Some c \<Rightarrow> if c \<noteq> [] \<and> trim_ws c \<noteq> []
                  then fire_event env (AssistantChunk c (resp_toolCalls response = [])) w else (None, w)
      | None \<Rightarrow> (None, w))"

definition inject_grace :: "loop_state \<Rightarrow> 'x engine_world \<Rightarrow> loop_state \<times> 'x engine_world" where
  "inject_grace s w =
     (if tracker_wants_grace w
      then ((push grace_msg s)\<lparr>ls_nextCallIsGraceTurn := True\<rparr>, upd_tracker mark_grace_injected w)
      else (s, w))"

definition run_tools ::
  "'x loop_env \<Rightarrow> loop_config \<Rightarrow> llm_response \<Rightarrow> loop_state \<Rightarrow> 'x engine_world \<Rightarrow> 'x turn" where
  "run_tools env cfg response s w =
     (let s1 = push (assistant_calls_msg (content_or_empty response) (resp_toolCalls response)) s;
          w1 = (case le_onProgress env of
                  None \<Rightarrow> w
                | Some f \<Rightarrow> f (join '', '' (map (\<lambda>tc. tc_name tc @ ''('' @ format_args (tc_arguments tc) @ '')'')
                                            (resp_toolCalls response))) w)
      in case exec_tool_calls env cfg (resp_toolCalls response) s1 w1 of
           (Inl e, w2) \<Rightarrow> Throw e w2
         | (Inr s2, w2) \<Rightarrow> Next s2 w2)"

definition after_response ::
  "'x loop_env \<Rightarrow> loop_config \<Rightarrow> llm_response \<Rightarrow> loop_state \<Rightarrow> 'x engine_world \<Rightarrow> 'x turn" where
  "after_response env cfg response s w =
     (let s1 = after_usage response s;
          w1 = upd_tracker (bt_record (resp_usage response)) w
      in case emit_chunk env response w1 of
           (Some e, w2) \<Rightarrow> Throw e w2
         | (None, w2) \<Rightarrow>
             if tracker_over w2 then
               Break ((push (plain_msg Assistant (content_or_empty response)) s1)\<lparr>ls_hitTokenBudget := True\<rparr>) w2
             else
               (case inject_grace s1 w2 of
                  (s2, w3) \<Rightarrow>
                    if resp_finishReason response = FError then
                      Break (push (plain_msg Assistant (content_or_empty response)) s2) w3
                    else if resp_toolCalls response = [] then
                      Break (push (plain_msg Assistant (content_or_empty response)) s2) w3
                    else run_tools env cfg response s2 w3))"

text \<open>The body of the \<open>while\<close>: the two checks before the call, the call with recovery, and the
  clean exit when the call failed because the run was aborted.\<close>

definition call_options :: "'x loop_env \<Rightarrow> loop_config \<Rightarrow> loop_state \<Rightarrow> chat_options" where
  "call_options env cfg s =
     (if ls_nextCallIsGraceTurn s then grace_options (chat_options_of env cfg) else chat_options_of env cfg)"

definition loop_turn ::
  "'x loop_env \<Rightarrow> loop_config \<Rightarrow> loop_state \<Rightarrow> 'x engine_world \<Rightarrow> 'x turn" where
  "loop_turn env cfg s w =
     (if le_aborted env w then Break s w
      else if tracker_over w then Break (s\<lparr>ls_hitTokenBudget := True\<rparr>) w
      else
        (let s1 = s\<lparr>ls_iterations := ls_iterations s + 1\<rparr>;
             w1 = le_observe env (OnIteration (ls_iterations s1)) w;
             opts = call_options env cfg s1;
             s2 = s1\<lparr>ls_nextCallIsGraceTurn := False\<rparr>
         in case run_with_recovery (le_recovery env) default_recovery_config (ls_messages s2) opts w1 of
              (Inl err, evs, w2) \<Rightarrow> if le_aborted env w2 then Break s2 w2 else Throw err w2
            | (Inr (response, ms), evs, w2) \<Rightarrow>
                after_response env cfg response (s2\<lparr>ls_messages := ms\<rparr>) w2))"

section \<open>The loop\<close>

lemma staleness_hint_frame [frame]:
  "ls_iterations (staleness_hint cfg tc res s) = ls_iterations s"
  "ls_lastResponse (staleness_hint cfg tc res s) = ls_lastResponse s"
  "ls_totalUsage (staleness_hint cfg tc res s) = ls_totalUsage s"
  "ls_hitTokenBudget (staleness_hint cfg tc res s) = ls_hitTokenBudget s"
  "ls_nextCallIsGraceTurn (staleness_hint cfg tc res s) = ls_nextCallIsGraceTurn s"
  by (auto simp: staleness_hint_def push_def Let_def split: option.split)

lemma push_frame [frame, simp]:
  "ls_iterations (push m s) = ls_iterations s"
  "ls_lastResponse (push m s) = ls_lastResponse s"
  "ls_totalUsage (push m s) = ls_totalUsage s"
  "ls_hitTokenBudget (push m s) = ls_hitTokenBudget s"
  "ls_nextCallIsGraceTurn (push m s) = ls_nextCallIsGraceTurn s"
  "ls_messages (push m s) = ls_messages s @ [m]"
  by (simp_all add: push_def)

lemma exec_tool_call_frame:
  assumes "exec_tool_call env cfg tc s w = (Inr s', w')"
  shows "ls_iterations s' = ls_iterations s" "ls_lastResponse s' = ls_lastResponse s"
    "ls_totalUsage s' = ls_totalUsage s" "ls_hitTokenBudget s' = ls_hitTokenBudget s"
    "ls_nextCallIsGraceTurn s' = ls_nextCallIsGraceTurn s"
  using assms
  by (auto simp: exec_tool_call_def Let_def frame
      split: prod.splits option.splits sum.splits loop_aborted.splits)

lemma exec_tool_calls_frame:
  "exec_tool_calls env cfg tcs s w = (Inr s', w') \<Longrightarrow>
   ls_iterations s' = ls_iterations s \<and> ls_lastResponse s' = ls_lastResponse s \<and>
   ls_totalUsage s' = ls_totalUsage s \<and> ls_hitTokenBudget s' = ls_hitTokenBudget s \<and>
   ls_nextCallIsGraceTurn s' = ls_nextCallIsGraceTurn s"
proof (induction env cfg tcs s w rule: exec_tool_calls.induct)
  case (1 env cfg s w)
  then show ?case by simp
next
  case (2 env cfg tc tcs s w)
  from "2.prems" obtain s1 w1 where one: "exec_tool_call env cfg tc s w = (Inr s1, w1)"
    and rest: "exec_tool_calls env cfg tcs s1 w1 = (Inr s', w')"
    by (auto split: prod.splits sum.splits)
  from "2.IH" [OF one [symmetric] _ rest] exec_tool_call_frame [OF one] show ?case by simp
qed

lemma inject_grace_frame:
  "inject_grace s w = (s', w') \<Longrightarrow>
   ls_iterations s' = ls_iterations s \<and> ls_lastResponse s' = ls_lastResponse s \<and>
   ls_totalUsage s' = ls_totalUsage s \<and> ls_hitTokenBudget s' = ls_hitTokenBudget s \<and>
   ls_toolLoopGuard s' = ls_toolLoopGuard s"
  by (auto simp: inject_grace_def push_def split: if_splits)

text \<open>The turns that go on: the response had tool calls and they all ran.\<close>

lemma loop_turn_Next:
  assumes "loop_turn env cfg s w = Next s' w'"
  obtains response ms evs w1 w2 w3 s2 w4 where
    "\<not> le_aborted env w" "\<not> tracker_over w"
    "run_with_recovery (le_recovery env) default_recovery_config (ls_messages s)
       (call_options env cfg s) (le_observe env (OnIteration (Suc (ls_iterations s))) w)
     = (Inr (response, ms), evs, w1)"
    "emit_chunk env response (upd_tracker (bt_record (resp_usage response)) w1) = (None, w2)"
    "\<not> tracker_over w2"
    "inject_grace (after_usage response
       (s\<lparr>ls_iterations := Suc (ls_iterations s), ls_nextCallIsGraceTurn := False, ls_messages := ms\<rparr>)) w2
     = (s2, w3)"
    "resp_toolCalls response \<noteq> []" "resp_finishReason response \<noteq> FError"
    "run_tools env cfg response s2 w3 = Next s' w'"
  using assms
  by (auto simp: loop_turn_def after_response_def Let_def call_options_def
      split: if_splits prod.splits sum.splits option.splits)

lemma run_tools_Next:
  assumes "run_tools env cfg response s w = Next s' w'"
  obtains w1 where "exec_tool_calls env cfg (resp_toolCalls response)
     (push (assistant_calls_msg (content_or_empty response) (resp_toolCalls response)) s) w1 = (Inr s', w')"
  using assms by (auto simp: run_tools_def Let_def split: prod.splits sum.splits)

lemma loop_turn_Next_iterations:
  assumes "loop_turn env cfg s w = Next s' w'"
  shows "ls_iterations s' = Suc (ls_iterations s)"
    and "\<exists>r. ls_lastResponse s' = Some r \<and> resp_toolCalls r \<noteq> []"
  using assms
  by (auto elim!: loop_turn_Next run_tools_Next dest!: exec_tool_calls_frame inject_grace_frame
      simp: after_usage_def)

text \<open>\<open>Inl\<close> is the exception that leaves \<open>run\<close>, \<open>Inr\<close> the state at the loop's exit.\<close>

function loop_run ::
  "'x loop_env \<Rightarrow> loop_config \<Rightarrow> loop_state \<Rightarrow> 'x engine_world \<Rightarrow>
   (thrown + loop_state) \<times> 'x engine_world" where
  "loop_run env cfg s w =
     (if ls_iterations s < max_iterations cfg then
        (case loop_turn env cfg s w of
           Throw e w1 \<Rightarrow> (Inl e, w1)
         | Break s1 w1 \<Rightarrow> (Inr s1, w1)
         | Next s1 w1 \<Rightarrow> loop_run env cfg s1 w1)
      else (Inr s, w))"
  by pat_completeness auto
termination
  by (relation "measure (\<lambda>(env, cfg, s, w). max_iterations cfg - ls_iterations s)")
    (auto dest!: loop_turn_Next_iterations(1))

declare loop_run.simps [simp del]

definition init_loop :: "chat_message list \<Rightarrow> loop_state" where
  "init_loop initialMessages =
     \<lparr>ls_messages = initialMessages, ls_totalUsage = zero_usage, ls_iterations = 0,
      ls_lastResponse = None, ls_hitTokenBudget = False, ls_nextCallIsGraceTurn = False,
      ls_toolLoopGuard = new_guard, ls_injectedSkills = []\<rparr>"

text \<open>The abort controller fires only through the timeout or the caller's signal, and both set
  \<open>hitTimeout\<close>, so the flag at the end is the state of the controller.\<close>

definition loop_finish :: "'x loop_env \<Rightarrow> loop_config \<Rightarrow> loop_state \<Rightarrow> 'x engine_world \<Rightarrow> loop_result" where
  "loop_finish env cfg s w =
     \<lparr>lr_content = (case ls_lastResponse s of None \<Rightarrow> None | Some r \<Rightarrow> resp_content r),
      lr_messages = ls_messages s,
      lr_totalUsage = ls_totalUsage s,
      lr_iterations = ls_iterations s,
      lr_hitMaxIterations =
        (max_iterations cfg \<le> ls_iterations s \<and>
         (case ls_lastResponse s of None \<Rightarrow> False | Some r \<Rightarrow> resp_toolCalls r \<noteq> [])),
      lr_hitTokenBudget = ls_hitTokenBudget s,
      lr_hitTimeout = le_aborted env w\<rparr>"

definition reasoning_run ::
  "'x loop_env \<Rightarrow> loop_config \<Rightarrow> chat_message list \<Rightarrow> 'x engine_world \<Rightarrow>
   (thrown + loop_result) \<times> 'x engine_world" where
  "reasoning_run env cfg initialMessages w =
     (if le_externalAborted env w then
        (Inr \<lparr>lr_content = None, lr_messages = initialMessages, lr_totalUsage = zero_usage,
              lr_iterations = 0, lr_hitMaxIterations = False, lr_hitTokenBudget = False,
              lr_hitTimeout = True\<rparr>, w)
      else
        (case loop_run env cfg (init_loop initialMessages) w of
           (Inl e, w1) \<Rightarrow> (Inl e, w1)
         | (Inr s, w1) \<Rightarrow> (Inr (loop_finish env cfg s w1), w1)))"

text \<open>Rule for facts about a whole run.\<close>

lemma loop_run_rule:
  assumes "I s w"
    and step: "\<And>s w s' w'. I s w \<Longrightarrow> ls_iterations s < max_iterations cfg \<Longrightarrow>
                 loop_turn env cfg s w = Next s' w' \<Longrightarrow> I s' w'"
    and brk: "\<And>s w s' w'. I s w \<Longrightarrow> ls_iterations s < max_iterations cfg \<Longrightarrow>
                 loop_turn env cfg s w = Break s' w' \<Longrightarrow> Q s' w'"
    and stop: "\<And>s w. I s w \<Longrightarrow> max_iterations cfg \<le> ls_iterations s \<Longrightarrow> Q s w"
    and run: "loop_run env cfg s w = (Inr s', w')"
  shows "Q s' w'"
  using assms(1) run
proof (induction "max_iterations cfg - ls_iterations s" arbitrary: s w rule: less_induct)
  case less
  show ?case
  proof (cases "ls_iterations s < max_iterations cfg")
    case False
    then show ?thesis using less.prems stop by (simp add: loop_run.simps [of env cfg s w])
  next
    case True
    show ?thesis
    proof (cases "loop_turn env cfg s w")
      case (Throw e w1)
      then show ?thesis using less.prems(2) True by (simp add: loop_run.simps [of env cfg s w])
    next
      case (Break s1 w1)
      then show ?thesis using less.prems True brk by (simp add: loop_run.simps [of env cfg s w])
    next
      case (Next s1 w1)
      have "loop_run env cfg s1 w1 = (Inr s', w')"
        using less.prems(2) True Next by (simp add: loop_run.simps [of env cfg s w])
      moreover have "max_iterations cfg - ls_iterations s1 < max_iterations cfg - ls_iterations s"
        using loop_turn_Next_iterations(1) [OF Next] True by simp
      ultimately show ?thesis using less.hyps step [OF less.prems(1) True Next] by blast
    qed
  qed
qed

end
