(* ===== verification/ReasoningProps.thy ===== *)
theory ReasoningProps
  imports ReasoningLoop
begin

text \<open>
  What a reasoning-loop run guarantees. Two interfaces carry the proofs: a compressor that
  keeps conversations well formed (\<open>conversation_reducer\<close>, provided by
  \<open>CompressorService.compress\<close>), and a reflexive transitive relation on worlds that every
  external operation respects (\<open>world_relation\<close>, used for the shared token tracker).
\<close>

section \<open>Well-formed conversations\<close>

definition conv_ok :: "chat_message list \<Rightarrow> bool" where
  "conv_ok ms \<longleftrightarrow> well_paired ms \<and> (\<forall>m \<in> set ms. \<forall>i. answers m = Some i \<longrightarrow> i \<noteq> [])"

lemma conv_ok_snoc:
  "conv_ok (ms @ [m]) \<longleftrightarrow>
   conv_ok ms \<and> (case answers m of None \<Rightarrow> True | Some i \<Rightarrow> i \<in> all_issued ms \<and> i \<noteq> [])"
  by (auto simp: conv_ok_def well_paired_def paired_from_append split: option.splits)

lemma answers_plain [simp]: "answers (plain_msg r c) = None"
  by (simp add: answers_def)

lemma answers_calls [simp]: "answers (assistant_calls_msg c tcs) = None"
  by (simp add: answers_def)

lemma answers_result [simp]: "answers (tool_result_msg c i) = Some i"
  by (simp add: answers_def)

lemma issued_calls [simp]: "issued_ids (assistant_calls_msg c tcs) = map tc_id tcs"
  by (simp add: issued_ids_def)

lemma issued_plain [simp]: "issued_ids (plain_msg r c) = []"
  by (simp add: issued_ids_def)

lemma issued_result [simp]: "issued_ids (tool_result_msg c i) = []"
  by (simp add: issued_ids_def)

lemma conv_ok_push_plain [inv_intro]:
  "conv_ok (ls_messages s) \<Longrightarrow> conv_ok (ls_messages (push (plain_msg r c) s))"
  by (simp add: conv_ok_snoc)

locale conversation_reducer =
  fixes reduce :: "chat_message list \<Rightarrow> 'w \<Rightarrow> (thrown + chat_message list) \<times> 'w"
  assumes reduce_ok: "conv_ok ms \<Longrightarrow> reduce ms w = (Inr out, w') \<Longrightarrow> conv_ok out"
begin

lemma recovery_messages_ok:
  assumes "re_compressor env = reduce" and "conv_ok ms"
    and "run_with_recovery env cfg ms opts w = (Inr (resp, ms'), evs, w')"
  shows "conv_ok ms'"
proof -
  let ?Q = "\<lambda>r (evs :: recovery_event list) (v :: 'w).
      case r of Inl _ \<Rightarrow> True | Inr (_, ms1) \<Rightarrow> conv_ok ms1"
  have "case recovery_loop env cfg opts (init_recovery ms) w of (r, evs, v) \<Rightarrow> ?Q r evs v"
  proof (rule recovery_loop_rule [where I = "\<lambda>s v. conv_ok (rs_currentMessages s)"])
    show "conv_ok (rs_currentMessages (init_recovery ms))" using assms(2) by (simp add: init_recovery_def)
  next
    fix s v s' v'
    assume I: "conv_ok (rs_currentMessages s)" and "recovery_step env cfg opts s v = Continue s' v'"
    then obtain err w1 where "recovery_catch env cfg err s w1 = Continue s' v'"
      by (blast elim: recovery_step_Continue)
    from recovery_catch_Continue [OF this] I assms(1) show "conv_ok (rs_currentMessages s')"
      by (auto dest: reduce_ok)
  next
    fix s v r evs v'
    assume I: "conv_ok (rs_currentMessages s)" and "recovery_step env cfg opts s v = Done r evs v'"
    then show "?Q r evs v'" by (elim recovery_step_Done) auto
  qed
  then show ?thesis using assms(3) by (simp add: run_with_recovery_def)
qed

end

lemma compress_conv_ok:
  assumes "conv_ok ms" and "compress env ms fb w = (Inr out, w')"
  shows "conv_ok out"
proof -
  have "well_paired out"
    using assms by (intro compress_pairing [of ms env fb w out w']) (auto simp: conv_ok_def)
  moreover have "\<forall>m \<in> set out. \<forall>i. answers m = Some i \<longrightarrow> i \<noteq> []"
    using assms(2)
  proof (cases rule: compress_shape)
    case same
    then show ?thesis using assms(1) by (simp add: conv_ok_def)
  next
    case (cut b t)
    then show ?thesis using assms(1)
      by (auto simp: conv_ok_def summary_msg_def dest: in_set_dropD)
  qed
  ultimately show ?thesis by (simp add: conv_ok_def)
qed

interpretation compressor: conversation_reducer "\<lambda>ms w. compress cenv ms fb w" for cenv fb
  by unfold_locales (rule compress_conv_ok)

text \<open>Tool execution appends results for ids already issued.\<close>

lemma staleness_hint_messages:
  "ls_messages (staleness_hint cfg tc res s) = ls_messages s \<or>
   (\<exists>name stale. ls_messages (staleness_hint cfg tc res s) = ls_messages s @ [staleness_msg name stale])"
  by (auto simp: staleness_hint_def Let_def split: option.split)

lemma exec_tool_call_messages:
  assumes "exec_tool_call env cfg tc s w = (Inr s', w')"
  obtains (plain) out where "ls_messages s' = ls_messages s @ [tool_result_msg out (tc_id tc)]"
    | (hint) out name stale where
        "ls_messages s' = ls_messages s @ [tool_result_msg out (tc_id tc), staleness_msg name stale]"
proof -
  from assms obtain res g where
    "s' = staleness_hint cfg tc res (push (tool_result_msg (tr_output res) (tc_id tc)) (s\<lparr>ls_toolLoopGuard := g\<rparr>))"
    by (auto simp: exec_tool_call_def Let_def
        split: prod.splits option.splits sum.splits loop_aborted.splits)
  with staleness_hint_messages [of cfg tc res
      "push (tool_result_msg (tr_output res) (tc_id tc)) (s\<lparr>ls_toolLoopGuard := g\<rparr>)"]
  show thesis by (auto intro: plain hint)
qed

lemma issued_staleness [simp]: "issued_ids (staleness_msg n b) = []" "answers (staleness_msg n b) = None"
  by (simp_all add: staleness_msg_def)

lemma exec_tool_calls_conv_ok:
  "exec_tool_calls env cfg tcs s w = (Inr s', w') \<Longrightarrow> conv_ok (ls_messages s) \<Longrightarrow>
   (\<forall>tc \<in> set tcs. tc_id tc \<in> all_issued (ls_messages s) \<and> tc_id tc \<noteq> []) \<Longrightarrow>
   conv_ok (ls_messages s')"
proof (induction env cfg tcs s w rule: exec_tool_calls.induct)
  case (1 env cfg s w)
  then show ?case by simp
next
  case (2 env cfg tc tcs s w)
  from "2.prems"(1) obtain s1 w1 where one: "exec_tool_call env cfg tc s w = (Inr s1, w1)"
    and rest: "exec_tool_calls env cfg tcs s1 w1 = (Inr s', w')"
    by (auto split: prod.splits sum.splits)
  have tc: "tc_id tc \<in> all_issued (ls_messages s)" "tc_id tc \<noteq> []" using "2.prems"(3) by auto
  have "conv_ok (ls_messages s1) \<and> all_issued (ls_messages s) \<subseteq> all_issued (ls_messages s1)"
    using one
  proof (cases rule: exec_tool_call_messages)
    case (plain out)
    then show ?thesis using "2.prems"(2) tc by (simp add: conv_ok_snoc)
  next
    case (hint out name stale)
    have "conv_ok ((ls_messages s @ [tool_result_msg out (tc_id tc)]) @ [staleness_msg name stale])"
      using "2.prems"(2) tc by (simp only: conv_ok_snoc) simp
    then show ?thesis using hint by auto
  qed
  then show ?case using "2.IH" [OF one [symmetric] _ rest] "2.prems"(3) by auto
qed

lemma run_tools_conv_ok:
  assumes "run_tools env cfg response s w = Next s' w'" and "conv_ok (ls_messages s)"
    and "\<forall>tc \<in> set (resp_toolCalls response). tc_id tc \<noteq> []"
  shows "conv_ok (ls_messages s')"
  using assms(1)
proof (rule run_tools_Next)
  fix w1
  assume "exec_tool_calls env cfg (resp_toolCalls response)
     (push (assistant_calls_msg (content_or_empty response) (resp_toolCalls response)) s) w1 = (Inr s', w')"
  then show ?thesis
    by (rule exec_tool_calls_conv_ok) (use assms(2,3) in \<open>simp_all add: conv_ok_snoc\<close>)
qed

lemma run_tools_not_Break [simp]: "run_tools env cfg response s w \<noteq> Break s' w'"
  by (auto simp: run_tools_def Let_def split: prod.splits sum.splits)

lemma inject_grace_conv_ok:
  "inject_grace s w = (s', w') \<Longrightarrow> conv_ok (ls_messages s) \<Longrightarrow> conv_ok (ls_messages s')"
  by (auto simp: inject_grace_def grace_msg_def conv_ok_snoc split: if_splits)

text \<open>The provider's contract used here: ids of requested tool calls are not empty.\<close>

definition chat_ids_ok :: "'w recovery_env \<Rightarrow> bool" where
  "chat_ids_ok env \<longleftrightarrow> (\<forall>ms opts w r w'. re_chat env ms opts w = (Inr r, w') \<longrightarrow>
     (\<forall>tc \<in> set (resp_toolCalls r). tc_id tc \<noteq> []))"

lemma recovery_response_ids:
  assumes "chat_ids_ok env" and "run_with_recovery env cfg ms opts w = (Inr (resp, ms'), evs, w')"
  shows "\<forall>tc \<in> set (resp_toolCalls resp). tc_id tc \<noteq> []"
proof -
  obtain w1 where "re_chat env ms' opts w1 = (Inr resp, w')"
    using recovery_outcome [where env = env and cfg = cfg and ms = ms and opts = opts and w = w] assms(2)
    by auto
  then show ?thesis using assms(1) unfolding chat_ids_ok_def by blast
qed

lemma after_response_conv_ok:
  assumes "after_response env cfg response s w = Break s' w' \<or> after_response env cfg response s w = Next s' w'"
    and "conv_ok (ls_messages s)" and "\<forall>tc \<in> set (resp_toolCalls response). tc_id tc \<noteq> []"
  shows "conv_ok (ls_messages s')"
proof -
  have s1: "conv_ok (ls_messages (after_usage response s))" using assms(2) by (simp add: after_usage_def)
  have g: "inject_grace (after_usage response s) v = (s2, v') \<Longrightarrow> conv_ok (ls_messages s2)" for v s2 v'
    using inject_grace_conv_ok s1 by blast
  from assms(1) show ?thesis
    using s1 by (auto simp: after_response_def Let_def conv_ok_snoc
      split: prod.splits option.splits if_splits dest!: g
      dest: run_tools_conv_ok [OF _ _ assms(3)])
qed


lemma loop_turn_conv_ok:
  assumes "conversation_reducer (re_compressor (le_recovery env))" and "chat_ids_ok (le_recovery env)"
    and "conv_ok (ls_messages s)"
    and "loop_turn env cfg s w = Break s' w' \<or> loop_turn env cfg s w = Next s' w'"
  shows "conv_ok (ls_messages s')"
proof -
  let ?s1 = "s\<lparr>ls_iterations := ls_iterations s + 1, ls_nextCallIsGraceTurn := False\<rparr>"
  show ?thesis
  proof (cases "ls_messages s' = ls_messages s")
    case True
    then show ?thesis using assms(3) by simp
  next
    case False
    with assms(4) obtain response ms evs w1 w2 where
      rec: "run_with_recovery (le_recovery env) default_recovery_config (ls_messages s)
              (call_options env cfg s) w1 = (Inr (response, ms), evs, w2)"
      and after: "after_response env cfg response (?s1\<lparr>ls_messages := ms\<rparr>) w2 = Break s' w' \<or>
                  after_response env cfg response (?s1\<lparr>ls_messages := ms\<rparr>) w2 = Next s' w'"
      by (auto simp: loop_turn_def Let_def call_options_def split: if_splits prod.splits sum.splits)
    have "conv_ok ms"
      by (rule conversation_reducer.recovery_messages_ok [OF assms(1) refl assms(3) rec])
    then show ?thesis
      using after_response_conv_ok [OF after] recovery_response_ids [OF assms(2) rec] by simp
  qed
qed

lemma reasoning_run_conv_ok:
  assumes "conversation_reducer (re_compressor (le_recovery env))" and "chat_ids_ok (le_recovery env)"
    and "conv_ok ms" and "reasoning_run env cfg ms w = (Inr r, w')"
  shows "conv_ok (lr_messages r)"
proof (cases "le_externalAborted env w")
  case True
  then show ?thesis using assms(3,4) by (auto simp: reasoning_run_def)
next
  case False
  with assms(4) obtain s where run: "loop_run env cfg (init_loop ms) w = (Inr s, w')"
    and r: "r = loop_finish env cfg s w'"
    by (auto simp: reasoning_run_def split: prod.splits sum.splits)
  have "conv_ok (ls_messages s)"
  proof (rule loop_run_rule [where I = "\<lambda>s v. conv_ok (ls_messages s)"
        and Q = "\<lambda>s v. conv_ok (ls_messages s)", OF _ _ _ _ run])
    show "conv_ok (ls_messages (init_loop ms))" using assms(3) by (simp add: init_loop_def)
  qed (use loop_turn_conv_ok [OF assms(1,2)] in blast)+
  then show ?thesis by (simp add: r loop_finish_def)
qed

section \<open>Operations that respect a relation on worlds\<close>

locale world_relation =
  fixes le :: "'w \<Rightarrow> 'w \<Rightarrow> bool"
  assumes le_refl: "le w w" and le_trans: "le a b \<Longrightarrow> le b c \<Longrightarrow> le a c"
begin

lemma recovery_respects:
  assumes "\<And>ms os w. le w (snd (re_chat env ms os w))"
    and "\<And>w. le w (snd (re_random env w))"
    and "\<And>d w. le w (snd (re_timer env d w))"
    and "\<And>ms w. le w (snd (re_compressor env ms w))"
  shows "le w (snd (snd (run_with_recovery env cfg ms opts w)))"
proof -
  have chat: "re_chat env ms os v = (x, v') \<Longrightarrow> le v v'" for ms os v x v'
    using assms(1) [of v ms os] by simp
  have rnd: "re_random env v = (x, v') \<Longrightarrow> le v v'" for v x v' using assms(2) [of v] by simp
  have tim: "re_timer env d v = (x, v') \<Longrightarrow> le v v'" for d v x v' using assms(3) [of v d] by simp
  have cmp: "re_compressor env ms v = (x, v') \<Longrightarrow> le v v'" for ms v x v'
    using assms(4) [of v ms] by simp
  have del: "delay_with_jitter env d v = (x, v') \<Longrightarrow> le v v'" for d v x v'
    by (auto simp: delay_with_jitter_def Let_def le_refl dest!: rnd dest: tim le_trans
        split: if_splits prod.splits)
  have catch: "(recovery_catch env cfg err s v = Continue s' v' \<longrightarrow> le v v') \<and>
      (recovery_catch env cfg err s v = Done r evs v' \<longrightarrow> le v v')" for err s v s' r evs v'
    by (auto simp: recovery_catch_def Let_def le_refl dest: del cmp split: prod.splits sum.splits if_splits)
  have step: "(recovery_step env cfg opts s v = Continue s' v' \<longrightarrow> le v v') \<and>
      (recovery_step env cfg opts s v = Done r evs v' \<longrightarrow> le v v')" for s v s' r evs v'
  proof (cases "re_chat env (rs_currentMessages s) opts v")
    case (Pair x v1)
    then have v1: "le v v1" by (rule chat)
    show ?thesis
      using Pair v1 catch [of _ s v1] by (cases x) (auto simp: recovery_step_def Let_def intro: le_trans)
  qed
  have "case recovery_loop env cfg opts (init_recovery ms) w of (r, evs, v) \<Rightarrow> le w v"
    by (rule recovery_loop_rule [where I = "\<lambda>s v. le w v"]) (use step le_refl le_trans in blast)+
  then show ?thesis by (simp add: run_with_recovery_def case_prod_beta)
qed

end

text \<open>Every external operation of the loop respects the relation.\<close>

definition env_respects :: "('x engine_world \<Rightarrow> 'x engine_world \<Rightarrow> bool) \<Rightarrow> 'x loop_env \<Rightarrow> bool" where
  "env_respects R env \<longleftrightarrow>
     (\<forall>ms os w. R w (snd (re_chat (le_recovery env) ms os w))) \<and>
     (\<forall>w. R w (snd (re_random (le_recovery env) w))) \<and>
     (\<forall>d w. R w (snd (re_timer (le_recovery env) d w))) \<and>
     (\<forall>ms w. R w (snd (re_compressor (le_recovery env) ms w))) \<and>
     (\<forall>n a w. R w (snd (le_execute env n a w))) \<and>
     (\<forall>f ev w. le_onEvent env = Some f \<longrightarrow> R w (snd (f ev w))) \<and>
     (\<forall>f h w. le_onProgress env = Some f \<longrightarrow> R w (f h w)) \<and>
     (\<forall>ob w. R w (le_observe env ob w))"

lemma env_respects_execute:
  "env_respects R env \<Longrightarrow> le_execute env n a w = (x, w') \<Longrightarrow> R w w'"
  unfolding env_respects_def by (metis snd_conv)

lemma env_respects_event:
  "env_respects R env \<Longrightarrow> R w w \<Longrightarrow> fire_event env ev w = (y, w') \<Longrightarrow> R w w'"
  unfolding env_respects_def fire_event_def by (cases "le_onEvent env") (auto, metis snd_conv)

lemma env_respects_observe: "env_respects R env \<Longrightarrow> R w (le_observe env ob w)"
  by (simp add: env_respects_def)

lemma env_respects_progress:
  "env_respects R env \<Longrightarrow> le_onProgress env = Some f \<Longrightarrow> R w (f h w)"
  by (simp add: env_respects_def)

lemma env_respects_recovery:
  assumes "world_relation R" and "env_respects R env"
    and "run_with_recovery (le_recovery env) cfg ms opts w = (r, evs, w')"
  shows "R w w'"
  using world_relation.recovery_respects [OF assms(1), of "le_recovery env" w cfg ms opts] assms(2,3)
  by (simp add: env_respects_def)

lemma exec_tool_call_respects:
  assumes wr: "world_relation R" and er: "env_respects R env"
    and "exec_tool_call env cfg tc s w = (x, w')"
  shows "R w w'"
proof -
  note refl = world_relation.le_refl [OF wr] and trans = world_relation.le_trans [OF wr]
  obtain y w1 where ev: "fire_event env (ToolStarted (tc_name tc) (tc_arguments tc)) w = (y, w1)"
    by fastforce
  have w1: "R w w1" using env_respects_event [OF er refl ev] .
  let ?w2 = "le_observe env (OnToolStart (tc_name tc)) w1"
  have w2: "R w ?w2" using w1 env_respects_observe [OF er] by (rule trans)
  obtain z w3 where ex: "le_execute env (tc_name tc) (tc_arguments tc) ?w2 = (z, w3)" by fastforce
  have w3: "R w (le_observe env (OnToolEnd (tc_name tc)) w3)"
    using trans [OF w2 trans [OF env_respects_execute [OF er ex] env_respects_observe [OF er]]] .
  from assms(3) have "w' = w1 \<or> w' = le_observe env (OnToolEnd (tc_name tc)) w3"
    by (auto simp: exec_tool_call_def Let_def ev ex
        split: option.splits sum.splits loop_aborted.splits)
  then show ?thesis using w1 w3 by blast
qed

lemma exec_tool_calls_respects:
  assumes wr: "world_relation R" and er: "env_respects R env"
  shows "exec_tool_calls env cfg tcs s w = (x, w') \<Longrightarrow> R w w'"
proof (induction tcs arbitrary: s w)
  case Nil
  then show ?case using world_relation.le_refl [OF wr] by simp
next
  case (Cons tc tcs)
  obtain y w1 where one: "exec_tool_call env cfg tc s w = (y, w1)" by fastforce
  have w1: "R w w1" by (rule exec_tool_call_respects [OF wr er one])
  show ?case
  proof (cases y)
    case (Inl e)
    then show ?thesis using Cons.prems one w1 by simp
  next
    case (Inr s1)
    then have "R w1 w'" using Cons one by simp
    with w1 show ?thesis using world_relation.le_trans [OF wr] by blast
  qed
qed

lemma run_tools_respects:
  assumes wr: "world_relation R" and er: "env_respects R env"
    and "run_tools env cfg response s w = Next s' w'"
  shows "R w w'"
proof -
  let ?w1 = "case le_onProgress env of None \<Rightarrow> w
      | Some f \<Rightarrow> f (join '', '' (map (\<lambda>tc. tc_name tc @ ''('' @ format_args (tc_arguments tc) @ '')'')
                                (resp_toolCalls response))) w"
  have w1: "R w ?w1"
    using world_relation.le_refl [OF wr] env_respects_progress [OF er] by (auto split: option.split)
  obtain s1 where "exec_tool_calls env cfg (resp_toolCalls response) s1 ?w1 = (Inr s', w')"
    using assms(3) by (auto simp: run_tools_def Let_def split: prod.splits sum.splits)
  then have "R ?w1 w'" by (rule exec_tool_calls_respects [OF wr er])
  note trans = world_relation.le_trans [OF wr]
  show ?thesis by (rule trans [OF w1 \<open>R ?w1 w'\<close>])
qed

section \<open>Token accounting\<close>

text \<open>The tracker as the loop leaves it when nobody else shares it.\<close>

definition tracker_same :: "'x engine_world \<Rightarrow> 'x engine_world \<Rightarrow> bool" where
  "tracker_same w w' \<longleftrightarrow> ew_tracker w' = ew_tracker w"

interpretation same_tracker: world_relation tracker_same
  by unfold_locales (auto simp: tracker_same_def)

definition charged :: "llm_usage \<Rightarrow> 'x engine_world \<Rightarrow> 'x engine_world \<Rightarrow> bool" where
  "charged u w w' \<longleftrightarrow>
     (case (ew_tracker w, ew_tracker w') of
        (None, None) \<Rightarrow> True
      | (Some t, Some t') \<Rightarrow> bt_used t' = bt_used t + (inputTokens u + outputTokens u) \<and>
                            bt_graceLimit t' = bt_graceLimit t
      | _ \<Rightarrow> False)"

lemma charged_record: "ew_tracker w2 = map_option (bt_record u) (ew_tracker w) \<Longrightarrow> charged u w w2"
  by (auto simp: charged_def frame split: option.split)

lemma charged_mark: "charged u w w2 \<Longrightarrow> charged u w (upd_tracker mark_grace_injected w2)"
  by (auto simp: charged_def upd_tracker_def frame split: option.splits)

lemma charged_same: "charged u w w2 \<Longrightarrow> tracker_same w2 w3 \<Longrightarrow> charged u w w3"
  by (simp add: charged_def tracker_same_def)

lemma tracker_over_same: "tracker_same w w' \<Longrightarrow> tracker_over w' = tracker_over w"
  by (simp add: tracker_over_def tracker_same_def)

lemma tracker_over_mark: "tracker_over (upd_tracker mark_grace_injected w) = tracker_over w"
  by (simp add: tracker_over_def upd_tracker_def is_over_grace_def frame split: option.split)

lemma inject_grace_tracker:
  "inject_grace s w = (s', w') \<Longrightarrow>
   (charged u v w \<longrightarrow> charged u v w') \<and> tracker_over w' = tracker_over w"
  by (auto simp: inject_grace_def charged_mark tracker_over_mark split: if_splits)

text \<open>What a turn that got a response does to the books.\<close>

definition turn_charges :: "'x loop_env \<Rightarrow> loop_state \<Rightarrow> 'x engine_world \<Rightarrow> loop_state \<Rightarrow> 'x engine_world \<Rightarrow> bool" where
  "turn_charges env s w s' w' \<longleftrightarrow>
     (\<exists>response. (\<exists>ms os v v'. re_chat (le_recovery env) ms os v = (Inr response, v')) \<and>
        \<not> tracker_over w \<and>
        ls_totalUsage s' = add_usage (ls_totalUsage s) (resp_usage response) \<and>
        charged (resp_usage response) w w')"

lemma after_response_Break:
  assumes "after_response env cfg response s w = Break s' w'"
  obtains (over) "emit_chunk env response (upd_tracker (bt_record (resp_usage response)) w) = (None, w')"
      "tracker_over w'"
      "s' = (push (plain_msg Assistant (content_or_empty response)) (after_usage response s))
              \<lparr>ls_hitTokenBudget := True\<rparr>"
  | (final) w2 s2 where
      "emit_chunk env response (upd_tracker (bt_record (resp_usage response)) w) = (None, w2)"
      "\<not> tracker_over w2" "inject_grace (after_usage response s) w2 = (s2, w')"
      "s' = push (plain_msg Assistant (content_or_empty response)) s2"
proof -
  obtain y w2 where e: "emit_chunk env response (upd_tracker (bt_record (resp_usage response)) w) = (y, w2)"
    by fastforce
  obtain s2 w3 where g: "inject_grace (after_usage response s) w2 = (s2, w3)" by fastforce
  have "y = None" using assms e by (cases y) (auto simp: after_response_def Let_def)
  then show thesis
    using assms e g over final
    by (cases "tracker_over w2") (auto simp: after_response_def split: if_splits)
qed

lemma after_response_Next:
  assumes "after_response env cfg response s w = Next s' w'"
  obtains w2 s2 w3 where
      "emit_chunk env response (upd_tracker (bt_record (resp_usage response)) w) = (None, w2)"
      "\<not> tracker_over w2" "inject_grace (after_usage response s) w2 = (s2, w3)"
      "run_tools env cfg response s2 w3 = Next s' w'"
proof -
  obtain y w2 where e: "emit_chunk env response (upd_tracker (bt_record (resp_usage response)) w) = (y, w2)"
    by fastforce
  obtain s2 w3 where g: "inject_grace (after_usage response s) w2 = (s2, w3)" by fastforce
  have "y = None" using assms e by (cases y) (auto simp: after_response_def Let_def)
  then show thesis
    using assms e g that
    by (cases "tracker_over w2") (auto simp: after_response_def split: if_splits)
qed

lemma run_tools_usage:
  assumes "run_tools env cfg response s w = Next s' w'"
  shows "ls_totalUsage s' = ls_totalUsage s" "ls_hitTokenBudget s' = ls_hitTokenBudget s"
  using assms by (auto elim!: run_tools_Next dest!: exec_tool_calls_frame)

lemma emit_chunk_charged:
  assumes er: "env_respects tracker_same env"
    and "emit_chunk env response (upd_tracker (bt_record (resp_usage response)) w) = (y, w2)"
  shows "charged (resp_usage response) w w2"
proof -
  let ?w1 = "upd_tracker (bt_record (resp_usage response)) w"
  have "tracker_same ?w1 w2"
    using assms(2) env_respects_event [OF er same_tracker.le_refl]
    by (auto simp: emit_chunk_def tracker_same_def split: option.splits if_splits)
  moreover have "charged (resp_usage response) w ?w1" by (rule charged_record) (simp add: upd_tracker_def)
  ultimately show ?thesis by (rule charged_same [rotated])
qed

lemma after_response_charges:
  assumes er: "env_respects tracker_same env"
    and turn: "after_response env cfg response s w = Break s' w' \<or> after_response env cfg response s w = Next s' w'"
  shows "ls_totalUsage s' = add_usage (ls_totalUsage s) (resp_usage response) \<and>
         charged (resp_usage response) w w' \<and>
         (after_response env cfg response s w = Next s' w' \<longrightarrow> \<not> tracker_over w')"
  using turn
proof
  assume B: "after_response env cfg response s w = Break s' w'"
  have "ls_totalUsage s' = add_usage (ls_totalUsage s) (resp_usage response) \<and>
        charged (resp_usage response) w w'"
    using B
  proof (cases rule: after_response_Break)
    case over
    then show ?thesis using emit_chunk_charged [OF er over(1)] by (simp add: after_usage_def)
  next
    case (final w2 s2)
    then show ?thesis
      using emit_chunk_charged [OF er final(1)] inject_grace_tracker [OF final(3)]
        inject_grace_frame [OF final(3)] by (simp add: after_usage_def)
  qed
  then show ?thesis using B by simp
next
  assume N: "after_response env cfg response s w = Next s' w'"
  then show ?thesis
  proof (cases rule: after_response_Next)
    case (1 w2 s2 w3)
    have same: "tracker_same w3 w'"
      by (rule run_tools_respects [OF same_tracker.world_relation_axioms er 1(4)])
    have "charged (resp_usage response) w w3"
      using emit_chunk_charged [OF er 1(1)] inject_grace_tracker [OF 1(3)] by blast
    then have "charged (resp_usage response) w w'" using same by (rule charged_same)
    moreover have "\<not> tracker_over w'"
      using 1(2) inject_grace_tracker [OF 1(3)] tracker_over_same [OF same] by simp
    moreover have "ls_totalUsage s' = add_usage (ls_totalUsage s) (resp_usage response)"
      using run_tools_usage [OF 1(4)] inject_grace_frame [OF 1(3)] by (simp add: after_usage_def)
    ultimately show ?thesis by simp
  qed
qed

text \<open>What a turn is made of.\<close>

lemma loop_turn_cases:
  assumes "loop_turn env cfg s w = Break s' w' \<or> loop_turn env cfg s w = Next s' w'"
  obtains (abort) "le_aborted env w" "s' = s" "w' = w" "loop_turn env cfg s w = Break s' w'"
  | (budget) "tracker_over w" "s' = s\<lparr>ls_hitTokenBudget := True\<rparr>" "w' = w"
      "loop_turn env cfg s w = Break s' w'"
  | (failed) err evs where "\<not> tracker_over w" "le_aborted env w'"
      "run_with_recovery (le_recovery env) default_recovery_config (ls_messages s)
         (call_options env cfg s) (le_observe env (OnIteration (Suc (ls_iterations s))) w) = (Inl err, evs, w')"
      "s' = s\<lparr>ls_iterations := Suc (ls_iterations s), ls_nextCallIsGraceTurn := False\<rparr>"
      "loop_turn env cfg s w = Break s' w'"
  | (response) response ms evs w2 where "\<not> le_aborted env w" "\<not> tracker_over w"
      "run_with_recovery (le_recovery env) default_recovery_config (ls_messages s)
         (call_options env cfg s) (le_observe env (OnIteration (Suc (ls_iterations s))) w)
       = (Inr (response, ms), evs, w2)"
      "loop_turn env cfg s w = after_response env cfg response
         (s\<lparr>ls_iterations := Suc (ls_iterations s), ls_nextCallIsGraceTurn := False, ls_messages := ms\<rparr>) w2"
proof (cases "le_aborted env w")
  case True
  then have "loop_turn env cfg s w = Break s w" by (simp add: loop_turn_def)
  moreover from this assms have "s' = s" "w' = w" by auto
  ultimately show thesis using abort True by blast
next
  case na: False
  show thesis
  proof (cases "tracker_over w")
    case True
    with na have "loop_turn env cfg s w = Break (s\<lparr>ls_hitTokenBudget := True\<rparr>) w"
      by (simp add: loop_turn_def)
    moreover from this assms have "s' = s\<lparr>ls_hitTokenBudget := True\<rparr>" "w' = w" by auto
    ultimately show thesis using budget True by blast
  next
    case no: False
    let ?s1 = "s\<lparr>ls_iterations := Suc (ls_iterations s), ls_nextCallIsGraceTurn := False\<rparr>"
    obtain r evs w2 where rec: "run_with_recovery (le_recovery env) default_recovery_config (ls_messages s)
      (call_options env cfg s) (le_observe env (OnIteration (Suc (ls_iterations s))) w) = (r, evs, w2)"
      by (metis surj_pair)
    have turn: "loop_turn env cfg s w =
        (case r of Inl err \<Rightarrow> if le_aborted env w2 then Break ?s1 w2 else Throw err w2
         | Inr (response, ms) \<Rightarrow> after_response env cfg response (?s1\<lparr>ls_messages := ms\<rparr>) w2)"
      using na no rec by (simp add: loop_turn_def Let_def call_options_def split: sum.split)
    show thesis
    proof (cases r)
      case (Inl err)
      with turn assms have "le_aborted env w2" "s' = ?s1" "w' = w2" "loop_turn env cfg s w = Break s' w'"
        by (auto split: if_splits)
      then show thesis using failed no rec Inl by blast
    next
      case (Inr p)
      obtain response ms where p: "p = (response, ms)" by fastforce
      show thesis by (rule response [OF na no rec [unfolded Inr p]]) (simp add: turn Inr p)
    qed
  qed
qed

lemma loop_turn_charges:
  assumes er: "env_respects tracker_same env"
    and turn: "loop_turn env cfg s w = Break s' w' \<or> loop_turn env cfg s w = Next s' w'"
  shows "(ls_totalUsage s' = ls_totalUsage s \<and> tracker_same w w' \<and> loop_turn env cfg s w = Break s' w' \<or>
          turn_charges env s w s' w') \<and>
         (loop_turn env cfg s w = Next s' w' \<longrightarrow> \<not> tracker_over w')"
  using turn
proof (cases rule: loop_turn_cases)
  case abort
  then show ?thesis by (simp add: same_tracker.le_refl)
next
  case budget
  then show ?thesis by (simp add: same_tracker.le_refl)
next
  case (failed err evs)
  have "tracker_same w w'"
    using same_tracker.le_trans [OF env_respects_observe [OF er]
        env_respects_recovery [OF same_tracker.world_relation_axioms er failed(3)]] .
  then show ?thesis using failed by simp
next
  case (response response ms evs w2)
  have w2: "tracker_same w w2"
    using same_tracker.le_trans [OF env_respects_observe [OF er]
        env_respects_recovery [OF same_tracker.world_relation_axioms er response(3)]] .
  let ?s1 = "s\<lparr>ls_iterations := Suc (ls_iterations s), ls_nextCallIsGraceTurn := False, ls_messages := ms\<rparr>"
  have chat: "\<exists>v. re_chat (le_recovery env) ms (call_options env cfg s) v = (Inr response, w2)"
    using recovery_outcome [where env = "le_recovery env" and cfg = default_recovery_config
        and ms = "ls_messages s" and opts = "call_options env cfg s"
        and w = "le_observe env (OnIteration (Suc (ls_iterations s))) w"] response(3) by simp
  have after: "after_response env cfg response ?s1 w2 = Break s' w' \<or>
      after_response env cfg response ?s1 w2 = Next s' w'"
    using turn response(4) by simp
  note A = after_response_charges [OF er after]
  have "charged (resp_usage response) w w'"
    using A w2 by (simp add: charged_def tracker_same_def)
  moreover have "ls_totalUsage s' = add_usage (ls_totalUsage s) (resp_usage response)"
    using A by simp
  ultimately have "turn_charges env s w s' w'"
    using chat response(2) unfolding turn_charges_def by blast
  then show ?thesis using A response(4) by simp
qed


text \<open>The books at the loop head and at its exit, relative to the tracker at the start.\<close>

definition books :: "tracker \<Rightarrow> loop_state \<Rightarrow> 'x engine_world \<Rightarrow> (nat \<Rightarrow> bool) \<Rightarrow> bool" where
  "books t s w P \<longleftrightarrow>
     (\<exists>t'. ew_tracker w = Some t' \<and> bt_graceLimit t' = bt_graceLimit t \<and>
        bt_used t' = bt_used t + inputTokens (ls_totalUsage s) + outputTokens (ls_totalUsage s) \<and>
        P (bt_used t'))"

lemma books_charged:
  assumes "books t s w P" and "charged u w w'" and "ls_totalUsage s' = add_usage (ls_totalUsage s) u"
    and "\<And>n. P n \<Longrightarrow> Q (n + (inputTokens u + outputTokens u))"
  shows "books t s' w' Q"
proof -
  from assms(1) obtain t1 where t1: "ew_tracker w = Some t1" "bt_graceLimit t1 = bt_graceLimit t"
    "bt_used t1 = bt_used t + inputTokens (ls_totalUsage s) + outputTokens (ls_totalUsage s)" "P (bt_used t1)"
    by (auto simp: books_def)
  from assms(2) t1(1) obtain t2 where t2: "ew_tracker w' = Some t2"
    "bt_used t2 = bt_used t1 + (inputTokens u + outputTokens u)" "bt_graceLimit t2 = bt_graceLimit t1"
    by (auto simp: charged_def split: option.splits)
  have "Q (bt_used t2)" using assms(4) [OF t1(4)] t2(2) by simp
  then show ?thesis using t1 t2 assms(3) by (simp add: books_def add_usage_def Let_def)
qed

lemma books_same:
  "books t s w P \<Longrightarrow> tracker_same w w' \<Longrightarrow> ls_totalUsage s' = ls_totalUsage s \<Longrightarrow>
   (\<And>n. P n \<Longrightarrow> Q n) \<Longrightarrow> books t s' w' Q"
  by (auto simp: books_def tracker_same_def)

lemma books_under:
  "books t s w P \<Longrightarrow> \<not> tracker_over w \<Longrightarrow> bt_graceLimit t = Some g \<Longrightarrow> books t s w (\<lambda>n. n < g)"
  by (auto simp: books_def tracker_over_def is_over_grace_def)

text \<open>What one response may cost, as the provider bounds it.\<close>

definition chat_cost_le :: "nat \<Rightarrow> 'w recovery_env \<Rightarrow> bool" where
  "chat_cost_le C env \<longleftrightarrow> (\<forall>ms opts w r w'. re_chat env ms opts w = (Inr r, w') \<longrightarrow>
     inputTokens (resp_usage r) + outputTokens (resp_usage r) \<le> C)"

lemma loop_turn_books:
  assumes er: "env_respects tracker_same env" and cost: "chat_cost_le C (le_recovery env)"
    and g: "bt_graceLimit t = Some g"
    and turn: "loop_turn env cfg s w = Break s' w' \<or> loop_turn env cfg s w = Next s' w'"
    and I: "books t s w (\<lambda>n. n < g)"
  shows "books t s' w' (\<lambda>n. n < g + C)"
    and "loop_turn env cfg s w = Next s' w' \<Longrightarrow> books t s' w' (\<lambda>n. n < g)"
proof -
  have *: "books t s' w' (\<lambda>n. n < g + C)"
    using loop_turn_charges [OF er turn, THEN conjunct1]
  proof (elim disjE conjE)
    assume "ls_totalUsage s' = ls_totalUsage s" "tracker_same w w'"
    then show ?thesis using books_same [OF I] by fastforce
  next
    assume "turn_charges env s w s' w'"
    then obtain response ms os v v' where
      "re_chat (le_recovery env) ms os v = (Inr response, v')"
      "ls_totalUsage s' = add_usage (ls_totalUsage s) (resp_usage response)"
      "charged (resp_usage response) w w'"
      by (auto simp: turn_charges_def)
    moreover from this(1) cost
    have "inputTokens (resp_usage response) + outputTokens (resp_usage response) \<le> C"
      unfolding chat_cost_le_def by blast
    ultimately show ?thesis using books_charged [OF I] by fastforce
  qed
  then show "books t s' w' (\<lambda>n. n < g + C)" .
  assume "loop_turn env cfg s w = Next s' w'"
  then have "\<not> tracker_over w'" using loop_turn_charges [OF er turn] by blast
  then show "books t s' w' (\<lambda>n. n < g)" using books_under [OF * _ g] by blast
qed

section \<open>The wrap-up turn\<close>

definition grace_injected :: "'x engine_world \<Rightarrow> bool" where
  "grace_injected w = (case ew_tracker w of None \<Rightarrow> False | Some t \<Rightarrow> bt_graceInjected t)"

text \<open>Sharers of the tracker may inject the wrap-up message; none takes it back.\<close>

definition grace_mono :: "'x engine_world \<Rightarrow> 'x engine_world \<Rightarrow> bool" where
  "grace_mono w w' \<longleftrightarrow> (grace_injected w \<longrightarrow> grace_injected w')"

interpretation grace_monotone: world_relation grace_mono
  by unfold_locales (auto simp: grace_mono_def)

lemma grace_mono_record: "grace_mono w (upd_tracker (bt_record u) w)"
  by (simp add: grace_mono_def grace_injected_def upd_tracker_def frame split: option.split)

lemma inject_grace_flag:
  assumes "inject_grace s w = (s', w')" and "\<not> ls_nextCallIsGraceTurn s"
  shows "ls_nextCallIsGraceTurn s' \<longleftrightarrow> tracker_wants_grace w"
    and "grace_mono w w'" and "tracker_wants_grace w \<Longrightarrow> \<not> grace_injected w \<and> grace_injected w'"
  using assms
  by (auto simp: inject_grace_def grace_mono_def grace_injected_def tracker_wants_grace_def
      should_inject_grace_def upd_tracker_def frame split: if_splits option.splits)

lemma run_tools_flag:
  assumes "run_tools env cfg response s w = Next s' w'"
  shows "ls_nextCallIsGraceTurn s' = ls_nextCallIsGraceTurn s"
  using assms by (auto elim!: run_tools_Next dest!: exec_tool_calls_frame)

lemma emit_chunk_respects:
  assumes "world_relation R" and "env_respects R env" and "emit_chunk env response w = (y, w')"
  shows "R w w'"
  using assms(3) env_respects_event [OF assms(2) world_relation.le_refl [OF assms(1)]]
    world_relation.le_refl [OF assms(1)]
  by (auto simp: emit_chunk_def split: option.splits if_splits)

lemma loop_turn_grace:
  assumes er: "env_respects grace_mono env" and turn: "loop_turn env cfg s w = Next s' w'"
  shows "grace_mono w w' \<and>
    (ls_nextCallIsGraceTurn s' \<longrightarrow> \<not> grace_injected w \<and> grace_injected w')"
  using turn
proof (rule loop_turn_Next)
  fix response ms evs w1 w2 w3 s2 w4
  let ?s1 = "after_usage response
       (s\<lparr>ls_iterations := Suc (ls_iterations s), ls_nextCallIsGraceTurn := False, ls_messages := ms\<rparr>)"
  assume rec: "run_with_recovery (le_recovery env) default_recovery_config (ls_messages s)
       (call_options env cfg s) (le_observe env (OnIteration (Suc (ls_iterations s))) w)
     = (Inr (response, ms), evs, w1)"
    and emit: "emit_chunk env response (upd_tracker (bt_record (resp_usage response)) w1) = (None, w2)"
    and inj: "inject_grace ?s1 w2 = (s2, w3)"
    and tools: "run_tools env cfg response s2 w3 = Next s' w'"
  note wr = grace_monotone.world_relation_axioms
  have a: "grace_mono w w1"
    using grace_monotone.le_trans [OF env_respects_observe [OF er] env_respects_recovery [OF wr er rec]] .
  have b: "grace_mono w1 w2"
    using grace_monotone.le_trans [OF grace_mono_record emit_chunk_respects [OF wr er emit]] .
  have "\<not> ls_nextCallIsGraceTurn ?s1" by (simp add: after_usage_def)
  note flag = inject_grace_flag [OF inj this]
  have c: "grace_mono w3 w'" by (rule run_tools_respects [OF wr er tools])
  have "ls_nextCallIsGraceTurn s' \<longleftrightarrow> tracker_wants_grace w2"
    using run_tools_flag [OF tools] flag(1) by simp
  then show ?thesis using a b flag(2,3) c unfolding grace_mono_def by blast
qed

section \<open>How a run ends\<close>

definition from_chat :: "'x loop_env \<Rightarrow> llm_response \<Rightarrow> bool" where
  "from_chat env resp \<longleftrightarrow> (\<exists>ms os v v'. re_chat (le_recovery env) ms os v = (Inr resp, v'))"

definition calls_pending :: "loop_state \<Rightarrow> bool" where
  "calls_pending s \<longleftrightarrow> (case ls_lastResponse s of None \<Rightarrow> False | Some r \<Rightarrow> resp_toolCalls r \<noteq> [])"

definition head_ok :: "loop_config \<Rightarrow> loop_state \<Rightarrow> bool" where
  "head_ok cfg s \<longleftrightarrow> ls_iterations s \<le> max_iterations cfg \<and> \<not> ls_hitTokenBudget s \<and>
     (ls_iterations s = 0 \<or> calls_pending s)"

definition exit_ok :: "'x loop_env \<Rightarrow> loop_config \<Rightarrow> loop_state \<Rightarrow> 'x engine_world \<Rightarrow> bool" where
  "exit_ok env cfg s w \<longleftrightarrow> ls_iterations s \<le> max_iterations cfg \<and>
     (ls_hitTokenBudget s \<longrightarrow> tracker_over w) \<and>
     (le_aborted env w \<or> ls_hitTokenBudget s \<or>
      (\<exists>resp. ls_lastResponse s = Some resp \<and> from_chat env resp \<and>
         (resp_finishReason resp = FError \<or> resp_toolCalls resp = [])) \<or>
      max_iterations cfg \<le> ls_iterations s \<and>
      (max_iterations cfg = 0 \<or> (\<exists>r. ls_lastResponse s = Some r \<and> resp_toolCalls r \<noteq> [])))"

lemma loop_turn_head_ok:
  assumes "head_ok cfg s" and "ls_iterations s < max_iterations cfg" and turn: "loop_turn env cfg s w = Next s' w'"
  shows "head_ok cfg s'"
proof -
  have "\<not> ls_hitTokenBudget s'"
    using turn assms(1)
    by (auto elim!: loop_turn_Next dest!: run_tools_usage(2) inject_grace_frame simp: after_usage_def head_ok_def)
  then show ?thesis using loop_turn_Next_iterations [OF turn] assms(2) by (auto simp: head_ok_def calls_pending_def)
qed

lemma after_response_exit:
  assumes after: "after_response env cfg response s w = Break s' w'"
  shows "ls_iterations s' = ls_iterations s \<and> ls_lastResponse s' = Some response \<and>
    (if ls_hitTokenBudget s' then ls_hitTokenBudget s \<or> tracker_over w'
     else resp_finishReason response = FError \<or> resp_toolCalls response = [])"
  using after
proof (cases rule: after_response_Break)
  case over
  then show ?thesis by (simp add: after_usage_def)
next
  case (final w3 s2)
  have "resp_finishReason response = FError \<or> resp_toolCalls response = []"
    using after final by (auto simp: after_response_def Let_def split: if_splits)
  then show ?thesis using inject_grace_frame [OF final(3)] final(4) by (simp add: after_usage_def)
qed

lemma loop_turn_exit_ok:
  assumes I: "head_ok cfg s" and lt: "ls_iterations s < max_iterations cfg"
    and turn: "loop_turn env cfg s w = Break s' w'"
  shows "exit_ok env cfg s' w'"
proof -
  from turn have "loop_turn env cfg s w = Break s' w' \<or> loop_turn env cfg s w = Next s' w'" ..
  then show ?thesis
  proof (cases rule: loop_turn_cases)
    case (response response ms evs w2)
    let ?s1 = "s\<lparr>ls_iterations := Suc (ls_iterations s), ls_nextCallIsGraceTurn := False, ls_messages := ms\<rparr>"
    have after: "after_response env cfg response ?s1 w2 = Break s' w'" using turn response(4) by simp
    have "from_chat env response"
      using recovery_outcome [where env = "le_recovery env" and cfg = default_recovery_config
          and ms = "ls_messages s" and opts = "call_options env cfg s"
          and w = "le_observe env (OnIteration (Suc (ls_iterations s))) w"] response(3)
      by (auto simp: from_chat_def)
    then show ?thesis using after_response_exit [OF after] I lt
      by (auto simp: exit_ok_def head_ok_def split: if_splits)
  qed (use I lt in \<open>auto simp: exit_ok_def head_ok_def\<close>)
qed

section \<open>A sample run\<close>

definition sample_usage :: llm_usage where
  "sample_usage = zero_usage\<lparr>inputTokens := 60, outputTokens := 20, totalTokens := 80\<rparr>"

definition sample_response :: "tool_call list \<Rightarrow> llm_response" where
  "sample_response tcs =
     \<lparr>resp_content = Some ''hi'', resp_toolCalls = tcs,
      resp_finishReason = (if tcs = [] then FStop else FToolUse), resp_usage = sample_usage\<rparr>"

definition sample_loop_compressor :: "(unit, nat engine_world) compressor_env" where
  "sample_loop_compressor =
     \<lparr>ce_settings = (\<lambda>w. (Inr [], w)), ce_resolveProvider = (\<lambda>_ w. (Inr (), w)),
      ce_chat = (\<lambda>_ _ _ _ _ w. (Inr (sample_response []), w))\<rparr>"

text \<open>A provider that asks for a tool call twice and then answers.\<close>

definition sample_loop_env :: "tool_call list \<Rightarrow> nat loop_env" where
  "sample_loop_env tcs =
     \<lparr>le_recovery =
        \<lparr>re_chat = (\<lambda>_ _ w. (Inr (sample_response (if ew_external w < 2 then tcs else [])),
                             w\<lparr>ew_external := ew_external w + 1\<rparr>)),
         re_aborted = (\<lambda>_. False), re_random = (\<lambda>w. (1 / 4, w)), re_timer = (\<lambda>_ w. (True, w)),
         re_classifier = classify_error,
         re_compressor = (\<lambda>ms w. compress sample_loop_compressor ms (''p'', ''m'') w)\<rparr>,
      le_execute = (\<lambda>_ _ w. (Inr \<lparr>tr_output = ''ok'', tr_isError = False\<rparr>, w)),
      le_definitions = [], le_onEvent = None, le_onProgress = None, le_observe = (\<lambda>_ w. w),
      le_externalAborted = (\<lambda>_. False)\<rparr>"

definition sample_tool_call :: tool_call where
  "sample_tool_call = \<lparr>tc_id = ''c1'', tc_name = ''read_file'', tc_arguments = JObj [(''path'', JStr ''p'')]\<rparr>"

definition sample_loop_config :: loop_config where
  "sample_loop_config = \<lparr>lc_maxIterations = None, lc_model = None, lc_settings = None, lc_stalenessMap = None\<rparr>"

definition sample_world :: "nat engine_world" where
  "sample_world = \<lparr>ew_tracker = Some (new_tracker (Some 100) 100 0), ew_external = 0\<rparr>"

lemma sample_run:
  obtains r w where
    "reasoning_run (sample_loop_env [sample_tool_call]) sample_loop_config [plain_msg User ''go''] sample_world
     = (Inr r, w)"
    "length (lr_messages r) = 7" "lr_iterations r = 3" "lr_hitTokenBudget r"
    "bt_used (the (ew_tracker w)) = 240"
proof -
  have "case reasoning_run (sample_loop_env [sample_tool_call]) sample_loop_config [plain_msg User ''go'']
          sample_world of
        (Inr r, w) \<Rightarrow> length (lr_messages r) = 7 \<and> lr_iterations r = 3 \<and> lr_hitTokenBudget r \<and>
          bt_used (the (ew_tracker w)) = 240
      | _ \<Rightarrow> False"
    by code_simp
  then show thesis using that by (auto split: prod.splits sum.splits)
qed

lemma sample_chat_Inr:
  "re_chat (le_recovery (sample_loop_env tcs)) ms os w = (Inr r, w') \<Longrightarrow>
   resp_usage r = sample_usage \<and> set (resp_toolCalls r) \<subseteq> set tcs"
  by (auto simp: sample_loop_env_def sample_response_def split: if_splits)

lemma world_update_external [simp]:
  "tracker_same w (w\<lparr>ew_external := x\<rparr>)" "grace_mono w (w\<lparr>ew_external := x\<rparr>)"
  by (simp_all add: tracker_same_def grace_mono_def grace_injected_def)

lemma sample_compress_world:
  "compress sample_loop_compressor ms fb w = (x, w') \<Longrightarrow> w' = w"
  by (auto simp: compress_def resolve_compression_model_def call_summarizer_def sample_loop_compressor_def
      Let_def split: if_splits)

lemma sample_env_respects:
  "env_respects tracker_same (sample_loop_env tcs)" "env_respects grace_mono (sample_loop_env tcs)"
proof -
  have c: "snd (compress sample_loop_compressor ms fb w) = w" for ms fb w
    using sample_compress_world [of ms fb w] by (metis prod.collapse)
  show "env_respects tracker_same (sample_loop_env tcs)"
    by (simp add: env_respects_def sample_loop_env_def c same_tracker.le_refl)
  show "env_respects grace_mono (sample_loop_env tcs)"
    by (simp add: env_respects_def sample_loop_env_def c grace_monotone.le_refl)
qed

section \<open>Properties\<close>

text \<open>
  C1: A run of the reasoning loop keeps a well-formed conversation well formed: if in the messages it
  starts with every tool result has a non-empty id and answers a tool call issued before it, if no
  tool call of the provider has an empty id, and if the compressor is \<open>CompressorService\<close>, then in the
  messages it returns every tool result answers an earlier tool call. This holds on every exit,
  through tool failures, retries, compression, budget stops and aborts. It says nothing of a run that
  starts with a malformed history, such as consolidation can leave
  (\<open>Consolidation.consolidation_breaks_transcript\<close>).
\<close>

theorem reasoning_run_keeps_pairing:
  assumes "re_compressor (le_recovery env) = (\<lambda>ms w. compress cenv ms fb w)"
    and "chat_ids_ok (le_recovery env)"
    and "conv_ok ms"
    and "reasoning_run env cfg ms w = (Inr r, w')"
  shows "conv_ok (lr_messages r)"
  by (rule reasoning_run_conv_ok [OF _ assms(2-4)])
    (simp only: assms(1) compressor.conversation_reducer_axioms)

theorem reasoning_run_keeps_pairing_witness:
  "\<exists>r w'. reasoning_run (sample_loop_env [sample_tool_call]) sample_loop_config
       [plain_msg User ''go''] sample_world = (Inr r, w') \<and> length (lr_messages r) = 7 \<and>
     conv_ok (lr_messages r)"
proof (rule sample_run)
  fix r w
  assume run: "reasoning_run (sample_loop_env [sample_tool_call]) sample_loop_config
      [plain_msg User ''go''] sample_world = (Inr r, w)" and len: "length (lr_messages r) = 7"
  have "conv_ok (lr_messages r)"
  proof (rule reasoning_run_keeps_pairing [OF _ _ _ run])
    show "re_compressor (le_recovery (sample_loop_env [sample_tool_call])) =
        (\<lambda>ms w. compress sample_loop_compressor ms (''p'', ''m'') w)"
      by (simp add: sample_loop_env_def)
    show "chat_ids_ok (le_recovery (sample_loop_env [sample_tool_call]))"
      unfolding chat_ids_ok_def using sample_chat_Inr by (fastforce simp: sample_tool_call_def)
    show "conv_ok [plain_msg User ''go'']" by (simp add: conv_ok_def well_paired_def)
  qed
  with run len show ?thesis by blast
qed

text \<open>
  C3: Every run ends within its iteration limit, and its flags tell the truth: the limit is
  reported only when it was reached with tool calls still pending, a budget stop only when the
  shared tracker is at its hard limit, a timeout only when the run was aborted.
\<close>

theorem reasoning_run_limits:
  assumes "reasoning_run env cfg ms w = (Inr r, w')" and "\<not> le_externalAborted env w"
  shows "lr_iterations r \<le> max_iterations cfg \<and>
    (lr_hitMaxIterations r \<longrightarrow> lr_iterations r = max_iterations cfg) \<and>
    (lr_hitTokenBudget r \<longrightarrow> tracker_over w') \<and>
    (lr_hitTimeout r \<longleftrightarrow> le_aborted env w') \<and>
    (\<not> lr_hitMaxIterations r \<and> \<not> lr_hitTokenBudget r \<and> \<not> lr_hitTimeout r \<and> 0 < max_iterations cfg \<longrightarrow>
       (\<exists>resp. from_chat env resp \<and> lr_content r = resp_content resp \<and>
          (resp_finishReason resp = FError \<or> resp_toolCalls resp = [])))"
proof -
  from assms obtain s where run: "loop_run env cfg (init_loop ms) w = (Inr s, w')"
    and r: "r = loop_finish env cfg s w'"
    by (auto simp: reasoning_run_def split: prod.splits sum.splits)
  have "exit_ok env cfg s w'"
  proof (rule loop_run_rule [where I = "\<lambda>s v. head_ok cfg s" and Q = "exit_ok env cfg", OF _ _ _ _ run])
    show "head_ok cfg (init_loop ms)" by (simp add: init_loop_def head_ok_def)
    show "head_ok cfg s'" if "head_ok cfg s" "ls_iterations s < max_iterations cfg"
      "loop_turn env cfg s w = Next s' w'" for s w s' w'
      using loop_turn_head_ok that by blast
    show "exit_ok env cfg s' w'" if "head_ok cfg s" "ls_iterations s < max_iterations cfg"
      "loop_turn env cfg s w = Break s' w'" for s w s' w'
      using loop_turn_exit_ok that by blast
    show "exit_ok env cfg s w" if "head_ok cfg s" "max_iterations cfg \<le> ls_iterations s" for s w
      using that by (auto simp: exit_ok_def head_ok_def calls_pending_def split: option.splits)
  qed
  then show ?thesis
    unfolding r loop_finish_def exit_ok_def by (auto split: option.split)
qed

theorem reasoning_run_limits_witness:
  "\<exists>r w'. reasoning_run (sample_loop_env [sample_tool_call]) sample_loop_config
       [plain_msg User ''go''] sample_world = (Inr r, w') \<and> lr_hitTokenBudget r \<and> tracker_over w'"
proof (rule sample_run)
  fix r w
  assume run: "reasoning_run (sample_loop_env [sample_tool_call]) sample_loop_config
      [plain_msg User ''go''] sample_world = (Inr r, w)" and hit: "lr_hitTokenBudget r"
  have "\<not> le_externalAborted (sample_loop_env [sample_tool_call]) sample_world"
    by (simp add: sample_loop_env_def)
  from reasoning_run_limits [OF run this] run hit show ?thesis by blast
qed

text \<open>
  C2: The token budget is enforced, as long as nothing but the loop itself touches the run's tracker
  while it runs: no tool call, provider call or compressor changes it, so no sub-agent that shares the
  tracker is running. Then every token the run reports was charged to the tracker, and a run that
  starts below the hard limit ends less than one response above it, where no provider call costs more
  than \<open>C\<close> tokens.
\<close>

theorem reasoning_run_token_budget:
  assumes er: "env_respects tracker_same env" and cost: "chat_cost_le C (le_recovery env)"
    and t: "ew_tracker w = Some t" and g: "bt_graceLimit t = Some g" and under: "bt_used t < g"
    and result: "reasoning_run env cfg ms w = (Inr r, w')"
  shows "\<exists>t'. ew_tracker w' = Some t' \<and>
     bt_used t' = bt_used t + inputTokens (lr_totalUsage r) + outputTokens (lr_totalUsage r) \<and>
     bt_used t' < g + C"
proof (cases "le_externalAborted env w")
  case True
  then show ?thesis using result t under by (auto simp: reasoning_run_def zero_usage_def)
next
  case False
  with result obtain s where run: "loop_run env cfg (init_loop ms) w = (Inr s, w')"
    and r: "r = loop_finish env cfg s w'"
    by (auto simp: reasoning_run_def split: prod.splits sum.splits)
  have "books t s w' (\<lambda>n. n < g + C)"
  proof (rule loop_run_rule [where I = "\<lambda>s v. books t s v (\<lambda>n. n < g)"
        and Q = "\<lambda>s v. books t s v (\<lambda>n. n < g + C)", OF _ _ _ _ run])
    show "books t (init_loop ms) w (\<lambda>n. n < g)"
      using t under by (simp add: books_def init_loop_def zero_usage_def)
    show "books t s' w' (\<lambda>n. n < g)" if "books t s w (\<lambda>n. n < g)" "loop_turn env cfg s w = Next s' w'"
      for s w s' w'
      using loop_turn_books(2) [OF er cost g] that by blast
    show "books t s' w' (\<lambda>n. n < g + C)" if "books t s w (\<lambda>n. n < g)" "loop_turn env cfg s w = Break s' w'"
      for s w s' w'
      using loop_turn_books(1) [OF er cost g] that by blast
    show "books t s w (\<lambda>n. n < g + C)" if "books t s w (\<lambda>n. n < g)" for s w
      using books_same [OF that same_tracker.le_refl refl] by fastforce
  qed
  then show ?thesis by (auto simp: books_def r loop_finish_def)
qed

theorem reasoning_run_token_budget_witness:
  "\<exists>r w' t'. reasoning_run (sample_loop_env [sample_tool_call]) sample_loop_config
       [plain_msg User ''go''] sample_world = (Inr r, w') \<and> ew_tracker w' = Some t' \<and> bt_used t' < 200 + 80"
proof (rule sample_run)
  fix r w
  assume run: "reasoning_run (sample_loop_env [sample_tool_call]) sample_loop_config
      [plain_msg User ''go''] sample_world = (Inr r, w)"
  have "chat_cost_le 80 (le_recovery (sample_loop_env [sample_tool_call]))"
    unfolding chat_cost_le_def using sample_chat_Inr by (auto simp: sample_usage_def zero_usage_def)
  moreover have "bt_graceLimit (new_tracker (Some 100) 100 0) = Some 200" by code_simp
  moreover have "ew_tracker sample_world = Some (new_tracker (Some 100) 100 0)"
    by (simp add: sample_world_def)
  ultimately show ?thesis
    using reasoning_run_token_budget [OF sample_env_respects(1), of 80 "[sample_tool_call]" sample_world
        "new_tracker (Some 100) 100 0" 200 sample_loop_config "[plain_msg User ''go'']" r w] run
    by (auto simp: new_tracker_def)
qed

text \<open>
  The wrap-up turn happens once and is restricted: a turn that schedules it had not seen
  the tracker's wrap-up flag and leaves the flag set, so no later turn schedules it again, and
  the call it schedules offers no tools and caps the output at \<open>GRACE_TURN_MAX_TOKENS\<close>.
\<close>

theorem grace_turn_once:
  assumes "env_respects grace_mono env" and "loop_turn env cfg s w = Next s' w'"
  shows "(grace_injected w \<longrightarrow> grace_injected w' \<and> \<not> ls_nextCallIsGraceTurn s') \<and>
    (if ls_nextCallIsGraceTurn s'
     then grace_injected w' \<and> co_tools (call_options env cfg s') = Some [] \<and>
       map_option gs_maxTokens (co_settings (call_options env cfg s')) = Some (Some grace_turn_max_tokens)
     else co_tools (call_options env cfg s') = Some (le_definitions env) \<and>
       co_settings (call_options env cfg s') = lc_settings cfg)"
  using loop_turn_grace [OF assms]
  by (auto simp: grace_mono_def call_options_def grace_options_def chat_options_of_def)

definition sample_grace_world :: "nat engine_world" where
  "sample_grace_world = sample_world\<lparr>ew_tracker := Some (new_tracker (Some 100) 100 50)\<rparr>"

theorem grace_turn_once_witness:
  "\<exists>s' w'. loop_turn (sample_loop_env [sample_tool_call]) sample_loop_config (init_loop []) sample_grace_world
       = Next s' w' \<and> ls_nextCallIsGraceTurn s' \<and> grace_injected w'"
proof -
  have "case loop_turn (sample_loop_env [sample_tool_call]) sample_loop_config (init_loop []) sample_grace_world of
      Next s' w' \<Rightarrow> ls_nextCallIsGraceTurn s' | _ \<Rightarrow> False"
    by code_simp
  then obtain s' w' where "loop_turn (sample_loop_env [sample_tool_call]) sample_loop_config (init_loop [])
      sample_grace_world = Next s' w'" "ls_nextCallIsGraceTurn s'"
    by (auto split: turn.splits)
  moreover from grace_turn_once [OF sample_env_respects(2) this(1)] this(2)
  have "grace_injected w'" by simp
  ultimately show ?thesis by blast
qed

text \<open>Tool results that directly follow the calls they answer, as OpenAI-compatible providers
  require: nothing but tool results between a message with tool calls and the last of them.\<close>

fun results_adjacent :: "bool \<Rightarrow> chat_message list \<Rightarrow> bool" where
  "results_adjacent ok [] = True"
| "results_adjacent ok (m # ms) =
     ((msg_role m = Tool \<longrightarrow> ok) \<and>
      results_adjacent (msg_role m = Tool \<or> msg_role m = Assistant \<and> msg_toolCalls m \<noteq> None) ms)"

lemma results_adjacent_append:
  "results_adjacent ok (xs @ ys) \<longleftrightarrow> results_adjacent ok xs \<and>
   results_adjacent (if xs = [] then ok
     else msg_role (last xs) = Tool \<or> msg_role (last xs) = Assistant \<and> msg_toolCalls (last xs) \<noteq> None) ys"
  by (induction ok xs rule: results_adjacent.induct) auto

lemma exec_tool_call_no_map:
  assumes "lc_stalenessMap cfg = None" and "exec_tool_call env cfg tc s w = (Inr s', w')"
  shows "\<exists>out. ls_messages s' = ls_messages s @ [tool_result_msg out (tc_id tc)]"
  using assms
  by (auto simp: exec_tool_call_def Let_def staleness_hint_def
      split: prod.splits option.splits sum.splits loop_aborted.splits)

lemma exec_tool_calls_no_map:
  assumes "lc_stalenessMap cfg = None"
  shows "exec_tool_calls env cfg tcs s w = (Inr s', w') \<Longrightarrow>
    \<exists>outs. length outs = length tcs \<and>
      ls_messages s' = ls_messages s @ map2 (\<lambda>out tc. tool_result_msg out (tc_id tc)) outs tcs"
proof (induction tcs arbitrary: s w)
  case Nil
  then show ?case by simp
next
  case (Cons tc tcs)
  from Cons.prems obtain s1 w1 where one: "exec_tool_call env cfg tc s w = (Inr s1, w1)"
    and rest: "exec_tool_calls env cfg tcs s1 w1 = (Inr s', w')"
    by (auto split: prod.splits sum.splits)
  obtain out where out: "ls_messages s1 = ls_messages s @ [tool_result_msg out (tc_id tc)]"
    using exec_tool_call_no_map [OF assms one] by blast
  from Cons.IH [OF rest] obtain outs where "length outs = length tcs"
    "ls_messages s' = ls_messages s1 @ map2 (\<lambda>out tc. tool_result_msg out (tc_id tc)) outs tcs" by blast
  then have "length (out # outs) = length (tc # tcs) \<and>
    ls_messages s' = ls_messages s @ map2 (\<lambda>out tc. tool_result_msg out (tc_id tc)) (out # outs) (tc # tcs)"
    using out by simp
  then show ?case by blast
qed

text \<open>
  Without a staleness map the results of a response's tool calls follow it directly and in
  the order of the calls, one per call, as OpenAI-compatible providers require.
\<close>

theorem tool_results_in_order:
  assumes "lc_stalenessMap cfg = None" and "run_tools env cfg response s w = Next s' w'"
  shows "\<exists>outs. length outs = length (resp_toolCalls response) \<and>
    ls_messages s' = ls_messages s
      @ [assistant_calls_msg (content_or_empty response) (resp_toolCalls response)]
      @ map2 (\<lambda>out tc. tool_result_msg out (tc_id tc)) outs (resp_toolCalls response)"
  using assms(2) by (rule run_tools_Next) (drule exec_tool_calls_no_map [OF assms(1)], simp)

theorem tool_results_in_order_witness:
  "\<exists>s' w'. run_tools (sample_loop_env []) sample_loop_config
       (sample_response [sample_tool_call, sample_tool_call]) (init_loop []) sample_world = Next s' w' \<and>
     length (ls_messages s') = 3"
proof -
  have "case run_tools (sample_loop_env []) sample_loop_config
      (sample_response [sample_tool_call, sample_tool_call]) (init_loop []) sample_world of
      Next s' w' \<Rightarrow> length (ls_messages s') = 3 | _ \<Rightarrow> False"
    by code_simp
  then obtain s' w' where run: "run_tools (sample_loop_env []) sample_loop_config
      (sample_response [sample_tool_call, sample_tool_call]) (init_loop []) sample_world = Next s' w'"
    by (auto split: turn.splits)
  have "lc_stalenessMap sample_loop_config = None" by (simp add: sample_loop_config_def)
  from tool_results_in_order [OF this run] run show ?thesis
    by (auto simp: sample_response_def init_loop_def)
qed

text \<open>
  With a staleness map this fails: when a response calls \<open>read_file\<close> on a listed skill and
  then another tool, the reminder (a system message) lands between the two tool results.
\<close>

theorem staleness_hint_splits_results:
  "\<exists>s' w'. run_tools (sample_loop_env [])
       (sample_loop_config\<lparr>lc_stalenessMap := Some [(''p'', (''skill'', True))]\<rparr>)
       (sample_response [sample_tool_call, sample_call]) (init_loop []) sample_world = Next s' w' \<and>
     map msg_role (ls_messages s') = [Assistant, Tool, System, Tool] \<and>
     \<not> results_adjacent False (ls_messages s')"
proof -
  have "case run_tools (sample_loop_env [])
       (sample_loop_config\<lparr>lc_stalenessMap := Some [(''p'', (''skill'', True))]\<rparr>)
       (sample_response [sample_tool_call, sample_call]) (init_loop []) sample_world of
      Next s' w' \<Rightarrow> map msg_role (ls_messages s') = [Assistant, Tool, System, Tool] \<and>
        \<not> results_adjacent False (ls_messages s') | _ \<Rightarrow> False"
    by code_simp
  then show ?thesis by (auto split: turn.splits)
qed

end
