(* ===== verification/ApprovalTypes.thy ===== *)
theory ApprovalTypes
  imports RunGuards
begin

text \<open>
  The pure parts of the approval subsystem: \<open>approvals/approval.types.ts\<close> (scopes, choices,
  the downgrade of an out-of-scope choice), \<open>approvals/params-summary.ts\<close> (the redacted copy
  of the parameters shown to the reviewer) and \<open>engine/run-activity.registry.ts\<close> (what each
  live run is doing).
\<close>

section \<open>Scopes and choices\<close>

datatype scope_kind = RunScope | ResourceScope | CallScope

datatype approval_choice =
  AllowOnce | AllowSession | AllowAlways | DenyOnce | DenySession | DenyAlways

datatype memory_decision = Allow | Deny

primrec choice_name :: "approval_choice \<Rightarrow> string" where
  "choice_name AllowOnce = ''allow_once''"
| "choice_name AllowSession = ''allow_session''"
| "choice_name AllowAlways = ''allow_always''"
| "choice_name DenyOnce = ''deny_once''"
| "choice_name DenySession = ''deny_session''"
| "choice_name DenyAlways = ''deny_always''"

definition memory_key :: "string \<Rightarrow> string \<Rightarrow> string" where
  "memory_key toolName resourceKey = toolName @ '':'' @ resourceKey"

definition offered_scopes :: "scope_kind \<Rightarrow> bool \<Rightarrow> approval_choice list" where
  "offered_scopes scopeKind extractorFailed =
     (if extractorFailed then [AllowOnce, DenyOnce]
      else if scopeKind = CallScope then [AllowOnce, AllowSession, DenyOnce, DenySession]
      else [AllowOnce, AllowSession, AllowAlways, DenyOnce, DenySession, DenyAlways])"

primrec ladder :: "approval_choice \<Rightarrow> approval_choice list" where
  "ladder AllowAlways = [AllowSession, AllowOnce]"
| "ladder AllowSession = [AllowOnce]"
| "ladder AllowOnce = []"
| "ladder DenyAlways = [DenySession, DenyOnce]"
| "ladder DenySession = [DenyOnce]"
| "ladder DenyOnce = []"

definition is_allow :: "approval_choice \<Rightarrow> bool" where
  "is_allow c = starts_with (choice_name c) ''allow''"

definition downgrade_choice :: "approval_choice \<Rightarrow> approval_choice list \<Rightarrow> approval_choice \<times> bool" where
  "downgrade_choice choice offered =
     (if choice \<in> set offered then (choice, False)
      else (case find (\<lambda>next. next \<in> set offered) (ladder choice) of
              Some next \<Rightarrow> (next, True)
            | None \<Rightarrow> (let fallback = (if is_allow choice then AllowOnce else DenyOnce)
                       in (fallback, choice \<noteq> fallback))))"

text \<open>The scope a choice is recorded with, read off the end of its name.\<close>

definition choice_scope :: "approval_choice \<Rightarrow> string" where
  "choice_scope c =
     (if ends_with (choice_name c) ''once'' then ''once''
      else if ends_with (choice_name c) ''session'' then ''session'' else ''always'')"

lemma is_allow_simps [simp]:
  "is_allow AllowOnce" "is_allow AllowSession" "is_allow AllowAlways"
  "\<not> is_allow DenyOnce" "\<not> is_allow DenySession" "\<not> is_allow DenyAlways"
  by (simp_all add: is_allow_def starts_with_def)

lemma choice_scope_simps [simp]:
  "choice_scope AllowOnce = ''once''" "choice_scope DenyOnce = ''once''"
  "choice_scope AllowSession = ''session''" "choice_scope DenySession = ''session''"
  "choice_scope AllowAlways = ''always''" "choice_scope DenyAlways = ''always''"
  by (simp_all add: choice_scope_def ends_with_def suffix_def)

text \<open>How far a choice reaches.\<close>

primrec reach :: "approval_choice \<Rightarrow> nat" where
  "reach AllowOnce = 0" | "reach AllowSession = 1" | "reach AllowAlways = 2"
| "reach DenyOnce = 0" | "reach DenySession = 1" | "reach DenyAlways = 2"

text \<open>The choice stored is the best one the prompt offered.\<close>

definition best_offered :: "approval_choice \<Rightarrow> approval_choice list \<Rightarrow> approval_choice \<Rightarrow> bool" where
  "best_offered requested off got \<longleftrightarrow>
     got \<in> set off \<and> is_allow got = is_allow requested \<and> reach got \<le> reach requested \<and>
     \<not> list_ex (\<lambda>c. is_allow c = is_allow requested \<and> reach c \<le> reach requested \<and> reach got < reach c) off"

lemma downgrade_best:
  "best_offered c (offered_scopes kind failed) (fst (downgrade_choice c (offered_scopes kind failed))) \<and>
   snd (downgrade_choice c (offered_scopes kind failed)) =
     (fst (downgrade_choice c (offered_scopes kind failed)) \<noteq> c)"
  by (cases failed; cases kind; cases c)
    (simp_all add: best_offered_def offered_scopes_def downgrade_choice_def)

section \<open>The summary of parameters\<close>

fun json_stringify :: "json \<Rightarrow> string" where
  "json_stringify JNull = ''null''"
| "json_stringify (JBool b) = (if b then ''true'' else ''false'')"
| "json_stringify (JNum q) = show_rat q"
| "json_stringify (JStr s) = json_quote s"
| "json_stringify (JArr xs) = ''['' @ join '','' (map json_stringify xs) @ '']''"
| "json_stringify (JObj kvs) =
     ''{'' @ join '','' (map (\<lambda>(k, v). json_quote k @ '':'' @ json_stringify v) kvs) @ ''}''"

definition max_value_chars :: nat where
  "max_value_chars = 200"

definition ellipsis :: string where
  "ellipsis = [CHR 0xE2, CHR 0x80, CHR 0xA6]"

definition stars :: string where
  "stars = ''***''"

definition secret_key :: "string \<Rightarrow> bool" where
  "secret_key key = matches_any (to_lower key)
     [''key'', ''token'', ''secret'', ''password'', ''credential'', ''authorization'']"

definition is_upper_alnum :: "char \<Rightarrow> bool" where
  "is_upper_alnum c = (let k = (of_char c :: nat) in 48 \<le> k \<and> k \<le> 57 \<or> 65 \<le> k \<and> k \<le> 90)"

definition is_word :: "char \<Rightarrow> bool" where
  "is_word c = (let k = (of_char c :: nat) in is_upper_alnum c \<or> 97 \<le> k \<and> k \<le> 122 \<or> k = 95)"

definition is_word_dash :: "char \<Rightarrow> bool" where
  "is_word_dash c = (is_word c \<or> c = CHR ''-'')"

definition is_bearer_char :: "char \<Rightarrow> bool" where
  "is_bearer_char c = (is_word c \<or> c \<in> set ''.~+/-'')"

text \<open>Length of a greedy run of one character class, and the five alternatives of
  \<open>SECRET_VALUE_RE\<close> at the start of a text: the length of the match. The classes that follow
  one another are disjoint, so the greedy runs never have to give characters back.\<close>

definition run_length :: "(char \<Rightarrow> bool) \<Rightarrow> string \<Rightarrow> nat" where
  "run_length P s = length (takeWhile P s)"

definition match_bearer :: "string \<Rightarrow> nat option" where
  "match_bearer s =
     (if \<not> starts_with s ''Bearer'' then None
      else (let r1 = drop 6 s; n1 = run_length is_space r1;
                r2 = drop n1 r1; n2 = run_length is_bearer_char r2;
                n3 = run_length (\<lambda>c. c = CHR ''='') (drop n2 r2)
            in if n1 = 0 \<or> n2 = 0 then None else Some (6 + n1 + n2 + n3)))"

definition match_sk :: "string \<Rightarrow> nat option" where
  "match_sk s =
     (if \<not> starts_with s ''sk-'' then None
      else (let n = run_length is_word_dash (drop 3 s) in if n < 8 then None else Some (3 + n)))"

definition match_ghp :: "string \<Rightarrow> nat option" where
  "match_ghp s =
     (if \<not> starts_with s ''ghp_'' then None
      else (let n = run_length is_word (drop 4 s) in if n < 20 then None else Some (4 + n)))"

definition match_akia :: "string \<Rightarrow> nat option" where
  "match_akia s =
     (if starts_with s ''AKIA'' \<and> 16 \<le> run_length is_upper_alnum (drop 4 s) then Some 20 else None)"

definition match_jwt :: "string \<Rightarrow> nat option" where
  "match_jwt s =
     (if \<not> starts_with s ''eyJ'' then None
      else (let r1 = drop 3 s; n1 = run_length is_word_dash r1; r2 = drop n1 r1 in
            if n1 = 0 \<or> \<not> starts_with r2 ''.'' then None
            else (let r3 = drop 1 r2; n2 = run_length is_word_dash r3; r4 = drop n2 r3 in
                  if n2 = 0 \<or> \<not> starts_with r4 ''.'' then None
                  else (let n3 = run_length is_word_dash (drop 1 r4) in
                        if n3 = 0 then None else Some (3 + n1 + 1 + n2 + 1 + n3)))))"

definition secret_match :: "string \<Rightarrow> nat option" where
  "secret_match s =
     (case match_bearer s of Some n \<Rightarrow> Some n | None \<Rightarrow>
      (case match_sk s of Some n \<Rightarrow> Some n | None \<Rightarrow>
       (case match_ghp s of Some n \<Rightarrow> Some n | None \<Rightarrow>
        (case match_akia s of Some n \<Rightarrow> Some n | None \<Rightarrow> match_jwt s))))"

lemma secret_match_pos: "secret_match s = Some n \<Longrightarrow> 0 < n"
  by (auto simp: secret_match_def match_bearer_def match_sk_def match_ghp_def match_akia_def
      match_jwt_def Let_def split: option.splits if_splits)

text \<open>\<open>text.replace(SECRET_VALUE_RE, '***')\<close>: every leftmost match.\<close>

function mask_secrets :: "string \<Rightarrow> string" where
  "mask_secrets s =
     (case s of
        [] \<Rightarrow> []
      | c # cs \<Rightarrow>
          (case secret_match s of
             Some n \<Rightarrow> stars @ mask_secrets (drop n s)
           | None \<Rightarrow> c # mask_secrets cs))"
  by pat_completeness auto
termination
  by (relation "measure length") (auto dest: secret_match_pos)

declare mask_secrets.simps [simp del]

definition summarize_param :: "string \<times> json \<Rightarrow> string \<times> string" where
  "summarize_param kv =
     (case kv of (key, value) \<Rightarrow>
        (let text = (case value of JStr s \<Rightarrow> s | _ \<Rightarrow> json_stringify value);
             masked = (if secret_key key then stars else mask_secrets text)
         in (key, if max_value_chars < length masked then take max_value_chars masked @ ellipsis else masked)))"

definition redact_params_summary :: "(string \<times> json) list \<Rightarrow> (string \<times> string) list" where
  "redact_params_summary params = map summarize_param params"

section \<open>Run activity\<close>

record run_activity =
  ra_agentName :: "string option"
  ra_sessionId :: "string option"
  ra_parentAgentRunId :: "string option"
  ra_iteration :: nat
  ra_currentToolName :: "string option"
  ra_currentToolStartedAt :: "nat option"

type_synonym activity_registry = "(string \<times> run_activity) list"

record run_activity_meta =
  rm_agentName :: "string option"
  rm_sessionId :: "string option"
  rm_parentAgentRunId :: "string option"

definition ra_register :: "string \<Rightarrow> run_activity_meta \<Rightarrow> activity_registry \<Rightarrow> activity_registry" where
  "ra_register agentRunId meta runs =
     upd_assoc agentRunId
       \<lparr>ra_agentName = rm_agentName meta, ra_sessionId = rm_sessionId meta,
        ra_parentAgentRunId = rm_parentAgentRunId meta, ra_iteration = 0,
        ra_currentToolName = None, ra_currentToolStartedAt = None\<rparr> runs"

definition ra_modify :: "string \<Rightarrow> (run_activity \<Rightarrow> run_activity) \<Rightarrow> activity_registry \<Rightarrow> activity_registry" where
  "ra_modify agentRunId f runs =
     (case map_of runs agentRunId of None \<Rightarrow> runs | Some run \<Rightarrow> upd_assoc agentRunId (f run) runs)"

definition ra_recordIteration :: "string \<Rightarrow> nat \<Rightarrow> activity_registry \<Rightarrow> activity_registry" where
  "ra_recordIteration agentRunId iteration = ra_modify agentRunId (\<lambda>run. run\<lparr>ra_iteration := iteration\<rparr>)"

definition ra_recordToolStart :: "nat \<Rightarrow> string \<Rightarrow> string \<Rightarrow> activity_registry \<Rightarrow> activity_registry" where
  "ra_recordToolStart now agentRunId toolName = ra_modify agentRunId
     (\<lambda>run. run\<lparr>ra_currentToolName := Some toolName, ra_currentToolStartedAt := Some now\<rparr>)"

definition ra_recordToolEnd :: "string \<Rightarrow> activity_registry \<Rightarrow> activity_registry" where
  "ra_recordToolEnd agentRunId = ra_modify agentRunId
     (\<lambda>run. run\<lparr>ra_currentToolName := None, ra_currentToolStartedAt := None\<rparr>)"

definition ra_unregister :: "string \<Rightarrow> activity_registry \<Rightarrow> activity_registry" where
  "ra_unregister agentRunId runs = del_assoc agentRunId runs"

definition ra_snapshot :: "string \<Rightarrow> activity_registry \<Rightarrow> run_activity option" where
  "ra_snapshot agentRunId runs = map_of runs agentRunId"

lemma ra_snapshot_frame [frame]:
  "b \<noteq> a \<Longrightarrow> ra_snapshot b (ra_modify a f runs) = ra_snapshot b runs"
  "b \<noteq> a \<Longrightarrow> ra_snapshot b (ra_unregister a runs) = ra_snapshot b runs"
  "b \<noteq> a \<Longrightarrow> ra_snapshot b (ra_register a m runs) = ra_snapshot b runs"
  by (auto simp: ra_snapshot_def ra_modify_def ra_unregister_def ra_register_def split: option.split)

section \<open>Properties\<close>

text \<open>
  A choice the prompt did not offer is weakened, never strengthened or reversed: what is
  recorded is always offered, keeps the direction (allow or deny) of the request, reaches as far
  as any offered choice that the request covers and no further, and the user is told exactly
  when it differs from the request.
\<close>

theorem downgrade_is_best_offered:
  "let off = offered_scopes kind failed; r = downgrade_choice c off in
   fst r \<in> set off \<and> is_allow (fst r) = is_allow c \<and> reach (fst r) \<le> reach c \<and>
   \<not> list_ex (\<lambda>c'. is_allow c' = is_allow c \<and> reach c' \<le> reach c \<and> reach (fst r) < reach c') off \<and>
   snd r = (fst r \<noteq> c)"
  using downgrade_best [of c kind failed] by (simp add: best_offered_def Let_def)

text \<open>
  The summary shown to the reviewer has one entry per parameter, in order, none longer than
  200 characters and the ellipsis, and hides the value of every parameter whose name contains a
  secret word.
\<close>

theorem summary_is_bounded:
  "map fst (redact_params_summary params) = map fst params \<and>
   list_all (\<lambda>(k, v). length v \<le> max_value_chars + length ellipsis) (redact_params_summary params) \<and>
   filter (\<lambda>(k, v). secret_key k \<and> v \<noteq> stars) (redact_params_summary params) = []"
  by (auto simp: redact_params_summary_def summarize_param_def Let_def max_value_chars_def
      stars_def list_all_iff filter_empty_conv split: prod.split)

end
