(* ===== verification/Approvals.thy ===== *)
theory Approvals
  imports ApprovalTypes ErrorClassifier
begin

text \<open>
  \<open>approvals/tool-approval.service.ts\<close> with its two repositories. The service's maps
  (\<open>sessionMemory\<close>, \<open>pending\<close>), the two tables, the audit log, the delivery frames, the run
  activity and the clock form one state. The tables behave as the queries document (the unique
  key of \<open>UserToolApproval\<close>, the status guard of \<open>transitionStatus\<close>); whether an audit write or
  a delivery throws is a parameter. Row ids are a counter.

  \<open>gate\<close> stops in the middle to wait for the user, so it is three pieces: \<open>gate_start\<close> up to
  the wait, the wait itself, and \<open>settle\<close>. \<open>gate\<close> composes them for one caller; the theory
  \<open>ApprovalMachine\<close> interleaves them.
\<close>

section \<open>State\<close>

record gate_input =
  gi_userId :: string
  gi_agentRunId :: string
  gi_sessionId :: "string option"
  gi_isSubAgent :: bool
  gi_toolName :: string
  gi_scopeKind :: scope_kind
  gi_resourceKey :: string
  gi_extractorFailed :: bool
  gi_params :: "(string \<times> json) list"
  gi_warnings :: "string list"

datatype gate_result = Allowed | Blocked string

datatype wait_outcome = Choice approval_choice | TimedOut | RunAborted

record session_entry =
  se_decision :: memory_decision
  se_touchedAt :: nat

record pending_entry =
  pe_input :: gate_input
  pe_offered :: "approval_choice list"

record user_tool_approval =
  ua_userId :: string
  ua_toolName :: string
  ua_resourceKey :: string
  ua_decision :: string

datatype approval_status = Pending | Approved | Denied | Expired | Cancelled

record approval_row =
  ar_id :: nat
  ar_userId :: string
  ar_agentRunId :: string
  ar_sessionId :: "string option"
  ar_toolName :: string
  ar_paramsSummary :: "(string \<times> string) list"
  ar_status :: approval_status
  ar_scope :: "string option"
  ar_resolutionReason :: "string option"
  ar_memoryStore :: "string option"
  ar_memoryKey :: "string option"
  ar_resolvedAt :: "nat option"

datatype approval_frame =
    PromptFrame nat string "approval_choice list" string nat "string list"
  | NoticeFrame nat string string
  | ResolvedFrame nat string approval_status "string option"

datatype audit_entry = AuditEntry (au_userId: string) (au_action: string) (au_resourceId: "nat option")

record approval_state =
  ap_sessionMemory :: "(string \<times> (string \<times> session_entry) list) list"
  ap_pending :: "(nat \<times> pending_entry) list"
  ap_standing :: "user_tool_approval list"
  ap_rows :: "approval_row list"
  ap_audit :: "audit_entry list"
  ap_frames :: "approval_frame list"
  ap_activity :: activity_registry
  ap_now :: nat
  ap_nextId :: nat

record approval_env =
  ae_auditOk :: "audit_entry \<Rightarrow> bool"
  ae_deliverOk :: "approval_frame \<Rightarrow> bool"
  ae_timeoutMs :: nat

definition session_entry_ttl_ms :: nat where
  "session_entry_ttl_ms = 24 * 60 * 60 * 1000"

definition blocked_base :: "string \<Rightarrow> string" where
  "blocked_base tool = ''BLOCKED: the user denied '' @ tool @
     ''. Do not retry, rephrase, or attempt the same outcome another way.''"

definition blocked_standing :: "string \<Rightarrow> string" where
  "blocked_standing tool = blocked_base tool @
     '' The user has a standing denial for this action; they can lift it from the approval card or Settings.''"

definition blocked_subagent :: "string \<Rightarrow> string" where
  "blocked_subagent tool = ''BLOCKED: '' @ tool @
     '' requires user approval, which sub-agents cannot request. Ask for approval from the primary conversation or have the parent perform this step.''"

definition blocked_timeout :: "string \<Rightarrow> string" where
  "blocked_timeout tool = ''BLOCKED: the approval request for '' @ tool @
     '' timed out without a user response. Silence is not consent. Do not retry, rephrase, or attempt the same outcome another way.''"

definition blocked_no_channel :: "string \<Rightarrow> string" where
  "blocked_no_channel tool = ''BLOCKED: '' @ tool @
     '' requires user approval and no delivery channel is available for this session. Do not retry.''"

section \<open>Repositories\<close>

definition same_key :: "string \<Rightarrow> string \<Rightarrow> string \<Rightarrow> user_tool_approval \<Rightarrow> bool" where
  "same_key userId toolName resourceKey r \<longleftrightarrow>
     ua_userId r = userId \<and> ua_toolName r = toolName \<and> ua_resourceKey r = resourceKey"

definition uta_upsert :: "string \<Rightarrow> string \<Rightarrow> string \<Rightarrow> string \<Rightarrow> user_tool_approval list \<Rightarrow> user_tool_approval list" where
  "uta_upsert userId toolName resourceKey decision rows =
     (if list_ex (same_key userId toolName resourceKey) rows
      then map (\<lambda>r. if same_key userId toolName resourceKey r then r\<lparr>ua_decision := decision\<rparr> else r) rows
      else rows @ [\<lparr>ua_userId = userId, ua_toolName = toolName, ua_resourceKey = resourceKey,
                    ua_decision = decision\<rparr>])"

definition uta_find_for_keys :: "string \<Rightarrow> string \<Rightarrow> string list \<Rightarrow> user_tool_approval list \<Rightarrow> user_tool_approval list" where
  "uta_find_for_keys userId toolName keys rows =
     filter (\<lambda>r. ua_userId r = userId \<and> ua_toolName r = toolName \<and> ua_resourceKey r \<in> set keys) rows"

definition uta_delete_by_key :: "string \<Rightarrow> string \<Rightarrow> string \<Rightarrow> user_tool_approval list \<Rightarrow> bool \<times> user_tool_approval list" where
  "uta_delete_by_key userId toolName resourceKey rows =
     (list_ex (same_key userId toolName resourceKey) rows,
      filter (\<lambda>r. \<not> same_key userId toolName resourceKey r) rows)"

text \<open>The optional fields a caller of \<open>create\<close> or \<open>transitionStatus\<close> sets.\<close>

record row_patch =
  rp_status :: approval_status
  rp_scope :: "string option"
  rp_resolutionReason :: "string option"
  rp_memory :: "(string \<times> string) option"

definition pending_patch :: row_patch where
  "pending_patch = \<lparr>rp_status = Pending, rp_scope = None, rp_resolutionReason = None, rp_memory = None\<rparr>"

definition ar_create :: "gate_input \<Rightarrow> row_patch \<Rightarrow> bool \<Rightarrow> approval_state \<Rightarrow> nat \<times> approval_state" where
  "ar_create input patch resolved st =
     (ap_nextId st,
      st\<lparr>ap_nextId := ap_nextId st + 1,
         ap_rows := ap_rows st @
           [\<lparr>ar_id = ap_nextId st, ar_userId = gi_userId input, ar_agentRunId = gi_agentRunId input,
             ar_sessionId = gi_sessionId input, ar_toolName = gi_toolName input,
             ar_paramsSummary = redact_params_summary (gi_params input),
             ar_status = rp_status patch, ar_scope = rp_scope patch,
             ar_resolutionReason = rp_resolutionReason patch,
             ar_memoryStore = map_option fst (rp_memory patch),
             ar_memoryKey = map_option snd (rp_memory patch),
             ar_resolvedAt = (if resolved then Some (ap_now st) else None)\<rparr>]\<rparr>)"

definition patch_row :: "nat \<Rightarrow> row_patch \<Rightarrow> approval_row \<Rightarrow> approval_row" where
  "patch_row now patch r =
     r\<lparr>ar_status := rp_status patch,
       ar_scope := (case rp_scope patch of None \<Rightarrow> ar_scope r | Some x \<Rightarrow> Some x),
       ar_resolutionReason := (case rp_resolutionReason patch of None \<Rightarrow> ar_resolutionReason r | Some x \<Rightarrow> Some x),
       ar_memoryStore := (case rp_memory patch of None \<Rightarrow> ar_memoryStore r | Some (x, _) \<Rightarrow> Some x),
       ar_memoryKey := (case rp_memory patch of None \<Rightarrow> ar_memoryKey r | Some (_, x) \<Rightarrow> Some x),
       ar_resolvedAt := Some now\<rparr>"

definition ar_transition :: "nat \<Rightarrow> approval_status \<Rightarrow> row_patch \<Rightarrow> approval_state \<Rightarrow> bool \<times> approval_state" where
  "ar_transition i from_status patch st =
     (list_ex (\<lambda>r. ar_id r = i \<and> ar_status r = from_status) (ap_rows st),
      st\<lparr>ap_rows := map (\<lambda>r. if ar_id r = i \<and> ar_status r = from_status
                              then patch_row (ap_now st) patch r else r) (ap_rows st)\<rparr>)"

definition ar_expire_all :: "string \<Rightarrow> approval_state \<Rightarrow> nat \<times> approval_state" where
  "ar_expire_all reason st =
     (count_if (\<lambda>r. ar_status r = Pending) (ap_rows st),
      st\<lparr>ap_rows := map (\<lambda>r. if ar_status r = Pending
           then r\<lparr>ar_status := Expired, ar_resolutionReason := Some reason, ar_resolvedAt := Some (ap_now st)\<rparr>
           else r) (ap_rows st)\<rparr>)"

definition ar_find :: "nat \<Rightarrow> approval_state \<Rightarrow> approval_row option" where
  "ar_find i st = find (\<lambda>r. ar_id r = i) (ap_rows st)"

definition ar_list_pending :: "string \<Rightarrow> approval_state \<Rightarrow> approval_row list" where
  "ar_list_pending userId st = filter (\<lambda>r. ar_userId r = userId \<and> ar_status r = Pending) (ap_rows st)"

section \<open>Side channels\<close>

text \<open>\<open>audit\<close>: a failed write is logged and swallowed.\<close>

definition audit :: "approval_env \<Rightarrow> string \<Rightarrow> string \<Rightarrow> nat \<Rightarrow> approval_state \<Rightarrow> approval_state" where
  "audit env userId action i st =
     (let e = AuditEntry userId action (Some i)
      in if ae_auditOk env e then st\<lparr>ap_audit := ap_audit st @ [e]\<rparr> else st)"

definition safe_deliver :: "approval_env \<Rightarrow> approval_frame \<Rightarrow> approval_state \<Rightarrow> approval_state" where
  "safe_deliver env f st =
     (if ae_deliverOk env f then st\<lparr>ap_frames := ap_frames st @ [f]\<rparr> else st)"

section \<open>Session memory\<close>

definition session_bucket :: "string \<Rightarrow> approval_state \<Rightarrow> (string \<times> session_entry) list" where
  "session_bucket sessionId st =
     (case map_of (ap_sessionMemory st) sessionId of None \<Rightarrow> [] | Some b \<Rightarrow> b)"

definition write_session_memory ::
  "string \<Rightarrow> string \<Rightarrow> string \<Rightarrow> memory_decision \<Rightarrow> approval_state \<Rightarrow> approval_state" where
  "write_session_memory sessionId toolName resourceKey decision st =
     st\<lparr>ap_sessionMemory := upd_assoc sessionId
          (upd_assoc (memory_key toolName resourceKey)
             \<lparr>se_decision = decision, se_touchedAt = ap_now st\<rparr> (session_bucket sessionId st))
          (ap_sessionMemory st)\<rparr>"

definition set_bucket :: "string \<Rightarrow> (string \<times> session_entry) list \<Rightarrow> approval_state \<Rightarrow> approval_state" where
  "set_bucket sessionId b st = st\<lparr>ap_sessionMemory := upd_assoc sessionId b (ap_sessionMemory st)\<rparr>"

definition remove_session_entry :: "string \<Rightarrow> string \<Rightarrow> approval_state \<Rightarrow> bool \<times> approval_state" where
  "remove_session_entry sessionId key st =
     (case map_of (ap_sessionMemory st) sessionId of
        None \<Rightarrow> (False, st)
      | Some b \<Rightarrow> (map_of b key \<noteq> None, set_bucket sessionId (del_assoc key b) st))"

definition clear_session_memory :: "string \<Rightarrow> approval_state \<Rightarrow> approval_state" where
  "clear_session_memory sessionId st =
     st\<lparr>ap_sessionMemory := del_assoc sessionId (ap_sessionMemory st)\<rparr>"

definition read_session :: "string option \<Rightarrow> string \<Rightarrow> approval_state \<Rightarrow> memory_decision option \<times> approval_state" where
  "read_session sessionId key st =
     (case sessionId of
        None \<Rightarrow> (None, st)
      | Some sid \<Rightarrow>
          if sid = [] then (None, st)
          else (case map_of (session_bucket sid st) key of
             None \<Rightarrow> (None, st)
           | Some entry \<Rightarrow>
               if session_entry_ttl_ms < ap_now st - se_touchedAt entry
               then (None, set_bucket sid (del_assoc key (session_bucket sid st)) st)
               else (Some (se_decision entry),
                     set_bucket sid (upd_assoc key (entry\<lparr>se_touchedAt := ap_now st\<rparr>) (session_bucket sid st)) st)))"

section \<open>Lookup\<close>

datatype memory_store = SessionStore | PersistentStore

primrec store_name :: "memory_store \<Rightarrow> string" where
  "store_name SessionStore = ''session''"
| "store_name PersistentStore = ''persistent''"

record lookup_hit =
  lh_decision :: memory_decision
  lh_store :: memory_store
  lh_key :: string
  lh_scope :: string

datatype lookup_result = LookupAllow lookup_hit | LookupDeny lookup_hit | LookupPrompt string

definition hit :: "memory_decision \<Rightarrow> memory_store \<Rightarrow> string \<Rightarrow> lookup_hit" where
  "hit d store key = \<lparr>lh_decision = d, lh_store = store, lh_key = key,
     lh_scope = (if store = SessionStore then ''session'' else ''always'')\<rparr>"

definition store_for ::
  "memory_decision \<Rightarrow> string \<Rightarrow> memory_decision option \<Rightarrow> user_tool_approval option \<Rightarrow> memory_store option" where
  "store_for d word session persistent =
     (if session = Some d then Some SessionStore
      else if map_option ua_decision persistent = Some word then Some PersistentStore else None)"

text \<open>The \<open>for\<close> over the specificity levels, most specific first.\<close>

fun lookup_levels ::
  "gate_input \<Rightarrow> user_tool_approval list \<Rightarrow> string list \<Rightarrow> approval_state \<Rightarrow> lookup_result \<times> approval_state" where
  "lookup_levels input persistentRows [] st = (LookupPrompt ''no_memory'', st)"
| "lookup_levels input persistentRows (level # levels) st =
     (let key = memory_key (gi_toolName input) level in
      case read_session (gi_sessionId input) key st of
        (session, st1) \<Rightarrow>
          (let persistent = find (\<lambda>r. ua_resourceKey r = level) persistentRows in
           case store_for Deny ''denied'' session persistent of
             Some store \<Rightarrow> (LookupDeny (hit Deny store key), st1)
           | None \<Rightarrow>
               (case store_for Allow ''allowed'' session persistent of
                  Some store \<Rightarrow> (LookupAllow (hit Allow store key), st1)
                | None \<Rightarrow> lookup_levels input persistentRows levels st1)))"

definition specificities :: "string \<Rightarrow> string list" where
  "specificities resourceKey = (if resourceKey \<noteq> [] then [resourceKey, []] else [[]])"

definition lookup :: "gate_input \<Rightarrow> approval_state \<Rightarrow> lookup_result \<times> approval_state" where
  "lookup input st =
     (if gi_extractorFailed input then (LookupPrompt ''extractor_error'', st)
      else (let levels = specificities (gi_resourceKey input);
                rows = uta_find_for_keys (gi_userId input) (gi_toolName input) levels (ap_standing st)
            in lookup_levels input rows levels st))"

section \<open>The gate\<close>

datatype gate_step = Decided gate_result | AwaitResolution nat "approval_choice list"

definition auto_deny ::
  "approval_env \<Rightarrow> gate_input \<Rightarrow> string \<Rightarrow> string \<Rightarrow> approval_state \<Rightarrow> gate_result \<times> approval_state" where
  "auto_deny env input reason blockedMessage st =
     (case ar_create input (pending_patch\<lparr>rp_status := Denied, rp_resolutionReason := Some reason\<rparr>) True st of
        (i, st1) \<Rightarrow> (Blocked blockedMessage, audit env (gi_userId input) ''approval.autodeny'' i st1))"

definition standing_deny ::
  "approval_env \<Rightarrow> gate_input \<Rightarrow> lookup_hit \<Rightarrow> approval_state \<Rightarrow> gate_result \<times> approval_state" where
  "standing_deny env input h st =
     (let reason = (if lh_store h = PersistentStore then ''standing_deny'' else ''session_deny'') in
      case ar_create input
             \<lparr>rp_status = Denied, rp_scope = Some (lh_scope h), rp_resolutionReason = Some reason,
              rp_memory = Some (store_name (lh_store h), lh_key h)\<rparr> True st of
        (i, st1) \<Rightarrow>
          (Blocked (blocked_standing (gi_toolName input)),
           safe_deliver env (NoticeFrame i (gi_userId input) reason)
             (audit env (gi_userId input) ''approval.autodeny'' i st1)))"

text \<open>Creating the row, the audit entry and the prompt; a failed delivery denies.\<close>

definition open_prompt ::
  "approval_env \<Rightarrow> gate_input \<Rightarrow> string \<Rightarrow> approval_state \<Rightarrow> gate_step \<times> approval_state" where
  "open_prompt env input reason st =
     (let offered = offered_scopes (gi_scopeKind input) (gi_extractorFailed input);
          expiresAt = ap_now st + ae_timeoutMs env
      in case ar_create input pending_patch False st of
           (i, st1) \<Rightarrow>
             (let st2 = audit env (gi_userId input) ''approval.request'' i st1;
                  f = PromptFrame i (gi_userId input) offered reason expiresAt (gi_warnings input)
              in if ae_deliverOk env f then
                   (AwaitResolution i offered,
                    st2\<lparr>ap_frames := ap_frames st2 @ [f],
                        ap_activity := ra_recordToolStart (ap_now st2) (gi_agentRunId input)
                          (''awaiting_approval:'' @ gi_toolName input) (ap_activity st2)\<rparr>)
                 else
                   (Decided (Blocked (blocked_no_channel (gi_toolName input))),
                    audit env (gi_userId input) ''approval.autodeny'' i
                      (snd (ar_transition i Pending
                         (pending_patch\<lparr>rp_status := Denied, rp_resolutionReason := Some ''no_channel''\<rparr>) st2)))))"

definition gate_start :: "approval_env \<Rightarrow> gate_input \<Rightarrow> approval_state \<Rightarrow> gate_step \<times> approval_state" where
  "gate_start env input st =
     (case lookup input st of
        (LookupAllow h, st1) \<Rightarrow> (Decided Allowed, st1)
      | (LookupDeny h, st1) \<Rightarrow> apfst Decided (standing_deny env input h st1)
      | (LookupPrompt reason, st1) \<Rightarrow>
          if gi_isSubAgent input then
            apfst Decided (auto_deny env input ''subagent'' (blocked_subagent (gi_toolName input)) st1)
          else if gi_sessionId input = None \<or> gi_sessionId input = Some [] then
            apfst Decided (auto_deny env input ''no_channel'' (blocked_no_channel (gi_toolName input)) st1)
          else open_prompt env input reason st1)"

text \<open>\<open>waitForResolution\<close>: register the rendezvous, or end at once on an aborted run; \<open>finish\<close>
  removes it.\<close>

definition wait_register ::
  "nat \<Rightarrow> gate_input \<Rightarrow> approval_choice list \<Rightarrow> bool \<Rightarrow> approval_state \<Rightarrow> wait_outcome option \<times> approval_state" where
  "wait_register i input offered aborted st =
     (if aborted then (Some RunAborted, st\<lparr>ap_pending := del_assoc i (ap_pending st)\<rparr>)
      else (None, st\<lparr>ap_pending := upd_assoc i \<lparr>pe_input = input, pe_offered = offered\<rparr> (ap_pending st)\<rparr>))"

definition wait_finish :: "nat \<Rightarrow> approval_state \<Rightarrow> approval_state" where
  "wait_finish i st = st\<lparr>ap_pending := del_assoc i (ap_pending st)\<rparr>"

definition remember_choice ::
  "gate_input \<Rightarrow> approval_choice \<Rightarrow> approval_state \<Rightarrow> (string \<times> string) option \<times> approval_state" where
  "remember_choice input choice st =
     (let key = memory_key (gi_toolName input) (gi_resourceKey input) in
      if choice_scope choice = ''session'' \<and> gi_sessionId input \<noteq> None \<and> gi_sessionId input \<noteq> Some [] then
        (Some (''session'', key),
         write_session_memory (the (gi_sessionId input)) (gi_toolName input) (gi_resourceKey input)
           (if is_allow choice then Allow else Deny) st)
      else if choice_scope choice = ''always'' then
        (Some (''persistent'', key),
         st\<lparr>ap_standing := uta_upsert (gi_userId input) (gi_toolName input) (gi_resourceKey input)
              (if is_allow choice then ''allowed'' else ''denied'') (ap_standing st)\<rparr>)
      else (None, st))"

definition settle_system ::
  "approval_env \<Rightarrow> nat \<Rightarrow> gate_input \<Rightarrow> bool \<Rightarrow> approval_state \<Rightarrow> gate_result \<times> approval_state" where
  "settle_system env i input isTimeout st =
     (let status = (if isTimeout then Expired else Cancelled);
          reason = (if isTimeout then ''timeout'' else ''run_aborted'');
          st1 = snd (ar_transition i Pending
                  (pending_patch\<lparr>rp_status := status, rp_resolutionReason := Some reason\<rparr>) st);
          st2 = audit env (gi_userId input) ''approval.autodeny'' i st1;
          st3 = safe_deliver env (ResolvedFrame i (gi_userId input) status None) st2
      in (Blocked (if isTimeout then blocked_timeout (gi_toolName input) else blocked_base (gi_toolName input)),
          st3))"

definition settle_choice ::
  "approval_env \<Rightarrow> nat \<Rightarrow> gate_input \<Rightarrow> approval_choice \<Rightarrow> approval_state \<Rightarrow> gate_result \<times> approval_state" where
  "settle_choice env i input choice st =
     (case remember_choice input choice st of
        (memory, st1) \<Rightarrow>
          (let status = (if is_allow choice then Approved else Denied);
               st2 = snd (ar_transition i Pending
                       \<lparr>rp_status = status, rp_scope = Some (choice_scope choice),
                        rp_resolutionReason = None, rp_memory = memory\<rparr> st1);
               st3 = safe_deliver env
                       (ResolvedFrame i (gi_userId input) status (Some (choice_scope choice))) st2
           in (if is_allow choice then Allowed else Blocked (blocked_base (gi_toolName input)), st3)))"

definition settle ::
  "approval_env \<Rightarrow> nat \<Rightarrow> gate_input \<Rightarrow> wait_outcome \<Rightarrow> approval_state \<Rightarrow> gate_result \<times> approval_state" where
  "settle env i input outcome st =
     (let (r, st1) = (case outcome of
                        TimedOut \<Rightarrow> settle_system env i input True st
                      | RunAborted \<Rightarrow> settle_system env i input False st
                      | Choice c \<Rightarrow> settle_choice env i input c st)
      in (r, st1\<lparr>ap_activity := ra_recordToolEnd (gi_agentRunId input) (ap_activity st1)\<rparr>))"

text \<open>The whole of \<open>gate\<close>; \<open>wait\<close> is what happens to the service while the promise is pending.\<close>

definition gate ::
  "approval_env \<Rightarrow> (nat \<Rightarrow> gate_input \<Rightarrow> approval_choice list \<Rightarrow> approval_state \<Rightarrow> wait_outcome \<times> approval_state) \<Rightarrow>
   gate_input \<Rightarrow> approval_state \<Rightarrow> gate_result \<times> approval_state" where
  "gate env wait input st =
     (case gate_start env input st of
        (Decided r, st1) \<Rightarrow> (r, st1)
      | (AwaitResolution i offered, st1) \<Rightarrow>
          (case wait i input offered st1 of (outcome, st2) \<Rightarrow> settle env i input outcome st2))"

section \<open>Resolving and revoking\<close>

text \<open>\<open>resolve\<close> up to and including the audit write; \<open>Some choice\<close> is handed to the waiting
  promise afterwards.\<close>

definition resolve ::
  "approval_env \<Rightarrow> nat \<Rightarrow> string \<Rightarrow> approval_choice \<Rightarrow> approval_state \<Rightarrow>
   (bool \<times> bool) \<times> approval_choice option \<times> approval_state" where
  "resolve env approvalId userId requestedChoice st =
     (case map_of (ap_pending st) approvalId of
        None \<Rightarrow> ((False, False), None, st)
      | Some entry \<Rightarrow>
          if gi_userId (pe_input entry) \<noteq> userId then ((False, False), None, st)
          else (case downgrade_choice requestedChoice (pe_offered entry) of
                  (choice, downgraded) \<Rightarrow>
                    ((True, downgraded), Some choice, audit env userId ''approval.resolve'' approvalId st)))"

definition split_memory_key :: "string \<Rightarrow> string \<times> string" where
  "split_memory_key key =
     (takeWhile (\<lambda>c. c \<noteq> CHR '':'') key, drop 1 (dropWhile (\<lambda>c. c \<noteq> CHR '':'') key))"

definition revoke :: "approval_env \<Rightarrow> nat \<Rightarrow> string \<Rightarrow> approval_state \<Rightarrow> bool \<times> approval_state" where
  "revoke env approvalId userId st =
     (case ar_find approvalId st of
        None \<Rightarrow> (False, st)
      | Some row \<Rightarrow>
          (case (ar_memoryStore row, ar_memoryKey row) of
             (Some store, Some key) \<Rightarrow>
               if ar_userId row \<noteq> userId \<or> store = [] \<or> key = [] then (False, st)
               else
                 (let (removed, st1) =
                    (if store = ''persistent'' then
                       (case uta_delete_by_key userId (fst (split_memory_key key)) (snd (split_memory_key key))
                               (ap_standing st) of (b, rows) \<Rightarrow> (b, st\<lparr>ap_standing := rows\<rparr>))
                     else
                       (case ar_sessionId row of
                          None \<Rightarrow> (False, st)
                        | Some sid \<Rightarrow> if sid = [] then (False, st) else remove_session_entry sid key st))
                  in (removed, if removed then audit env userId ''approval.revoke'' approvalId st1 else st1))
           | _ \<Rightarrow> (False, st)))"

definition on_module_init :: "approval_env \<Rightarrow> approval_state \<Rightarrow> approval_state" where
  "on_module_init env st =
     (case ar_expire_all ''restart_sweep'' st of
        (swept, st1) \<Rightarrow>
          (let e = AuditEntry ''system'' ''approval.autodeny'' None
           in if 0 < swept \<and> ae_auditOk env e then st1\<lparr>ap_audit := ap_audit st1 @ [e]\<rparr> else st1))"

section \<open>Frame lemmas\<close>

lemma audit_frame [frame, simp]:
  "ap_sessionMemory (audit env u a i st) = ap_sessionMemory st"
  "ap_pending (audit env u a i st) = ap_pending st"
  "ap_standing (audit env u a i st) = ap_standing st"
  "ap_rows (audit env u a i st) = ap_rows st"
  "ap_now (audit env u a i st) = ap_now st"
  "ap_nextId (audit env u a i st) = ap_nextId st"
  by (simp_all add: audit_def Let_def)

lemma safe_deliver_frame [frame, simp]:
  "ap_sessionMemory (safe_deliver env f st) = ap_sessionMemory st"
  "ap_pending (safe_deliver env f st) = ap_pending st"
  "ap_standing (safe_deliver env f st) = ap_standing st"
  "ap_rows (safe_deliver env f st) = ap_rows st"
  "ap_now (safe_deliver env f st) = ap_now st"
  "ap_nextId (safe_deliver env f st) = ap_nextId st"
  by (simp_all add: safe_deliver_def)

lemma read_session_frame [frame]:
  "ap_pending (snd (read_session sid key st)) = ap_pending st"
  "ap_standing (snd (read_session sid key st)) = ap_standing st"
  "ap_rows (snd (read_session sid key st)) = ap_rows st"
  "ap_now (snd (read_session sid key st)) = ap_now st"
  "ap_nextId (snd (read_session sid key st)) = ap_nextId st"
  by (simp_all add: read_session_def set_bucket_def split: option.split)

lemma lookup_levels_frame:
  "lookup_levels input rows levels st = (r, st') \<Longrightarrow>
   ap_pending st' = ap_pending st \<and> ap_standing st' = ap_standing st \<and> ap_rows st' = ap_rows st \<and>
   ap_now st' = ap_now st \<and> ap_nextId st' = ap_nextId st"
proof (induction levels arbitrary: st)
  case Nil
  then show ?case by simp
next
  case (Cons level levels)
  obtain s st1 where rs: "read_session (gi_sessionId input) (memory_key (gi_toolName input) level) st = (s, st1)"
    by fastforce
  have "ap_pending st1 = ap_pending st" "ap_standing st1 = ap_standing st" "ap_rows st1 = ap_rows st"
    "ap_now st1 = ap_now st" "ap_nextId st1 = ap_nextId st"
    using read_session_frame [of "gi_sessionId input" "memory_key (gi_toolName input) level" st] rs by simp_all
  then show ?case using Cons rs by (auto simp: Let_def split: option.splits)
qed

lemma lookup_frame:
  "lookup input st = (r, st') \<Longrightarrow>
   ap_pending st' = ap_pending st \<and> ap_standing st' = ap_standing st \<and> ap_rows st' = ap_rows st \<and>
   ap_now st' = ap_now st \<and> ap_nextId st' = ap_nextId st"
  by (auto simp: lookup_def Let_def dest: lookup_levels_frame split: if_splits)

section \<open>What the memories say\<close>

text \<open>Reading without refreshing or expiring: the abstract view of both stores.\<close>

definition session_view :: "string option \<Rightarrow> string \<Rightarrow> approval_state \<Rightarrow> memory_decision option" where
  "session_view sessionId key st =
     (case sessionId of
        None \<Rightarrow> None
      | Some sid \<Rightarrow> if sid = [] then None
          else (case map_of (session_bucket sid st) key of
             None \<Rightarrow> None
           | Some e \<Rightarrow> if session_entry_ttl_ms < ap_now st - se_touchedAt e then None else Some (se_decision e)))"

definition standing_view :: "string \<Rightarrow> string \<Rightarrow> string \<Rightarrow> approval_state \<Rightarrow> string option" where
  "standing_view userId toolName resourceKey st =
     map_option ua_decision (find (same_key userId toolName resourceKey) (ap_standing st))"

definition level_verdict :: "gate_input \<Rightarrow> string \<Rightarrow> approval_state \<Rightarrow> memory_decision option" where
  "level_verdict input level st =
     (let session = session_view (gi_sessionId input) (memory_key (gi_toolName input) level) st;
          standing = standing_view (gi_userId input) (gi_toolName input) level st
      in if session = Some Deny \<or> standing = Some ''denied'' then Some Deny
         else if session = Some Allow \<or> standing = Some ''allowed'' then Some Allow else None)"

primrec verdict_of :: "lookup_result \<Rightarrow> memory_decision option" where
  "verdict_of (LookupAllow h) = Some Allow"
| "verdict_of (LookupDeny h) = Some Deny"
| "verdict_of (LookupPrompt reason) = None"

lemma session_bucket_set [simp]:
  "session_bucket sid (set_bucket sid' b st) = (if sid = sid' then b else session_bucket sid st)"
  by (simp add: session_bucket_def set_bucket_def)

lemma set_bucket_frame [frame, simp]:
  "ap_now (set_bucket sid b st) = ap_now st" "ap_standing (set_bucket sid b st) = ap_standing st"
  by (simp_all add: set_bucket_def)

lemma read_session_view: "fst (read_session sid key st) = session_view sid key st"
  by (simp add: read_session_def session_view_def split: option.split)

lemma read_session_keeps_view:
  "session_view sid' key' (snd (read_session sid key st)) = session_view sid' key' st"
  by (auto simp: read_session_def session_view_def split: option.splits)

lemma standing_view_find:
  "level \<in> set levels \<Longrightarrow>
   find (\<lambda>r. ua_resourceKey r = level) (uta_find_for_keys u t levels rows) = find (same_key u t level) rows"
  by (induction rows) (auto simp: uta_find_for_keys_def same_key_def)

lemma session_view_standing: "session_view sid k (st\<lparr>ap_standing := x\<rparr>) = session_view sid k st"
  by (simp add: session_view_def session_bucket_def split: option.split)

lemma lookup_levels_verdict:
  assumes "set levels \<subseteq> set keys"
  shows "verdict_of (fst (lookup_levels input
           (uta_find_for_keys (gi_userId input) (gi_toolName input) keys (ap_standing st0)) levels st)) =
         (case filter (\<lambda>v. v \<noteq> None) (map (\<lambda>l. level_verdict input l (st\<lparr>ap_standing := ap_standing st0\<rparr>)) levels) of
            [] \<Rightarrow> None | v # vs \<Rightarrow> v)"
  using assms
proof (induction levels arbitrary: st)
  case Nil
  then show ?case by simp
next
  case (Cons level levels)
  let ?key = "memory_key (gi_toolName input) level"
  obtain s st1 where rs: "read_session (gi_sessionId input) ?key st = (s, st1)" by fastforce
  have s: "s = session_view (gi_sessionId input) ?key st" using read_session_view [of "gi_sessionId input" ?key st] rs by simp
  have view: "session_view sid k st1 = session_view sid k st" for sid k
    using read_session_keeps_view [of sid k "gi_sessionId input" ?key st] rs by simp
  have lv: "level_verdict input l (st1\<lparr>ap_standing := ap_standing st0\<rparr>) =
      level_verdict input l (st\<lparr>ap_standing := ap_standing st0\<rparr>)" for l
    by (simp add: level_verdict_def standing_view_def session_view_standing view)
  show ?case
    using Cons rs standing_view_find [of level keys "gi_userId input" "gi_toolName input" "ap_standing st0"]
    by (cases s; cases "the s"; cases "find (same_key (gi_userId input) (gi_toolName input) level) (ap_standing st0)")
      (auto simp: Let_def lv level_verdict_def [of input level] standing_view_def session_view_standing s [symmetric] store_for_def
        split: if_splits)
qed

lemma lookup_verdict:
  assumes "\<not> gi_extractorFailed input"
  shows "verdict_of (fst (lookup input st)) =
    (if gi_resourceKey input = [] then level_verdict input [] st
     else (case level_verdict input (gi_resourceKey input) st of
             Some v \<Rightarrow> Some v | None \<Rightarrow> level_verdict input [] st))"
  using lookup_levels_verdict [of "specificities (gi_resourceKey input)" "specificities (gi_resourceKey input)" input st st]
    assms
  by (auto simp: lookup_def Let_def specificities_def split: option.split if_splits list.splits)

section \<open>Properties\<close>

text \<open>
  The memory lookup has the documented precedence: a decision stored for the specific
  resource wins over one stored for the whole tool, whatever the store; at the same level a
  denial wins over an allowance, whatever the store; expired session entries count as absent; and
  with no decision at either level the user is asked.
\<close>

theorem lookup_precedence:
  assumes "\<not> gi_extractorFailed input"
  shows "verdict_of (fst (lookup input st)) =
    (if gi_resourceKey input = [] then level_verdict input [] st
     else (case level_verdict input (gi_resourceKey input) st of
             Some v \<Rightarrow> Some v | None \<Rightarrow> level_verdict input [] st))"
  using assms by (rule lookup_verdict)

definition sample_gate_input :: gate_input where
  "sample_gate_input =
     \<lparr>gi_userId = ''u'', gi_agentRunId = ''run'', gi_sessionId = Some ''s'', gi_isSubAgent = False,
      gi_toolName = ''web'', gi_scopeKind = ResourceScope, gi_resourceKey = ''host'',
      gi_extractorFailed = False, gi_params = [], gi_warnings = []\<rparr>"

definition sample_approvals :: approval_state where
  "sample_approvals =
     \<lparr>ap_sessionMemory = [], ap_pending = [],
      ap_standing = [\<lparr>ua_userId = ''u'', ua_toolName = ''web'', ua_resourceKey = [], ua_decision = ''denied''\<rparr>,
                     \<lparr>ua_userId = ''u'', ua_toolName = ''web'', ua_resourceKey = ''host'', ua_decision = ''allowed''\<rparr>],
      ap_rows = [], ap_audit = [], ap_frames = [], ap_activity = [], ap_now = 0, ap_nextId = 0\<rparr>"

theorem lookup_precedence_witness:
  "verdict_of (fst (lookup sample_gate_input sample_approvals)) = Some Allow"
proof -
  have "\<not> gi_extractorFailed sample_gate_input" by (simp add: sample_gate_input_def)
  from lookup_precedence [OF this, of sample_approvals] show ?thesis
    by (simp add: sample_gate_input_def sample_approvals_def level_verdict_def session_view_def
        session_bucket_def standing_view_def same_key_def Let_def)
qed

text \<open>What a gate that lets a call through rests on.\<close>

definition consented ::
  "approval_env \<Rightarrow> (nat \<Rightarrow> gate_input \<Rightarrow> approval_choice list \<Rightarrow> approval_state \<Rightarrow> wait_outcome \<times> approval_state) \<Rightarrow>
   gate_input \<Rightarrow> approval_state \<Rightarrow> bool" where
  "consented env wait input st \<longleftrightarrow>
     \<not> gi_extractorFailed input \<and> verdict_of (fst (lookup input st)) = Some Allow \<or>
     \<not> gi_isSubAgent input \<and> gi_sessionId input \<noteq> None \<and> gi_sessionId input \<noteq> Some [] \<and>
     verdict_of (fst (lookup input st)) = None \<and>
     (\<exists>i st1 c st2. gate_start env input st = (AwaitResolution i (offered_scopes (gi_scopeKind input) (gi_extractorFailed input)), st1) \<and>
        wait i input (offered_scopes (gi_scopeKind input) (gi_extractorFailed input)) st1 = (Choice c, st2) \<and>
        is_allow c)"

lemma settle_Allowed:
  "settle env i input outcome st = (Allowed, st') \<Longrightarrow> \<exists>c. outcome = Choice c \<and> is_allow c"
  by (cases outcome) (auto simp: settle_def settle_system_def settle_choice_def Let_def
      split: prod.splits if_splits)

lemma gate_start_cases:
  assumes "gate_start env input st = (step, st')"
  obtains (allow) h where "lookup input st = (LookupAllow h, st')" "step = Decided Allowed"
  | (deny) msg where "step = Decided (Blocked msg)"
  | (ask) reason st1 where "lookup input st = (LookupPrompt reason, st1)" "\<not> gi_isSubAgent input"
      "gi_sessionId input \<noteq> None" "gi_sessionId input \<noteq> Some []"
      "step = AwaitResolution (ap_nextId st) (offered_scopes (gi_scopeKind input) (gi_extractorFailed input))"
      "open_prompt env input reason st1 = (step, st')"
proof -
  obtain l st1 where l: "lookup input st = (l, st1)" by fastforce
  have n: "ap_nextId st1 = ap_nextId st" using lookup_frame [OF l] by simp
  show thesis
  proof (cases l)
    case (LookupAllow h)
    then show thesis using assms l allow by (auto simp: gate_start_def)
  next
    case (LookupDeny h)
    then show thesis using assms l deny
      by (auto simp: gate_start_def standing_deny_def Let_def split: prod.splits)
  next
    case (LookupPrompt reason)
    show thesis
    proof (cases "gi_isSubAgent input \<or> gi_sessionId input = None \<or> gi_sessionId input = Some []")
      case True
      then show thesis using assms l LookupPrompt deny
        by (auto simp: gate_start_def auto_deny_def split: prod.splits if_splits)
    next
      case False
      then have o: "open_prompt env input reason st1 = (step, st')"
        using assms l LookupPrompt by (auto simp: gate_start_def)
      show thesis
      proof (cases "ae_deliverOk env (PromptFrame (ap_nextId st) (gi_userId input)
          (offered_scopes (gi_scopeKind input) (gi_extractorFailed input)) reason (ap_now st1 + ae_timeoutMs env)
          (gi_warnings input))")
        case True
        then have "step = AwaitResolution (ap_nextId st) (offered_scopes (gi_scopeKind input) (gi_extractorFailed input))"
          using o n by (auto simp: open_prompt_def ar_create_def Let_def)
        then show thesis using ask l LookupPrompt False o by blast
      next
        case False
        then show thesis using o n deny by (auto simp: open_prompt_def ar_create_def Let_def)
      qed
    qed
  qed
qed

lemma lookup_extractor: "gi_extractorFailed input \<Longrightarrow> lookup input st = (LookupPrompt ''extractor_error'', st)"
  by (simp add: lookup_def)

lemma gate_consented:
  assumes "gate env wait input st = (Allowed, st')"
  shows "consented env wait input st"
proof -
  obtain step st1 where g: "gate_start env input st = (step, st1)" by fastforce
  from g show ?thesis
  proof (cases rule: gate_start_cases)
    case (allow h)
    then have "\<not> gi_extractorFailed input" using lookup_extractor [of input st] by auto
    then show ?thesis using allow by (simp add: consented_def)
  next
    case (deny msg)
    then show ?thesis using assms g by (simp add: gate_def)
  next
    case (ask reason st0)
    obtain oc st2 where w: "wait (ap_nextId st) input (offered_scopes (gi_scopeKind input) (gi_extractorFailed input)) st1 = (oc, st2)"
      by fastforce
    have "settle env (ap_nextId st) input oc st2 = (Allowed, st')"
      using assms g ask(5) w by (simp add: gate_def)
    then obtain c where "oc = Choice c" "is_allow c" using settle_Allowed by blast
    then show ?thesis using ask g w by (auto simp: consented_def)
  qed
qed

text \<open>
  C8: The gate never lets a call through without consent: it allows only when the stored
  decisions say allow, or when the user, asked in a live session of a primary agent, answered
  with an allow choice. A timeout, an abort, a failed delivery, a sub-agent, a missing session
  or a failed resource extractor never allow.
\<close>

theorem gate_requires_consent:
  assumes "gate env wait input st = (Allowed, st')"
  shows "\<not> gi_extractorFailed input \<and> verdict_of (fst (lookup input st)) = Some Allow \<or>
    \<not> gi_isSubAgent input \<and> gi_sessionId input \<noteq> None \<and> gi_sessionId input \<noteq> Some [] \<and>
    verdict_of (fst (lookup input st)) = None \<and>
    (\<exists>i off st1 c st2. gate_start env input st = (AwaitResolution i off, st1) \<and>
       wait i input off st1 = (Choice c, st2) \<and> is_allow c)"
  using gate_consented [OF assms] unfolding consented_def by blast

definition sample_approval_env :: approval_env where
  "sample_approval_env = \<lparr>ae_auditOk = (\<lambda>_. True), ae_deliverOk = (\<lambda>_. True), ae_timeoutMs = 3\<rparr>"

definition no_standing :: approval_state where
  "no_standing = sample_approvals\<lparr>ap_standing := []\<rparr>"

definition says :: "approval_choice \<Rightarrow> nat \<Rightarrow> gate_input \<Rightarrow> approval_choice list \<Rightarrow> approval_state \<Rightarrow>
    wait_outcome \<times> approval_state" where
  "says c i input off st = (Choice c, st)"

theorem gate_requires_consent_witness:
  "\<exists>st'. gate sample_approval_env (says AllowOnce) sample_gate_input no_standing = (Allowed, st') \<and>
     verdict_of (fst (lookup sample_gate_input no_standing)) = None"
proof -
  have a: "fst (gate sample_approval_env (says AllowOnce) sample_gate_input no_standing) = Allowed"
    by code_simp
  have p: "verdict_of (fst (lookup sample_gate_input no_standing)) = None" by code_simp
  from a obtain st' where g: "gate sample_approval_env (says AllowOnce) sample_gate_input no_standing = (Allowed, st')"
    by (metis prod.collapse)
  from gate_requires_consent [OF g] p g show ?thesis by blast
qed

text \<open>A choice with a lasting scope decides the same call from then on.\<close>

lemma session_view_write:
  assumes "sid \<noteq> []"
  shows "session_view (Some sid) k (write_session_memory sid t r d st) =
    (if k = memory_key t r then Some d else session_view (Some sid) k st)"
  using assms by (simp add: session_view_def write_session_memory_def session_bucket_def split: option.split)

lemma same_key_decision [simp]: "same_key u t r (x\<lparr>ua_decision := d\<rparr>) = same_key u t r x"
  by (simp add: same_key_def)

lemma find_update_other:
  "k \<noteq> r \<Longrightarrow> map_option ua_decision (find (same_key u t k)
      (map (\<lambda>x. if same_key u t r x then x\<lparr>ua_decision := d\<rparr> else x) rows)) =
    map_option ua_decision (find (same_key u t k) rows)"
  by (induction rows) (simp_all, simp add: same_key_def)

lemma find_update_same:
  "list_ex (same_key u t r) rows \<Longrightarrow> map_option ua_decision (find (same_key u t r)
      (map (\<lambda>x. if same_key u t r x then x\<lparr>ua_decision := d\<rparr> else x) rows)) = Some d"
  by (induction rows) auto

lemma find_snoc: "find P (xs @ [x]) = (case find P xs of None \<Rightarrow> if P x then Some x else None | Some y \<Rightarrow> Some y)"
  by (induction xs) auto

lemma find_upsert:
  "map_option ua_decision (find (same_key u t k) (uta_upsert u t r d rows)) =
     (if k = r then Some d else map_option ua_decision (find (same_key u t k) rows))"
proof (cases "list_ex (same_key u t r) rows")
  case True
  then show ?thesis using find_update_other [of k r u t d rows] find_update_same [of u t r rows d]
    by (simp add: uta_upsert_def)
next
  case False
  then have "find (same_key u t r) rows = None" by (simp add: find_None_iff list_ex_iff)
  then show ?thesis using False
    by (auto simp: uta_upsert_def find_snoc same_key_def split: option.split)
qed

lemma standing_view_upsert:
  "standing_view u t k (st\<lparr>ap_standing := uta_upsert u t r d (ap_standing st)\<rparr>) =
     (if k = r then Some d else standing_view u t k st)"
  by (simp add: standing_view_def find_upsert)

lemma memory_key_inject [simp]: "memory_key t r = memory_key t r' \<longleftrightarrow> r = r'"
  by (simp add: memory_key_def)

lemma remember_session_frame [frame]:
  "ap_standing (write_session_memory sid t r d st) = ap_standing st"
  by (simp add: write_session_memory_def)

lemma level_verdict_remember:
  assumes "gi_sessionId input = Some sid" and "sid \<noteq> []"
    and "level_verdict input (gi_resourceKey input) st = None"
  shows "level_verdict input level (snd (remember_choice input c st)) =
    (if level = gi_resourceKey input \<and> choice_scope c \<noteq> ''once''
     then Some (if is_allow c then Allow else Deny) else level_verdict input level st)"
proof (cases c)
  case AllowOnce
  then show ?thesis by (simp add: remember_choice_def Let_def)
next
  case DenyOnce
  then show ?thesis by (simp add: remember_choice_def Let_def)
next
  case AllowSession
  then show ?thesis using assms
    by (auto simp: remember_choice_def Let_def level_verdict_def standing_view_def frame
        session_view_write split: if_splits)
next
  case DenySession
  then show ?thesis using assms
    by (auto simp: remember_choice_def Let_def level_verdict_def standing_view_def frame
        session_view_write split: if_splits)
next
  case AllowAlways
  then show ?thesis using assms
    by (auto simp: remember_choice_def Let_def level_verdict_def session_view_standing
        standing_view_upsert split: if_splits)
next
  case DenyAlways
  then show ?thesis using assms
    by (auto simp: remember_choice_def Let_def level_verdict_def session_view_standing
        standing_view_upsert split: if_splits)
qed

text \<open>
  An answer with a lasting scope is remembered: right after it, the same call is decided
  the way the user answered without asking again, while a once answer leaves the next call to
  be asked.
\<close>

theorem choice_is_remembered:
  assumes "\<not> gi_extractorFailed input" and "gi_sessionId input = Some sid" and "sid \<noteq> []"
    and "verdict_of (fst (lookup input st)) = None"
  shows "verdict_of (fst (lookup input (snd (remember_choice input c st)))) =
    (if choice_scope c = ''once'' then None else Some (if is_allow c then Allow else Deny))"
proof -
  have here: "level_verdict input (gi_resourceKey input) st = None" and top: "level_verdict input [] st = None"
    using assms(4) lookup_verdict [OF assms(1), of st] by (auto split: if_splits option.splits)
  show ?thesis
    using lookup_verdict [OF assms(1), of "snd (remember_choice input c st)"]
      level_verdict_remember [OF assms(2,3) here] here top by (auto split: option.splits)
qed

theorem choice_is_remembered_witness:
  "verdict_of (fst (lookup sample_gate_input (snd (remember_choice sample_gate_input DenyAlways no_standing)))) = Some Deny"
proof -
  have "verdict_of (fst (lookup sample_gate_input no_standing)) = None" by code_simp
  then show ?thesis
    using choice_is_remembered [where input = sample_gate_input and sid = "''s''" and st = no_standing
        and c = DenyAlways]
    by (simp add: sample_gate_input_def)
qed

lemma split_memory_key: "CHR '':'' \<notin> set t \<Longrightarrow> split_memory_key (memory_key t r) = (t, r)"
  by (induction t) (auto simp: split_memory_key_def memory_key_def)

lemma find_filter_not: "find P (filter (\<lambda>x. \<not> P x) xs) = None"
  by (simp add: find_None_iff)

lemma standing_view_delete:
  "standing_view u' t' r' (st\<lparr>ap_standing := filter (\<lambda>x. \<not> same_key u t r x) (ap_standing st)\<rparr>) =
   (if (u', t', r') = (u, t, r) then None else standing_view u' t' r' st)"
proof (cases "(u', t', r') = (u, t, r)")
  case True
  then show ?thesis by (simp add: standing_view_def find_filter_not)
next
  case False
  have "find (same_key u' t' r') (filter (\<lambda>x. \<not> same_key u t r x) rows) = find (same_key u' t' r') rows" for rows
    using False by (induction rows) (auto simp: same_key_def)
  then show ?thesis using False by (auto simp: standing_view_def)
qed

text \<open>
  C12: Revoking a standing decision from its approval row removes exactly that decision, for its
  owner only: nobody else's and no other key's changes, and the answer says whether it was still
  there. (The stored key is split at its first colon, so the tool's name must not have one.)
\<close>

theorem revoke_standing_exact:
  assumes "ar_find i st = Some row" and "ar_memoryStore row = Some ''persistent''"
    and "ar_memoryKey row = Some (memory_key t r)" and "CHR '':'' \<notin> set t"
  shows "fst (revoke env i u st) = (u = ar_userId row \<and> standing_view u t r st \<noteq> None) \<and>
    standing_view u' t' r' (snd (revoke env i u st)) =
      (if u = ar_userId row \<and> (u', t', r') = (u, t, r) then None else standing_view u' t' r' st)"
proof -
  have ne: "memory_key t r \<noteq> []" by (simp add: memory_key_def)
  have ex: "list_ex (same_key u t r) (ap_standing st) = (standing_view u t r st \<noteq> None)"
    by (auto simp: standing_view_def find_None_iff list_ex_iff)
  have fr: "standing_view x y z (audit env a b k s) = standing_view x y z s" for x y z a b k s
    by (simp add: standing_view_def)
  show ?thesis
    using standing_view_delete [where u' = u' and t' = t' and r' = r' and st = st and u = u and t = t and r = r] ex ne
    by (auto simp: revoke_def assms split_memory_key uta_delete_by_key_def Let_def fr)
qed

definition revocable_row :: approval_row where
  "revocable_row =
     \<lparr>ar_id = 7, ar_userId = ''u'', ar_agentRunId = ''run'', ar_sessionId = Some ''s'', ar_toolName = ''web'',
      ar_paramsSummary = [], ar_status = Approved, ar_scope = Some ''always'', ar_resolutionReason = None,
      ar_memoryStore = Some ''persistent'', ar_memoryKey = Some (memory_key ''web'' ''host''), ar_resolvedAt = Some 0\<rparr>"

theorem revoke_standing_exact_witness:
  "fst (revoke sample_approval_env 7 ''u'' (sample_approvals\<lparr>ap_rows := [revocable_row]\<rparr>))"
proof -
  let ?st = "sample_approvals\<lparr>ap_rows := [revocable_row]\<rparr>"
  have "ar_find 7 ?st = Some revocable_row" by (simp add: ar_find_def revocable_row_def)
  moreover have "standing_view ''u'' ''web'' ''host'' ?st \<noteq> None"
    by (simp add: standing_view_def sample_approvals_def same_key_def)
  ultimately show ?thesis
    using revoke_standing_exact [where i = 7 and st = ?st and row = revocable_row and t = "''web''"
        and r = "''host''" and env = sample_approval_env and u = "''u''"]
    by (simp add: revocable_row_def)
qed

section \<open>The contract of a gate\<close>

text \<open>What the tool registry relies on: an allowed call has the user's consent.\<close>

locale consent_gate =
  fixes gate_call :: "gate_input \<Rightarrow> 'w \<Rightarrow> (thrown + gate_result) \<times> 'w"
    and consent :: "gate_input \<Rightarrow> 'w \<Rightarrow> bool"
  assumes allowed_consent: "gate_call input w = (Inr Allowed, w') \<Longrightarrow> consent input w"

definition service_gate ::
  "approval_env \<Rightarrow> (nat \<Rightarrow> gate_input \<Rightarrow> approval_choice list \<Rightarrow> approval_state \<Rightarrow> wait_outcome \<times> approval_state) \<Rightarrow>
   gate_input \<Rightarrow> approval_state \<Rightarrow> (thrown + gate_result) \<times> approval_state" where
  "service_gate env wait input st = apfst Inr (gate env wait input st)"

interpretation approval_service: consent_gate "service_gate env wait" "consented env wait" for env wait
  by unfold_locales (auto simp: service_gate_def apfst_def map_prod_def intro: gate_consented split: prod.splits)

end
