(* ===== verification/ApprovalMachine.thy ===== *)
theory ApprovalMachine
  imports Approvals
begin

text \<open>
  The approval service under concurrency. Every \<open>gate\<close> call that prompts is split where it
  awaits: the prompt is out (\<open>am_prompting\<close>), the rendezvous is registered (\<open>am_waits\<close>), its
  outcome is fixed by the first of answer, timeout and abort, and \<open>settle\<close> finishes it. A
  \<open>resolve\<close> call is split at its audit write (\<open>am_resolving\<close>). Any number of calls interleave;
  the process may restart. \<open>am_answers\<close> and \<open>am_results\<close> are history: the choices users gave
  (after the downgrade) and what prompting gates returned.
\<close>

section \<open>Steps\<close>

record open_wait =
  wt_input :: gate_input
  wt_offered :: "approval_choice list"
  wt_outcome :: "wait_outcome option"

record approval_machine =
  am_service :: approval_state
  am_prompting :: "(nat \<times> gate_input \<times> approval_choice list) list"
  am_waits :: "(nat \<times> open_wait) list"
  am_resolving :: "(nat \<times> approval_choice) list"
  am_answers :: "(nat \<times> string \<times> approval_choice) list"
  am_results :: "(nat \<times> gate_result) list"

definition decide :: "nat \<Rightarrow> open_wait \<Rightarrow> wait_outcome \<Rightarrow> approval_machine \<Rightarrow> approval_machine" where
  "decide i w oc m =
     m\<lparr>am_service := wait_finish i (am_service m),
       am_waits := upd_assoc i (w\<lparr>wt_outcome := Some oc\<rparr>) (am_waits m)\<rparr>"

inductive approval_step :: "approval_env \<Rightarrow> approval_machine \<Rightarrow> approval_machine \<Rightarrow> bool" for env where
  call_decided:
    "gate_start env input (am_service m) = (Decided r, st') \<Longrightarrow>
     approval_step env m (m\<lparr>am_service := st'\<rparr>)"
| call_prompts:
    "gate_start env input (am_service m) = (AwaitResolution i off, st') \<Longrightarrow>
     approval_step env m (m\<lparr>am_service := st', am_prompting := (i, input, off) # am_prompting m\<rparr>)"
| registers:
    "(i, input, off) \<in> set (am_prompting m) \<Longrightarrow>
     wait_register i input off aborted (am_service m) = (oc, st') \<Longrightarrow>
     approval_step env m
       (m\<lparr>am_service := st', am_prompting := del_assoc i (am_prompting m),
          am_waits := upd_assoc i \<lparr>wt_input = input, wt_offered = off, wt_outcome = oc\<rparr> (am_waits m)\<rparr>)"
| answers:
    "resolve env i u requested (am_service m) = ((True, d), Some c, st') \<Longrightarrow>
     approval_step env m
       (m\<lparr>am_service := st', am_resolving := (i, c) # am_resolving m, am_answers := (i, u, c) # am_answers m\<rparr>)"
| answer_arrives:
    "(i, c) \<in> set (am_resolving m) \<Longrightarrow> map_of (am_waits m) i = Some w \<Longrightarrow> wt_outcome w = None \<Longrightarrow>
     approval_step env m (decide i w (Choice c) m)"
| times_out:
    "map_of (am_waits m) i = Some w \<Longrightarrow> wt_outcome w = None \<Longrightarrow> approval_step env m (decide i w TimedOut m)"
| aborts:
    "map_of (am_waits m) i = Some w \<Longrightarrow> wt_outcome w = None \<Longrightarrow> approval_step env m (decide i w RunAborted m)"
| settles:
    "map_of (am_waits m) i = Some w \<Longrightarrow> wt_outcome w = Some oc \<Longrightarrow>
     settle env i (wt_input w) oc (am_service m) = (r, st') \<Longrightarrow>
     approval_step env m
       (m\<lparr>am_service := st', am_waits := del_assoc i (am_waits m), am_results := (i, r) # am_results m\<rparr>)"
| revokes:
    "revoke env i u (am_service m) = (b, st') \<Longrightarrow> approval_step env m (m\<lparr>am_service := st'\<rparr>)"
| clears_session:
    "approval_step env m (m\<lparr>am_service := clear_session_memory sid (am_service m)\<rparr>)"
| time_passes:
    "approval_step env m (m\<lparr>am_service := (am_service m)\<lparr>ap_now := ap_now (am_service m) + n\<rparr>\<rparr>)"
| restarts:
    "approval_step env m
       (m\<lparr>am_service := on_module_init env ((am_service m)\<lparr>ap_sessionMemory := [], ap_pending := [], ap_activity := []\<rparr>),
          am_prompting := [], am_waits := [], am_resolving := []\<rparr>)"

definition init_machine :: approval_machine where
  "init_machine =
     \<lparr>am_service = \<lparr>ap_sessionMemory = [], ap_pending = [], ap_standing = [], ap_rows = [], ap_audit = [],
        ap_frames = [], ap_activity = [], ap_now = 0, ap_nextId = 0\<rparr>,
      am_prompting = [], am_waits = [], am_resolving = [], am_answers = [], am_results = []\<rparr>"

inductive approval_reachable :: "approval_env \<Rightarrow> approval_machine \<Rightarrow> bool" for env where
  start: "approval_reachable env init_machine"
| step: "approval_reachable env m \<Longrightarrow> approval_step env m m' \<Longrightarrow> approval_reachable env m'"

inductive_cases approval_step_cases: "approval_step env m m'"

section \<open>What the operations do to the rows\<close>

text \<open>Rows of a service: their ids are distinct and below the counter.\<close>

definition rows_ok :: "approval_state \<Rightarrow> bool" where
  "rows_ok st \<longleftrightarrow> distinct (map ar_id (ap_rows st)) \<and> (\<forall>r \<in> set (ap_rows st). ar_id r < ap_nextId st)"

lemma transition_frame [frame, simp]:
  "ap_pending (snd (ar_transition i f p st)) = ap_pending st"
  "ap_nextId (snd (ar_transition i f p st)) = ap_nextId st"
  "ap_now (snd (ar_transition i f p st)) = ap_now st"
  by (simp_all add: ar_transition_def)

lemma patch_row_simps [simp]:
  "ar_id (patch_row n p r) = ar_id r" "ar_userId (patch_row n p r) = ar_userId r"
  "ar_status (patch_row n p r) = rp_status p"
  by (simp_all add: patch_row_def)

lemma transition_rows:
  "ap_rows (snd (ar_transition i Pending p st)) =
     map (\<lambda>r. if ar_id r = i \<and> ar_status r = Pending then patch_row (ap_now st) p r else r) (ap_rows st)"
  by (simp add: ar_transition_def)

lemma pending_patch_simps [simp]:
  "rp_status pending_patch = Pending" "rp_status (pending_patch\<lparr>rp_status := x\<rparr>) = x"
  by (simp_all add: pending_patch_def)

lemma ar_create_simps [simp]:
  "fst (ar_create input p b st) = ap_nextId st"
  "ap_nextId (snd (ar_create input p b st)) = Suc (ap_nextId st)"
  "ap_pending (snd (ar_create input p b st)) = ap_pending st"
  by (simp_all add: ar_create_def)

lemma ar_create_rows:
  obtains r where "ap_rows (snd (ar_create input p b st)) = ap_rows st @ [r]" "ar_id r = ap_nextId st"
    "ar_userId r = gi_userId input" "ar_status r = rp_status p"
  unfolding ar_create_def by simp

text \<open>What a call of \<open>gate\<close> does up to its wait: nothing to the rows, or one new row of the
  caller, pending exactly when the call now waits.\<close>

definition gate_opens :: "gate_input \<Rightarrow> gate_step \<Rightarrow> approval_state \<Rightarrow> approval_state \<Rightarrow> bool" where
  "gate_opens input step st st' \<longleftrightarrow> ap_pending st' = ap_pending st \<and>
     (ap_rows st' = ap_rows st \<and> ap_nextId st' = ap_nextId st \<and> (\<forall>i off. step \<noteq> AwaitResolution i off) \<or>
      (\<exists>r. ap_rows st' = ap_rows st @ [r] \<and> ar_id r = ap_nextId st \<and> ar_userId r = gi_userId input \<and>
         ap_nextId st' = Suc (ap_nextId st) \<and>
         (ar_status r = Denied \<and> (\<forall>i off. step \<noteq> AwaitResolution i off) \<or>
          ar_status r = Pending \<and>
          step = AwaitResolution (ap_nextId st) (offered_scopes (gi_scopeKind input) (gi_extractorFailed input)))))"

lemma open_prompt_opens:
  assumes "rows_ok st" and "open_prompt env input reason st = (step, st')"
  shows "gate_opens input step st st'"
proof -
  obtain r where r: "ap_rows (snd (ar_create input pending_patch False st)) = ap_rows st @ [r]"
    "ar_id r = ap_nextId st" "ar_userId r = gi_userId input" "ar_status r = Pending"
    by (rule ar_create_rows [of input pending_patch False st]) simp
  have old: "map (\<lambda>x. if ar_id x = ap_nextId st \<and> ar_status x = Pending then f x else x) (ap_rows st) = ap_rows st" for f
    using assms(1) by (intro map_idI) (auto simp: rows_ok_def)
  obtain st1 where c: "ar_create input pending_patch False st = (ap_nextId st, st1)"
    by (metis ar_create_simps(1) prod.collapse)
  have st1: "ap_rows st1 = ap_rows st @ [r]" "ap_nextId st1 = Suc (ap_nextId st)" "ap_pending st1 = ap_pending st"
    using c r(1) ar_create_simps(2,3) [of input pending_patch False st] by simp_all
  show ?thesis
    using assms(2) c st1 r(2-4)
    by (auto simp: open_prompt_def Let_def gate_opens_def transition_rows old split: if_splits)
qed

lemma gate_start_opens:
  assumes ok: "rows_ok st" and g: "gate_start env input st = (step, st')"
  shows "gate_opens input step st st'"
proof -
  obtain l st1 where l: "lookup input st = (l, st1)" by fastforce
  note fr = lookup_frame [OF l]
  have ok1: "rows_ok st1" using ok fr by (simp add: rows_ok_def)
  have eq: "gate_opens input x st1 st' \<longleftrightarrow> gate_opens input x st st'" for x
    using fr by (simp add: gate_opens_def)
  have created: "gate_opens input (Decided x) st1 s"
    if "ap_rows s = ap_rows (snd (ar_create input p True st1))" "ap_pending s = ap_pending st1"
      "ap_nextId s = Suc (ap_nextId st1)" "rp_status p = Denied" for x s p
    using that ar_create_rows [of input p True st1] by (auto simp: gate_opens_def)
  show ?thesis
  proof (cases l)
    case (LookupAllow h)
    then show ?thesis using g l fr by (auto simp: gate_start_def gate_opens_def)
  next
    case (LookupDeny h)
    then obtain x where x: "standing_deny env input h st1 = (x, st')" "step = Decided x"
      using g l by (auto simp: gate_start_def apfst_def map_prod_def split: prod.splits)
    have "gate_opens input (Decided x) st1 st'"
      by (rule created [where p = "\<lparr>rp_status = Denied, rp_scope = Some (lh_scope h),
            rp_resolutionReason = Some (if lh_store h = PersistentStore then ''standing_deny'' else ''session_deny''),
            rp_memory = Some (store_name (lh_store h), lh_key h)\<rparr>"])
        (use x(1) in \<open>auto simp: standing_deny_def Let_def ar_create_def\<close>)
    then show ?thesis by (simp add: eq x(2))
  next
    case (LookupPrompt reason)
    show ?thesis
    proof (cases "gi_isSubAgent input \<or> gi_sessionId input = None \<or> gi_sessionId input = Some []")
      case True
      then obtain x rs msg where x: "auto_deny env input rs msg st1 = (x, st')" "step = Decided x"
        using g l LookupPrompt
        by (auto simp: gate_start_def apfst_def map_prod_def split: prod.splits if_splits)
      have "gate_opens input (Decided x) st1 st'"
        by (rule created [where p = "pending_patch\<lparr>rp_status := Denied, rp_resolutionReason := Some rs\<rparr>"])
          (use x(1) in \<open>auto simp: auto_deny_def ar_create_def pending_patch_def\<close>)
      then show ?thesis by (simp add: eq x(2))
    next
      case False
      then have "open_prompt env input reason st1 = (step, st')"
        using g l LookupPrompt by (auto simp: gate_start_def)
      from open_prompt_opens [OF ok1 this] show ?thesis by (simp add: eq)
    qed
  qed
qed

text \<open>A service that only gained rows, none of them approved.\<close>

definition grows :: "approval_state \<Rightarrow> approval_state \<Rightarrow> bool" where
  "grows st st' \<longleftrightarrow> rows_ok st' \<and> ap_pending st' = ap_pending st \<and> ap_nextId st \<le> ap_nextId st' \<and>
     set (ap_rows st) \<subseteq> set (ap_rows st') \<and>
     (\<forall>r \<in> set (ap_rows st'). r \<in> set (ap_rows st) \<or> ar_status r \<noteq> Approved)"

lemma rows_ok_snoc:
  assumes "rows_ok st" and "ap_rows st' = ap_rows st @ [r]" and "ar_id r = ap_nextId st"
    and "ap_nextId st' = Suc (ap_nextId st)"
  shows "rows_ok st'"
  using assms unfolding rows_ok_def by (auto simp: less_Suc_eq)

lemma gate_opens_grows: "gate_opens input step st st' \<Longrightarrow> rows_ok st \<Longrightarrow> grows st st'"
  by (auto simp: gate_opens_def grows_def rows_ok_snoc) (simp add: rows_ok_def)

lemma grows_same:
  "rows_ok st \<Longrightarrow> ap_rows st' = ap_rows st \<Longrightarrow> ap_nextId st' = ap_nextId st \<Longrightarrow>
   ap_pending st' = ap_pending st \<Longrightarrow> grows st st'"
  by (simp add: grows_def rows_ok_def)

lemma resolve_same:
  "resolve env i u c st = (reply, x, st') \<Longrightarrow>
   ap_rows st' = ap_rows st \<and> ap_nextId st' = ap_nextId st \<and> ap_pending st' = ap_pending st"
  by (auto simp: resolve_def split: option.splits if_splits prod.splits)

lemma resolve_ok:
  assumes "resolve env i u requested st = ((True, d), Some c, st')"
  obtains e where "map_of (ap_pending st) i = Some e" "gi_userId (pe_input e) = u"
    "c = fst (downgrade_choice requested (pe_offered e))"
  using assms by (auto simp: resolve_def split: option.splits if_splits prod.splits)

lemma remove_session_same:
  "remove_session_entry sid key st = (b, st') \<Longrightarrow>
   ap_rows st' = ap_rows st \<and> ap_nextId st' = ap_nextId st \<and> ap_pending st' = ap_pending st"
  by (auto simp: remove_session_entry_def set_bucket_def split: option.splits)

lemma revoke_same:
  "revoke env i u st = (b, st') \<Longrightarrow>
   ap_rows st' = ap_rows st \<and> ap_nextId st' = ap_nextId st \<and> ap_pending st' = ap_pending st"
  by (auto simp: revoke_def Let_def uta_delete_by_key_def
      split: option.splits if_splits prod.splits dest: remove_session_same)

lemma wait_register_same:
  assumes "wait_register i input off ab st = (oc, st')"
  shows "ap_rows st' = ap_rows st \<and> ap_nextId st' = ap_nextId st"
    and "oc \<noteq> Some (Choice c)"
    and "(j, e) \<in> set (ap_pending st') \<Longrightarrow>
      (j, e) \<in> set (ap_pending st) \<and> j \<noteq> i \<or>
      j = i \<and> e = \<lparr>pe_input = input, pe_offered = off\<rparr> \<and> oc = None \<or> (j, e) \<in> set (ap_pending st) \<and> oc = None"
  using assms set_upd_assoc_subset [of i "\<lparr>pe_input = input, pe_offered = off\<rparr>" "ap_pending st"]
  by (auto simp: wait_register_def set_del_assoc split: if_splits)

lemma wait_finish_same:
  "ap_rows (wait_finish i st) = ap_rows st" "ap_nextId (wait_finish i st) = ap_nextId st"
  "set (ap_pending (wait_finish i st)) = {p \<in> set (ap_pending st). fst p \<noteq> i}"
  by (simp_all add: wait_finish_def set_del_assoc)

lemma remember_choice_same:
  "remember_choice input c st = (m, st') \<Longrightarrow>
   ap_rows st' = ap_rows st \<and> ap_nextId st' = ap_nextId st \<and> ap_pending st' = ap_pending st"
  by (auto simp: remember_choice_def Let_def write_session_memory_def split: if_splits)

definition row_update :: "nat \<Rightarrow> nat \<Rightarrow> row_patch \<Rightarrow> approval_row \<Rightarrow> approval_row" where
  "row_update i now p x = (if ar_id x = i \<and> ar_status x = Pending then patch_row now p x else x)"

lemma transition_row_update:
  "ap_rows (snd (ar_transition i Pending p st)) = map (row_update i (ap_now st) p) (ap_rows st)"
  by (simp add: ar_transition_def row_update_def)

lemma row_update_simps [simp]:
  "ar_id (row_update i now p x) = ar_id x" "ar_userId (row_update i now p x) = ar_userId x"
  "ar_status (row_update i now p x) =
     (if ar_id x = i \<and> ar_status x = Pending then rp_status p else ar_status x)"
  by (simp_all add: row_update_def)

lemma row_update_other: "ar_id x \<noteq> i \<or> ar_status x \<noteq> Pending \<Longrightarrow> row_update i now p x = x"
  by (auto simp: row_update_def)

lemma settle_rows:
  assumes "settle env i input oc st = (r, st')"
  obtains now p where "ap_nextId st' = ap_nextId st" "ap_pending st' = ap_pending st"
    "ap_rows st' = map (row_update i now p) (ap_rows st)"
    "r = Allowed \<longleftrightarrow> rp_status p = Approved"
    "r = Allowed \<Longrightarrow> \<exists>c. oc = Choice c \<and> is_allow c"
proof (cases oc)
  case (Choice c)
  obtain m st1 where m: "remember_choice input c st = (m, st1)" by fastforce
  let ?p = "\<lparr>rp_status = (if is_allow c then Approved else Denied), rp_scope = Some (choice_scope c),
             rp_resolutionReason = None, rp_memory = m\<rparr>"
  have "ap_rows st' = map (row_update i (ap_now st1) ?p) (ap_rows st)" "ap_nextId st' = ap_nextId st"
    "ap_pending st' = ap_pending st" "r = Allowed \<longleftrightarrow> is_allow c"
    using assms Choice m remember_choice_same [OF m]
    by (auto simp: settle_def settle_choice_def Let_def transition_row_update split: if_splits)
  then show thesis using that [of "ap_now st1" ?p] Choice by simp
next
  case TimedOut
  let ?p = "pending_patch\<lparr>rp_status := Expired, rp_resolutionReason := Some ''timeout''\<rparr>"
  have "ap_rows st' = map (row_update i (ap_now st) ?p) (ap_rows st)" "ap_nextId st' = ap_nextId st"
    "ap_pending st' = ap_pending st" "r \<noteq> Allowed"
    using assms TimedOut by (auto simp: settle_def settle_system_def Let_def transition_row_update)
  then show thesis using that [of "ap_now st" ?p] by (simp add: pending_patch_def)
next
  case RunAborted
  let ?p = "pending_patch\<lparr>rp_status := Cancelled, rp_resolutionReason := Some ''run_aborted''\<rparr>"
  have "ap_rows st' = map (row_update i (ap_now st) ?p) (ap_rows st)" "ap_nextId st' = ap_nextId st"
    "ap_pending st' = ap_pending st" "r \<noteq> Allowed"
    using assms RunAborted by (auto simp: settle_def settle_system_def Let_def transition_row_update)
  then show thesis using that [of "ap_now st" ?p] by (simp add: pending_patch_def)
qed

lemma on_module_init_rows:
  "ap_nextId (on_module_init env st) = ap_nextId st"
  "ap_pending (on_module_init env st) = ap_pending st"
  "map ar_id (ap_rows (on_module_init env st)) = map ar_id (ap_rows st)"
  "r \<in> set (ap_rows (on_module_init env st)) \<Longrightarrow> r \<in> set (ap_rows st) \<or> ar_status r = Expired"
  "r \<in> set (ap_rows st) \<Longrightarrow> ar_status r \<noteq> Pending \<Longrightarrow> r \<in> set (ap_rows (on_module_init env st))"
  by (auto simp: on_module_init_def ar_expire_all_def Let_def comp_def image_iff split: if_splits)

section \<open>The invariant\<close>

definition asked :: "approval_machine \<Rightarrow> (nat \<times> gate_input \<times> approval_choice list) set" where
  "asked m = set (am_prompting m) \<union> (\<lambda>(i, w). (i, wt_input w, wt_offered w)) ` set (am_waits m)"

definition ask_ok :: "approval_state \<Rightarrow> nat \<Rightarrow> gate_input \<Rightarrow> approval_choice list \<Rightarrow> bool" where
  "ask_ok st i input off \<longleftrightarrow> off = offered_scopes (gi_scopeKind input) (gi_extractorFailed input) \<and>
     (\<exists>r \<in> set (ap_rows st). ar_id r = i \<and> ar_userId r = gi_userId input \<and> ar_status r = Pending)"

definition ids_ok :: "approval_machine \<Rightarrow> bool" where
  "ids_ok m \<longleftrightarrow> rows_ok (am_service m) \<and> distinct (map fst (am_prompting m)) \<and> distinct (map fst (am_waits m)) \<and>
     fst ` set (am_prompting m) \<inter> fst ` set (am_waits m) = {} \<and>
     (\<forall>i input off. (i, input, off) \<in> asked m \<longrightarrow> ask_ok (am_service m) i input off) \<and>
     (\<forall>i e. (i, e) \<in> set (ap_pending (am_service m)) \<longrightarrow>
        (\<exists>w. (i, w) \<in> set (am_waits m) \<and> wt_outcome w = None \<and>
           pe_input e = wt_input w \<and> pe_offered e = wt_offered w))"

definition answers_ok :: "approval_machine \<Rightarrow> bool" where
  "answers_ok m \<longleftrightarrow>
     (\<forall>i u c. (i, u, c) \<in> set (am_answers m) \<longrightarrow> i < ap_nextId (am_service m) \<and> i \<notin> fst ` set (am_prompting m) \<and>
        (\<forall>w. (i, w) \<in> set (am_waits m) \<longrightarrow> gi_userId (wt_input w) = u \<and> c \<in> set (wt_offered w))) \<and>
     (\<forall>i c. (i, c) \<in> set (am_resolving m) \<longrightarrow> (\<exists>u. (i, u, c) \<in> set (am_answers m))) \<and>
     (\<forall>i w c. (i, w) \<in> set (am_waits m) \<longrightarrow> wt_outcome w = Some (Choice c) \<longrightarrow>
        (\<exists>u. (i, u, c) \<in> set (am_answers m)))"

definition approved_ok :: "approval_machine \<Rightarrow> bool" where
  "approved_ok m \<longleftrightarrow>
     (\<forall>r \<in> set (ap_rows (am_service m)). ar_status r = Approved \<longrightarrow>
        (\<exists>c. (ar_id r, ar_userId r, c) \<in> set (am_answers m) \<and> is_allow c)) \<and>
     (\<forall>i. (i, Allowed) \<in> set (am_results m) \<longrightarrow>
        (\<exists>r \<in> set (ap_rows (am_service m)). ar_id r = i \<and> ar_status r = Approved))"

definition machine_ok :: "approval_machine \<Rightarrow> bool" where
  "machine_ok m \<longleftrightarrow> ids_ok m \<and> answers_ok m \<and> approved_ok m"

lemma ids_pending:
  "ids_ok m \<Longrightarrow> (i, e) \<in> set (ap_pending (am_service m)) \<Longrightarrow>
   \<exists>w. (i, w) \<in> set (am_waits m) \<and> wt_outcome w = None \<and>
     pe_input e = wt_input w \<and> pe_offered e = wt_offered w"
  unfolding ids_ok_def by simp

lemma ids_waits_unique:
  "ids_ok m \<Longrightarrow> (i, w) \<in> set (am_waits m) \<Longrightarrow> (i, w') \<in> set (am_waits m) \<Longrightarrow> w' = w"
  unfolding ids_ok_def by (metis eq_key_imp_eq_value)

lemma answers_choice:
  "answers_ok m \<Longrightarrow> (i, w) \<in> set (am_waits m) \<Longrightarrow> wt_outcome w = Some (Choice c) \<Longrightarrow>
   \<exists>u. (i, u, c) \<in> set (am_answers m)"
  unfolding answers_ok_def by simp

lemma answers_user:
  "answers_ok m \<Longrightarrow> (i, u, c) \<in> set (am_answers m) \<Longrightarrow> (i, w) \<in> set (am_waits m) \<Longrightarrow>
   gi_userId (wt_input w) = u"
  unfolding answers_ok_def by simp

lemma ids_disjoint: "ids_ok m \<Longrightarrow> (i, w) \<in> set (am_waits m) \<Longrightarrow> i \<notin> fst ` set (am_prompting m)"
  unfolding ids_ok_def by (metis IntI disjoint_iff fst_conv imageI)

lemma ids_asked: "ids_ok m \<Longrightarrow> (i, input, off) \<in> asked m \<Longrightarrow> ask_ok (am_service m) i input off"
  unfolding ids_ok_def by simp

lemma answered_asked: "answers_ok m \<Longrightarrow> (i, u, c) \<in> set (am_answers m) \<Longrightarrow> i \<notin> fst ` set (am_prompting m)"
  unfolding answers_ok_def by simp

lemma asked_waits: "(i, w) \<in> set (am_waits m) \<Longrightarrow> (i, wt_input w, wt_offered w) \<in> asked m"
  unfolding asked_def by force

lemma ask_ok_grows: "grows st st' \<Longrightarrow> ask_ok st i input off \<Longrightarrow> ask_ok st' i input off"
  by (auto simp: grows_def ask_ok_def)

lemma asked_service [simp]: "asked (m\<lparr>am_service := st'\<rparr>) = asked m"
  by (simp add: asked_def)

lemma machine_ok_grows [inv_intro]:
  assumes "machine_ok m" and g: "grows (am_service m) st'"
  shows "machine_ok (m\<lparr>am_service := st'\<rparr>)"
proof -
  have ids: "ids_ok m" and ans: "answers_ok m" and app: "approved_ok m"
    using assms(1) by (auto simp: machine_ok_def)
  have "rows_ok st'" "ap_pending st' = ap_pending (am_service m)"
    and le: "ap_nextId (am_service m) \<le> ap_nextId st'"
    and sub: "set (ap_rows (am_service m)) \<subseteq> set (ap_rows st')"
    and new: "\<forall>r \<in> set (ap_rows st'). r \<in> set (ap_rows (am_service m)) \<or> ar_status r \<noteq> Approved"
    using g by (auto simp: grows_def)
  then have "ids_ok (m\<lparr>am_service := st'\<rparr>)"
    using ids ask_ok_grows [OF g] unfolding ids_ok_def by simp
  moreover have "answers_ok (m\<lparr>am_service := st'\<rparr>)"
    using ans le unfolding answers_ok_def by (simp, meson less_le_trans)
  moreover have "approved_ok (m\<lparr>am_service := st'\<rparr>)"
    using app sub new unfolding approved_ok_def by (simp, blast)
  ultimately show ?thesis by (simp add: machine_ok_def)
qed

lemma machine_ok_prompts:
  assumes ok: "machine_ok m" and "rows_ok st'"
    and op: "gate_opens input (AwaitResolution i off) (am_service m) st'"
  shows "machine_ok (m\<lparr>am_service := st', am_prompting := (i, input, off) # am_prompting m\<rparr>)"
proof -
  have ids: "ids_ok m" and ans: "answers_ok m" and app: "approved_ok m"
    using ok by (auto simp: machine_ok_def)
  have g: "grows (am_service m) st'" using ids gate_opens_grows [OF op] by (simp add: ids_ok_def)
  have ok': "machine_ok (m\<lparr>am_service := st'\<rparr>)" using ok g by (rule machine_ok_grows)
  have i: "i = ap_nextId (am_service m)" and ask: "ask_ok st' i input off"
    using op by (auto simp: gate_opens_def ask_ok_def)
  have fresh: "i \<notin> fst ` set (am_prompting m)" "i \<notin> fst ` set (am_waits m)"
  proof -
    have "ask_ok (am_service m) j inp o' \<Longrightarrow> j < ap_nextId (am_service m)" for j inp o'
      using ids by (auto simp: ask_ok_def ids_ok_def rows_ok_def)
    then have "(j, inp, o') \<in> asked m \<Longrightarrow> j \<noteq> i" for j inp o'
      using ids i unfolding ids_ok_def by blast
    then show "i \<notin> fst ` set (am_prompting m)" "i \<notin> fst ` set (am_waits m)"
      by (force simp: asked_def)+
  qed
  have notans: "(i, u, c) \<notin> set (am_answers m)" for u c
    using ans i unfolding answers_ok_def by blast
  have "ids_ok (m\<lparr>am_service := st', am_prompting := (i, input, off) # am_prompting m\<rparr>)"
    using ok' fresh ask unfolding machine_ok_def ids_ok_def asked_def by auto
  moreover have "answers_ok (m\<lparr>am_service := st', am_prompting := (i, input, off) # am_prompting m\<rparr>)"
    using ok' notans unfolding machine_ok_def answers_ok_def by auto
  moreover have "approved_ok (m\<lparr>am_service := st', am_prompting := (i, input, off) # am_prompting m\<rparr>)"
    using ok' unfolding machine_ok_def approved_ok_def by simp
  ultimately show ?thesis by (simp add: machine_ok_def)
qed

text \<open>Registering moves an asked call from prompting to waiting.\<close>

lemma machine_ok_registers:
  assumes ok: "machine_ok m" and mem: "(i, input, off) \<in> set (am_prompting m)"
    and reg: "wait_register i input off ab (am_service m) = (oc, st')"
  shows "machine_ok (m\<lparr>am_service := st', am_prompting := del_assoc i (am_prompting m),
          am_waits := upd_assoc i \<lparr>wt_input = input, wt_offered = off, wt_outcome = oc\<rparr> (am_waits m)\<rparr>)"
    (is "machine_ok ?m")
proof -
  have ids: "ids_ok m" and ans: "answers_ok m" and app: "approved_ok m"
    using ok by (auto simp: machine_ok_def)
  let ?w = "\<lparr>wt_input = input, wt_offered = off, wt_outcome = oc\<rparr>"
  note same = wait_register_same(1,2) [OF reg]
  have inP: "i \<in> fst ` set (am_prompting m)" using mem by force
  have nw: "i \<notin> fst ` set (am_waits m)" using ids_disjoint [OF ids, of i] inP by auto
  have waits: "set (am_waits ?m) = insert (i, ?w) (set (am_waits m))"
    using ids nw by (auto simp: ids_ok_def set_upd_assoc)
  have notans: "(i, u, c) \<notin> set (am_answers m)" for u c
    using answered_asked [OF ans, of i u c] inP by blast
  have asked: "asked ?m \<subseteq> asked m"
    using mem unfolding asked_def waits by (auto simp: set_del_assoc)
  have ask: "ask_ok (am_service ?m) j inp o' \<longleftrightarrow> ask_ok (am_service m) j inp o'" for j inp o'
    using same by (simp add: ask_ok_def)
  have pend: "\<exists>w. (j, w) \<in> insert (i, ?w) (set (am_waits m)) \<and> wt_outcome w = None \<and>
      pe_input e = wt_input w \<and> pe_offered e = wt_offered w"
    if new: "(j, e) \<in> set (ap_pending st')" for j e
  proof -
    consider "(j, e) \<in> set (ap_pending (am_service m))"
      | "j = i" "e = \<lparr>pe_input = input, pe_offered = off\<rparr>" "oc = None"
      using wait_register_same(3) [OF reg new] by blast
    then show ?thesis
    proof cases
      case 1
      then show ?thesis using ids_pending [OF ids 1] by blast
    next
      case 2
      then show ?thesis by auto
    qed
  qed
  have "ids_ok ?m"
    unfolding ids_ok_def
  proof (intro conjI)
    show "rows_ok (am_service ?m)" using ids same by (simp add: ids_ok_def rows_ok_def)
    show "distinct (map fst (am_prompting ?m))" "distinct (map fst (am_waits ?m))"
      using ids by (simp_all add: ids_ok_def)
    show "fst ` set (am_prompting ?m) \<inter> fst ` set (am_waits ?m) = {}"
      using ids unfolding waits by (auto simp: ids_ok_def set_del_assoc)
    show "\<forall>j inp o'. (j, inp, o') \<in> asked ?m \<longrightarrow> ask_ok (am_service ?m) j inp o'"
      using ids_asked [OF ids] asked ask by blast
    show "\<forall>j e. (j, e) \<in> set (ap_pending (am_service ?m)) \<longrightarrow>
        (\<exists>w. (j, w) \<in> set (am_waits ?m) \<and> wt_outcome w = None \<and> pe_input e = wt_input w \<and> pe_offered e = wt_offered w)"
      using pend unfolding waits by simp
  qed
  moreover have "answers_ok ?m"
    unfolding answers_ok_def
  proof (intro conjI allI impI)
    fix j u c
    assume a: "(j, u, c) \<in> set (am_answers ?m)"
    then have ji: "j \<noteq> i" using notans by auto
    show "j < ap_nextId (am_service ?m)" using a ans same unfolding answers_ok_def by simp
    show "j \<notin> fst ` set (am_prompting ?m)" using a ans unfolding answers_ok_def by (auto simp: set_del_assoc)
    show "gi_userId (wt_input w) = u" "c \<in> set (wt_offered w)" if "(j, w) \<in> set (am_waits ?m)" for w
      using that a ji ans unfolding waits answers_ok_def by simp_all
  next
    fix j c
    assume "(j, c) \<in> set (am_resolving ?m)"
    then show "\<exists>u. (j, u, c) \<in> set (am_answers ?m)" using ans unfolding answers_ok_def by simp
  next
    fix j w c
    assume "(j, w) \<in> set (am_waits ?m)" "wt_outcome w = Some (Choice c)"
    then show "\<exists>u. (j, u, c) \<in> set (am_answers ?m)"
      using ans same unfolding waits answers_ok_def by auto
  qed
  moreover have "approved_ok ?m"
    using app same unfolding approved_ok_def by simp
  ultimately show ?thesis by (simp add: machine_ok_def)
qed

lemma machine_ok_answers:
  assumes ok: "machine_ok m" and res: "resolve env i u requested (am_service m) = ((True, d), Some c, st')"
  shows "machine_ok (m\<lparr>am_service := st', am_resolving := (i, c) # am_resolving m,
            am_answers := (i, u, c) # am_answers m\<rparr>)" (is "machine_ok ?m")
proof -
  have "rows_ok (am_service m)" using ok by (simp add: machine_ok_def ids_ok_def)
  then have "machine_ok (m\<lparr>am_service := st'\<rparr>)"
    using resolve_same [OF res] by (intro machine_ok_grows [OF ok] grows_same) auto
  then have ids: "ids_ok (m\<lparr>am_service := st'\<rparr>)" and ans: "answers_ok (m\<lparr>am_service := st'\<rparr>)"
    and app: "approved_ok (m\<lparr>am_service := st'\<rparr>)"
    by (auto simp: machine_ok_def)
  from res obtain e where e: "map_of (ap_pending (am_service m)) i = Some e" "gi_userId (pe_input e) = u"
    "c = fst (downgrade_choice requested (pe_offered e))"
    by (rule resolve_ok)
  have "(i, e) \<in> set (ap_pending st')" using map_of_SomeD [OF e(1)] resolve_same [OF res] by simp
  then obtain w where w: "(i, w) \<in> set (am_waits m)" "pe_input e = wt_input w" "pe_offered e = wt_offered w"
    using ids_pending [OF ids, of i e] by auto
  have uniq: "(i, w') \<in> set (am_waits m) \<Longrightarrow> w' = w" for w'
    using ids_waits_unique [OF ids, of i w w'] w(1) by simp
  have "(i, wt_input w, wt_offered w) \<in> asked (m\<lparr>am_service := st'\<rparr>)" using asked_waits [OF w(1)] by simp
  then have ask: "ask_ok st' i (wt_input w) (wt_offered w)" using ids_asked [OF ids] by simp
  moreover have "rows_ok st'" using ids by (simp add: ids_ok_def)
  ultimately have lt: "i < ap_nextId st'" by (auto simp: ask_ok_def rows_ok_def)
  have "c \<in> set (wt_offered w)"
    using ask e(3) w(3) downgrade_best by (auto simp: ask_ok_def best_offered_def)
  moreover have "gi_userId (wt_input w) = u" using e(2) w(2) by simp
  moreover have "i \<notin> fst ` set (am_prompting m)" using ids_disjoint [OF ids, of i w] w(1) by simp
  ultimately have new: "i < ap_nextId st' \<and> i \<notin> fst ` set (am_prompting m) \<and>
      (\<forall>w. (i, w) \<in> set (am_waits m) \<longrightarrow> gi_userId (wt_input w) = u \<and> c \<in> set (wt_offered w))"
    using lt uniq by blast
  have "answers_ok ?m"
    unfolding answers_ok_def
  proof (intro conjI allI impI)
    fix j v c'
    assume "(j, v, c') \<in> set (am_answers ?m)"
    then have "(j, v, c') = (i, u, c) \<or> (j, v, c') \<in> set (am_answers m)" by auto
    then have *: "j < ap_nextId st' \<and> j \<notin> fst ` set (am_prompting m) \<and>
      (\<forall>w. (j, w) \<in> set (am_waits m) \<longrightarrow> gi_userId (wt_input w) = v \<and> c' \<in> set (wt_offered w))"
      using new ans unfolding answers_ok_def by (elim disjE) simp_all
    then show "j < ap_nextId (am_service ?m)" "j \<notin> fst ` set (am_prompting ?m)" by simp_all
    show "gi_userId (wt_input w') = v" "c' \<in> set (wt_offered w')" if "(j, w') \<in> set (am_waits ?m)" for w'
      using * that by simp_all
  next
    fix j c'
    assume "(j, c') \<in> set (am_resolving ?m)"
    then have "j = i \<and> c' = c \<or> (\<exists>u. (j, u, c') \<in> set (am_answers m))"
      using ans unfolding answers_ok_def by (simp, blast)
    then show "\<exists>u. (j, u, c') \<in> set (am_answers ?m)" by auto
  next
    fix j w' c'
    assume "(j, w') \<in> set (am_waits ?m)" "wt_outcome w' = Some (Choice c')"
    then show "\<exists>u. (j, u, c') \<in> set (am_answers ?m)" using ans unfolding answers_ok_def by (simp, blast)
  qed
  moreover have "ids_ok ?m" using ids unfolding ids_ok_def asked_def by simp
  moreover have "approved_ok ?m" using app unfolding approved_ok_def by (simp, blast)
  ultimately show ?thesis by (simp add: machine_ok_def)
qed

text \<open>Fixing the outcome of an open wait.\<close>

lemma machine_ok_decide:
  assumes ok: "machine_ok m" and w: "map_of (am_waits m) i = Some w"
    and choice: "\<And>c. oc = Choice c \<Longrightarrow> \<exists>u. (i, u, c) \<in> set (am_answers m)"
  shows "machine_ok (decide i w oc m)" (is "machine_ok ?m")
proof -
  have ids: "ids_ok m" and ans: "answers_ok m" and app: "approved_ok m"
    using ok by (auto simp: machine_ok_def)
  have mem: "(i, w) \<in> set (am_waits m)" using w by (rule map_of_SomeD)
  let ?w = "w\<lparr>wt_outcome := Some oc\<rparr>"
  have waits: "set (am_waits ?m) = insert (i, ?w) {p \<in> set (am_waits m). fst p \<noteq> i}"
    using ids by (simp add: decide_def ids_ok_def set_upd_assoc)
  have svc: "ap_rows (am_service ?m) = ap_rows (am_service m)" "ap_nextId (am_service ?m) = ap_nextId (am_service m)"
    "set (ap_pending (am_service ?m)) = {p \<in> set (ap_pending (am_service m)). fst p \<noteq> i}"
    by (simp_all add: decide_def wait_finish_same)
  have rest: "am_prompting ?m = am_prompting m" "am_resolving ?m = am_resolving m"
    "am_answers ?m = am_answers m" "am_results ?m = am_results m"
    by (simp_all add: decide_def)
  have asked: "asked ?m \<subseteq> asked m"
    unfolding asked_def waits rest using mem by force
  have ask: "ask_ok (am_service ?m) j inp o' \<longleftrightarrow> ask_ok (am_service m) j inp o'" for j inp o'
    using svc by (simp add: ask_ok_def)
  have "ids_ok ?m"
    unfolding ids_ok_def rest
  proof (intro conjI)
    show "rows_ok (am_service ?m)" using ids svc by (simp add: ids_ok_def rows_ok_def)
    show "distinct (map fst (am_prompting m))" using ids by (simp add: ids_ok_def)
    show "distinct (map fst (am_waits ?m))" using ids by (simp add: ids_ok_def decide_def)
    show "fst ` set (am_prompting m) \<inter> fst ` set (am_waits ?m) = {}"
    proof -
      have "fst ` set (am_waits ?m) \<subseteq> fst ` set (am_waits m)" using mem unfolding waits by force
      moreover have "fst ` set (am_prompting m) \<inter> fst ` set (am_waits m) = {}"
        using ids unfolding ids_ok_def by (elim conjE) assumption
      ultimately show ?thesis by blast
    qed
    show "\<forall>j inp o'. (j, inp, o') \<in> asked ?m \<longrightarrow> ask_ok (am_service ?m) j inp o'"
      using ids_asked [OF ids] asked ask by blast
    show "\<forall>j e. (j, e) \<in> set (ap_pending (am_service ?m)) \<longrightarrow>
        (\<exists>w. (j, w) \<in> set (am_waits ?m) \<and> wt_outcome w = None \<and> pe_input e = wt_input w \<and> pe_offered e = wt_offered w)"
    proof (intro allI impI)
      fix j e
      assume "(j, e) \<in> set (ap_pending (am_service ?m))"
      then have "(j, e) \<in> set (ap_pending (am_service m))" "j \<noteq> i" unfolding svc by auto
      from ids_pending [OF ids this(1)] this(2)
      show "\<exists>w. (j, w) \<in> set (am_waits ?m) \<and> wt_outcome w = None \<and> pe_input e = wt_input w \<and> pe_offered e = wt_offered w"
        unfolding waits by auto
    qed
  qed
  moreover have "answers_ok ?m"
    unfolding answers_ok_def rest svc
  proof (intro conjI allI impI)
    fix j u c
    assume a: "(j, u, c) \<in> set (am_answers m)"
    show "j < ap_nextId (am_service m)" "j \<notin> fst ` set (am_prompting m)"
      using a ans unfolding answers_ok_def by simp_all
    show "gi_userId (wt_input v) = u" "c \<in> set (wt_offered v)" if "(j, v) \<in> set (am_waits ?m)" for v
      using that a ans mem unfolding waits answers_ok_def by auto
  next
    fix j c
    assume "(j, c) \<in> set (am_resolving m)"
    then show "\<exists>u. (j, u, c) \<in> set (am_answers m)" using ans unfolding answers_ok_def by simp
  next
    fix j v c
    assume "(j, v) \<in> set (am_waits ?m)" "wt_outcome v = Some (Choice c)"
    then show "\<exists>u. (j, u, c) \<in> set (am_answers m)"
      using ans choice unfolding waits answers_ok_def by auto
  qed
  moreover have "approved_ok ?m" using app unfolding approved_ok_def rest svc by simp
  ultimately show ?thesis by (simp add: machine_ok_def)
qed

text \<open>Settling decides the one pending row of the wait.\<close>

lemma disjoint_mono: "B \<subseteq> B' \<Longrightarrow> A \<inter> B' = {} \<Longrightarrow> A \<inter> B = {}"
  by blast

lemma rows_unique:
  "rows_ok st \<Longrightarrow> r \<in> set (ap_rows st) \<Longrightarrow> r' \<in> set (ap_rows st) \<Longrightarrow> ar_id r = ar_id r' \<Longrightarrow> r = r'"
  unfolding rows_ok_def by (metis distinct_map inj_on_eq_iff)

lemma map_row_update_id: "map ar_id (map (row_update i now p) rows) = map ar_id rows"
  by simp

lemma machine_ok_settles:
  assumes ok: "machine_ok m" and w: "map_of (am_waits m) i = Some w" and oc: "wt_outcome w = Some oc"
    and settle: "settle env i (wt_input w) oc (am_service m) = (r, st')"
  shows "machine_ok (m\<lparr>am_service := st', am_waits := del_assoc i (am_waits m), am_results := (i, r) # am_results m\<rparr>)"
    (is "machine_ok ?m")
proof -
  have ids: "ids_ok m" and ans: "answers_ok m" and app: "approved_ok m"
    using ok by (auto simp: machine_ok_def)
  have mem: "(i, w) \<in> set (am_waits m)" using w by (rule map_of_SomeD)
  have rok: "rows_ok (am_service m)" using ids unfolding ids_ok_def by (elim conjE) assumption
  obtain row where row: "row \<in> set (ap_rows (am_service m))" "ar_id row = i"
    "ar_userId row = gi_userId (wt_input w)" "ar_status row = Pending"
    using ids_asked [OF ids asked_waits [OF mem]] by (auto simp: ask_ok_def)
  from settle obtain now p where st': "ap_nextId st' = ap_nextId (am_service m)"
    "ap_pending st' = ap_pending (am_service m)"
    "ap_rows st' = map (row_update i now p) (ap_rows (am_service m))"
    "r = Allowed \<longleftrightarrow> rp_status p = Approved"
    and choice: "r = Allowed \<Longrightarrow> \<exists>c. oc = Choice c \<and> is_allow c"
    by (rule settle_rows) blast
  have waits: "set (am_waits ?m) = {q \<in> set (am_waits m). fst q \<noteq> i}" by (simp add: set_del_assoc)
  have inP: "i \<notin> fst ` set (am_prompting m)" by (rule ids_disjoint [OF ids mem])
  have asked: "(j, inp, off) \<in> asked ?m \<Longrightarrow> (j, inp, off) \<in> asked m \<and> j \<noteq> i" for j inp off
    using inP unfolding asked_def waits by force
  have ask: "ask_ok st' j inp off" if "ask_ok (am_service m) j inp off" "j \<noteq> i" for j inp off
  proof -
    from that obtain x where x: "x \<in> set (ap_rows (am_service m))" "ar_id x = j"
      "ar_userId x = gi_userId inp" "ar_status x = Pending"
      by (auto simp: ask_ok_def)
    then have "x \<in> set (ap_rows st')"
      using that(2) row_update_other [of x i now p] unfolding st'(3) by force
    then show ?thesis using that(1) x by (auto simp: ask_ok_def)
  qed
  have "ids_ok ?m"
    unfolding ids_ok_def
  proof (intro conjI)
    show "rows_ok (am_service ?m)" using rok st' by (simp add: rows_ok_def comp_def)
    show "distinct (map fst (am_prompting ?m))" "distinct (map fst (am_waits ?m))"
      using ids by (simp_all add: ids_ok_def)
    have sub: "fst ` set (am_waits ?m) \<subseteq> fst ` set (am_waits m)" unfolding waits by blast
    have "fst ` set (am_prompting m) \<inter> fst ` set (am_waits m) = {}"
      using ids unfolding ids_ok_def by (elim conjE) assumption
    from disjoint_mono [OF sub this]
    show "fst ` set (am_prompting ?m) \<inter> fst ` set (am_waits ?m) = {}" by simp
    show "\<forall>j inp off. (j, inp, off) \<in> asked ?m \<longrightarrow> ask_ok (am_service ?m) j inp off"
      using asked ask ids_asked [OF ids] by simp
    show "\<forall>j e. (j, e) \<in> set (ap_pending (am_service ?m)) \<longrightarrow>
        (\<exists>w. (j, w) \<in> set (am_waits ?m) \<and> wt_outcome w = None \<and> pe_input e = wt_input w \<and> pe_offered e = wt_offered w)"
    proof (intro allI impI)
      fix j e
      assume "(j, e) \<in> set (ap_pending (am_service ?m))"
      then have "(j, e) \<in> set (ap_pending (am_service m))" using st'(2) by simp
      moreover from ids_pending [OF ids this] have "j \<noteq> i"
        using ids_waits_unique [OF ids mem] oc by force
      ultimately show "\<exists>w. (j, w) \<in> set (am_waits ?m) \<and> wt_outcome w = None \<and> pe_input e = wt_input w \<and> pe_offered e = wt_offered w"
        using ids_pending [OF ids, of j e] unfolding waits by auto
    qed
  qed
  moreover have "answers_ok ?m"
    unfolding answers_ok_def
  proof (intro conjI allI impI)
    fix j u c
    assume a: "(j, u, c) \<in> set (am_answers ?m)"
    show "j < ap_nextId (am_service ?m)" "j \<notin> fst ` set (am_prompting ?m)"
      using a ans st'(1) unfolding answers_ok_def by simp_all
    show "gi_userId (wt_input v) = u" "c \<in> set (wt_offered v)" if "(j, v) \<in> set (am_waits ?m)" for v
      using that a ans unfolding waits answers_ok_def by simp_all
  next
    fix j c
    assume "(j, c) \<in> set (am_resolving ?m)"
    then show "\<exists>u. (j, u, c) \<in> set (am_answers ?m)" using ans unfolding answers_ok_def by simp
  next
    fix j v c
    assume "(j, v) \<in> set (am_waits ?m)" "wt_outcome v = Some (Choice c)"
    then show "\<exists>u. (j, u, c) \<in> set (am_answers ?m)"
      using answers_choice [OF ans, of j v c] unfolding waits by simp
  qed
  moreover have "approved_ok ?m"
    unfolding approved_ok_def
  proof (intro conjI ballI allI impI)
    fix x
    assume x: "x \<in> set (ap_rows (am_service ?m))" "ar_status x = Approved"
    then obtain x0 where x0: "x0 \<in> set (ap_rows (am_service m))" "x = row_update i now p x0"
      using st'(3) by auto
    show "\<exists>c. (ar_id x, ar_userId x, c) \<in> set (am_answers ?m) \<and> is_allow c"
    proof (cases "ar_id x0 = i \<and> ar_status x0 = Pending")
      case True
      then have "x0 = row" using rows_unique [OF rok x0(1) row(1)] row(2) by simp
      have "r = Allowed" using True x x0(2) st'(4) by simp
      from choice [OF this] obtain c where c: "oc = Choice c" "is_allow c" by blast
      obtain u where u: "(i, u, c) \<in> set (am_answers m)"
        using answers_choice [OF ans mem] oc c(1) by blast
      moreover have "gi_userId (wt_input w) = u" by (rule answers_user [OF ans u mem])
      ultimately have "(ar_id x, ar_userId x, c) \<in> set (am_answers ?m) \<and> is_allow c"
        using \<open>x0 = row\<close> x0(2) row(2,3) c(2) by simp
      then show ?thesis ..
    next
      case False
      then have "x = x0" using x0(2) row_update_other by blast
      then show ?thesis using app x0(1) x(2) unfolding approved_ok_def by auto
    qed
  next
    fix j
    assume "(j, Allowed) \<in> set (am_results ?m)"
    then consider "j = i" "r = Allowed" | "(j, Allowed) \<in> set (am_results m)" by auto
    then show "\<exists>x \<in> set (ap_rows (am_service ?m)). ar_id x = j \<and> ar_status x = Approved"
    proof cases
      case 1
      have "row_update i now p row \<in> set (ap_rows st')" using row(1) st'(3) by simp
      then show ?thesis using 1 row st'(4) by (intro bexI [of _ "row_update i now p row"]) simp_all
    next
      case 2
      then obtain x where x: "x \<in> set (ap_rows (am_service m))" "ar_id x = j" "ar_status x = Approved"
        using app unfolding approved_ok_def by blast
      then have "row_update i now p x = x" by (intro row_update_other) simp
      then have "x \<in> set (ap_rows st')" using x(1) st'(3) by force
      then show ?thesis using x(2,3) by auto
    qed
  qed
  ultimately show ?thesis by (simp add: machine_ok_def)
qed

lemma machine_ok_restarts:
  assumes ok: "machine_ok m"
  shows "machine_ok (m\<lparr>am_service := on_module_init env
            ((am_service m)\<lparr>ap_sessionMemory := [], ap_pending := [], ap_activity := []\<rparr>),
          am_prompting := [], am_waits := [], am_resolving := []\<rparr>)" (is "machine_ok ?m")
proof -
  let ?st = "(am_service m)\<lparr>ap_sessionMemory := [], ap_pending := [], ap_activity := []\<rparr>"
  have ids: "ids_ok m" and ans: "answers_ok m" and app: "approved_ok m"
    using ok by (auto simp: machine_ok_def)
  have rok: "rows_ok (am_service m)" using ids unfolding ids_ok_def by (elim conjE) assumption
  note rows = on_module_init_rows [where env = env and st = ?st]
  have lt: "ar_id r < ap_nextId (am_service m)" if "r \<in> set (ap_rows (on_module_init env ?st))" for r
  proof -
    have "ar_id r \<in> set (map ar_id (ap_rows (on_module_init env ?st)))" using that by simp
    then obtain r' where "r' \<in> set (ap_rows (am_service m))" "ar_id r' = ar_id r"
      unfolding rows(3) by auto
    then show ?thesis using rok by (auto simp: rows_ok_def)
  qed
  have "rows_ok (on_module_init env ?st)"
    unfolding rows_ok_def rows(1,3) using rok lt by (simp add: rows_ok_def)
  then have "ids_ok ?m" by (simp add: ids_ok_def asked_def rows(2))
  moreover have "answers_ok ?m"
    using ans unfolding answers_ok_def by (simp add: rows(1))
  moreover have "approved_ok ?m"
    unfolding approved_ok_def
  proof (intro conjI ballI allI impI)
    fix r
    assume r: "r \<in> set (ap_rows (am_service ?m))" and "ar_status r = Approved"
    then have "r \<in> set (ap_rows (am_service m))" using rows(4) [where r = r] by simp
    then show "\<exists>c. (ar_id r, ar_userId r, c) \<in> set (am_answers ?m) \<and> is_allow c"
      using app \<open>ar_status r = Approved\<close> unfolding approved_ok_def by simp
  next
    fix i
    assume "(i, Allowed) \<in> set (am_results ?m)"
    then obtain r where r: "r \<in> set (ap_rows (am_service m))" "ar_id r = i" "ar_status r = Approved"
      using app unfolding approved_ok_def by auto
    then have "r \<in> set (ap_rows (on_module_init env ?st))" using rows(5) by simp
    then show "\<exists>r \<in> set (ap_rows (am_service ?m)). ar_id r = i \<and> ar_status r = Approved"
      using r by auto
  qed
  ultimately show ?thesis by (simp add: machine_ok_def)
qed

lemma machine_ok_init: "machine_ok init_machine"
  by (simp add: machine_ok_def ids_ok_def answers_ok_def approved_ok_def rows_ok_def asked_def init_machine_def)

lemma machine_ok_step:
  assumes ok: "machine_ok m" and step: "approval_step env m m'"
  shows "machine_ok m'"
proof -
  have rok: "rows_ok (am_service m)" using ok by (simp add: machine_ok_def ids_ok_def)
  note quiet = machine_ok_grows [OF ok grows_same [OF rok]]
  have res: "\<exists>u. (i, u, c) \<in> set (am_answers m)" if "(i, c) \<in> set (am_resolving m)" for i c
    using ok that unfolding machine_ok_def answers_ok_def by simp
  from step show ?thesis
  proof (cases rule: approval_step.cases)
    case (call_decided input r st')
    then show ?thesis
      using machine_ok_grows [OF ok gate_opens_grows [OF gate_start_opens [OF rok] rok]] by simp
  next
    case (call_prompts input i off st')
    have op: "gate_opens input (AwaitResolution i off) (am_service m) st'"
      by (rule gate_start_opens [OF rok call_prompts(2)])
    have "rows_ok st'" using gate_opens_grows [OF op rok] by (simp add: grows_def)
    from machine_ok_prompts [OF ok this op] show ?thesis using call_prompts(1) by simp
  next
    case (registers i input off aborted oc st')
    then show ?thesis using machine_ok_registers [OF ok registers(2,3)] by simp
  next
    case (answers i u requested d c st')
    then show ?thesis using machine_ok_answers [OF ok answers(2)] by simp
  next
    case (answer_arrives i c w)
    then show ?thesis using machine_ok_decide [OF ok answer_arrives(3), of "Choice c"] res by simp
  next
    case (times_out i w)
    then show ?thesis using machine_ok_decide [OF ok times_out(2), of TimedOut] by simp
  next
    case (aborts i w)
    then show ?thesis using machine_ok_decide [OF ok aborts(2), of RunAborted] by simp
  next
    case (settles i w oc r st')
    then show ?thesis using machine_ok_settles [OF ok settles(2-4)] by simp
  next
    case (revokes i u b st')
    then show ?thesis using quiet [of st'] revoke_same [OF revokes(2)] by simp
  next
    case (clears_session sid)
    then show ?thesis using quiet by (simp add: clear_session_memory_def)
  next
    case (time_passes n)
    then show ?thesis using quiet by simp
  next
    case restarts
    then show ?thesis using machine_ok_restarts [OF ok] by simp
  qed
qed

lemma machine_ok_reachable: "approval_reachable env m \<Longrightarrow> machine_ok m"
  by (induction rule: approval_reachable.induct) (auto intro: machine_ok_init machine_ok_step)

section \<open>Properties\<close>

text \<open>
  C9: Under any interleaving of calls, answers, timeouts, aborts, revocations and restarts: a
  prompting gate that let its call through has an approved row, and a row is only ever approved
  by an allow answer of the very user the prompt was addressed to.
\<close>

theorem no_execution_without_answer:
  assumes "approval_reachable env m"
  shows "(\<forall>i. (i, Allowed) \<in> set (am_results m) \<longrightarrow>
      (\<exists>r \<in> set (ap_rows (am_service m)). ar_id r = i \<and> ar_status r = Approved)) \<and>
    (\<forall>r \<in> set (ap_rows (am_service m)). ar_status r = Approved \<longrightarrow>
      (\<exists>c. (ar_id r, ar_userId r, c) \<in> set (am_answers m) \<and> is_allow c))"
  using machine_ok_reachable [OF assms] unfolding machine_ok_def approved_ok_def by blast

definition sample_offer :: "approval_choice list" where
  "sample_offer = [AllowOnce, AllowSession, AllowAlways, DenyOnce, DenySession, DenyAlways]"

lemma sample_gate_start:
  "fst (gate_start sample_approval_env sample_gate_input (am_service init_machine)) =
     AwaitResolution 0 sample_offer"
  by code_simp

lemma settle_allow: "is_allow c \<Longrightarrow> fst (settle env i input (Choice c) st) = Allowed"
  by (simp add: settle_def settle_choice_def Let_def case_prod_beta)

lemma sample_machine_run:
  "\<exists>m. approval_reachable sample_approval_env m \<and> (0, Allowed) \<in> set (am_results m)"
proof -
  let ?env = sample_approval_env and ?in = sample_gate_input and ?off = sample_offer
  obtain st1 where st1: "gate_start ?env ?in (am_service init_machine) = (AwaitResolution 0 ?off, st1)"
    using sample_gate_start by (metis prod.collapse)
  let ?m1 = "init_machine\<lparr>am_service := st1, am_prompting := [(0, ?in, ?off)]\<rparr>"
  have m1: "approval_reachable ?env ?m1"
    using approval_reachable.step [OF approval_reachable.start approval_step.call_prompts [OF st1]]
    by (simp add: init_machine_def)
  let ?e = "\<lparr>pe_input = ?in, pe_offered = ?off\<rparr>"
  obtain st2 where reg: "wait_register 0 ?in ?off False (am_service ?m1) = (None, st2)"
    and pend: "map_of (ap_pending st2) 0 = Some ?e"
    by (simp add: wait_register_def)
  let ?w = "\<lparr>wt_input = ?in, wt_offered = ?off, wt_outcome = None\<rparr>"
  let ?m2 = "?m1\<lparr>am_service := st2, am_prompting := [], am_waits := [(0, ?w)]\<rparr>"
  have m2: "approval_reachable ?env ?m2"
    using approval_reachable.step [OF m1 approval_step.registers [where i = 0 and input = ?in, OF _ reg]]
    by (simp add: init_machine_def del_assoc_def)
  obtain st3 where res: "resolve ?env 0 ''u'' AllowOnce (am_service ?m2) = ((True, False), Some AllowOnce, st3)"
    using pend by (auto simp: resolve_def sample_gate_input_def downgrade_choice_def sample_offer_def)
  let ?m3 = "?m2\<lparr>am_service := st3, am_resolving := [(0, AllowOnce)], am_answers := [(0, ''u'', AllowOnce)]\<rparr>"
  have m3: "approval_reachable ?env ?m3"
    using approval_reachable.step [OF m2 approval_step.answers [OF res]] by (simp add: init_machine_def)
  let ?m4 = "decide 0 ?w (Choice AllowOnce) ?m3"
  have m4: "approval_reachable ?env ?m4"
    by (rule approval_reachable.step [OF m3 approval_step.answer_arrives]) simp_all
  let ?w' = "?w\<lparr>wt_outcome := Some (Choice AllowOnce)\<rparr>"
  obtain st5 where set: "settle ?env 0 (wt_input ?w') (Choice AllowOnce) (am_service ?m4) = (Allowed, st5)"
    using settle_allow [OF is_allow_simps(1), of ?env 0 "wt_input ?w'" "am_service ?m4"]
    by (cases "settle ?env 0 (wt_input ?w') (Choice AllowOnce) (am_service ?m4)") simp
  let ?m5 = "?m4\<lparr>am_service := st5, am_waits := del_assoc 0 (am_waits ?m4), am_results := (0, Allowed) # am_results ?m4\<rparr>"
  have w: "map_of (am_waits ?m4) 0 = Some ?w'" by (simp add: decide_def)
  have "approval_reachable ?env ?m5"
    by (rule approval_reachable.step [OF m4 approval_step.settles [OF w _ set]]) simp
  moreover have "(0, Allowed) \<in> set (am_results ?m5)" by simp
  ultimately show ?thesis by blast
qed

theorem no_execution_without_answer_witness:
  "\<exists>m. approval_reachable sample_approval_env m \<and> (0, Allowed) \<in> set (am_results m) \<and>
     (\<exists>r \<in> set (ap_rows (am_service m)). ar_id r = 0 \<and> ar_status r = Approved)"
proof -
  obtain m where m: "approval_reachable sample_approval_env m" "(0, Allowed) \<in> set (am_results m)"
    using sample_machine_run by blast
  with no_execution_without_answer [OF m(1)] show ?thesis by blast
qed

text \<open>
  C10: A decision is final: once the row of a request is approved, denied, expired or cancelled, no
  later step of the service changes it.
\<close>

theorem resolved_rows_are_final:
  assumes "approval_reachable env m" and "approval_step env m m'"
    and "r \<in> set (ap_rows (am_service m))" and "ar_status r \<noteq> Pending"
  shows "r \<in> set (ap_rows (am_service m'))"
proof -
  have rok: "rows_ok (am_service m)"
    using machine_ok_reachable [OF assms(1)] by (simp add: machine_ok_def ids_ok_def)
  note r = assms(3,4)
  from assms(2) show ?thesis
  proof (cases rule: approval_step.cases)
    case (call_decided input x st')
    then show ?thesis using gate_start_opens [OF rok call_decided(2)] r by (auto simp: gate_opens_def)
  next
    case (call_prompts input i off st')
    then show ?thesis using gate_start_opens [OF rok call_prompts(2)] r by (auto simp: gate_opens_def)
  next
    case (registers i input off aborted oc st')
    then show ?thesis using wait_register_same(1) [OF registers(3)] r by simp
  next
    case (answers i u requested d c st')
    then show ?thesis using resolve_same [OF answers(2)] r by simp
  next
    case (answer_arrives i c w)
    then show ?thesis using r by (simp add: decide_def wait_finish_same)
  next
    case (times_out i w)
    then show ?thesis using r by (simp add: decide_def wait_finish_same)
  next
    case (aborts i w)
    then show ?thesis using r by (simp add: decide_def wait_finish_same)
  next
    case (settles i w oc x st')
    from settles(4) obtain now p where "ap_rows st' = map (row_update i now p) (ap_rows (am_service m))"
      by (rule settle_rows) blast
    moreover have "row_update i now p r = r" using r(2) by (intro row_update_other) simp
    ultimately have "r \<in> set (ap_rows st')" using r(1) by force
    then show ?thesis using settles(1) by simp
  next
    case (revokes i u b st')
    then show ?thesis using revoke_same [OF revokes(2)] r by simp
  next
    case (clears_session sid)
    then show ?thesis using r by (simp add: clear_session_memory_def)
  next
    case (time_passes n)
    then show ?thesis using r by simp
  next
    case restarts
    then show ?thesis using on_module_init_rows(5) r by simp
  qed
qed

theorem resolved_rows_are_final_witness:
  "\<exists>m r. approval_reachable sample_approval_env m \<and> ar_status r = Approved \<and>
     r \<in> set (ap_rows ((am_service m)\<lparr>ap_now := ap_now (am_service m) + 1\<rparr>))"
proof -
  obtain m where m: "approval_reachable sample_approval_env m" "(0, Allowed) \<in> set (am_results m)"
    using sample_machine_run by blast
  have "approved_ok m" using machine_ok_reachable [OF m(1)] by (simp add: machine_ok_def)
  then obtain r where r: "r \<in> set (ap_rows (am_service m))" "ar_status r = Approved"
    using m(2) unfolding approved_ok_def by blast
  have "r \<in> set (ap_rows (am_service (m\<lparr>am_service := (am_service m)\<lparr>ap_now := ap_now (am_service m) + 1\<rparr>\<rparr>)))"
    by (rule resolved_rows_are_final [OF m(1) approval_step.time_passes r(1)]) (simp add: r(2))
  then show ?thesis using m(1) r(2) by auto
qed

text \<open>
  An answer given between the delivery of a prompt and the registration of its rendezvous is
  refused and lost: the prompt is out, the user's row is pending, and \<open>resolve\<close> says it is not.
\<close>

theorem early_answer_is_lost:
  "\<exists>m i. approval_reachable sample_approval_env m \<and>
     ap_frames (am_service m) \<noteq> [] \<and> ar_find i (am_service m) \<noteq> None \<and>
     map_option ar_status (ar_find i (am_service m)) = Some Pending \<and>
     fst (resolve sample_approval_env i ''u'' AllowOnce (am_service m)) = (False, False)"
proof -
  let ?env = sample_approval_env and ?in = sample_gate_input
  have c: "case gate_start ?env ?in (am_service init_machine) of
      (AwaitResolution i off, st) \<Rightarrow> i = 0 \<and> ap_frames st \<noteq> [] \<and>
         map_option ar_status (ar_find 0 st) = Some Pending \<and>
         fst (resolve ?env 0 ''u'' AllowOnce st) = (False, False)
    | (Decided r, st) \<Rightarrow> False"
    by code_simp
  then obtain off st where g: "gate_start ?env ?in (am_service init_machine) = (AwaitResolution 0 off, st)"
    and st: "ap_frames st \<noteq> []" "map_option ar_status (ar_find 0 st) = Some Pending"
      "fst (resolve ?env 0 ''u'' AllowOnce st) = (False, False)"
    by (simp split: prod.splits gate_step.splits)
  let ?m = "init_machine\<lparr>am_service := st, am_prompting := (0, ?in, off) # am_prompting init_machine\<rparr>"
  have "approval_reachable ?env ?m"
    by (rule approval_reachable.step [OF approval_reachable.start approval_step.call_prompts [OF g]])
  moreover have "am_service ?m = st" by simp
  moreover have "ar_find 0 st \<noteq> None" using st(2) by auto
  ultimately show ?thesis using st by (intro exI [of _ ?m] exI [of _ 0]) simp
qed

end
