(* ===== verification/ToolRegistry.thy ===== *)
theory ToolRegistry
  imports Approvals Chat JsNumber
begin

text \<open>
  \<open>engine/tool-registry.ts\<close>: casting, validation and stripping of the arguments a model sends,
  the approval check, the call, and the post-processing of its result. Arguments are JSON
  objects with distinct keys, none of them \<open>__proto__\<close>. A lookup \<open>schema.properties[key]\<close> and the operator
  \<open>in\<close> also see what every JavaScript object inherits; \<open>object_prototype_names\<close> lists it. Tools
  are records of functions; an exception is an \<open>Inl\<close>. A string that \<open>parseFloat\<close> reads as an
  infinite number is outside the model.
\<close>

section \<open>Schemas\<close>

datatype param_schema = ParamSchema
  (ps_type: "string option")
  (ps_enum: "json list option")
  (ps_minimum: "rat option")
  (ps_maximum: "rat option")
  (ps_minLength: "nat option")
  (ps_maxLength: "nat option")
  (ps_properties: "(string \<times> param_schema) list option")
  (ps_required: "string list option")

definition any_schema :: param_schema where
  "any_schema = ParamSchema None None None None None None None None"

definition object_prototype_names :: "string list" where
  "object_prototype_names =
     [''constructor'', ''__defineGetter__'', ''__defineSetter__'', ''hasOwnProperty'',
      ''__lookupGetter__'', ''__lookupSetter__'', ''isPrototypeOf'', ''propertyIsEnumerable'',
      ''toString'', ''valueOf'', ''__proto__'', ''toLocaleString'']"

text \<open>\<open>schema.properties[key]\<close>: what is inherited is a function, which as a schema constrains
  nothing.\<close>

definition schema_prop :: "(string \<times> param_schema) list \<Rightarrow> string \<Rightarrow> param_schema option" where
  "schema_prop props key =
     (case map_of props key of
        Some s \<Rightarrow> Some s
      | None \<Rightarrow> if key \<in> set object_prototype_names then Some any_schema else None)"

text \<open>\<open>key in obj\<close>.\<close>

definition key_in :: "string \<Rightarrow> (string \<times> 'a) list \<Rightarrow> bool" where
  "key_in key obj \<longleftrightarrow> key \<in> fst ` set obj \<or> key \<in> set object_prototype_names"

definition check_type :: "json \<Rightarrow> string \<Rightarrow> bool" where
  "check_type value expected =
     (if expected = ''string'' then (case value of JStr _ \<Rightarrow> True | _ \<Rightarrow> False)
      else if expected = ''integer'' then (case value of JNum q \<Rightarrow> is_integer_rat q | _ \<Rightarrow> False)
      else if expected = ''number'' then (case value of JNum _ \<Rightarrow> True | _ \<Rightarrow> False)
      else if expected = ''boolean'' then (case value of JBool _ \<Rightarrow> True | _ \<Rightarrow> False)
      else if expected = ''array'' then (case value of JArr _ \<Rightarrow> True | _ \<Rightarrow> False)
      else if expected = ''object'' then (case value of JObj _ \<Rightarrow> True | _ \<Rightarrow> False)
      else True)"

section \<open>Validation\<close>

definition full_path :: "string \<Rightarrow> string \<Rightarrow> string" where
  "full_path path key = (if path \<noteq> [] then path @ ''.'' @ key else key)"

definition required_errors :: "(string \<times> json) list \<Rightarrow> param_schema \<Rightarrow> string \<Rightarrow> string list" where
  "required_errors obj schema path =
     (case ps_required schema of
        None \<Rightarrow> []
      | Some req \<Rightarrow> map (\<lambda>f. ''Missing required parameter: '' @ full_path path f)
                          (filter (\<lambda>f. \<not> key_in f obj) req))"

text \<open>The schema's type when it is a nonempty string.\<close>

definition type_of :: "param_schema \<Rightarrow> string option" where
  "type_of ps = (case ps_type ps of None \<Rightarrow> None | Some t \<Rightarrow> if t = [] then None else Some t)"

text \<open>\<open>enum.includes(value)\<close>: an object or array of the arguments is never one of the schema's.\<close>

definition enum_includes :: "json list \<Rightarrow> json \<Rightarrow> bool" where
  "enum_includes es value =
     (case value of JObj _ \<Rightarrow> False | JArr _ \<Rightarrow> False | _ \<Rightarrow> value \<in> set es)"

definition enum_errors :: "param_schema \<Rightarrow> json \<Rightarrow> string \<Rightarrow> string list" where
  "enum_errors ps value fullPath =
     (case ps_enum ps of
        None \<Rightarrow> []
      | Some es \<Rightarrow> if enum_includes es value then []
          else [''Invalid value for '' @ fullPath @ '': must be one of ['' @
                join '', '' (map (\<lambda>x. if x = JNull then [] else js_string x) es) @ '']''])"

definition range_errors :: "param_schema \<Rightarrow> json \<Rightarrow> string \<Rightarrow> string list" where
  "range_errors ps value fullPath =
     (case value of
        JNum q \<Rightarrow>
          (case ps_minimum ps of None \<Rightarrow> [] | Some m \<Rightarrow> if q < m then [fullPath @ '' must be >= '' @ show_rat m] else [])
          @ (case ps_maximum ps of None \<Rightarrow> [] | Some m \<Rightarrow> if m < q then [fullPath @ '' must be <= '' @ show_rat m] else [])
      | _ \<Rightarrow> [])"

definition length_errors :: "param_schema \<Rightarrow> json \<Rightarrow> string \<Rightarrow> string list" where
  "length_errors ps value fullPath =
     (case value of
        JStr s \<Rightarrow>
          (case ps_minLength ps of None \<Rightarrow> []
           | Some n \<Rightarrow> if length s < n then [fullPath @ '' must have length >= '' @ show_nat n] else [])
          @ (case ps_maxLength ps of None \<Rightarrow> []
             | Some n \<Rightarrow> if n < length s then [fullPath @ '' must have length <= '' @ show_nat n] else [])
      | _ \<Rightarrow> [])"

definition entries_size :: "(string \<times> json) list \<Rightarrow> nat" where
  "entries_size obj = size_list (\<lambda>p. size (snd p)) obj"

lemma entries_size_nested:
  assumes "(k, JObj kvs) \<in> set obj"
  shows "entries_size kvs < entries_size obj"
proof -
  have "entries_size kvs < size (JObj kvs)"
    unfolding entries_size_def by (induction kvs) (auto simp: size_prod_simp)
  also have "size (JObj kvs) \<le> entries_size obj"
    using size_list_estimation' [OF assms, of "size (JObj kvs)" "\<lambda>p. size (snd p)"]
    by (simp add: entries_size_def)
  finally show ?thesis .
qed

function validate_object :: "(string \<times> json) list \<Rightarrow> param_schema \<Rightarrow> string \<Rightarrow> string list" where
  "validate_object obj schema path =
     required_errors obj schema path @
     (case ps_properties schema of
        None \<Rightarrow> []
      | Some props \<Rightarrow>
          concat (map (\<lambda>(key, value).
            case schema_prop props key of
              None \<Rightarrow> []
            | Some ps \<Rightarrow>
                (let fullPath = full_path path key in
                 case type_of ps of
                   Some t \<Rightarrow>
                     if \<not> check_type value t
                     then [''Invalid type for '' @ fullPath @ '': expected '' @ t]
                     else enum_errors ps value fullPath @ range_errors ps value fullPath @
                          length_errors ps value fullPath @
                          (case value of
                             JObj kvs \<Rightarrow> if t = ''object'' \<and> ps_properties ps \<noteq> None
                                         then validate_object kvs ps fullPath else []
                           | _ \<Rightarrow> [])
                 | None \<Rightarrow> enum_errors ps value fullPath @ range_errors ps value fullPath @
                          length_errors ps value fullPath)) obj))"
  by pat_completeness auto
termination
  by (relation "measure (\<lambda>(obj, schema, path). entries_size obj)") (auto dest: entries_size_nested)

declare validate_object.simps [simp del]

section \<open>Casting\<close>

definition is_digit :: "char \<Rightarrow> bool" where
  "is_digit c = (let k = (of_char c :: nat) in 48 \<le> k \<and> k \<le> 57)"

definition digits_value :: "string \<Rightarrow> int" where
  "digits_value ds = foldl (\<lambda>n c. 10 * n + (of_char c - 48)) 0 ds"

definition take_sign :: "string \<Rightarrow> int \<times> string" where
  "take_sign s =
     (case s of
        [] \<Rightarrow> (1, [])
      | c # cs \<Rightarrow> if c = CHR ''-'' then (- 1, cs) else if c = CHR ''+'' then (1, cs) else (1, s))"

text \<open>\<open>parseInt(value, 10)\<close>: the longest prefix of digits, as a double; \<open>None\<close> is \<open>NaN\<close>.\<close>

definition parse_int :: "string \<Rightarrow> rat option" where
  "parse_int value =
     (case take_sign (trim_start value) of
        (sign, rest) \<Rightarrow>
          (let ds = takeWhile is_digit rest
           in if ds = [] then None else Some (of_int sign * rnd (of_int (digits_value ds)))))"

text \<open>The exponent at the start of a text, zero when there is none.\<close>

definition parse_exponent :: "string \<Rightarrow> int" where
  "parse_exponent s =
     (case s of
        [] \<Rightarrow> 0
      | c # cs \<Rightarrow>
          if c = CHR ''e'' \<or> c = CHR ''E'' then
            (case take_sign cs of (sign, rest) \<Rightarrow> sign * digits_value (takeWhile is_digit rest))
          else 0)"

definition scale10 :: "int \<Rightarrow> rat \<Rightarrow> rat" where
  "scale10 e q = (if 0 \<le> e then q * 10 ^ nat e else q / 10 ^ nat (- e))"

definition parse_float :: "string \<Rightarrow> rat option" where
  "parse_float value =
     (case take_sign (trim_start value) of
        (sign, rest) \<Rightarrow>
          (let ip = takeWhile is_digit rest;
               r1 = dropWhile is_digit rest;
               fp = (case r1 of c # cs \<Rightarrow> if c = CHR ''.'' then takeWhile is_digit cs else [] | [] \<Rightarrow> []);
               r2 = (case r1 of c # cs \<Rightarrow> if c = CHR ''.'' then dropWhile is_digit cs else r1 | [] \<Rightarrow> [])
           in if ip = [] \<and> fp = [] then None
              else Some (of_int sign *
                     rnd (scale10 (parse_exponent r2 - int (length fp)) (of_int (digits_value (ip @ fp)))))))"

definition cast_value :: "json \<Rightarrow> string \<Rightarrow> json" where
  "cast_value value expected =
     (case value of
        JStr s \<Rightarrow>
          if expected = ''integer'' then (case parse_int s of None \<Rightarrow> value | Some q \<Rightarrow> JNum q)
          else if expected = ''number'' then (case parse_float s of None \<Rightarrow> value | Some q \<Rightarrow> JNum q)
          else if expected = ''boolean'' then
            (let lower = to_lower s in
             if lower \<in> {''true'', ''1'', ''yes''} then JBool True
             else if lower \<in> {''false'', ''0'', ''no''} then JBool False else value)
          else value
      | _ \<Rightarrow> value)"

text \<open>\<open>Object.entries\<close> of a value with \<open>typeof value === 'object'\<close> that is not \<open>null\<close>: an array
  enumerates its indices.\<close>

definition object_entries :: "json \<Rightarrow> (string \<times> json) list option" where
  "object_entries value =
     (case value of
        JObj kvs \<Rightarrow> Some kvs
      | JArr xs \<Rightarrow> Some (zip (map show_nat [0..<length xs]) xs)
      | _ \<Rightarrow> None)"

lemma entries_size_zip: "length ks = length xs \<Longrightarrow> entries_size (zip ks xs) = size_list size xs"
  by (induction ks xs rule: list_induct2) (simp_all add: entries_size_def)

lemma entries_size_object:
  assumes "object_entries v = Some kvs" and "(k, v) \<in> set obj"
  shows "entries_size kvs < entries_size obj"
proof (cases v)
  case (JObj kvs')
  then show ?thesis using assms entries_size_nested [of k kvs obj] by (simp add: object_entries_def)
next
  case (JArr xs)
  then have "kvs = zip (map show_nat [0..<length xs]) xs" using assms(1) by (simp add: object_entries_def)
  then have "entries_size kvs = size_list size xs" by (simp add: entries_size_zip)
  also have "\<dots> < size v" using JArr by simp
  also have "size v \<le> entries_size obj"
    using size_list_estimation' [OF assms(2), of "size v" "\<lambda>p. size (snd p)"] by (simp add: entries_size_def)
  finally show ?thesis .
qed (use assms(1) in \<open>simp_all add: object_entries_def\<close>)

function cast_object :: "(string \<times> json) list \<Rightarrow> param_schema \<Rightarrow> (string \<times> json) list" where
  "cast_object params schema =
     (case ps_properties schema of
        None \<Rightarrow> params
      | Some props \<Rightarrow>
          map (\<lambda>(key, value).
            (key,
             case schema_prop props key of
               None \<Rightarrow> value
             | Some ps \<Rightarrow>
                 (case (ps_type ps = Some ''object'' \<and> ps_properties ps \<noteq> None, object_entries value) of
                    (True, Some kvs) \<Rightarrow> JObj (cast_object kvs ps)
                  | _ \<Rightarrow> (case type_of ps of Some t \<Rightarrow> cast_value value t | None \<Rightarrow> value)))) params)"
  by pat_completeness auto
termination
  by (relation "measure (\<lambda>(params, schema). entries_size params)") (auto intro: entries_size_object [OF sym])

declare cast_object.simps [simp del]

definition strip_unknown_keys :: "(string \<times> json) list \<Rightarrow> param_schema \<Rightarrow> (string \<times> json) list" where
  "strip_unknown_keys obj schema =
     (case ps_properties schema of
        None \<Rightarrow> obj
      | Some props \<Rightarrow> filter (\<lambda>(key, value). key_in key props) obj)"

section \<open>The registry\<close>

record 'w tool =
  tl_name :: string
  tl_description :: string
  tl_parameters :: param_schema
  tl_rawParams :: bool
  tl_requiresApproval :: bool
  tl_approvalScope :: "scope_kind option"
  tl_resourceKeyFromParams :: "((string \<times> json) list \<Rightarrow> thrown + string) option"
  tl_requiresApprovalForParams :: "((string \<times> json) list \<Rightarrow> thrown + bool) option"
  tl_approvalWarningsForParams :: "((string \<times> json) list \<Rightarrow> thrown + string list) option"
  tl_execute :: "(string \<times> json) list \<Rightarrow> 'w \<Rightarrow> (thrown + tool_result) \<times> 'w"

record 'w approval_context =
  ac_userId :: string
  ac_agentRunId :: string
  ac_sessionId :: "string option"
  ac_isSubAgent :: bool
  ac_gate :: "gate_input \<Rightarrow> 'w \<Rightarrow> (thrown + gate_result) \<times> 'w"

record 'w tool_registry =
  tr_tools :: "(string \<times> 'w tool) list"
  tr_maxOutputChars :: nat
  tr_approvalContext :: "'w approval_context option"

definition new_registry :: "nat option \<Rightarrow> 'w tool_registry" where
  "new_registry maxOutputChars =
     \<lparr>tr_tools = [], tr_maxOutputChars = (case maxOutputChars of None \<Rightarrow> 16000 | Some n \<Rightarrow> n),
      tr_approvalContext = None\<rparr>"

definition register :: "'w tool \<Rightarrow> 'w tool_registry \<Rightarrow> string + 'w tool_registry" where
  "register tool reg =
     (if tl_approvalScope tool = Some ResourceScope \<and> tl_resourceKeyFromParams tool = None
      then Inl (''Tool '' @ tl_name tool @ '' declares approvalScope '' @ [CHR 0x27] @ ''resource'' @ [CHR 0x27] @
                '' without resourceKeyFromParams'')
      else Inr (reg\<lparr>tr_tools := upd_assoc (tl_name tool) tool (tr_tools reg)\<rparr>))"

definition set_approval_context :: "'w approval_context \<Rightarrow> 'w tool_registry \<Rightarrow> 'w tool_registry" where
  "set_approval_context ctx reg = reg\<lparr>tr_approvalContext := Some ctx\<rparr>"

definition has_tool :: "string \<Rightarrow> 'w tool_registry \<Rightarrow> bool" where
  "has_tool name reg = (map_of (tr_tools reg) name \<noteq> None)"

definition get_tool :: "string \<Rightarrow> 'w tool_registry \<Rightarrow> 'w tool option" where
  "get_tool name reg = map_of (tr_tools reg) name"

definition validate_params :: "string \<Rightarrow> (string \<times> json) list \<Rightarrow> 'w tool_registry \<Rightarrow> string list" where
  "validate_params toolName params reg =
     (case get_tool toolName reg of
        None \<Rightarrow> [''Tool not found: '' @ toolName]
      | Some tool \<Rightarrow> validate_object params (tl_parameters tool) [])"

definition cast_params :: "string \<Rightarrow> (string \<times> json) list \<Rightarrow> 'w tool_registry \<Rightarrow> (string \<times> json) list" where
  "cast_params toolName params reg =
     (case get_tool toolName reg of
        None \<Rightarrow> params
      | Some tool \<Rightarrow> cast_object params (tl_parameters tool))"

section \<open>Execution\<close>

definition analyze_hint :: string where
  "analyze_hint = newline @ newline @ ''[Analyze the error above and try a different approach.]''"

definition error_result :: "string \<Rightarrow> tool_result" where
  "error_result message = \<lparr>tr_output = message @ analyze_hint, tr_isError = True\<rparr>"

definition blocked_no_context :: "string \<Rightarrow> string" where
  "blocked_no_context tool =
     ''BLOCKED: '' @ tool @ '' requires user approval, but the approval context is not initialized. This indicates a system configuration error, not a user decision. The tool call must not be retried or worked around.''"

definition truncate_output :: "nat \<Rightarrow> string \<Rightarrow> string" where
  "truncate_output n output =
     (if length output \<le> n then output else take n output @ newline @ ''... (truncated)'')"

text \<open>\<open>err instanceof Error ? err.message : String(err)\<close>; \<open>ThrownOther\<close> is a plain object.\<close>

primrec thrown_text :: "thrown \<Rightarrow> string" where
  "thrown_text (ThrownLoopAborted n a) = ''Tool '' @ n @ '' failed repeatedly with identical args; aborting''"
| "thrown_text (ThrownError e) = eo_message e"
| "thrown_text (ThrownString s) = s"
| "thrown_text ThrownOther = ''[object Object]''"

definition needs_approval :: "'w tool \<Rightarrow> (string \<times> json) list \<Rightarrow> bool" where
  "needs_approval tool params =
     (tl_requiresApproval tool \<and>
      (case tl_requiresApprovalForParams tool of
         None \<Rightarrow> True
       | Some f \<Rightarrow> (case f params of Inl _ \<Rightarrow> True | Inr b \<Rightarrow> b)))"

text \<open>The resource key and whether its extractor failed.\<close>

definition resource_key :: "'w tool \<Rightarrow> (string \<times> json) list \<Rightarrow> string \<times> bool" where
  "resource_key tool params =
     (if tl_approvalScope tool = Some ResourceScope then
        (case tl_resourceKeyFromParams tool of
           None \<Rightarrow> ([], True)
         | Some f \<Rightarrow> (case f params of Inl _ \<Rightarrow> ([], True) | Inr k \<Rightarrow> (k, k = [])))
      else ([], False))"

definition gate_request :: "'w approval_context \<Rightarrow> 'w tool \<Rightarrow> (string \<times> json) list \<Rightarrow> gate_input" where
  "gate_request ctx tool params =
     \<lparr>gi_userId = ac_userId ctx, gi_agentRunId = ac_agentRunId ctx, gi_sessionId = ac_sessionId ctx,
      gi_isSubAgent = ac_isSubAgent ctx, gi_toolName = tl_name tool,
      gi_scopeKind = (case tl_approvalScope tool of None \<Rightarrow> CallScope | Some k \<Rightarrow> k),
      gi_resourceKey = fst (resource_key tool params),
      gi_extractorFailed = snd (resource_key tool params),
      gi_params = params,
      gi_warnings = (case tl_approvalWarningsForParams tool of
                       None \<Rightarrow> []
                     | Some f \<Rightarrow> (case f params of Inl _ \<Rightarrow> [] | Inr ws \<Rightarrow> ws))\<rparr>"

text \<open>The approval half of \<open>runAndPostProcess\<close>: \<open>None\<close> lets the tool run.\<close>

definition authorize ::
  "'w tool_registry \<Rightarrow> 'w tool \<Rightarrow> (string \<times> json) list \<Rightarrow> 'w \<Rightarrow> (thrown + tool_result option) \<times> 'w" where
  "authorize reg tool params w =
     (if \<not> needs_approval tool params then (Inr None, w)
      else (case tr_approvalContext reg of
              None \<Rightarrow> (Inr (Some \<lparr>tr_output = blocked_no_context (tl_name tool), tr_isError = True\<rparr>), w)
            | Some ctx \<Rightarrow>
                (case ac_gate ctx (gate_request ctx tool params) w of
                   (Inl e, w1) \<Rightarrow> (Inl e, w1)
                 | (Inr Allowed, w1) \<Rightarrow> (Inr None, w1)
                 | (Inr (Blocked message), w1) \<Rightarrow> (Inr (Some (error_result message)), w1))))"

definition post_process :: "nat \<Rightarrow> thrown + tool_result \<Rightarrow> tool_result" where
  "post_process n r =
     (case r of
        Inl err \<Rightarrow> error_result (thrown_text err)
      | Inr res \<Rightarrow>
          (let output = truncate_output n (tr_output res)
           in if tr_isError res then error_result output else \<lparr>tr_output = output, tr_isError = False\<rparr>))"

definition run_and_post_process ::
  "'w tool_registry \<Rightarrow> 'w tool \<Rightarrow> (string \<times> json) list \<Rightarrow> 'w \<Rightarrow> (thrown + tool_result) \<times> 'w" where
  "run_and_post_process reg tool params w =
     (case authorize reg tool params w of
        (Inl e, w1) \<Rightarrow> (Inl e, w1)
      | (Inr (Some blocked), w1) \<Rightarrow> (Inr blocked, w1)
      | (Inr None, w1) \<Rightarrow>
          (case tl_execute tool params w1 of
             (r, w2) \<Rightarrow> (Inr (post_process (tr_maxOutputChars reg) r), w2)))"

text \<open>The first half of \<open>execute\<close>: the tool and the parameters it may see, or the error result.\<close>

definition prepare ::
  "'w tool_registry \<Rightarrow> string \<Rightarrow> (string \<times> json) list \<Rightarrow> tool_result + ('w tool \<times> (string \<times> json) list)" where
  "prepare reg toolName params =
     (case get_tool toolName reg of
        None \<Rightarrow> Inl \<lparr>tr_output = ''Tool not found: '' @ toolName, tr_isError = True\<rparr>
      | Some tool \<Rightarrow>
          if tl_rawParams tool then Inr (tool, params)
          else (let castedParams = cast_object params (tl_parameters tool);
                    errors = validate_object castedParams (tl_parameters tool) []
                in if errors \<noteq> [] then Inl (error_result (join newline errors))
                   else Inr (tool, strip_unknown_keys castedParams (tl_parameters tool))))"

definition execute ::
  "'w tool_registry \<Rightarrow> string \<Rightarrow> (string \<times> json) list \<Rightarrow> 'w \<Rightarrow> (thrown + tool_result) \<times> 'w" where
  "execute reg toolName params w =
     (case prepare reg toolName params of
        Inl result \<Rightarrow> (Inr result, w)
      | Inr (tool, safeParams) \<Rightarrow> run_and_post_process reg tool safeParams w)"

section \<open>What validation accepts\<close>

text \<open>The reference: a value conforms to a schema, without paths or messages.\<close>

definition value_ok :: "param_schema \<Rightarrow> json \<Rightarrow> bool" where
  "value_ok ps value \<longleftrightarrow>
     (case ps_enum ps of None \<Rightarrow> True | Some es \<Rightarrow> enum_includes es value) \<and>
     (case value of
        JNum q \<Rightarrow> (case ps_minimum ps of None \<Rightarrow> True | Some m \<Rightarrow> m \<le> q) \<and>
                  (case ps_maximum ps of None \<Rightarrow> True | Some m \<Rightarrow> q \<le> m)
      | JStr s \<Rightarrow> (case ps_minLength ps of None \<Rightarrow> True | Some n \<Rightarrow> n \<le> length s) \<and>
                  (case ps_maxLength ps of None \<Rightarrow> True | Some n \<Rightarrow> length s \<le> n)
      | _ \<Rightarrow> True)"

function conforms :: "(string \<times> json) list \<Rightarrow> param_schema \<Rightarrow> bool" where
  "conforms obj schema \<longleftrightarrow>
     (case ps_required schema of None \<Rightarrow> True | Some req \<Rightarrow> list_all (\<lambda>f. key_in f obj) req) \<and>
     (case ps_properties schema of
        None \<Rightarrow> True
      | Some props \<Rightarrow>
          list_all (\<lambda>(key, value).
            case schema_prop props key of
              None \<Rightarrow> True
            | Some ps \<Rightarrow>
                (case type_of ps of None \<Rightarrow> True | Some t \<Rightarrow> check_type value t) \<and> value_ok ps value \<and>
                (case value of
                   JObj kvs \<Rightarrow> (if ps_type ps = Some ''object'' \<and> ps_properties ps \<noteq> None
                                then conforms kvs ps else True)
                 | _ \<Rightarrow> True)) obj)"
  by pat_completeness auto
termination
  by (relation "measure (\<lambda>(obj, schema). entries_size obj)") (auto dest: entries_size_nested)

declare conforms.simps [simp del]

lemma value_errors:
  "enum_errors ps value p @ range_errors ps value p @ length_errors ps value p = [] \<longleftrightarrow> value_ok ps value"
  by (cases "value")
    (auto simp: enum_errors_def range_errors_def length_errors_def value_ok_def split: option.splits)

lemma required_errors_Nil:
  "required_errors obj schema path = [] \<longleftrightarrow>
   (case ps_required schema of None \<Rightarrow> True | Some req \<Rightarrow> list_all (\<lambda>f. key_in f obj) req)"
  by (auto simp: required_errors_def list_all_iff filter_empty_conv split: option.split)

lemma type_of_object: "type_of ps = Some ''object'' \<longleftrightarrow> ps_type ps = Some ''object''"
  by (auto simp: type_of_def split: option.splits)

lemma concat_map_Nil_iff:
  assumes "\<And>k v. (k, v) \<in> set xs \<Longrightarrow> f k v = [] \<longleftrightarrow> g k v"
  shows "concat (map (\<lambda>(k, v). f k v) xs) = [] \<longleftrightarrow> list_all (\<lambda>(k, v). g k v) xs"
  using assms by (induction xs) auto

lemma validate_conforms: "validate_object obj schema path = [] \<longleftrightarrow> conforms obj schema"
proof (induction obj schema path rule: validate_object.induct)
  case (1 obj schema path)
  show ?case
  proof (cases "ps_properties schema")
    case None
    then show ?thesis
      by (simp add: validate_object.simps [of obj schema path] conforms.simps [of obj schema] required_errors_Nil)
  next
    case (Some props)
    let ?errs = "\<lambda>key val. case schema_prop props key of
              None \<Rightarrow> []
            | Some ps \<Rightarrow>
                (let fullPath = full_path path key in
                 case type_of ps of
                   Some t \<Rightarrow>
                     if \<not> check_type val t
                     then [''Invalid type for '' @ fullPath @ '': expected '' @ t]
                     else enum_errors ps val fullPath @ range_errors ps val fullPath @
                          length_errors ps val fullPath @
                          (case val of
                             JObj kvs \<Rightarrow> if t = ''object'' \<and> ps_properties ps \<noteq> None
                                         then validate_object kvs ps fullPath else []
                           | _ \<Rightarrow> [])
                 | None \<Rightarrow> enum_errors ps val fullPath @ range_errors ps val fullPath @
                          length_errors ps val fullPath)"
    let ?ok = "\<lambda>key val. case schema_prop props key of
              None \<Rightarrow> True
            | Some ps \<Rightarrow>
                (case type_of ps of None \<Rightarrow> True | Some t \<Rightarrow> check_type val t) \<and> value_ok ps val \<and>
                (case val of
                   JObj kvs \<Rightarrow> (if ps_type ps = Some ''object'' \<and> ps_properties ps \<noteq> None
                                then conforms kvs ps else True)
                 | _ \<Rightarrow> True)"
    have each: "?errs key val = [] \<longleftrightarrow> ?ok key val" if mem: "(key, val) \<in> set obj" for key val
    proof (cases "schema_prop props key")
      case None
      then show ?thesis by simp
    next
      case sp: (Some ps)
      have IH: "validate_object kvs ps (full_path path key) = [] \<longleftrightarrow> conforms kvs ps"
        if "val = JObj kvs" "type_of ps = Some ''object''" "ps_properties ps \<noteq> None" for kvs
      proof -
        have "check_type val ''object''" using that(1) by (simp add: check_type_def)
        then show ?thesis
          using "1.IH" [OF Some mem refl sp refl that(2) _ that(1)] that(3) by simp
      qed
      have ve: "enum_errors ps val p = [] \<and> range_errors ps val p = [] \<and> length_errors ps val p = [] \<and> R \<longleftrightarrow>
          value_ok ps val \<and> R" for p R
        using value_errors [of ps val p] by auto
      have ve0: "enum_errors ps val p = [] \<and> range_errors ps val p = [] \<and> length_errors ps val p = [] \<longleftrightarrow>
          value_ok ps val" for p
        using value_errors [of ps val p] by auto
      show ?thesis
      proof (cases "type_of ps")
        case None
        then have "ps_type ps \<noteq> Some ''object''" using type_of_object [of ps] by auto
        then show ?thesis using None sp ve0 [of "full_path path key"]
          by (simp add: Let_def split: json.split)
      next
        case (Some t)
        show ?thesis
        proof (cases "check_type val t")
          case False
          then show ?thesis using Some sp by (simp add: Let_def)
        next
          case True
          have t: "ps_type ps = Some ''object'' \<longleftrightarrow> t = ''object''" using Some type_of_object [of ps] by auto
          show ?thesis
          proof (cases "\<exists>kvs. val = JObj kvs \<and> t = ''object'' \<and> ps_properties ps \<noteq> None")
            case obj: True
            then obtain kvs where kvs: "val = JObj kvs" "t = ''object''" "ps_properties ps \<noteq> None" by blast
            have "validate_object kvs ps (full_path path key) = [] \<longleftrightarrow> conforms kvs ps"
              using IH [OF kvs(1)] Some kvs(2,3) by simp
            then show ?thesis using Some sp True t kvs ve [of _ "conforms kvs ps"] by (simp add: Let_def)
          next
            case nobj: False
            then show ?thesis using Some sp True t ve0
              by (cases val) (auto simp: Let_def)
          qed
        qed
      qed
    qed
    have "concat (map (\<lambda>(key, val). ?errs key val) obj) = [] \<longleftrightarrow> list_all (\<lambda>(key, val). ?ok key val) obj"
      by (rule concat_map_Nil_iff) (rule each)
    then show ?thesis
      using Some
      by (simp add: validate_object.simps [of obj schema path] conforms.simps [of obj schema] required_errors_Nil)
  qed
qed

section \<open>Casting twice is casting once\<close>

lemma cast_value_idem: "cast_value (cast_value v t) t = cast_value v t"
  by (cases v) (auto simp: cast_value_def Let_def split: option.splits if_splits)

lemma object_entries_cast: "object_entries v = None \<Longrightarrow> object_entries (cast_value v t) = None"
  by (cases v) (auto simp: cast_value_def object_entries_def Let_def split: option.splits if_splits)

lemma object_entries_JObj [simp]: "object_entries (JObj kvs) = Some kvs"
  by (simp add: object_entries_def)

text \<open>Casting is idempotent: casting arguments that were cast against the same schema before
  changes nothing, at any depth, so validation sees the values the tool receives.\<close>

theorem cast_idempotent: "cast_object (cast_object params schema) schema = cast_object params schema"
proof (induction params schema rule: cast_object.induct)
  case (1 params schema)
  show ?case
  proof (cases "ps_properties schema")
    case None
    then show ?thesis by (simp add: cast_object.simps [of _ schema])
  next
    case (Some props)
    let ?c = "\<lambda>key v. case schema_prop props key of
               None \<Rightarrow> v
             | Some ps \<Rightarrow>
                 (case (ps_type ps = Some ''object'' \<and> ps_properties ps \<noteq> None, object_entries v) of
                    (True, Some kvs) \<Rightarrow> JObj (cast_object kvs ps)
                  | _ \<Rightarrow> (case type_of ps of Some t \<Rightarrow> cast_value v t | None \<Rightarrow> v))"
    have step: "cast_object ps schema = map (\<lambda>(key, v). (key, ?c key v)) ps" for ps
      using Some by (simp add: cast_object.simps [of ps schema])
    have twice: "?c key (?c key v) = ?c key v" if mem: "(key, v) \<in> set params" for key v
    proof (cases "schema_prop props key")
      case None
      then show ?thesis by simp
    next
      case sp: (Some ps)
      show ?thesis
      proof (cases "ps_type ps = Some ''object'' \<and> ps_properties ps \<noteq> None")
        case obj: True
        show ?thesis
        proof (cases "object_entries v")
          case None
          then show ?thesis using sp obj
            by (auto simp: cast_value_idem object_entries_cast split: option.split)
        next
          case oe: (Some kvs)
          have "cast_object (cast_object kvs ps) ps = cast_object kvs ps"
            using "1.IH" [OF Some mem refl sp] obj oe by auto
          then show ?thesis using sp obj oe by auto
        qed
      next
        case False
        then show ?thesis using sp by (auto simp: cast_value_idem split: option.split)
      qed
    qed
    then show ?thesis unfolding step by auto
  qed
qed

section \<open>What a tool is called with\<close>

text \<open>What \<open>prepare\<close> hands to a tool that validates: the cast arguments, if they conform to the schema,
  stripped at the top level of the keys the operator \<open>in\<close> does not find in it. It does find inherited
  names (\<open>inherited_key_is_kept\<close>), and unknown keys of nested objects stay.\<close>

theorem tool_input_conforms:
  assumes "get_tool name reg = Some tool" and "\<not> tl_rawParams tool"
  shows "prepare reg name params =
     (let casted = cast_object params (tl_parameters tool)
      in if conforms casted (tl_parameters tool)
         then Inr (tool, strip_unknown_keys casted (tl_parameters tool))
         else Inl (error_result (join newline (validate_object casted (tl_parameters tool) []))))
   \<and> (\<forall>props. ps_properties (tl_parameters tool) = Some props \<longrightarrow>
        (\<forall>(key, v) \<in> set (strip_unknown_keys (cast_object params (tl_parameters tool)) (tl_parameters tool)).
            key_in key props))"
  using assms
  by (auto simp: prepare_def Let_def validate_conforms strip_unknown_keys_def)

definition sample_schema :: param_schema where
  "sample_schema =
     ParamSchema (Some ''object'') None None None None None
       (Some [(''n'', ParamSchema (Some ''integer'') None (Some 1) None None None None None)]) (Some [''n''])"

definition sample_tool :: "nat tool" where
  "sample_tool =
     \<lparr>tl_name = ''t'', tl_description = [], tl_parameters = sample_schema, tl_rawParams = False,
      tl_requiresApproval = True, tl_approvalScope = None, tl_resourceKeyFromParams = None,
      tl_requiresApprovalForParams = None, tl_approvalWarningsForParams = None,
      tl_execute = (\<lambda>p w. (Inr \<lparr>tr_output = ''ok'', tr_isError = False\<rparr>, w))\<rparr>"

definition sample_registry :: "nat tool_registry" where
  "sample_registry = (new_registry None)\<lparr>tr_tools := [(''t'', sample_tool)]\<rparr>"

theorem tool_input_conforms_witness:
  "(let casted = cast_object [] (tl_parameters sample_tool)
    in prepare sample_registry ''t'' [] =
      (if conforms casted (tl_parameters sample_tool)
       then Inr (sample_tool, strip_unknown_keys casted (tl_parameters sample_tool))
       else Inl (error_result (join newline (validate_object casted (tl_parameters sample_tool) [])))))"
proof -
  have "get_tool ''t'' sample_registry = Some sample_tool" "\<not> tl_rawParams sample_tool"
    by (simp_all add: sample_registry_def get_tool_def new_registry_def sample_tool_def)
  then show ?thesis
    using tool_input_conforms [of "''t''" sample_registry sample_tool "[]"] by (simp add: Let_def)
qed

section \<open>Consent before execution\<close>

context consent_gate
begin

lemma authorize_consent:
  assumes ctx: "\<And>ctx. tr_approvalContext reg = Some ctx \<Longrightarrow> ac_gate ctx = gate_call"
    and auth: "authorize reg tool params w = (Inr None, w')"
    and need: "needs_approval tool params"
  obtains ctx where "tr_approvalContext reg = Some ctx" "consent (gate_request ctx tool params) w"
proof -
  obtain ctx where c: "tr_approvalContext reg = Some ctx"
    using auth need by (auto simp: authorize_def split: option.splits)
  have "gate_call (gate_request ctx tool params) w = (Inr Allowed, w')"
    using auth need c ctx [OF c]
    by (auto simp: authorize_def split: prod.splits sum.splits gate_result.splits)
  then show ?thesis using that c allowed_consent by blast
qed

end

lemma execute_needs_authorize:
  assumes "execute reg name params w = (r, w')"
  shows "(\<exists>tool p w1. prepare reg name params = Inr (tool, p) \<and> authorize reg tool p w = (Inr None, w1) \<and>
            w' = snd (tl_execute tool p w1)) \<or>
         (\<exists>tool p. prepare reg name params = Inr (tool, p) \<and> fst (authorize reg tool p w) \<noteq> Inr None \<and>
            w' = snd (authorize reg tool p w)) \<or>
         (\<exists>e. prepare reg name params = Inl e \<and> r = Inr e \<and> w' = w)"
  using assms
  by (auto simp: execute_def run_and_post_process_def split: sum.splits prod.splits option.splits)

text \<open>C11: a tool that needs approval for its arguments runs only with consent: with the approval
  service as the gate, every call of \<open>execute\<close> either leaves the tool unrun (an error result or an
  exception, the world being what the gate left) or runs it once on prepared arguments, and then
  either no approval was needed or the user's consent covers this very request. Without an approval
  context the call is blocked and nothing changes.\<close>

theorem registry_requires_consent:
  assumes ctx: "\<And>ctx. tr_approvalContext reg = Some ctx \<Longrightarrow> ac_gate ctx = service_gate env wait"
    and run: "execute reg name params w = (r, w')"
  shows "(\<exists>tool p w1 out. prepare reg name params = Inr (tool, p) \<and>
            tl_execute tool p w1 = (out, w') \<and> r = Inr (post_process (tr_maxOutputChars reg) out) \<and>
            (needs_approval tool p \<longrightarrow>
               (\<exists>ctx. tr_approvalContext reg = Some ctx \<and> consented env wait (gate_request ctx tool p) w)) \<and>
            (\<not> needs_approval tool p \<longrightarrow> w1 = w)) \<or>
         (\<exists>tool p. prepare reg name params = Inr (tool, p) \<and> needs_approval tool p \<and>
            (case tr_approvalContext reg of
               None \<Rightarrow> r = Inr \<lparr>tr_output = blocked_no_context (tl_name tool), tr_isError = True\<rparr> \<and> w' = w
             | Some ctx \<Rightarrow>
                 (\<exists>m. gate env wait (gate_request ctx tool p) w = (Blocked m, w') \<and> r = Inr (error_result m)))) \<or>
         (\<exists>e. prepare reg name params = Inl e \<and> tr_isError e \<and> r = Inr e \<and> w' = w)"
proof (cases "prepare reg name params")
  case (Inl e)
  then have "tr_isError e"
    by (auto simp: prepare_def error_result_def Let_def split: option.splits if_splits)
  then show ?thesis using Inl run by (simp add: execute_def)
next
  case (Inr tp)
  obtain tool p where tp: "tp = (tool, p)" by (cases tp)
  have run': "run_and_post_process reg tool p w = (r, w')" using run Inr tp by (simp add: execute_def)
  show ?thesis
  proof (cases "fst (authorize reg tool p w) = Inr None")
    case True
    then obtain w1 where a: "authorize reg tool p w = (Inr None, w1)" by (cases "authorize reg tool p w") auto
    have "needs_approval tool p \<Longrightarrow>
        \<exists>ctx. tr_approvalContext reg = Some ctx \<and> consented env wait (gate_request ctx tool p) w"
      using approval_service.authorize_consent [OF ctx a] by blast
    moreover have "\<not> needs_approval tool p \<Longrightarrow> w1 = w" using a by (simp add: authorize_def)
    moreover obtain out where "tl_execute tool p w1 = (out, w')" "r = Inr (post_process (tr_maxOutputChars reg) out)"
      using run' a by (auto simp: run_and_post_process_def split: prod.splits)
    ultimately show ?thesis using Inr tp by blast
  next
    case False
    then have need: "needs_approval tool p"
      unfolding authorize_def by (cases "needs_approval tool p") simp_all
    show ?thesis
    proof (cases "tr_approvalContext reg")
      case None
      then show ?thesis using need run' Inr tp by (simp add: run_and_post_process_def authorize_def)
    next
      case (Some c)
      show ?thesis
        using need run' Inr tp Some ctx [OF Some] False
        by (auto simp: run_and_post_process_def authorize_def service_gate_def apfst_def map_prod_def
            split: prod.splits gate_result.splits)
    qed
  qed
qed

definition sample_guarded_tool :: "approval_state tool" where
  "sample_guarded_tool =
     \<lparr>tl_name = ''t'', tl_description = [], tl_parameters = sample_schema, tl_rawParams = True,
      tl_requiresApproval = True, tl_approvalScope = None, tl_resourceKeyFromParams = None,
      tl_requiresApprovalForParams = None, tl_approvalWarningsForParams = None,
      tl_execute = (\<lambda>p w. (Inr \<lparr>tr_output = ''ok'', tr_isError = False\<rparr>, w))\<rparr>"

definition sample_guarded_registry :: "approval_state tool_registry" where
  "sample_guarded_registry = (new_registry None)\<lparr>tr_tools := [(''t'', sample_guarded_tool)]\<rparr>"

theorem registry_requires_consent_witness:
  "\<exists>tool p. prepare sample_guarded_registry ''t'' [] = Inr (tool, p) \<and> needs_approval tool p \<and>
     fst (execute sample_guarded_registry ''t'' [] sample_approvals) =
       Inr \<lparr>tr_output = blocked_no_context (tl_name tool), tr_isError = True\<rparr>"
proof -
  note defs = sample_guarded_registry_def new_registry_def get_tool_def prepare_def sample_guarded_tool_def
    needs_approval_def
  have prep: "prepare sample_guarded_registry ''t'' [] = Inr (sample_guarded_tool, [])"
    and need: "needs_approval sample_guarded_tool []"
    and none: "tr_approvalContext sample_guarded_registry = None"
    by (simp_all add: defs)
  obtain r w' where e: "execute sample_guarded_registry ''t'' [] sample_approvals = (r, w')" by fastforce
  show ?thesis
    using registry_requires_consent [OF _ e, of undefined undefined] prep need none e by auto
qed

section \<open>What a call returns\<close>

lemma truncate_bound: "length (truncate_output n s) \<le> n + 17"
  by (simp add: truncate_output_def newline_def)

text \<open>What a tool returns is bounded: a result the tool returns reaches the model with its error
  flag, unchanged when it is a short success, and never longer than the registry's limit plus the
  truncation marker and the analysis hint. An exception becomes an error result with the whole
  message, which nothing shortens.\<close>

theorem tool_output_bounded:
  "(let out = post_process n (Inr res) in
      tr_isError out = tr_isError res \<and>
      length (tr_output out) \<le> n + 17 + length analyze_hint \<and>
      (\<not> tr_isError res \<and> length (tr_output res) \<le> n \<longrightarrow> out = res)) \<and>
   post_process n (Inl err) = \<lparr>tr_output = thrown_text err @ analyze_hint, tr_isError = True\<rparr>"
  using truncate_bound [of n "tr_output res"]
  by (auto simp: post_process_def Let_def error_result_def truncate_output_def)

theorem tool_output_bounded_witness:
  "post_process 5 (Inr \<lparr>tr_output = ''abc'', tr_isError = False\<rparr>) = \<lparr>tr_output = ''abc'', tr_isError = False\<rparr>"
  using tool_output_bounded [of 5 "\<lparr>tr_output = ''abc'', tr_isError = False\<rparr>"] by (simp add: Let_def)

text \<open>A key every JavaScript object inherits passes the stripping of unknown keys.\<close>

theorem inherited_key_is_kept:
  "(''constructor'', JStr ''x'') \<in> set (strip_unknown_keys [(''constructor'', JStr ''x'')] sample_schema)"
  by (simp add: strip_unknown_keys_def sample_schema_def key_in_def object_prototype_names_def)

end
