(* ===== verification/ContainerPool.thy ===== *)
theory ContainerPool
  imports ErrorClassifier
begin

text \<open>
  \<open>engine/container-pool.service.ts\<close>: warm containers keyed by session, with a per-session lock,
  idle timers, least-recently-used eviction and an ephemeral overflow. Every definition is a
  synchronous stretch of the service between two \<open>await\<close>s, or their composition over a container
  runner (\<open>rn_start\<close>, \<open>rn_exec\<close>, \<open>rn_stop\<close>: the Docker CLI behind \<open>IContainerRunner\<close>, a parameter).
  Association lists are the \<open>Map\<close>s, in insertion order. Log lines and metrics are left out.
\<close>

section \<open>Configuration and state\<close>

record pool_config =
  pc_maxWarmContainers :: nat
  pc_maxEphemeralContainers :: nat
  pc_defaultIdleTimeoutSec :: nat
  pc_maxIdleTimeoutSec :: nat
  pc_maxContainerLifetimeSec :: nat
  pc_healthCheckIntervalSec :: nat
  pc_lockTimeoutMs :: nat
  pc_acquireWaitTimeoutMs :: nat

definition default_pool_config :: pool_config where
  "default_pool_config =
     \<lparr>pc_maxWarmContainers = 20, pc_maxEphemeralContainers = 10, pc_defaultIdleTimeoutSec = 300,
      pc_maxIdleTimeoutSec = 1800, pc_maxContainerLifetimeSec = 3600, pc_healthCheckIntervalSec = 60,
      pc_lockTimeoutMs = 60000, pc_acquireWaitTimeoutMs = 30000\<rparr>"

datatype entry_status = Active | Idle

record pool_entry =
  pe_containerId :: string
  pe_agentDefId :: string
  pe_sessionId :: string
  pe_startedAt :: nat
  pe_status :: entry_status
  pe_lastUsedAt :: nat
  pe_idleTimer :: "nat option"
  pe_ephemeral :: bool

record pool_stats =
  ps_active :: nat
  ps_idle :: nat
  ps_ephemeral :: nat
  ps_total :: nat

record agent_def =
  ad_id :: string
  ad_idleTimeoutSeconds :: "nat option"

text \<open>A lock is the number of its promise; a pending timer remembers the session and the container
  its callback stops.\<close>

record container_pool =
  cp_pool :: "(string \<times> pool_entry) list"
  cp_locks :: "(string \<times> nat) list"
  cp_sessionIdleTimeouts :: "(string \<times> nat) list"
  cp_timers :: "(nat \<times> string \<times> string) list"
  cp_now :: nat
  cp_nextRef :: nat

definition empty_pool :: container_pool where
  "empty_pool = \<lparr>cp_pool = [], cp_locks = [], cp_sessionIdleTimeouts = [], cp_timers = [], cp_now = 0, cp_nextRef = 0\<rparr>"

section \<open>Locks and timers\<close>

definition release_lock :: "string \<Rightarrow> container_pool \<Rightarrow> container_pool" where
  "release_lock s st = st\<lparr>cp_locks := del_assoc s (cp_locks st)\<rparr>"

definition set_lock :: "string \<Rightarrow> container_pool \<Rightarrow> container_pool" where
  "set_lock s st = st\<lparr>cp_locks := upd_assoc s (cp_nextRef st) (cp_locks st), cp_nextRef := Suc (cp_nextRef st)\<rparr>"

text \<open>One turn of the loop of \<open>acquireLock\<close>: the promise to wait for, or the lock is taken.\<close>

definition try_lock :: "string \<Rightarrow> nat \<Rightarrow> container_pool \<Rightarrow> nat option \<times> container_pool" where
  "try_lock s deadline st =
     (case map_of (cp_locks st) s of
        None \<Rightarrow> (None, set_lock s st)
      | Some lock \<Rightarrow>
          if deadline < cp_now st then (None, set_lock s (release_lock s st)) else (Some lock, st))"

definition clear_timer :: "nat option \<Rightarrow> container_pool \<Rightarrow> container_pool" where
  "clear_timer t st =
     (case t of None \<Rightarrow> st | Some i \<Rightarrow> st\<lparr>cp_timers := del_assoc i (cp_timers st)\<rparr>)"

definition start_timer :: "string \<Rightarrow> string \<Rightarrow> container_pool \<Rightarrow> nat \<times> container_pool" where
  "start_timer s cid st =
     (cp_nextRef st,
      st\<lparr>cp_timers := (cp_nextRef st, s, cid) # cp_timers st, cp_nextRef := Suc (cp_nextRef st)\<rparr>)"

definition put_entry :: "string \<Rightarrow> pool_entry \<Rightarrow> container_pool \<Rightarrow> container_pool" where
  "put_entry s e st = st\<lparr>cp_pool := upd_assoc s e (cp_pool st)\<rparr>"

text \<open>What \<open>stopAndRemove\<close> does before it awaits the runner.\<close>

definition forget_session :: "string \<Rightarrow> container_pool \<Rightarrow> container_pool" where
  "forget_session s st =
     st\<lparr>cp_pool := del_assoc s (cp_pool st), cp_sessionIdleTimeouts := del_assoc s (cp_sessionIdleTimeouts st)\<rparr>"

section \<open>Acquiring\<close>

definition idle_timeout_for :: "pool_config \<Rightarrow> agent_def \<Rightarrow> nat" where
  "idle_timeout_for cfg agent =
     min (case ad_idleTimeoutSeconds agent of None \<Rightarrow> pc_defaultIdleTimeoutSec cfg | Some n \<Rightarrow> n)
         (pc_maxIdleTimeoutSec cfg)"

definition expired_entry :: "pool_config \<Rightarrow> pool_entry \<Rightarrow> container_pool \<Rightarrow> bool" where
  "expired_entry cfg e st \<longleftrightarrow> int (pc_maxContainerLifetimeSec cfg) * 1000 < int (cp_now st) - int (pe_startedAt e)"

datatype acquire_next = NeedFresh | MustRecycle string | MustCheck pool_entry

definition acquire_begin :: "pool_config \<Rightarrow> agent_def \<Rightarrow> string \<Rightarrow> container_pool \<Rightarrow> acquire_next \<times> container_pool" where
  "acquire_begin cfg agent s st =
     (let st1 = st\<lparr>cp_sessionIdleTimeouts := upd_assoc s (idle_timeout_for cfg agent) (cp_sessionIdleTimeouts st)\<rparr>
      in case map_of (cp_pool st1) s of
           None \<Rightarrow> (NeedFresh, st1)
         | Some e \<Rightarrow>
             (let st2 = clear_timer (pe_idleTimer e) st1
              in if expired_entry cfg e st2 then (MustRecycle (pe_containerId e), forget_session s st2)
                 else (MustCheck e, st2)))"

definition reuse_entry :: "string \<Rightarrow> pool_entry \<Rightarrow> container_pool \<Rightarrow> container_pool" where
  "reuse_entry s existing st =
     put_entry s (existing\<lparr>pe_status := Active, pe_lastUsedAt := cp_now st, pe_idleTimer := None\<rparr>) st"

text \<open>The idle entry used least recently; the first of several in insertion order.\<close>

fun find_oldest :: "(string \<times> pool_entry) list \<Rightarrow> (string \<times> pool_entry) option \<Rightarrow> (string \<times> pool_entry) option" where
  "find_oldest [] oldest = oldest"
| "find_oldest ((s, e) # es) oldest =
     (if pe_status e \<noteq> Idle then find_oldest es oldest
      else case oldest of
             None \<Rightarrow> find_oldest es (Some (s, e))
           | Some (s', o') \<Rightarrow>
               if pe_lastUsedAt e < pe_lastUsedAt o' then find_oldest es (Some (s, e))
               else find_oldest es oldest)"

definition evict_lru :: "container_pool \<Rightarrow> (string \<times> container_pool) option" where
  "evict_lru st =
     (case find_oldest (cp_pool st) None of
        None \<Rightarrow> None
      | Some (s, e) \<Rightarrow> Some (pe_containerId e, forget_session s (clear_timer (pe_idleTimer e) st)))"

definition warm_count :: "container_pool \<Rightarrow> nat" where
  "warm_count st = length (filter (\<lambda>(s, e). \<not> pe_ephemeral e) (cp_pool st))"

definition ephemeral_count :: "container_pool \<Rightarrow> nat" where
  "ephemeral_count st = length (filter (\<lambda>(s, e). pe_ephemeral e) (cp_pool st))"

datatype fresh_next = PoolFull | EvictFirst string | StartNow bool

definition fresh_begin :: "pool_config \<Rightarrow> container_pool \<Rightarrow> fresh_next \<times> container_pool" where
  "fresh_begin cfg st =
     (if pc_maxWarmContainers cfg \<le> warm_count st then
        (case evict_lru st of
           Some (cid, st') \<Rightarrow> (EvictFirst cid, st')
         | None \<Rightarrow>
             if pc_maxEphemeralContainers cfg \<le> ephemeral_count st then (PoolFull, st)
             else (StartNow True, st))
      else (StartNow False, st))"

definition fresh_finish :: "agent_def \<Rightarrow> string \<Rightarrow> string \<Rightarrow> bool \<Rightarrow> container_pool \<Rightarrow> container_pool" where
  "fresh_finish agent s cid isEphemeral st =
     put_entry s \<lparr>pe_containerId = cid, pe_agentDefId = ad_id agent, pe_sessionId = s, pe_startedAt = cp_now st,
                  pe_status = Active, pe_lastUsedAt = cp_now st, pe_idleTimer = None, pe_ephemeral = isEphemeral\<rparr> st"

section \<open>Releasing, evicting, draining, watching\<close>

text \<open>\<open>release\<close>, with the container it stops in the background.\<close>

definition release :: "pool_config \<Rightarrow> string \<Rightarrow> container_pool \<Rightarrow> string option \<times> container_pool" where
  "release cfg s st =
     (case map_of (cp_pool st) s of
        None \<Rightarrow> (None, release_lock s st)
      | Some e \<Rightarrow>
          (let idleTimeout = (case map_of (cp_sessionIdleTimeouts st) s of
                                None \<Rightarrow> pc_defaultIdleTimeoutSec cfg | Some n \<Rightarrow> n)
           in if pe_ephemeral e \<or> idleTimeout = 0
              then (Some (pe_containerId e), release_lock s (forget_session s st))
              else (case start_timer s (pe_containerId e) st of
                      (t, st1) \<Rightarrow>
                        (None, release_lock s
                           (put_entry s (e\<lparr>pe_status := Idle, pe_lastUsedAt := cp_now st1, pe_idleTimer := Some t\<rparr>) st1)))))"

definition evict_begin :: "string \<Rightarrow> container_pool \<Rightarrow> string option \<times> container_pool" where
  "evict_begin s st =
     (case map_of (cp_pool st) s of
        None \<Rightarrow> (None, st)
      | Some e \<Rightarrow> (Some (pe_containerId e), forget_session s (clear_timer (pe_idleTimer e) st)))"

text \<open>\<open>drainAll\<close> up to its \<open>await\<close>: the containers to stop, all timers cleared.\<close>

definition drain_begin :: "container_pool \<Rightarrow> string list \<times> container_pool" where
  "drain_begin st =
     (map (\<lambda>(s, e). pe_containerId e) (cp_pool st),
      fold (\<lambda>(s, e). clear_timer (pe_idleTimer e)) (cp_pool st) (st\<lparr>cp_pool := [], cp_sessionIdleTimeouts := []\<rparr>))"

definition release_all_locks :: "container_pool \<Rightarrow> container_pool" where
  "release_all_locks st = st\<lparr>cp_locks := []\<rparr>"

definition count_stat :: "pool_stats \<Rightarrow> string \<times> pool_entry \<Rightarrow> pool_stats" where
  "count_stat acc p =
     (let e = snd p in
      if pe_ephemeral e then acc\<lparr>ps_ephemeral := Suc (ps_ephemeral acc)\<rparr>
      else if pe_status e = Active then acc\<lparr>ps_active := Suc (ps_active acc)\<rparr>
      else acc\<lparr>ps_idle := Suc (ps_idle acc)\<rparr>)"

definition pool_stats_of :: "container_pool \<Rightarrow> pool_stats" where
  "pool_stats_of st =
     (foldl count_stat \<lparr>ps_active = 0, ps_idle = 0, ps_ephemeral = 0, ps_total = 0\<rparr> (cp_pool st))
       \<lparr>ps_total := length (cp_pool st)\<rparr>"

text \<open>The callback of an idle timer, and one visit of the health check.\<close>

definition idle_fires :: "nat \<Rightarrow> container_pool \<Rightarrow> (string \<times> container_pool) option" where
  "idle_fires t st =
     (case map_of (cp_timers st) t of
        None \<Rightarrow> None
      | Some (s, cid) \<Rightarrow> Some (cid, forget_session s (clear_timer (Some t) st)))"

datatype health_next = Skip | RemoveExpired string | CheckIdle pool_entry

definition health_begin :: "pool_config \<Rightarrow> string \<Rightarrow> container_pool \<Rightarrow> health_next \<times> container_pool" where
  "health_begin cfg s st =
     (case map_of (cp_pool st) s of
        None \<Rightarrow> (Skip, st)
      | Some e \<Rightarrow>
          if pe_status e \<noteq> Idle then (Skip, st)
          else if expired_entry cfg e st
          then (RemoveExpired (pe_containerId e), forget_session s (clear_timer (pe_idleTimer e) st))
          else (CheckIdle e, st))"

definition health_dead :: "string \<Rightarrow> pool_entry \<Rightarrow> container_pool \<Rightarrow> container_pool" where
  "health_dead s e st = forget_session s (clear_timer (pe_idleTimer e) st)"

section \<open>Whole operations over a container runner\<close>

record 'w container_runner =
  rn_start :: "agent_def \<Rightarrow> 'w \<Rightarrow> (thrown + string) \<times> 'w"
  rn_exec :: "string \<Rightarrow> 'w \<Rightarrow> (thrown + nat) \<times> 'w"
  rn_stop :: "string \<Rightarrow> 'w \<Rightarrow> (thrown + unit) \<times> 'w"

definition pool_full_error :: thrown where
  "pool_full_error =
     ThrownError (ErrorObj (''Container pool is full '' @ em_dash @ '' no slots available. Please try again.'') None None None)"

definition stop_container :: "'w container_runner \<Rightarrow> string \<Rightarrow> 'w \<Rightarrow> 'w" where
  "stop_container rn cid w = snd (rn_stop rn cid w)"

definition is_alive :: "'w container_runner \<Rightarrow> string \<Rightarrow> 'w \<Rightarrow> bool \<times> 'w" where
  "is_alive rn cid w = (case rn_exec rn cid w of (Inl e, w') \<Rightarrow> (False, w') | (Inr code, w') \<Rightarrow> (code = 0, w'))"

definition run_start ::
  "'w container_runner \<Rightarrow> agent_def \<Rightarrow> string \<Rightarrow> bool \<Rightarrow> container_pool \<Rightarrow> 'w \<Rightarrow> (thrown + string) \<times> container_pool \<times> 'w" where
  "run_start rn agent s isEphemeral st w =
     (case rn_start rn agent w of
        (Inl e, w') \<Rightarrow> (Inl e, st, w')
      | (Inr cid, w') \<Rightarrow> (Inr cid, fresh_finish agent s cid isEphemeral st, w'))"

definition start_fresh ::
  "pool_config \<Rightarrow> 'w container_runner \<Rightarrow> agent_def \<Rightarrow> string \<Rightarrow> container_pool \<Rightarrow> 'w \<Rightarrow> (thrown + string) \<times> container_pool \<times> 'w" where
  "start_fresh cfg rn agent s st w =
     (case fresh_begin cfg st of
        (PoolFull, st') \<Rightarrow> (Inl pool_full_error, st', w)
      | (EvictFirst cid, st') \<Rightarrow> run_start rn agent s False st' (stop_container rn cid w)
      | (StartNow isEphemeral, st') \<Rightarrow> run_start rn agent s isEphemeral st' w)"

text \<open>The body of \<open>acquire\<close>, the lock being held; \<open>None\<close> would be a wait.\<close>

definition acquire_body ::
  "pool_config \<Rightarrow> 'w container_runner \<Rightarrow> agent_def \<Rightarrow> string \<Rightarrow> container_pool \<Rightarrow> 'w \<Rightarrow> (thrown + string) \<times> container_pool \<times> 'w" where
  "acquire_body cfg rn agent s st w =
     (case acquire_begin cfg agent s st of
        (NeedFresh, st1) \<Rightarrow> start_fresh cfg rn agent s st1 w
      | (MustRecycle cid, st1) \<Rightarrow> start_fresh cfg rn agent s st1 (stop_container rn cid w)
      | (MustCheck existing, st1) \<Rightarrow>
          (case is_alive rn (pe_containerId existing) w of
             (True, w1) \<Rightarrow> (Inr (pe_containerId existing), reuse_entry s existing st1, w1)
           | (False, w1) \<Rightarrow>
               start_fresh cfg rn agent s (forget_session s st1) (stop_container rn (pe_containerId existing) w1)))"

definition acquire ::
  "pool_config \<Rightarrow> 'w container_runner \<Rightarrow> agent_def \<Rightarrow> string \<Rightarrow> container_pool \<Rightarrow> 'w \<Rightarrow>
     ((thrown + string) \<times> container_pool \<times> 'w) option" where
  "acquire cfg rn agent s st w =
     (case try_lock s (cp_now st + pc_lockTimeoutMs cfg) st of
        (Some lock, st') \<Rightarrow> None
      | (None, st') \<Rightarrow>
          (case acquire_body cfg rn agent s st' w of
             (Inl e, st1, w1) \<Rightarrow> Some (Inl e, release_lock s st1, w1)
           | (Inr cid, st1, w1) \<Rightarrow> Some (Inr cid, st1, w1)))"

definition evict :: "'w container_runner \<Rightarrow> string \<Rightarrow> container_pool \<Rightarrow> 'w \<Rightarrow> container_pool \<times> 'w" where
  "evict rn s st w =
     (case evict_begin s st of
        (None, st') \<Rightarrow> (st', w)
      | (Some cid, st') \<Rightarrow> (release_lock s st', stop_container rn cid w))"

definition drain_all :: "'w container_runner \<Rightarrow> container_pool \<Rightarrow> 'w \<Rightarrow> container_pool \<times> 'w" where
  "drain_all rn st w =
     (case drain_begin st of (cids, st') \<Rightarrow> (release_all_locks st', fold (stop_container rn) cids w))"

definition health_visit ::
  "pool_config \<Rightarrow> 'w container_runner \<Rightarrow> string \<Rightarrow> container_pool \<times> 'w \<Rightarrow> container_pool \<times> 'w" where
  "health_visit cfg rn s stw =
     (case stw of (st, w) \<Rightarrow>
       (case health_begin cfg s st of
          (Skip, st') \<Rightarrow> (st', w)
        | (RemoveExpired cid, st') \<Rightarrow> (st', stop_container rn cid w)
        | (CheckIdle e, st') \<Rightarrow>
            (case is_alive rn (pe_containerId e) w of
               (True, w') \<Rightarrow> (st', w')
             | (False, w') \<Rightarrow> (health_dead s e st', stop_container rn (pe_containerId e) w'))))"

definition run_health_check ::
  "pool_config \<Rightarrow> 'w container_runner \<Rightarrow> container_pool \<Rightarrow> 'w \<Rightarrow> container_pool \<times> 'w" where
  "run_health_check cfg rn st w = fold (health_visit cfg rn) (map fst (cp_pool st)) (st, w)"

section \<open>The pool invariant\<close>

text \<open>The containers the pool knows.\<close>

definition pool_containers :: "container_pool \<Rightarrow> string set" where
  "pool_containers st = {pe_containerId e |s e. map_of (cp_pool st) s = Some e}"

definition entry_ok :: "container_pool \<Rightarrow> string \<Rightarrow> pool_entry \<Rightarrow> bool" where
  "entry_ok st s e \<longleftrightarrow>
     pe_sessionId e = s \<and>
     (case pe_status e of
        Idle \<Rightarrow> \<not> pe_ephemeral e \<and>
                (case pe_idleTimer e of None \<Rightarrow> False | Some t \<Rightarrow> map_of (cp_timers st) t = Some (s, pe_containerId e))
      | Active \<Rightarrow> pe_idleTimer e = None \<and> map_of (cp_locks st) s \<noteq> None)"

definition timer_ok :: "container_pool \<Rightarrow> nat \<Rightarrow> string \<Rightarrow> string \<Rightarrow> bool" where
  "timer_ok st t s cid \<longleftrightarrow>
     t < cp_nextRef st \<and>
     (case map_of (cp_pool st) s of
        None \<Rightarrow> False
      | Some e \<Rightarrow> pe_idleTimer e = Some t \<and> pe_containerId e = cid)"

definition entries_ok :: "container_pool \<Rightarrow> bool" where
  "entries_ok st \<longleftrightarrow>
     distinct (map fst (cp_pool st)) \<and>
     (\<forall>s e. map_of (cp_pool st) s = Some e \<longrightarrow> entry_ok st s e) \<and>
     (\<forall>t s cid. map_of (cp_timers st) t = Some (s, cid) \<longrightarrow> timer_ok st t s cid) \<and>
     (\<forall>s e s' e'. map_of (cp_pool st) s = Some e \<longrightarrow> map_of (cp_pool st) s' = Some e' \<longrightarrow>
        pe_containerId e = pe_containerId e' \<longrightarrow> s = s')"

definition within_limits :: "pool_config \<Rightarrow> container_pool \<Rightarrow> bool" where
  "within_limits cfg st \<longleftrightarrow>
     warm_count st \<le> pc_maxWarmContainers cfg \<and> ephemeral_count st \<le> pc_maxEphemeralContainers cfg"

definition pool_ok :: "pool_config \<Rightarrow> container_pool \<Rightarrow> bool" where
  "pool_ok cfg st \<longleftrightarrow> entries_ok st \<and> within_limits cfg st"

lemma entry_ok_iff:
  "entry_ok st s e \<longleftrightarrow>
     pe_sessionId e = s \<and>
     (pe_status e = Idle \<longrightarrow> \<not> pe_ephemeral e \<and>
        pe_idleTimer e \<noteq> None \<and> map_of (cp_timers st) (the (pe_idleTimer e)) = Some (s, pe_containerId e)) \<and>
     (pe_status e = Active \<longrightarrow> pe_idleTimer e = None \<and> map_of (cp_locks st) s \<noteq> None)"
  by (auto simp: entry_ok_def split: entry_status.splits option.splits)

lemma timer_ok_iff:
  "timer_ok st t s cid \<longleftrightarrow>
     t < cp_nextRef st \<and> (\<exists>e. map_of (cp_pool st) s = Some e \<and> pe_idleTimer e = Some t \<and> pe_containerId e = cid)"
  by (auto simp: timer_ok_def split: option.splits)

lemma warm_count_if: "warm_count st = count_if (\<lambda>p. \<not> pe_ephemeral (snd p)) (cp_pool st)"
  by (simp add: warm_count_def count_if_def case_prod_unfold)

lemma ephemeral_count_if: "ephemeral_count st = count_if (\<lambda>p. pe_ephemeral (snd p)) (cp_pool st)"
  by (simp add: ephemeral_count_def count_if_def case_prod_unfold)

lemmas counts = warm_count_if ephemeral_count_if

lemma entries_okD:
  assumes "entries_ok st"
  shows entries_distinct: "distinct (map fst (cp_pool st))"
    and entries_entry: "map_of (cp_pool st) s = Some e \<Longrightarrow> entry_ok st s e"
    and entries_timer: "map_of (cp_timers st) t = Some (s, cid) \<Longrightarrow> timer_ok st t s cid"
    and entries_inj: "map_of (cp_pool st) s = Some e \<Longrightarrow> map_of (cp_pool st) s' = Some e' \<Longrightarrow>
        pe_containerId e = pe_containerId e' \<Longrightarrow> s = s'"
  using assms by (simp_all add: entries_ok_def)

lemma entries_okI:
  assumes "distinct (map fst (cp_pool st))"
    and "\<And>s e. map_of (cp_pool st) s = Some e \<Longrightarrow> entry_ok st s e"
    and "\<And>t s cid. map_of (cp_timers st) t = Some (s, cid) \<Longrightarrow> timer_ok st t s cid"
    and "\<And>s e s' e'. map_of (cp_pool st) s = Some e \<Longrightarrow> map_of (cp_pool st) s' = Some e' \<Longrightarrow>
        pe_containerId e = pe_containerId e' \<Longrightarrow> s = s'"
  shows "entries_ok st"
  unfolding entries_ok_def using assms by blast

lemma pool_of_simps [simp]:
  "cp_pool (release_lock s st) = cp_pool st" "cp_timers (release_lock s st) = cp_timers st"
  "cp_nextRef (release_lock s st) = cp_nextRef st" "cp_now (release_lock s st) = cp_now st"
  "cp_locks (release_lock s st) = del_assoc s (cp_locks st)"
  "cp_pool (set_lock s st) = cp_pool st" "cp_timers (set_lock s st) = cp_timers st"
  "cp_nextRef (set_lock s st) = Suc (cp_nextRef st)" "cp_now (set_lock s st) = cp_now st"
  "cp_locks (set_lock s st) = upd_assoc s (cp_nextRef st) (cp_locks st)"
  "cp_pool (clear_timer t st) = cp_pool st" "cp_locks (clear_timer t st) = cp_locks st"
  "cp_nextRef (clear_timer t st) = cp_nextRef st" "cp_now (clear_timer t st) = cp_now st"
  "cp_pool (forget_session s st) = del_assoc s (cp_pool st)" "cp_timers (forget_session s st) = cp_timers st"
  "cp_locks (forget_session s st) = cp_locks st" "cp_nextRef (forget_session s st) = cp_nextRef st"
  "cp_now (forget_session s st) = cp_now st"
  "cp_pool (put_entry s e st) = upd_assoc s e (cp_pool st)" "cp_timers (put_entry s e st) = cp_timers st"
  "cp_locks (put_entry s e st) = cp_locks st" "cp_nextRef (put_entry s e st) = cp_nextRef st"
  "cp_now (put_entry s e st) = cp_now st"
  by (simp_all add: release_lock_def set_lock_def clear_timer_def forget_session_def put_entry_def split: option.split)

lemma timers_clear [simp]:
  "cp_timers (clear_timer None st) = cp_timers st"
  "cp_timers (clear_timer (Some t) st) = del_assoc t (cp_timers st)"
  by (simp_all add: clear_timer_def)

section \<open>Preservation by the synchronous stretches\<close>

lemma forget_ok:
  assumes ok: "entries_ok st" and e: "map_of (cp_pool st) s = Some e"
  shows "entries_ok (forget_session s (clear_timer (pe_idleTimer e) st))"
proof -
  let ?st = "forget_session s (clear_timer (pe_idleTimer e) st)"
  note eok = entries_entry [OF ok]
  note tok = entries_timer [OF ok]
  have timer_s: "pe_idleTimer e = Some t" if "map_of (cp_timers st) t = Some (s, cid)" for t cid
    using tok [OF that] e by (simp add: timer_ok_iff)
  have entry: "entry_ok ?st s' e'" if "s' \<noteq> s" "map_of (cp_pool st) s' = Some e'" for s' e'
  proof -
    have "pe_idleTimer e \<noteq> Some t" if "map_of (cp_timers st) t = Some (s', pe_containerId e')" for t
      using eok [OF e] that \<open>s' \<noteq> s\<close>
      by (cases "pe_status e") (auto simp: entry_ok_iff)
    then show ?thesis using eok [OF that(2)]
      by (cases "pe_idleTimer e") (auto simp: entry_ok_iff)
  qed
  have timer: "timer_ok ?st t s' cid" if "map_of (cp_timers ?st) t = Some (s', cid)" for t s' cid
  proof -
    have t: "map_of (cp_timers st) t = Some (s', cid)" "pe_idleTimer e \<noteq> Some t"
      using that by (cases "pe_idleTimer e"; auto split: if_splits)+
    then have "s' \<noteq> s" using timer_s by auto
    then show ?thesis using tok [OF t(1)] by (simp add: timer_ok_iff)
  qed
  show ?thesis
    unfolding entries_ok_def
    using entry timer entries_distinct [OF ok] entries_inj [OF ok]
    by (auto split: if_splits)
qed

lemma forget_limits: "within_limits cfg st \<Longrightarrow> within_limits cfg (forget_session s (clear_timer t st))"
  using count_if_del_assoc_le
  by (fastforce simp: within_limits_def counts intro: order.trans)

lemma forget_pool_ok:
  "pool_ok cfg st \<Longrightarrow> map_of (cp_pool st) s = Some e \<Longrightarrow>
   pool_ok cfg (forget_session s (clear_timer (pe_idleTimer e) st))"
  by (simp add: pool_ok_def forget_ok forget_limits)

lemma idle_timeouts_irrelevant:
  "pool_ok cfg (cp_sessionIdleTimeouts_update f st) = pool_ok cfg st"
  by (simp add: pool_ok_def entries_ok_def within_limits_def counts entry_ok_iff timer_ok_iff)

lemma set_lock_ok: "pool_ok cfg st \<Longrightarrow> pool_ok cfg (set_lock s st)"
  by (auto simp: pool_ok_def entries_ok_def within_limits_def counts entry_ok_iff timer_ok_iff less_Suc_eq)

lemma release_lock_ok:
  assumes "pool_ok cfg st" and "\<And>e. map_of (cp_pool st) s = Some e \<Longrightarrow> pe_status e = Idle"
  shows "pool_ok cfg (release_lock s st)"
proof -
  have "entry_ok (release_lock s st) s' e" if "map_of (cp_pool st) s' = Some e" for s' e
    using entries_entry [of st s' e] assms that by (auto simp: pool_ok_def entry_ok_iff)
  moreover have ok: "entries_ok st" using assms(1) by (simp add: pool_ok_def)
  ultimately have "entries_ok (release_lock s st)"
    using entries_distinct [OF ok] entries_inj [OF ok] entries_timer [OF ok]
    by (intro entries_okI) (auto simp: timer_ok_iff)
  then show ?thesis using assms(1) by (simp add: pool_ok_def within_limits_def counts)
qed

lemma put_active_ok:
  assumes ok: "entries_ok st" and free: "map_of (cp_pool st) s = None"
    and e: "pe_sessionId e = s" "pe_status e = Active" "pe_idleTimer e = None"
    and locked: "map_of (cp_locks st) s \<noteq> None"
    and fresh: "pe_containerId e \<notin> pool_containers st"
  shows "entries_ok (put_entry s e st)"
proof -
  have no_timer: "map_of (cp_timers st) t \<noteq> Some (s, cid)" for t cid
    using entries_timer [OF ok, of t s cid] free by (auto simp: timer_ok_iff)
  have "timer_ok (put_entry s e st) t s' cid" if "map_of (cp_timers st) t = Some (s', cid)" for t s' cid
    using entries_timer [OF ok] no_timer that by (cases "s' = s") (auto simp: timer_ok_iff)
  moreover have "entry_ok (put_entry s e st) s' e'" if "((map_of (cp_pool st))(s \<mapsto> e)) s' = Some e'" for s' e'
    using that entries_entry [OF ok, of s' e'] e locked by (auto simp: entry_ok_iff split: if_splits)
  ultimately show ?thesis
    using entries_distinct [OF ok] entries_inj [OF ok] fresh
    unfolding entries_ok_def
    by (auto simp: pool_containers_def split: if_splits)
qed

lemma reuse_ok:
  assumes ok: "pool_ok cfg st" and e: "map_of (cp_pool st) s = Some e" "pe_status e = Idle"
    and locked: "map_of (cp_locks st) s \<noteq> None"
  shows "pool_ok cfg (reuse_entry s e (clear_timer (pe_idleTimer e) st))"
proof -
  let ?e = "e\<lparr>pe_status := Active, pe_lastUsedAt := cp_now st, pe_idleTimer := None\<rparr>"
  let ?st = "put_entry s ?e (clear_timer (pe_idleTimer e) st)"
  have eok: "entries_ok st" using ok by (simp add: pool_ok_def)
  obtain i where i: "pe_idleTimer e = Some i" "\<not> pe_ephemeral e" "pe_sessionId e = s"
    using entries_entry [OF eok e(1)] e(2) by (auto simp: entry_ok_iff)
  have it: "map_of (cp_timers st) i = Some (s, pe_containerId e)"
    using entries_entry [OF eok e(1)] e(2) i by (auto simp: entry_ok_iff)
  have entry: "entry_ok ?st s' e'" if "map_of (cp_pool ?st) s' = Some e'" for s' e'
  proof (cases "s' = s")
    case True
    then show ?thesis using that locked i by (auto simp: entry_ok_iff)
  next
    case False
    then have "map_of (cp_pool st) s' = Some e'" using that by simp
    from entries_entry [OF eok this] False it i show ?thesis
      by (auto simp: entry_ok_iff)
  qed
  have timer: "timer_ok ?st t s' cid" if "map_of (cp_timers ?st) t = Some (s', cid)" for t s' cid
  proof -
    have t: "map_of (cp_timers st) t = Some (s', cid)" "t \<noteq> i" using that i by (auto split: if_splits)
    have "s' \<noteq> s" using entries_timer [OF eok t(1)] e(1) i t(2) by (auto simp: timer_ok_iff)
    then show ?thesis using entries_timer [OF eok t(1)] by (simp add: timer_ok_iff)
  qed
  have "entries_ok ?st"
    using entry timer entries_distinct [OF eok] entries_inj [OF eok] e(1)
    by (intro entries_okI) (auto split: if_splits)
  have "count_if (\<lambda>p. \<not> pe_ephemeral (snd p)) (upd_assoc s ?e (cp_pool st)) \<le> warm_count st"
      "count_if (\<lambda>p. pe_ephemeral (snd p)) (upd_assoc s ?e (cp_pool st)) \<le> ephemeral_count st"
    using i(2) unfolding counts by (intro count_if_upd_assoc_same [OF e(1)]; simp)+
  then have "within_limits cfg ?st"
    using ok by (simp add: pool_ok_def within_limits_def counts)
  with \<open>entries_ok ?st\<close> show ?thesis by (simp add: pool_ok_def reuse_entry_def)
qed

lemma not_Idle: "x \<noteq> Idle \<longleftrightarrow> x = Active"
  by (cases x) simp_all

lemma find_oldest_mem:
  "find_oldest es oldest = Some (s, e) \<Longrightarrow>
   oldest = Some (s, e) \<or> (s, e) \<in> set es \<and> pe_status e = Idle"
proof (induction es arbitrary: oldest)
  case Nil
  then show ?case by simp
next
  case (Cons p es)
  obtain s1 e1 where p: "p = (s1, e1)" by (cases p)
  obtain next_best where nb: "find_oldest es next_best = Some (s, e)"
      "next_best = oldest \<or> next_best = Some p \<and> pe_status e1 = Idle"
    using Cons.prems p by (auto split: if_splits option.splits)
  show ?case using Cons.IH [OF nb(1)] nb(2) p by auto
qed

lemma find_oldest_None: "find_oldest es oldest = None \<longleftrightarrow> oldest = None \<and> (\<forall>(s, e) \<in> set es. pe_status e \<noteq> Idle)"
  by (induction es oldest rule: find_oldest.induct) (auto split: option.split)

lemma evict_lru_Some:
  assumes "evict_lru st = Some (cid, st')" and ok: "entries_ok st"
  obtains s e where "map_of (cp_pool st) s = Some e" "pe_status e = Idle" "cid = pe_containerId e"
    "st' = forget_session s (clear_timer (pe_idleTimer e) st)"
proof -
  obtain s e where se: "find_oldest (cp_pool st) None = Some (s, e)" "cid = pe_containerId e"
      "st' = forget_session s (clear_timer (pe_idleTimer e) st)"
    using assms(1) by (auto simp: evict_lru_def split: option.splits)
  then have "(s, e) \<in> set (cp_pool st)" "pe_status e = Idle" using find_oldest_mem by fastforce+
  then show thesis using that se entries_distinct [OF ok] by simp
qed

text \<open>Room for one more container of the kind \<open>fresh_begin\<close> announces.\<close>

definition room_for :: "pool_config \<Rightarrow> bool \<Rightarrow> container_pool \<Rightarrow> bool" where
  "room_for cfg isEphemeral st \<longleftrightarrow>
     (if isEphemeral then ephemeral_count st < pc_maxEphemeralContainers cfg
      else warm_count st < pc_maxWarmContainers cfg)"

lemma evict_makes_room:
  assumes ok: "pool_ok cfg st" and e: "map_of (cp_pool st) s = Some e" "pe_status e = Idle"
  shows "room_for cfg False (forget_session s (clear_timer t st))"
proof -
  have "\<not> pe_ephemeral e" using ok e by (auto simp: pool_ok_def entries_ok_def entry_ok_iff)
  then have "count_if (\<lambda>p. \<not> pe_ephemeral (snd p)) (del_assoc s (cp_pool st)) <
      count_if (\<lambda>p. \<not> pe_ephemeral (snd p)) (cp_pool st)"
    using map_of_SomeD [OF e(1)] by (intro count_if_del_assoc_less [of "(s, e)"]) auto
  then show ?thesis using ok by (simp add: room_for_def pool_ok_def within_limits_def counts)
qed

lemma fresh_finish_ok:
  assumes ok: "pool_ok cfg st" and free: "map_of (cp_pool st) s = None"
    and room: "room_for cfg eph st" and locked: "map_of (cp_locks st) s \<noteq> None"
    and fresh: "cid \<notin> pool_containers st"
  shows "pool_ok cfg (fresh_finish agent s cid eph st)"
proof -
  have "entries_ok (fresh_finish agent s cid eph st)"
    unfolding fresh_finish_def using ok free locked fresh by (intro put_active_ok) (simp_all add: pool_ok_def)
  moreover have "within_limits cfg (fresh_finish agent s cid eph st)"
    using ok room free
    by (auto simp: pool_ok_def within_limits_def counts fresh_finish_def room_for_def map_of_None_iff
        count_if_upd_assoc_fresh)
  ultimately show ?thesis by (simp add: pool_ok_def)
qed

section \<open>Serial use: limits hold and no container leaks\<close>

text \<open>What the count of running containers needs of the runner: a started container has a new id and
  runs until it is stopped, stopping takes effect, and a command run in a container starts and stops
  nothing. \<open>run\<close> reads the running containers off the runner's world. This is more than
  \<open>container-runner.ts\<close> promises: its \<open>stop\<close> only logs when \<open>docker stop\<close>, \<open>docker kill\<close> and
  \<open>docker rm\<close> all fail, and the pool has forgotten the container by then; and containers have a timer
  of their own that stops them.\<close>

definition runner_tracks :: "'w container_runner \<Rightarrow> ('w \<Rightarrow> string set) \<Rightarrow> bool" where
  "runner_tracks rn run \<longleftrightarrow>
     (\<forall>agent w. case rn_start rn agent w of
        (Inl e, w') \<Rightarrow> run w' = run w
      | (Inr cid, w') \<Rightarrow> cid \<notin> run w \<and> run w' = insert cid (run w)) \<and>
     (\<forall>cid w. run (snd (rn_exec rn cid w)) = run w) \<and>
     (\<forall>cid w. run (snd (rn_stop rn cid w)) = run w - {cid})"

lemma runner_tracksD:
  assumes "runner_tracks rn run"
  shows tracks_started: "rn_start rn agent w = (Inr cid, w') \<Longrightarrow> cid \<notin> run w \<and> run w' = insert cid (run w)"
    and tracks_failed: "rn_start rn agent w = (Inl e, w') \<Longrightarrow> run w' = run w"
    and tracks_stop [simp]: "run (stop_container rn cid w) = run w - {cid}"
    and tracks_alive: "is_alive rn cid w = (b, w') \<Longrightarrow> run w' = run w"
proof -
  have start: "case rn_start rn agent w of (Inl e, w') \<Rightarrow> run w' = run w
      | (Inr cid, w') \<Rightarrow> cid \<notin> run w \<and> run w' = insert cid (run w)"
    using assms unfolding runner_tracks_def by (elim conjE allE)
  show "rn_start rn agent w = (Inr cid, w') \<Longrightarrow> cid \<notin> run w \<and> run w' = insert cid (run w)"
    using start by simp
  show "rn_start rn agent w = (Inl e, w') \<Longrightarrow> run w' = run w"
    using start by simp
  have "run (snd (rn_stop rn cid w)) = run w - {cid}"
    using assms unfolding runner_tracks_def by (elim conjE allE)
  then show "run (stop_container rn cid w) = run w - {cid}" by (simp add: stop_container_def)
  have exec: "run (snd (rn_exec rn cid w)) = run w"
    using assms unfolding runner_tracks_def by (elim conjE allE)
  show "is_alive rn cid w = (b, w') \<Longrightarrow> run w' = run w"
  proof -
    assume alive: "is_alive rn cid w = (b, w')"
    have "w' = snd (rn_exec rn cid w)"
      using alive unfolding is_alive_def by (cases "rn_exec rn cid w"; cases "fst (rn_exec rn cid w)") simp_all
    then show ?thesis using exec by simp
  qed
qed

definition no_leak :: "pool_config \<Rightarrow> ('w \<Rightarrow> string set) \<Rightarrow> container_pool \<Rightarrow> 'w \<Rightarrow> bool" where
  "no_leak cfg run st w \<longleftrightarrow> pool_ok cfg st \<and> run w = pool_containers st"

lemma no_leak_ok: "no_leak cfg run st w \<Longrightarrow> pool_ok cfg st"
  by (simp add: no_leak_def)

text \<open>The containers of all entries but one.\<close>

definition other_containers :: "container_pool \<Rightarrow> string \<Rightarrow> string set" where
  "other_containers st s = pe_containerId ` ran ((map_of (cp_pool st))(s := None))"

lemma containers_split:
  assumes "map_of (cp_pool st) s = Some e"
  shows "pool_containers st = insert (pe_containerId e) (other_containers st s)"
proof -
  have "map_of (cp_pool st) = ((map_of (cp_pool st))(s := None))(s \<mapsto> e)" using assms by auto
  then have "ran (map_of (cp_pool st)) = insert e (ran ((map_of (cp_pool st))(s := None)))"
    by (metis fun_upd_same ran_map_upd)
  moreover have "pool_containers st = pe_containerId ` ran (map_of (cp_pool st))"
    by (auto simp: pool_containers_def ran_def)
  ultimately show ?thesis by (simp add: other_containers_def)
qed

lemma containers_free: "map_of (cp_pool st) s = None \<Longrightarrow> pool_containers st = other_containers st s"
  by (auto simp: pool_containers_def other_containers_def ran_def fun_upd_idem)

lemma others_put [simp]: "other_containers (put_entry s e st) s = other_containers st s"
  by (simp add: other_containers_def)

lemma others_forget: "pool_containers (forget_session s st) = other_containers st s"
  by (simp add: other_containers_def pool_containers_def ran_def) (auto simp: image_def)

lemma others_disjoint:
  assumes ok: "entries_ok st" and e: "map_of (cp_pool st) s = Some e"
  shows "pe_containerId e \<notin> other_containers st s"
proof
  assume "pe_containerId e \<in> other_containers st s"
  then obtain s' e' where "s' \<noteq> s" "map_of (cp_pool st) s' = Some e'" "pe_containerId e' = pe_containerId e"
    by (auto simp: other_containers_def ran_def split: if_splits)
  then show False using entries_inj [OF ok, of s' e' s e] e by blast
qed

lemma containers_forget:
  assumes "entries_ok st" and "map_of (cp_pool st) s = Some e"
  shows "pool_containers (forget_session s (clear_timer t st)) = pool_containers st - {pe_containerId e}"
proof -
  have "pool_containers (forget_session s (clear_timer t st)) = other_containers st s"
    by (simp add: others_forget) (simp add: other_containers_def)
  then show ?thesis using containers_split [OF assms(2)] others_disjoint [OF assms] by simp
qed

lemma containers_frame [simp]:
  "pool_containers (release_lock s st) = pool_containers st"
  "pool_containers (set_lock s st) = pool_containers st"
  "pool_containers (cp_sessionIdleTimeouts_update f st) = pool_containers st"
  "pool_containers (clear_timer t st) = pool_containers st"
  by (simp_all add: pool_containers_def)

lemma containers_put:
  "map_of (cp_pool st) s = None \<Longrightarrow> pool_containers (put_entry s e st) = insert (pe_containerId e) (pool_containers st)"
  using containers_split [of "put_entry s e st" s e] containers_free [of st s] by simp

lemma containers_put_same:
  "map_of (cp_pool st) s = Some e \<Longrightarrow> pe_containerId e' = pe_containerId e \<Longrightarrow>
   pool_containers (put_entry s e' st) = pool_containers st"
  using containers_split [of "put_entry s e' st" s e'] containers_split [of st s e] by simp

text \<open>Dropping an entry and stopping its container.\<close>

lemma stop_no_leak:
  assumes "runner_tracks rn run" "no_leak cfg run st w" "map_of (cp_pool st) s = Some e"
  shows "no_leak cfg run (forget_session s (clear_timer (pe_idleTimer e) st)) (stop_container rn (pe_containerId e) w)"
  using assms forget_pool_ok [of cfg st s e] containers_forget [of st s e]
  by (simp add: no_leak_def pool_ok_def tracks_stop)

lemma run_start_no_leak:
  assumes rn: "runner_tracks rn run" and ok: "no_leak cfg run st w" and free: "map_of (cp_pool st) s = None"
    and room: "room_for cfg eph st" and locked: "map_of (cp_locks st) s \<noteq> None"
    and res: "run_start rn agent s eph st w = (r, st', w')"
  shows "no_leak cfg run st' w' \<and> cp_locks st' = cp_locks st \<and>
     (\<forall>cid. r = Inr cid \<longrightarrow> (\<exists>e. map_of (cp_pool st') s = Some e \<and> pe_containerId e = cid \<and> pe_status e = Active)) \<and>
     (\<forall>e. r = Inl e \<longrightarrow> map_of (cp_pool st') s = None)"
proof (cases "rn_start rn agent w")
  case (Pair out w1)
  show ?thesis
  proof (cases out)
    case (Inl e)
    then have "run w1 = run w" using tracks_failed [OF rn] Pair by simp
    moreover have "r = Inl e" "st' = st" "w' = w1" using res Pair Inl by (auto simp: run_start_def)
    ultimately show ?thesis using ok free by (simp add: no_leak_def)
  next
    case (Inr cid)
    then have w1: "cid \<notin> run w" "run w1 = insert cid (run w)" using tracks_started [OF rn] Pair by auto
    have out: "r = Inr cid" "st' = fresh_finish agent s cid eph st" "w' = w1"
      using res Pair Inr by (auto simp: run_start_def)
    have "pool_ok cfg st'"
      unfolding out using ok w1 by (intro fresh_finish_ok free room locked) (simp_all add: no_leak_def)
    moreover have "run w' = pool_containers st'"
      using out w1 ok free by (simp add: fresh_finish_def containers_put no_leak_def)
    ultimately show ?thesis using out by (simp add: no_leak_def fresh_finish_def)
  qed
qed

text \<open>What an acquire leaves behind: limits and containers in order, and the lock still held.\<close>

definition acquired :: "pool_config \<Rightarrow> ('w \<Rightarrow> string set) \<Rightarrow> string \<Rightarrow> (thrown + string) \<times> container_pool \<times> 'w \<Rightarrow> bool" where
  "acquired cfg run s out \<longleftrightarrow>
     (case out of (r, st, w) \<Rightarrow>
        no_leak cfg run st w \<and> map_of (cp_locks st) s \<noteq> None \<and>
        (case r of
           Inl e \<Rightarrow> map_of (cp_pool st) s = None
         | Inr cid \<Rightarrow> (\<exists>e. map_of (cp_pool st) s = Some e \<and> pe_containerId e = cid \<and> pe_status e = Active)))"

lemma run_start_acquired:
  assumes "runner_tracks rn run" "no_leak cfg run st w" "map_of (cp_pool st) s = None"
    "room_for cfg eph st" "map_of (cp_locks st) s \<noteq> None"
  shows "acquired cfg run s (run_start rn agent s eph st w)"
  using run_start_no_leak [OF assms, of agent] assms(5)
  by (cases "run_start rn agent s eph st w") (auto simp: acquired_def split: sum.split)

lemma start_fresh_acquired:
  assumes rn: "runner_tracks rn run" and ok: "no_leak cfg run st w" and free: "map_of (cp_pool st) s = None"
    and locked: "map_of (cp_locks st) s \<noteq> None"
  shows "acquired cfg run s (start_fresh cfg rn agent s st w)"
proof (cases "pc_maxWarmContainers cfg \<le> warm_count st")
  case False
  then show ?thesis using run_start_acquired [OF rn ok free _ locked]
    by (simp add: start_fresh_def fresh_begin_def room_for_def)
next
  case full: True
  show ?thesis
  proof (cases "evict_lru st")
    case None
    then show ?thesis using run_start_acquired [OF rn ok free _ locked, of True] full ok free locked
      by (auto simp: start_fresh_def fresh_begin_def room_for_def acquired_def)
  next
    case (Some p)
    obtain cid st1 where p: "p = (cid, st1)" by (cases p)
    have eok: "entries_ok st" using ok by (simp add: no_leak_def pool_ok_def)
    from evict_lru_Some [OF Some [unfolded p] eok] obtain s' e where e:
      "map_of (cp_pool st) s' = Some e" "pe_status e = Idle" "cid = pe_containerId e"
      "st1 = forget_session s' (clear_timer (pe_idleTimer e) st)" by metis
    have "no_leak cfg run st1 (stop_container rn cid w)" using stop_no_leak [OF rn ok e(1)] e(3,4) by simp
    moreover have "room_for cfg False st1"
      using evict_makes_room [OF no_leak_ok [OF ok] e(1,2)] e(4) by simp
    ultimately have "acquired cfg run s (run_start rn agent s False st1 (stop_container rn cid w))"
      using e(4) free locked by (intro run_start_acquired [OF rn]) simp_all
    then show ?thesis using Some p full by (simp add: start_fresh_def fresh_begin_def)
  qed
qed

lemma acquire_body_acquired:
  assumes rn: "runner_tracks rn run" and ok: "no_leak cfg run st w"
    and idle: "\<And>e. map_of (cp_pool st) s = Some e \<Longrightarrow> pe_status e = Idle"
    and locked: "map_of (cp_locks st) s \<noteq> None"
  shows "acquired cfg run s (acquire_body cfg rn agent s st w)"
proof -
  let ?st1 = "st\<lparr>cp_sessionIdleTimeouts := upd_assoc s (idle_timeout_for cfg agent) (cp_sessionIdleTimeouts st)\<rparr>"
  have ok1: "no_leak cfg run ?st1 w" using ok by (simp add: no_leak_def idle_timeouts_irrelevant)
  show ?thesis
  proof (cases "map_of (cp_pool st) s")
    case None
    then show ?thesis using start_fresh_acquired [OF rn ok1] locked
      by (simp add: acquire_body_def acquire_begin_def)
  next
    case (Some e)
    have gone: "no_leak cfg run (forget_session s (clear_timer (pe_idleTimer e) ?st1)) (stop_container rn (pe_containerId e) w')"
      if "run w' = run w" for w'
      using stop_no_leak [OF rn, of cfg ?st1 w' s e] ok1 Some that by (simp add: no_leak_def)
    show ?thesis
    proof (cases "expired_entry cfg e (clear_timer (pe_idleTimer e) ?st1)")
      case True
      then show ?thesis using Some start_fresh_acquired [OF rn gone [OF refl]] locked
        by (simp add: acquire_body_def acquire_begin_def)
    next
      case False
      obtain b w1 where alive: "is_alive rn (pe_containerId e) w = (b, w1)" by (cases "is_alive rn (pe_containerId e) w")
      have w1: "run w1 = run w" using tracks_alive [OF rn alive] .
      show ?thesis
      proof (cases b)
        case True
        have "pool_ok cfg (reuse_entry s e (clear_timer (pe_idleTimer e) ?st1))"
          using ok1 Some idle locked by (intro reuse_ok) (simp_all add: no_leak_def)
        then show ?thesis using True False Some alive ok w1 locked
          by (auto simp: acquire_body_def acquire_begin_def acquired_def no_leak_def reuse_entry_def
              containers_put_same)
      next
        case b: False
        then show ?thesis using False Some alive start_fresh_acquired [OF rn gone [OF w1]] locked
          by (simp add: acquire_body_def acquire_begin_def)
      qed
    qed
  qed
qed

lemma unlock_no_leak:
  "no_leak cfg run st w \<Longrightarrow> (\<And>e. map_of (cp_pool st) s = Some e \<Longrightarrow> pe_status e = Idle) \<Longrightarrow>
   no_leak cfg run (release_lock s st) w"
  unfolding no_leak_def using release_lock_ok [of cfg st s] by simp

lemma acquire_no_leak:
  assumes rn: "runner_tracks rn run" and ok: "no_leak cfg run st w"
    and acq: "acquire cfg rn agent s st w = Some (r, st', w')"
  shows "no_leak cfg run st' w'"
proof -
  have lock: "try_lock s (cp_now st + pc_lockTimeoutMs cfg) st = (None, set_lock s st)"
      "map_of (cp_locks st) s = None"
    using acq by (auto simp: acquire_def try_lock_def split: option.splits)
  have ok1: "no_leak cfg run (set_lock s st) w" using ok by (simp add: no_leak_def set_lock_ok)
  have idle: "pe_status e = Idle" if "map_of (cp_pool (set_lock s st)) s = Some e" for e
    using entries_entry [of st s e] that ok lock(2)
    by (cases "pe_status e") (auto simp: entry_ok_iff no_leak_def pool_ok_def)
  have "acquired cfg run s (acquire_body cfg rn agent s (set_lock s st) w)"
    using idle by (intro acquire_body_acquired [OF rn ok1]) simp_all
  moreover obtain r1 st1 w1 where b: "acquire_body cfg rn agent s (set_lock s st) w = (r1, st1, w1)"
    by (metis prod_cases3)
  ultimately have a: "acquired cfg run s (r1, st1, w1)" by simp
  show ?thesis
  proof (cases r1)
    case (Inl e)
    then have "st' = release_lock s st1" "w' = w1" using acq lock b by (auto simp: acquire_def)
    moreover have "no_leak cfg run (release_lock s st1) w1"
      using a Inl by (intro unlock_no_leak) (simp_all add: acquired_def)
    ultimately show ?thesis by simp
  next
    case (Inr cid)
    then have "st' = st1" "w' = w1" using acq lock b by (auto simp: acquire_def)
    then show ?thesis using a by (simp add: acquired_def)
  qed
qed

lemma park_ok:
  assumes ok: "pool_ok cfg st" and e: "map_of (cp_pool st) s = Some e" "pe_status e = Active" "\<not> pe_ephemeral e"
    and t: "start_timer s (pe_containerId e) st = (t, st1)"
  shows "pool_ok cfg (put_entry s (e\<lparr>pe_status := Idle, pe_lastUsedAt := n, pe_idleTimer := Some t\<rparr>) st1)"
proof -
  let ?e = "e\<lparr>pe_status := Idle, pe_lastUsedAt := n, pe_idleTimer := Some t\<rparr>"
  let ?st = "put_entry s ?e st1"
  have eok: "entries_ok st" using ok by (simp add: pool_ok_def)
  have st1: "t = cp_nextRef st" "cp_pool st1 = cp_pool st" "cp_locks st1 = cp_locks st"
      "cp_timers st1 = (t, s, pe_containerId e) # cp_timers st" "cp_nextRef st1 = Suc t"
    using t by (auto simp: start_timer_def)
  have none: "pe_idleTimer e = None" "pe_sessionId e = s"
    using entries_entry [OF eok e(1)] e(2) by (auto simp: entry_ok_iff)
  have tmr: "timer_ok st t' s' c" if "map_of (cp_timers st) t' = Some (s', c)" for t' s' c
    using entries_timer [OF eok that] .
  have fresh: "map_of (cp_timers st) t = None"
    using tmr [of t] st1(1) by (cases "map_of (cp_timers st) t") (auto simp: timer_ok_iff)
  have entry: "entry_ok ?st s' e'" if "map_of (cp_pool ?st) s' = Some e'" for s' e'
  proof (cases "s' = s")
    case True
    then show ?thesis using that none e(3) st1 by (auto simp: entry_ok_iff)
  next
    case False
    then have "map_of (cp_pool st) s' = Some e'" using that st1 by simp
    from entries_entry [OF eok this] show ?thesis using fresh st1 by (auto simp: entry_ok_iff)
  qed
  have timer: "timer_ok ?st t' s' c" if "map_of (cp_timers ?st) t' = Some (s', c)" for t' s' c
  proof (cases "t' = t")
    case True
    then show ?thesis using that st1 by (auto simp: timer_ok_iff)
  next
    case False
    then have old: "map_of (cp_timers st) t' = Some (s', c)" using that st1 by simp
    then have "s' \<noteq> s" using tmr [OF old] e(1) none by (auto simp: timer_ok_iff)
    then show ?thesis using tmr [OF old] st1 by (auto simp: timer_ok_iff)
  qed
  have "entries_ok ?st"
    using entry timer entries_distinct [OF eok] entries_inj [OF eok] e(1) st1
    by (intro entries_okI) (auto split: if_splits)
  have "count_if (\<lambda>p. \<not> pe_ephemeral (snd p)) (upd_assoc s ?e (cp_pool st)) \<le> warm_count st"
      "count_if (\<lambda>p. pe_ephemeral (snd p)) (upd_assoc s ?e (cp_pool st)) \<le> ephemeral_count st"
    using e(3) unfolding counts by (intro count_if_upd_assoc_same [OF e(1)]; simp)+
  then have "within_limits cfg ?st"
    using ok st1(2) by (simp add: pool_ok_def within_limits_def counts)
  with \<open>entries_ok ?st\<close> show ?thesis by (simp add: pool_ok_def)
qed

lemma release_no_leak:
  assumes rn: "runner_tracks rn run" and ok: "no_leak cfg run st w"
    and active: "\<And>e. map_of (cp_pool st) s = Some e \<Longrightarrow> pe_status e = Active"
    and rel: "release cfg s st = (stop, st')"
  shows "no_leak cfg run st' (case stop of None \<Rightarrow> w | Some cid \<Rightarrow> stop_container rn cid w)"
proof (cases "map_of (cp_pool st) s")
  case None
  have "no_leak cfg run (release_lock s st) w" using None by (intro unlock_no_leak [OF ok]) simp
  then show ?thesis using rel None by (simp add: release_def split: option.split)
next
  case (Some e)
  have eok: "entries_ok st" using ok by (simp add: no_leak_def pool_ok_def)
  have none: "pe_idleTimer e = None"
    using entries_entry [OF eok Some] active [OF Some] by (simp add: entry_ok_iff)
  let ?idle = "case map_of (cp_sessionIdleTimeouts st) s of None \<Rightarrow> pc_defaultIdleTimeoutSec cfg | Some n \<Rightarrow> n"
  show ?thesis
  proof (cases "pe_ephemeral e \<or> ?idle = 0")
    case True
    have "no_leak cfg run (forget_session s st) (stop_container rn (pe_containerId e) w)"
      using stop_no_leak [OF rn ok Some] none by (simp add: clear_timer_def)
    then have "no_leak cfg run (release_lock s (forget_session s st)) (stop_container rn (pe_containerId e) w)"
      by (rule unlock_no_leak) simp
    moreover have "stop = Some (pe_containerId e)" "st' = release_lock s (forget_session s st)"
      using rel Some True by (auto simp: release_def Let_def)
    ultimately show ?thesis by simp
  next
    case False
    obtain t st1 where t: "start_timer s (pe_containerId e) st = (t, st1)"
      by (cases "start_timer s (pe_containerId e) st")
    let ?e = "e\<lparr>pe_status := Idle, pe_lastUsedAt := cp_now st1, pe_idleTimer := Some t\<rparr>"
    have out: "stop = None" "st' = release_lock s (put_entry s ?e st1)"
      using rel Some False t by (simp_all add: release_def Let_def)
    have "pool_ok cfg (put_entry s ?e st1)"
      using False by (intro park_ok [OF no_leak_ok [OF ok] Some active [OF Some] _ t]) simp
    moreover have "cp_pool st1 = cp_pool st" using t by (auto simp: start_timer_def)
    then have "pool_containers (put_entry s ?e st1) = pool_containers st"
      using containers_put_same [of st1 s e ?e] Some by (simp add: pool_containers_def)
    ultimately have "no_leak cfg run (put_entry s ?e st1) w" using ok by (simp add: no_leak_def)
    then have "no_leak cfg run (release_lock s (put_entry s ?e st1)) w" by (rule unlock_no_leak) auto
    then show ?thesis using out by simp
  qed
qed

lemma evict_no_leak:
  assumes rn: "runner_tracks rn run" and ok: "no_leak cfg run st w" and ev: "evict rn s st w = (st', w')"
  shows "no_leak cfg run st' w'"
proof (cases "map_of (cp_pool st) s")
  case None
  then show ?thesis using ev ok by (simp add: evict_def evict_begin_def)
next
  case (Some e)
  have "no_leak cfg run (release_lock s (forget_session s (clear_timer (pe_idleTimer e) st)))
      (stop_container rn (pe_containerId e) w)"
    by (rule unlock_no_leak [OF stop_no_leak [OF rn ok Some]]) simp
  then show ?thesis using ev Some by (simp add: evict_def evict_begin_def)
qed

lemma drained_timers:
  "map_of (cp_timers (fold (\<lambda>(s, e). clear_timer (pe_idleTimer e)) es st)) t = Some x \<Longrightarrow>
   map_of (cp_timers st) t = Some x \<and> (\<forall>(s, e) \<in> set es. pe_idleTimer e \<noteq> Some t)"
proof (induction es arbitrary: st)
  case Nil
  then show ?case by simp
next
  case (Cons p es)
  obtain s e where p: "p = (s, e)" by (cases p)
  have "map_of (cp_timers (clear_timer (pe_idleTimer e) st)) t = Some x"
      "\<forall>(s, e) \<in> set es. pe_idleTimer e \<noteq> Some t"
    using Cons.IH [of "clear_timer (pe_idleTimer e) st"] Cons.prems p by auto
  then show ?case using p by (cases "pe_idleTimer e") (auto split: if_splits)
qed

lemma drained_pool [simp]: "cp_pool (fold (\<lambda>(s, e). clear_timer (pe_idleTimer e)) es st) = cp_pool st"
  by (induction es arbitrary: st) auto

lemma run_stop_all:
  "runner_tracks rn run \<Longrightarrow> run (fold (stop_container rn) cids w) = run w - set cids"
  by (induction cids arbitrary: w) (auto simp: tracks_stop)

lemma drain_no_leak:
  assumes rn: "runner_tracks rn run" and ok: "no_leak cfg run st w" and dr: "drain_all rn st w = (st', w')"
  shows "no_leak cfg run st' w'"
proof -
  have eok: "entries_ok st" using ok by (simp add: no_leak_def pool_ok_def)
  let ?st = "fold (\<lambda>(s, e). clear_timer (pe_idleTimer e)) (cp_pool st) (st\<lparr>cp_pool := [], cp_sessionIdleTimeouts := []\<rparr>)"
  have out: "st' = release_all_locks ?st" "w' = fold (stop_container rn) (map (\<lambda>(s, e). pe_containerId e) (cp_pool st)) w"
    using dr by (auto simp: drain_all_def drain_begin_def)
  have no_timer: "map_of (cp_timers ?st) t = None" for t
  proof (rule ccontr)
    assume "map_of (cp_timers ?st) t \<noteq> None"
    then obtain s c where t: "map_of (cp_timers ?st) t = Some (s, c)" by auto
    from drained_timers [OF this] have d: "map_of (cp_timers st) t = Some (s, c)"
      "\<forall>(s, e) \<in> set (cp_pool st). pe_idleTimer e \<noteq> Some t" by simp_all
    then obtain e where "map_of (cp_pool st) s = Some e" "pe_idleTimer e = Some t"
      using entries_timer [OF eok d(1)] by (auto simp: timer_ok_iff)
    then show False using d(2) map_of_SomeD by fastforce
  qed
  have "entries_ok st'"
    unfolding out using no_timer by (intro entries_okI) (simp_all add: release_all_locks_def)
  moreover have "within_limits cfg st'"
    by (simp add: out within_limits_def counts release_all_locks_def)
  moreover have "pool_containers st \<subseteq> set (map (\<lambda>(s, e). pe_containerId e) (cp_pool st))"
    using map_of_SomeD by (fastforce simp: pool_containers_def)
  then have "run w' = {}" using ok by (auto simp: out run_stop_all [OF rn] no_leak_def)
  moreover have "pool_containers st' = {}" by (simp add: out pool_containers_def release_all_locks_def)
  ultimately show ?thesis by (simp add: no_leak_def pool_ok_def)
qed

lemma idle_fires_no_leak:
  assumes rn: "runner_tracks rn run" and ok: "no_leak cfg run st w" and f: "idle_fires t st = Some (cid, st')"
  shows "no_leak cfg run st' (stop_container rn cid w)"
proof -
  obtain s where s: "map_of (cp_timers st) t = Some (s, cid)" "st' = forget_session s (clear_timer (Some t) st)"
    using f by (auto simp: idle_fires_def split: option.splits)
  then obtain e where "map_of (cp_pool st) s = Some e" "pe_idleTimer e = Some t" "pe_containerId e = cid"
    using entries_timer [of st t s cid] ok by (auto simp: no_leak_def pool_ok_def timer_ok_iff)
  then show ?thesis using stop_no_leak [OF rn ok, of s e] s(2) by simp
qed

lemma health_visit_no_leak:
  assumes rn: "runner_tracks rn run" and ok: "no_leak cfg run st w" and hv: "health_visit cfg rn s (st, w) = (st', w')"
  shows "no_leak cfg run st' w'"
proof (cases "map_of (cp_pool st) s")
  case None
  then show ?thesis using ok hv by (simp add: health_visit_def health_begin_def)
next
  case (Some e)
  obtain b w1 where b: "is_alive rn (pe_containerId e) w = (b, w1)" by (cases "is_alive rn (pe_containerId e) w")
  have w1: "no_leak cfg run st w1" using ok tracks_alive [OF rn b] by (simp add: no_leak_def)
  show ?thesis
    using ok hv Some b w1 stop_no_leak [OF rn ok Some] stop_no_leak [OF rn w1 Some]
    by (cases b) (auto simp: health_visit_def health_begin_def health_dead_def split: if_splits)
qed

text \<open>Complete calls, one after the other. A session is released by the run that acquired it, so
  not while its entry is idle; a call that would wait for a lock does not happen.\<close>

datatype pool_op =
    OpAcquire agent_def string
  | OpRelease string
  | OpEvict string
  | OpDrain
  | OpIdleFires nat
  | OpHealthCheck
  | OpTick nat

definition pool_exec :: "pool_config \<Rightarrow> 'w container_runner \<Rightarrow> pool_op \<Rightarrow> container_pool \<times> 'w \<Rightarrow> container_pool \<times> 'w" where
  "pool_exec cfg rn op stw =
     (case stw of (st, w) \<Rightarrow>
       (case op of
          OpAcquire agent s \<Rightarrow>
            (case acquire cfg rn agent s st w of None \<Rightarrow> (st, w) | Some (r, st', w') \<Rightarrow> (st', w'))
        | OpRelease s \<Rightarrow>
            (case map_of (cp_pool st) s of
               Some e \<Rightarrow>
                 if pe_status e = Idle then (st, w)
                 else (case release cfg s st of
                         (None, st') \<Rightarrow> (st', w)
                       | (Some cid, st') \<Rightarrow> (st', stop_container rn cid w))
             | None \<Rightarrow> (snd (release cfg s st), w))
        | OpEvict s \<Rightarrow> evict rn s st w
        | OpDrain \<Rightarrow> drain_all rn st w
        | OpIdleFires t \<Rightarrow>
            (case idle_fires t st of None \<Rightarrow> (st, w) | Some (cid, st') \<Rightarrow> (st', stop_container rn cid w))
        | OpHealthCheck \<Rightarrow> run_health_check cfg rn st w
        | OpTick n \<Rightarrow> (st\<lparr>cp_now := cp_now st + n\<rparr>, w)))"

lemma health_check_no_leak:
  assumes rn: "runner_tracks rn run"
  shows "no_leak cfg run st w \<Longrightarrow> fold (health_visit cfg rn) ss (st, w) = (st', w') \<Longrightarrow> no_leak cfg run st' w'"
proof (induction ss arbitrary: st w)
  case Nil
  then show ?case by simp
next
  case (Cons s ss)
  obtain st1 w1 where hv: "health_visit cfg rn s (st, w) = (st1, w1)" by fastforce
  then show ?case using Cons.IH [OF health_visit_no_leak [OF rn Cons.prems(1) hv]] Cons.prems(2) by simp
qed

lemma clock_irrelevant: "pool_ok cfg (cp_now_update f st) = pool_ok cfg st"
  by (simp add: pool_ok_def entries_ok_def within_limits_def counts entry_ok_iff timer_ok_iff)

lemma tick_no_leak: "no_leak cfg run st w \<Longrightarrow> no_leak cfg run (st\<lparr>cp_now := n\<rparr>) w"
  by (simp add: no_leak_def clock_irrelevant) (simp add: pool_containers_def)

lemma pool_exec_no_leak:
  assumes rn: "runner_tracks rn run" and ok: "no_leak cfg run st w"
    and ex: "pool_exec cfg rn op (st, w) = (st', w')"
  shows "no_leak cfg run st' w'"
proof (cases op)
  case (OpAcquire agent s)
  show ?thesis
  proof (cases "acquire cfg rn agent s st w")
    case None
    then show ?thesis using ex ok OpAcquire by (simp add: pool_exec_def)
  next
    case (Some out)
    obtain r st1 w1 where out: "out = (r, st1, w1)" by (metis prod_cases3)
    then show ?thesis using ex OpAcquire Some acquire_no_leak [OF rn ok Some [unfolded out]]
      by (simp add: pool_exec_def)
  qed
next
  case (OpRelease s)
  obtain stop st1 where rel: "release cfg s st = (stop, st1)" by fastforce
  show ?thesis
  proof (cases "map_of (cp_pool st) s")
    case None
    then have "no_leak cfg run st1 w" using release_no_leak [OF rn ok _ rel] rel
      by (auto simp: release_def)
    then show ?thesis using ex OpRelease None rel by (simp add: pool_exec_def)
  next
    case (Some e)
    have "no_leak cfg run st1 (case stop of None \<Rightarrow> w | Some cid \<Rightarrow> stop_container rn cid w)"
      if "pe_status e \<noteq> Idle"
      using that Some by (intro release_no_leak [OF rn ok _ rel]) (cases "pe_status e"; simp)+
    then show ?thesis using ex OpRelease Some rel ok
      by (cases stop) (auto simp: pool_exec_def split: if_splits)
  qed
next
  case (OpEvict s)
  then show ?thesis using ex evict_no_leak [OF rn ok] by (simp add: pool_exec_def)
next
  case OpDrain
  then show ?thesis using ex drain_no_leak [OF rn ok] by (simp add: pool_exec_def)
next
  case (OpIdleFires t)
  then show ?thesis using ex ok idle_fires_no_leak [OF rn ok]
    by (auto simp: pool_exec_def split: option.splits)
next
  case OpHealthCheck
  then show ?thesis using ex health_check_no_leak [OF rn ok] by (simp add: pool_exec_def run_health_check_def)
next
  case (OpTick n)
  then show ?thesis using ex tick_no_leak [OF ok] by (auto simp: pool_exec_def)
qed

lemma pool_run_no_leak:
  assumes rn: "runner_tracks rn run"
  shows "no_leak cfg run st w \<Longrightarrow> fold (pool_exec cfg rn) ops (st, w) = (st', w') \<Longrightarrow> no_leak cfg run st' w'"
proof (induction ops arbitrary: st w)
  case Nil
  then show ?case by simp
next
  case (Cons op ops)
  obtain st1 w1 where ex: "pool_exec cfg rn op (st, w) = (st1, w1)" by fastforce
  then show ?case using Cons.IH [OF pool_exec_no_leak [OF rn Cons.prems(1) ex]] Cons.prems(2) by simp
qed

lemma empty_no_leak: "run w = {} \<Longrightarrow> no_leak cfg run empty_pool w"
  by (simp add: no_leak_def pool_ok_def entries_ok_def within_limits_def counts empty_pool_def pool_containers_def)


text \<open>A host that numbers its containers and keeps those that run.\<close>

definition sample_runner :: "(nat \<times> string set) container_runner" where
  "sample_runner =
     \<lparr>rn_start = (\<lambda>agent (n, live).
        if replicate n (CHR ''c'') \<in> live then (Inl ThrownOther, n, live)
        else (Inr (replicate n (CHR ''c'')), Suc n, insert (replicate n (CHR ''c'')) live)),
      rn_exec = (\<lambda>cid (n, live). (Inr (if cid \<in> live then 0 else 1), n, live)),
      rn_stop = (\<lambda>cid (n, live). (Inr (), n, live - {cid}))\<rparr>"

lemma sample_runner_tracks: "runner_tracks sample_runner snd"
  by (auto simp: runner_tracks_def sample_runner_def)


section \<open>Reuse, eviction order, and the timeout a recycled session loses\<close>

text \<open>Releasing a container and acquiring its session again gives the same container back,
  active and with no timer pending, as long as it answers the health check, its lifetime is not
  over and neither limit of the configuration makes the pool stop it on release; no container is
  started or stopped on the way.\<close>

theorem acquire_after_release:
  assumes e: "map_of (cp_pool st) s = Some e" "\<not> pe_ephemeral e"
    and keep: "map_of (cp_sessionIdleTimeouts st) s = Some n" "0 < n"
    and rel: "release cfg s st = (stop, st1)"
    and young: "int (cp_now st) + int d - int (pe_startedAt e) \<le> int (pc_maxContainerLifetimeSec cfg) * 1000"
    and alive: "is_alive rn (pe_containerId e) w = (True, w')"
  shows "stop = None \<and>
     (\<exists>st2. acquire cfg rn agent s (st1\<lparr>cp_now := cp_now st + d\<rparr>) w = Some (Inr (pe_containerId e), st2, w') \<and>
        map_of (cp_pool st2) s =
          Some (e\<lparr>pe_status := Active, pe_lastUsedAt := cp_now st + d, pe_idleTimer := None\<rparr>))"
proof -
  let ?e1 = "e\<lparr>pe_status := Idle, pe_lastUsedAt := cp_now st, pe_idleTimer := Some (cp_nextRef st)\<rparr>"
  have st1: "stop = None" "map_of (cp_pool st1) s = Some ?e1" "map_of (cp_locks st1) s = None"
    using rel e keep by (auto simp: release_def start_timer_def)
  let ?st2 = "set_lock s (st1\<lparr>cp_now := cp_now st + d\<rparr>)"
  have lock: "try_lock s (cp_now (st1\<lparr>cp_now := cp_now st + d\<rparr>) + pc_lockTimeoutMs cfg)
      (st1\<lparr>cp_now := cp_now st + d\<rparr>) = (None, ?st2)"
    using st1(3) by (simp add: try_lock_def)
  have "expired_entry cfg ?e1 st' = False" if "cp_now st' = cp_now st + d" for st'
    using young that by (simp add: expired_entry_def)
  then have "fst (acquire_begin cfg agent s ?st2) = MustCheck ?e1"
    using st1(2) by (simp add: acquire_begin_def Let_def)
  then obtain st3 where b: "acquire_begin cfg agent s ?st2 = (MustCheck ?e1, st3)"
    by (cases "acquire_begin cfg agent s ?st2") auto
  have now3: "cp_now st3 = cp_now st + d"
    using b st1(2) by (auto simp: acquire_begin_def Let_def split: if_splits)
  have "acquire_body cfg rn agent s ?st2 w = (Inr (pe_containerId e), reuse_entry s ?e1 st3, w')"
    using b alive by (simp add: acquire_body_def)
  then show ?thesis using st1(1) lock now3 by (simp add: acquire_def reuse_entry_def)
qed

definition sample_agent :: agent_def where
  "sample_agent = \<lparr>ad_id = ''a'', ad_idleTimeoutSeconds = Some 2\<rparr>"

definition sample_entry :: pool_entry where
  "sample_entry =
     \<lparr>pe_containerId = ''c'', pe_agentDefId = ''a'', pe_sessionId = ''s'', pe_startedAt = 0, pe_status = Active,
      pe_lastUsedAt = 0, pe_idleTimer = None, pe_ephemeral = False\<rparr>"

definition sample_pool :: container_pool where
  "sample_pool =
     \<lparr>cp_pool = [(''s'', sample_entry)], cp_locks = [(''s'', 0)], cp_sessionIdleTimeouts = [(''s'', 2)],
      cp_timers = [], cp_now = 1, cp_nextRef = 1\<rparr>"

text \<open>Where stopping a container fails, as \<open>container-runner.ts\<close> lets it without telling, the container
  runs on without an entry.\<close>

lemma failed_stop_leaks_container:
  "let (st, w) = pool_exec cfg (sample_runner\<lparr>rn_stop := (\<lambda>cid w. (Inr (), w))\<rparr>) (OpEvict ''s'') (sample_pool, 0, {''c''})
   in cp_pool st = [] \<and> snd w = {''c''}"
  by (simp add: pool_exec_def evict_def evict_begin_def sample_pool_def forget_session_def del_assoc_def
      clear_timer_def release_lock_def stop_container_def sample_entry_def)

theorem acquire_after_release_witness:
  "\<exists>st2. acquire default_pool_config sample_runner sample_agent ''s''
      ((snd (release default_pool_config ''s'' sample_pool))\<lparr>cp_now := cp_now sample_pool + 1\<rparr>) (0, {''c''})
      = Some (Inr ''c'', st2, 0, {''c''})"
proof -
  obtain stop st1 where rel: "release default_pool_config ''s'' sample_pool = (stop, st1)" by fastforce
  have "is_alive sample_runner (pe_containerId sample_entry) (0, {''c''}) = (True, 0, {''c''})"
    by (simp add: is_alive_def sample_runner_def sample_entry_def)
  then show ?thesis
    using acquire_after_release [of sample_pool "''s''" sample_entry 2, OF _ _ _ _ rel, of 1 sample_runner
        "(0, {''c''})" "(0, {''c''})" sample_agent] rel
    by (auto simp: sample_pool_def sample_entry_def default_pool_config_def)
qed

lemma find_oldest_least:
  "find_oldest es oldest = Some (s, e) \<Longrightarrow>
   (\<forall>(s', e') \<in> set es. pe_status e' = Idle \<longrightarrow> pe_lastUsedAt e \<le> pe_lastUsedAt e') \<and>
   (case oldest of None \<Rightarrow> True | Some (s', e') \<Rightarrow> pe_lastUsedAt e \<le> pe_lastUsedAt e')"
proof (induction es arbitrary: oldest)
  case Nil
  then show ?case by simp
next
  case (Cons p es)
  obtain s1 e1 where p: "p = (s1, e1)" by (cases p)
  show ?case
    using Cons.IH [of oldest] Cons.IH [of "Some p"] Cons.prems p
    by (cases oldest) (auto split: if_splits)
qed

text \<open>Eviction takes an idle container that no other idle container was used before, and finds
  none only when no container is idle: an active container is never evicted to make room.\<close>

theorem evict_lru_takes_oldest:
  "case evict_lru st of
     None \<Rightarrow> (\<forall>(s, e) \<in> set (cp_pool st). pe_status e = Active)
   | Some (cid, st') \<Rightarrow>
       (\<exists>s e. (s, e) \<in> set (cp_pool st) \<and> pe_status e = Idle \<and> cid = pe_containerId e \<and>
          (\<forall>(s', e') \<in> set (cp_pool st). pe_status e' = Idle \<longrightarrow> pe_lastUsedAt e \<le> pe_lastUsedAt e') \<and>
          cp_pool st' = del_assoc s (cp_pool st))"
proof (cases "find_oldest (cp_pool st) None")
  case None
  then show ?thesis
    using find_oldest_None [of "cp_pool st" None] by (auto simp: evict_lru_def not_Idle)
next
  case (Some p)
  obtain s e where p: "p = (s, e)" by (cases p)
  have "(s, e) \<in> set (cp_pool st)" "pe_status e = Idle"
    using find_oldest_mem [OF Some [unfolded p]] by auto
  then show ?thesis using find_oldest_least [OF Some [unfolded p]] Some p
    by (auto simp: evict_lru_def)
qed

theorem evict_lru_takes_oldest_witness:
  "evict_lru sample_pool = None \<and> (\<forall>(s, e) \<in> set (cp_pool sample_pool). pe_status e = Active)"
proof -
  have "evict_lru sample_pool = None" by (simp add: evict_lru_def sample_pool_def sample_entry_def)
  then show ?thesis using evict_lru_takes_oldest [of sample_pool] by simp
qed

lemma run_start_Inr:
  "run_start rn agent s eph st w = (Inr cid, st', w') \<Longrightarrow> st' = fresh_finish agent s cid eph st"
  by (auto simp: run_start_def split: prod.splits sum.splits)

lemma evict_lru_timeouts:
  "evict_lru st = Some (cid, st') \<Longrightarrow> map_of (cp_sessionIdleTimeouts st) s = None \<Longrightarrow>
   map_of (cp_sessionIdleTimeouts st') s = None"
  by (auto simp: evict_lru_def forget_session_def clear_timer_def split: option.splits)

lemma start_fresh_Inr:
  assumes "start_fresh cfg rn agent s st w = (Inr cid, st', w')"
    and "map_of (cp_sessionIdleTimeouts st) s = None"
  obtains eph st1 where "st' = fresh_finish agent s cid eph st1" "map_of (cp_sessionIdleTimeouts st1) s = None"
proof (cases "fresh_begin cfg st")
  case (Pair nx st1)
  have "map_of (cp_sessionIdleTimeouts st1) s = None"
    using Pair assms(2) evict_lru_timeouts
    by (auto simp: fresh_begin_def split: if_splits option.splits)
  moreover have "\<exists>eph. st' = fresh_finish agent s cid eph st1"
    using assms(1) Pair by (cases nx) (auto simp: start_fresh_def dest: run_start_Inr)
  ultimately show thesis using that by blast
qed

text \<open>When the container of a session is recycled (its lifetime is over) the new one is handed
  out without the idle timeout that \<open>acquire\<close> had just recorded for the agent: the release that
  follows falls back to the pool's default, so an agent configured to stop its container at once
  (timeout 0) keeps it warm.\<close>

theorem recycled_session_loses_timeout:
  assumes e: "map_of (cp_pool st) s = Some e" and old: "expired_entry cfg e st"
    and acq: "acquire cfg rn agent s st w = Some (Inr cid, st', w')"
    and dflt: "0 < pc_defaultIdleTimeoutSec cfg"
  shows "map_of (cp_sessionIdleTimeouts st') s = None \<and>
     (\<exists>e'. map_of (cp_pool st') s = Some e' \<and> pe_containerId e' = cid \<and>
        (\<not> pe_ephemeral e' \<longrightarrow>
           fst (release cfg s st') = None \<and>
           (\<exists>e2. map_of (cp_pool (snd (release cfg s st'))) s = Some e2 \<and> pe_containerId e2 = cid \<and> pe_status e2 = Idle)))"
proof -
  obtain st0 where lock: "try_lock s (cp_now st + pc_lockTimeoutMs cfg) st = (None, st0)"
    using acq by (auto simp: acquire_def split: prod.splits option.splits)
  then have st0: "cp_pool st0 = cp_pool st" "cp_now st0 = cp_now st"
    by (auto simp: try_lock_def split: option.splits if_splits)
  have body: "acquire_body cfg rn agent s st0 w = (Inr cid, st', w')"
    using acq lock by (auto simp: acquire_def split: prod.splits sum.splits)
  let ?st1 = "st0\<lparr>cp_sessionIdleTimeouts := upd_assoc s (idle_timeout_for cfg agent) (cp_sessionIdleTimeouts st0)\<rparr>"
  let ?st2 = "forget_session s (clear_timer (pe_idleTimer e) ?st1)"
  have "acquire_begin cfg agent s st0 = (MustRecycle (pe_containerId e), ?st2)"
    using e old st0 by (simp add: acquire_begin_def expired_entry_def)
  then have "start_fresh cfg rn agent s ?st2 (stop_container rn (pe_containerId e) w) = (Inr cid, st', w')"
    using body by (simp add: acquire_body_def)
  moreover have "map_of (cp_sessionIdleTimeouts ?st2) s = None" by (simp add: forget_session_def)
  ultimately obtain eph st3 where st3: "st' = fresh_finish agent s cid eph st3"
      "map_of (cp_sessionIdleTimeouts st3) s = None" by (rule start_fresh_Inr)
  have lost: "map_of (cp_sessionIdleTimeouts st') s = None"
    using st3 by (simp add: fresh_finish_def put_entry_def)
  obtain e' where e': "map_of (cp_pool st') s = Some e'" "pe_containerId e' = cid"
    using st3(1) by (simp add: fresh_finish_def)
  have "fst (release cfg s st') = None \<and>
      (\<exists>e2. map_of (cp_pool (snd (release cfg s st'))) s = Some e2 \<and> pe_containerId e2 = cid \<and> pe_status e2 = Idle)"
    if "\<not> pe_ephemeral e'"
    using that e' lost dflt by (simp add: release_def start_timer_def)
  then show ?thesis using lost e' by blast
qed

definition sample_old_pool :: container_pool where
  "sample_old_pool =
     empty_pool\<lparr>cp_pool := [(''s'', sample_entry\<lparr>pe_status := Idle, pe_idleTimer := Some 0\<rparr>)],
                cp_timers := [(0, ''s'', ''c'')], cp_now := 3600001, cp_nextRef := 1\<rparr>"

theorem recycled_session_loses_timeout_witness:
  "\<exists>st' w'. acquire default_pool_config sample_runner (sample_agent\<lparr>ad_idleTimeoutSeconds := Some 0\<rparr>) ''s''
      sample_old_pool (2, {''c''}) = Some (Inr ''cc'', st', w') \<and>
     map_of (cp_sessionIdleTimeouts st') ''s'' = None"
proof -
  note defs = sample_old_pool_def empty_pool_def sample_entry_def expired_entry_def default_pool_config_def
  have e: "map_of (cp_pool sample_old_pool) ''s'' = Some (sample_entry\<lparr>pe_status := Idle, pe_idleTimer := Some 0\<rparr>)"
    by (simp add: sample_old_pool_def empty_pool_def)
  have old: "expired_entry default_pool_config (sample_entry\<lparr>pe_status := Idle, pe_idleTimer := Some 0\<rparr>) sample_old_pool"
    by (simp add: defs)
  have two: "replicate 2 (CHR ''c'') = ''cc''" by (simp add: numeral_2_eq_2)
  have "\<exists>st' w'. acquire default_pool_config sample_runner (sample_agent\<lparr>ad_idleTimeoutSeconds := Some 0\<rparr>) ''s''
      sample_old_pool (2, {''c''}) = Some (Inr ''cc'', st', w')"
    by (simp add: acquire_def try_lock_def acquire_body_def acquire_begin_def defs start_fresh_def fresh_begin_def
        warm_count_def set_lock_def clear_timer_def forget_session_def del_assoc_def run_start_def sample_runner_def
        stop_container_def two Let_def)
  then obtain st' w' where acq: "acquire default_pool_config sample_runner (sample_agent\<lparr>ad_idleTimeoutSeconds := Some 0\<rparr>) ''s''
      sample_old_pool (2, {''c''}) = Some (Inr ''cc'', st', w')" by blast
  have "map_of (cp_sessionIdleTimeouts st') ''s'' = None"
    using recycled_session_loses_timeout [OF e old acq] by (simp add: default_pool_config_def)
  then show ?thesis using acq by blast
qed

end
