(* ===== verification/PoolMachine.thy ===== *)
theory PoolMachine
  imports ContainerPool
begin

text \<open>
  The container pool under concurrency. Any number of agent runs and health checks are in flight;
  each call of the pool is cut where it awaits, an event resumes one of them, and the host may
  answer in any order. A run acquires its session, and in the end releases it: also after an
  acquire that failed, and after the eviction of a failed run (\<open>agent-runner.service.ts\<close>). A
  machine runs a list of events; an event that is not possible leaves \<open>None\<close>. \<open>pm_started\<close>,
  \<open>pm_stopped\<close> and \<open>pm_served\<close> are history.
\<close>

section \<open>Runs and events\<close>

datatype run_phase =
    WaitsForLock nat nat
  | HoldsLock
  | ChecksOld pool_entry
  | StopsOld string
  | StopsLru string
  | Starts bool
  | Uses string
  | Evicts string
  | MustRelease

record pool_run =
  ru_agent :: agent_def
  ru_session :: string
  ru_phase :: run_phase

record pool_machine =
  pm_pool :: container_pool
  pm_runs :: "(nat \<times> pool_run) list"
  pm_checks :: "(string \<times> pool_entry) list"
  pm_started :: "(string \<times> string) list"
  pm_stopped :: "string list"
  pm_served :: "(string \<times> string) list"
  pm_draining :: nat

datatype pool_event =
    Arrive nat agent_def string
  | Wake nat
  | Begin nat
  | Checked nat bool
  | OldStopped nat
  | LruStopped nat
  | Started nat string
  | StartFailed nat
  | RunFails nat
  | EvictStopped nat
  | RunEnds nat
  | TimerFires nat
  | HealthVisit string
  | HealthAnswer nat bool
  | Drain
  | DrainEnds
  | Tick nat

definition init_pool_machine :: pool_machine where
  "init_pool_machine =
     \<lparr>pm_pool = empty_pool, pm_runs = [], pm_checks = [], pm_started = [], pm_stopped = [], pm_served = [],
      pm_draining = 0\<rparr>"

definition set_phase :: "nat \<Rightarrow> pool_run \<Rightarrow> run_phase \<Rightarrow> pool_machine \<Rightarrow> pool_machine" where
  "set_phase i r ph m = m\<lparr>pm_runs := upd_assoc i (r\<lparr>ru_phase := ph\<rparr>) (pm_runs m)\<rparr>"

definition set_pool :: "container_pool \<Rightarrow> pool_machine \<Rightarrow> pool_machine" where
  "set_pool st m = m\<lparr>pm_pool := st\<rparr>"

definition note_stop :: "string \<Rightarrow> pool_machine \<Rightarrow> pool_machine" where
  "note_stop cid m = m\<lparr>pm_stopped := cid # pm_stopped m\<rparr>"

text \<open>A turn of the lock loop.\<close>

definition lock_turn :: "nat \<Rightarrow> pool_run \<Rightarrow> nat \<Rightarrow> pool_machine \<Rightarrow> pool_machine" where
  "lock_turn i r deadline m =
     (case try_lock (ru_session r) deadline (pm_pool m) of
        (None, st) \<Rightarrow> set_phase i r HoldsLock (set_pool st m)
      | (Some lock, st) \<Rightarrow> set_phase i r (WaitsForLock deadline lock) (set_pool st m))"

text \<open>The synchronous start of \<open>startFresh\<close>; an exception releases the lock.\<close>

definition fresh_turn :: "pool_config \<Rightarrow> nat \<Rightarrow> pool_run \<Rightarrow> pool_machine \<Rightarrow> pool_machine" where
  "fresh_turn cfg i r m =
     (case fresh_begin cfg (pm_pool m) of
        (PoolFull, st) \<Rightarrow> set_phase i r MustRelease (set_pool (release_lock (ru_session r) st) m)
      | (EvictFirst cid, st) \<Rightarrow> note_stop cid (set_phase i r (StopsLru cid) (set_pool st m))
      | (StartNow eph, st) \<Rightarrow> set_phase i r (Starts eph) (set_pool st m))"

definition begin_turn :: "pool_config \<Rightarrow> nat \<Rightarrow> pool_run \<Rightarrow> pool_machine \<Rightarrow> pool_machine" where
  "begin_turn cfg i r m =
     (case acquire_begin cfg (ru_agent r) (ru_session r) (pm_pool m) of
        (NeedFresh, st) \<Rightarrow> fresh_turn cfg i r (set_pool st m)
      | (MustRecycle cid, st) \<Rightarrow> note_stop cid (set_phase i r (StopsOld cid) (set_pool st m))
      | (MustCheck e, st) \<Rightarrow> set_phase i r (ChecksOld e) (set_pool st m))"

definition serve :: "nat \<Rightarrow> pool_run \<Rightarrow> string \<Rightarrow> pool_machine \<Rightarrow> pool_machine" where
  "serve i r cid m =
     (set_phase i r (Uses cid) m)\<lparr>pm_served := (ru_session r, cid) # pm_served m\<rparr>"

definition release_turn :: "pool_config \<Rightarrow> nat \<Rightarrow> pool_run \<Rightarrow> pool_machine \<Rightarrow> pool_machine" where
  "release_turn cfg i r m =
     (case release cfg (ru_session r) (pm_pool m) of
        (stop, st) \<Rightarrow>
          (let m' = (set_pool st m)\<lparr>pm_runs := del_assoc i (pm_runs m)\<rparr>
           in case stop of None \<Rightarrow> m' | Some cid \<Rightarrow> note_stop cid m'))"

definition answer_turn :: "nat \<Rightarrow> pool_run \<Rightarrow> pool_entry \<Rightarrow> bool \<Rightarrow> pool_machine \<Rightarrow> pool_machine" where
  "answer_turn i r e alive m =
     (if alive then serve i r (pe_containerId e) (set_pool (reuse_entry (ru_session r) e (pm_pool m)) m)
      else note_stop (pe_containerId e)
             (set_phase i r (StopsOld (pe_containerId e)) (set_pool (forget_session (ru_session r) (pm_pool m)) m)))"

section \<open>The machine\<close>

text \<open>The event of a run in the phase where it can happen.\<close>

definition run_event :: "pool_config \<Rightarrow> pool_event \<Rightarrow> nat \<Rightarrow> pool_run \<Rightarrow> pool_machine \<Rightarrow> pool_machine option" where
  "run_event cfg ev i r m =
     (case (ev, ru_phase r) of
        (Wake _, WaitsForLock deadline lock) \<Rightarrow>
          if map_of (cp_locks (pm_pool m)) (ru_session r) = Some lock then None
          else Some (lock_turn i r deadline m)
      | (Begin _, HoldsLock) \<Rightarrow> Some (begin_turn cfg i r m)
      | (Checked _ alive, ChecksOld e) \<Rightarrow> Some (answer_turn i r e alive m)
      | (OldStopped _, StopsOld _) \<Rightarrow> Some (fresh_turn cfg i r m)
      | (LruStopped _, StopsLru _) \<Rightarrow> Some (set_phase i r (Starts False) m)
      | (Started _ cid, Starts eph) \<Rightarrow>
          if cid \<in> fst ` set (pm_started m) then None
          else Some (serve i r cid
                 ((set_pool (fresh_finish (ru_agent r) (ru_session r) cid eph (pm_pool m)) m)
                    \<lparr>pm_started := (cid, ru_session r) # pm_started m\<rparr>))
      | (StartFailed _, Starts _) \<Rightarrow>
          Some (set_phase i r MustRelease (set_pool (release_lock (ru_session r) (pm_pool m)) m))
      | (RunFails _, Uses _) \<Rightarrow>
          (case evict_begin (ru_session r) (pm_pool m) of
             (None, st) \<Rightarrow> Some (set_phase i r MustRelease (set_pool st m))
           | (Some cid, st) \<Rightarrow> Some (note_stop cid (set_phase i r (Evicts cid) (set_pool st m))))
      | (EvictStopped _, Evicts _) \<Rightarrow>
          Some (set_phase i r MustRelease (set_pool (release_lock (ru_session r) (pm_pool m)) m))
      | (RunEnds _, Uses _) \<Rightarrow> Some (release_turn cfg i r m)
      | (RunEnds _, MustRelease) \<Rightarrow> Some (release_turn cfg i r m)
      | _ \<Rightarrow> None)"

fun event_run :: "pool_event \<Rightarrow> nat option" where
  "event_run (Wake i) = Some i"
| "event_run (Begin i) = Some i"
| "event_run (Checked i _) = Some i"
| "event_run (OldStopped i) = Some i"
| "event_run (LruStopped i) = Some i"
| "event_run (Started i _) = Some i"
| "event_run (StartFailed i) = Some i"
| "event_run (RunFails i) = Some i"
| "event_run (EvictStopped i) = Some i"
| "event_run (RunEnds i) = Some i"
| "event_run _ = None"

definition health_turn :: "pool_config \<Rightarrow> string \<Rightarrow> pool_machine \<Rightarrow> pool_machine" where
  "health_turn cfg s m =
     (case health_begin cfg s (pm_pool m) of
        (Skip, st) \<Rightarrow> m
      | (RemoveExpired cid, st) \<Rightarrow> note_stop cid (set_pool st m)
      | (CheckIdle e, st) \<Rightarrow> m\<lparr>pm_checks := (s, e) # pm_checks m\<rparr>)"

definition host_event :: "pool_config \<Rightarrow> pool_event \<Rightarrow> pool_machine \<Rightarrow> pool_machine option" where
  "host_event cfg ev m =
     (case ev of
        Arrive i agent s \<Rightarrow>
          if map_of (pm_runs m) i \<noteq> None then None
          else Some (lock_turn i \<lparr>ru_agent = agent, ru_session = s, ru_phase = HoldsLock\<rparr>
                 (cp_now (pm_pool m) + pc_lockTimeoutMs cfg) m)
      | TimerFires t \<Rightarrow>
          (case idle_fires t (pm_pool m) of
             None \<Rightarrow> None | Some (cid, st) \<Rightarrow> Some (note_stop cid (set_pool st m)))
      | HealthVisit s \<Rightarrow> Some (health_turn cfg s m)
      | HealthAnswer k alive \<Rightarrow>
          if k < length (pm_checks m) then
            (let p = pm_checks m ! k; m' = m\<lparr>pm_checks := remove1 p (pm_checks m)\<rparr>
             in if alive then Some m'
                else Some (note_stop (pe_containerId (snd p)) (set_pool (health_dead (fst p) (snd p) (pm_pool m)) m')))
          else None
      | Drain \<Rightarrow>
          (case drain_begin (pm_pool m) of
             (cids, st) \<Rightarrow>
               Some ((set_pool st m)\<lparr>pm_stopped := cids @ pm_stopped m, pm_draining := Suc (pm_draining m)\<rparr>))
      | DrainEnds \<Rightarrow>
          (case pm_draining m of
             0 \<Rightarrow> None
           | Suc n \<Rightarrow> Some ((set_pool (release_all_locks (pm_pool m)) m)\<lparr>pm_draining := n\<rparr>))
      | Tick n \<Rightarrow> Some (set_pool ((pm_pool m)\<lparr>cp_now := cp_now (pm_pool m) + n\<rparr>) m)
      | _ \<Rightarrow> None)"

definition machine_event :: "pool_config \<Rightarrow> pool_event \<Rightarrow> pool_machine \<Rightarrow> pool_machine option" where
  "machine_event cfg ev m =
     (case event_run ev of
        None \<Rightarrow> host_event cfg ev m
      | Some i \<Rightarrow> (case map_of (pm_runs m) i of None \<Rightarrow> None | Some r \<Rightarrow> run_event cfg ev i r m))"

fun run_events :: "pool_config \<Rightarrow> pool_event list \<Rightarrow> pool_machine \<Rightarrow> pool_machine option" where
  "run_events cfg [] m = Some m"
| "run_events cfg (ev # evs) m =
     (case machine_event cfg ev m of None \<Rightarrow> None | Some m' \<Rightarrow> run_events cfg evs m')"

section \<open>The interface: containers belong to sessions\<close>

text \<open>What a run relies on: whatever a machine does, the pairs of container and session it claims
  were started as such, and a started container is a new one. \<open>claims\<close> are the pairs the machine
  may act on, \<open>started\<close> the history of starts.\<close>

locale session_containers =
  fixes happens :: "'ev \<Rightarrow> 'm \<Rightarrow> 'm option"
    and claims :: "'m \<Rightarrow> (string \<times> string) set"
    and started :: "'m \<Rightarrow> (string \<times> string) list"
  assumes claims_started: "happens ev m = Some m' \<Longrightarrow> claims m' \<subseteq> claims m \<union> set (started m')"
    and starts_are_new: "happens ev m = Some m' \<Longrightarrow>
      started m' = started m \<or> (\<exists>c s. started m' = (c, s) # started m \<and> c \<notin> fst ` set (started m))"
begin

definition well_owned :: "'m \<Rightarrow> bool" where
  "well_owned m \<longleftrightarrow> claims m \<subseteq> set (started m) \<and> distinct (map fst (started m))"

lemma well_owned_step: "well_owned m \<Longrightarrow> happens ev m = Some m' \<Longrightarrow> well_owned m'"
proof -
  assume ok: "well_owned m" and hap: "happens ev m = Some m'"
  have "set (started m) \<subseteq> set (started m') \<and> distinct (map fst (started m'))"
    using starts_are_new [OF hap] ok unfolding well_owned_def by (elim disjE exE conjE) auto
  then show "well_owned m'"
    using claims_started [OF hap] ok unfolding well_owned_def by blast
qed

lemma well_owned_unique: "well_owned m \<Longrightarrow> (c, s) \<in> claims m \<Longrightarrow> (c, s') \<in> claims m \<Longrightarrow> s = s'"
  unfolding well_owned_def by (meson eq_key_imp_eq_value subset_iff)

end

definition pool_claims :: "container_pool \<Rightarrow> (string \<times> string) set" where
  "pool_claims st = {(pe_containerId e, s) |s e. (s, e) \<in> set (cp_pool st)}"

definition phase_claim :: "pool_run \<Rightarrow> (string \<times> string) option" where
  "phase_claim r =
     (case ru_phase r of
        ChecksOld e \<Rightarrow> Some (pe_containerId e, ru_session r)
      | Uses cid \<Rightarrow> Some (cid, ru_session r)
      | _ \<Rightarrow> None)"

definition run_claims :: "(nat \<times> pool_run) list \<Rightarrow> (string \<times> string) set" where
  "run_claims runs = {p. \<exists>i r. (i, r) \<in> set runs \<and> phase_claim r = Some p}"

definition machine_claims :: "pool_machine \<Rightarrow> (string \<times> string) set" where
  "machine_claims m =
     pool_claims (pm_pool m) \<union> run_claims (pm_runs m) \<union> prod.swap ` set (pm_served m)"

lemma pool_claims_del: "cp_pool st' = del_assoc s (cp_pool st) \<Longrightarrow> pool_claims st' \<subseteq> pool_claims st"
  by (auto simp: pool_claims_def set_del_assoc)

lemma pool_claims_same: "cp_pool st' = cp_pool st \<Longrightarrow> pool_claims st' \<subseteq> pool_claims st"
  by (simp add: pool_claims_def)

lemma pool_claims_put:
  "cp_pool st' = upd_assoc s e (cp_pool st) \<Longrightarrow> pool_claims st' \<subseteq> insert (pe_containerId e, s) (pool_claims st)"
  using set_upd_assoc_subset [of s e "cp_pool st"] by (auto simp: pool_claims_def)

lemma claims_begin:
  assumes "acquire_begin cfg agent s st = (out, st')"
  shows "pool_claims st' \<subseteq> pool_claims st \<and> (\<forall>e. out = MustCheck e \<longrightarrow> (pe_containerId e, s) \<in> pool_claims st)"
proof -
  have "cp_pool st' = cp_pool st \<or> cp_pool st' = del_assoc s (cp_pool st)"
    using assms by (auto simp: acquire_begin_def Let_def split: option.splits if_splits)
  moreover have found: "map_of (cp_pool st) s = Some e" if "out = MustCheck e" for e
    using assms that by (auto simp: acquire_begin_def Let_def split: option.splits if_splits)
  have "(pe_containerId e, s) \<in> pool_claims st" if "out = MustCheck e" for e
    using map_of_SomeD [OF found [OF that]] by (auto simp: pool_claims_def)
  ultimately show ?thesis using pool_claims_same [of st' st] pool_claims_del [of st' s st] by blast
qed

lemma claims_evict_lru: "evict_lru st = Some (cid, st') \<Longrightarrow> pool_claims st' \<subseteq> pool_claims st"
proof -
  assume "evict_lru st = Some (cid, st')"
  then obtain s where "cp_pool st' = del_assoc s (cp_pool st)"
    by (auto simp: evict_lru_def split: option.splits)
  then show ?thesis by (rule pool_claims_del)
qed

lemma claims_fresh: "fresh_begin cfg st = (out, st') \<Longrightarrow> pool_claims st' \<subseteq> pool_claims st"
  using claims_evict_lru by (auto simp: fresh_begin_def split: if_splits option.splits)

lemma claims_lock: "try_lock s d st = (out, st') \<Longrightarrow> pool_claims st' \<subseteq> pool_claims st"
  by (rule pool_claims_same) (auto simp: try_lock_def split: option.splits if_splits)

lemma claims_release:
  assumes "release cfg s st = (out, st')"
  shows "pool_claims st' \<subseteq> pool_claims st"
proof (cases "map_of (cp_pool st) s")
  case None
  then show ?thesis using assms by (intro pool_claims_same) (auto simp: release_def)
next
  case (Some e)
  have "(pe_containerId e, s) \<in> pool_claims st" using map_of_SomeD [OF Some] by (auto simp: pool_claims_def)
  let ?idle = "case map_of (cp_sessionIdleTimeouts st) s of None \<Rightarrow> pc_defaultIdleTimeoutSec cfg | Some n \<Rightarrow> n"
  show ?thesis
  proof (cases "pe_ephemeral e \<or> ?idle = 0")
    case True
    then have "cp_pool st' = del_assoc s (cp_pool st)" using assms Some by (auto simp: release_def Let_def)
    then show ?thesis by (rule pool_claims_del)
  next
    case False
    then have "cp_pool st' = upd_assoc s
        (e\<lparr>pe_status := Idle, pe_lastUsedAt := cp_now st, pe_idleTimer := Some (cp_nextRef st)\<rparr>) (cp_pool st)"
      using assms Some by (auto simp: release_def Let_def start_timer_def)
    from pool_claims_put [OF this] show ?thesis using \<open>(pe_containerId e, s) \<in> pool_claims st\<close> by auto
  qed
qed

lemma run_claims_upd:
  "run_claims (upd_assoc i r runs) \<subseteq> run_claims runs \<union> (case phase_claim r of None \<Rightarrow> {} | Some p \<Rightarrow> {p})"
proof
  fix p
  assume "p \<in> run_claims (upd_assoc i r runs)"
  then obtain i' r' where "(i', r') \<in> set (upd_assoc i r runs)" "phase_claim r' = Some p"
    by (auto simp: run_claims_def)
  then show "p \<in> run_claims runs \<union> (case phase_claim r of None \<Rightarrow> {} | Some p \<Rightarrow> {p})"
  proof (cases "(i', r') = (i, r)")
    case True
    then show ?thesis using \<open>phase_claim r' = Some p\<close> by simp
  next
    case False
    then have "(i', r') \<in> set runs"
      using \<open>(i', r') \<in> set (upd_assoc i r runs)\<close> set_upd_assoc_subset [of i r runs] by blast
    then show ?thesis using \<open>phase_claim r' = Some p\<close> by (auto simp: run_claims_def)
  qed
qed

lemma run_claimI: "(i, r) \<in> set runs \<Longrightarrow> phase_claim r = Some p \<Longrightarrow> p \<in> run_claims runs"
  by (auto simp: run_claims_def)

lemma run_claims_del: "run_claims (del_assoc i runs) \<subseteq> run_claims runs"
  by (auto simp: run_claims_def set_del_assoc)

lemma machine_simps [simp]:
  "pm_pool (set_phase i r ph m) = pm_pool m" "pm_served (set_phase i r ph m) = pm_served m"
  "pm_started (set_phase i r ph m) = pm_started m" "pm_runs (set_phase i r ph m) = upd_assoc i (r\<lparr>ru_phase := ph\<rparr>) (pm_runs m)"
  "pm_pool (set_pool st m) = st" "pm_served (set_pool st m) = pm_served m"
  "pm_started (set_pool st m) = pm_started m" "pm_runs (set_pool st m) = pm_runs m"
  "pm_pool (note_stop c m) = pm_pool m" "pm_served (note_stop c m) = pm_served m"
  "pm_started (note_stop c m) = pm_started m" "pm_runs (note_stop c m) = pm_runs m"
  "pm_pool (serve i r c m) = pm_pool m" "pm_started (serve i r c m) = pm_started m"
  "pm_served (serve i r c m) = (ru_session r, c) # pm_served m"
  "pm_runs (serve i r c m) = upd_assoc i (r\<lparr>ru_phase := Uses c\<rparr>) (pm_runs m)"
  by (simp_all add: set_phase_def set_pool_def note_stop_def serve_def)

text \<open>The claims of a machine whose pool and one run changed.\<close>

lemma machine_claims_mono:
  assumes "pool_claims (pm_pool m') \<subseteq> pool_claims (pm_pool m) \<union> X"
    and "pm_runs m' = upd_assoc i r (pm_runs m) \<or> pm_runs m' = del_assoc i (pm_runs m) \<or> pm_runs m' = pm_runs m"
    and "phase_claim r = None \<or> (\<exists>p \<in> machine_claims m \<union> X. phase_claim r = Some p)"
    and "prod.swap ` set (pm_served m') \<subseteq> prod.swap ` set (pm_served m) \<union> X"
  shows "machine_claims m' \<subseteq> machine_claims m \<union> X"
proof -
  have "run_claims (pm_runs m') \<subseteq> machine_claims m \<union> X"
    using assms(2,3) run_claims_upd [of i r "pm_runs m"] run_claims_del [of i "pm_runs m"]
    by (auto simp: machine_claims_def)
  then show ?thesis using assms(1,4) unfolding machine_claims_def by blast
qed

lemma phase_claim_simps [simp]:
  "phase_claim (r\<lparr>ru_phase := Uses c\<rparr>) = Some (c, ru_session r)"
  "phase_claim (r\<lparr>ru_phase := ChecksOld e\<rparr>) = Some (pe_containerId e, ru_session r)"
  "phase_claim (r\<lparr>ru_phase := WaitsForLock d l\<rparr>) = None"
  "phase_claim (r\<lparr>ru_phase := HoldsLock\<rparr>) = None"
  "phase_claim (r\<lparr>ru_phase := StopsOld c\<rparr>) = None"
  "phase_claim (r\<lparr>ru_phase := StopsLru c\<rparr>) = None"
  "phase_claim (r\<lparr>ru_phase := Starts b\<rparr>) = None"
  "phase_claim (r\<lparr>ru_phase := Evicts c\<rparr>) = None"
  "phase_claim (r\<lparr>ru_phase := MustRelease\<rparr>) = None"
  by (simp_all add: phase_claim_def)

definition quiet :: "pool_machine \<Rightarrow> pool_machine \<Rightarrow> bool" where
  "quiet m m' \<longleftrightarrow> machine_claims m' \<subseteq> machine_claims m \<and> pm_started m' = pm_started m"

text \<open>A turn that moves a run to a phase without a claim, or changes only the pool.\<close>

lemma quiet_phase:
  assumes "pool_claims (pm_pool m') \<subseteq> pool_claims (pm_pool m)" "pm_served m' = pm_served m" "pm_started m' = pm_started m"
    and "pm_runs m' = upd_assoc i (r\<lparr>ru_phase := ph\<rparr>) (pm_runs m)"
    and "case ph of ChecksOld e \<Rightarrow> (pe_containerId e, ru_session r) \<in> pool_claims (pm_pool m) | Uses c \<Rightarrow> False | _ \<Rightarrow> True"
  shows "quiet m m'"
proof -
  have "phase_claim (r\<lparr>ru_phase := ph\<rparr>) = None \<or>
      (\<exists>p \<in> machine_claims m \<union> {}. phase_claim (r\<lparr>ru_phase := ph\<rparr>) = Some p)"
    using assms(5) by (cases ph) (auto simp: machine_claims_def)
  then show ?thesis
    using machine_claims_mono [of m' m "{}" i "r\<lparr>ru_phase := ph\<rparr>"] assms by (simp add: quiet_def)
qed

lemma quiet_pool:
  assumes "pool_claims (pm_pool m') \<subseteq> pool_claims (pm_pool m)" "pm_served m' = pm_served m" "pm_started m' = pm_started m"
    and "pm_runs m' = pm_runs m \<or> pm_runs m' = del_assoc i (pm_runs m)"
  shows "quiet m m'"
  using assms run_claims_del [of i "pm_runs m"] by (auto simp: quiet_def machine_claims_def)

lemma quiet_lock: "quiet m (lock_turn i r d m)"
proof (cases "try_lock (ru_session r) d (pm_pool m)")
  case (Pair out st)
  then show ?thesis using claims_lock [OF Pair]
    by (cases out) (auto simp: lock_turn_def intro!: quiet_phase)
qed

lemma quiet_fresh:
  assumes "pool_claims (pm_pool m) \<subseteq> pool_claims (pm_pool m0)" "pm_served m = pm_served m0"
    "pm_started m = pm_started m0" "pm_runs m = pm_runs m0"
  shows "quiet m0 (fresh_turn cfg i r m)"
proof (cases "fresh_begin cfg (pm_pool m)")
  case (Pair out st)
  have [simp]: "pool_claims (release_lock s st) = pool_claims st" for s by (simp add: pool_claims_def)
  show ?thesis using claims_fresh [OF Pair] Pair assms
    by (cases out) (auto simp: fresh_turn_def intro!: quiet_phase)
qed

lemma quiet_begin: "quiet m (begin_turn cfg i r m)"
proof (cases "acquire_begin cfg (ru_agent r) (ru_session r) (pm_pool m)")
  case (Pair out st)
  then show ?thesis using claims_begin [OF Pair]
    by (cases out) (auto simp: begin_turn_def intro!: quiet_phase quiet_fresh)
qed

lemma quiet_release: "quiet m (release_turn cfg i r m)"
proof (cases "release cfg (ru_session r) (pm_pool m)")
  case (Pair stop st)
  have "pm_runs (release_turn cfg i r m) = del_assoc i (pm_runs m)"
    "pm_pool (release_turn cfg i r m) = st" "pm_served (release_turn cfg i r m) = pm_served m"
    "pm_started (release_turn cfg i r m) = pm_started m"
    using Pair by (cases stop; simp add: release_turn_def Let_def)+
  then show ?thesis using claims_release [OF Pair] by (intro quiet_pool [where i = i]) simp_all
qed

lemma quiet_unlock: "quiet m (set_phase i r MustRelease (set_pool (release_lock s (pm_pool m)) m))"
  using pool_claims_same [of "release_lock s (pm_pool m)" "pm_pool m"] by (intro quiet_phase) auto

lemma claims_health:
  assumes "health_begin cfg s st = (out, st')"
  shows "pool_claims st' \<subseteq> pool_claims st"
proof -
  have "cp_pool st' = cp_pool st \<or> cp_pool st' = del_assoc s (cp_pool st)"
    using assms by (auto simp: health_begin_def split: option.splits if_splits)
  then show ?thesis using pool_claims_same pool_claims_del by blast
qed

lemma claims_evict:
  assumes "evict_begin s st = (out, st')"
  shows "pool_claims st' \<subseteq> pool_claims st"
proof -
  have "cp_pool st' = cp_pool st \<or> cp_pool st' = del_assoc s (cp_pool st)"
    using assms by (auto simp: evict_begin_def split: option.splits)
  then show ?thesis using pool_claims_same pool_claims_del by blast
qed

lemma claims_idle:
  assumes "idle_fires t st = Some (cid, st')"
  shows "pool_claims st' \<subseteq> pool_claims st"
proof -
  obtain s where "cp_pool st' = del_assoc s (cp_pool st)"
    using assms by (auto simp: idle_fires_def split: option.splits)
  then show ?thesis by (rule pool_claims_del)
qed

lemma claims_dead: "pool_claims (health_dead s e st) \<subseteq> pool_claims st"
  by (rule pool_claims_del [where s = s]) (simp add: health_dead_def)

lemma claims_forget: "pool_claims (forget_session s st) \<subseteq> pool_claims st"
  by (rule pool_claims_del [where s = s]) simp

lemma host_quiet:
  assumes "host_event cfg ev m = Some m'"
  shows "quiet m m'"
proof (cases ev)
  case (Arrive i agent s)
  then show ?thesis using assms quiet_lock by (auto simp: host_event_def split: if_splits)
next
  case (TimerFires t)
  then show ?thesis using assms claims_idle [THEN subsetD]
    by (auto simp: host_event_def split: option.splits intro!: quiet_pool)
next
  case (HealthVisit s)
  obtain out st where hb: "health_begin cfg s (pm_pool m) = (out, st)" by fastforce
  have m': "m' = health_turn cfg s m" using assms HealthVisit by (simp add: host_event_def)
  show ?thesis using hb claims_health [OF hb]
    by (cases out) (auto simp: m' health_turn_def intro!: quiet_pool)
next
  case (HealthAnswer k alive)
  then show ?thesis using assms claims_dead [THEN subsetD]
    by (auto simp: host_event_def Let_def split: if_splits intro!: quiet_pool)
next
  case Drain
  then show ?thesis using assms
    by (auto simp: host_event_def drain_begin_def pool_claims_def intro!: quiet_pool)
next
  case DrainEnds
  then show ?thesis using assms
    by (auto simp: host_event_def release_all_locks_def pool_claims_def split: nat.splits intro!: quiet_pool)
next
  case (Tick n)
  then show ?thesis using assms by (auto simp: host_event_def pool_claims_def intro!: quiet_pool)
qed (use assms in \<open>simp_all add: host_event_def\<close>)

text \<open>A run is served the container that was just started for it, or one its session owns.\<close>

lemma serve_claims:
  assumes "pool_claims (pm_pool m') \<subseteq> pool_claims (pm_pool m) \<union> {(c, ru_session r)}"
    and "pm_runs m' = upd_assoc i (r\<lparr>ru_phase := Uses c\<rparr>) (pm_runs m)"
    and "pm_served m' = (ru_session r, c) # pm_served m"
  shows "machine_claims m' \<subseteq> machine_claims m \<union> {(c, ru_session r)}"
  using assms(1) by (rule machine_claims_mono) (use assms(2,3) in auto)

definition owned_step :: "pool_machine \<Rightarrow> pool_machine \<Rightarrow> bool" where
  "owned_step m m' \<longleftrightarrow>
     machine_claims m' \<subseteq> machine_claims m \<union> set (pm_started m') \<and>
     (pm_started m' = pm_started m \<or>
      (\<exists>c s. pm_started m' = (c, s) # pm_started m \<and> c \<notin> fst ` set (pm_started m)))"

lemma quiet_owned: "quiet m m' \<Longrightarrow> owned_step m m'"
  unfolding quiet_def owned_step_def by blast

lemma answer_owned:
  assumes "(i, r) \<in> set (pm_runs m)" and "ru_phase r = ChecksOld e"
  shows "owned_step m (answer_turn i r e alive m)"
proof (cases alive)
  case False
  have "quiet m (answer_turn i r e alive m)"
    using False claims_forget [THEN subsetD] by (auto simp: answer_turn_def intro!: quiet_phase)
  then show ?thesis by (rule quiet_owned)
next
  case True
  have "(pe_containerId e, ru_session r) \<in> machine_claims m"
    using run_claimI [OF assms(1)] assms(2) by (simp add: machine_claims_def phase_claim_def)
  moreover have "machine_claims (answer_turn i r e alive m) \<subseteq>
      machine_claims m \<union> {(pe_containerId e, ru_session r)}"
    using True pool_claims_put [of "reuse_entry (ru_session r) e (pm_pool m)" "ru_session r"
        "e\<lparr>pe_status := Active, pe_lastUsedAt := cp_now (pm_pool m), pe_idleTimer := None\<rparr>" "pm_pool m"]
    by (intro serve_claims [where i = i]) (auto simp: answer_turn_def reuse_entry_def)
  ultimately show ?thesis using True by (auto simp: owned_step_def answer_turn_def)
qed

lemma started_owned:
  assumes "cid \<notin> fst ` set (pm_started m)"
  shows "owned_step m (serve i r cid
           ((set_pool (fresh_finish agent (ru_session r) cid eph (pm_pool m)) m)
              \<lparr>pm_started := (cid, ru_session r) # pm_started m\<rparr>))" (is "owned_step m ?m'")
proof -
  have "machine_claims ?m' \<subseteq> machine_claims m \<union> {(cid, ru_session r)}"
  proof (rule serve_claims [where i = i])
    show "pool_claims (pm_pool ?m') \<subseteq> pool_claims (pm_pool m) \<union> {(cid, ru_session r)}"
      using pool_claims_put [of "fresh_finish agent (ru_session r) cid eph (pm_pool m)" "ru_session r" _ "pm_pool m"]
      by (fastforce simp: fresh_finish_def)
  qed (simp_all add: set_pool_def)
  then show ?thesis using assms by (auto simp: owned_step_def)
qed

lemma fails_quiet:
  assumes "evict_begin (ru_session r) (pm_pool m) = (out, st)"
  shows "quiet m (case out of None \<Rightarrow> set_phase i r MustRelease (set_pool st m)
                | Some cid \<Rightarrow> note_stop cid (set_phase i r (Evicts cid) (set_pool st m)))"
  using claims_evict [OF assms] by (cases out) (auto intro!: quiet_phase)

lemma run_owned:
  assumes r: "(i, r) \<in> set (pm_runs m)" and ev: "run_event cfg ev i r m = Some m'"
  shows "owned_step m m'"
proof (cases "ru_phase r")
  case (WaitsForLock d l)
  then show ?thesis using ev quiet_owned [OF quiet_lock]
    by (cases ev) (auto simp: run_event_def split: if_splits)
next
  case HoldsLock
  then show ?thesis using ev quiet_owned [OF quiet_begin]
    by (cases ev) (auto simp: run_event_def)
next
  case (ChecksOld e)
  then show ?thesis using ev answer_owned [OF r ChecksOld]
    by (cases ev) (auto simp: run_event_def)
next
  case (StopsOld c)
  then show ?thesis using ev quiet_owned [OF quiet_fresh [of m m]]
    by (cases ev) (auto simp: run_event_def)
next
  case (StopsLru c)
  have "quiet m (set_phase i r (Starts False) m)" 
    by (intro quiet_phase [where i = i and r = r and ph = "Starts False"]) simp_all
  then show ?thesis using ev StopsLru quiet_owned
    by (cases ev) (auto simp: run_event_def)
next
  case (Starts eph)
  then show ?thesis using ev started_owned [of _ m i r "ru_agent r" eph] quiet_owned [OF quiet_unlock [of m i r "ru_session r"]]
    by (cases ev) (auto simp: run_event_def split: if_splits)
next
  case (Uses c)
  obtain out st where eb: "evict_begin (ru_session r) (pm_pool m) = (out, st)" by fastforce
  show ?thesis using ev Uses eb quiet_owned [OF fails_quiet [OF eb, of i]] quiet_owned [OF quiet_release [of m cfg i r]]
    by (cases ev; cases out) (auto simp: run_event_def)
next
  case (Evicts c)
  then show ?thesis using ev quiet_owned [OF quiet_unlock [of m i r "ru_session r"]]
    by (cases ev) (auto simp: run_event_def)
next
  case MustRelease
  then show ?thesis using ev quiet_owned [OF quiet_release [of m cfg i r]]
    by (cases ev) (auto simp: run_event_def)
qed

lemma machine_owned: "machine_event cfg ev m = Some m' \<Longrightarrow> owned_step m m'"
  using run_owned quiet_owned [OF host_quiet]
  by (auto simp: machine_event_def dest: map_of_SomeD split: option.splits)

interpretation pool_sessions: session_containers "machine_event cfg" machine_claims pm_started for cfg
  using machine_owned by unfold_locales (auto simp: owned_step_def)

lemma init_well_owned: "pool_sessions.well_owned init_pool_machine"
  by (simp add: pool_sessions.well_owned_def init_pool_machine_def machine_claims_def pool_claims_def
      run_claims_def empty_pool_def)

lemma run_events_well_owned:
  "pool_sessions.well_owned m \<Longrightarrow> run_events cfg evs m = Some m' \<Longrightarrow> pool_sessions.well_owned m'"
proof (induction evs arbitrary: m)
  case Nil
  then show ?case by simp
next
  case (Cons ev evs)
  obtain m1 where m1: "machine_event cfg ev m = Some m1" using Cons.prems(2) by (auto split: option.splits)
  then show ?case
    using Cons.IH [OF pool_sessions.well_owned_step [OF Cons.prems(1) m1]] Cons.prems(2) by simp
qed

text \<open>C13: a container is never shared between sessions: whatever the interleaving of runs, health
  checks, timers, evictions and drains, and also when locks are taken over by force, a container
  that is served to a run, used by one or kept in the pool was started for that session and no
  other session ever gets it.\<close>

theorem container_isolation:
  assumes "run_events cfg evs init_pool_machine = Some m"
    and "(s, cid) \<in> set (pm_served m)"
  shows "(cid, s) \<in> set (pm_started m) \<and>
     (\<forall>s'. (s', cid) \<in> set (pm_served m) \<longrightarrow> s' = s) \<and>
     (\<forall>i r. map_of (pm_runs m) i = Some r \<longrightarrow> ru_phase r = Uses cid \<longrightarrow> ru_session r = s) \<and>
     (\<forall>s' e. map_of (cp_pool (pm_pool m)) s' = Some e \<longrightarrow> pe_containerId e = cid \<longrightarrow> s' = s)"
proof -
  have ok: "pool_sessions.well_owned m" by (rule run_events_well_owned [OF init_well_owned assms(1)])
  have served: "(cid, s') \<in> machine_claims m" if "(s', cid) \<in> set (pm_served m)" for s'
    using that by (force simp: machine_claims_def)
  have using_it: "(cid, ru_session r) \<in> machine_claims m"
    if "map_of (pm_runs m) i = Some r" "ru_phase r = Uses cid" for i r
    using run_claimI [OF map_of_SomeD [OF that(1)]] that(2) by (simp add: machine_claims_def phase_claim_def)
  have pooled: "(cid, s') \<in> machine_claims m"
    if "map_of (cp_pool (pm_pool m)) s' = Some e" "pe_containerId e = cid" for s' e
    using map_of_SomeD [OF that(1)] that(2) by (auto simp: machine_claims_def pool_claims_def)
  have mine: "(cid, s) \<in> machine_claims m" using served [OF assms(2)] .
  have same: "s' = s" if "(cid, s') \<in> machine_claims m" for s'
    using pool_sessions.well_owned_unique [OF ok that mine] .
  have "(cid, s) \<in> set (pm_started m)" using ok mine unfolding pool_sessions.well_owned_def by blast
  then show ?thesis using same served using_it pooled by blast
qed

definition small_pool_config :: pool_config where
  "small_pool_config =
     \<lparr>pc_maxWarmContainers = 1, pc_maxEphemeralContainers = 1, pc_defaultIdleTimeoutSec = 3,
      pc_maxIdleTimeoutSec = 3, pc_maxContainerLifetimeSec = 3, pc_healthCheckIntervalSec = 1,
      pc_lockTimeoutMs = 1, pc_acquireWaitTimeoutMs = 1\<rparr>"

definition plain_agent :: agent_def where
  "plain_agent = \<lparr>ad_id = ''g'', ad_idleTimeoutSeconds = None\<rparr>"

definition sample_trace :: "pool_event list" where
  "sample_trace =
     [Arrive 0 plain_agent ''a'', Begin 0, Started 0 ''x'', RunEnds 0,
      Arrive 1 plain_agent ''a'', Begin 1, Checked 1 True]"

theorem container_isolation_witness:
  "\<exists>m. run_events small_pool_config sample_trace init_pool_machine = Some m \<and>
     (''a'', ''x'') \<in> set (pm_served m) \<and> (''x'', ''a'') \<in> set (pm_started m)"
proof -
  have "case run_events small_pool_config sample_trace init_pool_machine of
      None \<Rightarrow> False | Some m \<Rightarrow> (''a'', ''x'') \<in> set (pm_served m)"
    by code_simp
  then obtain m where m: "run_events small_pool_config sample_trace init_pool_machine = Some m"
      "(''a'', ''x'') \<in> set (pm_served m)" by (auto split: option.splits)
  then show ?thesis using container_isolation [OF m] by blast
qed

section \<open>Races\<close>

text \<open>The runs that use a container of a session.\<close>

definition users_of :: "string \<Rightarrow> pool_machine \<Rightarrow> (nat \<times> string) list" where
  "users_of s m =
     concat (map (\<lambda>(i, r). case ru_phase r of Uses cid \<Rightarrow> if ru_session r = s then [(i, cid)] else [] | _ \<Rightarrow> [])
       (pm_runs m))"

definition race :: "pool_event list \<Rightarrow> (pool_machine \<Rightarrow> bool) \<Rightarrow> bool" where
  "race evs P = (case run_events small_pool_config evs init_pool_machine of None \<Rightarrow> False | Some m \<Rightarrow> P m)"

text \<open>The limit on warm containers and the liveness of what is handed out hold only when calls
  do not overlap. With one warm slot, two first acquires that overlap both pass the capacity check
  and leave two warm containers. An acquire that awaits its health check still has its entry marked
  idle: another session's eviction stops that container, and the first run is then served the
  stopped container, which also goes back into the pool.\<close>

theorem overlapping_acquires_break_limits:
  "race [Arrive 0 plain_agent ''a'', Begin 0, Arrive 1 plain_agent ''b'', Begin 1, Started 0 ''x'', Started 1 ''y'']
     (\<lambda>m. warm_count (pm_pool m) = 2) \<and>
   race [Arrive 0 plain_agent ''a'', Begin 0, Started 0 ''x'', RunEnds 0,
         Arrive 1 plain_agent ''a'', Begin 1, Arrive 2 plain_agent ''b'', Begin 2, Checked 1 True]
     (\<lambda>m. users_of ''a'' m = [(1, ''x'')] \<and> ''x'' \<in> set (pm_stopped m) \<and>
        map_of (map (\<lambda>(s, e). (s, pe_containerId e)) (cp_pool (pm_pool m))) ''a'' = Some ''x'')"
  by code_simp

text \<open>The lock does not keep two runs of one session apart. A failed run evicts its container,
  which releases the lock, and later releases the session once more: by then the lock and the
  container belong to the next run, so a third run gets that container while it is in use. And
  when a lock was waited for longer than the timeout, the waiters that wake take it over from each
  other, although its new holder has only just started.\<close>

theorem runs_share_a_container:
  "race [Arrive 0 plain_agent ''a'', Begin 0, Started 0 ''x'', Arrive 1 plain_agent ''a'',
         RunFails 0, EvictStopped 0, Wake 1, Begin 1, Started 1 ''y'', RunEnds 0,
         Arrive 2 plain_agent ''a'', Begin 2, Checked 2 True]
     (\<lambda>m. users_of ''a'' m = [(1, ''y''), (2, ''y'')]) \<and>
   race [Arrive 0 plain_agent ''a'', Begin 0, Started 0 ''x'', Arrive 1 plain_agent ''a'', Arrive 2 plain_agent ''a'',
         Tick 2, RunEnds 0, Wake 1, Begin 1, Checked 1 True, Wake 2, Begin 2, Checked 2 True]
     (\<lambda>m. users_of ''a'' m = [(1, ''x''), (2, ''x'')])"
  by code_simp

end
