(* ===== verification/CapacityLedger.thy ===== *)
theory CapacityLedger
  imports ContainerPool ToolRegistry
begin

text \<open>
  \<open>engine/container-capacity.ledger.ts\<close> and \<open>engine/capacity.service.ts\<close>: the host-wide ceiling
  for containers, the slots of sub-agents, and the load the plans of all active users commit to.
  The tables of users and policies are lists of rows; the gauge is left out. A ceiling that
  \<open>parseInt\<close> cannot read is \<open>NaN\<close>, written \<open>None\<close>.
\<close>

section \<open>The ledger\<close>

record capacity_ledger =
  cl_subAgentActive :: nat
  cl_ceiling :: "rat option"

record capacity_snapshot =
  cs_ceiling :: "rat option"
  cs_pooled :: pool_stats
  cs_subAgentActive :: nat
  cs_total :: nat

definition new_ledger :: "string option \<Rightarrow> capacity_ledger" where
  "new_ledger maxTotalContainers =
     \<lparr>cl_subAgentActive = 0,
      cl_ceiling = parse_int (case maxTotalContainers of None \<Rightarrow> ''40'' | Some s \<Rightarrow> s)\<rparr>"

definition occupied :: "container_pool \<Rightarrow> capacity_ledger \<Rightarrow> nat" where
  "occupied pool l = ps_total (pool_stats_of pool) + cl_subAgentActive l"

definition try_acquire_sub_agent :: "container_pool \<Rightarrow> capacity_ledger \<Rightarrow> bool \<times> capacity_ledger" where
  "try_acquire_sub_agent pool l =
     (if (case cl_ceiling l of None \<Rightarrow> False | Some c \<Rightarrow> c \<le> of_nat (occupied pool l)) then (False, l)
      else (True, l\<lparr>cl_subAgentActive := Suc (cl_subAgentActive l)\<rparr>))"

definition release_sub_agent :: "capacity_ledger \<Rightarrow> capacity_ledger" where
  "release_sub_agent l = l\<lparr>cl_subAgentActive := nat (max 0 (int (cl_subAgentActive l) - 1))\<rparr>"

definition ledger_snapshot :: "container_pool \<Rightarrow> capacity_ledger \<Rightarrow> capacity_snapshot" where
  "ledger_snapshot pool l =
     \<lparr>cs_ceiling = cl_ceiling l, cs_pooled = pool_stats_of pool, cs_subAgentActive = cl_subAgentActive l,
      cs_total = occupied pool l\<rparr>"

section \<open>Committed load\<close>

record user_row =
  us_policyId :: string
  us_isActive :: bool

record policy_row =
  po_id :: string
  po_maxConcurrentPrimaryRuns :: nat
  po_maxConcurrentSubAgents :: nat

text \<open>\<open>groupBy\<close> over the active users, with the size of each group.\<close>

definition user_groups :: "user_row list \<Rightarrow> (string \<times> nat) list" where
  "user_groups users =
     (let active = filter us_isActive users
      in map (\<lambda>p. (p, length (filter (\<lambda>u. us_policyId u = p) active))) (remdups (map us_policyId active)))"

definition per_policy :: "string list \<Rightarrow> policy_row list \<Rightarrow> (string \<times> nat) list" where
  "per_policy ids policies =
     foldl (\<lambda>m p. upd_assoc (po_id p) (po_maxConcurrentPrimaryRuns p + po_maxConcurrentSubAgents p) m) []
       (filter (\<lambda>p. po_id p \<in> set ids) policies)"

definition add_group :: "(string \<times> nat) list \<Rightarrow> nat \<times> nat \<Rightarrow> string \<times> nat \<Rightarrow> nat \<times> nat" where
  "add_group perPolicy acc grp =
     (fst acc + snd grp,
      snd acc + snd grp * (case map_of perPolicy (fst grp) of None \<Rightarrow> 0 | Some n \<Rightarrow> n))"

text \<open>\<open>(activeUsers, committed)\<close>.\<close>

definition committed_load :: "user_row list \<Rightarrow> policy_row list \<Rightarrow> nat \<times> nat" where
  "committed_load users policies =
     (let groups = user_groups users
      in if groups = [] then (0, 0)
         else foldl (add_group (per_policy (map fst groups) policies)) (0, 0) groups)"

definition show_ceiling :: "rat option \<Rightarrow> string" where
  "show_ceiling c = (case c of None \<Rightarrow> ''NaN'' | Some q \<Rightarrow> show_rat q)"

definition warning_text :: "nat \<Rightarrow> nat \<Rightarrow> rat option \<Rightarrow> string" where
  "warning_text committed activeUsers ceil =
     ''Committed load is '' @ show_nat committed @ '' concurrent containers across '' @ show_nat activeUsers @
     '' active user(s), '' @ ''exceeding the host container ceiling of '' @ show_ceiling ceil @
     ''. Under full load some runs will queue or '' @
     ''be refused. Consider raising MAX_TOTAL_CONTAINERS, tightening plan quotas, or deactivating users.''"

definition over_committed :: "nat \<Rightarrow> rat option \<Rightarrow> bool" where
  "over_committed committed ceil = (case ceil of None \<Rightarrow> False | Some c \<Rightarrow> c < of_nat committed)"

record capacity_report =
  cr_containers :: capacity_snapshot
  cr_executor :: "nat \<times> nat"
  cr_activeUsers :: nat
  cr_committedLoad :: nat
  cr_overCommitted :: bool
  cr_warning :: "string option"

definition capacity_report ::
  "container_pool \<Rightarrow> capacity_ledger \<Rightarrow> nat \<times> nat \<Rightarrow> user_row list \<Rightarrow> policy_row list \<Rightarrow> capacity_report" where
  "capacity_report pool l executor users policies =
     (case committed_load users policies of
        (activeUsers, committed) \<Rightarrow>
          \<lparr>cr_containers = ledger_snapshot pool l, cr_executor = executor, cr_activeUsers = activeUsers,
           cr_committedLoad = committed, cr_overCommitted = over_committed committed (cl_ceiling l),
           cr_warning = (if over_committed committed (cl_ceiling l)
                         then Some (warning_text committed activeUsers (cl_ceiling l)) else None)\<rparr>)"

definition onboarding_warning :: "capacity_ledger \<Rightarrow> user_row list \<Rightarrow> policy_row list \<Rightarrow> string option" where
  "onboarding_warning l users policies =
     (case committed_load users policies of
        (activeUsers, committed) \<Rightarrow>
          if over_committed committed (cl_ceiling l)
          then Some (warning_text committed activeUsers (cl_ceiling l)) else None)"

section \<open>The ledger refines the set of admitted sub-agents\<close>

text \<open>The abstract ledger knows which runs hold a slot; the service only counts them.\<close>

datatype ledger_op = Admit nat container_pool | Dismiss nat

definition spec_step :: "rat option \<Rightarrow> ledger_op \<Rightarrow> nat set \<Rightarrow> bool \<times> nat set" where
  "spec_step ceil op held =
     (case op of
        Admit i pool \<Rightarrow>
          if i \<in> held then (False, held)
          else if (case ceil of None \<Rightarrow> True | Some c \<Rightarrow> of_nat (length (cp_pool pool) + card held) < c)
          then (True, insert i held) else (False, held)
      | Dismiss i \<Rightarrow> (True, held - {i}))"

text \<open>The code's side: a run asks at most once and gives back only what it holds
  (\<open>capacitySlotHeld\<close> of the agent runner).\<close>

definition ledger_step :: "ledger_op \<Rightarrow> nat list \<times> capacity_ledger \<Rightarrow> bool \<times> nat list \<times> capacity_ledger" where
  "ledger_step op s =
     (case s of (holding, l) \<Rightarrow>
       (case op of
          Admit i pool \<Rightarrow>
            if i \<in> set holding then (False, holding, l)
            else (case try_acquire_sub_agent pool l of
                    (True, l') \<Rightarrow> (True, i # holding, l')
                  | (False, l') \<Rightarrow> (False, holding, l'))
        | Dismiss i \<Rightarrow>
            if i \<in> set holding then (True, removeAll i holding, release_sub_agent l) else (True, holding, l)))"

definition ledger_abs :: "nat list \<times> capacity_ledger \<Rightarrow> nat set" where
  "ledger_abs s = set (fst s)"

definition ledger_ok :: "nat list \<times> capacity_ledger \<Rightarrow> bool" where
  "ledger_ok s \<longleftrightarrow> distinct (fst s) \<and> cl_subAgentActive (snd s) = length (fst s)"

lemma stats_total [simp]: "ps_total (pool_stats_of pool) = length (cp_pool pool)"
  by (simp add: pool_stats_of_def)

lemma removeAll_distinct_length:
  "distinct xs \<Longrightarrow> x \<in> set xs \<Longrightarrow> length (removeAll x xs) = length xs - 1"
  by (simp add: distinct_remove1_removeAll [symmetric] length_remove1)

lemma release_count: "cl_subAgentActive (release_sub_agent l) = cl_subAgentActive l - 1"
  by (simp add: release_sub_agent_def)

lemma ledger_keeps:
  assumes ok: "ledger_ok s" and st: "ledger_step op s = (b, s')"
  shows "ledger_ok s' \<and> cl_ceiling (snd s') = cl_ceiling (snd s)"
proof -
  obtain holding l where s: "s = (holding, l)" by (cases s)
  show ?thesis
  proof (cases op)
    case (Admit i pool)
    then show ?thesis using ok st s
      by (auto simp: ledger_step_def ledger_ok_def try_acquire_sub_agent_def split: if_splits)
  next
    case (Dismiss i)
    then show ?thesis using ok st s removeAll_distinct_length [of holding i]
      by (auto simp: ledger_step_def ledger_ok_def release_count release_sub_agent_def distinct_removeAll split: if_splits)
  qed
qed

lemma ledger_simulates:
  assumes ok: "ledger_ok s" and st: "ledger_step op s = (b, s')"
  shows "spec_step (cl_ceiling (snd s)) op (ledger_abs s) = (b, ledger_abs s')"
proof -
  obtain holding l where s: "s = (holding, l)" by (cases s)
  have card: "card (set holding) = length holding" using ok s by (simp add: ledger_ok_def distinct_card)
  show ?thesis
  proof (cases op)
    case (Admit i pool)
    then show ?thesis using ok st s card
      by (auto simp: ledger_step_def spec_step_def ledger_ok_def ledger_abs_def try_acquire_sub_agent_def
          occupied_def not_le split: if_splits option.splits)
  next
    case (Dismiss i)
    then show ?thesis using st s
      by (auto simp: ledger_step_def spec_step_def ledger_abs_def split: if_splits)
  qed
qed

fun spec_run :: "rat option \<Rightarrow> ledger_op list \<Rightarrow> nat set \<Rightarrow> bool list \<times> nat set" where
  "spec_run c [] held = ([], held)"
| "spec_run c (op # ops) held =
     (case spec_step c op held of (b, held') \<Rightarrow> apfst (Cons b) (spec_run c ops held'))"

fun ledger_run :: "ledger_op list \<Rightarrow> nat list \<times> capacity_ledger \<Rightarrow> bool list \<times> nat list \<times> capacity_ledger" where
  "ledger_run [] s = ([], s)"
| "ledger_run (op # ops) s =
     (case ledger_step op s of (b, s') \<Rightarrow> apfst (Cons b) (ledger_run ops s'))"

lemma ledger_run_refines:
  "ledger_ok s \<Longrightarrow> ledger_run ops s = (bs, s') \<Longrightarrow>
   spec_run (cl_ceiling (snd s)) ops (ledger_abs s) = (bs, ledger_abs s') \<and> ledger_ok s'"
proof (induction ops arbitrary: s bs)
  case Nil
  then show ?case by simp
next
  case (Cons op ops)
  obtain b s1 where s1: "ledger_step op s = (b, s1)" by (cases "ledger_step op s")
  obtain bs1 where r: "ledger_run ops s1 = (bs1, s')" "bs = b # bs1"
    using Cons.prems(2) s1 by (auto simp: apfst_def map_prod_def split: prod.splits)
  have ok: "ledger_ok s1" "cl_ceiling (snd s1) = cl_ceiling (snd s)"
    using ledger_keeps [OF Cons.prems(1) s1] by auto
  from Cons.IH [OF ok(1) r(1)] ok(2) r(2) ledger_simulates [OF Cons.prems(1) s1] show ?case
    by simp
qed

text \<open>C17: the ledger's counter refines the set of admitted sub-agents: over any sequence of requests
  and releases, with the pool at any size, its answers are those of the specification that admits a
  run exactly when the pooled containers and the admitted sub-agents are below the ceiling, and the
  counter is the number of runs that hold a slot.\<close>

theorem ledger_refines_slots:
  assumes "ledger_run ops ([], new_ledger env) = (replies, held, l)"
  shows "spec_run (cl_ceiling (new_ledger env)) ops {} = (replies, set held) \<and>
     cl_subAgentActive l = card (set held)"
proof -
  have "ledger_ok ([], new_ledger env)" by (simp add: ledger_ok_def new_ledger_def)
  from ledger_run_refines [OF this assms] show ?thesis
    by (auto simp: ledger_abs_def ledger_ok_def distinct_card)
qed

theorem ledger_refines_slots_witness:
  "spec_run (cl_ceiling (new_ledger (Some ''1''))) [Admit 0 empty_pool, Admit 1 empty_pool, Dismiss 0] {} =
     ([True, False, True], {})"
proof -
  have "ledger_run [Admit 0 empty_pool, Admit 1 empty_pool, Dismiss 0] ([], new_ledger (Some ''1'')) =
      ([True, False, True], [], new_ledger (Some ''1''))"
    by code_simp
  from ledger_refines_slots [OF this] show ?thesis by simp
qed

section \<open>The committed load\<close>

text \<open>What one active user may run at once, as the last row of the user's policy says.\<close>

definition user_commitment :: "policy_row list \<Rightarrow> user_row \<Rightarrow> nat" where
  "user_commitment policies u =
     (case map_of (rev (map (\<lambda>p. (po_id p, po_maxConcurrentPrimaryRuns p + po_maxConcurrentSubAgents p)) policies))
         (us_policyId u) of None \<Rightarrow> 0 | Some n \<Rightarrow> n)"

lemma fold_groups:
  "foldl (add_group m) (a, b) gs =
     (a + sum_list (map snd gs),
      b + sum_list (map (\<lambda>g. snd g * (case map_of m (fst g) of None \<Rightarrow> 0 | Some n \<Rightarrow> n)) gs))"
  by (induction gs arbitrary: a b) (simp_all add: add_group_def)

lemma map_of_fold_upd:
  "map_of (foldl (\<lambda>m p. upd_assoc (f p) (g p) m) m0 ps) =
   map_of m0 ++ map_of (rev (map (\<lambda>p. (f p, g p)) ps))"
proof (induction ps arbitrary: m0)
  case Nil
  then show ?case by simp
next
  case (Cons p ps)
  have "(map_of m0)(f p \<mapsto> g p) = map_of m0 ++ map_of [(f p, g p)]" by auto
  then show ?case by (simp add: Cons.IH fun_upd_def)
qed

lemma per_policy_lookup:
  assumes "k \<in> set ids"
  shows "map_of (per_policy ids policies) k =
     map_of (rev (map (\<lambda>p. (po_id p, po_maxConcurrentPrimaryRuns p + po_maxConcurrentSubAgents p)) policies)) k"
proof -
  have "map_of (rev (map (\<lambda>p. (po_id p, g p)) (filter (\<lambda>p. po_id p \<in> set ids) policies))) k =
      map_of (rev (map (\<lambda>p. (po_id p, g p)) policies)) k" for g :: "policy_row \<Rightarrow> nat"
    using assms by (induction policies) (auto simp: map_add_def split: option.splits)
  then show ?thesis by (simp add: per_policy_def map_of_fold_upd)
qed

lemma sum_by_group:
  "sum_list (map (\<lambda>k. length (filter (\<lambda>x. f x = k) xs) * g k) (remdups (map f xs))) =
   sum_list (map (\<lambda>x. g (f x)) xs)" for g :: "'b \<Rightarrow> nat"
proof -
  have len: "length (filter (\<lambda>x. f x = k) xs) = sum_list (map (\<lambda>x. if f x = k then 1 else 0) xs)" for k
    by (induction xs) auto
  have "sum_list (map (\<lambda>k. length (filter (\<lambda>x. f x = k) xs) * g k) (remdups (map f xs))) =
      (\<Sum>k \<in> f ` set xs. length (filter (\<lambda>x. f x = k) xs) * g k)"
    by (subst sum_list_distinct_conv_sum_set) simp_all
  also have "\<dots> = (\<Sum>k \<in> f ` set xs. sum_list (map (\<lambda>x. if f x = k then g k else 0) xs))"
  proof (rule sum.cong [OF refl])
    fix k
    show "length (filter (\<lambda>x. f x = k) xs) * g k = sum_list (map (\<lambda>x. if f x = k then g k else 0) xs)"
      by (induction xs) auto
  qed
  also have "\<dots> = sum_list (map (\<lambda>x. g (f x)) xs)"
  proof -
    have "(\<Sum>k \<in> A. sum_list (map (\<lambda>x. if f x = k then g k else 0) ys)) = sum_list (map (\<lambda>x. g (f x)) ys)"
      if "finite A" "f ` set ys \<subseteq> A" for A ys
      using that by (induction ys) (simp_all add: sum.distrib sum.delta')
    then show ?thesis by simp
  qed
  finally show ?thesis .
qed

text \<open>The committed load is what its definition promises: the number of active users, and the sum
  over them of the runs and sub-agents their plan permits at once; grouping users by plan and looking
  each plan up once loses nothing, and users of a plan without a row count for nothing.\<close>

theorem committed_load_is_sum:
  "committed_load users policies =
     (length (filter us_isActive users), sum_list (map (user_commitment policies) (filter us_isActive users)))"
proof -
  let ?act = "filter us_isActive users"
  let ?m = "per_policy (map fst (user_groups users)) policies"
  have "fst ` set (user_groups users) = us_policyId ` set ?act"
    by (auto simp: user_groups_def Let_def image_def)
  then have val: "(case map_of ?m (us_policyId u) of None \<Rightarrow> 0 | Some n \<Rightarrow> n) = user_commitment policies u"
    if "u \<in> set ?act" for u
    using per_policy_lookup [of "us_policyId u" "map fst (user_groups users)" policies] that
    by (simp add: user_commitment_def)
  have "sum_list (map snd (user_groups users)) = length ?act"
    using sum_by_group [of us_policyId ?act "\<lambda>k. 1"]
    by (simp add: user_groups_def Let_def comp_def sum_list_triv)
  moreover have "sum_list (map (\<lambda>g. snd g * (case map_of ?m (fst g) of None \<Rightarrow> 0 | Some n \<Rightarrow> n)) (user_groups users)) =
      sum_list (map (\<lambda>u. case map_of ?m (us_policyId u) of None \<Rightarrow> 0 | Some n \<Rightarrow> n) ?act)"
    using sum_by_group [of us_policyId ?act "\<lambda>k. case map_of ?m k of None \<Rightarrow> 0 | Some n \<Rightarrow> n"]
    by (simp add: user_groups_def Let_def comp_def)
  moreover have "\<dots> = sum_list (map (user_commitment policies) ?act)"
    using val by (intro arg_cong [where f = sum_list] map_cong) simp_all
  moreover have "?act = []" if "user_groups users = []"
    using that by (simp add: user_groups_def Let_def)
  ultimately show ?thesis
    by (simp add: committed_load_def Let_def fold_groups)
qed

end
