(* ===== verification/SessionStore.thy ===== *)
theory SessionStore
  imports Compressor "HOL-Library.Multiset"
begin

text \<open>
  Sessions and their transcripts: \<open>engine/session-manager.service.ts\<close>, the session repository it
  uses, and the two message stores behind \<open>MessageStore\<close> (\<open>engine/message-store/\<close>,
  \<open>db/task-run-message.repository.ts\<close>). A table is a list of rows in insertion order; the id of a new
  row is chosen by the database (\<open>db_ids\<close>). A query without \<open>orderBy\<close> answers in table order, and rows
  of equal \<open>ordering\<close> come in table order; a database may choose otherwise. Columns nothing here reads
  are left out.
\<close>

section \<open>Tables\<close>

record session_row =
  se_id :: string
  se_userId :: string
  se_agentDefinitionId :: string
  se_channelId :: "string option"
  se_isActive :: bool
  se_lastConsolidatedAt :: "nat option"

record session_message = message_row +
  sm_senderId :: "string option"
  sm_archivedAt :: "nat option"
  sm_hiddenInHistory :: bool

record session_db =
  db_sessions :: "session_row list"
  db_messages :: "session_message list"
  db_ids :: "nat \<Rightarrow> string"
  db_nextId :: nat
  db_now :: nat

section \<open>Sessions\<close>

definition not_found_error :: "string \<Rightarrow> string \<Rightarrow> thrown" where
  "not_found_error kind i =
     ThrownError (ErrorObj (kind @ '' with id '' @ [CHR 0x27] @ i @ [CHR 0x27] @ '' not found'')
       (Some ''NOT_FOUND'') None None)"

definition validation_error :: "string \<Rightarrow> thrown" where
  "validation_error message = ThrownError (ErrorObj message (Some ''VALIDATION_ERROR'') None None)"

definition quoted :: "string \<Rightarrow> string" where
  "quoted s = [CHR 0x27] @ s @ [CHR 0x27]"

definition find_session :: "string \<Rightarrow> session_db \<Rightarrow> session_row option" where
  "find_session i db = find (\<lambda>s. se_id s = i) (db_sessions db)"

definition create_session :: "string \<Rightarrow> string \<Rightarrow> string option \<Rightarrow> session_db \<Rightarrow> session_row \<times> session_db" where
  "create_session userId agentDefinitionId channelId db =
     (let s = \<lparr>se_id = db_ids db (db_nextId db), se_userId = userId, se_agentDefinitionId = agentDefinitionId,
               se_channelId = channelId, se_isActive = True, se_lastConsolidatedAt = None\<rparr>
      in (s, db\<lparr>db_sessions := db_sessions db @ [s], db_nextId := Suc (db_nextId db)\<rparr>))"

definition falsy :: "string option \<Rightarrow> bool" where
  "falsy s \<longleftrightarrow> s = None \<or> s = Some []"

record get_or_create_options =
  go_userId :: string
  go_agentDefinitionId :: string
  go_sessionId :: "string option"
  go_channelId :: "string option"

definition get_or_create :: "get_or_create_options \<Rightarrow> session_db \<Rightarrow> (thrown + session_row) \<times> session_db" where
  "get_or_create opts db =
     (if falsy (go_sessionId opts) then
        (case (if falsy (go_channelId opts) then None
               else find (\<lambda>s. se_userId s = go_userId opts \<and> se_agentDefinitionId s = go_agentDefinitionId opts \<and>
                              se_channelId s = go_channelId opts \<and> se_isActive s) (db_sessions db)) of
           Some existing \<Rightarrow> (Inr existing, db)
         | None \<Rightarrow>
             (case create_session (go_userId opts) (go_agentDefinitionId opts) (go_channelId opts) db of
                (s, db') \<Rightarrow> (Inr s, db')))
      else
        (let sid = the (go_sessionId opts)
         in case find_session sid db of
              None \<Rightarrow> (Inl (not_found_error ''Session'' sid), db)
            | Some s \<Rightarrow>
                if se_userId s \<noteq> go_userId opts
                then (Inl (validation_error (''Session '' @ quoted sid @ '' does not belong to user '' @
                        quoted (go_userId opts))), db)
                else if se_agentDefinitionId s \<noteq> go_agentDefinitionId opts
                then (Inl (validation_error (''Session '' @ quoted sid @ '' is not associated with agent definition '' @
                        quoted (go_agentDefinitionId opts))), db)
                else if \<not> se_isActive s then (Inl (validation_error (''Session '' @ quoted sid @ '' is inactive'')), db)
                else (Inr s, db)))"

definition deactivate :: "string \<Rightarrow> session_db \<Rightarrow> (thrown + session_row) \<times> session_db" where
  "deactivate sid db =
     (case find_session sid db of
        None \<Rightarrow> (Inl (not_found_error ''Session'' sid), db)
      | Some s \<Rightarrow>
          (Inr (s\<lparr>se_isActive := False\<rparr>),
           db\<lparr>db_sessions := map (\<lambda>x. if se_id x = sid then x\<lparr>se_isActive := False\<rparr> else x) (db_sessions db)\<rparr>))"

section \<open>Messages of a session\<close>

definition live_in :: "string \<Rightarrow> session_message \<Rightarrow> bool" where
  "live_in sid m \<longleftrightarrow> row_sessionId m = sid \<and> sm_archivedAt m = None"

text \<open>\<open>findMany\<close> with \<open>archivedAt: null\<close>, ordered by \<open>ordering\<close>.\<close>

definition live_rows :: "string \<Rightarrow> session_db \<Rightarrow> session_message list" where
  "live_rows sid db = sort_key row_ordering (filter (live_in sid) (db_messages db))"

definition live_count :: "string \<Rightarrow> session_db \<Rightarrow> nat" where
  "live_count sid db = length (filter (live_in sid) (db_messages db))"

definition row_to_chat :: "session_message \<Rightarrow> chat_message" where
  "row_to_chat row =
     \<lparr>msg_role = row_role row, msg_content = row_content row, msg_senderId = None,
      msg_toolCallId = row_toolCallId row, msg_toolCalls = row_toolCalls row\<rparr>"

definition load_messages :: "string \<Rightarrow> session_db \<Rightarrow> chat_message list" where
  "load_messages sid db = map row_to_chat (live_rows sid db)"

definition new_message :: "string \<Rightarrow> nat \<Rightarrow> bool list option \<Rightarrow> session_db \<Rightarrow> nat \<times> chat_message \<Rightarrow> session_message" where
  "new_message sid currentCount hidden db im =
     (case im of (i, m) \<Rightarrow>
       \<lparr>row_id = db_ids db (db_nextId db + i), row_sessionId = sid, row_role = msg_role m, row_content = msg_content m,
        row_toolCallId = msg_toolCallId m, row_toolCalls = msg_toolCalls m, row_ordering = currentCount + i,
        row_createdAt = db_now db, sm_senderId = msg_senderId m, sm_archivedAt = None,
        sm_hiddenInHistory = (case hidden of None \<Rightarrow> False | Some hs \<Rightarrow> if i < length hs then hs ! i else False)\<rparr>)"

definition save_messages ::
  "string \<Rightarrow> chat_message list \<Rightarrow> bool list option \<Rightarrow> session_db \<Rightarrow> string list \<times> session_db" where
  "save_messages sid ms hidden db =
     (let rows = map (new_message sid (live_count sid db) hidden db) (enumerate 0 ms)
      in (map row_id rows,
          db\<lparr>db_messages := db_messages db @ rows, db_nextId := db_nextId db + length ms\<rparr>))"

text \<open>\<open>updateMany\<close> on a list of ids.\<close>

definition archive_ids :: "string list \<Rightarrow> session_db \<Rightarrow> session_db" where
  "archive_ids ids db =
     db\<lparr>db_messages := map (\<lambda>m. if row_id m \<in> set ids then m\<lparr>sm_archivedAt := Some (db_now db)\<rparr> else m)
                        (db_messages db)\<rparr>"

definition compact :: "string \<Rightarrow> nat \<Rightarrow> session_db \<Rightarrow> session_db" where
  "compact sid maxMessages db =
     (let rows = live_rows sid db;
          nonSystem = filter (\<lambda>r. row_role r \<noteq> System) rows
      in if rows = [] then db
         else if length nonSystem \<le> maxMessages then db
         else archive_ids (map row_id (take (length nonSystem - maxMessages) nonSystem)) db)"

section \<open>Transcripts of task runs\<close>

text \<open>A tool call as the JSON column holds it.\<close>

definition tool_call_json :: "tool_call \<Rightarrow> json" where
  "tool_call_json tc = JObj [(''id'', JStr (tc_id tc)), (''name'', JStr (tc_name tc)), (''arguments'', tc_arguments tc)]"

record task_run_message =
  tm_taskRunId :: string
  tm_role :: role
  tm_content :: string
  tm_toolCallId :: "string option"
  tm_toolCalls :: "tool_call list option"
  tm_ordering :: nat

definition append_many :: "string \<Rightarrow> chat_message list \<Rightarrow> task_run_message list \<Rightarrow> task_run_message list" where
  "append_many runId ms table =
     (let currentCount = length (filter (\<lambda>r. tm_taskRunId r = runId) table)
      in table @ map (\<lambda>(i, m). \<lparr>tm_taskRunId = runId, tm_role = msg_role m, tm_content = msg_content m,
                                tm_toolCallId = msg_toolCallId m, tm_toolCalls = msg_toolCalls m,
                                tm_ordering = currentCount + i\<rparr>) (enumerate 0 ms))"

definition find_by_task_run_id :: "string \<Rightarrow> task_run_message list \<Rightarrow> task_run_message list" where
  "find_by_task_run_id runId table = sort_key tm_ordering (filter (\<lambda>r. tm_taskRunId r = runId) table)"

definition load_task_run :: "string \<Rightarrow> task_run_message list \<Rightarrow> chat_message list" where
  "load_task_run runId table =
     map (\<lambda>r. \<lparr>msg_role = tm_role r, msg_content = tm_content r, msg_senderId = None,
                msg_toolCallId = tm_toolCallId r, msg_toolCalls = tm_toolCalls r\<rparr>)
       (find_by_task_run_id runId table)"

section \<open>The message store interface\<close>

text \<open>What a store keeps of a message.\<close>

definition stored :: "chat_message \<Rightarrow> chat_message" where
  "stored m = m\<lparr>msg_senderId := None\<rparr>"

lemma stored_fields:
  "stored m = \<lparr>msg_role = msg_role m, msg_content = msg_content m, msg_senderId = None,
     msg_toolCallId = msg_toolCallId m, msg_toolCalls = msg_toolCalls m\<rparr>"
  by (cases m) (simp add: stored_def)

text \<open>\<open>MessageStore\<close>: \<open>ready\<close> is what the provider needs to append in order.\<close>

locale message_store =
  fixes ready :: "'db \<Rightarrow> bool"
    and load :: "'db \<Rightarrow> chat_message list"
    and save :: "chat_message list \<Rightarrow> bool list option \<Rightarrow> 'db \<Rightarrow> 'db"
  assumes save_ready: "ready db \<Longrightarrow> ready (save ms hidden db)"
    and load_save: "ready db \<Longrightarrow> load (save ms hidden db) = load db @ map stored ms"
begin

lemma load_saves:
  "ready db \<Longrightarrow>
   load (fold (\<lambda>(ms, hidden). save ms hidden) batches db) = load db @ concat (map (\<lambda>(ms, hidden). map stored ms) batches)"
proof (induction batches arbitrary: db)
  case Nil
  then show ?case by simp
next
  case (Cons b batches)
  obtain ms hidden where b: "b = (ms, hidden)" by (cases b)
  show ?case using Cons.IH [OF save_ready [OF Cons.prems]] load_save [OF Cons.prems] b by simp
qed

lemma saves_ready: "ready db \<Longrightarrow> ready (fold (\<lambda>(ms, hidden). save ms hidden) batches db)"
  by (induction batches arbitrary: db) (auto intro: save_ready)

end

lemma sort_key_append_le:
  fixes f :: "'a \<Rightarrow> 'b::linorder"
  assumes "\<And>x y. x \<in> set xs \<Longrightarrow> y \<in> set ys \<Longrightarrow> f x \<le> f y" and "sorted (map f ys)"
  shows "sort_key f (xs @ ys) = sort_key f xs @ ys"
proof (rule properties_for_sort_key)
  show "mset (sort_key f xs @ ys) = mset (xs @ ys)" by simp
  show "filter (\<lambda>x. f k = f x) (sort_key f xs @ ys) = filter (\<lambda>x. f k = f x) (xs @ ys)" for k
    using sort_key_stable [of f "f k" xs] by (simp add: eq_commute)
  show "sorted (map f (sort_key f xs @ ys))"
    using assms by (auto simp: sorted_append)
qed

lemma map_enumerate: "map (\<lambda>(i, m). g m) (enumerate n ms) = map g ms"
  by (induction ms arbitrary: n) auto

lemma fst_enumerate: "map (\<lambda>(i, m). c + i) (enumerate n ms) = map ((+) c) [n ..< n + length ms]"
  by (induction ms arbitrary: n) (auto simp: upt_rec)

text \<open>The orderings of a session's live rows leave no hole below their number.\<close>

definition session_ready :: "string \<Rightarrow> session_db \<Rightarrow> bool" where
  "session_ready sid db \<longleftrightarrow> (\<forall>m \<in> set (db_messages db). live_in sid m \<longrightarrow> row_ordering m < live_count sid db)"

lemma new_message_simps [simp]:
  "live_in sid (new_message sid n hidden db im)"
  "row_ordering (new_message sid n hidden db im) = n + fst im"
  "row_to_chat (new_message sid n hidden db im) = stored (snd im)"
  by (cases im; simp add: new_message_def live_in_def row_to_chat_def stored_def)+

lemma save_messages_rows:
  "filter (live_in sid) (db_messages (snd (save_messages sid ms hidden db))) =
   filter (live_in sid) (db_messages db) @ map (new_message sid (live_count sid db) hidden db) (enumerate 0 ms)"
  by (auto simp: save_messages_def Let_def filter_map comp_def intro!: filter_True)

lemma session_save_ready: "session_ready sid db \<Longrightarrow> session_ready sid (snd (save_messages sid ms hidden db))"
proof -
  assume r: "session_ready sid db"
  have count: "live_count sid (snd (save_messages sid ms hidden db)) = live_count sid db + length ms"
    by (simp only: live_count_def save_messages_rows) simp
  have "row_ordering m < live_count sid db + length ms"
    if "m \<in> set (filter (live_in sid) (db_messages (snd (save_messages sid ms hidden db))))" for m
    using that r unfolding save_messages_rows
    by (auto simp: session_ready_def in_set_enumerate_eq)
  then show ?thesis by (simp add: session_ready_def count)
qed

lemma session_load_save:
  assumes "session_ready sid db"
  shows "load_messages sid (snd (save_messages sid ms hidden db)) = load_messages sid db @ map stored ms"
proof -
  let ?new = "map (new_message sid (live_count sid db) hidden db) (enumerate 0 ms)"
  have "live_rows sid (snd (save_messages sid ms hidden db)) = live_rows sid db @ ?new"
    unfolding live_rows_def save_messages_rows
  proof (rule sort_key_append_le)
    show "row_ordering x \<le> row_ordering y" if "x \<in> set (filter (live_in sid) (db_messages db))" "y \<in> set ?new" for x y
      using that assms by (auto simp: session_ready_def)
    have "map row_ordering ?new = map ((+) (live_count sid db)) [0 ..< length ms]"
      using fst_enumerate [of "live_count sid db" 0 ms] by (simp add: case_prod_unfold comp_def)
    then show "sorted (map row_ordering ?new)" by (simp add: sorted_map mono_def)
  qed
  moreover have "map row_to_chat ?new = map stored ms"
    using map_enumerate [of stored 0 ms] by (simp add: case_prod_unfold comp_def)
  ultimately show ?thesis by (simp add: load_messages_def)
qed

interpretation session_store: message_store "session_ready sid" "load_messages sid"
  "\<lambda>ms hidden db. snd (save_messages sid ms hidden db)" for sid
  by unfold_locales (rule session_save_ready, assumption, rule session_load_save, assumption)

definition task_run_ready :: "string \<Rightarrow> task_run_message list \<Rightarrow> bool" where
  "task_run_ready runId table \<longleftrightarrow>
     (\<forall>r \<in> set table. tm_taskRunId r = runId \<longrightarrow> tm_ordering r < length (filter (\<lambda>r. tm_taskRunId r = runId) table))"

lemma append_many_rows:
  "filter (\<lambda>r. tm_taskRunId r = runId) (append_many runId ms table) =
   filter (\<lambda>r. tm_taskRunId r = runId) table @
   map (\<lambda>(i, m). \<lparr>tm_taskRunId = runId, tm_role = msg_role m, tm_content = msg_content m,
                   tm_toolCallId = msg_toolCallId m, tm_toolCalls = msg_toolCalls m,
                   tm_ordering = length (filter (\<lambda>r. tm_taskRunId r = runId) table) + i\<rparr>) (enumerate 0 ms)"
  by (auto simp: append_many_def Let_def filter_map comp_def case_prod_unfold intro!: filter_True)

lemma task_run_save_ready:
  assumes "task_run_ready runId table"
  shows "task_run_ready runId (append_many runId ms table)"
proof -
  let ?n = "length (filter (\<lambda>r. tm_taskRunId r = runId) table)"
  have count: "length (filter (\<lambda>r. tm_taskRunId r = runId) (append_many runId ms table)) = ?n + length ms"
    unfolding append_many_rows by simp
  have "tm_ordering r < ?n + length ms"
    if "r \<in> set (filter (\<lambda>r. tm_taskRunId r = runId) (append_many runId ms table))" for r
    using that assms unfolding append_many_rows
    by (auto simp: task_run_ready_def in_set_enumerate_eq)
  then show ?thesis by (simp add: task_run_ready_def count)
qed

lemma task_run_load_save:
  assumes "task_run_ready runId table"
  shows "load_task_run runId (append_many runId ms table) = load_task_run runId table @ map stored ms"
proof -
  let ?n = "length (filter (\<lambda>r. tm_taskRunId r = runId) table)"
  let ?new = "map (\<lambda>(i, m). \<lparr>tm_taskRunId = runId, tm_role = msg_role m, tm_content = msg_content m,
                   tm_toolCallId = msg_toolCallId m, tm_toolCalls = msg_toolCalls m,
                   tm_ordering = ?n + i\<rparr>) (enumerate 0 ms)"
  have "find_by_task_run_id runId (append_many runId ms table) = find_by_task_run_id runId table @ ?new"
    unfolding find_by_task_run_id_def append_many_rows
  proof (rule sort_key_append_le)
    show "tm_ordering x \<le> tm_ordering y"
      if "x \<in> set (filter (\<lambda>r. tm_taskRunId r = runId) table)" "y \<in> set ?new" for x y
      using that assms by (auto simp: task_run_ready_def intro: less_imp_le trans_less_add1)
    have "map tm_ordering ?new = map ((+) ?n) [0 ..< length ms]"
      using fst_enumerate [of ?n 0 ms] by (simp add: case_prod_unfold comp_def)
    then show "sorted (map tm_ordering ?new)" by (simp add: sorted_map mono_def)
  qed
  moreover have "map (\<lambda>r. \<lparr>msg_role = tm_role r, msg_content = tm_content r, msg_senderId = None,
      msg_toolCallId = tm_toolCallId r, msg_toolCalls = tm_toolCalls r\<rparr>) ?new = map stored ms"
    using map_enumerate [of stored 0 ms] by (simp add: case_prod_unfold comp_def stored_fields)
  ultimately show ?thesis by (simp add: load_task_run_def)
qed

interpretation task_run_store: message_store "task_run_ready runId" "load_task_run runId"
  "\<lambda>ms hidden table. append_many runId ms table" for runId
  by unfold_locales (rule task_run_save_ready, assumption, rule task_run_load_save, assumption)

section \<open>Properties\<close>

text \<open>Whatever the orderings, nothing is lost when rows are added.\<close>

lemma save_messages_mset:
  "mset (load_messages sid (snd (save_messages sid ms hidden db))) = mset (load_messages sid db) + mset (map stored ms)"
proof -
  let ?new = "new_message sid (live_count sid db) hidden db"
  have "map (row_to_chat \<circ> ?new) (enumerate 0 ms) = map stored ms"
    using map_enumerate [of stored 0 ms] by (simp add: case_prod_unfold comp_def)
  from arg_cong [OF this, of mset]
  have "image_mset row_to_chat (image_mset ?new (mset (enumerate 0 ms))) = image_mset stored (mset ms)"
    by (simp add: multiset.map_comp)
  then show ?thesis by (simp add: load_messages_def live_rows_def save_messages_rows)
qed

lemma save_all_mset:
  "mset (load_messages sid (fold (\<lambda>(ms, hidden) db. snd (save_messages sid ms hidden db)) batches db)) =
   mset (load_messages sid db) + mset (concat (map (\<lambda>(ms, hidden). map stored ms) batches))"
  by (induction batches arbitrary: db) (auto simp: save_messages_mset)

text \<open>C15: what is saved is loaded back, each message whole except for its sender, in any number of
  batches. Nothing that was there or is saved is ever lost or doubled; and the saved messages come
  after those that were there, in order, if every row of the session that is live has an ordering below
  their number, or every row of the task run: so it is of an empty transcript and after any number of
  saves. Consolidation and \<open>compact\<close> do not leave it so, as they archive the rows with the lowest
  orderings; then new messages load among the old ones
  (\<open>Consolidation.consolidation_breaks_transcript\<close>).\<close>

theorem saved_transcripts_load_back:
  "mset (load_messages sid (fold (\<lambda>(ms, hidden) db. snd (save_messages sid ms hidden db)) batches db)) =
     mset (load_messages sid db) + mset (concat (map (\<lambda>(ms, hidden). map stored ms) batches)) \<and>
   (session_ready sid db \<longrightarrow>
     load_messages sid (fold (\<lambda>(ms, hidden) db. snd (save_messages sid ms hidden db)) batches db) =
       load_messages sid db @ concat (map (\<lambda>(ms, hidden). map stored ms) batches) \<and>
     session_ready sid (fold (\<lambda>(ms, hidden) db. snd (save_messages sid ms hidden db)) batches db)) \<and>
   (task_run_ready runId table \<longrightarrow>
     load_task_run runId (fold (\<lambda>(ms, hidden). append_many runId ms) batches table) =
       load_task_run runId table @ concat (map (\<lambda>(ms, hidden). map stored ms) batches))"
  using save_all_mset session_store.load_saves session_store.saves_ready task_run_store.load_saves
  by (intro conjI impI)

definition empty_db :: session_db where
  "empty_db = \<lparr>db_sessions = [], db_messages = [], db_ids = show_nat, db_nextId = 0, db_now = 0\<rparr>"

theorem saved_transcripts_load_back_witness:
  "load_messages ''s'' (snd (save_messages ''s'' [plain_msg Assistant ''hello''] None
     (snd (save_messages ''s'' [plain_msg User ''hi''] None empty_db)))) = [plain_msg User ''hi'', plain_msg Assistant ''hello'']"
proof -
  have "session_ready ''s'' empty_db" by (simp add: session_ready_def empty_db_def)
  then show ?thesis
    using saved_transcripts_load_back [of "''s''" "[([plain_msg User ''hi''], None), ([plain_msg Assistant ''hello''], None)]"
        empty_db "''r''" "[]"]
    by (simp add: load_messages_def live_rows_def empty_db_def stored_def plain_msg_def)
qed

lemma find_mem: "find P xs = Some x \<Longrightarrow> P x \<and> x \<in> set xs"
  by (induction xs) (auto split: if_splits)

text \<open>\<open>getOrCreate\<close> only ever answers with an active session of that user and that agent. A named
  session that is missing, foreign or inactive is an error, and nothing is written; without a name
  at most one session is added.\<close>

theorem get_or_create_owned:
  "(case get_or_create opts db of
      (Inr s, db') \<Rightarrow>
        se_userId s = go_userId opts \<and> se_agentDefinitionId s = go_agentDefinitionId opts \<and> se_isActive s \<and>
        s \<in> set (db_sessions db') \<and> (db_sessions db' = db_sessions db \<or> db_sessions db' = db_sessions db @ [s])
    | (Inl e, db') \<Rightarrow>
        db' = db \<and> \<not> falsy (go_sessionId opts) \<and>
        (case find_session (the (go_sessionId opts)) db of
           None \<Rightarrow> True
         | Some s \<Rightarrow> se_userId s \<noteq> go_userId opts \<or> se_agentDefinitionId s \<noteq> go_agentDefinitionId opts \<or>
                     \<not> se_isActive s))"
proof (cases "falsy (go_sessionId opts)")
  case named: False
  show ?thesis
  proof (cases "find_session (the (go_sessionId opts)) db")
    case None
    then show ?thesis using named by (simp add: get_or_create_def Let_def)
  next
    case (Some s)
    then have "s \<in> set (db_sessions db)" unfolding find_session_def by (rule find_mem [THEN conjunct2])
    then show ?thesis using named Some by (simp add: get_or_create_def Let_def)
  qed
next
  case fresh: True
  let ?P = "\<lambda>s. se_userId s = go_userId opts \<and> se_agentDefinitionId s = go_agentDefinitionId opts \<and>
      se_channelId s = go_channelId opts \<and> se_isActive s"
  show ?thesis
  proof (cases "if falsy (go_channelId opts) then None else find ?P (db_sessions db)")
    case None
    then show ?thesis using fresh by (simp add: get_or_create_def create_session_def Let_def)
  next
    case (Some s)
    then have "find ?P (db_sessions db) = Some s" by (simp split: if_splits)
    from find_mem [OF this] show ?thesis using fresh Some by (simp add: get_or_create_def)
  qed
qed

theorem get_or_create_owned_witness:
  "\<exists>s db'. get_or_create \<lparr>go_userId = ''u'', go_agentDefinitionId = ''a'', go_sessionId = None, go_channelId = None\<rparr>
      empty_db = (Inr s, db') \<and> se_userId s = ''u'' \<and> se_isActive s"
proof -
  let ?o = "\<lparr>go_userId = ''u'', go_agentDefinitionId = ''a'', go_sessionId = None, go_channelId = None\<rparr>"
  obtain s db' where r: "get_or_create ?o empty_db = (Inr s, db')"
    by (simp add: get_or_create_def falsy_def create_session_def Let_def)
  then show ?thesis using get_or_create_owned [where opts = ?o and db = empty_db] by simp
qed

lemma live_rows_archive:
  "live_rows sid (archive_ids ids db) = filter (\<lambda>m. row_id m \<notin> set ids) (live_rows sid db)"
proof -
  have "filter (live_in sid) (map (\<lambda>m. if row_id m \<in> set ids then m\<lparr>sm_archivedAt := Some t\<rparr> else m) ms) =
      filter (\<lambda>m. row_id m \<notin> set ids) (filter (live_in sid) ms)" for t ms
    by (induction ms) (auto simp: live_in_def)
  then show ?thesis by (simp add: live_rows_def archive_ids_def filter_sort)
qed

lemma filter_not_taken:
  "distinct (map f xs) \<Longrightarrow> filter (\<lambda>x. f x \<notin> f ` set (take n xs)) xs = drop n xs"
proof (induction xs arbitrary: n)
  case Nil
  then show ?case by simp
next
  case (Cons x xs)
  show ?case
  proof (cases n)
    case 0
    then show ?thesis by simp
  next
    case (Suc k)
    have "f x \<notin> f ` set xs" using Cons.prems by simp
    then have other: "f y \<noteq> f x" if "y \<in> set xs" for y using that by (metis imageI)
    have "filter (\<lambda>y. f y \<notin> insert (f x) (f ` set (take k xs))) xs = filter (\<lambda>y. f y \<notin> f ` set (take k xs)) xs"
      using other by (intro filter_cong) simp_all
    then show ?thesis using Cons Suc by simp
  qed
qed

text \<open>Compaction keeps what it promises: of a session's live rows it keeps all system messages and
  exactly the last \<open>maxMessages\<close> others (all of them when there are no more), in order and unchanged;
  what it drops is archived, not deleted, and other sessions keep every row.\<close>

theorem compact_keeps_recent:
  assumes "distinct (map row_id (db_messages db))"
  shows "filter (\<lambda>r. row_role r = System) (live_rows sid (compact sid n db)) =
         filter (\<lambda>r. row_role r = System) (live_rows sid db) \<and>
     filter (\<lambda>r. row_role r \<noteq> System) (live_rows sid (compact sid n db)) =
         drop (length (filter (\<lambda>r. row_role r \<noteq> System) (live_rows sid db)) - n)
           (filter (\<lambda>r. row_role r \<noteq> System) (live_rows sid db)) \<and>
     map row_id (db_messages (compact sid n db)) = map row_id (db_messages db) \<and>
     (\<forall>other. other \<noteq> sid \<longrightarrow> live_rows other (compact sid n db) = live_rows other db)"
proof -
  let ?rows = "live_rows sid db"
  let ?ns = "filter (\<lambda>r. row_role r \<noteq> System) ?rows"
  let ?ids = "map row_id (take (length ?ns - n) ?ns)"
  have mem: "m \<in> set (db_messages db) \<and> live_in s m" if "m \<in> set (live_rows s db)" for s m
    using that by (auto simp: live_rows_def)
  have inj: "x = y" if "x \<in> set (db_messages db)" "y \<in> set (db_messages db)" "row_id x = row_id y" for x y
    using assms that by (auto simp: distinct_map inj_on_def)
  have "distinct (map row_id ?rows)"
  proof -
    have "distinct (map row_id (filter (live_in sid) (db_messages db)))" by (rule distinct_map_filter [OF assms])
    then show ?thesis
      using mset_sort [of row_ordering] by (metis live_rows_def mset_eq_imp_distinct_iff mset_map)
  qed
  then have dist: "distinct (map row_id ?ns)" by (rule distinct_map_filter)
  have done': "compact sid n db = (if length ?ns \<le> n then db else archive_ids ?ids db)"
    by (auto simp: compact_def Let_def)
  show ?thesis
  proof (cases "length ?ns \<le> n")
    case True
    then show ?thesis using done' by simp
  next
    case False
    then have c: "compact sid n db = archive_ids ?ids db" using done' by simp
    have taken: "x \<in> set ?rows \<and> row_role x \<noteq> System" if "x \<in> set (take (length ?ns - n) ?ns)" for x
      using that set_take_subset by fastforce
    have kept: "row_id y \<notin> set ?ids"
      if "y \<in> set (db_messages db)" "row_role y = System \<or> row_sessionId y \<noteq> sid" for y
    proof
      assume "row_id y \<in> set ?ids"
      then obtain x where x: "x \<in> set (take (length ?ns - n) ?ns)" "row_id y = row_id x" by (auto simp del: set_take_subset)
      then have "x = y" using taken [OF x(1)] mem inj that(1) by metis
      then show False using taken [OF x(1)] mem [of x sid] that(2) by (auto simp: live_in_def)
    qed
    have sys: "filter (\<lambda>r. row_role r = System) (filter (\<lambda>m. row_id m \<notin> set ?ids) ?rows) =
        filter (\<lambda>r. row_role r = System) ?rows"
      unfolding filter_filter using kept mem by (intro filter_cong) blast+
    have others: "filter (\<lambda>m. row_id m \<notin> set ?ids) (live_rows other db) = live_rows other db" if "other \<noteq> sid" for other
      using kept mem [of _ other] that by (intro filter_True) (auto simp: live_in_def)
    have "filter (\<lambda>r. row_role r \<noteq> System) (filter (\<lambda>m. row_id m \<notin> set ?ids) ?rows) =
        filter (\<lambda>m. row_id m \<notin> row_id ` set (take (length ?ns - n) ?ns)) ?ns"
      by (simp add: conj_commute)
    also have "\<dots> = drop (length ?ns - n) ?ns" by (rule filter_not_taken [OF dist])
    finally have ns: "filter (\<lambda>r. row_role r \<noteq> System) (filter (\<lambda>m. row_id m \<notin> set ?ids) ?rows) =
        drop (length ?ns - n) ?ns" .
    show ?thesis unfolding c live_rows_archive using sys others ns
      by (auto simp: archive_ids_def)
  qed
qed

end
