(* ===== verification/Consolidation.thy ===== *)
theory Consolidation
  imports SessionStore ToolRegistry
begin

text \<open>
  \<open>engine/memory-consolidation.service.ts\<close>: the oldest messages of a session that outgrew the
  context window are summarised by a model, archived, and replaced by one \<open>[MEMORY SUMMARY]\<close> row. The
  world \<open>'w\<close> stands for everything behind the provider, the container and the token counter. The
  session's row exists and the database does not fail. \<open>cn_parse_json\<close> is \<open>JSON.parse\<close> (\<open>None\<close>: it
  throws) and \<open>cn_iso\<close> is \<open>Date.prototype.toISOString\<close>.
\<close>

section \<open>Constants and estimates\<close>

definition default_context_window_tokens :: int where
  "default_context_window_tokens = 65536"

definition max_consolidation_rounds :: nat where
  "max_consolidation_rounds = 5"

definition max_consecutive_failures :: nat where
  "max_consecutive_failures = 3"

definition memory_summary_prefix :: string where
  "memory_summary_prefix = ''[MEMORY SUMMARY]''"

definition estimate_tokens :: "string \<Rightarrow> nat" where
  "estimate_tokens s = (length s + 3) div 4"

definition row_tokens :: "session_message \<Rightarrow> nat" where
  "row_tokens row =
     estimate_tokens (row_content row) +
     (case row_toolCalls row of None \<Rightarrow> 0 | Some tcs \<Rightarrow> estimate_tokens (json_stringify (JArr (map tool_call_json tcs))))"

definition estimate_session_tokens :: "string \<Rightarrow> session_db \<Rightarrow> nat" where
  "estimate_session_tokens sid db = foldl (\<lambda>acc row. acc + row_tokens row) 0 (live_rows sid db)"

datatype token_warning = WarnNone | WarnApproaching | WarnCritical

record token_warning_state =
  tw_estimated :: nat
  tw_threshold :: int
  tw_ratio :: rat
  tw_warning :: token_warning

definition context_window :: "int option \<Rightarrow> string option \<Rightarrow> int" where
  "context_window explicit envTokens =
     (case explicit of
        Some n \<Rightarrow> n
      | None \<Rightarrow>
          (case parse_int (case envTokens of None \<Rightarrow> [] | Some s \<Rightarrow> s) of
             None \<Rightarrow> default_context_window_tokens
           | Some q \<Rightarrow> \<lfloor>q\<rfloor>))"

definition get_token_warning_state :: "string \<Rightarrow> int option \<Rightarrow> string option \<Rightarrow> session_db \<Rightarrow> token_warning_state" where
  "get_token_warning_state sid threshold envTokens db =
     (let effective = context_window threshold envTokens;
          estimated = estimate_session_tokens sid db;
          ratio = (if 0 < effective then rnd (of_nat estimated / of_int effective) else 0)
      in \<lparr>tw_estimated = estimated, tw_threshold = effective, tw_ratio = ratio,
          tw_warning = (if rnd (9 / 10) \<le> ratio then WarnCritical
                        else if 3 / 4 \<le> ratio then WarnApproaching else WarnNone)\<rparr>)"

section \<open>The model's answer\<close>

definition is_plain_object :: "json \<Rightarrow> (string \<times> json) list option" where
  "is_plain_object v = (case v of JObj kvs \<Rightarrow> Some kvs | _ \<Rightarrow> None)"

definition normalize_save_memory_args :: "(string \<Rightarrow> json option) \<Rightarrow> json \<Rightarrow> (string \<times> json) list option" where
  "normalize_save_memory_args parse args =
     (case args of
        JStr s \<Rightarrow> (case parse s of None \<Rightarrow> None | Some v \<Rightarrow> is_plain_object v)
      | JArr (x # xs) \<Rightarrow> is_plain_object x
      | JArr [] \<Rightarrow> None
      | JObj kvs \<Rightarrow> Some kvs
      | _ \<Rightarrow> None)"

definition nonempty_string :: "json option \<Rightarrow> string option" where
  "nonempty_string v = (case v of Some (JStr s) \<Rightarrow> if s = [] then None else Some s | _ \<Rightarrow> None)"

text \<open>\<open>SaveMemoryArgsSchema.safeParse\<close>: the memory update, when both fields are non-empty strings.\<close>

definition parse_save_memory :: "(string \<times> json) list \<Rightarrow> string option" where
  "parse_save_memory kvs =
     (case nonempty_string (map_of kvs ''history_entry'') of
        None \<Rightarrow> None
      | Some h \<Rightarrow> nonempty_string (map_of kvs ''memory_update''))"

definition memory_update_of :: "(string \<Rightarrow> json option) \<Rightarrow> llm_response \<Rightarrow> string option" where
  "memory_update_of parse response =
     (case find (\<lambda>tc. tc_name tc = ''save_memory'') (resp_toolCalls response) of
        None \<Rightarrow> None
      | Some tc \<Rightarrow>
          (case normalize_save_memory_args parse (tc_arguments tc) of
             None \<Rightarrow> None | Some kvs \<Rightarrow> parse_save_memory kvs))"

definition tool_choice_keywords :: "string list" where
  "tool_choice_keywords = [''tool_choice'', ''toolchoice'']"

definition tool_choice_rejection_phrases :: "string list" where
  "tool_choice_rejection_phrases =
     [''does not support'', ''not supported'',
      ''should be ['' @ [CHR 0x22] @ ''none'' @ [CHR 0x22] @ '', '' @ [CHR 0x22] @ ''auto'' @ [CHR 0x22] @ '']'']"

definition is_tool_choice_unsupported :: "string option \<Rightarrow> bool" where
  "is_tool_choice_unsupported message =
     (case message of
        None \<Rightarrow> False
      | Some m \<Rightarrow> m \<noteq> [] \<and> matches_any (to_lower m) tool_choice_keywords \<and>
                  matches_any (to_lower m) tool_choice_rejection_phrases)"

datatype tool_choice = ChooseTool string | ChooseAuto

record 'w consolidation_env =
  cn_resolve :: "'w \<Rightarrow> (thrown + unit) \<times> 'w"
  cn_create :: "'w \<Rightarrow> (thrown + unit) \<times> 'w"
  cn_chat :: "chat_message list \<Rightarrow> tool_choice \<Rightarrow> 'w \<Rightarrow> (thrown + llm_response) \<times> 'w"
  cn_write_memory :: "string \<Rightarrow> 'w \<Rightarrow> 'w"
  cn_record_usage :: "llm_usage \<Rightarrow> 'w \<Rightarrow> 'w"
  cn_parse_json :: "string \<Rightarrow> json option"
  cn_iso :: "nat \<Rightarrow> string"
  cn_contextWindowTokens :: "string option"

record consolidation_options =
  cp_hasContainer :: bool
  cp_contextWindowTokens :: "int option"
  cp_force :: bool
  cp_customInstructions :: "string option"

text \<open>The model call with its one retry under \<open>tool_choice: auto\<close>; \<open>None\<close> counts as a failure.\<close>

definition call_model :: "'w consolidation_env \<Rightarrow> chat_message list \<Rightarrow> 'w \<Rightarrow> llm_response option \<times> 'w" where
  "call_model env prompt w =
     (case cn_chat env prompt (ChooseTool ''save_memory'') w of
        (Inr response, w1) \<Rightarrow>
          if resp_finishReason response = FError \<and> is_tool_choice_unsupported (resp_content response)
          then (case cn_chat env prompt ChooseAuto w1 of
                  (Inr retried, w2) \<Rightarrow> (Some retried, w2)
                | (Inl e, w2) \<Rightarrow> (None, w2))
          else (Some response, w1)
      | (Inl e, w1) \<Rightarrow>
          if is_tool_choice_unsupported (Some (thrown_text e))
          then (case cn_chat env prompt ChooseAuto w1 of
                  (Inr retried, w2) \<Rightarrow> (Some retried, w2)
                | (Inl e', w2) \<Rightarrow> (None, w2))
          else (None, w1))"

section \<open>One round\<close>

definition is_summary_row :: "session_message \<Rightarrow> bool" where
  "is_summary_row r \<longleftrightarrow> row_ordering r = 0 \<and> row_role r = System \<and> starts_with (row_content r) memory_summary_prefix"

definition after_summary :: "session_message option \<Rightarrow> session_message list \<Rightarrow> session_message list" where
  "after_summary summaryRow rows =
     (case summaryRow of
        None \<Rightarrow> rows
      | Some s \<Rightarrow> filter (\<lambda>r. 0 < row_ordering r \<and> row_id r \<noteq> row_id s) rows)"

fun take_chunk :: "int \<Rightarrow> session_message list \<Rightarrow> nat \<Rightarrow> session_message list" where
  "take_chunk overBy [] chunkTokens = []"
| "take_chunk overBy (row # rows) chunkTokens =
     row # (if overBy \<le> int (chunkTokens + row_tokens row) \<and> row_role row = Assistant then []
            else take_chunk overBy rows (chunkTokens + row_tokens row))"

definition over_by :: "bool \<Rightarrow> nat \<Rightarrow> int \<Rightarrow> int" where
  "over_by force estimated target =
     (if force then max (int estimated - target) (int (estimated div 2)) else int estimated - target)"

definition format_row :: "(nat \<Rightarrow> string) \<Rightarrow> message_row \<Rightarrow> string" where
  "format_row to_iso r = ''['' @ to_iso (row_createdAt r) @ ''] '' @ role_name (row_role r) @ '': '' @ row_content r"

definition consolidation_prompt ::
  "'w consolidation_env \<Rightarrow> consolidation_options \<Rightarrow> session_message option \<Rightarrow> session_message list \<Rightarrow> chat_message list" where
  "consolidation_prompt env opts summaryRow chunk =
     (let existing = (case summaryRow of
                        None \<Rightarrow> []
                      | Some s \<Rightarrow> trim_ws (drop (length memory_summary_prefix) (row_content s)));
          formatted = join newline (map (format_row (cn_iso env)) (microcompact_messages (map message_row.truncate chunk)))
      in [plain_msg System (build_consolidation_system_prompt existing),
          plain_msg User (build_consolidation_user_prompt formatted (cp_customInstructions opts))])"

definition summary_message :: "string \<Rightarrow> string \<Rightarrow> session_db \<Rightarrow> session_message" where
  "summary_message sid memory_update db =
     \<lparr>row_id = db_ids db (db_nextId db), row_sessionId = sid, row_role = System,
      row_content = memory_summary_prefix @ newline @ memory_update, row_toolCallId = None, row_toolCalls = None,
      row_ordering = 0, row_createdAt = db_now db, sm_senderId = None, sm_archivedAt = None, sm_hiddenInHistory = False\<rparr>"

definition persist_summary :: "string \<Rightarrow> string list \<Rightarrow> string \<Rightarrow> session_db \<Rightarrow> session_db" where
  "persist_summary sid idsToArchive memory_update db =
     (let db1 = archive_ids idsToArchive db;
          db2 = db1\<lparr>db_messages := db_messages db1 @ [summary_message sid memory_update db1],
                    db_nextId := Suc (db_nextId db1)\<rparr>
      in db2\<lparr>db_sessions := map (\<lambda>s. if se_id s = sid then s\<lparr>se_lastConsolidatedAt := Some (db_now db2)\<rparr> else s)
                               (db_sessions db2)\<rparr>)"

definition raw_archive_fallback :: "session_message list \<Rightarrow> session_db \<Rightarrow> session_db" where
  "raw_archive_fallback chunk db = archive_ids (map row_id chunk) db"

record consolidation_result =
  cr_consolidated :: bool
  cr_preTokens :: "nat option"
  cr_postTokens :: "nat option"
  cr_roundsUsed :: "nat option"
  cr_archivedCount :: "nat option"

record consolidation_state =
  ct_db :: session_db
  ct_failures :: nat
  ct_roundsUsed :: nat
  ct_lastEstimate :: nat
  ct_archived :: nat

datatype round_end = NextRound consolidation_state | LeaveLoop consolidation_state | ReturnNow consolidation_result session_db
  | RoundThrows thrown session_db

text \<open>What a failed call or an invalid answer does.\<close>

definition round_failed :: "string \<Rightarrow> nat \<Rightarrow> nat \<Rightarrow> session_message list \<Rightarrow> consolidation_state \<Rightarrow> round_end" where
  "round_failed sid estimated rd chunk st =
     (let failures = Suc (ct_failures st)
      in if max_consecutive_failures \<le> failures then
           (let db' = raw_archive_fallback chunk (ct_db st)
            in ReturnNow \<lparr>cr_consolidated = True, cr_preTokens = Some estimated,
                          cr_postTokens = Some (estimate_session_tokens sid db'), cr_roundsUsed = Some (Suc rd),
                          cr_archivedCount = Some (ct_archived st + length chunk)\<rparr> db')
         else NextRound (st\<lparr>ct_failures := failures\<rparr>))"

definition round_succeeded ::
  "string \<Rightarrow> int \<Rightarrow> session_message option \<Rightarrow> session_message list \<Rightarrow> string \<Rightarrow> consolidation_state \<Rightarrow> round_end" where
  "round_succeeded sid threshold summaryRow chunk memory_update st =
     (let idsToArchive = map row_id chunk @ (case summaryRow of None \<Rightarrow> [] | Some s \<Rightarrow> [row_id s]);
          db' = persist_summary sid idsToArchive memory_update (ct_db st);
          newEstimate = estimate_session_tokens sid db';
          st' = \<lparr>ct_db = db', ct_failures = 0, ct_roundsUsed = Suc (ct_roundsUsed st),
                 ct_lastEstimate = newEstimate, ct_archived = ct_archived st + length idsToArchive\<rparr>
      in if int newEstimate \<le> threshold then LeaveLoop st' else NextRound st')"

definition consolidation_round ::
  "'w consolidation_env \<Rightarrow> consolidation_options \<Rightarrow> string \<Rightarrow> int \<Rightarrow> nat \<Rightarrow> nat \<Rightarrow> consolidation_state \<Rightarrow> 'w \<Rightarrow>
     round_end \<times> 'w" where
  "consolidation_round env opts sid threshold estimated rd st w =
     (let rows = live_rows sid (ct_db st);
          summaryRow = find is_summary_row rows;
          chunk = take_chunk (over_by (cp_force opts) estimated (threshold div 2)) (after_summary summaryRow rows) 0
      in if rows = [] \<or> chunk = [] then (LeaveLoop st, w)
         else (case cn_resolve env w of
            (Inl e, w1) \<Rightarrow> (LeaveLoop (st\<lparr>ct_failures := ct_failures st + max_consecutive_failures\<rparr>), w1)
          | (Inr _, w1) \<Rightarrow>
              (case cn_create env w1 of
                 (Inl e, w2) \<Rightarrow> (RoundThrows e (ct_db st), w2)
               | (Inr _, w2) \<Rightarrow>
                   (case call_model env (consolidation_prompt env opts summaryRow chunk) w2 of
                      (None, w3) \<Rightarrow> (round_failed sid estimated rd chunk st, w3)
                    | (Some response, w3) \<Rightarrow>
                        (case memory_update_of (cn_parse_json env) response of
                           None \<Rightarrow> (round_failed sid estimated rd chunk st, w3)
                         | Some memory_update \<Rightarrow>
                             (round_succeeded sid threshold summaryRow chunk memory_update st,
                              cn_record_usage env (resp_usage response)
                                (if cp_hasContainer opts
                                 then cn_write_memory env (newline @ ''## Consolidated'' @ newline @ newline @ memory_update @ newline) w3
                                 else w3)))))))"

section \<open>Consolidation\<close>

definition finish_consolidation :: "nat \<Rightarrow> consolidation_state \<Rightarrow> consolidation_result" where
  "finish_consolidation estimated st =
     \<lparr>cr_consolidated = True, cr_preTokens = Some estimated, cr_postTokens = Some (ct_lastEstimate st),
      cr_roundsUsed = Some (ct_roundsUsed st), cr_archivedCount = Some (ct_archived st)\<rparr>"

text \<open>The loop; the first number counts the rounds that are left.\<close>

fun consolidation_rounds ::
  "'w consolidation_env \<Rightarrow> consolidation_options \<Rightarrow> string \<Rightarrow> int \<Rightarrow> nat \<Rightarrow> nat \<Rightarrow> consolidation_state \<Rightarrow> 'w \<Rightarrow>
     (thrown + consolidation_result) \<times> session_db \<times> 'w" where
  "consolidation_rounds env opts sid threshold estimated 0 st w =
     (Inr (finish_consolidation estimated st), ct_db st, w)"
| "consolidation_rounds env opts sid threshold estimated (Suc left) st w =
     (case consolidation_round env opts sid threshold estimated (max_consolidation_rounds - Suc left) st w of
        (NextRound st', w') \<Rightarrow> consolidation_rounds env opts sid threshold estimated left st' w'
      | (LeaveLoop st', w') \<Rightarrow> (Inr (finish_consolidation estimated st'), ct_db st', w')
      | (ReturnNow result db', w') \<Rightarrow> (Inr result, db', w')
      | (RoundThrows e db', w') \<Rightarrow> (Inl e, db', w'))"

definition do_consolidate ::
  "'w consolidation_env \<Rightarrow> consolidation_options \<Rightarrow> string \<Rightarrow> session_db \<Rightarrow> 'w \<Rightarrow>
     (thrown + consolidation_result) \<times> session_db \<times> 'w" where
  "do_consolidate env opts sid db w =
     (let threshold = context_window (cp_contextWindowTokens opts) (cn_contextWindowTokens env);
          estimated = estimate_session_tokens sid db
      in if \<not> cp_force opts \<and> int estimated \<le> threshold
         then (Inr \<lparr>cr_consolidated = False, cr_preTokens = None, cr_postTokens = None, cr_roundsUsed = None,
                    cr_archivedCount = None\<rparr>, db, w)
         else consolidation_rounds env opts sid threshold estimated max_consolidation_rounds
                \<lparr>ct_db = db, ct_failures = 0, ct_roundsUsed = 0, ct_lastEstimate = estimated, ct_archived = 0\<rparr> w)"

section \<open>Nothing is lost\<close>

text \<open>Ids are unique and the database never hands one out twice.\<close>

definition ids_ok :: "session_db \<Rightarrow> bool" where
  "ids_ok db \<longleftrightarrow>
     distinct (map row_id (db_messages db)) \<and> inj (db_ids db) \<and>
     (\<forall>k \<ge> db_nextId db. db_ids db k \<notin> row_id ` set (db_messages db))"

text \<open>The table after consolidating a session: every row is still there, at most archived when it
  was a live row of the session, and what is new are summaries of the session.\<close>

definition conserved :: "string \<Rightarrow> session_db \<Rightarrow> session_db \<Rightarrow> bool" where
  "conserved sid db db' \<longleftrightarrow>
     (\<exists>arch news.
        db_messages db' = map arch (db_messages db) @ news \<and>
        (\<forall>m \<in> set (db_messages db). arch m = m \<or> live_in sid m \<and> (\<exists>t. arch m = m\<lparr>sm_archivedAt := Some t\<rparr>)) \<and>
        (\<forall>m \<in> set news. row_sessionId m = sid \<and> is_summary_row m))"

lemma conserved_refl: "conserved sid db db"
  unfolding conserved_def by (intro exI [of _ id] exI [of _ "[]"]) simp

lemma archived_once:
  assumes "a1 m = m \<or> live_in sid m \<and> (\<exists>t. a1 m = m\<lparr>sm_archivedAt := Some t\<rparr>)"
    and "a2 (a1 m) = a1 m \<or> live_in sid (a1 m) \<and> (\<exists>t. a2 (a1 m) = (a1 m)\<lparr>sm_archivedAt := Some t\<rparr>)"
  shows "a2 (a1 m) = m \<or> live_in sid m \<and> (\<exists>t. a2 (a1 m) = m\<lparr>sm_archivedAt := Some t\<rparr>)"
  using assms by (auto simp: live_in_def)

lemma conserved_trans:
  assumes "conserved sid db db1" "conserved sid db1 db2"
  shows "conserved sid db db2"
proof -
  obtain a1 n1 where 1: "db_messages db1 = map a1 (db_messages db) @ n1"
      "\<And>m. m \<in> set (db_messages db) \<Longrightarrow> a1 m = m \<or> live_in sid m \<and> (\<exists>t. a1 m = m\<lparr>sm_archivedAt := Some t\<rparr>)"
      "\<And>m. m \<in> set n1 \<Longrightarrow> row_sessionId m = sid \<and> is_summary_row m"
    using assms(1) unfolding conserved_def by blast
  obtain a2 n2 where 2: "db_messages db2 = map a2 (db_messages db1) @ n2"
      "\<And>m. m \<in> set (db_messages db1) \<Longrightarrow> a2 m = m \<or> live_in sid m \<and> (\<exists>t. a2 m = m\<lparr>sm_archivedAt := Some t\<rparr>)"
      "\<And>m. m \<in> set n2 \<Longrightarrow> row_sessionId m = sid \<and> is_summary_row m"
    using assms(2) unfolding conserved_def by blast
  have "db_messages db2 = map (a2 \<circ> a1) (db_messages db) @ (map a2 n1 @ n2)" using 1(1) 2(1) by simp
  moreover have "(a2 \<circ> a1) m = m \<or> live_in sid m \<and> (\<exists>t. (a2 \<circ> a1) m = m\<lparr>sm_archivedAt := Some t\<rparr>)"
    if "m \<in> set (db_messages db)" for m
    using archived_once [of a1 m sid a2] 1(2) [OF that] 2(2) [of "a1 m"] 1(1) that by simp
  moreover have "row_sessionId m = sid \<and> is_summary_row m" if mem: "m \<in> set (map a2 n1 @ n2)" for m
  proof (cases "m \<in> set n2")
    case False
    then obtain k where k: "k \<in> set n1" "m = a2 k" using mem by auto
    then have "a2 k = k \<or> (\<exists>t. a2 k = k\<lparr>sm_archivedAt := Some t\<rparr>)" using 2(2) [of k] 1(1) by auto
    then show ?thesis using 1(3) [OF k(1)] k(2) by (auto simp: is_summary_row_def)
  qed (use 2(3) in blast)
  ultimately show ?thesis unfolding conserved_def by blast
qed

lemma live_rows_mem: "m \<in> set (live_rows sid db) \<longleftrightarrow> m \<in> set (db_messages db) \<and> live_in sid m"
  by (auto simp: live_rows_def)

lemma archive_conserved:
  assumes ok: "ids_ok db" and live: "set ids \<subseteq> row_id ` set (live_rows sid db)"
  shows "conserved sid db (archive_ids ids db)"
proof -
  let ?a = "\<lambda>m. if row_id m \<in> set ids then m\<lparr>sm_archivedAt := Some (db_now db)\<rparr> else m"
  have "live_in sid m" if m: "m \<in> set (db_messages db)" "row_id m \<in> set ids" for m
  proof -
    obtain x where x: "x \<in> set (live_rows sid db)" "row_id x = row_id m" using live m(2) by auto
    have "distinct (map row_id (db_messages db))" using ok by (simp add: ids_ok_def)
    then have "x = m" using x m(1) by (auto simp: live_rows_mem distinct_map inj_on_def)
    then show ?thesis using x(1) by (simp add: live_rows_mem)
  qed
  then show ?thesis
    unfolding conserved_def by (intro exI [of _ ?a] exI [of _ "[]"]) (auto simp: archive_ids_def)
qed

lemma archive_ids_simps [simp]:
  "db_ids (archive_ids ids db) = db_ids db" "db_nextId (archive_ids ids db) = db_nextId db"
  "db_sessions (archive_ids ids db) = db_sessions db"
  "map row_id (db_messages (archive_ids ids db)) = map row_id (db_messages db)"
  by (simp_all add: archive_ids_def comp_def if_distrib cong: if_cong)

lemma archive_row_ids: "row_id ` set (db_messages (archive_ids ids db)) = row_id ` set (db_messages db)"
  by (metis archive_ids_simps(4) set_map)

lemma archive_ids_ok: "ids_ok db \<Longrightarrow> ids_ok (archive_ids ids db)"
  unfolding ids_ok_def archive_row_ids by simp

lemma take_chunk_prefix: "\<exists>rest. rows = take_chunk n rows t @ rest"
  by (induction n rows t rule: take_chunk.induct) auto

lemma take_chunk_sub: "set (take_chunk n rows t) \<subseteq> set rows"
  using take_chunk_prefix by (metis Un_upper1 set_append)

lemma after_summary_sub: "set (after_summary s rows) \<subseteq> set rows"
  by (auto simp: after_summary_def split: option.splits)

lemma persist_conserved:
  assumes ok: "ids_ok db" and live: "set ids \<subseteq> row_id ` set (live_rows sid db)"
  shows "conserved sid db (persist_summary sid ids mu db) \<and> ids_ok (persist_summary sid ids mu db)"
proof -
  let ?db1 = "archive_ids ids db"
  let ?m = "summary_message sid mu ?db1"
  have msgs: "db_messages (persist_summary sid ids mu db) = db_messages ?db1 @ [?m]"
      "db_ids (persist_summary sid ids mu db) = db_ids db" "db_nextId (persist_summary sid ids mu db) = Suc (db_nextId db)"
    by (simp_all add: persist_summary_def Let_def)
  have "is_summary_row ?m" "row_sessionId ?m = sid"
    by (simp_all add: is_summary_row_def summary_message_def starts_with_def)
  then have "conserved sid ?db1 (persist_summary sid ids mu db)"
    unfolding conserved_def msgs by (intro exI [of _ id] exI [of _ "[?m]"]) simp
  then have c: "conserved sid db (persist_summary sid ids mu db)"
    using archive_conserved [OF ok live] conserved_trans by blast
  have ok1: "ids_ok ?db1" using archive_ids_ok [OF ok] .
  have "row_id ?m = db_ids db (db_nextId db)" by (simp add: summary_message_def)
  then have "ids_ok (persist_summary sid ids mu db)"
    using ok1 unfolding ids_ok_def msgs by (simp add: inj_eq archive_row_ids)
  then show ?thesis using c by simp
qed

text \<open>What a round leaves, whichever way it ends.\<close>

definition round_db :: "round_end \<Rightarrow> session_db" where
  "round_db r = (case r of NextRound st \<Rightarrow> ct_db st | LeaveLoop st \<Rightarrow> ct_db st | ReturnNow res db \<Rightarrow> db | RoundThrows e db \<Rightarrow> db)"

lemma round_failed_conserved:
  assumes ok: "ids_ok (ct_db st)" and chunk: "set chunk \<subseteq> set (live_rows sid (ct_db st))"
  shows "conserved sid (ct_db st) (round_db (round_failed sid est rd chunk st)) \<and>
     ids_ok (round_db (round_failed sid est rd chunk st))"
proof -
  have "set (map row_id chunk) \<subseteq> row_id ` set (live_rows sid (ct_db st))" using chunk by auto
  from archive_conserved [OF ok this] show ?thesis
    using ok archive_ids_ok conserved_refl
    by (simp add: round_failed_def Let_def round_db_def raw_archive_fallback_def)
qed

lemma round_succeeded_conserved:
  assumes ok: "ids_ok (ct_db st)" and chunk: "set chunk \<subseteq> set (live_rows sid (ct_db st))"
    and s: "\<And>x. s = Some x \<Longrightarrow> x \<in> set (live_rows sid (ct_db st))"
  shows "conserved sid (ct_db st) (round_db (round_succeeded sid th s chunk mu st)) \<and>
     ids_ok (round_db (round_succeeded sid th s chunk mu st))"
proof -
  let ?ids = "map row_id chunk @ (case s of None \<Rightarrow> [] | Some s \<Rightarrow> [row_id s])"
  have "set ?ids \<subseteq> row_id ` set (live_rows sid (ct_db st))" using chunk s by (auto split: option.splits)
  from persist_conserved [OF ok this, of mu] show ?thesis
    by (simp add: round_succeeded_def Let_def round_db_def)
qed

text \<open>The ways a round can end, with the world it leaves.\<close>

lemma round_cases:
  assumes r: "consolidation_round env opts sid th est rd st w = (out, w')"
  defines "rows \<equiv> live_rows sid (ct_db st)"
  defines "s \<equiv> find is_summary_row rows"
  defines "chunk \<equiv> take_chunk (over_by (cp_force opts) est (th div 2)) (after_summary s rows) 0"
  obtains (stopped) "out = LeaveLoop st" "w' = w"
    | (unresolved) e where "cn_resolve env w = (Inl e, w')"
        "out = LeaveLoop (st\<lparr>ct_failures := ct_failures st + max_consecutive_failures\<rparr>)"
    | (threw) u w1 e where "cn_resolve env w = (Inr u, w1)" "cn_create env w1 = (Inl e, w')" "out = RoundThrows e (ct_db st)"
    | (failed) u w1 v w2 resp where "cn_resolve env w = (Inr u, w1)" "cn_create env w1 = (Inr v, w2)"
        "call_model env (consolidation_prompt env opts s chunk) w2 = (resp, w')"
        "out = round_failed sid est rd chunk st"
    | (succeeded) u w1 v w2 resp w3 mu where "cn_resolve env w = (Inr u, w1)" "cn_create env w1 = (Inr v, w2)"
        "call_model env (consolidation_prompt env opts s chunk) w2 = (Some resp, w3)"
        "out = round_succeeded sid th s chunk mu st"
        "w' = cn_record_usage env (resp_usage resp)
           (if cp_hasContainer opts
            then cn_write_memory env (newline @ ''## Consolidated'' @ newline @ newline @ mu @ newline) w3 else w3)"
proof (cases "rows = [] \<or> chunk = []")
  case True
  then show thesis using r stopped by (auto simp: consolidation_round_def Let_def rows_def s_def chunk_def)
next
  case False
  note def = consolidation_round_def Let_def rows_def [symmetric] s_def [symmetric] chunk_def [symmetric]
  show thesis
  proof (cases "cn_resolve env w")
    case res: (Pair a w1)
    show thesis
    proof (cases a)
      case (Inl e)
      then show thesis using r False res by (intro unresolved [of e]) (auto simp: def)
    next
      case resolved: (Inr u)
      show thesis
      proof (cases "cn_create env w1")
        case cr: (Pair b w2)
        show thesis
        proof (cases b)
          case (Inl e)
          then show thesis using r False res resolved cr by (intro threw [of u w1 e]) (auto simp: def)
        next
          case created: (Inr v)
          obtain answer w3 where call: "call_model env (consolidation_prompt env opts s chunk) w2 = (answer, w3)"
            by fastforce
          note facts = r False res resolved cr created call
          show thesis
          proof (cases answer)
            case None
            then show thesis using facts by (intro failed [of u w1 v w2 None]) (simp_all add: def)
          next
            case answered: (Some resp)
            show thesis
            proof (cases "memory_update_of (cn_parse_json env) resp")
              case None
              then show thesis using facts answered by (intro failed [of u w1 v w2 "Some resp"]) (simp_all add: def)
            next
              case (Some mu)
              then show thesis using facts answered by (intro succeeded [of u w1 v w2 resp w3 mu]) (simp_all add: def)
            qed
          qed
        qed
      qed
    qed
  qed
qed

lemma round_conserved:
  assumes ok: "ids_ok (ct_db st)" and r: "consolidation_round env opts sid th est rd st w = (out, w')"
  shows "conserved sid (ct_db st) (round_db out) \<and> ids_ok (round_db out)"
proof -
  let ?rows = "live_rows sid (ct_db st)"
  let ?s = "find is_summary_row ?rows"
  let ?chunk = "take_chunk (over_by (cp_force opts) est (th div 2)) (after_summary ?s ?rows) 0"
  have chunk: "set ?chunk \<subseteq> set ?rows" using take_chunk_sub after_summary_sub by (rule subset_trans)
  have s: "x \<in> set ?rows" if "?s = Some x" for x using find_mem [OF that] by simp
  have same: "conserved sid (ct_db st) (ct_db st) \<and> ids_ok (ct_db st)" using ok conserved_refl by simp
  show ?thesis using r
  proof (cases rule: round_cases)
    case failed
    show ?thesis unfolding failed(4) by (rule round_failed_conserved [OF ok chunk])
  next
    case succeeded
    show ?thesis unfolding succeeded(4) by (rule round_succeeded_conserved [OF ok chunk s])
  qed (use same in \<open>simp_all add: round_db_def\<close>)
qed

lemma rounds_conserved:
  "ids_ok (ct_db st) \<Longrightarrow> consolidation_rounds env opts sid th est left st w = (r, db', w') \<Longrightarrow>
   conserved sid (ct_db st) db'"
proof (induction left arbitrary: st w)
  case 0
  then show ?case by (simp add: conserved_refl)
next
  case (Suc left)
  obtain out w1 where o: "consolidation_round env opts sid th est (max_consolidation_rounds - Suc left) st w = (out, w1)"
    by fastforce
  have c: "conserved sid (ct_db st) (round_db out)" "ids_ok (round_db out)"
    using round_conserved [OF Suc.prems(1) o] by auto
  show ?case
  proof (cases out)
    case (NextRound st')
    then show ?thesis using Suc.IH [of st' w1] Suc.prems(2) o c conserved_trans by (auto simp: round_db_def)
  qed (use Suc.prems(2) o c in \<open>auto simp: round_db_def\<close>)
qed

lemma conserved_others:
  assumes "conserved sid db db'" and "other \<noteq> sid"
  shows "live_rows other db' = live_rows other db"
proof -
  obtain arch news where a: "db_messages db' = map arch (db_messages db) @ news"
      "\<And>m. m \<in> set (db_messages db) \<Longrightarrow> arch m = m \<or> live_in sid m \<and> (\<exists>t. arch m = m\<lparr>sm_archivedAt := Some t\<rparr>)"
      "\<And>m. m \<in> set news \<Longrightarrow> row_sessionId m = sid"
    using assms(1) unfolding conserved_def by blast
  have "filter (live_in other) (map arch ms) = filter (live_in other) ms" if "set ms \<subseteq> set (db_messages db)" for ms
    using that
  proof (induction ms)
    case (Cons m ms)
    then have "arch m = m \<or> live_in sid m \<and> (\<exists>t. arch m = m\<lparr>sm_archivedAt := Some t\<rparr>)" using a(2) by auto
    then have "live_in other (arch m) = live_in other m \<and> (live_in other m \<longrightarrow> arch m = m)"
      using assms(2) by (elim disjE conjE exE) (simp_all add: live_in_def)
    then show ?case using Cons by simp
  qed simp
  moreover have "filter (live_in other) news = []" using a(3) assms(2) by (auto simp: filter_empty_conv live_in_def)
  ultimately show ?thesis by (simp add: live_rows_def a(1))
qed

text \<open>C16: consolidation deletes nothing, although the comment on \<open>doConsolidate\<close> says that it deletes
  the old messages, and touches one session: however the provider, the model and the
  container behave, every message row is still in the table with its content, rows that changed were
  live rows of the session and are now archived, what was added are summaries of that session, and
  every other session loads exactly as before.\<close>

theorem consolidation_conserves:
  assumes "ids_ok db" and "do_consolidate env opts sid db w = (r, db', w')"
  shows "(\<exists>arch news.
        db_messages db' = map arch (db_messages db) @ news \<and>
        (\<forall>m \<in> set (db_messages db). arch m = m \<or> live_in sid m \<and> (\<exists>t. arch m = m\<lparr>sm_archivedAt := Some t\<rparr>)) \<and>
        (\<forall>m \<in> set news. row_sessionId m = sid \<and> is_summary_row m)) \<and>
     (\<forall>other. other \<noteq> sid \<longrightarrow> load_messages other db' = load_messages other db)"
proof -
  have c: "conserved sid db db'"
    using assms rounds_conserved [of "\<lparr>ct_db = db, ct_failures = 0, ct_roundsUsed = 0,
        ct_lastEstimate = estimate_session_tokens sid db, ct_archived = 0\<rparr>"] conserved_refl
    by (auto simp: do_consolidate_def Let_def split: if_splits)
  have "load_messages other db' = load_messages other db" if "other \<noteq> sid" for other
    using conserved_others [OF c that] by (simp add: load_messages_def)
  then show ?thesis using c unfolding conserved_def by blast
qed

section \<open>Bounded work\<close>

text \<open>\<open>calls\<close> counts the provider's calls off the world; nothing else makes any.\<close>

definition counts_calls :: "'w consolidation_env \<Rightarrow> ('w \<Rightarrow> nat) \<Rightarrow> bool" where
  "counts_calls env calls \<longleftrightarrow>
     (\<forall>p c w. calls (snd (cn_chat env p c w)) \<le> Suc (calls w)) \<and>
     (\<forall>w. calls (snd (cn_resolve env w)) \<le> calls w) \<and> (\<forall>w. calls (snd (cn_create env w)) \<le> calls w) \<and>
     (\<forall>s w. calls (cn_write_memory env s w) \<le> calls w) \<and> (\<forall>u w. calls (cn_record_usage env u w) \<le> calls w)"

lemma counts_callsD:
  assumes "counts_calls env calls"
  shows chat_count: "cn_chat env p c w = (r, w') \<Longrightarrow> calls w' \<le> Suc (calls w)"
    and resolve_count: "cn_resolve env w = (a, w') \<Longrightarrow> calls w' \<le> calls w"
    and create_count: "cn_create env w = (b, w') \<Longrightarrow> calls w' \<le> calls w"
    and note_count: "calls (cn_record_usage env u (if h then cn_write_memory env s w else w)) \<le> calls w"
proof -
  have all: "\<And>p c w. calls (snd (cn_chat env p c w)) \<le> Suc (calls w)" "\<And>w. calls (snd (cn_resolve env w)) \<le> calls w"
    "\<And>w. calls (snd (cn_create env w)) \<le> calls w" "\<And>s w. calls (cn_write_memory env s w) \<le> calls w"
    "\<And>u w. calls (cn_record_usage env u w) \<le> calls w"
    using assms unfolding counts_calls_def by (elim conjE; blast)+
  show "cn_chat env p c w = (r, w') \<Longrightarrow> calls w' \<le> Suc (calls w)" using all(1) [of p c w] by simp
  show "cn_resolve env w = (a, w') \<Longrightarrow> calls w' \<le> calls w" using all(2) [of w] by simp
  show "cn_create env w = (b, w') \<Longrightarrow> calls w' \<le> calls w" using all(3) [of w] by simp
  show "calls (cn_record_usage env u (if h then cn_write_memory env s w else w)) \<le> calls w"
    using order.trans [OF all(5) [of u "if h then cn_write_memory env s w else w"]] all(4) [of s w] by (cases h) simp_all
qed

lemma call_model_count:
  assumes c: "counts_calls env calls" and r: "call_model env p w = (resp, w')"
  shows "calls w' \<le> calls w + 2"
proof -
  obtain a w1 where 1: "cn_chat env p (ChooseTool ''save_memory'') w = (a, w1)" by fastforce
  obtain b w2 where 2: "cn_chat env p ChooseAuto w1 = (b, w2)" by fastforce
  have "w' = w1 \<or> w' = w2"
    using r 1 2 by (auto simp: call_model_def split: sum.splits if_splits)
  then show ?thesis using chat_count [OF c 1] chat_count [OF c 2] by auto
qed

lemma round_count:
  assumes c: "counts_calls env calls" and r: "consolidation_round env opts sid th est rd st w = (out, w')"
  shows "calls w' \<le> calls w + 2"
  using r
proof (cases rule: round_cases)
  case (unresolved e)
  then show ?thesis using resolve_count [OF c] by fastforce
next
  case (threw u w1 e)
  have "calls w' \<le> calls w1" "calls w1 \<le> calls w"
    using create_count [OF c threw(2)] resolve_count [OF c threw(1)] .
  then show ?thesis by simp
next
  case (failed u w1 v w2 resp)
  have "calls w' \<le> calls w2 + 2" "calls w2 \<le> calls w1" "calls w1 \<le> calls w"
    using call_model_count [OF c failed(3)] create_count [OF c failed(2)] resolve_count [OF c failed(1)] .
  then show ?thesis by simp
next
  case (succeeded u w1 v w2 resp w3 mu)
  have "calls w' \<le> calls w3" unfolding succeeded(5) by (rule note_count [OF c])
  moreover have "calls w3 \<le> calls w2 + 2" "calls w2 \<le> calls w1" "calls w1 \<le> calls w"
    using call_model_count [OF c succeeded(3)] create_count [OF c succeeded(2)] resolve_count [OF c succeeded(1)] .
  ultimately show ?thesis by simp
qed simp

lemma rounds_count:
  assumes c: "counts_calls env calls"
  shows "consolidation_rounds env opts sid th est left st w = (r, db', w') \<Longrightarrow> calls w' \<le> calls w + 2 * left"
proof (induction left arbitrary: st w)
  case 0
  then show ?case by simp
next
  case (Suc left)
  obtain out w1 where o: "consolidation_round env opts sid th est (max_consolidation_rounds - Suc left) st w = (out, w1)"
    by fastforce
  have "calls w1 \<le> calls w + 2" by (rule round_count [OF c o])
  moreover have "calls w' \<le> calls w1 + 2 * left"
  proof (cases out)
    case (NextRound st')
    then show ?thesis using Suc.IH [of st' w1] Suc.prems o by simp
  qed (use Suc.prems o in auto)
  ultimately show ?case by simp
qed

text \<open>Consolidation always returns, after at most ten calls of the provider (five rounds, each with
  at most one retry); a session at or under its window is left alone without any call, unless the
  consolidation is forced.\<close>

theorem consolidation_bounded:
  assumes "counts_calls env calls" and "do_consolidate env opts sid db w = (r, db', w')"
  shows "calls w' \<le> calls w + 10 \<and>
     (\<not> cp_force opts \<and>
        int (estimate_session_tokens sid db) \<le> context_window (cp_contextWindowTokens opts) (cn_contextWindowTokens env) \<longrightarrow>
        w' = w \<and> db' = db)"
proof (cases "\<not> cp_force opts \<and>
    int (estimate_session_tokens sid db) \<le> context_window (cp_contextWindowTokens opts) (cn_contextWindowTokens env)")
  case True
  then show ?thesis using assms(2) by (auto simp: do_consolidate_def Let_def)
next
  case False
  then have run: "consolidation_rounds env opts sid
      (context_window (cp_contextWindowTokens opts) (cn_contextWindowTokens env)) (estimate_session_tokens sid db)
      max_consolidation_rounds
      \<lparr>ct_db = db, ct_failures = 0, ct_roundsUsed = 0, ct_lastEstimate = estimate_session_tokens sid db, ct_archived = 0\<rparr>
      w = (r, db', w')"
    using assms(2) by (auto simp: do_consolidate_def Let_def split: if_splits)
  have "calls w' \<le> calls w + 2 * max_consolidation_rounds" by (rule rounds_count [OF assms(1) run])
  then have "calls w' \<le> calls w + 10" by (simp add: max_consolidation_rounds_def)
  then show ?thesis using False by blast
qed

text \<open>When the provider of the summaries cannot be resolved (no key), consolidation does nothing to
  the session, and in particular not the raw archive that its source announces for this case, yet it
  reports success.\<close>

theorem unresolved_provider_reports_success:
  assumes unresolved: "\<And>w. \<exists>e w'. cn_resolve env w = (Inl e, w')"
    and due: "cp_force opts \<or>
      context_window (cp_contextWindowTokens opts) (cn_contextWindowTokens env) < int (estimate_session_tokens sid db)"
  shows "\<exists>result w'. do_consolidate env opts sid db w = (Inr result, db, w') \<and>
     cr_consolidated result \<and> cr_archivedCount result = Some 0 \<and> cr_roundsUsed result = Some 0"
proof -
  obtain e w1 where e: "cn_resolve env w = (Inl e, w1)" using unresolved by blast
  let ?st = "\<lparr>ct_db = db, ct_failures = 0, ct_roundsUsed = 0, ct_lastEstimate = estimate_session_tokens sid db, ct_archived = 0\<rparr>"
  let ?th = "context_window (cp_contextWindowTokens opts) (cn_contextWindowTokens env)"
  have round: "\<exists>st' w'. consolidation_round env opts sid ?th (estimate_session_tokens sid db) 0 ?st w = (LeaveLoop st', w') \<and>
      ct_db st' = db \<and> ct_archived st' = 0 \<and> ct_roundsUsed st' = 0"
    using e by (simp add: consolidation_round_def Let_def)
  have five: "max_consolidation_rounds = Suc 4" by (simp add: max_consolidation_rounds_def)
  have step: "consolidation_rounds env opts sid ?th (estimate_session_tokens sid db) (Suc 4) ?st w =
      (Inr (finish_consolidation (estimate_session_tokens sid db) st'), ct_db st', w')"
    if "consolidation_round env opts sid ?th (estimate_session_tokens sid db) 0 ?st w = (LeaveLoop st', w')" for st' w'
    using that by (subst consolidation_rounds.simps) (simp add: five)
  have run: "do_consolidate env opts sid db w =
      consolidation_rounds env opts sid ?th (estimate_session_tokens sid db) (Suc 4) ?st w"
    using due by (auto simp: do_consolidate_def Let_def five)
  from round obtain st' w' where "consolidation_round env opts sid ?th (estimate_session_tokens sid db) 0 ?st w = (LeaveLoop st', w')"
      "ct_db st' = db" "ct_archived st' = 0" "ct_roundsUsed st' = 0" by blast
  then show ?thesis unfolding run using step [of st' w'] by (simp add: finish_consolidation_def)
qed

section \<open>Samples, and what consolidation does to the next messages\<close>

definition sample_answer :: llm_response where
  "sample_answer =
     \<lparr>resp_content = None,
      resp_toolCalls = [\<lparr>tc_id = ''k'', tc_name = ''save_memory'',
         tc_arguments = JObj [(''history_entry'', JStr ''h''), (''memory_update'', JStr ''m'')]\<rparr>],
      resp_finishReason = FStop, resp_usage = zero_usage\<rparr>"

definition sample_env :: "bool \<Rightarrow> nat consolidation_env" where
  "sample_env has_key =
     \<lparr>cn_resolve = (\<lambda>w. (if has_key then Inr () else Inl ThrownOther, w)), cn_create = (\<lambda>w. (Inr (), w)),
      cn_chat = (\<lambda>p c w. (Inr sample_answer, Suc w)), cn_write_memory = (\<lambda>s w. w), cn_record_usage = (\<lambda>u w. w),
      cn_parse_json = (\<lambda>s. None), cn_iso = (\<lambda>n. []), cn_contextWindowTokens = None\<rparr>"

definition sample_options :: consolidation_options where
  "sample_options = \<lparr>cp_hasContainer = False, cp_contextWindowTokens = Some 13, cp_force = False, cp_customInstructions = None\<rparr>"

definition start_db :: session_db where
  "start_db = empty_db\<lparr>db_ids := (\<lambda>n. replicate n (CHR ''i''))\<rparr>"

definition saved :: "chat_message list \<Rightarrow> session_db" where
  "saved ms = snd (save_messages ''s'' ms None start_db)"

definition after_consolidation :: "session_db \<Rightarrow> session_db" where
  "after_consolidation db = fst (snd (do_consolidate (sample_env True) sample_options ''s'' db 0))"

lemma saved_ids_ok: "ids_ok (saved [plain_msg User ''hi''])"
proof -
  have "inj (\<lambda>n. replicate n (CHR ''i''))" by (rule injI) (metis length_replicate)
  then show ?thesis
    by (auto simp: ids_ok_def saved_def save_messages_def start_db_def empty_db_def new_message_def Let_def)
qed

theorem consolidation_conserves_witness:
  "\<exists>r db' w'. do_consolidate (sample_env True) sample_options ''s'' (saved [plain_msg User ''hi'']) 0 = (r, db', w') \<and>
     load_messages ''t'' db' = load_messages ''t'' (saved [plain_msg User ''hi''])"
proof -
  obtain r db' w' where run:
    "do_consolidate (sample_env True) sample_options ''s'' (saved [plain_msg User ''hi'']) 0 = (r, db', w')"
    by (metis prod_cases3)
  then have "load_messages ''t'' db' = load_messages ''t'' (saved [plain_msg User ''hi''])"
    using consolidation_conserves [OF saved_ids_ok run] by simp
  then show ?thesis using run by blast
qed

lemma sample_env_counts: "counts_calls (sample_env b) id"
  by (simp add: counts_calls_def sample_env_def)

theorem consolidation_bounded_witness:
  "\<exists>r db' w'. do_consolidate (sample_env True) sample_options ''s'' (saved [plain_msg User ''hi'']) 0 = (r, db', w') \<and> w' \<le> 10"
proof -
  obtain r db' w' where run:
    "do_consolidate (sample_env True) sample_options ''s'' (saved [plain_msg User ''hi'']) 0 = (r, db', w')"
    by (metis prod_cases3)
  then show ?thesis using consolidation_bounded [OF sample_env_counts run] by auto
qed

theorem unresolved_provider_reports_success_witness:
  "\<exists>result w'. do_consolidate (sample_env False) (sample_options\<lparr>cp_force := True\<rparr>) ''s'' empty_db 0 = (Inr result, empty_db, w') \<and>
     cr_consolidated result"
  using unresolved_provider_reports_success [where env = "sample_env False" and opts = "sample_options\<lparr>cp_force := True\<rparr>"
      and db = empty_db and sid = "''s''" and w = 0]
  by (auto simp: sample_env_def)

text \<open>Consolidation breaks the transcript it shortens. A session of six messages loses the first
  four; the next message that is saved gets an ordering below the two that stayed, because
  \<open>saveMessages\<close> numbers by the count of live rows, and loads before them. And when the first chunk
  ends with an assistant message that calls a tool, the call is archived while its result stays, so
  the loaded conversation holds a tool result that answers no call.\<close>

theorem consolidation_breaks_transcript:
  "map msg_content (load_messages ''s'' (snd (save_messages ''s'' [plain_msg User ''new''] None
       (after_consolidation (saved
          [plain_msg User ''question one'', plain_msg Assistant ''answer one..'', plain_msg User ''question two'',
           plain_msg Assistant ''answer two..'', plain_msg User ''question 3..'', plain_msg Assistant ''answer three''])))))
     = [''[MEMORY SUMMARY]'' @ newline @ ''m'', ''new'', ''question 3..'', ''answer three''] \<and>
   (let old = [plain_msg User ''look this up'', assistant_calls_msg ''ok'' [\<lparr>tc_id = ''t'', tc_name = ''f'', tc_arguments = JObj []\<rparr>],
                  tool_result_msg ''r'' ''t'', plain_msg Assistant ''x'']
    in well_paired old \<and> \<not> well_paired (load_messages ''s'' (after_consolidation (saved old))))"
  by code_simp

end
