(* ===== verification/MessageChunker.thy ===== *)
theory MessageChunker
  imports Prelude
begin

text \<open>
  The message chunker of the channels (\<open>packages/api/src/channels/utils/message-chunker.ts\<close>).
  Indices are integers, as the code's can be negative; \<open>char_at\<close> is \<open>None\<close> where JavaScript reads
  \<open>undefined\<close>. The splitting loop need not end, so it is a partial function whose value is
  \<open>None\<close> when the code loops forever.
\<close>

section \<open>Characters and slices\<close>

definition char_at :: "'a list \<Rightarrow> int \<Rightarrow> 'a option" where
  "char_at xs i = (if 0 \<le> i \<and> i < int (length xs) then Some (xs ! nat i) else None)"

definition clip :: "'a list \<Rightarrow> int \<Rightarrow> nat" where
  "clip xs i = nat (if i < 0 then max (int (length xs) + i) 0 else min i (int (length xs)))"

text \<open>\<open>xs.slice(a, b)\<close> and \<open>xs.slice(a)\<close>: a negative index counts from the end.\<close>

definition js_slice :: "'a list \<Rightarrow> int \<Rightarrow> int \<Rightarrow> 'a list" where
  "js_slice xs a b = drop (clip xs a) (take (clip xs b) xs)"

definition js_slice_from :: "'a list \<Rightarrow> int \<Rightarrow> 'a list" where
  "js_slice_from xs a = drop (clip xs a) xs"

definition nl :: char where "nl = CHR 0x0A"
definition tab :: char where "tab = CHR 0x09"
definition cr :: char where "cr = CHR 0x0D"
definition tick :: char where "tick = CHR 0x60"

definition blank :: "char \<Rightarrow> bool" where
  "blank c = (c = CHR '' '' \<or> c = tab \<or> c = nl \<or> c = cr)"

definition strip_end :: "string \<Rightarrow> string" where
  "strip_end s = rev (dropWhile blank (rev s))"

definition strip_start :: "string \<Rightarrow> string" where
  "strip_start s = dropWhile blank s"

section \<open>Constants and scans\<close>

definition newline_window :: int where "newline_window = 200"
definition space_window :: int where "space_window = 100"
definition fence_closer :: string where "fence_closer = [nl, tick, tick, tick]"
definition safe_split_length :: int where "safe_split_length = 3500"

function scan_down :: "(char \<Rightarrow> bool) \<Rightarrow> string \<Rightarrow> int \<Rightarrow> int \<Rightarrow> int" where
  "scan_down P text lo i =
     (if i < lo then -1
      else if (case char_at text i of None \<Rightarrow> False | Some c \<Rightarrow> P c) then i
      else scan_down P text lo (i - 1))"
  by pat_completeness auto
termination by (relation "measure (\<lambda>(P, text, lo, i). nat (i + 1 - lo))") auto

declare scan_down.simps [simp del]

definition find_last_newline_in_range :: "string \<Rightarrow> int \<Rightarrow> int \<Rightarrow> int \<Rightarrow> int" where
  "find_last_newline_in_range text start stop window =
     (let searchStart = max (stop - window) start in scan_down (\<lambda>c. c = nl) text searchStart (stop - 1))"

definition find_last_space_in_range :: "string \<Rightarrow> int \<Rightarrow> int \<Rightarrow> int \<Rightarrow> int" where
  "find_last_space_in_range text start stop window =
     (let searchStart = max (stop - window) start
      in scan_down (\<lambda>c. c = CHR '' '' \<or> c = tab) text searchStart (stop - 1))"

function scan_fences :: "string \<Rightarrow> int \<Rightarrow> bool \<Rightarrow> int \<Rightarrow> int \<Rightarrow> int" where
  "scan_fences text stop isOpen lastOpenIdx i =
     (if i < stop - 2 then
        if char_at text i = Some tick \<and> char_at text (i + 1) = Some tick \<and> char_at text (i + 2) = Some tick
        then scan_fences text stop (\<not> isOpen) (if isOpen then lastOpenIdx else i) (i + 3)
        else scan_fences text stop isOpen lastOpenIdx (i + 1)
      else if isOpen then lastOpenIdx else -1)"
  by pat_completeness auto
termination by (relation "measure (\<lambda>(text, stop, isOpen, lastOpenIdx, i). nat (stop - i))") auto

declare scan_fences.simps [simp del]

definition find_last_unclosed_fence :: "string \<Rightarrow> int \<Rightarrow> int \<Rightarrow> int" where
  "find_last_unclosed_fence text start stop = scan_fences text stop False (-1) start"

text \<open>\<open>text.indexOf(c, from)\<close> for a \<open>from\<close> that is not negative.\<close>

function index_from :: "char \<Rightarrow> string \<Rightarrow> int \<Rightarrow> int" where
  "index_from c text i =
     (if int (length text) \<le> i then -1
      else if char_at text i = Some c then i else index_from c text (i + 1))"
  by pat_completeness auto
termination by (relation "measure (\<lambda>(c, text, i). nat (int (length text) - i))") auto

declare index_from.simps [simp del]

definition extract_fence_language :: "string \<Rightarrow> int \<Rightarrow> string" where
  "extract_fence_language text fenceIdx =
     (let afterFence = fenceIdx + 3; newline = index_from nl text afterFence in
      if newline = -1 then []
      else (let lang = trim_ws (js_slice text afterFence newline) in if 32 < length lang then [] else lang))"

definition find_split_point :: "string \<Rightarrow> int \<Rightarrow> int" where
  "find_split_point text hardEnd =
     (let e1 = find_last_newline_in_range text 0 hardEnd newline_window;
          e2 = (if e1 \<le> 0 then find_last_space_in_range text 0 hardEnd space_window else e1)
      in if e2 \<le> 0 then hardEnd else e2)"

section \<open>Splitting\<close>

definition reopen_header :: "string \<Rightarrow> string" where
  "reopen_header language = (if language \<noteq> [] then [tick, tick, tick] @ language @ [nl] else [tick, tick, tick, nl])"

text \<open>The index after the fence header, and the force that moves a split point past it.\<close>

definition header_end :: "string \<Rightarrow> int \<Rightarrow> string \<Rightarrow> int" where
  "header_end remaining unclosedIdx language =
     (let headerNewline = index_from nl remaining (unclosedIdx + 3)
      in if headerNewline = -1 then unclosedIdx + 3 + int (length language) else headerNewline + 1)"

definition past_header :: "string \<Rightarrow> int \<Rightarrow> int \<Rightarrow> int \<Rightarrow> int \<Rightarrow> int" where
  "past_header remaining headerEnd reopenLen limit stop =
     (if stop \<le> headerEnd \<or> stop \<le> reopenLen then min limit (int (length remaining)) else stop)"

definition split_in_fence :: "string \<Rightarrow> int \<Rightarrow> int \<Rightarrow> int \<Rightarrow> string \<times> string" where
  "split_in_fence remaining maxLen stop unclosedIdx =
     (let language = extract_fence_language remaining unclosedIdx;
          headerEnd = header_end remaining unclosedIdx language;
          reopenLen = (if language \<noteq> [] then int (length language) + 4 else 4);
          splitEnd = past_header remaining headerEnd reopenLen maxLen stop;
          raw = strip_end (js_slice remaining 0 splitEnd);
          withCloser = raw @ fence_closer
      in if int (length withCloser) \<le> maxLen then
           (withCloser, reopen_header language @ strip_start (js_slice_from remaining splitEnd))
         else
           (let limit = maxLen - int (length fence_closer);
                shrunkEnd = past_header remaining headerEnd reopenLen limit (find_split_point remaining limit);
                rawShrunk = strip_end (js_slice remaining 0 shrunkEnd)
            in (rawShrunk @ fence_closer, reopen_header language @ strip_start (js_slice_from remaining shrunkEnd))))"

text \<open>One pass of the loop body: the chunk it pushes and what remains.\<close>

definition split_step :: "int \<Rightarrow> string \<Rightarrow> string \<times> string" where
  "split_step maxLen remaining =
     (let stop = find_split_point remaining maxLen;
          unclosedIdx = find_last_unclosed_fence remaining 0 stop
      in if 0 \<le> unclosedIdx then split_in_fence remaining maxLen stop unclosedIdx
         else (js_slice remaining 0 stop, strip_start (js_slice_from remaining stop)))"

partial_function (option) split_loop :: "int \<Rightarrow> string \<Rightarrow> string list option" where
  "split_loop maxLen remaining =
     (if int (length remaining) \<le> maxLen then Some (if 0 < length remaining then [remaining] else [])
      else Option.bind (split_loop maxLen (snd (split_step maxLen remaining)))
             (\<lambda>chunks. Some (fst (split_step maxLen remaining) # chunks)))"

declare split_loop.simps [code]

definition split_message :: "string \<Rightarrow> int \<Rightarrow> string list option" where
  "split_message content maxLen =
     (if content = [] then Some []
      else if maxLen \<le> 0 \<or> int (length content) \<le> maxLen then Some [content]
      else split_loop maxLen content)"

section \<open>Bounds of the scans\<close>

lemma scan_down_bounds: "scan_down P s lo i = -1 \<or> lo \<le> scan_down P s lo i \<and> scan_down P s lo i \<le> i"
proof (induction P s lo i rule: scan_down.induct)
  case (1 P s lo i)
  then show ?case by (subst (1 2 3) scan_down.simps) auto
qed

lemma find_split_point_bounds:
  assumes "0 < h"
  shows "0 < find_split_point s h \<and> find_split_point s h \<le> h"
proof -
  have "scan_down P s lo (h - 1) \<le> h" for P lo
    using scan_down_bounds [of P s lo "h - 1"] assms by auto
  then show ?thesis using assms
    by (simp add: find_split_point_def find_last_newline_in_range_def find_last_space_in_range_def Let_def)
qed

lemma scan_fences_bounds:
  "isOpen \<longrightarrow> lastOpenIdx < stop - 2 \<Longrightarrow>
   scan_fences s stop isOpen lastOpenIdx i = -1 \<or>
   scan_fences s stop isOpen lastOpenIdx i = lastOpenIdx \<or>
   i \<le> scan_fences s stop isOpen lastOpenIdx i \<and> scan_fences s stop isOpen lastOpenIdx i < stop - 2"
proof (induction s stop isOpen lastOpenIdx i rule: scan_fences.induct)
  case (1 s stop isOpen lastOpenIdx i)
  then show ?case by (subst (1 2 3 4) scan_fences.simps) (auto split: if_splits)
qed

lemma length_strip_end: "length (strip_end s) \<le> length s"
  by (metis strip_end_def length_dropWhile_le length_rev)

lemma length_strip_start: "length (strip_start s) \<le> length s"
  by (simp add: strip_start_def length_dropWhile_le)

lemma clip_in: "0 \<le> i \<Longrightarrow> i \<le> int (length xs) \<Longrightarrow> clip xs i = nat i"
  by (simp add: clip_def)

lemma js_slice_0: "0 \<le> i \<Longrightarrow> i \<le> int (length xs) \<Longrightarrow> js_slice xs 0 i = take (nat i) xs"
  by (simp add: js_slice_def clip_def)

lemma js_slice_from_in: "0 \<le> i \<Longrightarrow> i \<le> int (length xs) \<Longrightarrow> js_slice_from xs i = drop (nat i) xs"
  by (simp add: js_slice_from_def clip_in)

lemma extract_fence_language_short: "length (extract_fence_language text i) \<le> 32"
  by (simp add: extract_fence_language_def Let_def)

lemma length_fence_closer [simp]: "length fence_closer = 4"
  by (simp add: fence_closer_def)

lemma length_reopen: "int (length (reopen_header language)) = (if language \<noteq> [] then int (length language) + 4 else 4)"
  by (simp add: reopen_header_def)

lemma past_header_bounds:
  assumes "0 < stop" "stop \<le> limit" "limit \<le> int (length remaining)" "reopenLen < limit"
  shows "reopenLen < past_header remaining headerEnd reopenLen limit stop \<and>
    past_header remaining headerEnd reopenLen limit stop \<le> limit \<and>
    0 < past_header remaining headerEnd reopenLen limit stop"
  using assms by (auto simp: past_header_def)

text \<open>A k after more characters than the reopened header has makes progress.\<close>

lemma cut_in_fence:
  assumes "int (length (reopen_header language)) < k" "k \<le> limit" "limit \<le> int (length remaining)"
  shows "int (length (strip_end (js_slice remaining 0 k))) \<le> limit \<and>
    length (reopen_header language @ strip_start (js_slice_from remaining k)) < length remaining"
proof -
  have k: "0 \<le> k" "k \<le> int (length remaining)" using assms by auto
  have "length (strip_end (js_slice remaining 0 k)) \<le> nat k"
    using length_strip_end [of "take (nat k) remaining"] k by (simp add: js_slice_0)
  moreover have "length (strip_start (js_slice_from remaining k)) \<le> length remaining - nat k"
    using length_strip_start [of "drop (nat k) remaining"] k by (simp add: js_slice_from_in)
  ultimately show ?thesis using assms k by auto
qed

lemma split_in_fence_progress:
  assumes "41 \<le> maxLen" "maxLen < int (length remaining)" "0 < stop" "stop \<le> maxLen"
    and "split_in_fence remaining maxLen stop u = (chunk, rest)"
  shows "int (length chunk) \<le> maxLen \<and> length rest < length remaining"
proof -
  let ?lang = "extract_fence_language remaining u"
  let ?h = "header_end remaining u ?lang"
  let ?r = "int (length (reopen_header ?lang))"
  let ?s = "past_header remaining ?h ?r maxLen stop"
  let ?t = "past_header remaining ?h ?r (maxLen - 4) (find_split_point remaining (maxLen - 4))"
  have r: "?r \<le> 36" using extract_fence_language_short [of remaining u] by (simp add: length_reopen)
  have s: "?r < ?s \<and> ?s \<le> maxLen" using past_header_bounds [of stop maxLen remaining ?r ?h] assms r by simp
  have t: "?r < ?t \<and> ?t \<le> maxLen - 4"
    using past_header_bounds [of "find_split_point remaining (maxLen - 4)" "maxLen - 4" remaining ?r ?h]
      find_split_point_bounds [of "maxLen - 4" remaining] assms r by simp
  note ps = cut_in_fence [of ?lang ?s maxLen remaining] and pt = cut_in_fence [of ?lang ?t "maxLen - 4" remaining]
  show ?thesis using assms s t ps pt
    by (auto simp: split_in_fence_def Let_def length_reopen [symmetric] split: if_splits)
qed

lemma split_step_progress:
  assumes "41 \<le> maxLen" "maxLen < int (length remaining)"
  shows "int (length (fst (split_step maxLen remaining))) \<le> maxLen \<and>
    length (snd (split_step maxLen remaining)) < length remaining"
proof -
  let ?e = "find_split_point remaining maxLen" and ?u = "find_last_unclosed_fence remaining 0 (find_split_point remaining maxLen)"
  have e: "0 < ?e" "?e \<le> maxLen" using find_split_point_bounds [of maxLen remaining] assms by auto
  have plain: "int (length (take (nat ?e) remaining)) \<le> maxLen \<and>
      length (strip_start (drop (nat ?e) remaining)) < length remaining"
    using e assms length_strip_start [of "drop (nat ?e) remaining"] by auto
  show ?thesis
  proof (cases "0 \<le> ?u")
    case True
    obtain chunk rest where cr: "split_in_fence remaining maxLen ?e ?u = (chunk, rest)" by fastforce
    then show ?thesis using split_in_fence_progress [OF assms e cr] True by (simp add: split_step_def Let_def)
  next
    case False
    then show ?thesis using plain e assms by (simp add: split_step_def Let_def js_slice_0 js_slice_from_in)
  qed
qed

lemma split_loop_done: "int (length r) \<le> m \<Longrightarrow> split_loop m r = Some (if r \<noteq> [] then [r] else [])"
  by (subst split_loop.simps) simp

lemma split_loop_more:
  "m < int (length r) \<Longrightarrow> split_loop m r = Option.bind (split_loop m (snd (split_step m r)))
     (\<lambda>chunks. Some (fst (split_step m r) # chunks))"
  by (subst split_loop.simps) simp

lemma split_loop_ends:
  "41 \<le> maxLen \<Longrightarrow> \<exists>chunks. split_loop maxLen remaining = Some chunks \<and> (\<forall>c\<in>set chunks. int (length c) \<le> maxLen)"
proof (induction "length remaining" arbitrary: remaining rule: less_induct)
  case less
  show ?case
  proof (cases "int (length remaining) \<le> maxLen")
    case True
    then show ?thesis by (simp add: split_loop_done)
  next
    case False
    note step = split_step_progress [OF less.prems, of remaining]
    obtain chunks where "split_loop maxLen (snd (split_step maxLen remaining)) = Some chunks"
      "\<forall>c\<in>set chunks. int (length c) \<le> maxLen"
      using less.hyps [of "snd (split_step maxLen remaining)"] step False less.prems by auto
    then show ?thesis using step False by (simp add: split_loop_more)
  qed
qed

lemma split_loop_diverges:
  assumes inv: "\<And>r. I r \<Longrightarrow> m < int (length r) \<and> I (snd (split_step m r))" and start: "I r"
  shows "split_loop m r = None"
proof -
  have "m = m \<longrightarrow> \<not> I r" if "split_loop m r = Some chunks" for chunks
    using that
  proof (rule split_loop.raw_induct [where P = "\<lambda>a r _. a = m \<longrightarrow> \<not> I r", rotated])
    fix loop a r chunks
    assume ih: "\<And>a r chunks. loop a r = Some chunks \<Longrightarrow> a = m \<longrightarrow> \<not> I r"
      and body: "(if int (length r) \<le> a then Some (if 0 < length r then [r] else [])
        else Option.bind (loop a (snd (split_step a r))) (\<lambda>chunks. Some (fst (split_step a r) # chunks))) = Some chunks"
    show "a = m \<longrightarrow> \<not> I r"
    proof (intro impI notI)
      assume a: "a = m" and "I r"
      then have "m < int (length r)" "I (snd (split_step m r))" using inv by auto
      with body a ih [of m "snd (split_step m r)"] show False by (auto split: bind_splits)
    qed
  qed
  with start show ?thesis by (cases "split_loop m r") auto
qed

text \<open>The contents that make the loop run in place: a fence whose header leaves no room for the closer.\<close>

definition stuck_content :: "int \<Rightarrow> string" where
  "stuck_content m =
     (if m = 3 then [tick, tick, tick, nl, CHR ''b'']
      else [tick, tick, tick] @ replicate (nat (m - 8)) (CHR ''a'') @ [nl] @ replicate 5 (CHR ''b''))"

lemma stuck_contents_repeat:
  "list_all (\<lambda>m. m < int (length (stuck_content m)) \<and> snd (split_step m (stuck_content m)) = stuck_content m)
     (3 # [7..40])"
  by code_simp

lemma stuck_content_diverges:
  assumes "m = 3 \<or> 7 \<le> m \<and> m \<le> 40"
  shows "split_loop m (stuck_content m) = None"
proof (rule split_loop_diverges [where I = "\<lambda>r. r = stuck_content m"])
  from assms have "m \<in> set (3 # [7..40])" unfolding list.set set_upto by simp
  with stuck_contents_repeat [unfolded list_all_iff]
  have "m < int (length (stuck_content m)) \<and> snd (split_step m (stuck_content m)) = stuck_content m"
    by (rule bspec)
  then show "m < int (length r) \<and> snd (split_step m r) = stuck_content m" if "r = stuck_content m" for r
    using that by simp
qed (rule refl)

text \<open>With four to six characters the loop rebuilds a header it never gets past, and what remains
  grows.\<close>

abbreviation "bare_header \<equiv> [tick, tick, tick, nl]"

lemma index_from_skip:
  "0 \<le> i \<Longrightarrow> i < int (length s) \<Longrightarrow> s ! nat i \<noteq> c \<Longrightarrow> index_from c s i = index_from c s (i + 1)"
  by (subst index_from.simps) (simp add: char_at_def)

lemma index_from_hit:
  "0 \<le> i \<Longrightarrow> i < int (length s) \<Longrightarrow> s ! nat i = c \<Longrightarrow> index_from c s i = i"
  by (subst index_from.simps) (simp add: char_at_def)

lemma scan_down_none:
  "0 \<le> lo \<Longrightarrow> i < int (length s) \<Longrightarrow> \<forall>k. lo \<le> k \<and> k \<le> i \<longrightarrow> \<not> P (s ! nat k) \<Longrightarrow> scan_down P s lo i = -1"
proof (induction P s lo i rule: scan_down.induct)
  case (1 P s lo i)
  then show ?case by (subst scan_down.simps) (simp add: char_at_def)
qed

lemma scan_down_ge:
  assumes "0 \<le> lo" "lo \<le> k" "k \<le> i" "i < int (length s)" "P (s ! nat k)"
  shows "k \<le> scan_down P s lo i"
  using assms
proof (induction P s lo i rule: scan_down.induct)
  case (1 P s lo i)
  show ?case
  proof (cases "P (s ! nat i)")
    case True
    then show ?thesis using "1.prems" by (subst scan_down.simps) (simp add: char_at_def)
  next
    case False
    then have "k \<le> i - 1" using "1.prems" by (cases "i = k") auto
    then have "k \<le> scan_down P s lo (i - 1)" using 1 False by (auto simp: char_at_def)
    then show ?thesis using "1.prems" False by (subst scan_down.simps) (simp add: char_at_def)
  qed
qed

lemma strip_end_keeps: "\<not> blank c \<Longrightarrow> strip_end (xs @ c # ys) = xs @ c # strip_end ys"
proof -
  have "dropWhile blank (rev ys @ c # rev xs) = dropWhile blank (rev ys) @ c # rev xs" if "\<not> blank c"
    using that by (induction "rev ys" arbitrary: ys) (simp_all add: dropWhile_append)
  then show "\<not> blank c \<Longrightarrow> strip_end (xs @ c # ys) = xs @ c # strip_end ys" by (simp add: strip_end_def)
qed

lemma not_blank_tick [simp]: "\<not> blank tick"
  by (simp add: blank_def tick_def nl_def tab_def cr_def)

lemma tick_not_nl [simp]: "tick \<noteq> nl" "nl \<noteq> tick"
  by (simp_all add: tick_def nl_def)

lemma scan_fences_end: "stop - 2 \<le> i \<Longrightarrow> scan_fences s stop b l i = (if b then l else -1)"
  by (subst scan_fences.simps) simp

lemma scan_fences_skip:
  "i < stop - 2 \<Longrightarrow> char_at s i \<noteq> Some tick \<Longrightarrow> scan_fences s stop b l i = scan_fences s stop b l (i + 1)"
  by (subst scan_fences.simps) simp

lemma scan_fences_hit:
  "i < stop - 2 \<Longrightarrow> char_at s i = Some tick \<Longrightarrow> char_at s (i + 1) = Some tick \<Longrightarrow> char_at s (i + 2) = Some tick \<Longrightarrow>
   scan_fences s stop b l i = scan_fences s stop (\<not> b) (if b then l else i) (i + 3)"
  by (subst scan_fences.simps) simp

lemma bare_header_step:
  assumes m: "4 \<le> m" "m \<le> 6" and len: "m < int (length (bare_header @ s))"
  shows "\<exists>s'. snd (split_step m (bare_header @ s)) = bare_header @ s' \<and> m < int (length (bare_header @ s'))"
proof -
  let ?r = "bare_header @ s" and ?e = "find_split_point (bare_header @ s) m"
  have at3: "?r ! nat 3 = nl" by (simp add: numeral_3_eq_3)
  have "3 \<le> scan_down (\<lambda>c. c = nl) ?r 0 (m - 1)"
    using scan_down_ge [of 0 3 "m - 1" ?r "\<lambda>c. c = nl"] at3 m len by simp
  then have e3: "3 \<le> ?e" using m
    by (simp add: find_split_point_def find_last_newline_in_range_def newline_window_def Let_def)
  have em: "?e \<le> m" using find_split_point_bounds [of m ?r] m by simp
  have u: "find_last_unclosed_fence ?r 0 ?e = 0"
  proof -
    have "scan_fences ?r ?e False (-1) 0 = scan_fences ?r ?e True 0 3"
      using e3 by (subst scan_fences_hit) (simp_all add: char_at_def)
    also have "\<dots> = 0"
    proof (cases "?e - 2 \<le> 3")
      case True
      then show ?thesis by (simp add: scan_fences_end)
    next
      case False
      then have "scan_fences ?r ?e True 0 3 = scan_fences ?r ?e True 0 4"
        using at3 by (subst scan_fences_skip) (simp_all add: char_at_def)
      then show ?thesis using em m by (simp add: scan_fences_end)
    qed
    finally show ?thesis by (simp add: find_last_unclosed_fence_def)
  qed
  have "index_from nl ?r 3 = 3" using index_from_hit [of 3 ?r nl] at3 by simp
  then have lang: "extract_fence_language ?r 0 = []" and h: "header_end ?r 0 [] = 4"
    by (simp_all add: extract_fence_language_def header_end_def js_slice_def trim_ws_def trim_start_def trim_end_def)
  have big: "3 \<le> length (strip_end (js_slice ?r 0 k))" if "3 \<le> k" "k \<le> int (length ?r)" for k
  proof -
    have "js_slice ?r 0 k = [tick, tick] @ tick # take (nat k - 3) (nl # s)"
      using that by (simp add: js_slice_0 take_Cons' numeral_3_eq_3 nat_diff_distrib)
    then show ?thesis using strip_end_keeps [of tick "[tick, tick]"] by simp
  qed
  let ?p = "past_header ?r 4 4 m ?e" and ?limit = "m - 4"
  have p: "3 \<le> ?p" "?p \<le> int (length ?r)" using e3 em m len by (auto simp: past_header_def)
  have "\<not> int (length (strip_end (js_slice ?r 0 ?p) @ fence_closer)) \<le> m" using big [OF p] m by simp
  moreover have "find_split_point ?r ?limit = ?limit"
  proof -
    have "?r ! nat k = tick" if "0 \<le> k" "k \<le> ?limit - 1" for k
      using that m by (auto simp: nth_Cons' nat_eq_iff2 eval_nat_numeral)
    then have "scan_down P ?r lo (?limit - 1) = -1" if "\<not> P tick" "0 \<le> lo" for P lo
      using that m by (intro scan_down_none) auto
    then show ?thesis
      by (simp add: find_split_point_def find_last_newline_in_range_def find_last_space_in_range_def Let_def)
        (simp add: tick_def tab_def)
  qed
  moreover have "past_header ?r 4 4 ?limit ?limit = ?limit" using m len by (simp add: past_header_def)
  moreover have "strip_start (js_slice_from ?r ?limit) = drop (nat ?limit) ?r"
  proof -
    from m consider "m = 4" | "m = 5" | "m = 6" by linarith
    then have "\<exists>t. drop (nat ?limit) ?r = tick # t" by cases (simp_all add: numeral_2_eq_2)
    then show ?thesis using m len by (auto simp: js_slice_from_in strip_start_def)
  qed
  ultimately have "snd (split_step m ?r) = bare_header @ drop (nat ?limit) ?r"
    using u lang h by (simp add: split_step_def split_in_fence_def Let_def reopen_header_def)
  then show ?thesis using m len by (intro exI [of _ "drop (nat ?limit) ?r"]) simp
qed

lemma bare_header_diverges:
  assumes "4 \<le> m" "m \<le> 6" "m < int (length (bare_header @ s))"
  shows "split_loop m (bare_header @ s) = None"
proof (rule split_loop_diverges [where I = "\<lambda>r. \<exists>s. r = bare_header @ s \<and> m < int (length r)"])
  show "m < int (length r) \<and> (\<exists>s. snd (split_step m r) = bare_header @ s \<and> m < int (length (snd (split_step m r))))"
    if r: "\<exists>s. r = bare_header @ s \<and> m < int (length r)" for r
  proof -
    from r obtain s where s: "r = bare_header @ s" "m < int (length r)" by blast
    from bare_header_step [OF assms(1,2), of s] s show ?thesis by auto
  qed
qed (use assms in blast)

text \<open>A limit of one or two characters never sees a fence, so every cut makes progress.\<close>

lemma no_fence_step:
  assumes "0 < m" "m < int (length r)" "find_last_unclosed_fence r 0 (find_split_point r m) < 0"
  shows "split_step m r = (take (nat (find_split_point r m)) r, strip_start (drop (nat (find_split_point r m)) r))"
  using assms find_split_point_bounds [of m r] by (simp add: split_step_def Let_def js_slice_0 js_slice_from_in)

lemma tiny_split_ends:
  assumes "0 < m" "m \<le> 2"
  shows "split_loop m r \<noteq> None"
proof (induction "length r" arbitrary: r rule: less_induct)
  case less
  show ?case
  proof (cases "int (length r) \<le> m")
    case True
    then show ?thesis by (simp add: split_loop_done)
  next
    case False
    let ?e = "find_split_point r m"
    have e: "0 < ?e" "?e \<le> m" using find_split_point_bounds [of m r] assms by auto
    then have "find_last_unclosed_fence r 0 ?e = -1"
      using assms by (simp add: find_last_unclosed_fence_def scan_fences_end)
    then have "snd (split_step m r) = strip_start (drop (nat ?e) r)"
      using no_fence_step [of m r] assms False by simp
    then have "length (snd (split_step m r)) < length r"
      using length_strip_start [of "drop (nat ?e) r"] e False assms by auto
    from less [OF this] False show ?thesis by (auto simp: split_loop_more)
  qed
qed

lemma exists_diverging:
  assumes "3 \<le> m" "m \<le> 40"
  shows "\<exists>s. m < int (length s) \<and> s \<noteq> [] \<and> split_loop m s = None"
proof (cases "4 \<le> m \<and> m \<le> 6")
  case True
  then show ?thesis
    by (intro exI [of _ "bare_header @ ''bbb''"]) (simp add: bare_header_diverges [of m "''bbb''", simplified])
next
  case False
  with assms have "m = 3 \<or> 7 \<le> m \<and> m \<le> 40" by auto
  moreover from this have "m < int (length (stuck_content m))" "stuck_content m \<noteq> []"
    by (auto simp: stuck_content_def)
  ultimately show ?thesis using stuck_content_diverges by blast
qed

section \<open>Properties\<close>

text \<open>C18: the loop of \<open>splitMessage\<close> ends for every content exactly when the limit leaves room for
  the longest reopened header and the closer (41 characters), or is too small to see a fence; for
  every limit from 3 to 40 there is a content on which it runs forever.\<close>

theorem split_message_ends_iff:
  "(\<forall>content. split_message content maxLen \<noteq> None) \<longleftrightarrow> maxLen \<le> 2 \<or> 41 \<le> maxLen"
proof
  assume ends: "\<forall>content. split_message content maxLen \<noteq> None"
  show "maxLen \<le> 2 \<or> 41 \<le> maxLen"
  proof (rule ccontr)
    assume "\<not> (maxLen \<le> 2 \<or> 41 \<le> maxLen)"
    then obtain s where "maxLen < int (length s)" "s \<noteq> []" "split_loop maxLen s = None" "0 < maxLen"
      using exists_diverging [of maxLen] by auto
    then have "split_message s maxLen = None" by (simp add: split_message_def)
    with ends show False by blast
  qed
next
  assume "maxLen \<le> 2 \<or> 41 \<le> maxLen"
  then show "\<forall>content. split_message content maxLen \<noteq> None"
    using tiny_split_ends [of maxLen] split_loop_ends [of maxLen] by (fastforce simp: split_message_def)
qed

text \<open>Without a fence in the content no cut is ever inside one.\<close>

lemma no_fence_scan:
  assumes "\<not> sublist [tick, tick, tick] s" "0 \<le> i" "stop \<le> int (length s)"
  shows "scan_fences s stop False l i = -1"
  using assms
proof (induction s stop False l i rule: scan_fences.induct)
  case (1 s stop l i)
  have "\<not> (char_at s i = Some tick \<and> char_at s (i + 1) = Some tick \<and> char_at s (i + 2) = Some tick)"
    if "i < stop - 2"
  proof
    assume t: "char_at s i = Some tick \<and> char_at s (i + 1) = Some tick \<and> char_at s (i + 2) = Some tick"
    let ?k = "nat i"
    have k: "?k + 2 < length s" using that 1 by auto
    have nth: "s ! ?k = tick" "s ! Suc ?k = tick" "s ! Suc (Suc ?k) = tick"
      using t that 1 by (auto simp: char_at_def nat_add_distrib split: if_splits)
    have "drop ?k s = [tick, tick, tick] @ drop (?k + 3) s"
      using k nth by (simp add: Cons_nth_drop_Suc [symmetric] eval_nat_numeral)
    then have "s = take ?k s @ [tick, tick, tick] @ drop (?k + 3) s" by (metis append_take_drop_id)
    then have "sublist [tick, tick, tick] s" unfolding sublist_def by blast
    with 1 show False by simp
  qed
  with 1 show ?case by (cases "i < stop - 2") (auto simp: scan_fences.simps [of s stop False l i])
qed

lemma strip_start_split: "\<exists>ws. s = ws @ strip_start s \<and> filter (\<lambda>c. \<not> blank c) ws = []"
  by (intro exI [of _ "takeWhile blank s"]) (auto simp: strip_start_def filter_empty_conv dest: set_takeWhileD)

lemma split_loop_text:
  assumes "0 < m" "\<not> sublist [tick, tick, tick] r"
  shows "\<exists>chunks. split_loop m r = Some chunks \<and> subseq (concat chunks) r \<and>
    filter (\<lambda>c. \<not> blank c) (concat chunks) = filter (\<lambda>c. \<not> blank c) r \<and> (\<forall>c\<in>set chunks. int (length c) \<le> m)"
  using assms
proof (induction "length r" arbitrary: r rule: less_induct)
  case less
  show ?case
  proof (cases "int (length r) \<le> m")
    case True
    then show ?thesis by (simp add: split_loop_done)
  next
    case False
    let ?e = "find_split_point r m"
    have e: "0 < ?e" "?e \<le> m" using find_split_point_bounds [of m r] less.prems by auto
    have "find_last_unclosed_fence r 0 ?e = -1"
      using no_fence_scan [OF less.prems(2)] e False by (simp add: find_last_unclosed_fence_def)
    then have step: "split_step m r = (take (nat ?e) r, strip_start (drop (nat ?e) r))"
      using no_fence_step [of m r] less.prems False by simp
    obtain ws where ws: "drop (nat ?e) r = ws @ strip_start (drop (nat ?e) r)"
      and blanks: "filter (\<lambda>c. \<not> blank c) ws = []" using strip_start_split by blast
    let ?r' = "strip_start (drop (nat ?e) r)"
    have r: "r = take (nat ?e) r @ ws @ ?r'" using ws by (metis append_take_drop_id)
    have "\<not> sublist [tick, tick, tick] ?r'"
      using less.prems(2) r by (metis sublist_appendI sublist_order.order_trans append_Nil2 append.assoc)
    moreover have "length ?r' < length r"
      using length_strip_start [of "drop (nat ?e) r"] e False less.prems by auto
    ultimately obtain chunks where ih: "split_loop m ?r' = Some chunks" "subseq (concat chunks) ?r'"
      "filter (\<lambda>c. \<not> blank c) (concat chunks) = filter (\<lambda>c. \<not> blank c) ?r'" "\<forall>c\<in>set chunks. int (length c) \<le> m"
      using less by blast
    have "subseq (take (nat ?e) r @ concat chunks) (take (nat ?e) r @ ws @ ?r')"
      by (intro list_emb_append_mono subseq_order.order_refl list_emb_append2 ih(2))
    moreover have "filter (\<lambda>c. \<not> blank c) (take (nat ?e) r @ concat chunks) = filter (\<lambda>c. \<not> blank c) r"
      by (subst r) (simp add: ih(3) blanks)
    ultimately show ?thesis using ih False step e r by (simp add: split_loop_more)
  qed
qed

text \<open>With such a limit every chunk fits it, closers and reopened headers included; and for a
  content without code fences the chunks are the content, in order, less white space at the cuts,
  whatever the limit.\<close>

theorem split_message_keeps_text:
  assumes "0 < maxLen" "41 \<le> maxLen \<or> \<not> sublist ''```'' content"
  shows "\<exists>chunks. split_message content maxLen = Some chunks \<and> (\<forall>c\<in>set chunks. int (length c) \<le> maxLen) \<and>
    (\<not> sublist ''```'' content \<longrightarrow>
       subseq (concat chunks) content \<and>
       filter (\<lambda>c. \<not> blank c) (concat chunks) = filter (\<lambda>c. \<not> blank c) content)"
proof (cases "content = [] \<or> int (length content) \<le> maxLen")
  case True
  then show ?thesis using assms(1) by (auto simp: split_message_def)
next
  case False
  then have split: "split_message content maxLen = split_loop maxLen content"
    using assms(1) by (simp add: split_message_def)
  have ticks: "''```'' = [tick, tick, tick]" by (simp add: tick_def)
  show ?thesis
    using assms split_loop_ends [of maxLen content] split_loop_text [of maxLen content]
    unfolding split ticks by blast
qed

theorem split_message_keeps_text_witness:
  "\<exists>chunks. split_message (replicate 60 (CHR ''a'')) safe_split_length = Some chunks \<and>
     (\<forall>c\<in>set chunks. int (length c) \<le> safe_split_length)"
  using split_message_keeps_text [of safe_split_length "replicate 60 (CHR ''a'')"]
  by (auto simp: safe_split_length_def)

lemma scan_fences_skip_to:
  "0 \<le> i \<Longrightarrow> i \<le> k \<Longrightarrow> k \<le> stop - 2 \<Longrightarrow> \<forall>j. i \<le> j \<and> j < k \<longrightarrow> char_at s j \<noteq> Some tick \<Longrightarrow>
   scan_fences s stop b l i = scan_fences s stop b l k"
proof (induction "nat (k - i)" arbitrary: i)
  case 0
  then show ?case by simp
next
  case (Suc n)
  then have "scan_fences s stop b l i = scan_fences s stop b l (i + 1)"
    by (intro scan_fences_skip) auto
  with Suc show ?case by simp
qed

lemma char_at_append: "char_at (xs @ ys) i =
    (if i < int (length xs) then char_at xs i else char_at ys (i - int (length xs)))"
  by (auto simp: char_at_def nth_append nat_diff_distrib)

text \<open>A fence that opens just in front of the limit is cut apart. The first chunk ends with an
  empty fence, and its language, which the header of the next chunk repeats, becomes a line of the
  code. (The room for the closer is made by a cut four characters earlier, which falls between the
  three ticks and the language.)\<close>

theorem fence_header_leaks:
  assumes m: "int (length t) + 7 = maxLen" and body: "2 \<le> length body"
    and t: "\<forall>c\<in>set t. \<not> blank c \<and> c \<noteq> CHR 0x60"
  shows "split_step maxLen (t @ ''```js'' @ [nl] @ body) =
     (t @ ''```'' @ fence_closer, ''```js'' @ [nl] @ ''js'' @ [nl] @ body)"
proof -
  let ?n = "int (length t)" and ?h = "[tick, tick, tick, CHR ''j'', CHR ''s'', nl]"
  let ?r = "t @ ?h @ body" and ?e = "find_split_point (t @ ?h @ body) maxLen"
  have ticks: "''```'' = [tick, tick, tick]" "''```js'' = [tick, tick, tick, CHR ''j'', CHR ''s'']"
    by (simp_all add: tick_def)
  have nth_t: "\<not> blank (?r ! nat i)" "?r ! nat i \<noteq> tick" if "0 \<le> i" "i < ?n" for i
    using that t by (auto simp: nth_append nat_less_iff tick_def)
  have nth_h: "?r ! nat (?n + i) = (?h @ body) ! nat i" if "0 \<le> i" for i
    using that by (simp add: nat_add_distrib)
  have jn: "CHR ''j'' \<noteq> nl" "CHR ''s'' \<noteq> nl" "CHR ''j'' \<noteq> tick" "\<not> blank (CHR ''s'')"
    by (simp_all add: nl_def tick_def blank_def tab_def cr_def)
  have "?n + 5 \<le> scan_down (\<lambda>c. c = nl) ?r lo (maxLen - 1)" if "0 \<le> lo" "lo \<le> ?n + 5" for lo
    using scan_down_ge [of lo "?n + 5" "maxLen - 1" ?r "\<lambda>c. c = nl"] nth_h [of 5] that m body by simp
  then have lower: "?n + 5 \<le> find_last_newline_in_range ?r 0 maxLen newline_window"
    using m by (simp add: find_last_newline_in_range_def newline_window_def)
  moreover have "find_last_newline_in_range ?r 0 maxLen newline_window \<le> ?n + 6"
    using scan_down_bounds [of "\<lambda>c. c = nl" ?r "max (maxLen - newline_window) 0" "maxLen - 1"] m
    by (auto simp: find_last_newline_in_range_def)
  ultimately have e: "?n + 5 \<le> ?e" "?e \<le> ?n + 6" by (simp_all add: find_split_point_def Let_def)
  have u: "find_last_unclosed_fence ?r 0 ?e = ?n"
  proof -
    have "scan_fences ?r ?e False (-1) 0 = scan_fences ?r ?e False (-1) ?n"
      using e nth_t by (intro scan_fences_skip_to) (auto simp: char_at_def)
    also have "\<dots> = scan_fences ?r ?e True ?n (?n + 3)"
      using e by (subst scan_fences_hit) (simp_all add: char_at_append, simp_all add: char_at_def)
    also have "\<dots> = ?n"
    proof (cases "?e = ?n + 5")
      case True
      then show ?thesis by (simp add: scan_fences_end)
    next
      case False
      then have "?e = ?n + 6" using e by simp
      then show ?thesis using nth_h [of 3] jn
        by (subst scan_fences_skip) (simp_all add: char_at_def scan_fences_end)
    qed
    finally show ?thesis by (simp add: find_last_unclosed_fence_def)
  qed
  have "index_from nl ?r (?n + 3) = index_from nl ?r (?n + 4)"
    using nth_h [of 3] jn index_from_skip [of "?n + 3" ?r nl] by (simp add: add.commute)
  also have "\<dots> = index_from nl ?r (?n + 5)"
    using nth_h [of 4] jn index_from_skip [of "?n + 4" ?r nl] by (simp add: add.commute)
  also have "\<dots> = ?n + 5" using nth_h [of 5] index_from_hit [of "?n + 5" ?r nl] by simp
  finally have ix: "index_from nl ?r (?n + 3) = ?n + 5" .
  have "js_slice ?r (?n + 3) (?n + 5) = ''js''"
    by (simp add: js_slice_def clip_def nat_add_distrib)
  moreover have "trim_ws ''js'' = ''js''" by code_simp
  ultimately have lang: "extract_fence_language ?r ?n = ''js''" and h: "header_end ?r ?n ''js'' = ?n + 6"
    using ix by (simp_all add: extract_fence_language_def header_end_def)
  have p1: "past_header ?r (?n + 6) 6 maxLen ?e = maxLen" using e m body by (simp add: past_header_def)
  obtain b body' where b: "body = b # body'" using body by (cases body) auto
  have "js_slice ?r 0 maxLen = (t @ [tick, tick, tick, CHR ''j'']) @ CHR ''s'' # [nl, b]"
  proof -
    have "nat maxLen = length t + 7" using m by simp
    then show ?thesis using m b by (simp add: js_slice_0)
  qed
  then have "?n + 5 \<le> int (length (strip_end (js_slice ?r 0 maxLen)))"
    using strip_end_keeps [OF jn(4), of "t @ [tick, tick, tick, CHR ''j'']"] by simp
  then have long: "\<not> int (length (strip_end (js_slice ?r 0 maxLen) @ fence_closer)) \<le> maxLen" using m by simp
  have none: "\<not> P (?r ! nat i)" if "\<not> P tick" "\<forall>c\<in>set t. \<not> P c" "0 \<le> i" "i < ?n + 3" for P i
  proof (cases "i < ?n")
    case True
    then show ?thesis using that by (simp add: nth_append nat_less_iff)
  next
    case False
    with that consider "i = ?n" | "i = ?n + 1" | "i = ?n + 2" by linarith
    then show ?thesis using nth_h [of "i - ?n"] that by cases simp_all
  qed
  have scan: "scan_down P ?r lo (2 + ?n) = -1" if "\<not> P tick" "\<forall>c\<in>set t. \<not> P c" "0 \<le> lo" for P lo
    using that none [of P] by (intro scan_down_none) auto
  have gaps: "\<not> tick = nl" "\<forall>c\<in>set t. \<not> c = nl" "\<not> (tick = CHR '' '' \<or> tick = tab)"
      "\<forall>c\<in>set t. \<not> (c = CHR '' '' \<or> c = tab)"
    using t by (simp_all add: blank_def) (simp add: tick_def tab_def)
  note s1 = scan [of "\<lambda>c. c = nl", OF gaps(1,2)]
    and s2 = scan [of "\<lambda>c. c = CHR '' '' \<or> c = tab", OF gaps(3,4)]
  have f: "find_split_point ?r (?n + 3) = ?n + 3"
    unfolding find_split_point_def find_last_newline_in_range_def find_last_space_in_range_def Let_def
    using s1 s2 by (simp del: append.simps)
  have p2: "past_header ?r (?n + 6) 6 (maxLen - 4) (find_split_point ?r (maxLen - 4)) = ?n + 3"
  proof -
    have "maxLen - 4 = ?n + 3" using m by simp
    then show ?thesis unfolding past_header_def \<open>maxLen - 4 = ?n + 3\<close> f using body by simp
  qed
  have raw: "js_slice ?r 0 (?n + 3) = t @ [tick, tick, tick]" "js_slice_from ?r (?n + 3) = ''js'' @ [nl] @ body"
    by (simp_all add: js_slice_0 js_slice_from_in nat_add_distrib)
  have strips: "strip_end (t @ [tick, tick, tick]) = t @ [tick, tick, tick]"
      "strip_start (''js'' @ [nl] @ body) = ''js'' @ [nl] @ body"
    using strip_end_keeps [OF not_blank_tick, of "t @ [tick, tick]" "[]"] jn
    by (simp_all add: strip_start_def) (simp_all add: strip_end_def blank_def nl_def tab_def cr_def)
  have "split_in_fence ?r maxLen ?e ?n =
      (t @ [tick, tick, tick] @ fence_closer, reopen_header ''js'' @ ''js'' @ [nl] @ body)"
    using long unfolding split_in_fence_def Let_def lang h by (simp add: p1 p2 raw strips del: append_Cons)
  then show ?thesis unfolding ticks using u by (simp add: split_step_def Let_def reopen_header_def)
qed

theorem fence_header_leaks_witness:
  "split_step 3500 (replicate 3493 (CHR ''a'') @ ''```js'' @ [nl] @ ''x = 1;'') =
     (replicate 3493 (CHR ''a'') @ ''```'' @ fence_closer, ''```js'' @ [nl] @ ''js'' @ [nl] @ ''x = 1;'')"
  by (rule fence_header_leaks) (simp_all add: blank_def nl_def tab_def cr_def)

end
