(* ===== verification/JsText.thy ===== *)
theory JsText
  imports JsNumber
begin

text \<open>
  Reading text the way JavaScript does: \<open>String.prototype.split\<close> on one character, \<open>Number(s)\<close>,
  \<open>parseInt(s, 16)\<close> and the hexadecimal rendering of a number. A number that is not finite
  (\<open>NaN\<close> or an infinity) is \<open>None\<close>; the sources only ask whether a number is finite or take
  its low 32 bits, where both count as zero.
\<close>

section \<open>Splitting\<close>

fun split_on :: "char \<Rightarrow> string \<Rightarrow> string list" where
  "split_on c [] = [[]]"
| "split_on c (x # xs) =
     (if x = c then [] # split_on c xs
      else (case split_on c xs of [] \<Rightarrow> [[x]] | w # ws \<Rightarrow> (x # w) # ws))"

lemma split_on_not_Nil [simp]: "split_on c s \<noteq> []"
  by (induction s) (auto split: list.splits)

lemma split_on_none: "c \<notin> set s \<Longrightarrow> split_on c s = [s]"
  by (induction s) auto

lemma split_on_sep: "c \<notin> set s \<Longrightarrow> split_on c (s @ c # t) = s # split_on c t"
  by (induction s) auto

section \<open>Digits\<close>

definition is_digit :: "char \<Rightarrow> bool" where
  "is_digit c = (48 \<le> (of_char c :: nat) \<and> (of_char c :: nat) \<le> 57)"

definition digit_val :: "char \<Rightarrow> nat" where
  "digit_val c = of_char c - 48"

definition read_nat :: "string \<Rightarrow> nat" where
  "read_nat s = foldl (\<lambda>a c. 10 * a + digit_val c) 0 s"

definition hex_val :: "char \<Rightarrow> nat option" where
  "hex_val c =
     (let k = (of_char c :: nat) in
      if 48 \<le> k \<and> k \<le> 57 then Some (k - 48)
      else if 97 \<le> k \<and> k \<le> 102 then Some (k - 87)
      else if 65 \<le> k \<and> k \<le> 70 then Some (k - 55) else None)"

definition read_base :: "nat \<Rightarrow> string \<Rightarrow> nat" where
  "read_base b s = foldl (\<lambda>a c. b * a + (case hex_val c of None \<Rightarrow> 0 | Some d \<Rightarrow> d)) 0 s"

definition in_base :: "nat \<Rightarrow> char \<Rightarrow> bool" where
  "in_base b c = (case hex_val c of None \<Rightarrow> False | Some d \<Rightarrow> d < b)"

section \<open>\<open>Number(s)\<close>\<close>

text \<open>Decimal literals without a sign.\<close>

definition exponent_part :: "string \<Rightarrow> int option" where
  "exponent_part s =
     (case s of
        [] \<Rightarrow> Some 0
      | e # t \<Rightarrow>
          if e = CHR ''e'' \<or> e = CHR ''E'' then
            (case t of
               [] \<Rightarrow> None
             | x # u \<Rightarrow>
                 (let ds = (if x = CHR ''+'' \<or> x = CHR ''-'' then u else t)
                  in if ds = [] \<or> \<not> list_all is_digit ds then None
                     else Some (if x = CHR ''-'' then - int (read_nat ds) else int (read_nat ds))))
          else None)"

definition decimal_literal :: "string \<Rightarrow> rat option" where
  "decimal_literal s =
     (let whole = takeWhile is_digit s; r = dropWhile is_digit s;
          (frac, rest) = (case r of
             [] \<Rightarrow> ([], [])
           | x # t \<Rightarrow> if x = CHR ''.'' then (takeWhile is_digit t, dropWhile is_digit t) else ([], r))
      in if whole = [] \<and> frac = [] then None
         else (case exponent_part rest of
                 None \<Rightarrow> None
               | Some e \<Rightarrow> Some ((of_nat (read_nat whole) + of_nat (read_nat frac) / 10 ^ length frac) * 10 powi e)))"

definition radix_literal :: "nat \<Rightarrow> string \<Rightarrow> rat option" where
  "radix_literal b s = (if s = [] \<or> \<not> list_all (in_base b) s then None else Some (of_nat (read_base b s)))"

text \<open>The largest value that does not round to infinity is just below \<open>2 ^ 1024 - 2 ^ 970\<close>.\<close>

definition double_limit :: rat where
  "double_limit = 2 ^ 1024 - 2 ^ 970"

definition to_double :: "rat \<Rightarrow> rat option" where
  "to_double q = (if double_limit \<le> \<bar>q\<bar> then None else Some (rnd q))"

lemma double_limit_big: "2 ^ 53 < double_limit"
proof -
  have "(2 :: rat) ^ 971 \<le> 2 ^ 1024" by (rule power_increasing) simp_all
  moreover have "(2 :: rat) ^ 971 = 2 * 2 ^ 970" using power_Suc [of "2 :: rat" 970] by (simp only: eval_nat_numeral)
  moreover have "(2 :: rat) ^ 53 < 2 ^ 970" by (rule power_strict_increasing) simp_all
  ultimately show ?thesis unfolding double_limit_def by linarith
qed

definition js_number :: "string \<Rightarrow> rat option" where
  "js_number s =
     (case trim_ws s of
        [] \<Rightarrow> Some 0
      | x # u \<Rightarrow>
          Option.bind
            (if x = CHR ''-'' then map_option uminus (decimal_literal u)
             else if x = CHR ''+'' then decimal_literal u
             else if x = CHR ''0'' \<and> u \<noteq> [] \<and> to_lower [hd u] = ''x'' then radix_literal 16 (tl u)
             else if x = CHR ''0'' \<and> u \<noteq> [] \<and> to_lower [hd u] = ''o'' then radix_literal 8 (tl u)
             else if x = CHR ''0'' \<and> u \<noteq> [] \<and> to_lower [hd u] = ''b'' then radix_literal 2 (tl u)
             else decimal_literal (x # u))
            to_double)"

text \<open>\<open>ToInt32\<close> keeps the integral part modulo \<open>2 ^ 32\<close>; its input here is an integer already.\<close>

definition js_trunc :: "rat option \<Rightarrow> int" where
  "js_trunc q = (case q of None \<Rightarrow> 0 | Some x \<Rightarrow> if 0 \<le> x then \<lfloor>x\<rfloor> else \<lceil>x\<rceil>)"

section \<open>\<open>parseInt(s, 16)\<close>\<close>

definition parse_hex :: "string \<Rightarrow> int option" where
  "parse_hex s =
     (let t = trim_start s;
          neg = (t \<noteq> [] \<and> hd t = CHR ''-'');
          u = (if t \<noteq> [] \<and> (hd t = CHR ''-'' \<or> hd t = CHR ''+'') then tl t else t);
          v = (if starts_with (to_lower u) ''0x'' then drop 2 u else u);
          ds = takeWhile (in_base 16) v
      in if ds = [] then None else Some ((if neg then -1 else 1) * int (read_base 16 ds)))"

section \<open>Rendering\<close>

definition hex_char :: "nat \<Rightarrow> char" where
  "hex_char d = (if d < 10 then char_of (48 + d) else char_of (87 + d))"

text \<open>\<open>n.toString(16)\<close>.\<close>

fun show_hex :: "nat \<Rightarrow> string" where
  "show_hex n = (if n < 16 then [hex_char n] else show_hex (n div 16) @ [hex_char (n mod 16)])"

declare show_hex.simps [simp del]

section \<open>Round trips\<close>

lemma digit_char_facts:
  "d < 10 \<Longrightarrow> is_digit (digit_char d) \<and> digit_val (digit_char d) = d \<and> in_base 16 (digit_char d)"
  by (simp add: is_digit_def digit_val_def digit_char_def in_base_def hex_val_def Let_def of_char_of take_bit_nat_eq_self)

lemma show_nat_digits: "list_all is_digit (show_nat n)"
proof (induction n rule: show_nat.induct)
  case (1 n)
  then show ?case by (subst show_nat.simps) (simp add: digit_char_facts)
qed

lemma read_nat_append: "read_nat (s @ [c]) = 10 * read_nat s + digit_val c"
  by (simp add: read_nat_def)

lemma read_nat_show_nat: "read_nat (show_nat n) = n"
proof (induction n rule: show_nat.induct)
  case (1 n)
  show ?case
  proof (cases "n < 10")
    case True
    then show ?thesis by (simp add: show_nat_small read_nat_def digit_char_facts)
  next
    case False
    then show ?thesis using 1 by (simp add: show_nat_step read_nat_append digit_char_facts)
  qed
qed

lemma digit_not:
  assumes "is_digit c"
  shows "\<not> is_space c" "c \<noteq> CHR ''-''" "c \<noteq> CHR ''+''" "c \<noteq> CHR ''.''" "c \<noteq> CHR '':''" "c \<noteq> CHR '',''"
    "to_lower [c] \<noteq> ''x''" "to_lower [c] \<noteq> ''o''" "to_lower [c] \<noteq> ''b''"
  using assms by (auto simp: is_digit_def is_space_def to_lower_def lower_char_def)

lemma trim_solid: "\<forall>c\<in>set s. \<not> is_space c \<Longrightarrow> trim_ws s = s"
proof -
  assume s: "\<forall>c\<in>set s. \<not> is_space c"
  have "dropWhile is_space xs = xs" if "\<forall>c\<in>set xs. \<not> is_space c" for xs
    using that by (cases xs) auto
  from this [of s] this [of "rev s"] s show ?thesis
    by (simp add: trim_ws_def trim_start_def trim_end_def)
qed

lemma trim_digits: "list_all is_digit s \<Longrightarrow> trim_ws s = s"
  using digit_not(1) by (intro trim_solid) (auto simp: list_all_iff)

lemma decimal_digits:
  assumes "s \<noteq> []" "list_all is_digit s"
  shows "decimal_literal s = Some (of_nat (read_nat s))"
proof -
  have digits: "takeWhile is_digit s = s" "dropWhile is_digit s = []"
    using assms(2) by (simp_all add: list_all_iff takeWhile_eq_all_conv dropWhile_eq_Nil_conv)
  show ?thesis using assms(1)
    unfolding decimal_literal_def digits by (simp add: exponent_part_def read_nat_def)
qed

lemma js_number_show_nat:
  assumes "n < 2 ^ 53"
  shows "js_number (show_nat n) = Some (of_nat n)"
proof -
  let ?s = "show_nat n"
  obtain x u where s: "?s = x # u" by (cases ?s) auto
  have d: "is_digit x" "list_all is_digit u" using show_nat_digits [of n] s by auto
  then have "u \<noteq> [] \<Longrightarrow> to_lower [hd u] \<noteq> ''x'' \<and> to_lower [hd u] \<noteq> ''o'' \<and> to_lower [hd u] \<noteq> ''b''"
    using digit_not by (cases u) auto
  then have "js_number ?s = Option.bind (decimal_literal ?s) to_double"
    using digit_not(2,3) [OF d(1)] trim_digits [OF show_nat_digits, of n] s by (auto simp: js_number_def)
  also have "\<dots> = to_double (of_nat n)"
    using decimal_digits [OF _ show_nat_digits, of n] by (simp add: read_nat_show_nat)
  also have "\<dots> = Some (of_nat n)"
  proof -
    have "int n < 2 ^ 53" using assms by simp
    then have "rnd (of_nat n) = of_nat n" using rnd_int_exact [of "int n"] by simp
    moreover have "(of_nat n :: rat) < of_nat (2 ^ 53)" using assms by (simp only: of_nat_less_iff)
    ultimately show ?thesis using double_limit_big by (simp add: to_double_def)
  qed
  finally show ?thesis .
qed

lemma hex_char_facts: "d < 16 \<Longrightarrow> hex_val (hex_char d) = Some d"
  by (auto simp: hex_char_def hex_val_def Let_def of_char_of take_bit_nat_eq_self)


text \<open>Hexadecimal digits survive the lower-casing and the tests in front of them.\<close>

definition plain_hex :: "char \<Rightarrow> bool" where
  "plain_hex c = (in_base 16 c \<and> lower_char c = c)"

lemma plain_hex_not:
  assumes "plain_hex c"
  shows "\<not> is_space c" "c \<noteq> CHR '':''" "c \<noteq> CHR ''.''" "c \<noteq> CHR ''-''" "c \<noteq> CHR ''+''" "c \<noteq> CHR ''x''"
proof -
  have "hex_val c = None" if "is_space c"
    using that unfolding is_space_def by (elim insertE emptyE) (simp_all add: hex_val_def Let_def)
  then show "\<not> is_space c" using assms by (auto simp: plain_hex_def in_base_def)
  have "\<not> list_ex plain_hex ['':'' ! 0, ''.'' ! 0, ''-'' ! 0, ''+'' ! 0, ''x'' ! 0]" by code_simp
  then show "c \<noteq> CHR '':''" "c \<noteq> CHR ''.''" "c \<noteq> CHR ''-''" "c \<noteq> CHR ''+''" "c \<noteq> CHR ''x''"
    using assms by auto
qed

lemma plain_hex_char: "d < 16 \<Longrightarrow> plain_hex (hex_char d)"
  by (auto simp: plain_hex_def in_base_def hex_char_def hex_val_def lower_char_def Let_def of_char_of
      take_bit_nat_eq_self)

lemma show_hex_plain: "\<forall>c\<in>set (show_hex n). plain_hex c"
proof (induction n rule: show_hex.induct)
  case (1 n)
  then show ?case by (subst show_hex.simps) (simp add: plain_hex_char)
qed

lemma show_hex_not_Nil [simp]: "show_hex n \<noteq> []"
  by (subst show_hex.simps) simp

lemma read_show_hex: "read_base 16 (show_hex n) = n"
proof (induction n rule: show_hex.induct)
  case (1 n)
  then show ?case
    by (subst show_hex.simps) (auto simp: read_base_def hex_char_facts)
qed

lemma parse_show_hex: "parse_hex (show_hex n) = Some (int n)"
proof -
  let ?s = "show_hex n"
  have solid: "\<forall>c\<in>set ?s. \<not> is_space c \<and> c \<noteq> CHR ''-'' \<and> c \<noteq> CHR ''+'' \<and> c \<noteq> CHR ''x'' \<and> lower_char c = c \<and> in_base 16 c"
    using show_hex_plain [of n] plain_hex_not by (auto simp: plain_hex_def)
  obtain x u where s: "?s = x # u" by (cases ?s) auto
  have "trim_start ?s = ?s" using solid s by (simp add: trim_start_def)
  moreover have "to_lower ?s = ?s" using solid by (simp add: to_lower_def map_idI)
  moreover have "\<not> starts_with ?s ''0x''" using solid s by (cases u) (auto simp: starts_with_def)
  moreover have digits: "takeWhile (in_base 16) ?s = ?s" using solid by (simp add: takeWhile_eq_all_conv)
  moreover have "hd ?s \<noteq> CHR ''-''" "hd ?s \<noteq> CHR ''+''" using solid s by auto
  ultimately show ?thesis unfolding parse_hex_def Let_def by (simp add: read_show_hex digits)
qed

end
