(* ===== verification/SsrfProtection.thy ===== *)
theory SsrfProtection
  imports JsText "HOL-Library.Word"
begin

unbundle bit_operations_syntax

text \<open>
  The guard in front of every outgoing request
  (\<open>packages/api/src/engine/tools/web/ssrf-protection.ts\<close>). The URL parser of the platform, the
  name lookup and the environment variables are fields of an environment; addresses are 32-bit
  words, as the bit operators of JavaScript make them.
\<close>

section \<open>Addresses\<close>

type_synonym ipv4 = "32 word"

definition octet_word :: "string list \<Rightarrow> nat \<Rightarrow> ipv4" where
  "octet_word parts i = (if i < length parts then of_int (js_trunc (js_number (parts ! i))) else 0)"

definition ipv4_to_number :: "string \<Rightarrow> ipv4" where
  "ipv4_to_number ip =
     (let parts = split_on (CHR ''.'') ip
      in push_bit 24 (octet_word parts 0) OR push_bit 16 (octet_word parts 1) OR
         push_bit 8 (octet_word parts 2) OR octet_word parts 3)"

definition in_range :: "ipv4 \<Rightarrow> ipv4 \<Rightarrow> nat \<Rightarrow> bool" where
  "in_range ip network bits =
     (let msk = (if bits = 0 then 0 else push_bit (32 - bits) (NOT 0)) in ip AND msk = network AND msk)"

definition is_blocked_ipv4 :: "string \<Rightarrow> bool" where
  "is_blocked_ipv4 ip =
     (let num = ipv4_to_number ip in
      in_range num (ipv4_to_number ''0.0.0.0'') 8 \<or>
      in_range num (ipv4_to_number ''10.0.0.0'') 8 \<or>
      in_range num (ipv4_to_number ''100.64.0.0'') 10 \<or>
      in_range num (ipv4_to_number ''127.0.0.0'') 8 \<or>
      in_range num (ipv4_to_number ''169.254.0.0'') 16 \<or>
      in_range num (ipv4_to_number ''172.16.0.0'') 12 \<or>
      in_range num (ipv4_to_number ''192.168.0.0'') 16)"

text \<open>\<open>net.isIPv4\<close>: four decimal octets without leading zeros.\<close>

definition is_octet :: "string \<Rightarrow> bool" where
  "is_octet s = (s \<noteq> [] \<and> list_all is_digit s \<and> length s \<le> 3 \<and> read_nat s \<le> 255 \<and>
     (hd s = CHR ''0'' \<longrightarrow> s = ''0''))"

definition is_ipv4 :: "string \<Rightarrow> bool" where
  "is_ipv4 s = (let parts = split_on (CHR ''.'') s in length parts = 4 \<and> list_all is_octet parts)"

definition byte_of :: "nat \<Rightarrow> int \<Rightarrow> nat" where
  "byte_of k i = unat ((drop_bit k (of_int i :: ipv4)) AND 255)"

definition dotted :: "nat \<Rightarrow> nat \<Rightarrow> nat \<Rightarrow> nat \<Rightarrow> string" where
  "dotted a b c d = show_nat a @ ''.'' @ show_nat b @ ''.'' @ show_nat c @ ''.'' @ show_nat d"

definition is_blocked_ipv6 :: "string \<Rightarrow> bool" where
  "is_blocked_ipv6 ip =
     (let lower = to_lower ip in
      if lower = ''::1'' then True
      else if starts_with lower ''fc'' \<or> starts_with lower ''fd'' then True
      else if starts_with lower ''fe8'' \<or> starts_with lower ''fe9'' \<or> starts_with lower ''fea'' \<or>
              starts_with lower ''feb'' then True
      else if starts_with lower ''::ffff:'' then
        (let suffix = drop 7 lower in
         if is_ipv4 suffix then is_blocked_ipv4 suffix
         else (case split_on (CHR '':'') suffix of
                 [h, l] \<Rightarrow>
                   (case (parse_hex h, parse_hex l) of
                      (Some high, Some low) \<Rightarrow>
                        is_blocked_ipv4 (dotted (byte_of 8 high) (byte_of 0 high) (byte_of 8 low) (byte_of 0 low))
                    | _ \<Rightarrow> False)
               | _ \<Rightarrow> False))
      else False)"

definition is_blocked_ip :: "string \<Rightarrow> nat \<Rightarrow> bool" where
  "is_blocked_ip ip family = (if family = 6 then is_blocked_ipv6 ip else is_blocked_ipv4 ip)"

section \<open>The allowlist\<close>

record allow_entry =
  al_host :: string
  al_port :: "rat option"

definition index_of_char :: "char \<Rightarrow> string \<Rightarrow> nat option" where
  "index_of_char c s = (if c \<in> set s then Some (length (takeWhile (\<lambda>x. x \<noteq> c) s)) else None)"

definition parse_entry :: "string \<Rightarrow> allow_entry" where
  "parse_entry entry =
     (case index_of_char (CHR '':'') entry of
        None \<Rightarrow> \<lparr>al_host = to_lower entry, al_port = None\<rparr>
      | Some colonIdx \<Rightarrow> \<lparr>al_host = to_lower (take colonIdx entry), al_port = js_number (drop (colonIdx + 1) entry)\<rparr>)"

definition parse_allowlist :: "string option \<Rightarrow> allow_entry list" where
  "parse_allowlist value =
     (let raw = (case value of None \<Rightarrow> [] | Some s \<Rightarrow> s) in
      if trim_ws raw = [] then []
      else map parse_entry (filter (\<lambda>s. s \<noteq> []) (map trim_ws (split_on (CHR '','') raw))))"

definition is_allowlisted :: "string \<Rightarrow> nat \<Rightarrow> string option \<Rightarrow> bool" where
  "is_allowlisted hostname port value =
     list_ex (\<lambda>e. al_host e = to_lower hostname \<and> (al_port e = None \<or> al_port e = Some (of_nat port)))
       (parse_allowlist value)"

section \<open>Validating a URL\<close>

text \<open>What \<open>new URL\<close> gives (\<open>None\<close> when it throws) and what the lookup answers.\<close>

record parsed_url =
  url_protocol :: string
  url_hostname :: string
  url_port :: string
  url_pathname :: string
  url_search :: string

record net_env =
  ne_parse :: "string \<Rightarrow> parsed_url option"
  ne_lookup :: "string \<Rightarrow> string + (string \<times> nat)"
  ne_getenv :: "string \<Rightarrow> string option"

record validated_url =
  vu_hostname :: string
  vu_resolvedIp :: string
  vu_port :: nat
  vu_pathname :: string
  vu_protocol :: string

definition denied_schemes :: "string list" where
  "denied_schemes = [''file'', ''chrome'', ''chrome-extension'', ''javascript'', ''data'']"

definition about_blank :: validated_url where
  "about_blank = \<lparr>vu_hostname = [], vu_resolvedIp = [], vu_port = 0, vu_pathname = ''blank'', vu_protocol = ''about:''\<rparr>"

definition scheme_of :: "string \<Rightarrow> string" where
  "scheme_of protocol = to_lower (if ends_with protocol '':'' then butlast protocol else protocol)"

definition resolved_url :: "parsed_url \<Rightarrow> string \<Rightarrow> nat \<Rightarrow> validated_url" where
  "resolved_url parsed address port =
     \<lparr>vu_hostname = url_hostname parsed, vu_resolvedIp = address, vu_port = port,
      vu_pathname = url_pathname parsed @ url_search parsed, vu_protocol = url_protocol parsed\<rparr>"

text \<open>The port of a parsed URL is empty or decimal digits, as the URL standard has it.\<close>

definition port_of :: "parsed_url \<Rightarrow> nat" where
  "port_of parsed =
     (if url_port parsed = [] then (if url_protocol parsed = ''https:'' then 443 else 80)
      else read_nat (url_port parsed))"

definition blocked_scheme_text :: "string \<Rightarrow> string" where
  "blocked_scheme_text protocol =
     ''Blocked scheme '' @ [CHR 0x22] @ protocol @ [CHR 0x22, CHR '' '', CHR 0xE2, CHR 0x80, CHR 0x94] @
     '' only http: and https: are allowed''"

definition validate_url :: "net_env \<Rightarrow> string \<Rightarrow> string option \<Rightarrow> string + validated_url" where
  "validate_url env url allowlistEnv =
     (let envName = (case allowlistEnv of None \<Rightarrow> ''BROWSER_INTERNAL_ALLOWLIST'' | Some n \<Rightarrow> n) in
      case ne_parse env url of
        None \<Rightarrow> Inl (''Invalid URL: '' @ url)
      | Some parsed \<Rightarrow>
          (let scheme = scheme_of (url_protocol parsed) in
           if scheme \<in> set denied_schemes then Inl (''scheme blocked: '' @ scheme @ '': URLs are not allowed'')
           else if scheme = ''about'' then
             (if url \<noteq> ''about:blank''
              then Inl ''scheme blocked: about: URLs other than about:blank are not allowed''
              else Inr about_blank)
           else if url_protocol parsed \<noteq> ''http:'' \<and> url_protocol parsed \<noteq> ''https:''
           then Inl (blocked_scheme_text (url_protocol parsed))
           else if url_hostname parsed = [] then Inl ''URL has no hostname''
           else (case ne_lookup env (url_hostname parsed) of
                   Inl e \<Rightarrow> Inl e
                 | Inr (address, family) \<Rightarrow>
                     if is_allowlisted (url_hostname parsed) (port_of parsed) (ne_getenv env envName)
                     then Inr (resolved_url parsed address (port_of parsed))
                     else if is_blocked_ip address family
                     then Inl (''URL resolves to blocked IP range ('' @ address @ '')'')
                     else Inr (resolved_url parsed address (port_of parsed)))))"

section \<open>Addresses as numbers\<close>

lemma in_range_div:
  assumes "0 < bits" "bits \<le> 32"
  shows "in_range x y bits \<longleftrightarrow> unat x div 2 ^ (32 - bits) = unat y div 2 ^ (32 - bits)"
proof -
  let ?k = "32 - bits"
  have "in_range x y bits \<longleftrightarrow> x AND push_bit ?k (NOT 0) = y AND push_bit ?k (NOT 0)"
    using assms by (simp add: in_range_def Let_def)
  also have "\<dots> \<longleftrightarrow> drop_bit ?k x = drop_bit ?k y"
  proof
    assume eq: "x AND push_bit ?k (NOT 0) = y AND push_bit ?k (NOT 0)"
    have "bit (drop_bit ?k x) n = bit (drop_bit ?k y) n" for n
      using arg_cong [OF eq, of "\<lambda>w. bit w (?k + n)"]
      by (cases "?k + n < 32") (auto simp: bit_simps dest: bit_imp_le_length)
    then show "drop_bit ?k x = drop_bit ?k y" by (intro bit_eqI) blast
  next
    assume eq: "drop_bit ?k x = drop_bit ?k y"
    have "bit x n = bit y n" if "?k \<le> n" for n
      using arg_cong [OF eq, of "\<lambda>w. bit w (n - ?k)"] that by (simp add: bit_simps)
    then show "x AND push_bit ?k (NOT 0) = y AND push_bit ?k (NOT 0)"
      by (intro bit_eqI) (auto simp: bit_simps)
  qed
  also have "\<dots> \<longleftrightarrow> unat (drop_bit ?k x) = unat (drop_bit ?k y)" by (rule word_unat_eq_iff)
  finally show ?thesis by (simp only: unat_drop_bit_eq) (simp only: drop_bit_eq_div)
qed

lemma nat_or_disjoint: "y < 2 ^ k \<Longrightarrow> push_bit k x OR y = push_bit k x + (y :: nat)"
proof -
  assume "y < 2 ^ k"
  then have "take_bit k y = y" by (simp add: take_bit_nat_eq_self)
  then have "bit y n \<Longrightarrow> n < k" for n by (metis bit_take_bit_iff)
  then have "push_bit k x AND y = 0" by (intro bit_eqI) (fastforce simp: bit_simps)
  then show ?thesis by (simp add: disjunctive_add_eq_or)
qed

lemma digits_no_dot: "CHR ''.'' \<notin> set (show_nat n)" "CHR '':'' \<notin> set (show_nat n)"
  using show_nat_digits [of n] digit_not(4,5) by (auto simp: list_all_iff)

lemma split_dotted:
  "split_on (CHR ''.'') (dotted a b c d) = [show_nat a, show_nat b, show_nat c, show_nat d]"
  by (simp add: dotted_def split_on_sep split_on_none digits_no_dot)

lemma octet_show: "a < 256 \<Longrightarrow> js_trunc (js_number (show_nat a)) = int a"
  by (simp add: js_number_show_nat js_trunc_def)

lemma unat_small: "n < 2 ^ 32 \<Longrightarrow> unat (of_nat n :: ipv4) = n"
  by (simp add: unat_of_nat take_bit_nat_eq_self)

lemma dotted_number:
  assumes "a < 256" "b < 256" "c < 256" "d < 256"
  shows "unat (ipv4_to_number (dotted a b c d)) = a * 2 ^ 24 + b * 2 ^ 16 + c * 2 ^ 8 + d"
proof -
  have "ipv4_to_number (dotted a b c d) =
      of_nat (push_bit 24 a OR (push_bit 16 b OR (push_bit 8 c OR d)))"
    using assms
    by (simp add: ipv4_to_number_def Let_def split_dotted octet_word_def octet_show push_bit_of_nat of_nat_or_eq or.assoc)
  moreover have "push_bit 24 a OR (push_bit 16 b OR (push_bit 8 c OR d)) = a * 2 ^ 24 + (b * 2 ^ 16 + (c * 2 ^ 8 + d))"
  proof -
    have "push_bit 8 c OR d = c * 2 ^ 8 + d"
      using nat_or_disjoint [of d 8 c] assms by (simp add: push_bit_eq_mult)
    moreover have "push_bit 16 b OR (c * 2 ^ 8 + d) = b * 2 ^ 16 + (c * 2 ^ 8 + d)"
      using nat_or_disjoint [of "c * 2 ^ 8 + d" 16 b] assms by (simp add: push_bit_eq_mult)
    moreover have "push_bit 24 a OR (b * 2 ^ 16 + (c * 2 ^ 8 + d)) = a * 2 ^ 24 + (b * 2 ^ 16 + (c * 2 ^ 8 + d))"
      using nat_or_disjoint [of "b * 2 ^ 16 + (c * 2 ^ 8 + d)" 24 a] assms by (simp add: push_bit_eq_mult)
    ultimately show ?thesis by presburger
  qed
  moreover have "unat (of_nat (a * 2 ^ 24 + (b * 2 ^ 16 + (c * 2 ^ 8 + d))) :: ipv4) =
      a * 2 ^ 24 + (b * 2 ^ 16 + (c * 2 ^ 8 + d))"
    using assms by (intro unat_small) simp
  ultimately show ?thesis by simp
qed

text \<open>The reserved networks, octet by octet.\<close>

definition reserved_net :: "nat \<Rightarrow> nat \<Rightarrow> bool" where
  "reserved_net a b =
     (a = 0 \<or> a = 10 \<or> (a = 100 \<and> 64 \<le> b \<and> b < 128) \<or> a = 127 \<or> (a = 169 \<and> b = 254) \<or>
      (a = 172 \<and> 16 \<le> b \<and> b < 32) \<or> (a = 192 \<and> b = 168))"

lemma networks:
  "''0.0.0.0'' = dotted 0 0 0 0" "''10.0.0.0'' = dotted 10 0 0 0" "''100.64.0.0'' = dotted 100 64 0 0"
  "''127.0.0.0'' = dotted 127 0 0 0" "''169.254.0.0'' = dotted 169 254 0 0"
  "''172.16.0.0'' = dotted 172 16 0 0" "''192.168.0.0'' = dotted 192 168 0 0"
  by code_simp+

lemma same_digits:
  assumes "x < m" "y < (m :: nat)"
  shows "a * m + x = e * m + y \<longleftrightarrow> a = e \<and> x = y"
proof
  assume eq: "a * m + x = e * m + y"
  from arg_cong [OF eq, of "\<lambda>n. n div m"] arg_cong [OF eq, of "\<lambda>n. n mod m"] assms
  show "a = e \<and> x = y" by simp
qed simp

lemma div_is_one:
  assumes "0 < (m :: nat)"
  shows "b div m = 1 \<longleftrightarrow> m \<le> b \<and> b < 2 * m"
proof
  assume one: "b div m = 1"
  have "b = b div m * m + b mod m" "b mod m < m" using assms by simp_all
  with one show "m \<le> b \<and> b < 2 * m" by simp
next
  assume b: "m \<le> b \<and> b < 2 * m"
  then have "b div m = Suc ((b - m) div m)" using assms by (simp add: le_div_geq)
  moreover have "b - m < m" using b by linarith
  ultimately show "b div m = 1" by simp
qed

lemma blocked_dotted:
  assumes "a < 256" "b < 256" "c < 256" "d < 256"
  shows "is_blocked_ipv4 (dotted a b c d) \<longleftrightarrow> reserved_net a b"
proof -
  have high: "unat (ipv4_to_number (dotted a b c d)) div 2 ^ (16 + k) = (a * 256 + b) div 2 ^ k"
    if "a < 256" "b < 256" "c < 256" "d < 256" for a b c d k
  proof -
    have "(a * 2 ^ 24 + b * 2 ^ 16 + c * 2 ^ 8 + d) div 2 ^ 16 = a * 256 + b"
    proof -
      have "a * 2 ^ 24 + b * 2 ^ 16 + c * 2 ^ 8 + d = (c * 2 ^ 8 + d) + (a * 256 + b) * 2 ^ 16" by simp
      also have "\<dots> div 2 ^ 16 = (a * 256 + b) + (c * 2 ^ 8 + d) div 2 ^ 16"
        by (subst div_mult_self1) simp_all
      finally show ?thesis using that by simp
    qed
    then show ?thesis using that by (simp only: dotted_number power_add div_mult2_eq)
  qed
  have eight: "in_range (ipv4_to_number (dotted a b c d)) (ipv4_to_number (dotted e 0 0 0)) 8 \<longleftrightarrow> a = e"
    if "e < 256" for e
    using assms that high [of a b c d 8] high [of e 0 0 0 8] by (simp add: in_range_div)
  have part: "in_range (ipv4_to_number (dotted a b c d)) (ipv4_to_number (dotted e f 0 0)) (16 - k) \<longleftrightarrow>
      (a * 256 + b) div 2 ^ k = (e * 256 + f) div 2 ^ k" if "e < 256" "f < 256" "k < 16" for e f k
    using assms that high [of a b c d k] high [of e f 0 0 k] by (simp add: in_range_div)
  have cut: "(a * 256 + b) div 2 ^ k = (e * 256 + f) div 2 ^ k \<longleftrightarrow> a = e \<and> b div 2 ^ k = f div 2 ^ k"
    if "b < 256" "f < 256" "k \<le> 8" for a b e f k :: nat
  proof -
    have "(x * 256 + y) div 2 ^ k = x * 2 ^ (8 - k) + y div 2 ^ k" for x y :: nat
    proof -
      have "(256 :: nat) = 2 ^ (8 - k) * 2 ^ k" using that(3) by (simp flip: power_add)
      then have "(x * 256 + y) div 2 ^ k = (y + (x * 2 ^ (8 - k)) * 2 ^ k) div 2 ^ k"
        by (metis add.commute mult.assoc)
      also have "\<dots> = x * 2 ^ (8 - k) + y div 2 ^ k" by (rule div_mult_self1) simp
      finally show ?thesis .
    qed
    moreover have "y div 2 ^ k < 2 ^ (8 - k)" if "y < 256" for y :: nat
      using that \<open>k \<le> 8\<close> by (simp add: div_less_iff_less_mult flip: power_add)
    ultimately show ?thesis using that same_digits by metis
  qed
  have ten: "in_range (ipv4_to_number (dotted a b c d)) (ipv4_to_number (dotted e f 0 0)) 10 \<longleftrightarrow>
      a = e \<and> b div 64 = f div 64" if "e < 256" "f < 256" for e f
    using part [of e f 6] cut [of b f 6 a e] assms that by simp
  have twelve: "in_range (ipv4_to_number (dotted a b c d)) (ipv4_to_number (dotted e f 0 0)) 12 \<longleftrightarrow>
      a = e \<and> b div 16 = f div 16" if "e < 256" "f < 256" for e f
    using part [of e f 4] cut [of b f 4 a e] assms that by simp
  have sixteen: "in_range (ipv4_to_number (dotted a b c d)) (ipv4_to_number (dotted e f 0 0)) 16 \<longleftrightarrow>
      a = e \<and> b = f" if "e < 256" "f < 256" for e f
    using part [of e f 0] cut [of b f 0 a e] assms that by simp
  have halves: "b div 64 = 64 div 64 \<longleftrightarrow> 64 \<le> b \<and> b < 128" "b div 16 = 16 div 16 \<longleftrightarrow> 16 \<le> b \<and> b < 32"
    using div_is_one [of 64 b] div_is_one [of 16 b] by simp_all
  have small: "(0 :: nat) < 256" "(10 :: nat) < 256" "(100 :: nat) < 256" "(64 :: nat) < 256" "(127 :: nat) < 256"
    "(169 :: nat) < 256" "(254 :: nat) < 256" "(172 :: nat) < 256" "(16 :: nat) < 256" "(192 :: nat) < 256"
    "(168 :: nat) < 256" by simp_all
  show ?thesis
    unfolding is_blocked_ipv4_def Let_def networks(2-7)
    unfolding networks(1) reserved_net_def eight [OF small(1)] eight [OF small(2)] eight [OF small(5)] ten [OF small(3,4)] sixteen [OF small(6,7)]
      twelve [OF small(8,9)] sixteen [OF small(10,11)] halves
    by (rule refl)
qed

section \<open>IPv4 addresses in IPv6 notation\<close>

lemma digit_char_zero: "d < 10 \<Longrightarrow> digit_char d = CHR ''0'' \<longleftrightarrow> d = 0"
proof -
  assume "d < 10"
  then have "digit_val (digit_char d) = d" by (simp add: digit_char_facts)
  moreover have "digit_val (CHR ''0'') = 0" "digit_char 0 = CHR ''0''" by code_simp+
  ultimately show ?thesis by metis
qed

lemma show_nat_octet:
  assumes "a < 256"
  shows "is_octet (show_nat a)"
proof -
  consider "a < 10" | "10 \<le> a" "a < 100" | "100 \<le> a" by linarith
  then have "length (show_nat a) \<le> 3 \<and> (hd (show_nat a) = CHR ''0'' \<longrightarrow> show_nat a = ''0'')"
  proof cases
    case 1
    then show ?thesis by (auto simp: show_nat_small digit_char_zero)
  next
    case 2
    then have "show_nat a = [digit_char (a div 10), digit_char (a mod 10)]"
      by (simp add: show_nat_step show_nat_small)
    then show ?thesis using 2 by (simp add: digit_char_zero)
  next
    case 3
    then have "show_nat a = [digit_char (a div 10 div 10), digit_char (a div 10 mod 10), digit_char (a mod 10)]"
      using assms by (simp add: show_nat_step [of a] show_nat_step [of "a div 10"] show_nat_small)
    then show ?thesis using 3 assms by (simp add: digit_char_zero)
  qed
  then show ?thesis using assms show_nat_digits [of a] by (simp add: is_octet_def read_nat_show_nat)
qed

lemma is_ipv4_dotted: "a < 256 \<Longrightarrow> b < 256 \<Longrightarrow> c < 256 \<Longrightarrow> d < 256 \<Longrightarrow> is_ipv4 (dotted a b c d)"
  by (simp add: is_ipv4_def split_dotted show_nat_octet)

lemma mapped_blocked:
  assumes "to_lower s = s"
  shows "is_blocked_ipv6 (''::ffff:'' @ s) \<longleftrightarrow>
    (if is_ipv4 s then is_blocked_ipv4 s
     else (case split_on (CHR '':'') s of
             [h, l] \<Rightarrow>
               (case (parse_hex h, parse_hex l) of
                  (Some high, Some low) \<Rightarrow>
                    is_blocked_ipv4 (dotted (byte_of 8 high) (byte_of 0 high) (byte_of 8 low) (byte_of 0 low))
                | _ \<Rightarrow> False)
           | _ \<Rightarrow> False))"
proof -
  have "to_lower (''::ffff:'' @ s) = ''::ffff:'' @ s" using assms by (simp add: to_lower_def lower_char_def)
  then show ?thesis by (simp add: is_blocked_ipv6_def Let_def starts_with_def)
qed

lemma byte_of_pair:
  assumes "x < 256" "y < 256"
  shows "byte_of 8 (int (256 * x + y)) = x" "byte_of 0 (int (256 * x + y)) = y"
proof -
  let ?n = "256 * x + y"
  have small: "unat (of_nat ?n :: ipv4) = ?n" using assms by (intro unat_small) simp
  have mask: "(255 :: ipv4) = mask 8" by (simp add: mask_eq_exp_minus_1)
  have "unat (drop_bit k (of_nat ?n :: ipv4) AND 255) = (?n div 2 ^ k) mod 256" for k
    unfolding mask take_bit_eq_mask [symmetric] by (simp only: unsigned_take_bit_eq unat_drop_bit_eq small) (simp add: drop_bit_eq_div take_bit_eq_mod)
  from this [of 8] this [of 0] show "byte_of 8 (int ?n) = x" "byte_of 0 (int ?n) = y"
    using assms by (simp_all add: byte_of_def of_int_of_nat_eq del: of_nat_add of_nat_mult)
qed

section \<open>Properties\<close>

text \<open>C19: for every IPv4 address, in dotted form or mapped into IPv6 (dotted or in hexadecimal), the
  bit tests answer whether its first two octets are of a reserved network.\<close>

theorem blocked_ranges_exact:
  assumes "a < 256" "b < 256" "c < 256" "d < 256"
  shows "(is_blocked_ip (dotted a b c d) 4 \<longleftrightarrow> reserved_net a b) \<and>
    (is_blocked_ip (''::ffff:'' @ dotted a b c d) 6 \<longleftrightarrow> reserved_net a b) \<and>
    (is_blocked_ip (''::ffff:'' @ show_hex (256 * a + b) @ '':'' @ show_hex (256 * c + d)) 6 \<longleftrightarrow> reserved_net a b)"
proof -
  let ?hex = "show_hex (256 * a + b) @ '':'' @ show_hex (256 * c + d)"
  have lower: "to_lower (dotted a b c d) = dotted a b c d"
  proof -
    have "to_lower (show_nat n) = show_nat n" for n
      using show_nat_digits [of n] by (auto simp: to_lower_def lower_char_def is_digit_def Let_def list_all_iff intro!: map_idI)
    then show ?thesis by (simp add: dotted_def to_lower_def lower_char_def)
  qed
  have hexes: "lower_char x = x" "x \<noteq> CHR '':''" "x \<noteq> CHR ''.''" if "x \<in> set (show_hex n)" for x n
    using show_hex_plain [of n] plain_hex_not that by (auto simp: plain_hex_def)
  then have lower_hex: "to_lower ?hex = ?hex"
    by (simp add: to_lower_def map_idI lower_char_def)
  have "CHR ''.'' \<notin> set ?hex" using hexes(3) by auto
  then have "\<not> is_ipv4 ?hex" by (simp add: is_ipv4_def split_on_none)
  moreover have "split_on (CHR '':'') ?hex = [show_hex (256 * a + b), show_hex (256 * c + d)]"
    using hexes(2) by (simp add: split_on_sep split_on_none) (metis split_on_none split_on_sep)
  ultimately have "is_blocked_ipv6 (''::ffff:'' @ ?hex) \<longleftrightarrow> reserved_net a b"
    using mapped_blocked [OF lower_hex] assms by (simp add: parse_show_hex byte_of_pair [simplified] blocked_dotted)
  moreover have "is_blocked_ipv6 (''::ffff:'' @ dotted a b c d) \<longleftrightarrow> reserved_net a b"
    using mapped_blocked [OF lower] assms by (simp add: is_ipv4_dotted blocked_dotted)
  ultimately show ?thesis using assms by (simp add: is_blocked_ip_def blocked_dotted)
qed

theorem blocked_ranges_exact_witness:
  "is_blocked_ip (dotted 169 254 169 254) 4 \<and> \<not> is_blocked_ip (dotted 8 8 8 8) 4"
  using blocked_ranges_exact [of 169 254 169 254] blocked_ranges_exact [of 8 8 8 8]
  by (simp add: reserved_net_def)

text \<open>A URL that is accepted is \<open>about:blank\<close> itself or an http(s) URL whose host was looked up;
  the address handed to the request is the one that was checked: it is not in a blocked range
  unless host and port are in the allowlist of the caller.\<close>

theorem validate_url_guards:
  assumes "validate_url env url allowlistEnv = Inr v"
  shows "url = ''about:blank'' \<and> v = about_blank \<or>
    (\<exists>parsed family. ne_parse env url = Some parsed \<and> url_hostname parsed \<noteq> [] \<and>
       url_protocol parsed \<in> {''http:'', ''https:''} \<and>
       ne_lookup env (url_hostname parsed) = Inr (vu_resolvedIp v, family) \<and>
       v = resolved_url parsed (vu_resolvedIp v) (port_of parsed) \<and>
       (is_allowlisted (vu_hostname v) (vu_port v)
          (ne_getenv env (case allowlistEnv of None \<Rightarrow> ''BROWSER_INTERNAL_ALLOWLIST'' | Some n \<Rightarrow> n)) \<or>
        \<not> is_blocked_ip (vu_resolvedIp v) family))"
proof (cases "ne_parse env url")
  case None
  then show ?thesis using assms by (simp add: validate_url_def)
next
  case (Some parsed)
  show ?thesis
  proof (cases "ne_lookup env (url_hostname parsed)")
    case (Inl e)
    then show ?thesis using assms Some by (simp add: validate_url_def Let_def split: if_splits)
  next
    case (Inr af)
    obtain address family where af: "af = (address, family)" by (cases af)
    show ?thesis using assms Some Inr af
      by (auto simp: validate_url_def Let_def resolved_url_def split: if_splits)
  qed
qed

text \<open>A platform that parses one URL and looks up its host.\<close>

definition sample_net :: "string \<Rightarrow> nat \<Rightarrow> net_env" where
  "sample_net address family =
     \<lparr>ne_parse = (\<lambda>u. if u = ''http://h/'' then Some \<lparr>url_protocol = ''http:'', url_hostname = ''h'', url_port = [],
                                                 url_pathname = ''/'', url_search = []\<rparr> else None),
      ne_lookup = (\<lambda>h. Inr (address, family)), ne_getenv = (\<lambda>_. None)\<rparr>"

lemma sample_validates:
  "validate_url (sample_net address family) ''http://h/'' None =
     (if is_blocked_ip address family then Inl (''URL resolves to blocked IP range ('' @ address @ '')'')
      else Inr \<lparr>vu_hostname = ''h'', vu_resolvedIp = address, vu_port = 80, vu_pathname = ''/'', vu_protocol = ''http:''\<rparr>)"
proof -
  have "scheme_of ''http:'' = ''http''" "''http'' \<notin> set denied_schemes" by code_simp+
  then show ?thesis
    by (simp add: validate_url_def sample_net_def Let_def is_allowlisted_def parse_allowlist_def port_of_def
        resolved_url_def trim_ws_def trim_start_def trim_end_def)
qed

theorem validate_url_guards_witness:
  "\<exists>v. validate_url (sample_net (dotted 8 8 8 8) 4) ''http://h/'' None = Inr v \<and> \<not> is_blocked_ip (vu_resolvedIp v) 4"
proof -
  have "\<not> is_blocked_ip (dotted 8 8 8 8) 4" by (simp add: is_blocked_ip_def blocked_dotted reserved_net_def)
  then obtain v where v: "validate_url (sample_net (dotted 8 8 8 8) 4) ''http://h/'' None = Inr v"
    by (simp add: sample_validates)
  from validate_url_guards [OF v] have "\<not> is_blocked_ip (vu_resolvedIp v) 4"
    by (simp add: sample_net_def is_allowlisted_def parse_allowlist_def trim_ws_def trim_start_def trim_end_def)
  with v show ?thesis by blast
qed

text \<open>The IPv6 test knows the loopback only as \<open>::1\<close>. The unspecified address \<open>::\<close>, which
  connects to the host itself as \<open>0.0.0.0\<close> does, and the IPv4-compatible and NAT64 forms of
  \<open>127.0.0.1\<close> pass, so a name that resolves to one of them is accepted.\<close>

theorem ipv6_gaps:
  "is_blocked_ip ''0.0.0.0'' 4 \<and> is_blocked_ip ''::1'' 6 \<and>
   list_all (\<lambda>a. \<not> is_blocked_ip a 6 \<and>
       (case validate_url (sample_net a 6) ''http://h/'' None of Inl _ \<Rightarrow> False | Inr v \<Rightarrow> vu_resolvedIp v = a))
     [''::'', ''::127.0.0.1'', ''64:ff9b::7f00:1'']"
proof -
  have "is_blocked_ip ''0.0.0.0'' 4" by (simp add: is_blocked_ip_def networks(1) blocked_dotted reserved_net_def)
  moreover have "is_blocked_ip ''::1'' 6" by code_simp
  moreover have "\<not> is_blocked_ip a 6" if "a \<in> set [''::'', ''::127.0.0.1'', ''64:ff9b::7f00:1'']" for a
  proof -
    have "list_all (\<lambda>a. \<not> is_blocked_ip a 6) [''::'', ''::127.0.0.1'', ''64:ff9b::7f00:1'']" by code_simp
    then show ?thesis using that unfolding list_all_iff by blast
  qed
  ultimately show ?thesis unfolding list_all_iff by (simp add: sample_validates)
qed

text \<open>An allowlist entry whose port is not a number opens every port of the host.\<close>

theorem bad_port_opens_host:
  assumes "js_number p = None" "\<forall>c\<in>set (h @ p). \<not> is_space c \<and> c \<noteq> CHR '',''" "CHR '':'' \<notin> set h"
  shows "is_allowlisted h port (Some (h @ '':'' @ p))"
proof -
  let ?e = "h @ CHR '':'' # p"
  have "\<forall>c\<in>set ?e. \<not> is_space c" using assms(2) by (auto simp: is_space_def)
  then have trim: "trim_ws ?e = ?e" by (rule trim_solid)
  have "CHR '','' \<notin> set ?e" using assms(2) by auto
  then have "parse_allowlist (Some ?e) = [parse_entry ?e]"
    by (simp add: parse_allowlist_def Let_def trim split_on_none)
  moreover have "takeWhile (\<lambda>x. x \<noteq> CHR '':'') ?e = h"
    using assms(3) by (subst takeWhile_append2) auto
  then have "parse_entry ?e = \<lparr>al_host = to_lower h, al_port = None\<rparr>"
    using assms(1) by (simp add: parse_entry_def index_of_char_def)
  ultimately show ?thesis by (simp add: is_allowlisted_def)
qed

theorem bad_port_opens_host_witness:
  "is_allowlisted ''grafana'' 22 (Some ''grafana:80a'')"
proof -
  have "js_number ''80a'' = None" by code_simp
  from bad_port_opens_host [OF this, of "''grafana''" 22] show ?thesis by (simp add: is_space_def)
qed

end
