(* ===== verification/CronSchedule.thy ===== *)
theory CronSchedule
  imports JsText ApprovalTypes
begin

text \<open>
  Schedules of cron tasks: \<open>engine/cron-guard.service.ts\<close> (validation and the dispatch guard),
  \<open>engine/cron-next-run.ts\<close> and \<open>engine/cron-error-messages.ts\<close>. Times are milliseconds. The
  platform's date parser and printer, its time-zone table and the package \<open>cron-parser\<close> are fields of a record:
  \<open>cp_parse expression tz now\<close> is \<open>None\<close> when \<open>parse\<close> throws, else the results of the successive
  calls of \<open>next()\<close>, \<open>None\<close> where one throws. Intervals are exact; a number of digits that a double
  cannot hold is outside the model.
\<close>

section \<open>Types\<close>

text \<open>A schedule an agent sends is arbitrary JSON cast to the type; \<open>OtherSchedule\<close> is a value of none of
  the three types.\<close>

datatype cron_schedule = At string | Every string | CronExpr string "string option" | OtherSchedule json

record cron_platform =
  cp_date :: "string \<Rightarrow> int option"
  cp_valid_tz :: "string \<Rightarrow> bool"
  cp_iso :: "int \<Rightarrow> string"
  cp_parse :: "string \<Rightarrow> string option \<Rightarrow> int \<Rightarrow> (nat \<Rightarrow> int option) option"

text \<open>Reading a field as a string converts what is there, as \<open>RegExp.exec\<close> and \<open>new Date\<close> do; a field of
  \<open>null\<close> is a \<open>TypeError\<close>.\<close>

definition field_text :: "string \<Rightarrow> (string \<times> json) list \<Rightarrow> string" where
  "field_text k kvs = (case map_of kvs k of None \<Rightarrow> ''undefined'' | Some v \<Rightarrow> js_string v)"

definition schedule_of_json :: "json \<Rightarrow> cron_schedule option" where
  "schedule_of_json v =
     (case v of
        JNull \<Rightarrow> None
      | JObj kvs \<Rightarrow>
          (case map_of kvs ''type'' of
             Some (JStr ty) \<Rightarrow>
               Some (if ty = ''at'' then At (field_text ''time'' kvs)
                     else if ty = ''every'' then Every (field_text ''interval'' kvs)
                     else if ty = ''cron'' then
                       CronExpr (field_text ''expression'' kvs) (if map_of kvs ''tz'' \<in> {None, Some JNull} then None else Some (field_text ''tz'' kvs))
                     else OtherSchedule v)
           | _ \<Rightarrow> Some (OtherSchedule v))
      | _ \<Rightarrow> Some (OtherSchedule v))"

definition schedule_json :: "cron_schedule \<Rightarrow> json" where
  "schedule_json s =
     (case s of
        At time \<Rightarrow> JObj [(''type'', JStr ''at''), (''time'', JStr time)]
      | Every interval \<Rightarrow> JObj [(''type'', JStr ''every''), (''interval'', JStr interval)]
      | CronExpr e tzo \<Rightarrow>
          JObj ([(''type'', JStr ''cron''), (''expression'', JStr e)] @
                (case tzo of None \<Rightarrow> [] | Some z \<Rightarrow> [(''tz'', JStr z)]))
      | OtherSchedule j \<Rightarrow> j)"

record guard_result =
  gr_allowed :: bool
  gr_reason :: "string option"

record policy_limits =
  pl_cronEnabled :: bool
  pl_maxScheduledTasks :: nat
  pl_minCronIntervalSecs :: int
  pl_maxTokensPerCronRun :: "nat option"

definition permitted :: guard_result where
  "permitted = \<lparr>gr_allowed = True, gr_reason = None\<rparr>"

definition denied :: "string \<Rightarrow> guard_result" where
  "denied reason = \<lparr>gr_allowed = False, gr_reason = Some reason\<rparr>"

lemma guard_result_simps [simp]:
  "gr_allowed permitted" "\<not> gr_allowed (denied reason)" "gr_reason (denied reason) = Some reason"
  by (simp_all add: permitted_def denied_def)

section \<open>Intervals\<close>

definition parse_interval :: "(char \<Rightarrow> nat option) \<Rightarrow> string \<Rightarrow> nat option" where
  "parse_interval multiplier interval =
     (case rev interval of
        [] \<Rightarrow> None
      | unit # ds \<Rightarrow>
          if ds = [] \<or> \<not> list_all is_digit ds then None
          else map_option (\<lambda>m. read_nat (rev ds) * m) (multiplier unit))"

definition unit_seconds :: "char \<Rightarrow> nat option" where
  "unit_seconds c =
     (if c = CHR ''s'' then Some 1 else if c = CHR ''m'' then Some 60
      else if c = CHR ''h'' then Some 3600 else if c = CHR ''d'' then Some 86400 else None)"

definition unit_ms :: "char \<Rightarrow> nat option" where
  "unit_ms c =
     (if c = CHR ''s'' then Some 1000 else if c = CHR ''m'' then Some 60000
      else if c = CHR ''h'' then Some 3600000 else if c = CHR ''d'' then Some 86400000 else None)"

definition parse_interval_to_seconds :: "string \<Rightarrow> nat option" where
  "parse_interval_to_seconds = parse_interval unit_seconds"

definition parse_interval_to_ms :: "string \<Rightarrow> nat option" where
  "parse_interval_to_ms = parse_interval unit_ms"

lemma parse_interval_ms: "parse_interval_to_ms i = map_option (\<lambda>s. 1000 * s) (parse_interval_to_seconds i)"
proof (cases "rev i")
  case Nil
  then show ?thesis by (simp add: parse_interval_to_ms_def parse_interval_to_seconds_def parse_interval_def)
next
  case (Cons u ds)
  have "unit_ms u = map_option (\<lambda>s. 1000 * s) (unit_seconds u)"
    by (simp add: unit_ms_def unit_seconds_def)
  then show ?thesis using Cons
    by (simp add: parse_interval_to_ms_def parse_interval_to_seconds_def parse_interval_def option.map_comp comp_def)
      (simp add: mult.left_commute)
qed

section \<open>Cron expressions\<close>

text \<open>\<open>tz ? { tz } : {}\<close>\<close>

definition tz_option :: "string \<Rightarrow> string option" where
  "tz_option tz = (if tz = [] then None else Some tz)"

definition estimate_cron_interval_seconds :: "cron_platform \<Rightarrow> int \<Rightarrow> string \<Rightarrow> string \<Rightarrow> int option" where
  "estimate_cron_interval_seconds plat now expression tz =
     (case cp_parse plat expression (tz_option tz) now of
        None \<Rightarrow> None
      | Some occ \<Rightarrow>
          (case (occ 0, occ 1) of
             (Some first, Some second) \<Rightarrow> Some ((second - first) div 1000)
           | _ \<Rightarrow> None))"

definition is_valid_cron_expression :: "cron_platform \<Rightarrow> int \<Rightarrow> string \<Rightarrow> string \<Rightarrow> bool" where
  "is_valid_cron_expression plat now expression tz = (cp_parse plat expression (tz_option tz) now \<noteq> None)"

text \<open>\<open>/(Z|[+-]\d{2}:?\d{2})$/\<close> on the reversed string.\<close>

definition has_explicit_offset :: "string \<Rightarrow> bool" where
  "has_explicit_offset s =
     (case rev s of
        [] \<Rightarrow> False
      | z # _ \<Rightarrow>
          z = CHR ''Z'' \<or>
          (case rev s of
             d1 # d2 # c # d3 # d4 # r \<Rightarrow>
               is_digit d1 \<and> is_digit d2 \<and>
               (if c = CHR '':'' then is_digit d3 \<and> is_digit d4 \<and> (case r of x # _ \<Rightarrow> x = CHR ''+'' \<or> x = CHR ''-'' | [] \<Rightarrow> False)
                else is_digit c \<and> is_digit d3 \<and> (d4 = CHR ''+'' \<or> d4 = CHR ''-''))
           | _ \<Rightarrow> False))"

section \<open>The guard\<close>

definition offset_reason :: string where
  "offset_reason =
     ''Schedule time must include a timezone offset (e.g. '' @ [CHR 0x27] @ ''2026-04-01T09:00:00Z'' @ [CHR 0x27] @
     '' or '' @ [CHR 0x27] @ ''2026-04-01T09:00:00-05:00'' @ [CHR 0x27] @ '')''"

definition interval_reason :: "policy_limits \<Rightarrow> string" where
  "interval_reason policy =
     ''Minimum interval is '' @ show_int (pl_minCronIntervalSecs policy) @ '' seconds on your policy''"

definition bad_interval_reason :: "string \<Rightarrow> string" where
  "bad_interval_reason interval =
     ''Invalid interval format: '' @ interval @ ''. Use e.g. '' @ [CHR 0x22] @ ''30s'' @ [CHR 0x22] @ '', '' @
     [CHR 0x22] @ ''5m'' @ [CHR 0x22] @ '', '' @ [CHR 0x22] @ ''1h'' @ [CHR 0x22]"

definition validate_expression :: "cron_platform \<Rightarrow> int \<Rightarrow> string \<Rightarrow> string \<Rightarrow> policy_limits \<Rightarrow> guard_result" where
  "validate_expression plat now expression tz policy =
     (if \<not> is_valid_cron_expression plat now expression tz then denied (''Invalid cron expression: '' @ expression)
      else (case estimate_cron_interval_seconds plat now expression tz of
              None \<Rightarrow> permitted
            | Some intervalSecs \<Rightarrow>
                if intervalSecs < pl_minCronIntervalSecs policy then denied (interval_reason policy) else permitted))"

fun validate_schedule :: "cron_platform \<Rightarrow> int \<Rightarrow> cron_schedule \<Rightarrow> policy_limits \<Rightarrow> string \<Rightarrow> guard_result" where
  "validate_schedule plat now (At time) policy defaultTz =
     (if \<not> has_explicit_offset time then denied offset_reason
      else (case cp_date plat time of
              None \<Rightarrow> denied (''Invalid date/time: '' @ time)
            | Some t \<Rightarrow> if t \<le> now then denied ''Scheduled time is in the past'' else permitted))"
| "validate_schedule plat now (Every interval) policy defaultTz =
     (case parse_interval_to_seconds interval of
        None \<Rightarrow> denied (bad_interval_reason interval)
      | Some seconds \<Rightarrow>
          if int seconds < pl_minCronIntervalSecs policy then denied (interval_reason policy) else permitted)"
| "validate_schedule plat now (CronExpr expression tzo) policy defaultTz =
     (case tzo of
        Some tz' \<Rightarrow>
          if tz' \<noteq> [] \<and> \<not> cp_valid_tz plat tz' then denied (''Unknown timezone: '' @ tz')
          else validate_expression plat now expression tz' policy
      | None \<Rightarrow> validate_expression plat now expression defaultTz policy)"
| "validate_schedule plat now (OtherSchedule j) policy defaultTz = permitted"

text \<open>The guards; the counts are the answers of the task repository.\<close>

definition can_create ::
  "cron_platform \<Rightarrow> int \<Rightarrow> nat \<Rightarrow> cron_schedule \<Rightarrow> bool \<Rightarrow> policy_limits \<Rightarrow> string \<Rightarrow> guard_result" where
  "can_create plat now activeCount schedule isInCronExecution policy defaultTz =
     (if \<not> pl_cronEnabled policy then denied ''Cron is not available on your policy''
      else if isInCronExecution then denied ''Cannot create cron jobs during scheduled execution''
      else if pl_maxScheduledTasks policy \<le> activeCount
      then denied (''You'' @ [CHR 0x27] @ ''ve reached your limit of '' @ show_nat (pl_maxScheduledTasks policy) @
                   '' scheduled tasks'')
      else validate_schedule plat now schedule policy defaultTz)"

definition can_update :: "cron_platform \<Rightarrow> int \<Rightarrow> cron_schedule \<Rightarrow> policy_limits \<Rightarrow> string \<Rightarrow> guard_result" where
  "can_update plat now schedule policy defaultTz =
     (if \<not> pl_cronEnabled policy then denied ''Cron is not available on your policy''
      else validate_schedule plat now schedule policy defaultTz)"

definition can_dispatch :: "nat \<Rightarrow> nat \<Rightarrow> policy_limits \<Rightarrow> nat \<Rightarrow> nat \<Rightarrow> guard_result" where
  "can_dispatch failures runningCount policy maxConsecutiveFailures maxConcurrentPerUser =
     (if \<not> pl_cronEnabled policy then denied ''Cron disabled on policy''
      else if maxConsecutiveFailures \<le> failures
      then denied (''Max consecutive failures reached ('' @ show_nat maxConsecutiveFailures @ '')'')
      else if maxConcurrentPerUser \<le> runningCount then denied ''Concurrent cron run limit reached''
      else permitted)"

section \<open>The next run\<close>

fun compute_next_run :: "cron_platform \<Rightarrow> int \<Rightarrow> cron_schedule \<Rightarrow> string \<Rightarrow> int option" where
  "compute_next_run plat now (At time) defaultTz =
     (case cp_date plat time of None \<Rightarrow> None | Some t \<Rightarrow> if now < t then Some t else None)"
| "compute_next_run plat now (Every interval) defaultTz =
     (case parse_interval_to_ms interval of
        None \<Rightarrow> None
      | Some ms \<Rightarrow> if ms = 0 then None else Some (now + int ms))"
| "compute_next_run plat now (CronExpr expression tzo) defaultTz =
     (case cp_parse plat expression (Some (case tzo of None \<Rightarrow> defaultTz | Some tz' \<Rightarrow> tz')) now of
        None \<Rightarrow> None
      | Some occ \<Rightarrow> occ 0)"
| "compute_next_run plat now (OtherSchedule j) defaultTz = None"

section \<open>Texts of errors\<close>

definition replace_underscores :: "string \<Rightarrow> string" where
  "replace_underscores = map (\<lambda>c. if c = CHR ''_'' then CHR '' '' else c)"

text \<open>\<open>Math.round\<close>: halves go up.\<close>

definition minutes_of :: "nat \<Rightarrow> nat" where
  "minutes_of timeoutMs = (2 * timeoutMs + 60000) div 120000"

definition translate_cron_error :: "string option \<Rightarrow> nat \<Rightarrow> string" where
  "translate_cron_error rawError timeoutMs =
     (case rawError of
        None \<Rightarrow> ''the task failed for an unknown reason.''
      | Some raw \<Rightarrow>
          if raw = [] then ''the task failed for an unknown reason.''
          else
            (let normalized = replace_underscores (to_lower raw) in
             if normalized = ''execution timeout'' \<or> str_includes normalized ''timed out''
             then ''your scheduled task hit the '' @ show_nat (minutes_of timeoutMs) @ ''-minute limit and was stopped.''
             else if str_includes normalized ''budget''
             then ''the task ran out of its token budget before finishing.''
             else if str_includes normalized ''container''
             then ''the agent container failed to start or crashed.''
             else ''the task encountered an error: '' @
                  (if 200 < length raw then take 200 raw @ ellipsis else raw)))"

section \<open>Accepted schedules\<close>

text \<open>What the guard accepts has a next run: at the requested time or at least the policy's
  minimal interval away; a cron expression when \<open>cron-parser\<close> accepts the same zone name.\<close>

theorem accepted_schedule_runs:
  assumes ok: "gr_allowed (can_create plat now n schedule inCron policy defaultTz)"
    and min: "1 \<le> pl_minCronIntervalSecs policy"
  shows "n < pl_maxScheduledTasks policy \<and>
    (case schedule of
       At time \<Rightarrow> compute_next_run plat now schedule defaultTz = cp_date plat time \<and>
         (\<exists>t. cp_date plat time = Some t \<and> now < t)
     | Every i \<Rightarrow> \<exists>t. compute_next_run plat now schedule defaultTz = Some t \<and>
         now + 1000 * pl_minCronIntervalSecs policy \<le> t
     | CronExpr e tzo \<Rightarrow>
         (let tz = (case tzo of None \<Rightarrow> defaultTz | Some z \<Rightarrow> z) in
          tz \<noteq> [] \<longrightarrow> (\<exists>occ. cp_parse plat e (Some tz) now = Some occ \<and>
            compute_next_run plat now schedule defaultTz = occ 0))
     | OtherSchedule j \<Rightarrow> compute_next_run plat now schedule defaultTz = None)"
proof -
  have n: "n < pl_maxScheduledTasks policy" and v: "gr_allowed (validate_schedule plat now schedule policy defaultTz)"
    using ok by (auto simp: can_create_def split: if_splits)
  show ?thesis
  proof (cases schedule)
    case (At time)
    with v n show ?thesis by (auto split: if_splits option.splits)
  next
    case (Every i)
    with v obtain s where s: "parse_interval_to_seconds i = Some s" "pl_minCronIntervalSecs policy \<le> int s"
      by (auto split: if_splits option.splits)
    moreover from this min have "0 < s" by linarith
    ultimately show ?thesis using n Every by (simp add: parse_interval_ms)
  next
    case (CronExpr e tzo)
    with v have "gr_allowed (validate_expression plat now e (case tzo of None \<Rightarrow> defaultTz | Some z \<Rightarrow> z) policy)"
      by (auto split: if_splits option.splits)
    then have "is_valid_cron_expression plat now e (case tzo of None \<Rightarrow> defaultTz | Some z \<Rightarrow> z)"
      by (auto simp: validate_expression_def split: if_splits)
    with n CronExpr show ?thesis by (auto simp: is_valid_cron_expression_def tz_option_def Let_def)
  next
    case (OtherSchedule j)
    with n show ?thesis by simp
  qed
qed

definition sample_platform :: cron_platform where
  "sample_platform = \<lparr>cp_date = (\<lambda>s. if s = ''2030-01-01T00:00:00Z'' then Some 1893456000000 else None),
     cp_valid_tz = (\<lambda>tz. tz = ''UTC''), cp_iso = (\<lambda>_. ''iso''), cp_parse = (\<lambda>e tz now. None)\<rparr>"

definition sample_policy :: policy_limits where
  "sample_policy = \<lparr>pl_cronEnabled = True, pl_maxScheduledTasks = 2, pl_minCronIntervalSecs = 60, pl_maxTokensPerCronRun = None\<rparr>"

theorem accepted_schedule_runs_witness:
  "gr_allowed (can_create sample_platform 0 1 (Every ''5m'') False sample_policy ''UTC'') \<and>
   (\<exists>t. compute_next_run sample_platform 0 (Every ''5m'') ''UTC'' = Some t \<and> 60000 \<le> t)"
proof -
  have ok: "gr_allowed (can_create sample_platform 0 1 (Every ''5m'') False sample_policy ''UTC'')"
    by (simp add: can_create_def sample_policy_def parse_interval_to_seconds_def parse_interval_def unit_seconds_def
        is_digit_def read_nat_def digit_val_def)
  from accepted_schedule_runs [OF this] ok show ?thesis by (simp add: sample_policy_def del: compute_next_run.simps)
qed

end
