(* ===== verification/CronTasks.thy ===== *)
theory CronTasks
  imports CronSchedule SessionStore
begin

text \<open>
  The tables of the scheduled tasks and the repositories over them: \<open>db/task.repository.ts\<close> and
  \<open>db/task-run.repository.ts\<close>, with the rows of users, policies and channels the cron services look
  up. Ids of tasks and runs are the numbers in which the database hands them out. A repository call
  is a state transformer that may throw; \<open>and_then\<close> sequences such calls. Conflicts of unique columns
  do not occur on these tables. Columns nothing here reads are left out.
\<close>

section \<open>Rows\<close>

datatype task_status = Pending | Running | Completed | Failed | Cancelled

record cron_task =
  ct_id :: nat
  ct_agentDefinitionId :: string
  ct_name :: string
  ct_schedule :: cron_schedule
  ct_prompt :: string
  ct_channelId :: "nat option"
  ct_enabled :: bool
  ct_lastRunAt :: "int option"
  ct_lastStatus :: "task_status option"
  ct_createdByUserId :: "string option"
  ct_nextRunAt :: "int option"
  ct_consecutiveFailures :: nat
  ct_disabledReason :: "string option"
  ct_timeoutMs :: "nat option"

record task_run =
  rn_id :: nat
  rn_taskId :: nat
  rn_status :: task_status
  rn_output :: "string option"
  rn_error :: "string option"
  rn_tokens :: "(nat \<times> nat) option"
  rn_startedAt :: int
  rn_completedAt :: "int option"
  rn_durationMs :: "int option"

record channel_row =
  ch_id :: nat
  ch_type :: string
  ch_isActive :: bool

text \<open>The payload of \<open>cronResultReady\<close>.\<close>

record cron_frame =
  cf_success :: bool
  cf_channelId :: nat
  cf_userId :: string
  cf_taskId :: nat
  cf_text :: string
  cf_autoDisabled :: bool
  cf_anchor :: "(string \<times> string) option"

record cron_db =
  cd_tasks :: "cron_task list"
  cd_runs :: "task_run list"
  cd_messages :: "task_run_message list"
  cd_sessions :: session_db
  cd_users :: "(string \<times> string) list"
  cd_policies :: "(string \<times> policy_limits) list"
  cd_channels :: "channel_row list"
  cd_published :: "cron_frame list"
  cd_nextId :: nat
  cd_now :: int

section \<open>Operations that may throw\<close>

type_synonym 'a cron_op = "cron_db \<Rightarrow> (thrown + 'a) \<times> cron_db"

definition and_then :: "'a cron_op \<Rightarrow> ('a \<Rightarrow> 'b cron_op) \<Rightarrow> 'b cron_op" where
  "and_then f g db = (case f db of (Inl e, db') \<Rightarrow> (Inl e, db') | (Inr x, db') \<Rightarrow> g x db')"

definition give :: "'a \<Rightarrow> 'a cron_op" where
  "give x db = (Inr x, db)"

lemma and_then_Inr: "f db = (Inr x, db') \<Longrightarrow> and_then f g db = g x db'"
  by (simp add: and_then_def)

lemma and_then_Inl: "f db = (Inl e, db') \<Longrightarrow> and_then f g db = (Inl e, db')"
  by (simp add: and_then_def)

section \<open>Users, policies, channels\<close>

definition find_user :: "string \<Rightarrow> cron_db \<Rightarrow> thrown + string" where
  "find_user u db = (case map_of (cd_users db) u of None \<Rightarrow> Inl (not_found_error ''User'' u) | Some p \<Rightarrow> Inr p)"

definition find_policy :: "string \<Rightarrow> cron_db \<Rightarrow> thrown + policy_limits" where
  "find_policy p db = (case map_of (cd_policies db) p of None \<Rightarrow> Inl (not_found_error ''Policy'' p) | Some l \<Rightarrow> Inr l)"

text \<open>\<open>userRepo.findById\<close> followed by \<open>policyRepo.findById\<close>.\<close>

definition policy_of_user :: "string \<Rightarrow> cron_db \<Rightarrow> thrown + policy_limits" where
  "policy_of_user u db = (case find_user u db of Inl e \<Rightarrow> Inl e | Inr p \<Rightarrow> find_policy p db)"

definition find_channel :: "nat \<Rightarrow> cron_db \<Rightarrow> thrown + channel_row" where
  "find_channel c db =
     (case find (\<lambda>r. ch_id r = c) (cd_channels db) of
        None \<Rightarrow> Inl (not_found_error ''Channel'' (show_nat c)) | Some r \<Rightarrow> Inr r)"

section \<open>Task repository\<close>

definition task_of :: "nat \<Rightarrow> cron_db \<Rightarrow> cron_task option" where
  "task_of i db = find (\<lambda>t. ct_id t = i) (cd_tasks db)"

definition task_find_by_id :: "nat \<Rightarrow> cron_task cron_op" where
  "task_find_by_id i db =
     (case task_of i db of None \<Rightarrow> (Inl (not_found_error ''Task'' (show_nat i)), db) | Some t \<Rightarrow> (Inr t, db))"

text \<open>\<open>prisma.task.update\<close>: a missing row is \<open>P2025\<close>, which \<open>handlePrismaError\<close> maps to \<open>NotFoundError\<close>.\<close>

definition set_task :: "nat \<Rightarrow> (cron_task \<Rightarrow> cron_task) \<Rightarrow> cron_db \<Rightarrow> cron_db" where
  "set_task i f db = db\<lparr>cd_tasks := map (\<lambda>x. if ct_id x = i then f x else x) (cd_tasks db)\<rparr>"

text \<open>An update tells a missing row. Any other failure of the database is left to whoever writes: an
  execution meets it in \<open>CronProcessor.attempt_write\<close>.\<close>

definition task_update :: "nat \<Rightarrow> (cron_task \<Rightarrow> cron_task) \<Rightarrow> cron_task cron_op" where
  "task_update i f db =
     (case task_of i db of
        None \<Rightarrow> (Inl (not_found_error ''Task'' ''unknown''), db)
      | Some t \<Rightarrow> (Inr (f t), set_task i f db))"

definition task_create ::
  "string \<Rightarrow> string \<Rightarrow> cron_schedule \<Rightarrow> string \<Rightarrow> nat option \<Rightarrow> bool option \<Rightarrow> string option \<Rightarrow> cron_task cron_op" where
  "task_create agentDefinitionId name schedule prompt channelId enabled createdBy db =
     (let t = \<lparr>ct_id = cd_nextId db, ct_agentDefinitionId = agentDefinitionId, ct_name = name, ct_schedule = schedule,
               ct_prompt = prompt, ct_channelId = channelId,
               ct_enabled = (case enabled of None \<Rightarrow> True | Some b \<Rightarrow> b),
               ct_lastRunAt = None, ct_lastStatus = None, ct_createdByUserId = createdBy, ct_nextRunAt = None,
               ct_consecutiveFailures = 0, ct_disabledReason = None, ct_timeoutMs = None\<rparr>
      in (Inr t, db\<lparr>cd_tasks := cd_tasks db @ [t], cd_nextId := Suc (cd_nextId db)\<rparr>))"

text \<open>The fields of an update; \<open>None\<close> is \<open>undefined\<close>.\<close>

record task_patch =
  tp_name :: "string option"
  tp_schedule :: "cron_schedule option"
  tp_prompt :: "string option"
  tp_channelId :: "nat option option"
  tp_enabled :: "bool option"

definition apply_patch :: "task_patch \<Rightarrow> cron_task \<Rightarrow> cron_task" where
  "apply_patch p t =
     t\<lparr>ct_name := (case tp_name p of None \<Rightarrow> ct_name t | Some x \<Rightarrow> x),
       ct_schedule := (case tp_schedule p of None \<Rightarrow> ct_schedule t | Some x \<Rightarrow> x),
       ct_prompt := (case tp_prompt p of None \<Rightarrow> ct_prompt t | Some x \<Rightarrow> x),
       ct_channelId := (case tp_channelId p of None \<Rightarrow> ct_channelId t | Some x \<Rightarrow> x),
       ct_enabled := (case tp_enabled p of None \<Rightarrow> ct_enabled t | Some x \<Rightarrow> x)\<rparr>"

definition task_update_fields :: "nat \<Rightarrow> task_patch \<Rightarrow> cron_task cron_op" where
  "task_update_fields i p = task_update i (apply_patch p)"

definition update_last_run :: "nat \<Rightarrow> task_status \<Rightarrow> int \<Rightarrow> cron_task cron_op" where
  "update_last_run i status timestamp =
     task_update i (\<lambda>t. t\<lparr>ct_lastRunAt := Some timestamp, ct_lastStatus := Some status\<rparr>)"

definition increment_failures :: "nat \<Rightarrow> cron_task cron_op" where
  "increment_failures i = task_update i (\<lambda>t. t\<lparr>ct_consecutiveFailures := Suc (ct_consecutiveFailures t)\<rparr>)"

definition reset_failures :: "nat \<Rightarrow> cron_task cron_op" where
  "reset_failures i = task_update i (\<lambda>t. t\<lparr>ct_consecutiveFailures := 0, ct_disabledReason := None\<rparr>)"

definition auto_disable :: "nat \<Rightarrow> string \<Rightarrow> cron_task cron_op" where
  "auto_disable i reason = task_update i (\<lambda>t. t\<lparr>ct_enabled := False, ct_disabledReason := Some reason\<rparr>)"

definition update_next_run_at :: "nat \<Rightarrow> int option \<Rightarrow> cron_task cron_op" where
  "update_next_run_at i t' = task_update i (\<lambda>t. t\<lparr>ct_nextRunAt := t'\<rparr>)"

text \<open>Deleting a task deletes its runs and their messages.\<close>

definition task_delete :: "nat \<Rightarrow> cron_task cron_op" where
  "task_delete i db =
     (case task_of i db of
        None \<Rightarrow> (Inl (not_found_error ''Task'' ''unknown''), db)
      | Some t \<Rightarrow>
          (Inr t,
           db\<lparr>cd_tasks := filter (\<lambda>x. ct_id x \<noteq> i) (cd_tasks db),
              cd_runs := filter (\<lambda>r. rn_taskId r \<noteq> i) (cd_runs db),
              cd_messages := filter (\<lambda>m. tm_taskRunId m \<notin>
                 (\<lambda>r. show_nat (rn_id r)) ` set (filter (\<lambda>r. rn_taskId r = i) (cd_runs db))) (cd_messages db)\<rparr>))"

definition has_running :: "nat \<Rightarrow> cron_db \<Rightarrow> bool" where
  "has_running i db = list_ex (\<lambda>r. rn_taskId r = i \<and> rn_status r = Running) (cd_runs db)"

definition is_due :: "int \<Rightarrow> cron_db \<Rightarrow> cron_task \<Rightarrow> bool" where
  "is_due now db t =
     (ct_enabled t \<and> (case ct_nextRunAt t of None \<Rightarrow> False | Some n \<Rightarrow> n \<le> now) \<and> \<not> has_running (ct_id t) db)"

definition find_due :: "int \<Rightarrow> nat \<Rightarrow> cron_db \<Rightarrow> cron_task list" where
  "find_due now limit db =
     take limit (sort_key (\<lambda>t. case ct_nextRunAt t of None \<Rightarrow> 0 | Some n \<Rightarrow> n) (filter (is_due now db) (cd_tasks db)))"

definition find_by_user :: "string \<Rightarrow> cron_db \<Rightarrow> cron_task list" where
  "find_by_user u db = rev (filter (\<lambda>t. ct_createdByUserId t = Some u) (cd_tasks db))"

definition find_active_count_by_user :: "string \<Rightarrow> cron_db \<Rightarrow> nat" where
  "find_active_count_by_user u db = count_if (\<lambda>t. ct_createdByUserId t = Some u \<and> ct_enabled t) (cd_tasks db)"

definition find_running_count_by_user :: "string \<Rightarrow> cron_db \<Rightarrow> nat" where
  "find_running_count_by_user u db =
     count_if (\<lambda>t. ct_createdByUserId t = Some u \<and> has_running (ct_id t) db) (cd_tasks db)"

definition find_enabled :: "cron_db \<Rightarrow> cron_task list" where
  "find_enabled db = filter ct_enabled (cd_tasks db)"

record 'a page =
  pg_data :: "'a list"
  pg_total :: nat
  pg_page :: nat
  pg_limit :: nat
  pg_totalPages :: nat

text \<open>\<open>buildPaginationArgs\<close> and \<open>buildPaginatedResponse\<close>, for a limit of at least one.\<close>

definition paginate :: "nat \<Rightarrow> nat \<Rightarrow> 'a list \<Rightarrow> 'a page" where
  "paginate pageNo limit rows =
     \<lparr>pg_data = take limit (drop ((pageNo - 1) * limit) rows), pg_total = length rows, pg_page = pageNo,
      pg_limit = limit, pg_totalPages = (length rows + limit - 1) div limit\<rparr>"

definition task_find_all :: "nat \<Rightarrow> nat \<Rightarrow> cron_db \<Rightarrow> cron_task page" where
  "task_find_all pageNo limit db = paginate pageNo limit (rev (cd_tasks db))"

section \<open>Run repository\<close>

definition run_of :: "nat \<Rightarrow> cron_db \<Rightarrow> task_run option" where
  "run_of i db = find (\<lambda>r. rn_id r = i) (cd_runs db)"

definition run_find_by_id :: "nat \<Rightarrow> task_run cron_op" where
  "run_find_by_id i db =
     (case run_of i db of None \<Rightarrow> (Inl (not_found_error ''TaskRun'' (show_nat i)), db) | Some r \<Rightarrow> (Inr r, db))"

text \<open>A run of a task that is gone violates the foreign key, which is no mapped error.\<close>

definition run_create :: "nat \<Rightarrow> task_status \<Rightarrow> task_run cron_op" where
  "run_create taskId status db =
     (case task_of taskId db of
        None \<Rightarrow> (Inl ThrownOther, db)
      | Some _ \<Rightarrow>
          (let r = \<lparr>rn_id = cd_nextId db, rn_taskId = taskId, rn_status = status, rn_output = None, rn_error = None,
                    rn_tokens = None, rn_startedAt = cd_now db, rn_completedAt = None, rn_durationMs = None\<rparr>
           in (Inr r, db\<lparr>cd_runs := cd_runs db @ [r], cd_nextId := Suc (cd_nextId db)\<rparr>)))"

definition set_run :: "nat \<Rightarrow> (task_run \<Rightarrow> task_run) \<Rightarrow> cron_db \<Rightarrow> cron_db" where
  "set_run i f db = db\<lparr>cd_runs := map (\<lambda>x. if rn_id x = i then f x else x) (cd_runs db)\<rparr>"

definition run_update :: "nat \<Rightarrow> (task_run \<Rightarrow> task_run) \<Rightarrow> task_run cron_op" where
  "run_update i f db =
     (case run_of i db of
        None \<Rightarrow> (Inl (not_found_error ''TaskRun'' ''unknown''), db)
      | Some r \<Rightarrow> (Inr (f r), set_run i f db))"

definition mark_orphaned_runs :: "int \<Rightarrow> cron_db \<Rightarrow> nat \<times> cron_db" where
  "mark_orphaned_runs staleThresholdMs db =
     (let cutoff = cd_now db - staleThresholdMs;
          stale = (\<lambda>r. rn_status r = Running \<and> rn_startedAt r < cutoff)
      in (count_if stale (cd_runs db),
          db\<lparr>cd_runs := map (\<lambda>r. if stale r
                                  then r\<lparr>rn_status := Failed, rn_error := Some ''orphaned_by_restart'',
                                         rn_completedAt := Some (cd_now db)\<rparr>
                                  else r) (cd_runs db)\<rparr>))"

definition find_runs :: "nat \<Rightarrow> nat \<Rightarrow> task_status option \<Rightarrow> cron_db \<Rightarrow> task_run list" where
  "find_runs taskId limit status db =
     take limit (rev (sort_key rn_startedAt
       (filter (\<lambda>r. rn_taskId r = taskId \<and> (case status of None \<Rightarrow> True | Some s \<Rightarrow> rn_status r = s)) (cd_runs db))))"

definition find_latest_by_task_id :: "nat \<Rightarrow> cron_db \<Rightarrow> task_run option" where
  "find_latest_by_task_id taskId db =
     (case find_runs taskId 1 None db of [] \<Rightarrow> None | r # _ \<Rightarrow> Some r)"

section \<open>Invariants of the tables\<close>

text \<open>Ids are distinct and below the next one; every run belongs to a task.\<close>

definition cron_ok :: "cron_db \<Rightarrow> bool" where
  "cron_ok db \<longleftrightarrow>
     distinct (map ct_id (cd_tasks db)) \<and> distinct (map rn_id (cd_runs db)) \<and>
     (\<forall>t \<in> set (cd_tasks db). ct_id t < cd_nextId db) \<and>
     (\<forall>r \<in> set (cd_runs db). rn_id r < cd_nextId db \<and> rn_taskId r \<in> ct_id ` set (cd_tasks db))"

lemma find_map_key:
  assumes "\<And>x. key (f x) = key x"
  shows "find (\<lambda>x. key x = j) (map (\<lambda>x. if key x = i then f x else x) xs) =
    (if j = i then map_option f (find (\<lambda>x. key x = i) xs) else find (\<lambda>x. key x = j) xs)"
  using assms by (induction xs) auto

lemma task_of_set_task:
  "(\<And>x. ct_id (f x) = ct_id x) \<Longrightarrow>
   task_of j (set_task i f db) = (if j = i then map_option f (task_of i db) else task_of j db)"
  using find_map_key [of ct_id f j i "cd_tasks db"] by (simp add: task_of_def set_task_def)

lemma run_of_set_run:
  "(\<And>x. rn_id (f x) = rn_id x) \<Longrightarrow>
   run_of j (set_run i f db) = (if j = i then map_option f (run_of i db) else run_of j db)"
  using find_map_key [of rn_id f j i "cd_runs db"] by (simp add: run_of_def set_run_def)

lemma set_task_frame [simp, frame]:
  "run_of j (set_task i f db) = run_of j db" "cd_runs (set_task i f db) = cd_runs db"
  "cd_now (set_task i f db) = cd_now db" "cd_channels (set_task i f db) = cd_channels db"
  "cd_nextId (set_task i f db) = cd_nextId db" "cd_sessions (set_task i f db) = cd_sessions db"
  "cd_users (set_task i f db) = cd_users db" "cd_policies (set_task i f db) = cd_policies db"
  "cd_published (set_task i f db) = cd_published db"
  by (simp_all add: set_task_def run_of_def)

lemma set_run_frame [simp, frame]:
  "task_of j (set_run i f db) = task_of j db" "cd_tasks (set_run i f db) = cd_tasks db"
  "cd_now (set_run i f db) = cd_now db" "cd_channels (set_run i f db) = cd_channels db"
  "cd_nextId (set_run i f db) = cd_nextId db" "cd_sessions (set_run i f db) = cd_sessions db"
  "cd_users (set_run i f db) = cd_users db" "cd_policies (set_run i f db) = cd_policies db"
  "cd_published (set_run i f db) = cd_published db"
  by (simp_all add: set_run_def task_of_def)

lemma task_update_Some: "task_of i db = Some t \<Longrightarrow> task_update i f db = (Inr (f t), set_task i f db)"
  by (simp add: task_update_def)

lemma run_update_Some: "run_of i db = Some r \<Longrightarrow> run_update i f db = (Inr (f r), set_run i f db)"
  by (simp add: run_update_def)

lemma task_of_Some: "task_of i db = Some t \<Longrightarrow> t \<in> set (cd_tasks db) \<and> ct_id t = i"
  unfolding task_of_def by (induction "cd_tasks db") (auto simp: find_Some_iff)

lemma run_of_Some: "run_of i db = Some r \<Longrightarrow> r \<in> set (cd_runs db) \<and> rn_id r = i"
  unfolding run_of_def by (induction "cd_runs db") (auto simp: find_Some_iff)

end
