(* ===== verification/CronJobs.thy ===== *)
theory CronJobs
  imports CronTasks
begin

text \<open>
  The two ways to manage scheduled tasks: \<open>tasks/tasks.service.ts\<close> behind the web API (with
  \<open>tasks/task-runs.controller.ts\<close>) and the \<open>cron\<close> tool of the agents (\<open>engine/tools/cron.ts\<close>). The tool
  registry has cast and validated the arguments of the tool, so a parameter has the type its schema
  gives it.
\<close>

section \<open>TasksService\<close>

record create_task_input =
  ci_agentDefinitionId :: string
  ci_name :: string
  ci_schedule :: cron_schedule
  ci_prompt :: string
  ci_channelId :: "nat option"
  ci_enabled :: bool
  ci_timeoutMs :: "nat option"

record update_task_input = task_patch +
  ui_timeoutMs :: "nat option option"

definition plain_error :: "string \<Rightarrow> thrown" where
  "plain_error message = ThrownError (ErrorObj message None None None)"

text \<open>\<open>new Error(guardResult.reason ?? fallback)\<close>\<close>

definition guard_error :: "guard_result \<Rightarrow> string \<Rightarrow> thrown" where
  "guard_error g fallback = plain_error (case gr_reason g of None \<Rightarrow> fallback | Some r \<Rightarrow> r)"

text \<open>The initial \<open>nextRunAt\<close>, written only when there is one.\<close>

definition set_first_run :: "cron_platform \<Rightarrow> cron_schedule \<Rightarrow> string \<Rightarrow> nat \<Rightarrow> unit cron_op" where
  "set_first_run plat schedule defaultTz i db =
     (case compute_next_run plat (cd_now db) schedule defaultTz of
        None \<Rightarrow> (Inr (), db)
      | Some t \<Rightarrow> and_then (update_next_run_at i (Some t)) (\<lambda>_. give ()) db)"

definition ts_create :: "cron_platform \<Rightarrow> string \<Rightarrow> string \<Rightarrow> create_task_input \<Rightarrow> cron_task cron_op" where
  "ts_create plat defaultTz userId input db =
     (case policy_of_user userId db of
        Inl e \<Rightarrow> (Inl e, db)
      | Inr policy \<Rightarrow>
          (let g = can_create plat (cd_now db) (find_active_count_by_user userId db) (ci_schedule input) False policy defaultTz in
           if \<not> gr_allowed g then (Inl (guard_error g ''Task creation denied''), db)
           else
             and_then (task_create (ci_agentDefinitionId input) (ci_name input) (ci_schedule input) (ci_prompt input)
                         (ci_channelId input) (Some (ci_enabled input)) (Some userId))
               (\<lambda>task. and_then (set_first_run plat (ci_schedule input) defaultTz (ct_id task)) (\<lambda>_. give task)) db))"

definition ts_check_schedule :: "cron_platform \<Rightarrow> string \<Rightarrow> string \<Rightarrow> cron_schedule option \<Rightarrow> unit cron_op" where
  "ts_check_schedule plat defaultTz userId schedule db =
     (case schedule of
        None \<Rightarrow> (Inr (), db)
      | Some s \<Rightarrow>
          (case policy_of_user userId db of
             Inl e \<Rightarrow> (Inl e, db)
           | Inr policy \<Rightarrow>
               (let g = can_update plat (cd_now db) s policy defaultTz in
                if gr_allowed g then (Inr (), db) else (Inl (guard_error g ''Task update denied''), db))))"

definition ts_reschedule :: "cron_platform \<Rightarrow> string \<Rightarrow> cron_schedule option \<Rightarrow> nat \<Rightarrow> unit cron_op" where
  "ts_reschedule plat defaultTz schedule i db =
     (case schedule of
        None \<Rightarrow> (Inr (), db)
      | Some s \<Rightarrow>
          if defaultTz = [] then (Inr (), db)
          else and_then (update_next_run_at i (compute_next_run plat (cd_now db) s defaultTz)) (\<lambda>_. give ()) db)"

definition ts_update :: "cron_platform \<Rightarrow> string \<Rightarrow> nat \<Rightarrow> string \<Rightarrow> update_task_input \<Rightarrow> cron_task cron_op" where
  "ts_update plat defaultTz i userId input =
     and_then (task_find_by_id i) (\<lambda>task.
       if ct_createdByUserId task \<noteq> Some userId
       then (\<lambda>db. (Inl (plain_error ''Not authorized to update this task''), db))
       else
         and_then (ts_check_schedule plat defaultTz userId (tp_schedule input)) (\<lambda>_.
         and_then (task_update_fields i (task_patch.truncate input)) (\<lambda>result.
         and_then (ts_reschedule plat defaultTz (tp_schedule input) i) (\<lambda>_.
         and_then (if 0 < ct_consecutiveFailures task then reset_failures i else give task) (\<lambda>_. give result)))))"

definition ts_remove :: "nat \<Rightarrow> string \<Rightarrow> cron_task cron_op" where
  "ts_remove i userId =
     and_then (task_find_by_id i) (\<lambda>task.
       if ct_createdByUserId task \<noteq> Some userId
       then (\<lambda>db. (Inl (plain_error ''Not authorized to remove this task''), db))
       else task_delete i)"

text \<open>The user of \<open>findAll\<close> is only logged.\<close>

definition ts_find_all :: "string \<Rightarrow> nat \<Rightarrow> nat \<Rightarrow> cron_db \<Rightarrow> cron_task page" where
  "ts_find_all userId pageNo limit db = task_find_all pageNo limit db"

definition ts_find_by_id :: "nat \<Rightarrow> cron_task cron_op" where
  "ts_find_by_id i = task_find_by_id i"

text \<open>The runs of a task over the web API.\<close>

definition http_not_found :: "string \<Rightarrow> thrown" where
  "http_not_found message = ThrownError (ErrorObj message None (Some 404) None)"

definition list_runs :: "nat \<Rightarrow> string \<Rightarrow> nat option \<Rightarrow> task_run list cron_op" where
  "list_runs i caller limit =
     and_then (task_find_by_id i) (\<lambda>task db.
       if ct_createdByUserId task \<noteq> Some caller then (Inl (http_not_found ''Task not found''), db)
       else (Inr (find_runs i (min (case limit of None \<Rightarrow> 20 | Some n \<Rightarrow> n) 50) None db), db))"

definition run_messages :: "nat \<Rightarrow> nat \<Rightarrow> string \<Rightarrow> (task_run \<times> task_run_message list) cron_op" where
  "run_messages i runId caller =
     and_then (task_find_by_id i) (\<lambda>task.
       if ct_createdByUserId task \<noteq> Some caller then (\<lambda>db. (Inl (http_not_found ''Task not found''), db))
       else and_then (run_find_by_id runId) (\<lambda>run db.
         if rn_taskId run \<noteq> i then (Inl (http_not_found ''Run not found''), db)
         else (Inr (run, find_by_task_run_id (show_nat runId) (cd_messages db)), db)))"

section \<open>The cron tool\<close>

record cron_tool_env =
  cx_plat :: cron_platform
  cx_json :: "string \<Rightarrow> json option"
  cx_userId :: string
  cx_agentDefinitionId :: string
  cx_policy :: policy_limits
  cx_isInCronExecution :: bool
  cx_sessionChannelId :: "nat option"
  cx_defaultTz :: string

definition tool_ok :: "string \<Rightarrow> tool_result" where
  "tool_ok output = \<lparr>tr_output = output, tr_isError = False\<rparr>"

definition tool_err :: "string \<Rightarrow> tool_result" where
  "tool_err output = \<lparr>tr_output = output, tr_isError = True\<rparr>"

definition reply_err :: "string \<Rightarrow> tool_result cron_op" where
  "reply_err output db = (Inr (tool_err output), db)"

definition param_text :: "string \<Rightarrow> (string \<times> json) list \<Rightarrow> string option" where
  "param_text k params = (case map_of params k of Some (JStr s) \<Rightarrow> Some s | _ \<Rightarrow> None)"

definition cron_requires_approval :: "(string \<times> json) list \<Rightarrow> bool" where
  "cron_requires_approval p =
     (let action = (case map_of p ''action'' of None \<Rightarrow> ''undefined'' | Some v \<Rightarrow> js_string v)
      in action \<in> {''create'', ''remove''})"

definition param_or_empty :: "string \<Rightarrow> (string \<times> json) list \<Rightarrow> string" where
  "param_or_empty k p = (case map_of p k of None \<Rightarrow> [] | Some JNull \<Rightarrow> [] | Some v \<Rightarrow> js_string v)"

definition cron_resource_key :: "(string \<times> json) list \<Rightarrow> string" where
  "cron_resource_key p =
     (let action = param_or_empty ''action'' p; jobId = param_or_empty ''jobId'' p
      in if jobId \<noteq> [] then action @ '':'' @ jobId else action)"

definition status_name :: "task_status \<Rightarrow> string" where
  "status_name s =
     (case s of Pending \<Rightarrow> ''pending'' | Running \<Rightarrow> ''running'' | Completed \<Rightarrow> ''completed'' | Failed \<Rightarrow> ''failed''
      | Cancelled \<Rightarrow> ''cancelled'')"

definition status_of :: "string \<Rightarrow> task_status option" where
  "status_of s = find (\<lambda>x. status_name x = s) [Pending, Running, Completed, Failed, Cancelled]"

definition null_or :: "('a \<Rightarrow> json) \<Rightarrow> 'a option \<Rightarrow> json" where
  "null_or f x = (case x of None \<Rightarrow> JNull | Some v \<Rightarrow> f v)"

definition json_nat :: "nat \<Rightarrow> json" where "json_nat n = JNum (of_nat n)"

definition job_json :: "cron_platform \<Rightarrow> cron_task \<Rightarrow> json" where
  "job_json plat t =
     JObj [(''jobId'', JStr (show_nat (ct_id t))), (''name'', JStr (ct_name t)),
           (''schedule'', schedule_json (ct_schedule t)), (''prompt'', JStr (ct_prompt t)),
           (''channelId'', null_or (\<lambda>c. JStr (show_nat c)) (ct_channelId t)), (''enabled'', JBool (ct_enabled t)),
           (''nextRunAt'', null_or (\<lambda>x. JStr (cp_iso plat x)) (ct_nextRunAt t)),
           (''lastRunAt'', null_or (\<lambda>x. JStr (cp_iso plat x)) (ct_lastRunAt t)),
           (''lastStatus'', null_or (\<lambda>s. JStr (status_name s)) (ct_lastStatus t)),
           (''consecutiveFailures'', json_nat (ct_consecutiveFailures t))]"

definition valid_channel_types :: "string list" where
  "valid_channel_types = [''telegram'', ''slack'', ''whatsapp'', ''web'']"

text \<open>Where the results go: an error text, or the channel.\<close>

definition resolve_channel :: "cron_tool_env \<Rightarrow> string option \<Rightarrow> cron_db \<Rightarrow> string + nat option" where
  "resolve_channel env channelParam db =
     (case channelParam of
        None \<Rightarrow> Inr (cx_sessionChannelId env)
      | Some c \<Rightarrow>
          if c = ''none'' then Inr None
          else if c \<in> set valid_channel_types then
            (case find ch_isActive (filter (\<lambda>r. ch_type r = c) (cd_channels db)) of
               None \<Rightarrow> Inl (''No active '' @ c @ '' channel configured.'')
             | Some r \<Rightarrow> Inr (Some (ch_id r)))
          else Inl (''Invalid channel: '' @ [CHR 0x22] @ c @ [CHR 0x22] @ ''. Use telegram, slack, whatsapp, web, or none.''))"

definition created_json :: "cron_platform \<Rightarrow> cron_task \<Rightarrow> int option \<Rightarrow> string" where
  "created_json plat task nextRunAt =
     json_stringify (JObj [(''jobId'', JStr (show_nat (ct_id task))), (''name'', JStr (ct_name task)),
       (''schedule'', schedule_json (ct_schedule task)), (''nextRunAt'', null_or (\<lambda>x. JStr (cp_iso plat x)) nextRunAt)])"

definition missing_field :: "string \<Rightarrow> string" where
  "missing_field f = ''Missing required field: '' @ f @ ''.''"

definition cron_create_task ::
  "cron_tool_env \<Rightarrow> string \<Rightarrow> string \<Rightarrow> cron_schedule \<Rightarrow> nat option \<Rightarrow> tool_result cron_op" where
  "cron_create_task env name prompt schedule channelId db =
     (let g = can_create (cx_plat env) (cd_now db) (find_active_count_by_user (cx_userId env) db) schedule
                (cx_isInCronExecution env) (cx_policy env) (cx_defaultTz env) in
      if \<not> gr_allowed g then reply_err (case gr_reason g of None \<Rightarrow> ''Cron creation denied.'' | Some r \<Rightarrow> r) db
      else
        and_then (task_create (cx_agentDefinitionId env) name schedule prompt channelId (Some True) (Some (cx_userId env)))
          (\<lambda>task.
            let nextRunAt = compute_next_run (cx_plat env) (cd_now db) schedule (cx_defaultTz env) in
            and_then (set_first_run (cx_plat env) schedule (cx_defaultTz env) (ct_id task))
              (\<lambda>_. give (tool_ok (created_json (cx_plat env) task nextRunAt)))) db)"

definition cron_create :: "cron_tool_env \<Rightarrow> (string \<times> json) list \<Rightarrow> tool_result cron_op" where
  "cron_create env params db =
     (if cx_isInCronExecution env then reply_err ''Cannot create cron jobs during scheduled execution.'' db
      else
        (case resolve_channel env (param_text ''channel'' params) db of
           Inl message \<Rightarrow> reply_err message db
         | Inr channelId \<Rightarrow>
             if falsy (param_text ''name'' params) then reply_err (missing_field ''name'') db
             else if falsy (param_text ''prompt'' params) then reply_err (missing_field ''prompt'') db
             else if falsy (param_text ''schedule'' params) then reply_err (missing_field ''schedule'') db
             else
               (case cx_json env (the (param_text ''schedule'' params)) of
                  None \<Rightarrow> reply_err ''Invalid schedule: must be a valid JSON string.'' db
                | Some v \<Rightarrow>
                    (case schedule_of_json v of
                       None \<Rightarrow> if pl_cronEnabled (cx_policy env) \<and>
                                  find_active_count_by_user (cx_userId env) db < pl_maxScheduledTasks (cx_policy env)
                                then (Inl ThrownOther, db)
                                else cron_create_task env [] [] (OtherSchedule v) channelId db
                     | Some schedule \<Rightarrow>
                         cron_create_task env (the (param_text ''name'' params)) (the (param_text ''prompt'' params))
                           schedule channelId db))))"

text \<open>\<open>jobId\<close> names a row by its id.\<close>

definition job_of :: "string \<Rightarrow> cron_db \<Rightarrow> cron_task option" where
  "job_of jobId db = find (\<lambda>t. show_nat (ct_id t) = jobId) (cd_tasks db)"

definition cron_remove :: "cron_tool_env \<Rightarrow> (string \<times> json) list \<Rightarrow> tool_result cron_op" where
  "cron_remove env params db =
     (if cx_isInCronExecution env then reply_err ''Cannot remove cron jobs during scheduled execution.'' db
      else if falsy (param_text ''jobId'' params) then reply_err (missing_field ''jobId'') db
      else
        (let jobId = the (param_text ''jobId'' params) in
         case job_of jobId db of
           None \<Rightarrow> reply_err ''Cron job not found.'' db
         | Some task \<Rightarrow>
             if ct_createdByUserId task \<noteq> Some (cx_userId env)
             then reply_err ''You can only remove your own cron jobs.'' db
             else and_then (task_delete (ct_id task))
                    (\<lambda>_. give (tool_ok (json_stringify (JObj [(''jobId'', JStr jobId), (''removed'', JBool True)])))) db))"

text \<open>The first \<open>n\<close> characters and a note of how many were cut.\<close>

definition clipped :: "nat \<Rightarrow> string \<Rightarrow> string" where
  "clipped n s =
     (if n < length s then take n s @ ellipsis @ '' [truncated '' @ show_nat (length s - n) @ '' chars]'' else s)"

definition tokens_json :: "(nat \<times> nat) option \<Rightarrow> json" where
  "tokens_json tk =
     (case tk of None \<Rightarrow> JObj [] | Some (i, out) \<Rightarrow> JObj [(''inputTokens'', json_nat i), (''outputTokens'', json_nat out)])"

definition run_head_json :: "cron_platform \<Rightarrow> task_run \<Rightarrow> (string \<times> json) list" where
  "run_head_json plat r =
     [(''runId'', JStr (show_nat (rn_id r))), (''status'', JStr (status_name (rn_status r))),
      (''startedAt'', JStr (cp_iso plat (rn_startedAt r))),
      (''completedAt'', null_or (\<lambda>x. JStr (cp_iso plat x)) (rn_completedAt r)),
      (''durationMs'', null_or (\<lambda>d. JNum (of_int d)) (rn_durationMs r)), (''tokenUsage'', tokens_json (rn_tokens r))]"

definition run_json :: "cron_platform \<Rightarrow> task_run \<Rightarrow> json" where
  "run_json plat r =
     JObj (run_head_json plat r @
       [(''output'', if falsy (rn_output r) then JNull else JStr (clipped 2000 (the (rn_output r)))),
        (''error'', null_or JStr (rn_error r))])"

text \<open>\<open>Math.min(Math.max(rawLimit, 1), 50)\<close>; the database refuses a fraction.\<close>

definition runs_limit :: "(string \<times> json) list \<Rightarrow> nat option" where
  "runs_limit params =
     (let raw = (case map_of params ''limit'' of Some (JNum q) \<Rightarrow> q | _ \<Rightarrow> 10); limit = min (max raw 1) 50
      in if is_integer_rat limit then Some (nat \<lfloor>limit\<rfloor>) else None)"

definition cron_runs :: "cron_tool_env \<Rightarrow> (string \<times> json) list \<Rightarrow> tool_result cron_op" where
  "cron_runs env params db =
     (if falsy (param_text ''jobId'' params) then reply_err (missing_field ''jobId'') db
      else
        (case job_of (the (param_text ''jobId'' params)) db of
           None \<Rightarrow> reply_err ''Cron job not found.'' db
         | Some task \<Rightarrow>
             if ct_createdByUserId task \<noteq> Some (cx_userId env) then reply_err ''Cron job not found.'' db
             else
               (case runs_limit params of
                  None \<Rightarrow> (Inl ThrownOther, db)
                | Some limit \<Rightarrow>
                    (let status = (case param_text ''status'' params of None \<Rightarrow> None | Some s \<Rightarrow> status_of s);
                         runs = find_runs (ct_id task) limit status db
                     in (Inr (tool_ok (json_stringify (JObj [(''runs'', JArr (map (run_json (cx_plat env)) runs))]))), db)))))"

definition message_json :: "task_run_message \<Rightarrow> json" where
  "message_json m =
     JObj ([(''role'', JStr (role_name (tm_role m))), (''content'', JStr (clipped 8000 (tm_content m)))] @
           (case tm_toolCallId m of None \<Rightarrow> [] | Some i \<Rightarrow> [(''toolCallId'', JStr i)]) @
           (case tm_toolCalls m of None \<Rightarrow> [] | Some tcs \<Rightarrow> [(''toolCalls'', JArr (map tool_call_json tcs))]))"

definition transcript_json :: "task_run_message list \<Rightarrow> json list" where
  "transcript_json ms =
     (let rows = map message_json ms in
      if 50 < length rows then
        JObj [(''role'', JStr ''system''),
              (''content'', JStr (''[truncated: '' @ show_nat (length rows - 50) @ '' earlier messages]''))]
        # slice_last 50 rows
      else rows)"

definition cron_run_detail :: "cron_tool_env \<Rightarrow> (string \<times> json) list \<Rightarrow> tool_result cron_op" where
  "cron_run_detail env params db =
     (if falsy (param_text ''jobId'' params) then reply_err (missing_field ''jobId'') db
      else if falsy (param_text ''runId'' params) then reply_err (missing_field ''runId'') db
      else
        (case job_of (the (param_text ''jobId'' params)) db of
           None \<Rightarrow> reply_err ''Cron job not found.'' db
         | Some task \<Rightarrow>
             if ct_createdByUserId task \<noteq> Some (cx_userId env) then reply_err ''Cron job not found.'' db
             else
               (case find (\<lambda>r. show_nat (rn_id r) = the (param_text ''runId'' params)) (cd_runs db) of
                  None \<Rightarrow> reply_err ''Cron run not found.'' db
                | Some run \<Rightarrow>
                    if rn_taskId run \<noteq> ct_id task then reply_err ''Cron run not found.'' db
                    else
                      (Inr (tool_ok (json_stringify (JObj (run_head_json (cx_plat env) run @
                         [(''output'', null_or JStr (rn_output run)), (''error'', null_or JStr (rn_error run)),
                          (''messages'', JArr (transcript_json
                              (find_by_task_run_id (show_nat (rn_id run)) (cd_messages db))))])))), db))))"

definition cron_execute :: "cron_tool_env \<Rightarrow> (string \<times> json) list \<Rightarrow> tool_result cron_op" where
  "cron_execute env params db =
     (let action = (case param_text ''action'' params of None \<Rightarrow> ''undefined'' | Some a \<Rightarrow> a) in
      if action = ''list'' then
        (Inr (tool_ok (json_stringify (JObj [(''jobs'',
            JArr (map (job_json (cx_plat env)) (find_by_user (cx_userId env) db)))]))), db)
      else if action = ''create'' then cron_create env params db
      else if action = ''remove'' then cron_remove env params db
      else if action = ''runs'' then cron_runs env params db
      else if action = ''runDetail'' then cron_run_detail env params db
      else reply_err (''Unknown action: '' @ action) db)"

end
