(* ===== verification/CronProcessor.thy ===== *)
theory CronProcessor
  imports CronTasks ToolRegistry
begin

text \<open>
  One execution of a scheduled task (\<open>engine/cron-task-processor.service.ts\<close>). The agent run is a
  parameter: it gets the arguments and the tables and answers what won the race against the timer,
  together with the tables as everything that happened meanwhile left them. The repositories tell a
  missing row; whatever else a write of an execution may throw, such as a lost connection, is the
  environment's, and such a write has no effect. Time stands still between the writes after the run.
  Logging is left out.
\<close>

section \<open>Parameters\<close>

record cron_settings =
  cs_defaultTimezone :: string
  cs_cronExecutionTimeoutMs :: nat
  cs_cronDefaultTokenBudget :: "nat option"
  cs_cronTokenGracePercent :: nat

record run_args =
  ag_agentDefinitionId :: string
  ag_userId :: string
  ag_input :: string
  ag_chatId :: string
  ag_tokenBudget :: "nat option"
  ag_tokenGracePercent :: nat
  ag_messageStore :: string
  ag_timeoutMs :: nat

record agent_result =
  rr_output :: "string option"
  rr_error :: "string option"
  rr_tokenUsage :: "(nat \<times> nat) option"

datatype race = Returned agent_result | Threw thrown | RaceTimeout

text \<open>The writes of an execution.\<close>

datatype cron_write =
  CreateRun
| CompleteRun
| FailRun
| ResetFailures
| CountFailure
| WriteLastRun
| WriteNextRun
| DisableTask

record cron_env =
  cn_platform :: cron_platform
  cn_settings :: "cron_db \<Rightarrow> thrown + cron_settings"
  cn_run :: "run_args \<Rightarrow> cron_db \<Rightarrow> race \<times> cron_db"
  cn_publishFails :: "cron_frame \<Rightarrow> thrown option"
  cn_writeFails :: "cron_write \<Rightarrow> cron_db \<Rightarrow> thrown option"
  cn_maxTimeoutMs :: nat
  cn_maxConsecutiveFailures :: nat

definition attempt_write :: "cron_env \<Rightarrow> cron_write \<Rightarrow> 'a cron_op \<Rightarrow> 'a cron_op" where
  "attempt_write env w f db = (case cn_writeFails env w db of Some e \<Rightarrow> (Inl e, db) | None \<Rightarrow> f db)"

definition writes_ok :: "cron_env \<Rightarrow> bool" where
  "writes_ok env \<longleftrightarrow> (\<forall>w db. cn_writeFails env w db = None)"

lemma attempt_ok: "writes_ok env \<Longrightarrow> attempt_write env w f = f"
  by (simp add: writes_ok_def attempt_write_def fun_eq_iff)

definition open_task_run :: "cron_env \<Rightarrow> nat \<Rightarrow> task_run cron_op" where
  "open_task_run env taskId = attempt_write env CreateRun (run_create taskId Running)"

section \<open>Before the run\<close>

text \<open>What the \<open>catch\<close> clause sees of the \<open>try\<close> block: the settings, if they were loaded, and the
  timeout; and the arguments of the run, or what was thrown first.\<close>

record prepared =
  pp_settings :: "cron_settings option"
  pp_effectiveTimeoutMs :: nat
  pp_args :: "thrown + run_args"

definition agent_args :: "cron_settings \<Rightarrow> policy_limits \<Rightarrow> cron_task \<Rightarrow> string \<Rightarrow> nat \<Rightarrow> nat \<Rightarrow> run_args" where
  "agent_args settings policy task user runId timeout =
     \<lparr>ag_agentDefinitionId = ct_agentDefinitionId task, ag_userId = user, ag_input = ct_prompt task,
      ag_chatId = ''cron:'' @ show_nat (ct_id task),
      ag_tokenBudget = (case pl_maxTokensPerCronRun policy of None \<Rightarrow> cs_cronDefaultTokenBudget settings | Some n \<Rightarrow> Some n),
      ag_tokenGracePercent = cs_cronTokenGracePercent settings, ag_messageStore = show_nat runId, ag_timeoutMs = timeout\<rparr>"

definition prepare_run :: "cron_env \<Rightarrow> cron_task \<Rightarrow> string \<Rightarrow> nat \<Rightarrow> cron_db \<Rightarrow> prepared" where
  "prepare_run env task user runId db =
     (case cn_settings env db of
        Inl e \<Rightarrow> \<lparr>pp_settings = None, pp_effectiveTimeoutMs = cn_maxTimeoutMs env, pp_args = Inl e\<rparr>
      | Inr settings \<Rightarrow>
          (let timeoutMs = (case ct_timeoutMs task of None \<Rightarrow> cs_cronExecutionTimeoutMs settings | Some n \<Rightarrow> n);
               effective = min timeoutMs (cn_maxTimeoutMs env)
           in \<lparr>pp_settings = Some settings, pp_effectiveTimeoutMs = effective,
               pp_args = (case policy_of_user user db of
                            Inl e \<Rightarrow> Inl e
                          | Inr policy \<Rightarrow> Inr (agent_args settings policy task user runId effective))\<rparr>))"

section \<open>Delivery\<close>

text \<open>\<open>anchorWebDelivery\<close>: the output becomes a message of the user's latest active session.\<close>

definition find_active_by_user_id :: "string \<Rightarrow> session_db \<Rightarrow> session_row list" where
  "find_active_by_user_id u sdb = rev (filter (\<lambda>s. se_userId s = u \<and> se_isActive s) (db_sessions sdb))"

definition anchor_web_delivery :: "string \<Rightarrow> string \<Rightarrow> cron_db \<Rightarrow> (string \<times> string) option \<times> cron_db" where
  "anchor_web_delivery user output db =
     (case find_active_by_user_id user (cd_sessions db) of
        [] \<Rightarrow> (None, db)
      | latest # _ \<Rightarrow>
          (case save_messages (se_id latest) [plain_msg Assistant output] None (cd_sessions db) of
             (ids, sdb) \<Rightarrow>
               ((case ids of [] \<Rightarrow> None | i # _ \<Rightarrow> if i = [] then None else Some (se_id latest, i)),
                db\<lparr>cd_sessions := sdb\<rparr>)))"

definition publish_frame :: "cron_env \<Rightarrow> cron_frame \<Rightarrow> unit cron_op" where
  "publish_frame env f db =
     (case cn_publishFails env f of
        Some e \<Rightarrow> (Inl e, db)
      | None \<Rightarrow> (Inr (), db\<lparr>cd_published := cd_published db @ [f]\<rparr>))"

definition deliver_to :: "cron_env \<Rightarrow> nat \<Rightarrow> cron_task \<Rightarrow> string \<Rightarrow> bool \<Rightarrow> string \<Rightarrow> bool \<Rightarrow> unit cron_op" where
  "deliver_to env channelId task user success output autoDisabled db =
     (case find_channel channelId db of
        Inl e \<Rightarrow> (Inl e, db)
      | Inr channel \<Rightarrow>
          (case (if ch_type channel = ''web'' then anchor_web_delivery user output db else (None, db)) of
             (anchor, db1) \<Rightarrow>
               publish_frame env
                 \<lparr>cf_success = success, cf_channelId = channelId, cf_userId = user, cf_taskId = ct_id task,
                  cf_text = output, cf_autoDisabled = autoDisabled, cf_anchor = anchor\<rparr> db1))"

section \<open>After the run\<close>

text \<open>The next run of a completed task, or its end.\<close>

definition schedule_next :: "cron_env \<Rightarrow> cron_settings \<Rightarrow> cron_task \<Rightarrow> unit cron_op" where
  "schedule_next env settings task db =
     (case compute_next_run (cn_platform env) (cd_now db) (ct_schedule task) (cs_defaultTimezone settings) of
        Some t \<Rightarrow> and_then (attempt_write env WriteNextRun (update_next_run_at (ct_id task) (Some t))) (\<lambda>_. give ()) db
      | None \<Rightarrow>
          and_then (attempt_write env DisableTask (auto_disable (ct_id task) ''auto:one_time_completed'')) (\<lambda>_. give ()) db)"

definition finish_success ::
  "cron_env \<Rightarrow> cron_settings \<Rightarrow> cron_task \<Rightarrow> string \<Rightarrow> int \<Rightarrow> nat \<Rightarrow> agent_result \<Rightarrow> unit cron_op" where
  "finish_success env settings task user startedAt runId res db =
     (let completedAt = cd_now db in
      and_then (attempt_write env CompleteRun (run_update runId (\<lambda>r. r\<lparr>rn_status := Completed,
                  rn_output := (case rr_output res of None \<Rightarrow> rn_output r | Some s \<Rightarrow> Some s),
                  rn_tokens := Some (case rr_tokenUsage res of None \<Rightarrow> (0, 0) | Some t \<Rightarrow> t),
                  rn_durationMs := Some (completedAt - startedAt), rn_completedAt := Some completedAt\<rparr>))) (\<lambda>_.
      and_then (attempt_write env ResetFailures (reset_failures (ct_id task))) (\<lambda>_.
      and_then (attempt_write env WriteLastRun (update_last_run (ct_id task) Completed completedAt)) (\<lambda>_.
      and_then (schedule_next env settings task) (\<lambda>_.
      case ct_channelId task of
        None \<Rightarrow> give ()
      | Some c \<Rightarrow>
          if falsy (rr_output res) then give ()
          else deliver_to env c task user True (the (rr_output res)) False)))) db)"

definition failure_text :: "cron_env \<Rightarrow> cron_task \<Rightarrow> string \<Rightarrow> nat \<Rightarrow> bool \<Rightarrow> string" where
  "failure_text env task errorMessage timeout autoDisabled =
     [CHR 0xE2, CHR 0x9A, CHR 0xA0, CHR 0xEF, CHR 0xB8, CHR 0x8F] @ '' Task '' @ [CHR 0x22] @ ct_name task @ [CHR 0x22] @
     '' failed: '' @ translate_cron_error (Some errorMessage) timeout @
     (if autoDisabled then
        newline @ [CHR 0xF0, CHR 0x9F, CHR 0x9B, CHR 0x91] @ '' Task disabled after '' @
        show_nat (cn_maxConsecutiveFailures env) @ '' consecutive failures. Re-enable it from the dashboard.''
      else [])"

definition finish_failure ::
  "cron_env \<Rightarrow> prepared \<Rightarrow> cron_task \<Rightarrow> string \<Rightarrow> int \<Rightarrow> nat \<Rightarrow> thrown \<Rightarrow> unit cron_op" where
  "finish_failure env prep task user startedAt runId err db =
     (let completedAt = cd_now db; errorMessage = thrown_text err;
          autoDisabled = (cn_maxConsecutiveFailures env \<le> ct_consecutiveFailures task + 1) in
      and_then (attempt_write env FailRun (run_update runId (\<lambda>r. r\<lparr>rn_status := Failed, rn_error := Some errorMessage,
                  rn_durationMs := Some (completedAt - startedAt), rn_completedAt := Some completedAt\<rparr>))) (\<lambda>_.
      and_then (attempt_write env CountFailure (increment_failures (ct_id task))) (\<lambda>_.
      and_then (attempt_write env WriteLastRun (update_last_run (ct_id task) Failed completedAt)) (\<lambda>_.
      and_then
        (if autoDisabled then attempt_write env DisableTask (auto_disable (ct_id task) ''auto:max_failures'')
         else attempt_write env WriteNextRun (update_next_run_at (ct_id task)
                (compute_next_run (cn_platform env) completedAt (ct_schedule task)
                   (case pp_settings prep of None \<Rightarrow> ''UTC'' | Some s \<Rightarrow> cs_defaultTimezone s)))) (\<lambda>_.
      case ct_channelId task of
        None \<Rightarrow> give ()
      | Some c \<Rightarrow>
          deliver_to env c task user False
            (failure_text env task errorMessage (pp_effectiveTimeoutMs prep) autoDisabled) autoDisabled)))) db)"

section \<open>One execution\<close>

text \<open>The \<open>try\<close> block after the run, and the \<open>catch\<close> clause.\<close>

definition settle_run ::
  "cron_env \<Rightarrow> prepared \<Rightarrow> cron_task \<Rightarrow> string \<Rightarrow> int \<Rightarrow> nat \<Rightarrow> race \<Rightarrow> unit cron_op" where
  "settle_run env prep task user startedAt runId outcome db =
     (let tried =
        (case (pp_args prep, pp_settings prep, outcome) of
           (Inr _, Some settings, Returned res) \<Rightarrow>
             if rr_error res = Some ''token_budget_exceeded''
             then (Inl (ThrownError (ErrorObj ''token_budget_exceeded'' None None None)), db)
             else finish_success env settings task user startedAt runId res db
         | (Inr _, _, Threw e) \<Rightarrow> (Inl e, db)
         | (Inr _, _, _) \<Rightarrow> (Inl (ThrownError (ErrorObj ''execution_timeout'' None None None)), db)
         | (Inl e, _, _) \<Rightarrow> (Inl e, db))
      in case tried of
           (Inr _, db1) \<Rightarrow> (Inr (), db1)
         | (Inl e, db1) \<Rightarrow> finish_failure env prep task user startedAt runId e db1)"

definition race_of :: "cron_env \<Rightarrow> prepared \<Rightarrow> cron_db \<Rightarrow> race \<times> cron_db" where
  "race_of env prep db = (case pp_args prep of Inl e \<Rightarrow> (Threw e, db) | Inr args \<Rightarrow> cn_run env args db)"

definition execute_internal :: "cron_env \<Rightarrow> cron_task \<Rightarrow> string \<Rightarrow> unit cron_op" where
  "execute_internal env task user db =
     (let startedAt = cd_now db in
      and_then (open_task_run env (ct_id task)) (\<lambda>run db1.
        let prep = prepare_run env task user (rn_id run) db1 in
        case race_of env prep db1 of
          (outcome, db2) \<Rightarrow> settle_run env prep task user startedAt (rn_id run) outcome db2) db)"

text \<open>\<open>execute\<close> logs what is thrown and never propagates it.\<close>

definition execute_task :: "cron_env \<Rightarrow> cron_task \<Rightarrow> string \<Rightarrow> cron_db \<Rightarrow> cron_db" where
  "execute_task env task user db = snd (execute_internal env task user db)"

section \<open>What an execution leaves behind\<close>

text \<open>Delivering a result touches neither tasks nor runs.\<close>

lemma deliver_frame:
  assumes "deliver_to env c task user success output dis db = (x, db')"
  shows "task_of i db' = task_of i db" "run_of j db' = run_of j db" "cd_now db' = cd_now db"
    "cd_channels db' = cd_channels db"
proof -
  have "cd_tasks db' = cd_tasks db \<and> cd_runs db' = cd_runs db \<and> cd_now db' = cd_now db \<and> cd_channels db' = cd_channels db"
    using assms
    by (auto simp: deliver_to_def publish_frame_def anchor_web_delivery_def
        split: sum.splits if_splits list.splits prod.splits option.splits)
  then show "task_of i db' = task_of i db" "run_of j db' = run_of j db" "cd_now db' = cd_now db"
    "cd_channels db' = cd_channels db" by (simp_all add: task_of_def run_of_def)
qed

lemma deliver_missing: "find_channel c db = Inl e \<Longrightarrow> deliver_to env c task user success output dis db = (Inl e, db)"
  by (simp add: deliver_to_def)

lemmas repo_updates =
  reset_failures_def update_last_run_def increment_failures_def auto_disable_def update_next_run_at_def

text \<open>The row of a run and of its task when a run is recorded as completed.\<close>

definition completed_run :: "int \<Rightarrow> int \<Rightarrow> agent_result \<Rightarrow> task_run \<Rightarrow> task_run" where
  "completed_run now startedAt res r =
     r\<lparr>rn_status := Completed, rn_output := (case rr_output res of None \<Rightarrow> rn_output r | Some s \<Rightarrow> Some s),
       rn_tokens := Some (case rr_tokenUsage res of None \<Rightarrow> (0, 0) | Some t \<Rightarrow> t),
       rn_durationMs := Some (now - startedAt), rn_completedAt := Some now\<rparr>"

lemma finish_success_rows:
  assumes ok: "writes_ok env" and "task_of (ct_id task) db = Some t" "run_of runId db = Some r"
    and "finish_success env settings task user startedAt runId res db = (x, db')"
  shows "run_of runId db' = Some (completed_run (cd_now db) startedAt res r) \<and> cd_now db' = cd_now db \<and>
    (\<exists>t'. task_of (ct_id task) db' = Some t' \<and> ct_consecutiveFailures t' = 0 \<and> ct_lastStatus t' = Some Completed) \<and>
    (case ct_channelId task of
       None \<Rightarrow> x = Inr ()
     | Some c \<Rightarrow> (falsy (rr_output res) \<longrightarrow> x = Inr ()) \<and>
         (\<not> falsy (rr_output res) \<and> find_channel c db = Inl e \<longrightarrow> x = Inl e))"
proof -
  let ?i = "ct_id task"
  let ?nxt = "compute_next_run (cn_platform env) (cd_now db) (ct_schedule task) (cs_defaultTimezone settings)"
  define db1 where "db1 = set_run runId (completed_run (cd_now db) startedAt res) db"
  define db2 where "db2 = set_task ?i (\<lambda>t. t\<lparr>ct_consecutiveFailures := 0, ct_disabledReason := None\<rparr>) db1"
  define db3 where "db3 = set_task ?i (\<lambda>t. t\<lparr>ct_lastRunAt := Some (cd_now db), ct_lastStatus := Some Completed\<rparr>) db2"
  define db4 where "db4 = (case ?nxt of
      Some n \<Rightarrow> set_task ?i (\<lambda>t. t\<lparr>ct_nextRunAt := Some n\<rparr>) db3
    | None \<Rightarrow> set_task ?i (\<lambda>t. t\<lparr>ct_enabled := False, ct_disabledReason := Some ''auto:one_time_completed''\<rparr>) db3)"
  have t1: "task_of ?i db1 = Some t" "run_of runId db1 = Some (completed_run (cd_now db) startedAt res r)"
    using assms(2,3) by (simp_all add: db1_def run_of_set_run completed_run_def)
  obtain t2 where t2: "task_of ?i db2 = Some t2" "ct_consecutiveFailures t2 = 0"
    using t1 by (simp add: db2_def task_of_set_task)
  obtain t3 where t3: "task_of ?i db3 = Some t3" "ct_consecutiveFailures t3 = 0" "ct_lastStatus t3 = Some Completed"
    using t2 by (simp add: db3_def task_of_set_task)
  have t4: "\<exists>t'. task_of ?i db4 = Some t' \<and> ct_consecutiveFailures t' = 0 \<and> ct_lastStatus t' = Some Completed"
    using t3 by (auto simp: db4_def task_of_set_task split: option.splits)
  have frame: "run_of runId db4 = Some (completed_run (cd_now db) startedAt res r)" "cd_now db4 = cd_now db"
      "cd_channels db4 = cd_channels db" "cd_now db3 = cd_now db"
    using t1 by (auto simp: db4_def db3_def db2_def split: option.splits) (simp_all add: db1_def)
  have chan: "find_channel c db4 = find_channel c db" for c by (simp add: find_channel_def frame)
  have "schedule_next env settings task db3 = (Inr (), db4)"
    using t3 frame by (auto simp: schedule_next_def attempt_ok [OF ok] repo_updates db4_def and_then_def give_def task_update_Some split: option.splits)
  then have "finish_success env settings task user startedAt runId res db =
      (case ct_channelId task of
         None \<Rightarrow> (Inr (), db4)
       | Some c \<Rightarrow> if falsy (rr_output res) then (Inr (), db4)
                   else deliver_to env c task user True (the (rr_output res)) False db4)"
    using t1 t2 t3 assms(3)
    by (simp add: finish_success_def attempt_ok [OF ok] Let_def and_then_def run_update_Some repo_updates task_update_Some
        give_def db1_def [symmetric, unfolded completed_run_def] db2_def [symmetric] db3_def [symmetric] split: option.splits)
  note result = this [unfolded assms(4)]
  show ?thesis
  proof (cases "\<exists>c. ct_channelId task = Some c \<and> \<not> falsy (rr_output res)")
    case False
    then have "x = Inr ()" "db' = db4" using result by (auto split: option.splits)
    then show ?thesis using t4 frame False by (auto split: option.splits)
  next
    case True
    then obtain c where c: "ct_channelId task = Some c" "\<not> falsy (rr_output res)" by blast
    then have d: "deliver_to env c task user True (the (rr_output res)) False db4 = (x, db')"
      using result by simp
    note keep = deliver_frame [OF d]
    have "find_channel c db = Inl e \<Longrightarrow> x = Inl e"
      using d deliver_missing [of c db4 e] chan by simp
    then show ?thesis using t4 frame c keep by simp
  qed
qed

definition failed_run :: "int \<Rightarrow> int \<Rightarrow> thrown \<Rightarrow> task_run \<Rightarrow> task_run" where
  "failed_run now startedAt err r =
     r\<lparr>rn_status := Failed, rn_error := Some (thrown_text err), rn_durationMs := Some (now - startedAt),
       rn_completedAt := Some now\<rparr>"

lemma finish_failure_rows:
  assumes ok: "writes_ok env" and "task_of (ct_id task) db = Some t" "run_of runId db = Some r"
    and "finish_failure env prep task user startedAt runId err db = (x, db')"
  shows "run_of runId db' = Some (failed_run (cd_now db) startedAt err r) \<and>
    (\<exists>t'. task_of (ct_id task) db' = Some t' \<and> ct_consecutiveFailures t' = Suc (ct_consecutiveFailures t) \<and>
       ct_lastStatus t' = Some Failed \<and>
       (if cn_maxConsecutiveFailures env \<le> ct_consecutiveFailures task + 1
        then \<not> ct_enabled t' \<and> ct_disabledReason t' = Some ''auto:max_failures''
        else ct_enabled t' = ct_enabled t \<and>
          ct_nextRunAt t' = compute_next_run (cn_platform env) (cd_now db) (ct_schedule task)
            (case pp_settings prep of None \<Rightarrow> ''UTC'' | Some s \<Rightarrow> cs_defaultTimezone s)))"
proof -
  let ?i = "ct_id task" and ?dis = "cn_maxConsecutiveFailures env \<le> ct_consecutiveFailures task + 1"
  let ?nxt = "compute_next_run (cn_platform env) (cd_now db) (ct_schedule task)
      (case pp_settings prep of None \<Rightarrow> ''UTC'' | Some s \<Rightarrow> cs_defaultTimezone s)"
  define db1 where "db1 = set_run runId (failed_run (cd_now db) startedAt err) db"
  define db2 where "db2 = set_task ?i (\<lambda>t. t\<lparr>ct_consecutiveFailures := Suc (ct_consecutiveFailures t)\<rparr>) db1"
  define db3 where "db3 = set_task ?i (\<lambda>t. t\<lparr>ct_lastRunAt := Some (cd_now db), ct_lastStatus := Some Failed\<rparr>) db2"
  define db4 where "db4 = (if ?dis
     then set_task ?i (\<lambda>t. t\<lparr>ct_enabled := False, ct_disabledReason := Some ''auto:max_failures''\<rparr>) db3
     else set_task ?i (\<lambda>t. t\<lparr>ct_nextRunAt := ?nxt\<rparr>) db3)"
  have t1: "task_of ?i db1 = Some t" "run_of runId db1 = Some (failed_run (cd_now db) startedAt err r)"
    using assms(2,3) by (simp_all add: db1_def run_of_set_run failed_run_def)
  have t2: "task_of ?i db2 = Some (t\<lparr>ct_consecutiveFailures := Suc (ct_consecutiveFailures t)\<rparr>)"
    using t1 by (simp add: db2_def task_of_set_task)
  define t3' where "t3' = t\<lparr>ct_consecutiveFailures := Suc (ct_consecutiveFailures t), ct_lastRunAt := Some (cd_now db),
      ct_lastStatus := Some Failed\<rparr>"
  have t3: "task_of ?i db3 = Some t3'"
    using t2 by (simp add: db3_def task_of_set_task t3'_def)
  have t4: "task_of ?i db4 = Some (if ?dis then t3'\<lparr>ct_enabled := False, ct_disabledReason := Some ''auto:max_failures''\<rparr>
      else t3'\<lparr>ct_nextRunAt := ?nxt\<rparr>)"
    using t3 by (simp add: db4_def task_of_set_task)
  have frame: "run_of runId db4 = Some (failed_run (cd_now db) startedAt err r)"
    using t1 by (simp add: db4_def db3_def db2_def)
  have "finish_failure env prep task user startedAt runId err db =
      (case ct_channelId task of
         None \<Rightarrow> (Inr (), db4)
       | Some c \<Rightarrow> deliver_to env c task user False
            (failure_text env task (thrown_text err) (pp_effectiveTimeoutMs prep) ?dis) ?dis db4)"
    using t1 t2 t3 assms(3)
    by (simp add: finish_failure_def attempt_ok [OF ok] Let_def and_then_def run_update_Some repo_updates task_update_Some
        give_def db1_def [symmetric, unfolded failed_run_def] db2_def [symmetric] db3_def [symmetric] db4_def split: option.splits)
  then have "task_of ?i db' = task_of ?i db4 \<and> run_of runId db' = run_of runId db4"
    using assms(4) by (cases "ct_channelId task") (auto dest: deliver_frame [OF sym])
  with t4 frame show ?thesis by (simp add: t3'_def)
qed

text \<open>Settling when every write gets through: both rows are kept, and the failure counter is counted up from
  what it was, or from the zero a success wrote before its result could not be delivered.\<close>

definition run_settled :: "cron_env \<Rightarrow> cron_task \<Rightarrow> nat \<Rightarrow> task_run \<Rightarrow> cron_task \<Rightarrow> bool" where
  "run_settled env task failures r t \<longleftrightarrow>
     rn_status r = Completed \<and> ct_lastStatus t = Some Completed \<and> ct_consecutiveFailures t = 0 \<or>
     rn_status r = Failed \<and> ct_lastStatus t = Some Failed \<and>
       (ct_consecutiveFailures t = Suc failures \<or>
        ct_consecutiveFailures t = 1 \<and> ct_channelId task \<noteq> None \<and> rn_tokens r \<noteq> None) \<and>
       (cn_maxConsecutiveFailures env \<le> ct_consecutiveFailures task + 1 \<longrightarrow>
          \<not> ct_enabled t \<and> ct_disabledReason t = Some ''auto:max_failures'')"

lemma settle_run_rows:
  assumes ok: "writes_ok env" and task: "task_of (ct_id task) db = Some t" and run: "run_of runId db = Some r"
    and settle: "settle_run env prep task user startedAt runId outcome db = (x, db')"
  shows "\<exists>r' t'. run_of runId db' = Some r' \<and> task_of (ct_id task) db' = Some t' \<and>
    rn_completedAt r' = Some (cd_now db) \<and> rn_durationMs r' = Some (cd_now db - startedAt) \<and>
    run_settled env task (ct_consecutiveFailures t) r' t'"
proof -
  have failing: ?thesis if "finish_failure env prep task user startedAt runId e db = (x, db')" for e
    using finish_failure_rows [OF ok task run that] by (auto simp: failed_run_def run_settled_def split: if_splits)
  have trying: ?thesis
    if s: "pp_args prep = Inr args" "pp_settings prep = Some settings" "outcome = Returned res"
      "rr_error res \<noteq> Some ''token_budget_exceeded''" for args settings res
  proof -
    obtain y db1 where y: "finish_success env settings task user startedAt runId res db = (y, db1)" by fastforce
    from finish_success_rows [OF ok task run this, of ThrownOther]
    obtain t1 where rows: "run_of runId db1 = Some (completed_run (cd_now db) startedAt res r)" "cd_now db1 = cd_now db"
      "task_of (ct_id task) db1 = Some t1" "ct_consecutiveFailures t1 = 0" "ct_lastStatus t1 = Some Completed"
      and quiet: "ct_channelId task = None \<Longrightarrow> y = Inr ()" by (auto split: option.splits)
    show ?thesis
    proof (cases y)
      case (Inl e)
      then have "finish_failure env prep task user startedAt runId e db1 = (x, db')"
        using settle s y by (simp add: settle_run_def Let_def)
      from finish_failure_rows [OF ok rows(3,1) this] rows Inl quiet show ?thesis
        by (auto simp: failed_run_def completed_run_def run_settled_def split: if_splits)
    next
      case (Inr u)
      then have "db' = db1" using settle s y by (simp add: settle_run_def Let_def)
      then show ?thesis using rows by (simp add: completed_run_def run_settled_def)
    qed
  qed
  show ?thesis
  proof (cases "\<exists>args settings res. pp_args prep = Inr args \<and> pp_settings prep = Some settings \<and>
      outcome = Returned res \<and> rr_error res \<noteq> Some ''token_budget_exceeded''")
    case True
    then show ?thesis using trying by blast
  next
    case False
    then have "\<exists>e. finish_failure env prep task user startedAt runId e db = (x, db')"
      using settle by (auto simp: settle_run_def Let_def split: sum.splits option.splits race.splits if_splits)
    then show ?thesis using failing by blast
  qed
qed

text \<open>Whatever fails: after the write of the run, nothing touches its row any more.\<close>

lemma and_then_runs:
  "(\<And>db. cd_runs (snd (f db)) = cd_runs db) \<Longrightarrow> (\<And>x db. cd_runs (snd (g x db)) = cd_runs db) \<Longrightarrow>
   cd_runs (snd (and_then f g db)) = cd_runs db"
  by (cases "f db"; cases "fst (f db)") (auto simp: and_then_def, metis snd_conv, metis snd_conv)

lemma attempt_runs: "(\<And>db. cd_runs (snd (f db)) = cd_runs db) \<Longrightarrow> cd_runs (snd (attempt_write env w f db)) = cd_runs db"
  by (simp add: attempt_write_def split: option.split)

lemma quiet_runs [simp]:
  "cd_runs (snd (give x db)) = cd_runs db"
  "cd_runs (snd (task_update i h db)) = cd_runs db"
  "cd_runs (snd (deliver_to env c task user success output dis db)) = cd_runs db"
  by (auto simp: give_def task_update_def set_task_def deliver_to_def publish_frame_def anchor_web_delivery_def
      split: sum.splits if_splits list.splits prod.splits option.splits)

lemma attempt_run_update:
  "attempt_write env w (run_update i h) db = (Inr x, db1) \<Longrightarrow> run_of i db = Some r \<Longrightarrow> cd_runs db1 = cd_runs (set_run i h db)"
  by (auto simp: attempt_write_def run_update_def split: option.splits)

lemma run_of_runs: "cd_runs db' = cd_runs db \<Longrightarrow> run_of i db' = run_of i db"
  by (simp add: run_of_def)

lemma success_completes:
  assumes "finish_success env settings task user startedAt runId res db = (y, db')" "run_of runId db = Some r"
  shows "isl y \<and> run_of runId db' = Some r \<or> run_of runId db' = Some (completed_run (cd_now db) startedAt res r)"
proof -
  let ?first = "attempt_write env CompleteRun (run_update runId (completed_run (cd_now db) startedAt res))"
  let ?rest = "\<lambda>_. and_then (attempt_write env ResetFailures (reset_failures (ct_id task))) (\<lambda>_.
      and_then (attempt_write env WriteLastRun (update_last_run (ct_id task) Completed (cd_now db))) (\<lambda>_.
      and_then (schedule_next env settings task) (\<lambda>_.
      case ct_channelId task of
        None \<Rightarrow> give ()
      | Some c \<Rightarrow>
          if falsy (rr_output res) then give ()
          else deliver_to env c task user True (the (rr_output res)) False)))"
  have next_runs: "cd_runs (snd (schedule_next env settings task db)) = cd_runs db" for db
    by (auto simp: schedule_next_def repo_updates split: option.split intro!: and_then_runs attempt_runs)
  have rest: "cd_runs (snd (?rest x db)) = cd_runs db" for x :: task_run and db
    unfolding repo_updates by (intro and_then_runs attempt_runs next_runs quiet_runs) (auto split: option.split)
  have whole: "finish_success env settings task user startedAt runId res db = and_then ?first ?rest db"
    by (simp add: finish_success_def Let_def completed_run_def [abs_def])
  show ?thesis
  proof (cases "cn_writeFails env CompleteRun db")
    case None
    let ?db1 = "set_run runId (completed_run (cd_now db) startedAt res) db"
    have "and_then ?first ?rest db = ?rest (completed_run (cd_now db) startedAt res r) ?db1"
      using None assms(2) by (simp add: and_then_def [of ?first] attempt_write_def [of env CompleteRun] run_update_Some)
    with whole assms(1) have "?rest (completed_run (cd_now db) startedAt res r) ?db1 = (y, db')" by simp
    with rest [of ?db1] have "cd_runs db' = cd_runs ?db1" by simp
    from run_of_runs [OF this] show ?thesis using assms(2) by (simp add: run_of_set_run completed_run_def)
  next
    case (Some e)
    then have "?first db = (Inl e, db)" by (simp add: attempt_write_def)
    with whole assms show ?thesis by (simp add: and_then_def [of ?first])
  qed
qed

lemma failure_fails:
  assumes "cn_writeFails env FailRun db = None" "run_of runId db = Some r"
  shows "run_of runId (snd (finish_failure env prep task user startedAt runId err db)) = Some (failed_run (cd_now db) startedAt err r)"
proof -
  let ?dis = "cn_maxConsecutiveFailures env \<le> ct_consecutiveFailures task + 1"
  let ?nxt = "compute_next_run (cn_platform env) (cd_now db) (ct_schedule task)
      (case pp_settings prep of None \<Rightarrow> ''UTC'' | Some s \<Rightarrow> cs_defaultTimezone s)"
  let ?rest = "and_then (attempt_write env CountFailure (increment_failures (ct_id task))) (\<lambda>_.
      and_then (attempt_write env WriteLastRun (update_last_run (ct_id task) Failed (cd_now db))) (\<lambda>_.
      and_then
        (if ?dis then attempt_write env DisableTask (auto_disable (ct_id task) ''auto:max_failures'')
         else attempt_write env WriteNextRun (update_next_run_at (ct_id task) ?nxt)) (\<lambda>_.
      case ct_channelId task of
        None \<Rightarrow> give ()
      | Some c \<Rightarrow>
          deliver_to env c task user False
            (failure_text env task (thrown_text err) (pp_effectiveTimeoutMs prep) ?dis) ?dis)))"
  let ?db1 = "set_run runId (failed_run (cd_now db) startedAt err) db"
  have rest: "cd_runs (snd (?rest db)) = cd_runs db" for db
    unfolding repo_updates by (intro and_then_runs attempt_runs quiet_runs) (auto split: option.split intro!: attempt_runs)
  let ?first = "attempt_write env FailRun (run_update runId (failed_run (cd_now db) startedAt err))"
  have "finish_failure env prep task user startedAt runId err db = and_then ?first (\<lambda>_. ?rest) db"
    unfolding finish_failure_def Let_def failed_run_def [abs_def] ..
  also have "?first db = (Inr (failed_run (cd_now db) startedAt err r), ?db1)"
    using assms by (simp add: attempt_write_def run_update_Some)
  then have "and_then ?first (\<lambda>_. ?rest) db = ?rest ?db1" by (rule and_then_Inr)
  finally have "finish_failure env prep task user startedAt runId err db = ?rest ?db1" .
  with run_of_runs [OF rest [of ?db1]] assms(2) show ?thesis by (simp add: run_of_set_run failed_run_def)
qed

lemma settle_run_ends:
  assumes "\<forall>d. cn_writeFails env FailRun d = None" "run_of runId db = Some r"
  shows "\<exists>r'. run_of runId (snd (settle_run env prep task user startedAt runId outcome db)) = Some r' \<and>
    rn_status r' \<in> {Completed, Failed}"
proof -
  have failing: "\<exists>r'. run_of runId (snd (finish_failure env prep task user startedAt runId e d)) = Some r' \<and> rn_status r' = Failed"
    if "run_of runId d = Some q" for e d q
    using failure_fails [OF _ that, of env prep task user startedAt e] assms(1) by (simp add: failed_run_def)
  show ?thesis
  proof (cases "\<exists>args settings res. pp_args prep = Inr args \<and> pp_settings prep = Some settings \<and>
      outcome = Returned res \<and> rr_error res \<noteq> Some ''token_budget_exceeded''")
    case True
    then obtain args settings res where c: "pp_args prep = Inr args" "pp_settings prep = Some settings"
      "outcome = Returned res" "rr_error res \<noteq> Some ''token_budget_exceeded''" by blast
    obtain y db1 where s: "finish_success env settings task user startedAt runId res db = (y, db1)" by fastforce
    with c have whole: "settle_run env prep task user startedAt runId outcome db =
        (case y of Inr _ \<Rightarrow> (Inr (), db1) | Inl e \<Rightarrow> finish_failure env prep task user startedAt runId e db1)"
      by (simp add: settle_run_def Let_def split: sum.split)
    from success_completes [OF s assms(2)] failing [of db1] whole show ?thesis
      by (cases y) (auto simp: completed_run_def)
  next
    case False
    then have "\<exists>e. settle_run env prep task user startedAt runId outcome db = finish_failure env prep task user startedAt runId e db"
      by (auto simp: settle_run_def Let_def split: sum.splits option.splits race.splits if_splits)
    then obtain e where "settle_run env prep task user startedAt runId outcome db =
        finish_failure env prep task user startedAt runId e db" by blast
    with failing [OF assms(2), of e] show ?thesis by auto
  qed
qed

text \<open>Settling a run whose row was deleted meanwhile changes nothing.\<close>

lemma settle_deleted:
  assumes "run_of runId db = None"
  shows "snd (settle_run env prep task user startedAt runId outcome db) = db"
  using assms
  by (auto simp: settle_run_def Let_def finish_success_def finish_failure_def and_then_def run_update_def attempt_write_def
      split: sum.splits option.splits race.splits prod.splits)

section \<open>Properties\<close>

text \<open>What the run may do to the tables: anything that deletes no task and no run.\<close>

definition keeps_rows :: "cron_env \<Rightarrow> bool" where
  "keeps_rows env \<longleftrightarrow> (\<forall>args db i. (run_of i db \<noteq> None \<longrightarrow> run_of i (snd (cn_run env args db)) \<noteq> None) \<and>
     (task_of i db \<noteq> None \<longrightarrow> task_of i (snd (cn_run env args db)) \<noteq> None))"

lemma race_keeps_rows:
  assumes "keeps_rows env" "run_of i db \<noteq> None" "task_of j db \<noteq> None" "race_of env p db = (outcome, db')"
  shows "run_of i db' \<noteq> None \<and> task_of j db' \<noteq> None"
proof (cases "pp_args p")
  case (Inl e)
  then show ?thesis using assms by (auto simp: race_of_def)
next
  case (Inr args)
  then have "db' = snd (cn_run env args db)" using assms(4) by (simp add: race_of_def)
  then show ?thesis using assms(1-3) by (simp add: keeps_rows_def)
qed

lemma run_create_rows:
  assumes "task_of k db = Some t" "run_create k status db = (Inr r, db')"
  shows "rn_id r = cd_nextId db \<and> run_of (cd_nextId db) db' \<noteq> None \<and> (\<forall>i. task_of i db' = task_of i db)"
proof -
  from assms have r: "rn_id r = cd_nextId db" and db': "cd_runs db' = cd_runs db @ [r]" "cd_tasks db' = cd_tasks db"
    by (auto simp: run_create_def Let_def)
  have "run_of (cd_nextId db) db' \<noteq> None"
    unfolding run_of_def db' find_None_iff using r by auto
  then show ?thesis using r db' by (simp add: task_of_def)
qed

text \<open>The tables when the race is decided, before the processor settles the run.\<close>

definition after_race :: "cron_env \<Rightarrow> cron_task \<Rightarrow> string \<Rightarrow> cron_db \<Rightarrow> cron_db" where
  "after_race env task user db =
     (case run_create (ct_id task) Running db of
        (Inl e, db1) \<Rightarrow> db1
      | (Inr run, db1) \<Rightarrow> snd (race_of env (prepare_run env task user (rn_id run) db1) db1))"

text \<open>C21: an execution settles its run, if the agent run deletes neither the task nor the run and the
  database takes the write of the new row. As long as the database takes the write of a failure, the run
  ends completed or failed, never running, whatever else is refused. And if it takes every write, the
  task's last status and failure counter are in step with the run: zero after a completed run, one more
  than before after a failed one, or one where only the delivery of a recorded success failed; and the
  task is disabled once the counter read at dispatch and this failure reach the limit. Where the write
  of the failure is refused the run stays running, which the processor only logs
  (lemma \<open>refused_failure_leaves_run_running\<close>).\<close>

theorem cron_run_settles:
  assumes keeps: "keeps_rows env" and task: "task_of (ct_id task) db \<noteq> None"
    and created: "cn_writeFails env CreateRun db = None"
  shows "((\<forall>d. cn_writeFails env FailRun d = None) \<longrightarrow>
      (\<exists>r. run_of (cd_nextId db) (execute_task env task user db) = Some r \<and> rn_status r \<in> {Completed, Failed})) \<and>
    (writes_ok env \<longrightarrow>
      (\<exists>r t t0. run_of (cd_nextId db) (execute_task env task user db) = Some r \<and>
        task_of (ct_id task) (execute_task env task user db) = Some t \<and>
        task_of (ct_id task) (after_race env task user db) = Some t0 \<and>
        rn_completedAt r \<noteq> None \<and> run_settled env task (ct_consecutiveFailures t0) r t))"
proof -
  from task obtain t0 where t0: "task_of (ct_id task) db = Some t0" by blast
  obtain r0 db1 where create: "run_create (ct_id task) Running db = (Inr r0, db1)"
    using t0 by (auto simp: run_create_def Let_def)
  then have r0: "rn_id r0 = cd_nextId db" "run_of (cd_nextId db) db1 \<noteq> None" "task_of (ct_id task) db1 \<noteq> None"
    using run_create_rows [OF t0 create] t0 by simp_all
  let ?p = "prepare_run env task user (rn_id r0) db1"
  obtain outcome db2 where race: "race_of env ?p db1 = (outcome, db2)" by fastforce
  have "run_of (cd_nextId db) db2 \<noteq> None \<and> task_of (ct_id task) db2 \<noteq> None"
    using race_keeps_rows [OF keeps r0(2,3) race] .
  then obtain r2 t2 where rows: "run_of (cd_nextId db) db2 = Some r2" "task_of (ct_id task) db2 = Some t2" by blast
  obtain x db3 where settle: "settle_run env ?p task user (cd_now db) (cd_nextId db) outcome db2 = (x, db3)" by fastforce
  have "open_task_run env (ct_id task) db = (Inr r0, db1)"
    using create created by (simp add: open_task_run_def attempt_write_def)
  then have "execute_task env task user db = db3"
    using race settle r0 by (simp add: execute_task_def execute_internal_def and_then_def Let_def)
  moreover have "after_race env task user db = db2" using create race by (simp add: after_race_def)
  ultimately show ?thesis
    using settle_run_rows [OF _ rows(2,1) settle] settle_run_ends [OF _ rows(1), of env ?p task user "cd_now db" outcome] settle rows
    by (intro conjI impI) auto
qed

text \<open>A run that reaches its time limit inside the reasoning loop comes back as a result with the
  error \<open>Agent run timed out\<close>. The processor only looks for the token budget: it records the run as
  completed and resets the failure counter, so a task that always times out is never disabled.\<close>

theorem inner_timeout_counts_as_success:
  assumes "writes_ok env" and "pp_args prep = Inr args" "pp_settings prep = Some settings"
    and "rr_error res = Some ''Agent run timed out''"
    and "task_of (ct_id task) db = Some t" "run_of runId db = Some r" "ct_channelId task = None"
  shows "\<exists>t' r' db'. settle_run env prep task user startedAt runId (Returned res) db = (Inr (), db') \<and>
    run_of runId db' = Some r' \<and> rn_status r' = Completed \<and> rn_error r' = rn_error r \<and>
    task_of (ct_id task) db' = Some t' \<and> ct_consecutiveFailures t' = 0 \<and> ct_lastStatus t' = Some Completed"
proof -
  obtain y db1 where y: "finish_success env settings task user startedAt runId res db = (y, db1)" by fastforce
  from finish_success_rows [OF assms(1,5,6) y] assms(7) have
    rows: "y = Inr ()" "run_of runId db1 = Some (completed_run (cd_now db) startedAt res r)"
      "\<exists>t'. task_of (ct_id task) db1 = Some t' \<and> ct_consecutiveFailures t' = 0 \<and> ct_lastStatus t' = Some Completed"
    by auto
  then have "settle_run env prep task user startedAt runId (Returned res) db = (Inr (), db1)"
    using assms(2-4) y by (simp add: settle_run_def Let_def)
  then show ?thesis using rows by (auto simp: completed_run_def)
qed

text \<open>The delivery of the result is inside the same \<open>try\<close>: when the channel is gone, a run that was
  recorded as completed becomes a failed one, its task gets a failure, and if the task had failed
  before often enough it is disabled, although the agent succeeded.\<close>

theorem lost_delivery_undoes_success:
  assumes "writes_ok env" and "pp_args prep = Inr args" "pp_settings prep = Some settings"
    and "rr_error res = None" "\<not> falsy (rr_output res)"
    and "task_of (ct_id task) db = Some t" "run_of runId db = Some r"
    and "ct_channelId task = Some c" "find_channel c db = Inl e"
  shows "\<exists>t' r'. run_of runId (snd (settle_run env prep task user startedAt runId (Returned res) db)) = Some r' \<and>
    rn_status r' = Failed \<and> rn_output r' = rr_output res \<and>
    task_of (ct_id task) (snd (settle_run env prep task user startedAt runId (Returned res) db)) = Some t' \<and>
    ct_consecutiveFailures t' = 1 \<and> ct_lastStatus t' = Some Failed \<and>
    (cn_maxConsecutiveFailures env \<le> ct_consecutiveFailures task + 1 \<longrightarrow> \<not> ct_enabled t')"
proof -
  obtain y db1 where y: "finish_success env settings task user startedAt runId res db = (y, db1)" by fastforce
  from finish_success_rows [OF assms(1,6,7) y, of e] assms(5,8,9) obtain t1 where
    rows: "y = Inl e" "run_of runId db1 = Some (completed_run (cd_now db) startedAt res r)"
      "task_of (ct_id task) db1 = Some t1" "ct_consecutiveFailures t1 = 0"
    by auto
  obtain x db2 where f: "finish_failure env prep task user startedAt runId e db1 = (x, db2)" by fastforce
  have "settle_run env prep task user startedAt runId (Returned res) db = (x, db2)"
    using assms(2-4) y f rows(1) by (simp add: settle_run_def Let_def)
  moreover have "\<exists>s. rr_output res = Some s" using assms(5) by (cases "rr_output res") (auto simp: falsy_def)
  ultimately show ?thesis using finish_failure_rows [OF assms(1) rows(3,2) f] rows(4)
    by (auto simp: failed_run_def completed_run_def split: if_splits)
qed

section \<open>Samples\<close>

definition sample_task :: cron_task where
  "sample_task = \<lparr>ct_id = 0, ct_agentDefinitionId = ''a'', ct_name = ''n'', ct_schedule = Every ''5m'', ct_prompt = ''p'',
     ct_channelId = None, ct_enabled = True, ct_lastRunAt = None, ct_lastStatus = None,
     ct_createdByUserId = Some ''u'', ct_nextRunAt = Some 0, ct_consecutiveFailures = 2, ct_disabledReason = None,
     ct_timeoutMs = None\<rparr>"

definition empty_cron_db :: cron_db where
  "empty_cron_db = \<lparr>cd_tasks = [], cd_runs = [], cd_messages = [],
     cd_sessions = \<lparr>db_sessions = [], db_messages = [], db_ids = show_nat, db_nextId = 0, db_now = 0\<rparr>,
     cd_users = [(''u'', ''p'')], cd_policies = [(''p'', sample_policy)], cd_channels = [], cd_published = [],
     cd_nextId = 1, cd_now = 0\<rparr>"

definition sample_settings :: cron_settings where
  "sample_settings = \<lparr>cs_defaultTimezone = ''UTC'', cs_cronExecutionTimeoutMs = 5, cs_cronDefaultTokenBudget = None,
     cs_cronTokenGracePercent = 10\<rparr>"

definition sample_result :: "string option \<Rightarrow> agent_result" where
  "sample_result e = \<lparr>rr_output = Some ''out'', rr_error = e, rr_tokenUsage = None\<rparr>"

definition sample_cron_env :: "race \<Rightarrow> cron_env" where
  "sample_cron_env outcome = \<lparr>cn_platform = sample_platform, cn_settings = (\<lambda>_. Inr sample_settings),
     cn_run = (\<lambda>_ db. (outcome, db)), cn_publishFails = (\<lambda>_. None),
     cn_writeFails = (\<lambda>_ _. None), cn_maxTimeoutMs = 9, cn_maxConsecutiveFailures = 3\<rparr>"

lemma sample_writes: "writes_ok (sample_cron_env outcome)"
  by (simp add: writes_ok_def sample_cron_env_def)

theorem cron_run_settles_witness:
  "\<exists>r. run_of 1 (execute_task (sample_cron_env RaceTimeout) sample_task ''u''
      (empty_cron_db\<lparr>cd_tasks := [sample_task]\<rparr>)) = Some r \<and> rn_status r \<in> {Completed, Failed}"
proof -
  have "keeps_rows (sample_cron_env RaceTimeout)" by (simp add: keeps_rows_def sample_cron_env_def)
  moreover have "task_of (ct_id sample_task) (empty_cron_db\<lparr>cd_tasks := [sample_task]\<rparr>) \<noteq> None" by (simp add: task_of_def)
  ultimately show ?thesis
    using sample_writes cron_run_settles [of "sample_cron_env RaceTimeout" sample_task "empty_cron_db\<lparr>cd_tasks := [sample_task]\<rparr>" "''u''"]
    by (auto simp: empty_cron_db_def sample_cron_env_def)
qed

definition sample_run :: task_run where
  "sample_run = \<lparr>rn_id = 1, rn_taskId = 0, rn_status = Running, rn_output = None, rn_error = None, rn_tokens = None,
     rn_startedAt = 0, rn_completedAt = None, rn_durationMs = None\<rparr>"

definition sample_prepared :: prepared where
  "sample_prepared = prepare_run (sample_cron_env RaceTimeout) sample_task ''u'' 1 empty_cron_db"

lemma sample_prepared_ok:
  "pp_settings sample_prepared = Some sample_settings" "\<exists>args. pp_args sample_prepared = Inr args"
  by (simp_all add: sample_prepared_def prepare_run_def sample_cron_env_def Let_def policy_of_user_def find_user_def
      find_policy_def empty_cron_db_def)

abbreviation "one_run_db \<equiv> empty_cron_db\<lparr>cd_tasks := [sample_task], cd_runs := [sample_run]\<rparr>"

theorem inner_timeout_counts_as_success_witness:
  "\<exists>r'. run_of 1 (snd (settle_run (sample_cron_env RaceTimeout) sample_prepared sample_task ''u'' 0 1
      (Returned (sample_result (Some ''Agent run timed out''))) one_run_db)) = Some r' \<and> rn_status r' = Completed"
proof -
  obtain args where args: "pp_args sample_prepared = Inr args" using sample_prepared_ok by blast
  have rows: "task_of (ct_id sample_task) one_run_db = Some sample_task" "run_of 1 one_run_db = Some sample_run"
    by (simp_all add: task_of_def run_of_def sample_run_def)
  have e: "rr_error (sample_result (Some ''Agent run timed out'')) = Some ''Agent run timed out''"
    by (simp add: sample_result_def)
  have "ct_channelId sample_task = None" by (simp add: sample_task_def)
  from inner_timeout_counts_as_success [OF sample_writes args sample_prepared_ok(1) e rows this, of RaceTimeout "''u''" 0]
  show ?thesis by auto
qed

theorem lost_delivery_undoes_success_witness:
  "\<exists>t'. task_of 0 (snd (settle_run (sample_cron_env RaceTimeout) sample_prepared (sample_task\<lparr>ct_channelId := Some 7\<rparr>) ''u'' 0 1
      (Returned (sample_result None)) one_run_db)) = Some t' \<and> \<not> ct_enabled t' \<and> ct_consecutiveFailures t' = 1"
proof -
  let ?task = "sample_task\<lparr>ct_channelId := Some 7\<rparr>"
  obtain args where args: "pp_args sample_prepared = Inr args" using sample_prepared_ok by blast
  have rows: "task_of (ct_id ?task) one_run_db = Some sample_task" "run_of 1 one_run_db = Some sample_run"
    by (simp_all add: task_of_def run_of_def sample_run_def)
  have res: "rr_error (sample_result None) = None" "\<not> falsy (rr_output (sample_result None))"
    by (simp_all add: sample_result_def falsy_def)
  have chan: "ct_channelId ?task = Some 7" "find_channel 7 one_run_db = Inl (not_found_error ''Channel'' (show_nat 7))"
    by (simp_all add: find_channel_def empty_cron_db_def)
  show ?thesis
    using lost_delivery_undoes_success [OF sample_writes args sample_prepared_ok(1) res rows chan, of RaceTimeout "''u''" 0]
    by (auto simp: sample_task_def sample_cron_env_def)
qed

text \<open>A refused write of the failure leaves the run running, although its agent is long done.\<close>

lemma refused_failure_leaves_run_running:
  "let env = (sample_cron_env RaceTimeout)\<lparr>cn_writeFails :=
         (\<lambda>w _. if w = FailRun then Some (ThrownError (ErrorObj ''connection lost'' None None None)) else None)\<rparr>
   in map rn_status (cd_runs (execute_task env sample_task ''u'' (empty_cron_db\<lparr>cd_tasks := [sample_task]\<rparr>))) = [Running]"
  by code_simp

end
