(* ===== verification/CronOwnership.thy ===== *)
theory CronOwnership
  imports CronJobs CronProcessor
begin

text \<open>
  What the writing operations on scheduled tasks may touch. \<open>user_op\<close> collects the operations a user
  can call, over the web API or through the tool of an agent; \<open>acts_for\<close> is their common contract,
  and the properties below follow from it.
\<close>

datatype user_op =
  CreateTask string create_task_input
| UpdateTask string nat update_task_input
| RemoveTask string nat
| CronTool cron_tool_env "(string \<times> json) list"

fun op_user :: "user_op \<Rightarrow> string" where
  "op_user (CreateTask u input) = u"
| "op_user (UpdateTask u i input) = u"
| "op_user (RemoveTask u i) = u"
| "op_user (CronTool env params) = cx_userId env"

fun user_step :: "cron_platform \<Rightarrow> string \<Rightarrow> user_op \<Rightarrow> cron_db \<Rightarrow> cron_db" where
  "user_step plat tz (CreateTask u input) db = snd (ts_create plat tz u input db)"
| "user_step plat tz (UpdateTask u i input) db = snd (ts_update plat tz i u input db)"
| "user_step plat tz (RemoveTask u i) db = snd (ts_remove i u db)"
| "user_step plat tz (CronTool env params) db = snd (cron_execute env params db)"

section \<open>The contract\<close>

text \<open>The part of the tables no operation on tasks touches.\<close>

definition same_rest :: "cron_db \<Rightarrow> cron_db \<Rightarrow> bool" where
  "same_rest db db' \<longleftrightarrow> cd_now db' = cd_now db \<and> cd_sessions db' = cd_sessions db \<and> cd_users db' = cd_users db \<and>
     cd_policies db' = cd_policies db \<and> cd_channels db' = cd_channels db \<and> cd_published db' = cd_published db"

definition acts_for :: "string \<Rightarrow> cron_db \<Rightarrow> cron_db \<Rightarrow> bool" where
  "acts_for u db db' \<longleftrightarrow>
     (\<forall>i t. task_of i db = Some t \<longrightarrow> ct_createdByUserId t \<noteq> Some u \<longrightarrow> task_of i db' = Some t) \<and>
     (\<forall>i t t'. task_of i db = Some t \<longrightarrow> task_of i db' = Some t' \<longrightarrow> ct_createdByUserId t' = ct_createdByUserId t) \<and>
     (\<forall>i t'. task_of i db = None \<longrightarrow> task_of i db' = Some t' \<longrightarrow> cd_nextId db \<le> i \<and> ct_createdByUserId t' = Some u) \<and>
     cd_runs db' = filter (\<lambda>r. task_of (rn_taskId r) db' \<noteq> None) (cd_runs db) \<and>
     cd_nextId db \<le> cd_nextId db' \<and> same_rest db db' \<and> cron_ok db'"

lemma task_of_None: "task_of i db = None \<longleftrightarrow> i \<notin> ct_id ` set (cd_tasks db)"
  by (auto simp: task_of_def find_None_iff)

lemma task_of_eq:
  assumes "cron_ok db" "t \<in> set (cd_tasks db)"
  shows "task_of (ct_id t) db = Some t"
proof -
  have "distinct (map ct_id xs) \<Longrightarrow> t \<in> set xs \<Longrightarrow> find (\<lambda>x. ct_id x = ct_id t) xs = Some t" for xs
    by (induction xs) (auto simp: rev_image_eqI)
  then show ?thesis using assms by (simp add: task_of_def cron_ok_def)
qed

lemma task_of_below: "cron_ok db \<Longrightarrow> task_of i db = Some t \<Longrightarrow> i < cd_nextId db"
  by (auto dest: task_of_Some simp: cron_ok_def)

lemma run_task_below: "cron_ok db \<Longrightarrow> r \<in> set (cd_runs db) \<Longrightarrow> rn_taskId r < cd_nextId db"
  by (auto simp: cron_ok_def)

lemma runs_kept:
  assumes "cron_ok db'" "cd_runs db' = cd_runs db"
  shows "cd_runs db = filter (\<lambda>r. task_of (rn_taskId r) db' \<noteq> None) (cd_runs db)"
proof -
  have "task_of (rn_taskId r) db' \<noteq> None" if "r \<in> set (cd_runs db)" for r
    using assms that by (simp add: cron_ok_def task_of_None)
  then show ?thesis by (metis (mono_tags, lifting) filter_True)
qed

lemma acts_for_refl: "cron_ok db \<Longrightarrow> acts_for u db db"
  using runs_kept [of db db] by (simp add: acts_for_def same_rest_def)

lemma run_has_task: "cron_ok db \<Longrightarrow> r \<in> set (cd_runs db) \<Longrightarrow> task_of (rn_taskId r) db \<noteq> None"
  by (simp add: cron_ok_def task_of_None)

lemma acts_forD:
  assumes "acts_for u db db'"
  shows acts_for_others: "task_of i db = Some t \<Longrightarrow> ct_createdByUserId t \<noteq> Some u \<Longrightarrow> task_of i db' = Some t"
    and acts_for_owner: "task_of i db = Some t \<Longrightarrow> task_of i db' = Some t' \<Longrightarrow> ct_createdByUserId t' = ct_createdByUserId t"
    and acts_for_new: "task_of i db = None \<Longrightarrow> task_of i db' = Some t' \<Longrightarrow> cd_nextId db \<le> i \<and> ct_createdByUserId t' = Some u"
    and acts_for_runs: "cd_runs db' = filter (\<lambda>r. task_of (rn_taskId r) db' \<noteq> None) (cd_runs db)"
    and acts_for_ids: "cd_nextId db \<le> cd_nextId db'"
    and acts_for_rest: "same_rest db db'"
    and acts_for_ok: "cron_ok db'"
  using assms unfolding acts_for_def by blast+

lemma acts_for_trans:
  assumes ok: "cron_ok db" and one: "acts_for u db db1" and two: "acts_for u db1 db2"
  shows "acts_for u db db2"
proof -
  have stays: "task_of i db1 \<noteq> None" if "i < cd_nextId db" "task_of i db2 \<noteq> None" for i
    using that acts_for_new [OF two] acts_for_ids [OF one] by (metis leD le_trans not_None_eq)
  have runs: "cd_runs db2 = filter (\<lambda>r. task_of (rn_taskId r) db2 \<noteq> None) (cd_runs db)"
  proof -
    have "cd_runs db2 = filter (\<lambda>r. task_of (rn_taskId r) db2 \<noteq> None) (filter (\<lambda>r. task_of (rn_taskId r) db1 \<noteq> None) (cd_runs db))"
      using acts_for_runs [OF two] acts_for_runs [OF one] by simp
    also have "\<dots> = filter (\<lambda>r. task_of (rn_taskId r) db2 \<noteq> None) (cd_runs db)"
      unfolding filter_filter using stays run_task_below [OF ok] by (intro filter_cong refl) blast
    finally show ?thesis .
  qed
  have owner: "ct_createdByUserId t2 = ct_createdByUserId t" if t: "task_of i db = Some t" "task_of i db2 = Some t2" for i t t2
  proof -
    from t stays [OF task_of_below [OF ok t(1)]] obtain t1 where "task_of i db1 = Some t1" by blast
    then show ?thesis using acts_for_owner [OF one t(1)] acts_for_owner [OF two _ t(2)] by simp
  qed
  have new: "cd_nextId db \<le> i \<and> ct_createdByUserId t2 = Some u" if t: "task_of i db = None" "task_of i db2 = Some t2" for i t2
  proof (cases "task_of i db1")
    case None
    then show ?thesis using acts_for_new [OF two None t(2)] acts_for_ids [OF one] by simp
  next
    case (Some t1)
    then show ?thesis using acts_for_new [OF one t(1) Some] acts_for_owner [OF two Some t(2)] by simp
  qed
  have others: "task_of i db2 = Some t" if "task_of i db = Some t" "ct_createdByUserId t \<noteq> Some u" for i t
    using acts_for_others [OF two acts_for_others [OF one that] that(2)] .
  have "same_rest db db2" using acts_for_rest [OF one] acts_for_rest [OF two] by (simp add: same_rest_def)
  moreover have "cd_nextId db \<le> cd_nextId db2" using acts_for_ids [OF one] acts_for_ids [OF two] by simp
  moreover note acts_for_ok [OF two]
  ultimately show ?thesis unfolding acts_for_def using runs owner new others by (intro conjI allI impI) blast+
qed

lemma acts_for_and_then:
  assumes "cron_ok db" "acts_for u db (snd (f db))"
    and "\<And>x db1. f db = (Inr x, db1) \<Longrightarrow> acts_for u db db1 \<Longrightarrow> acts_for u db1 (snd (g x db1))"
  shows "acts_for u db (snd (and_then f g db))"
proof -
  obtain y db1 where f: "f db = (y, db1)" by fastforce
  show ?thesis
  proof (cases y)
    case (Inl e)
    then show ?thesis using assms(2) f by (simp add: and_then_def)
  next
    case (Inr x)
    then have "acts_for u db1 (snd (g x db1))" using assms(2,3) f by simp
    then show ?thesis using acts_for_trans [OF assms(1)] assms(2) f Inr by (simp add: and_then_def)
  qed
qed

section \<open>The primitive writes\<close>

lemma acts_for_set_task:
  assumes ok: "cron_ok db" and f: "\<And>x. ct_id (f x) = ct_id x" "\<And>x. ct_createdByUserId (f x) = ct_createdByUserId x"
    and own: "\<And>t. task_of i db = Some t \<Longrightarrow> ct_createdByUserId t = Some u"
  shows "acts_for u db (set_task i f db)"
proof -
  have ids: "map ct_id (cd_tasks (set_task i f db)) = map ct_id (cd_tasks db)"
    using f(1) by (simp add: set_task_def)
  then have idset: "ct_id ` set (cd_tasks (set_task i f db)) = ct_id ` set (cd_tasks db)"
    by (metis set_map)
  have "cron_ok (set_task i f db)"
    using ok ids idset unfolding cron_ok_def set_task_frame by (metis (no_types, lifting) image_iff)
  moreover have "cd_runs db = filter (\<lambda>r. task_of (rn_taskId r) (set_task i f db) \<noteq> None) (cd_runs db)"
    using calculation by (rule runs_kept) simp
  ultimately show ?thesis using own f
    by (auto simp: acts_for_def same_rest_def task_of_set_task split: if_splits)
qed

text \<open>A task that, if it is there, belongs to a user.\<close>

definition owned_by :: "string \<Rightarrow> nat \<Rightarrow> cron_db \<Rightarrow> bool" where
  "owned_by u i db \<longleftrightarrow> (\<forall>t. task_of i db = Some t \<longrightarrow> ct_createdByUserId t = Some u)"

lemma owned_by_step:
  assumes "acts_for u db db'" "owned_by u i db"
  shows "owned_by u i db'"
  unfolding owned_by_def
proof (intro allI impI)
  fix t' assume t': "task_of i db' = Some t'"
  show "ct_createdByUserId t' = Some u"
  proof (cases "task_of i db")
    case None
    then show ?thesis using acts_for_new [OF assms(1) _ t'] by simp
  next
    case (Some t)
    then show ?thesis using acts_for_owner [OF assms(1) _ t'] assms(2) by (simp add: owned_by_def)
  qed
qed

lemma acts_for_task_update:
  assumes "cron_ok db" "owned_by u i db" "\<And>x. ct_id (f x) = ct_id x" "\<And>x. ct_createdByUserId (f x) = ct_createdByUserId x"
  shows "acts_for u db (snd (task_update i f db))"
proof (cases "task_of i db")
  case None
  then show ?thesis using acts_for_refl [OF assms(1)] by (simp add: task_update_def)
next
  case (Some t)
  then show ?thesis using acts_for_set_task [OF assms(1,3,4), of i u] assms(2) by (simp add: task_update_def owned_by_def)
qed

lemma acts_for_create:
  assumes ok: "cron_ok db"
  shows "acts_for u db (snd (task_create a n s p c e (Some u) db))"
proof -
  let ?db = "snd (task_create a n s p c e (Some u) db)"
  have fresh: "task_of (cd_nextId db) db = None" using ok by (auto simp: task_of_None cron_ok_def)
  obtain t db' where create: "task_create a n s p c e (Some u) db = (Inr t, db')"
    by (simp add: task_create_def Let_def)
  then have t: "ct_id t = cd_nextId db" "ct_createdByUserId t = Some u" "cd_tasks ?db = cd_tasks db @ [t]"
      "cd_nextId ?db = Suc (cd_nextId db)" "cd_runs ?db = cd_runs db" "same_rest db ?db"
    by (auto simp: task_create_def Let_def same_rest_def)
  have look: "task_of i ?db = (if i = cd_nextId db then Some t else task_of i db)" for i
  proof -
    have "find P (xs @ [t]) = (case find P xs of None \<Rightarrow> if P t then Some t else None | Some y \<Rightarrow> Some y)" for P xs
      by (induction xs) auto
    then show ?thesis using fresh t(1) by (auto simp: task_of_def t(3) split: option.splits)
  qed
  have "cron_ok ?db" using ok t by (auto simp: cron_ok_def less_Suc_eq)
  moreover have "cd_runs db = filter (\<lambda>r. task_of (rn_taskId r) ?db \<noteq> None) (cd_runs db)"
    using calculation t(5) by (rule runs_kept)
  ultimately show ?thesis using t fresh by (auto simp: acts_for_def look)
qed

lemma acts_for_delete:
  assumes ok: "cron_ok db" and own: "task_of i db = Some t" "ct_createdByUserId t = Some u"
  shows "acts_for u db (snd (task_delete i db))"
proof -
  let ?db = "snd (task_delete i db)"
  have db: "cd_tasks ?db = filter (\<lambda>x. ct_id x \<noteq> i) (cd_tasks db)" "cd_nextId ?db = cd_nextId db" "same_rest db ?db"
      "cd_runs ?db = filter (\<lambda>r. rn_taskId r \<noteq> i) (cd_runs db)"
    using own by (simp_all add: task_delete_def same_rest_def)
  have look: "task_of j ?db = (if j = i then None else task_of j db)" for j
  proof -
    have "find (\<lambda>x. ct_id x = j) (filter (\<lambda>x. ct_id x \<noteq> i) xs) = (if j = i then None else find (\<lambda>x. ct_id x = j) xs)" for xs
      by (induction xs) auto
    then show ?thesis unfolding task_of_def db .
  qed
  have "cron_ok ?db" using ok by (auto simp: cron_ok_def db distinct_map_filter)
  moreover have "filter (\<lambda>r. rn_taskId r \<noteq> i) (cd_runs db) = filter (\<lambda>r. task_of (rn_taskId r) ?db \<noteq> None) (cd_runs db)"
    using run_has_task [OF ok] by (intro filter_cong refl) (auto simp: look)
  ultimately show ?thesis using own db by (auto simp: acts_for_def look)
qed

section \<open>The operations of a user\<close>

lemma find_by_id_acts: "cron_ok db \<Longrightarrow> acts_for u db (snd (task_find_by_id i db))"
  by (simp add: task_find_by_id_def acts_for_refl split: option.split)

lemma set_first_run_acts:
  assumes "cron_ok db" "owned_by u i db"
  shows "acts_for u db (snd (set_first_run plat s tz i db))"
proof -
  have "acts_for u db (snd (and_then (update_next_run_at i (Some t)) (\<lambda>_. give ()) db))" for t
    unfolding update_next_run_at_def
    by (rule acts_for_and_then, rule assms(1), rule acts_for_task_update [OF assms])
      (simp_all add: give_def acts_for_ok acts_for_refl)
  then show ?thesis by (simp add: set_first_run_def acts_for_refl assms split: option.split)
qed

lemma created_task_owned:
  assumes ok: "cron_ok db" and create: "task_create a n s p c e (Some u) db = (Inr t, db')"
  shows "owned_by u (ct_id t) db'"
proof -
  have "task_of (ct_id t) db = None" using create ok by (auto simp: task_create_def Let_def task_of_None cron_ok_def)
  moreover have "acts_for u db db'" using acts_for_create [OF ok, of u a n s p c e] create by simp
  ultimately show ?thesis using acts_for_new unfolding owned_by_def by blast
qed

lemma create_and_then_acts:
  assumes ok: "cron_ok db"
    and g: "\<And>t db1. cron_ok db1 \<Longrightarrow> owned_by u (ct_id t) db1 \<Longrightarrow> acts_for u db1 (snd (g t db1))"
  shows "acts_for u db (snd (and_then (task_create a n s p c e (Some u)) g db))"
proof (rule acts_for_and_then, rule ok, rule acts_for_create [OF ok])
  fix t db1
  assume "task_create a n s p c e (Some u) db = (Inr t, db1)" "acts_for u db db1"
  then show "acts_for u db1 (snd (g t db1))"
    using g acts_for_ok created_task_owned [OF ok] by blast
qed

lemma first_run_then_give_acts:
  assumes "cron_ok db" "owned_by u i db"
  shows "acts_for u db (snd (and_then (set_first_run plat s tz i) (\<lambda>_. give x) db))"
  by (rule acts_for_and_then, rule assms(1), rule set_first_run_acts [OF assms])
    (simp add: give_def acts_for_ok acts_for_refl)

lemma ts_create_acts: "cron_ok db \<Longrightarrow> acts_for u db (snd (ts_create plat tz u input db))"
  by (auto simp: ts_create_def Let_def acts_for_refl split: sum.split
      intro!: create_and_then_acts first_run_then_give_acts)

lemma ts_check_acts: "cron_ok db \<Longrightarrow> acts_for u db (snd (ts_check_schedule plat tz u s db))"
  by (simp add: ts_check_schedule_def Let_def acts_for_refl split: sum.split option.split)

lemma task_of_find: "task_find_by_id i db = (Inr t, db') \<Longrightarrow> db' = db \<and> task_of i db = Some t"
  by (auto simp: task_find_by_id_def split: option.splits)

lemma ts_reschedule_acts:
  assumes "cron_ok db" "owned_by u i db"
  shows "acts_for u db (snd (ts_reschedule plat tz s i db))"
proof -
  have "acts_for u db (snd (and_then (update_next_run_at i t) (\<lambda>_. give ()) db))" for t
    unfolding update_next_run_at_def
    by (rule acts_for_and_then, rule assms(1), rule acts_for_task_update [OF assms])
      (simp_all add: give_def acts_for_ok acts_for_refl)
  then show ?thesis by (simp add: ts_reschedule_def acts_for_refl assms split: option.split)
qed

lemma ts_update_acts:
  assumes ok: "cron_ok db"
  shows "acts_for u db (snd (ts_update plat tz i u input db))"
  unfolding ts_update_def
proof (rule acts_for_and_then, rule ok, rule find_by_id_acts [OF ok], goal_cases)
  case (1 t db0)
  then have t: "db0 = db" "task_of i db = Some t" by (auto dest: task_of_find)
  show ?case
  proof (cases "ct_createdByUserId t = Some u")
    case False
    then show ?thesis using ok t by (simp add: acts_for_refl)
  next
    case True
    have own: "owned_by u i db" using t True by (simp add: owned_by_def)
    have finish: "acts_for u d (snd (and_then (if 0 < ct_consecutiveFailures t then reset_failures i else give t) (\<lambda>_. give r) d))"
      if "cron_ok d" "owned_by u i d" for d r
      by (rule acts_for_and_then, rule that(1))
        (auto simp: give_def reset_failures_def acts_for_ok acts_for_refl that intro!: acts_for_task_update)
    have rest: "acts_for u d (snd (and_then (ts_reschedule plat tz (tp_schedule input) i) (\<lambda>_.
        and_then (if 0 < ct_consecutiveFailures t then reset_failures i else give t) (\<lambda>_. give r)) d))"
      if "cron_ok d" "owned_by u i d" for d r
      by (rule acts_for_and_then, rule that(1), rule ts_reschedule_acts [OF that])
        (blast intro: finish acts_for_ok owned_by_step that)
    have patched: "acts_for u d (snd (and_then (task_update_fields i (task_patch.truncate input)) (\<lambda>result.
        and_then (ts_reschedule plat tz (tp_schedule input) i) (\<lambda>_.
        and_then (if 0 < ct_consecutiveFailures t then reset_failures i else give t) (\<lambda>_. give result))) d))"
      if d: "cron_ok d" "owned_by u i d" for d
    proof (rule acts_for_and_then, rule d(1))
      show "acts_for u d (snd (task_update_fields i (task_patch.truncate input) d))"
        unfolding task_update_fields_def by (rule acts_for_task_update [OF d]) (simp_all add: apply_patch_def)
    qed (blast intro: rest acts_for_ok owned_by_step d)
    have "acts_for u db (snd (and_then (ts_check_schedule plat tz u (tp_schedule input)) (\<lambda>_.
        and_then (task_update_fields i (task_patch.truncate input)) (\<lambda>result.
        and_then (ts_reschedule plat tz (tp_schedule input) i) (\<lambda>_.
        and_then (if 0 < ct_consecutiveFailures t then reset_failures i else give t) (\<lambda>_. give result)))) db))"
      by (rule acts_for_and_then, rule ok, rule ts_check_acts [OF ok]) (blast intro: patched acts_for_ok owned_by_step own)
    then show ?thesis using True t by simp
  qed
qed

lemma ts_remove_acts:
  assumes ok: "cron_ok db"
  shows "acts_for u db (snd (ts_remove i u db))"
  unfolding ts_remove_def
  by (rule acts_for_and_then, rule ok, rule find_by_id_acts [OF ok])
    (auto dest!: task_of_find simp: ok acts_for_refl intro: acts_for_delete)

lemma cron_create_task_acts:
  assumes "cron_ok db" "u = cx_userId env"
  shows "acts_for u db (snd (cron_create_task env n p s c db))"
  unfolding cron_create_task_def Let_def assms(2)
  using assms(1) by (auto simp: reply_err_def acts_for_refl intro!: create_and_then_acts first_run_then_give_acts)

lemma job_of_task: "cron_ok db \<Longrightarrow> job_of j db = Some t \<Longrightarrow> task_of (ct_id t) db = Some t"
  by (auto simp: job_of_def find_Some_iff intro!: task_of_eq)

lemma cron_execute_acts:
  assumes ok: "cron_ok db"
  shows "acts_for (cx_userId env) db (snd (cron_execute env params db))"
proof -
  have "acts_for (cx_userId env) db (snd (cron_create env params db))"
    by (simp add: cron_create_def reply_err_def ok acts_for_refl cron_create_task_acts split: sum.split option.split)
  moreover have "acts_for (cx_userId env) db (snd (cron_remove env params db))"
  proof -
    have "acts_for (cx_userId env) db (snd (and_then (task_delete (ct_id t)) (\<lambda>_. give x) db))"
      if "job_of j db = Some t" "ct_createdByUserId t = Some (cx_userId env)" for j t x
      by (rule acts_for_and_then, rule ok, rule acts_for_delete [OF ok job_of_task [OF ok that(1)] that(2)])
        (simp add: give_def acts_for_ok acts_for_refl)
    then show ?thesis
      by (auto simp: cron_remove_def reply_err_def ok acts_for_refl Let_def split: option.split simp del: json_stringify.simps)
  qed
  moreover have "snd (cron_runs env params db) = db" "snd (cron_run_detail env params db) = db"
    by (simp_all add: cron_runs_def cron_run_detail_def reply_err_def Let_def split: option.split)
  ultimately show ?thesis
    by (simp add: cron_execute_def Let_def reply_err_def acts_for_refl [OF ok])
qed

section \<open>Properties\<close>

lemma user_step_acts: "cron_ok db \<Longrightarrow> acts_for (op_user p) db (user_step plat tz p db)"
  by (cases p) (simp_all add: ts_create_acts ts_update_acts ts_remove_acts cron_execute_acts)


text \<open>Creating a task, on either way, leaves the number of enabled tasks within the policy.\<close>

lemma active_count_set_task:
  assumes "\<And>x. ct_createdByUserId (f x) = ct_createdByUserId x" "\<And>x. ct_enabled (f x) = ct_enabled x"
  shows "find_active_count_by_user u (set_task i f db) = find_active_count_by_user u db"
proof -
  have "count_if (\<lambda>t. ct_createdByUserId t = Some u \<and> ct_enabled t) (map (\<lambda>x. if ct_id x = i then f x else x) xs) =
      count_if (\<lambda>t. ct_createdByUserId t = Some u \<and> ct_enabled t) xs" for xs
    using assms by (induction xs) auto
  then show ?thesis by (simp add: find_active_count_by_user_def set_task_def)
qed

lemma active_count_first_run:
  "find_active_count_by_user u (snd (and_then (set_first_run plat s tz i) (\<lambda>_. give x) db)) = find_active_count_by_user u db"
  by (simp add: and_then_def set_first_run_def update_next_run_at_def task_update_def give_def active_count_set_task
      split: option.split)

lemma active_count_create:
  "find_active_count_by_user u (snd (and_then (task_create a n s p c e (Some u))
     (\<lambda>t. and_then (set_first_run plat s tz (ct_id t)) (\<lambda>_. give (x t))) db)) \<le> Suc (find_active_count_by_user u db)"
proof -
  obtain t db1 where create: "task_create a n s p c e (Some u) db = (Inr t, db1)"
    by (simp add: task_create_def Let_def)
  have "find_active_count_by_user u db1 \<le> Suc (find_active_count_by_user u db)"
    using create by (auto simp: task_create_def Let_def find_active_count_by_user_def)
  then show ?thesis by (simp add: and_then_Inr [of "task_create a n s p c e (Some u)", OF create] active_count_first_run)
qed

lemma can_create_count: "gr_allowed (can_create plat now n s cronic policy tz) \<Longrightarrow> n < pl_maxScheduledTasks policy"
  by (auto simp: can_create_def split: if_splits)

text \<open>Creating tasks keeps the number of a user's enabled tasks within the limit of the policy, on
  both ways to create one.\<close>

theorem creation_respects_limit:
  "(case policy_of_user u db of
      Inl e \<Rightarrow> snd (ts_create plat tz u input db) = db
    | Inr policy \<Rightarrow> find_active_count_by_user u (snd (ts_create plat tz u input db))
                    \<le> max (find_active_count_by_user u db) (pl_maxScheduledTasks policy)) \<and>
   find_active_count_by_user (cx_userId env) (snd (cron_create env params db))
     \<le> max (find_active_count_by_user (cx_userId env) db) (pl_maxScheduledTasks (cx_policy env))"
proof (rule conjI, goal_cases)
  case 1
  show ?case
  proof (cases "policy_of_user u db")
    case (Inl e)
    then show ?thesis by (simp add: ts_create_def)
  next
    case (Inr policy)
    then show ?thesis
      using active_count_create [of u "ci_agentDefinitionId input" "ci_name input" "ci_schedule input" "ci_prompt input"
          "ci_channelId input" "Some (ci_enabled input)" plat tz "\<lambda>t. t" db]
      by (auto simp: ts_create_def Let_def dest!: can_create_count split: if_splits)
  qed
next
  case 2
  have "find_active_count_by_user (cx_userId env) (snd (cron_create_task env n p s c db))
     \<le> max (find_active_count_by_user (cx_userId env) db) (pl_maxScheduledTasks (cx_policy env))" for n p s c
    using active_count_create [of "cx_userId env" "cx_agentDefinitionId env" n s p c "Some True" "cx_plat env" "cx_defaultTz env"
        "\<lambda>t. tool_ok (created_json (cx_plat env) t (compute_next_run (cx_plat env) (cd_now db) s (cx_defaultTz env)))" db]
    by (auto simp: cron_create_task_def Let_def reply_err_def dest!: can_create_count split: if_splits)
  then show ?case
    by (simp add: cron_create_def reply_err_def split: sum.split option.split
        del: max.absorb1 max.absorb2 max.absorb3 max.absorb4)
qed

text \<open>A full account: two enabled tasks, and one that is disabled.\<close>

definition full_db :: cron_db where
  "full_db = empty_cron_db\<lparr>cd_tasks := [sample_task, sample_task\<lparr>ct_id := 1\<rparr>, sample_task\<lparr>ct_id := 2, ct_enabled := False\<rparr>],
     cd_nextId := 3\<rparr>"

definition enabling :: update_task_input where
  "enabling = \<lparr>tp_name = None, tp_schedule = None, tp_prompt = None, tp_channelId = None, tp_enabled = Some True,
     ui_timeoutMs = None\<rparr>"

text \<open>Enabling a task again is an update, which never counts: with the limit of two reached, a third
  task that was disabled is enabled by its owner.\<close>

theorem reenabling_exceeds_limit:
  "policy_of_user ''u'' full_db = Inr sample_policy \<and>
   find_active_count_by_user ''u'' full_db = pl_maxScheduledTasks sample_policy \<and>
   \<not> isl (fst (ts_update sample_platform ''UTC'' 2 ''u'' enabling full_db)) \<and>
   find_active_count_by_user ''u'' (snd (ts_update sample_platform ''UTC'' 2 ''u'' enabling full_db)) =
     Suc (pl_maxScheduledTasks sample_policy)"
  by code_simp


end
