(* ===== verification/CronScheduler.thy ===== *)
theory CronScheduler
  imports CronOwnership
begin

text \<open>
  The scheduler (\<open>engine/cron-scheduler.service.ts\<close>) and the runs it starts. \<open>tick\<close> awaits the
  database once for its batch and then for every task of it, the runs are fired and forgotten, and
  the timer starts the next tick whether the last one is done or not. So the machine below has one
  event per stretch of code between two awaits that matter: a tick reads its batch, a tick treats its
  next task, an execution creates its run, an execution settles. Users, time and restarts come in
  between. The lookups of user, policy and running count for one task are taken as one step, and so
  are the writes that settle a run.
\<close>

section \<open>State\<close>

record sched_cfg =
  sc_env :: cron_env
  sc_defaultTz :: string
  sc_batchSize :: nat
  sc_maxGlobal :: nat
  sc_maxPerUser :: nat

record sched_tick =
  tk_slots :: nat
  tk_rest :: "cron_task list"
  tk_dispatched :: nat

text \<open>An execution whose run is not yet created (with its start time), or one that is running.\<close>

datatype flight =
  Dispatched cron_task string int
| Started prepared cron_task string int nat

record sched_state =
  sx_db :: cron_db
  sx_running :: nat
  sx_ticks :: "sched_tick list"
  sx_flight :: "flight list"

section \<open>Ticks\<close>

definition available_slots :: "sched_cfg \<Rightarrow> nat \<Rightarrow> int" where
  "available_slots cfg running = min (int (sc_batchSize cfg)) (int (sc_maxGlobal cfg) - int running)"

definition tick_start :: "sched_cfg \<Rightarrow> sched_state \<Rightarrow> sched_state" where
  "tick_start cfg s =
     (let slots = available_slots cfg (sx_running s) in
      if slots \<le> 0 then s
      else
        (let due = find_due (cd_now (sx_db s)) (nat slots) (sx_db s) in
         if due = [] then s
         else s\<lparr>sx_ticks := sx_ticks s @ [\<lparr>tk_slots = nat slots, tk_rest = due, tk_dispatched = 0\<rparr>]\<rparr>))"

text \<open>Whom a task is dispatched for, if it is.\<close>

definition dispatch_for :: "sched_cfg \<Rightarrow> sched_tick \<Rightarrow> cron_task \<Rightarrow> cron_db \<Rightarrow> string option" where
  "dispatch_for cfg tk task db =
     (if tk_slots tk \<le> tk_dispatched tk then None
      else
        (case ct_createdByUserId task of
           None \<Rightarrow> None
         | Some u \<Rightarrow>
             if u = [] then None
             else
               (case policy_of_user u db of
                  Inl e \<Rightarrow> None
                | Inr policy \<Rightarrow>
                    if gr_allowed (can_dispatch (ct_consecutiveFailures task) (find_running_count_by_user u db) policy
                         (cn_maxConsecutiveFailures (sc_env cfg)) (sc_maxPerUser cfg))
                    then Some u else None)))"

definition put_tick :: "nat \<Rightarrow> sched_tick \<Rightarrow> sched_tick list \<Rightarrow> sched_tick list" where
  "put_tick k tk ticks = (if tk_rest tk = [] then drop_nth k ticks else ticks[k := tk])"

definition tick_task :: "sched_cfg \<Rightarrow> nat \<Rightarrow> sched_state \<Rightarrow> sched_state" where
  "tick_task cfg k s =
     (if length (sx_ticks s) \<le> k then s
      else
        (let tk = sx_ticks s ! k in
         case tk_rest tk of
           [] \<Rightarrow> s
         | task # rest \<Rightarrow>
             (case dispatch_for cfg tk task (sx_db s) of
                None \<Rightarrow> s\<lparr>sx_ticks := put_tick k (tk\<lparr>tk_rest := rest\<rparr>) (sx_ticks s)\<rparr>
              | Some u \<Rightarrow>
                  s\<lparr>sx_ticks := put_tick k (tk\<lparr>tk_rest := rest, tk_dispatched := Suc (tk_dispatched tk)\<rparr>) (sx_ticks s),
                    sx_running := Suc (sx_running s),
                    sx_flight := sx_flight s @ [Dispatched task u (cd_now (sx_db s))]\<rparr>)))"

section \<open>Executions\<close>

text \<open>The first await of \<open>executeInternal\<close>: the row of the run. If it fails, the execution is over.\<close>

definition begin_run :: "sched_cfg \<Rightarrow> nat \<Rightarrow> sched_state \<Rightarrow> sched_state" where
  "begin_run cfg k s =
     (if length (sx_flight s) \<le> k then s
      else
        (case sx_flight s ! k of
           Started p task u startedAt runId \<Rightarrow> s
         | Dispatched task u startedAt \<Rightarrow>
             (case open_task_run (sc_env cfg) (ct_id task) (sx_db s) of
                (Inl e, db) \<Rightarrow>
                  s\<lparr>sx_db := db, sx_running := sx_running s - 1, sx_flight := drop_nth k (sx_flight s)\<rparr>
              | (Inr run, db) \<Rightarrow>
                  s\<lparr>sx_db := db,
                    sx_flight := (sx_flight s)[k := Started (prepare_run (sc_env cfg) task u (rn_id run) db)
                                                     task u startedAt (rn_id run)]\<rparr>)))"

definition settle_flight :: "sched_cfg \<Rightarrow> nat \<Rightarrow> race \<Rightarrow> sched_state \<Rightarrow> sched_state" where
  "settle_flight cfg k outcome s =
     (if length (sx_flight s) \<le> k then s
      else
        (case sx_flight s ! k of
           Dispatched task u startedAt \<Rightarrow> s
         | Started p task u startedAt runId \<Rightarrow>
             s\<lparr>sx_db := snd (settle_run (sc_env cfg) p task u startedAt runId outcome (sx_db s)),
               sx_running := sx_running s - 1, sx_flight := drop_nth k (sx_flight s)\<rparr>))"

text \<open>A new process: nothing runs, and \<open>recoverOrphanedRuns\<close> fails the old enough running rows.\<close>

definition restart :: "sched_cfg \<Rightarrow> sched_state \<Rightarrow> sched_state" where
  "restart cfg s =
     \<lparr>sx_db = snd (mark_orphaned_runs (int (cn_maxTimeoutMs (sc_env cfg))) (sx_db s)),
      sx_running = 0, sx_ticks = [], sx_flight = []\<rparr>"

datatype sched_event =
  TickStarts
| TickTreats nat
| RunBegins nat
| RunSettles nat race
| UserActs user_op
| TimePasses nat
| Restarts

fun sched_step :: "sched_cfg \<Rightarrow> sched_state \<Rightarrow> sched_event \<Rightarrow> sched_state" where
  "sched_step cfg s TickStarts = tick_start cfg s"
| "sched_step cfg s (TickTreats k) = tick_task cfg k s"
| "sched_step cfg s (RunBegins k) = begin_run cfg k s"
| "sched_step cfg s (RunSettles k outcome) = settle_flight cfg k outcome s"
| "sched_step cfg s (UserActs p) = s\<lparr>sx_db := user_step (cn_platform (sc_env cfg)) (sc_defaultTz cfg) p (sx_db s)\<rparr>"
| "sched_step cfg s (TimePasses d) = s\<lparr>sx_db := (sx_db s)\<lparr>cd_now := cd_now (sx_db s) + int d\<rparr>\<rparr>"
| "sched_step cfg s Restarts = restart cfg s"

definition sched_run :: "sched_cfg \<Rightarrow> sched_state \<Rightarrow> sched_event list \<Rightarrow> sched_state" where
  "sched_run cfg s es = foldl (sched_step cfg) s es"

section \<open>What settling a run changes\<close>

definition settles :: "nat \<Rightarrow> cron_db \<Rightarrow> cron_db \<Rightarrow> bool" where
  "settles i db db' \<longleftrightarrow>
     map (\<lambda>r. (rn_id r, rn_taskId r)) (cd_runs db') = map (\<lambda>r. (rn_id r, rn_taskId r)) (cd_runs db) \<and>
     (\<forall>j. j \<noteq> i \<longrightarrow> run_of j db' = run_of j db) \<and>
     map (\<lambda>t. (ct_id t, ct_createdByUserId t)) (cd_tasks db') = map (\<lambda>t. (ct_id t, ct_createdByUserId t)) (cd_tasks db) \<and>
     cd_nextId db' = cd_nextId db \<and> cd_now db' = cd_now db \<and>
     (\<forall>r. run_of i db' = Some r \<longrightarrow> rn_status r = Running \<longrightarrow> run_of i db = Some r)"

lemma settles_refl [simp]: "settles i db db"
  by (simp add: settles_def)

lemma settles_trans: "settles i db db1 \<Longrightarrow> settles i db1 db2 \<Longrightarrow> settles i db db2"
  by (simp add: settles_def)

lemma settles_and_then:
  assumes "settles i db (snd (f db))" "\<And>x db1. f db = (Inr x, db1) \<Longrightarrow> settles i db1 (snd (g x db1))"
  shows "settles i db (snd (and_then f g db))"
proof -
  obtain y db1 where f: "f db = (y, db1)" by fastforce
  then show ?thesis
    using assms by (cases y) (auto simp: and_then_def intro: settles_trans)
qed

lemma settles_run_update:
  assumes "\<And>r. rn_id (f r) = rn_id r" "\<And>r. rn_taskId (f r) = rn_taskId r" "\<And>r. rn_status (f r) \<noteq> Running"
  shows "settles i db (snd (run_update i f db))"
proof -
  have "settles i db (set_run i f db)"
    using assms by (auto simp: settles_def run_of_set_run) (simp add: set_run_def)
  then show ?thesis by (simp add: run_update_def split: option.split)
qed

lemma settles_task_update:
  assumes "\<And>t. ct_id (f t) = ct_id t" "\<And>t. ct_createdByUserId (f t) = ct_createdByUserId t"
  shows "settles i db (snd (task_update j f db))"
proof -
  have "settles i db (set_task j f db)" using assms by (auto simp: settles_def) (simp add: set_task_def)
  then show ?thesis by (simp add: task_update_def split: option.split)
qed

lemma settles_give [simp]: "settles i db (snd (give x db))"
  by (simp add: give_def)

lemma settles_deliver: "settles i db (snd (deliver_to env c task u ok out dis db))"
proof -
  obtain x db' where d: "deliver_to env c task u ok out dis db = (x, db')" by fastforce
  then have "cd_tasks db' = cd_tasks db \<and> cd_runs db' = cd_runs db \<and> cd_now db' = cd_now db \<and> cd_nextId db' = cd_nextId db"
    by (auto simp: deliver_to_def publish_frame_def anchor_web_delivery_def
        split: sum.splits if_splits list.splits prod.splits option.splits)
  with d show ?thesis by (simp add: settles_def run_of_def)
qed

lemma settles_attempt: "settles i db (snd (f db)) \<Longrightarrow> settles i db (snd (attempt_write env w f db))"
  by (simp add: attempt_write_def split: option.split)

lemmas settles_steps = settles_and_then settles_attempt settles_task_update settles_run_update settles_deliver

lemma settles_schedule_next: "settles i db (snd (schedule_next env settings task db))"
  unfolding schedule_next_def repo_updates
  by (auto split: option.split intro!: settles_steps)

lemma settles_success: "settles i db (snd (finish_success env settings task u st i res db))"
  unfolding finish_success_def Let_def repo_updates
  by (auto split: option.split intro!: settles_steps settles_schedule_next)

lemma settles_failure: "settles i db (snd (finish_failure env prep task u st i e db))"
  unfolding finish_failure_def Let_def repo_updates
  by (auto split: option.split intro!: settles_steps)

lemma settle_run_settles: "settles i db (snd (settle_run env prep task u st i outcome db))"
proof -
  obtain db1 where "(\<exists>x. settle_run env prep task u st i outcome db = (Inr x, db1)) \<and> settles i db db1 \<or>
      (\<exists>e. settle_run env prep task u st i outcome db = finish_failure env prep task u st i e db1 \<and> settles i db db1)"
  proof -
    obtain y db1 where y: "(case (pp_args prep, pp_settings prep, outcome) of
           (Inr _, Some settings, Returned res) \<Rightarrow>
             if rr_error res = Some ''token_budget_exceeded''
             then (Inl (ThrownError (ErrorObj ''token_budget_exceeded'' None None None)), db)
             else finish_success env settings task u st i res db
         | (Inr _, _, Threw e) \<Rightarrow> (Inl e, db)
         | (Inr _, _, _) \<Rightarrow> (Inl (ThrownError (ErrorObj ''execution_timeout'' None None None)), db)
         | (Inl e, _, _) \<Rightarrow> (Inl e, db)) = (y, db1)" by fastforce
    have "settles i db db1"
      using y settles_success [of i db env _ task u st]
      by (auto split: sum.splits option.splits race.splits if_splits) (metis snd_conv)
    then show ?thesis using that [of db1] y unfolding settle_run_def Let_def by (cases y) auto
  qed
  then show ?thesis using settles_failure settles_trans by (metis snd_conv)
qed

section \<open>The invariant of the scheduler\<close>

fun started_id :: "flight \<Rightarrow> nat option" where
  "started_id (Dispatched task u st) = None"
| "started_id (Started p task u st i) = Some i"

definition started_ids :: "flight list \<Rightarrow> nat list" where
  "started_ids fs = concat (map (\<lambda>f. case started_id f of None \<Rightarrow> [] | Some i \<Rightarrow> [i]) fs)"

text \<open>The task a tick or an execution holds is a snapshot; its id and owner are still right.\<close>

definition snapshot_ok :: "cron_db \<Rightarrow> cron_task \<Rightarrow> bool" where
  "snapshot_ok db task \<longleftrightarrow> ct_id task < cd_nextId db \<and>
     (\<forall>t. task_of (ct_id task) db = Some t \<longrightarrow> ct_createdByUserId t = ct_createdByUserId task)"

fun flight_ok :: "cron_db \<Rightarrow> flight \<Rightarrow> bool" where
  "flight_ok db (Dispatched task u st) \<longleftrightarrow> snapshot_ok db task \<and> ct_createdByUserId task = Some u"
| "flight_ok db (Started p task u st i) \<longleftrightarrow> i < cd_nextId db \<and> (\<forall>r. run_of i db = Some r \<longrightarrow> rn_taskId r = ct_id task)"

definition sched_ok :: "sched_state \<Rightarrow> bool" where
  "sched_ok s \<longleftrightarrow> cron_ok (sx_db s) \<and> sx_running s = length (sx_flight s) \<and> distinct (started_ids (sx_flight s)) \<and>
     (\<forall>f \<in> set (sx_flight s). flight_ok (sx_db s) f) \<and>
     (\<forall>tk \<in> set (sx_ticks s). \<forall>task \<in> set (tk_rest tk). snapshot_ok (sx_db s) task)"

lemma started_ids_simps [simp]:
  "started_ids [] = []" "started_ids (xs @ ys) = started_ids xs @ started_ids ys"
  "started_ids (f # fs) = (case started_id f of None \<Rightarrow> started_ids fs | Some i \<Rightarrow> i # started_ids fs)"
  by (simp_all add: started_ids_def split: option.split)

lemma distinct_started_drop: "k < length fs \<Longrightarrow> distinct (started_ids fs) \<Longrightarrow> distinct (started_ids (drop_nth k fs))"
  by (subst (asm) split_nth, assumption) (auto simp: drop_nth_def split: option.splits)

lemma started_ids_update:
  assumes "k < length fs" "started_id (fs ! k) = None" "started_id f = Some i"
  shows "distinct (started_ids (fs[k := f])) \<longleftrightarrow> distinct (started_ids fs) \<and> i \<notin> set (started_ids fs)"
proof -
  have 1: "fs[k := f] = take k fs @ f # drop (Suc k) fs" using assms(1) by (rule upd_conv_take_nth_drop)
  have 2: "started_ids fs = started_ids (take k fs) @ started_ids (drop (Suc k) fs)"
    by (subst split_nth [OF assms(1)]) (simp add: assms(2))
  show ?thesis by (auto simp: 1 2 assms(3))
qed

lemma started_ids_flight: "i \<in> set (started_ids fs) \<longleftrightarrow> (\<exists>f \<in> set fs. started_id f = Some i)"
  by (induction fs) (auto split: option.splits)

text \<open>Changes of the tables that keep the snapshots right.\<close>

lemma snapshot_settles:
  assumes "settles i db db'" "snapshot_ok db task"
  shows "snapshot_ok db' task"
proof -
  have look: "map_of (map (\<lambda>t. (ct_id t, ct_createdByUserId t)) xs) k = map_option ct_createdByUserId (find (\<lambda>t. ct_id t = k) xs)"
    for xs k by (induction xs) auto
  have "map_option ct_createdByUserId (task_of k db') = map_option ct_createdByUserId (task_of k db)" for k
    using assms(1) look [of "cd_tasks db"] look [of "cd_tasks db'"] by (simp add: settles_def task_of_def)
  from this [of "ct_id task"] show ?thesis
    using assms by (cases "task_of (ct_id task) db") (auto simp: snapshot_ok_def settles_def)
qed

lemma snapshot_acts:
  assumes "acts_for u db db'" "snapshot_ok db task"
  shows "snapshot_ok db' task"
proof -
  have below: "ct_id task < cd_nextId db" using assms(2) by (simp add: snapshot_ok_def)
  have "ct_createdByUserId t' = ct_createdByUserId task" if t': "task_of (ct_id task) db' = Some t'" for t'
  proof (cases "task_of (ct_id task) db")
    case None
    then show ?thesis using acts_for_new [OF assms(1) _ t'] below by simp
  next
    case (Some t)
    then show ?thesis using acts_for_owner [OF assms(1) _ t'] assms(2) by (simp add: snapshot_ok_def)
  qed
  then show ?thesis using below acts_for_ids [OF assms(1)] by (simp add: snapshot_ok_def)
qed

lemma run_of_acts:
  assumes "cron_ok db" "acts_for u db db'" "run_of i db' = Some r"
  shows "run_of i db = Some r"
proof -
  have r: "r \<in> set (cd_runs db)" "rn_id r = i"
    using run_of_Some [OF assms(3)] acts_for_runs [OF assms(2)] by (metis filter_is_subset subsetD)+
  have "distinct (map rn_id xs) \<Longrightarrow> r \<in> set xs \<Longrightarrow> find (\<lambda>x. rn_id x = rn_id r) xs = Some r" for xs
    by (induction xs) (auto simp: rev_image_eqI)
  then show ?thesis using r assms(1) by (simp add: run_of_def cron_ok_def)
qed

lemma flight_acts: "cron_ok db \<Longrightarrow> acts_for u db db' \<Longrightarrow> flight_ok db f \<Longrightarrow> flight_ok db' f"
  by (cases f) (auto intro: snapshot_acts dest: run_of_acts acts_for_ids)

lemma cron_ok_settles:
  assumes "settles i db db'" "cron_ok db"
  shows "cron_ok db'"
proof -
  have runs: "map rn_id (cd_runs db') = map rn_id (cd_runs db)" "map rn_taskId (cd_runs db') = map rn_taskId (cd_runs db)"
    and tasks: "map ct_id (cd_tasks db') = map ct_id (cd_tasks db)"
    using assms(1) unfolding settles_def by (metis (no_types, lifting) map_eq_conv map_map comp_apply fst_conv snd_conv)+
  have ok: "distinct (map ct_id (cd_tasks d)) \<and> distinct (map rn_id (cd_runs d)) \<and>
      (\<forall>x \<in> set (map ct_id (cd_tasks d)). x < cd_nextId d) \<and> (\<forall>x \<in> set (map rn_id (cd_runs d)). x < cd_nextId d) \<and>
      (\<forall>x \<in> set (map rn_taskId (cd_runs d)). x \<in> set (map ct_id (cd_tasks d))) \<longleftrightarrow> cron_ok d" for d
    by (auto simp: cron_ok_def)
  have "cd_nextId db' = cd_nextId db" using assms(1) by (simp add: settles_def)
  with assms(2) show ?thesis unfolding ok [symmetric] runs tasks by simp
qed

lemma run_of_settles_task:
  assumes "settles i db db'" "run_of j db' = Some r'"
  shows "\<exists>r. run_of j db = Some r \<and> rn_taskId r = rn_taskId r'"
proof -
  have look: "map_of (map (\<lambda>r. (rn_id r, rn_taskId r)) xs) k = map_option rn_taskId (find (\<lambda>r. rn_id r = k) xs)"
    for xs k by (induction xs) auto
  have "map_option rn_taskId (run_of j db') = map_option rn_taskId (run_of j db)"
    using assms(1) look [of "cd_runs db"] look [of "cd_runs db'"] by (simp add: settles_def run_of_def)
  then show ?thesis using assms(2) by (cases "run_of j db") auto
qed

lemma flight_settles: "settles i db db' \<Longrightarrow> flight_ok db f \<Longrightarrow> flight_ok db' f"
proof (cases f)
  case (Started p task u st j)
  assume a: "settles i db db'" "flight_ok db f"
  then show ?thesis using Started run_of_settles_task [OF a(1), of j]
    by (auto simp: settles_def)
qed (auto intro: snapshot_settles)

text \<open>Creating a run.\<close>

lemma run_create_frame:
  assumes ok: "cron_ok db" and create: "run_create k status db = (Inr r, db')"
  shows "cron_ok db'" "cd_tasks db' = cd_tasks db" "cd_runs db' = cd_runs db @ [r]" "rn_id r = cd_nextId db"
    "rn_taskId r = k" "rn_status r = status" "cd_nextId db' = Suc (cd_nextId db)" "cd_now db' = cd_now db"
    "task_of k db \<noteq> None"
    "run_of j db' = (if j = cd_nextId db then Some r else run_of j db)" "run_of (cd_nextId db) db = None"
proof -
  show 1: "cd_tasks db' = cd_tasks db" "cd_runs db' = cd_runs db @ [r]" "rn_id r = cd_nextId db"
    "rn_taskId r = k" "rn_status r = status" "cd_nextId db' = Suc (cd_nextId db)" "cd_now db' = cd_now db"
    and t: "task_of k db \<noteq> None"
    using create by (auto simp: run_create_def Let_def split: option.splits)
  show "cron_ok db'" using ok t by (auto simp: cron_ok_def 1 less_Suc_eq task_of_None)
  show fresh: "run_of (cd_nextId db) db = None" using ok by (auto simp: run_of_def find_None_iff cron_ok_def)
  have "find P (xs @ [r]) = (case find P xs of None \<Rightarrow> if P r then Some r else None | Some y \<Rightarrow> Some y)" for P xs
    by (induction xs) auto
  then show "run_of j db' = (if j = cd_nextId db then Some r else run_of j db)"
    using fresh by (auto simp: run_of_def 1 split: option.splits)
qed

lemma run_create_Inl: "run_create k status db = (Inl e, db') \<Longrightarrow> db' = db \<and> task_of k db = None"
  by (auto simp: run_create_def Let_def split: option.splits)

lemma open_task_run_Inl: "open_task_run env k db = (Inl e, db') \<Longrightarrow> db' = db"
  by (auto simp: open_task_run_def attempt_write_def dest: run_create_Inl split: option.splits)

lemma open_task_run_Inr: "open_task_run env k db = (Inr r, db') \<Longrightarrow> run_create k Running db = (Inr r, db')"
  by (simp add: open_task_run_def attempt_write_def split: option.splits)

lemma snapshot_create: "cron_ok db \<Longrightarrow> run_create k status db = (Inr r, db') \<Longrightarrow> snapshot_ok db task \<Longrightarrow> snapshot_ok db' task"
  using run_create_frame(2,7) [of db k status r db'] by (simp add: snapshot_ok_def task_of_def)

lemma flight_create: "cron_ok db \<Longrightarrow> run_create k status db = (Inr r, db') \<Longrightarrow> flight_ok db f \<Longrightarrow> flight_ok db' f"
  using run_create_frame(7,10) [of db k status r db'] by (cases f) (auto intro: snapshot_create)

section \<open>The invariant is kept\<close>

lemma find_due_tasks: "task \<in> set (find_due now n db) \<Longrightarrow> task \<in> set (cd_tasks db) \<and> is_due now db task"
  by (auto simp: find_due_def dest: in_set_takeD)

lemma find_due_distinct: "cron_ok db \<Longrightarrow> distinct (map ct_id (find_due now n db))"
proof -
  assume "cron_ok db"
  then have "distinct (map ct_id (filter (is_due now db) (cd_tasks db)))" by (simp add: cron_ok_def distinct_map_filter)
  then have "distinct (map ct_id (sort_key g (filter (is_due now db) (cd_tasks db))))" for g :: "cron_task \<Rightarrow> int"
    by (simp add: distinct_map)
  then show ?thesis unfolding find_due_def take_map [symmetric] by (rule distinct_take)
qed

lemma snapshot_self: "cron_ok db \<Longrightarrow> task \<in> set (cd_tasks db) \<Longrightarrow> snapshot_ok db task"
  by (auto simp: snapshot_ok_def task_of_eq cron_ok_def)

lemma put_tick_tasks:
  assumes "tk' \<in> set (put_tick k tk ticks)"
  shows "tk' = tk \<or> tk' \<in> set ticks"
  using assms set_drop_nth_subset set_update_subset_insert by (fastforce simp: put_tick_def split: if_splits)

lemma sched_ok_tick_start: "sched_ok s \<Longrightarrow> sched_ok (tick_start cfg s)"
  by (auto simp: sched_ok_def tick_start_def Let_def dest!: find_due_tasks intro: snapshot_self)

lemma dispatch_for_owner: "dispatch_for cfg tk task db = Some u \<Longrightarrow> ct_createdByUserId task = Some u"
  by (auto simp: dispatch_for_def split: option.splits if_splits sum.splits)

text \<open>The three ways of treating a task: nothing to treat, deferred, dispatched.\<close>

lemma tick_task_cases [case_names idle deferred dispatched]:
  assumes "tick_task cfg k s = s \<Longrightarrow> P"
    and "\<And>task rest tk. k < length (sx_ticks s) \<Longrightarrow> tk_rest (sx_ticks s ! k) = task # rest \<Longrightarrow>
      tk = (sx_ticks s ! k)\<lparr>tk_rest := rest\<rparr> \<Longrightarrow>
      tick_task cfg k s = s\<lparr>sx_ticks := put_tick k tk (sx_ticks s)\<rparr> \<Longrightarrow> P"
    and "\<And>task rest tk u. k < length (sx_ticks s) \<Longrightarrow> tk_rest (sx_ticks s ! k) = task # rest \<Longrightarrow>
      dispatch_for cfg (sx_ticks s ! k) task (sx_db s) = Some u \<Longrightarrow>
      tk = (sx_ticks s ! k)\<lparr>tk_rest := rest, tk_dispatched := Suc (tk_dispatched (sx_ticks s ! k))\<rparr> \<Longrightarrow>
      tick_task cfg k s = s\<lparr>sx_ticks := put_tick k tk (sx_ticks s), sx_running := Suc (sx_running s),
        sx_flight := sx_flight s @ [Dispatched task u (cd_now (sx_db s))]\<rparr> \<Longrightarrow> P"
  shows P
proof (cases "length (sx_ticks s) \<le> k \<or> tk_rest (sx_ticks s ! k) = []")
  case True
  then show ?thesis by (intro assms(1)) (auto simp: tick_task_def Let_def)
next
  case False
  then obtain task rest where t: "k < length (sx_ticks s)" "tk_rest (sx_ticks s ! k) = task # rest"
    by (cases "tk_rest (sx_ticks s ! k)") auto
  show ?thesis
  proof (cases "dispatch_for cfg (sx_ticks s ! k) task (sx_db s)")
    case None
    then show ?thesis using t by (intro assms(2) [OF t refl]) (simp add: tick_task_def Let_def)
  next
    case (Some u)
    then show ?thesis using t by (intro assms(3) [OF t Some refl]) (simp add: tick_task_def Let_def)
  qed
qed

lemma put_tick_snapshots:
  assumes "sched_ok s" "k < length (sx_ticks s)" "tk_rest (sx_ticks s ! k) = task # tk_rest tk"
  shows "snapshot_ok (sx_db s) task" "\<forall>x \<in> set (put_tick k tk (sx_ticks s)). \<forall>t \<in> set (tk_rest x). snapshot_ok (sx_db s) t"
proof -
  have all: "\<forall>x \<in> set (sx_ticks s). \<forall>t \<in> set (tk_rest x). snapshot_ok (sx_db s) t" using assms(1) by (simp add: sched_ok_def)
  then have "\<forall>t \<in> set (task # tk_rest tk). snapshot_ok (sx_db s) t" using assms(2,3) by (metis nth_mem)
  then show "snapshot_ok (sx_db s) task" "\<forall>x \<in> set (put_tick k tk (sx_ticks s)). \<forall>t \<in> set (tk_rest x). snapshot_ok (sx_db s) t"
    using all by (auto dest!: put_tick_tasks)
qed

lemma sched_ok_tick_task:
  assumes ok: "sched_ok s"
  shows "sched_ok (tick_task cfg k s)"
proof (cases rule: tick_task_cases [of cfg k s])
  case idle
  then show ?thesis using ok by simp
next
  case (deferred task rest tk)
  have "tk_rest (sx_ticks s ! k) = task # tk_rest tk" using deferred by simp
  from put_tick_snapshots [OF ok deferred(1) this] show ?thesis
    using ok unfolding deferred(4) by (simp add: sched_ok_def)
next
  case (dispatched task rest tk u)
  have "tk_rest (sx_ticks s ! k) = task # tk_rest tk" using dispatched by simp
  from put_tick_snapshots [OF ok dispatched(1) this] dispatch_for_owner [OF dispatched(3)] show ?thesis
    using ok unfolding dispatched(5) by (simp add: sched_ok_def)
qed

lemma sched_ok_begin:
  assumes ok: "sched_ok s"
  shows "sched_ok (begin_run cfg k s)"
proof (cases "k < length (sx_flight s)")
  case False
  then show ?thesis using ok by (simp add: begin_run_def)
next
  case True
  then have k: "sx_flight s ! k \<in> set (sx_flight s)" by simp
  have db: "cron_ok (sx_db s)" using ok by (simp add: sched_ok_def)
  show ?thesis
  proof (cases "sx_flight s ! k")
    case (Started p task u st i)
    then show ?thesis using ok by (simp add: begin_run_def)
  next
    case (Dispatched task u st)
    obtain x db' where create: "open_task_run (sc_env cfg) (ct_id task) (sx_db s) = (x, db')" by fastforce
    show ?thesis
    proof (cases x)
      case (Inl e)
      then have "db' = sx_db s" using create open_task_run_Inl by blast
      then show ?thesis using ok True Inl create Dispatched set_drop_nth_subset [of k "sx_flight s"]
        by (auto simp: begin_run_def sched_ok_def distinct_started_drop)
    next
      case (Inr r)
      note fr = run_create_frame [OF db open_task_run_Inr [OF create [unfolded Inr]]]
      let ?f = "Started (prepare_run (sc_env cfg) task u (rn_id r) db') task u st (rn_id r)"
      have "cd_nextId (sx_db s) \<notin> set (started_ids (sx_flight s))"
      proof
        assume "cd_nextId (sx_db s) \<in> set (started_ids (sx_flight s))"
        then obtain f where f: "f \<in> set (sx_flight s)" "started_id f = Some (cd_nextId (sx_db s))"
          unfolding started_ids_flight by blast
        then have "flight_ok (sx_db s) f" using ok by (simp add: sched_ok_def)
        with f(2) show False by (cases f) auto
      qed
      then have dist: "distinct (started_ids ((sx_flight s)[k := ?f]))"
        using started_ids_update [OF True, of ?f "rn_id r"] ok Dispatched fr(4) by (simp add: sched_ok_def)
      have new: "flight_ok db' ?f" using fr by simp
      have old: "\<forall>f \<in> set (sx_flight s). flight_ok db' f" "\<forall>tk \<in> set (sx_ticks s). \<forall>t \<in> set (tk_rest tk). snapshot_ok db' t"
        using ok flight_create [OF db open_task_run_Inr [OF create [unfolded Inr]]]
          snapshot_create [OF db open_task_run_Inr [OF create [unfolded Inr]]] by (simp_all add: sched_ok_def)
      have "begin_run cfg k s = s\<lparr>sx_db := db', sx_flight := (sx_flight s)[k := ?f]\<rparr>"
        using True Dispatched create Inr by (simp add: begin_run_def)
      then show ?thesis using ok dist new old fr(1) set_update_subset_insert [of "sx_flight s" k ?f]
        by (auto simp: sched_ok_def)
    qed
  qed
qed

lemma sched_ok_settles:
  assumes ok: "sched_ok s" and db': "settles i (sx_db s) db'" and k: "k < length (sx_flight s)"
  shows "sched_ok (s\<lparr>sx_db := db', sx_running := sx_running s - 1, sx_flight := drop_nth k (sx_flight s)\<rparr>)"
  using ok k cron_ok_settles [OF db'] snapshot_settles [OF db'] flight_settles [OF db'] set_drop_nth_subset [of k "sx_flight s"]
  by (auto simp: sched_ok_def distinct_started_drop)

lemma sched_ok_settle: "sched_ok s \<Longrightarrow> sched_ok (settle_flight cfg k outcome s)"
  using sched_ok_settles [OF _ settle_run_settles, of s k]
  by (auto simp: settle_flight_def split: flight.split)

lemma sched_ok_user:
  assumes ok: "sched_ok s" and acts: "acts_for u (sx_db s) db'"
  shows "sched_ok (s\<lparr>sx_db := db'\<rparr>)"
  using ok acts_for_ok [OF acts] snapshot_acts [OF acts] flight_acts [OF _ acts] by (auto simp: sched_ok_def)

lemma cron_ok_orphaned: "cron_ok db \<Longrightarrow> cron_ok (snd (mark_orphaned_runs threshold db))"
proof -
  assume ok: "cron_ok db"
  let ?f = "\<lambda>r. if rn_status r = Running \<and> rn_startedAt r < cd_now db - threshold
      then r\<lparr>rn_status := Failed, rn_error := Some ''orphaned_by_restart'', rn_completedAt := Some (cd_now db)\<rparr> else r"
  have f: "rn_id (?f r) = rn_id r" "rn_taskId (?f r) = rn_taskId r" for r by simp_all
  have "map rn_id (map ?f xs) = map rn_id xs" for xs by (induction xs) simp_all
  then have "snd (mark_orphaned_runs threshold db) = db\<lparr>cd_runs := map ?f (cd_runs db)\<rparr>"
      "map rn_id (map ?f (cd_runs db)) = map rn_id (cd_runs db)"
    by (simp_all add: mark_orphaned_runs_def Let_def)
  with ok f show ?thesis by (auto simp: cron_ok_def simp del: map_map)
qed

lemma sched_ok_step: "sched_ok s \<Longrightarrow> sched_ok (sched_step cfg s e)"
proof (cases e)
  case (UserActs p)
  assume ok: "sched_ok s"
  then have "acts_for (op_user p) (sx_db s) (user_step (cn_platform (sc_env cfg)) (sc_defaultTz cfg) p (sx_db s))"
    by (intro user_step_acts) (simp add: sched_ok_def)
  then show ?thesis using sched_ok_user [OF ok] UserActs by simp
next
  case (TimePasses d)
  assume ok: "sched_ok s"
  have "flight_ok (db\<lparr>cd_now := t\<rparr>) f = flight_ok db f" for db t f by (cases f) (simp_all add: snapshot_ok_def task_of_def run_of_def)
  then show ?thesis using ok TimePasses by (auto simp: sched_ok_def cron_ok_def snapshot_ok_def task_of_def)
next
  case Restarts
  assume "sched_ok s"
  then show ?thesis using Restarts by (simp add: restart_def sched_ok_def cron_ok_orphaned)
qed (simp_all add: sched_ok_tick_start sched_ok_tick_task sched_ok_begin sched_ok_settle)

lemma sched_ok_run: "sched_ok s \<Longrightarrow> sched_ok (sched_run cfg s es)"
  unfolding sched_run_def by (induction es arbitrary: s) (simp_all add: sched_ok_step)

section \<open>What is running\<close>

definition running_set :: "nat \<Rightarrow> cron_db \<Rightarrow> nat set" where
  "running_set k db = {j. \<exists>r. run_of j db = Some r \<and> rn_taskId r = k \<and> rn_status r = Running}"

definition running_ids :: "string \<Rightarrow> cron_db \<Rightarrow> nat set" where
  "running_ids u db = {k. (\<exists>t. task_of k db = Some t \<and> ct_createdByUserId t = Some u) \<and> running_set k db \<noteq> {}}"

lemma run_of_eq:
  assumes "cron_ok db" "r \<in> set (cd_runs db)"
  shows "run_of (rn_id r) db = Some r"
proof -
  have "distinct (map rn_id xs) \<Longrightarrow> r \<in> set xs \<Longrightarrow> find (\<lambda>x. rn_id x = rn_id r) xs = Some r" for xs
    by (induction xs) (auto simp: rev_image_eqI)
  then show ?thesis using assms by (simp add: run_of_def cron_ok_def)
qed

lemma running_set_nonempty: "cron_ok db \<Longrightarrow> running_set k db \<noteq> {} \<longleftrightarrow> has_running k db"
  by (auto simp: running_set_def has_running_def list_ex_iff dest: run_of_Some run_of_eq)

lemma finite_running_set [simp]: "finite (running_set k db)"
proof (rule finite_subset)
  show "running_set k db \<subseteq> rn_id ` set (cd_runs db)" by (auto simp: running_set_def dest: run_of_Some)
qed simp

lemma finite_running_ids [simp]: "finite (running_ids u db)"
proof (rule finite_subset)
  show "running_ids u db \<subseteq> ct_id ` set (cd_tasks db)" by (auto simp: running_ids_def dest: task_of_Some)
qed simp

lemma running_count_card:
  assumes ok: "cron_ok db"
  shows "find_running_count_by_user u db = card (running_ids u db)"
proof -
  let ?P = "\<lambda>t. ct_createdByUserId t = Some u \<and> has_running (ct_id t) db"
  have "running_ids u db = ct_id ` set (filter ?P (cd_tasks db))"
    using ok by (auto simp: running_ids_def running_set_nonempty dest: task_of_Some task_of_eq)
  moreover have "distinct (map ct_id (filter ?P (cd_tasks db)))" using ok by (simp add: cron_ok_def distinct_map_filter)
  ultimately show ?thesis
    using distinct_card [of "map ct_id (filter ?P (cd_tasks db))"] by (simp add: find_running_count_by_user_def count_if_def)
qed

lemma running_rows_card:
  assumes ok: "cron_ok db"
  shows "count_if (\<lambda>r. rn_taskId r = k \<and> rn_status r = Running) (cd_runs db) = card (running_set k db)"
proof -
  let ?P = "\<lambda>r. rn_taskId r = k \<and> rn_status r = Running"
  have "running_set k db = rn_id ` set (filter ?P (cd_runs db))"
    using ok by (auto simp: running_set_def dest: run_of_Some run_of_eq)
  moreover have "distinct (map rn_id (filter ?P (cd_runs db)))" using ok by (simp add: cron_ok_def distinct_map_filter)
  ultimately show ?thesis
    using distinct_card [of "map rn_id (filter ?P (cd_runs db))"] by (simp add: count_if_def)
qed

text \<open>Nothing starts to run.\<close>

definition fewer :: "cron_db \<Rightarrow> cron_db \<Rightarrow> bool" where
  "fewer db db' \<longleftrightarrow> (\<forall>k. running_set k db' \<subseteq> running_set k db) \<and> (\<forall>u. running_ids u db' \<subseteq> running_ids u db)"

lemma fewerI:
  assumes ok: "cron_ok db"
    and runs: "\<And>j r'. run_of j db' = Some r' \<Longrightarrow> rn_status r' = Running \<Longrightarrow>
      \<exists>r. run_of j db = Some r \<and> rn_taskId r = rn_taskId r' \<and> rn_status r = Running"
    and owners: "\<And>k t t'. task_of k db = Some t \<Longrightarrow> task_of k db' = Some t' \<Longrightarrow> ct_createdByUserId t' = ct_createdByUserId t"
  shows "fewer db db'"
proof -
  have sub: "running_set k db' \<subseteq> running_set k db" for k
    using runs by (fastforce simp: running_set_def)
  have "k \<in> running_ids u db" if k: "k \<in> running_ids u db'" for k u
  proof -
    from k obtain t' where t': "task_of k db' = Some t'" "ct_createdByUserId t' = Some u" and ne: "running_set k db' \<noteq> {}"
      by (auto simp: running_ids_def)
    from ne sub obtain j where "j \<in> running_set k db" by blast
    then obtain r where "run_of j db = Some r" "rn_taskId r = k" by (auto simp: running_set_def)
    then obtain t where "task_of k db = Some t" using run_has_task [OF ok] by (metis not_None_eq run_of_Some)
    with owners [OF this t'(1)] t' \<open>j \<in> running_set k db\<close> show ?thesis by (auto simp: running_ids_def)
  qed
  with sub show ?thesis by (auto simp: fewer_def)
qed

lemma fewer_acts: "cron_ok db \<Longrightarrow> acts_for u db db' \<Longrightarrow> fewer db db'"
  by (rule fewerI) (auto dest: run_of_acts acts_for_owner)

lemma settles_owner:
  assumes "settles i db db'" "task_of k db = Some t" "task_of k db' = Some t'"
  shows "ct_createdByUserId t' = ct_createdByUserId t"
proof -
  have look: "map_of (map (\<lambda>t. (ct_id t, ct_createdByUserId t)) xs) k = map_option ct_createdByUserId (find (\<lambda>t. ct_id t = k) xs)"
    for xs k by (induction xs) auto
  have "map_option ct_createdByUserId (task_of k db') = map_option ct_createdByUserId (task_of k db)"
    using assms(1) look [of "cd_tasks db"] look [of "cd_tasks db'"] by (simp add: settles_def task_of_def)
  then show ?thesis using assms by simp
qed

lemma fewer_settle:
  assumes ok: "cron_ok db"
  shows "fewer db (snd (settle_run env p task u st i outcome db))"
proof -
  obtain x db' where settle: "settle_run env p task u st i outcome db = (x, db')" by fastforce
  have frame: "settles i db db'" using settle_run_settles [of i db env p task u st outcome] settle by simp
  have "fewer db db'"
  proof (rule fewerI [OF ok])
    fix j r' assume r': "run_of j db' = Some r'" "rn_status r' = Running"
    show "\<exists>r. run_of j db = Some r \<and> rn_taskId r = rn_taskId r' \<and> rn_status r = Running"
    proof (cases "j = i")
      case False
      then show ?thesis using frame r' by (auto simp: settles_def)
    next
      case True
      then show ?thesis using frame r' by (auto simp: settles_def)
    qed
  qed (rule settles_owner [OF frame])
  then show ?thesis using settle by simp
qed

lemma orphaned_run_of:
  "run_of j (snd (mark_orphaned_runs threshold db)) =
    map_option (\<lambda>r. if rn_status r = Running \<and> rn_startedAt r < cd_now db - threshold
      then r\<lparr>rn_status := Failed, rn_error := Some ''orphaned_by_restart'', rn_completedAt := Some (cd_now db)\<rparr> else r) (run_of j db)"
proof -
  let ?f = "\<lambda>r. if rn_status r = Running \<and> rn_startedAt r < cd_now db - threshold
      then r\<lparr>rn_status := Failed, rn_error := Some ''orphaned_by_restart'', rn_completedAt := Some (cd_now db)\<rparr> else r"
  have "find (\<lambda>r. rn_id r = j) (map ?f xs) = map_option ?f (find (\<lambda>r. rn_id r = j) xs)" for xs
    by (induction xs) auto
  then show ?thesis by (simp add: run_of_def mark_orphaned_runs_def Let_def)
qed

lemma orphaned_task_of [simp]: "task_of k (snd (mark_orphaned_runs threshold db)) = task_of k db"
  by (simp add: task_of_def mark_orphaned_runs_def Let_def)

lemma fewer_orphaned: "cron_ok db \<Longrightarrow> fewer db (snd (mark_orphaned_runs threshold db))"
  by (rule fewerI) (auto simp: orphaned_run_of split: if_splits)

lemma running_set_create:
  assumes "cron_ok db" "run_create k Running db = (Inr r, db')"
  shows "running_set i db' = (if i = k then insert (cd_nextId db) (running_set i db) else running_set i db)"
  using run_create_frame(5,6,11) [OF assms] run_create_frame(10) [OF assms]
  by (auto simp: running_set_def)

lemma running_ids_create:
  assumes ok: "cron_ok db" and create: "run_create k Running db = (Inr r, db')"
  shows "running_ids u db' \<subseteq> (if (\<exists>t. task_of k db = Some t \<and> ct_createdByUserId t = Some u) then insert k (running_ids u db) else running_ids u db)"
  using running_set_create [OF assms] run_create_frame(2) [OF assms]
  by (auto simp: running_ids_def task_of_def split: if_splits)

end
