(* ===== verification/SchedulerLimits.thy ===== *)
theory SchedulerLimits
  imports CronScheduler
begin

text \<open>
  What the scheduler guarantees about concurrent runs: the three limits hold when ticks do not overlap
  and every dispatched execution has created its run before the scheduler looks again; without that
  order each of them can be broken. Plus the fate of a run the last process left behind.
\<close>

section \<open>Ordered histories\<close>

definition no_pending :: "sched_state \<Rightarrow> bool" where
  "no_pending s = list_all (\<lambda>f. started_id f \<noteq> None) (sx_flight s)"

fun proper :: "sched_state \<Rightarrow> sched_event \<Rightarrow> bool" where
  "proper s TickStarts = (sx_ticks s = [] \<and> no_pending s)"
| "proper s (TickTreats k) = no_pending s"
| "proper s _ = True"

fun in_order :: "sched_cfg \<Rightarrow> sched_state \<Rightarrow> sched_event list \<Rightarrow> bool" where
  "in_order cfg s [] = True"
| "in_order cfg s (e # es) = (proper s e \<and> in_order cfg (sched_step cfg s e) es)"

section \<open>Counting\<close>

fun pending_task :: "nat \<Rightarrow> flight \<Rightarrow> bool" where
  "pending_task i (Dispatched task u st) = (ct_id task = i)"
| "pending_task i (Started p task u st j) = False"

fun pending_for :: "string \<Rightarrow> flight \<Rightarrow> bool" where
  "pending_for u (Dispatched task v st) = (u = v)"
| "pending_for u (Started p task v st j) = False"

definition waiting :: "nat \<Rightarrow> sched_tick list \<Rightarrow> nat" where
  "waiting i ticks = count_if (\<lambda>t. ct_id t = i) (concat (map tk_rest ticks))"

lemma no_pending_counts:
  assumes "no_pending s"
  shows "count_if (pending_task i) (sx_flight s) = 0" "count_if (pending_for u) (sx_flight s) = 0"
proof -
  have "list_all (\<lambda>f. started_id f \<noteq> None) fs \<Longrightarrow> count_if (pending_task i) fs = 0 \<and> count_if (pending_for u) fs = 0" for fs
  proof (induction fs)
    case (Cons f fs)
    then show ?case by (cases f) auto
  qed simp
  then show "count_if (pending_task i) (sx_flight s) = 0" "count_if (pending_for u) (sx_flight s) = 0"
    using assms by (simp_all add: no_pending_def)
qed

lemma count_distinct_le: "distinct (map f xs) \<Longrightarrow> count_if (\<lambda>x. f x = i) xs \<le> 1"
proof (induction xs)
  case (Cons x xs)
  have "count_if (\<lambda>y. f y = i) xs = 0" if "f x = i"
    using Cons.prems that by (auto simp: count_if_def filter_empty_conv rev_image_eqI)
  then show ?case using Cons by auto
qed simp

section \<open>The limits\<close>

definition global_limit :: "sched_cfg \<Rightarrow> sched_state \<Rightarrow> bool" where
  "global_limit cfg s \<longleftrightarrow> length (sx_ticks s) \<le> 1 \<and> sx_running s \<le> sc_maxGlobal cfg \<and>
     (\<forall>tk \<in> set (sx_ticks s). sx_running s + tk_slots tk \<le> sc_maxGlobal cfg + tk_dispatched tk)"

definition task_limit :: "sched_state \<Rightarrow> bool" where
  "task_limit s \<longleftrightarrow> (\<forall>i. card (running_set i (sx_db s)) + count_if (pending_task i) (sx_flight s) + waiting i (sx_ticks s) \<le> 1)"

definition user_limit :: "sched_cfg \<Rightarrow> sched_state \<Rightarrow> bool" where
  "user_limit cfg s \<longleftrightarrow> (\<forall>u. card (running_ids u (sx_db s)) + count_if (pending_for u) (sx_flight s) \<le> sc_maxPerUser cfg)"

lemma task_limitI:
  "(\<And>i. card (running_set i (sx_db s)) + count_if (pending_task i) (sx_flight s) + waiting i (sx_ticks s) \<le> 1) \<Longrightarrow> task_limit s"
  by (simp add: task_limit_def)

lemma user_limitI:
  "(\<And>u. card (running_ids u (sx_db s)) + count_if (pending_for u) (sx_flight s) \<le> sc_maxPerUser cfg) \<Longrightarrow> user_limit cfg s"
  by (simp add: user_limit_def)

text \<open>Steps that start nothing keep all three.\<close>

lemma card_fewer: "fewer db db' \<Longrightarrow> card (running_set i db') \<le> card (running_set i db)"
    "fewer db db' \<Longrightarrow> card (running_ids u db') \<le> card (running_ids u db)"
  unfolding fewer_def by (blast intro: card_mono finite_running_set finite_running_ids)+

definition limits :: "sched_cfg \<Rightarrow> sched_state \<Rightarrow> bool" where
  "limits cfg s \<longleftrightarrow> global_limit cfg s \<and> task_limit s \<and> user_limit cfg s"

lemma limits_fewer:
  assumes lim: "limits cfg s" and few: "fewer (sx_db s) db'"
    and fs: "\<And>P. count_if P fs \<le> count_if P (sx_flight s)" and n: "n \<le> sx_running s"
  shows "limits cfg (s\<lparr>sx_db := db', sx_running := n, sx_flight := fs\<rparr>)"
proof -
  have "task_limit (s\<lparr>sx_db := db', sx_running := n, sx_flight := fs\<rparr>)"
  proof (rule task_limitI, goal_cases)
    case (1 i)
    have "card (running_set i (sx_db s)) + count_if (pending_task i) (sx_flight s) + waiting i (sx_ticks s) \<le> 1"
      using lim by (simp add: limits_def task_limit_def)
    then show ?case using card_fewer(1) [OF few, of i] fs [of "pending_task i"] by simp
  qed
  moreover have "user_limit cfg (s\<lparr>sx_db := db', sx_running := n, sx_flight := fs\<rparr>)"
  proof (rule user_limitI, goal_cases)
    case (1 u)
    have "card (running_ids u (sx_db s)) + count_if (pending_for u) (sx_flight s) \<le> sc_maxPerUser cfg"
      using lim by (simp add: limits_def user_limit_def)
    then show ?case using card_fewer(2) [OF few, of u] fs [of "pending_for u"] by simp
  qed
  moreover have "global_limit cfg (s\<lparr>sx_db := db', sx_running := n, sx_flight := fs\<rparr>)"
    using lim n by (fastforce simp: limits_def global_limit_def)
  ultimately show ?thesis by (simp add: limits_def)
qed

lemma limits_tick_start:
  assumes ok: "sched_ok s" and lim: "limits cfg s" and p: "sx_ticks s = []" "no_pending s"
  shows "limits cfg (tick_start cfg s)"
proof (cases "tick_start cfg s = s")
  case True
  then show ?thesis using lim by simp
next
  case False
  define due where "due = find_due (cd_now (sx_db s)) (nat (available_slots cfg (sx_running s))) (sx_db s)"
  define slots where "slots = nat (available_slots cfg (sx_running s))"
  have db: "cron_ok (sx_db s)" using ok by (simp add: sched_ok_def)
  have start: "tick_start cfg s = s\<lparr>sx_ticks := [\<lparr>tk_slots = slots, tk_rest = due, tk_dispatched = 0\<rparr>]\<rparr>"
    and pos: "0 < available_slots cfg (sx_running s)"
    using False p by (auto simp: tick_start_def Let_def due_def slots_def split: if_splits)
  have slots: "sx_running s + slots \<le> sc_maxGlobal cfg"
    using pos by (simp add: slots_def available_slots_def) linarith
  have each: "card (running_set i (sx_db s)) + count_if (\<lambda>t. ct_id t = i) due \<le> 1" for i
  proof (cases "running_set i (sx_db s) = {}")
    case True
    then show ?thesis using count_distinct_le [OF find_due_distinct [OF db]] by (simp add: due_def)
  next
    case False
    then have "has_running i (sx_db s)" using running_set_nonempty [OF db] by simp
    then have "count_if (\<lambda>t. ct_id t = i) due = 0"
      by (auto simp: count_if_def filter_empty_conv due_def is_due_def dest!: find_due_tasks)
    then show ?thesis using lim by (auto simp: limits_def task_limit_def) (metis add_leE)
  qed
  show ?thesis unfolding start
    using lim slots each no_pending_counts [OF p(2)]
    by (simp add: limits_def global_limit_def task_limit_def user_limit_def waiting_def)
qed

lemma dispatch_for_room:
  assumes "dispatch_for cfg tk task db = Some u" "cron_ok db"
  shows "tk_dispatched tk < tk_slots tk" "card (running_ids u db) < sc_maxPerUser cfg"
  using assms
  by (auto simp: dispatch_for_def can_dispatch_def running_count_card [symmetric] split: option.splits if_splits sum.splits)

lemma waiting_put_tick: "waiting i (put_tick 0 tk [tk0]) = count_if (\<lambda>t. ct_id t = i) (tk_rest tk)"
  by (simp add: waiting_def put_tick_def drop_nth_def)

lemma waiting_single: "waiting i [tk0] = count_if (\<lambda>t. ct_id t = i) (tk_rest tk0)"
  by (simp add: waiting_def)

lemma global_put_tick:
  assumes "sx_running s \<le> sc_maxGlobal cfg" "sx_running s + tk_slots tk \<le> sc_maxGlobal cfg + tk_dispatched tk"
    "sx_ticks s = put_tick 0 tk [tk0]"
  shows "global_limit cfg s"
  using assms by (auto simp: global_limit_def put_tick_def drop_nth_def)

lemma limits_tick_task:
  assumes ok: "sched_ok s" and lim: "limits cfg s" and p: "no_pending s"
  shows "limits cfg (tick_task cfg k s)"
proof (cases rule: tick_task_cases [of cfg k s])
  case idle
  then show ?thesis using lim by simp
next
  case (deferred task rest tk)
  obtain tk0 where tk0: "sx_ticks s = [tk0]" "k = 0"
    using lim deferred(1) by (cases "sx_ticks s") (auto simp: limits_def global_limit_def)
  have "waiting i (put_tick 0 tk [tk0]) \<le> waiting i [tk0]" for i
    using deferred tk0 by (simp add: waiting_put_tick waiting_single)
  then have "task_limit (s\<lparr>sx_ticks := put_tick 0 tk [tk0]\<rparr>)"
    using lim tk0 by (auto simp: limits_def task_limit_def intro: order_trans [OF add_left_mono])
  moreover have "global_limit cfg (s\<lparr>sx_ticks := put_tick 0 tk [tk0]\<rparr>)"
    using lim deferred(3) tk0 by (intro global_put_tick [of _ _ tk tk0]) (simp_all add: limits_def global_limit_def)
  ultimately show ?thesis unfolding deferred(4) using lim tk0 by (simp add: limits_def user_limit_def)
next
  case (dispatched task rest tk u)
  obtain tk0 where tk0: "sx_ticks s = [tk0]" "k = 0"
    using lim dispatched(1) by (cases "sx_ticks s") (auto simp: limits_def global_limit_def)
  have db: "cron_ok (sx_db s)" using ok by (simp add: sched_ok_def)
  note room = dispatch_for_room [OF dispatched(3) db]
  have wait: "waiting i (put_tick 0 tk [tk0]) + (if ct_id task = i then 1 else 0) = waiting i [tk0]" for i
    using dispatched tk0 by (simp add: waiting_put_tick waiting_single)
  have task: "card (running_set i (sx_db s)) + (if ct_id task = i then 1 else 0) + waiting i (put_tick 0 tk [tk0]) \<le> 1" for i
  proof -
    have "card (running_set i (sx_db s)) + count_if (pending_task i) (sx_flight s) + waiting i [tk0] \<le> 1"
      using lim tk0 by (simp add: limits_def task_limit_def)
    then show ?thesis using wait [of i] by linarith
  qed
  have user: "card (running_ids v (sx_db s)) + (if v = u then 1 else 0) \<le> sc_maxPerUser cfg" for v
    using lim room(2) no_pending_counts(2) [OF p] by (auto simp: limits_def user_limit_def)
  have "sx_running s + tk_slots tk0 \<le> sc_maxGlobal cfg + tk_dispatched tk0"
    using lim tk0 by (simp add: limits_def global_limit_def)
  then have "global_limit cfg (tick_task cfg k s)"
    unfolding dispatched(5) using room(1) dispatched(4) tk0 by (intro global_put_tick [of _ _ tk tk0]) simp_all
  moreover have "task_limit (tick_task cfg k s)"
    unfolding dispatched(5)
  proof (rule task_limitI, goal_cases)
    case (1 i)
    show ?case using task [of i] no_pending_counts(1) [OF p, of i] tk0 by (cases "ct_id task = i") simp_all
  qed
  moreover have "user_limit cfg (tick_task cfg k s)"
    unfolding dispatched(5)
  proof (rule user_limitI, goal_cases)
    case (1 v)
    show ?case using user [of v] no_pending_counts(2) [OF p, of v] by (cases "v = u") simp_all
  qed
  ultimately show ?thesis by (simp add: limits_def)
qed

lemma limits_begin:
  assumes ok: "sched_ok s" and lim: "limits cfg s"
  shows "limits cfg (begin_run cfg k s)"
proof (cases "k < length (sx_flight s)")
  case False
  then show ?thesis using lim by (simp add: begin_run_def)
next
  case k: True
  have db: "cron_ok (sx_db s)" using ok by (simp add: sched_ok_def)
  show ?thesis
  proof (cases "sx_flight s ! k")
    case (Started q task u st i)
    then show ?thesis using lim by (simp add: begin_run_def)
  next
    case (Dispatched task u st)
    obtain x db' where create: "open_task_run (sc_env cfg) (ct_id task) (sx_db s) = (x, db')" by fastforce
    show ?thesis
    proof (cases x)
      case (Inl e)
      then have "db' = sx_db s" using create open_task_run_Inl by blast
      moreover have "count_if P (drop_nth k (sx_flight s)) \<le> count_if P (sx_flight s)" for P
        using count_if_drop_nth [OF k, of P] by simp
      ultimately show ?thesis
        using limits_fewer [OF lim, of "sx_db s" "drop_nth k (sx_flight s)" "sx_running s - 1"] k create Inl Dispatched
        by (simp add: begin_run_def fewer_def)
    next
      case (Inr r)
      note create' = open_task_run_Inr [OF create [unfolded Inr]]
      let ?f = "Started (prepare_run (sc_env cfg) task u (rn_id r) db') task u st (rn_id r)"
      have step: "begin_run cfg k s = s\<lparr>sx_db := db', sx_flight := (sx_flight s)[k := ?f]\<rparr>"
        using k Dispatched create Inr by (simp add: begin_run_def)
      have flight: "flight_ok (sx_db s) (Dispatched task u st)"
        using ok k Dispatched by (metis nth_mem sched_ok_def)
      have pend: "count_if (pending_task i) ((sx_flight s)[k := ?f]) + (if ct_id task = i then 1 else 0) = count_if (pending_task i) (sx_flight s)"
        "count_if (pending_for v) ((sx_flight s)[k := ?f]) + (if v = u then 1 else 0) = count_if (pending_for v) (sx_flight s)" for i v
        using count_if_update [OF k, of "pending_task i" ?f] count_if_update [OF k, of "pending_for v" ?f] Dispatched by simp_all
      have set: "card (running_set i db') \<le> card (running_set i (sx_db s)) + (if ct_id task = i then 1 else 0)" for i
        using running_set_create [OF db create'] by (simp add: card_insert_le_m1 card_insert_if)
      have ids: "card (running_ids v db') \<le> card (running_ids v (sx_db s)) + (if v = u then 1 else 0)" for v
      proof -
        have "running_ids v db' \<subseteq> (if v = u then insert (ct_id task) (running_ids v (sx_db s)) else running_ids v (sx_db s))"
          using running_ids_create [OF db create', of v] flight by (auto simp: snapshot_ok_def split: if_splits)
        then have "card (running_ids v db') \<le> card (if v = u then insert (ct_id task) (running_ids v (sx_db s)) else running_ids v (sx_db s))"
          by (intro card_mono) simp_all
        also have "\<dots> \<le> card (running_ids v (sx_db s)) + (if v = u then 1 else 0)" by (simp add: card_insert_if)
        finally show ?thesis .
      qed
      have "card (running_set i db') + count_if (pending_task i) ((sx_flight s)[k := ?f]) + waiting i (sx_ticks s) \<le> 1" for i
      proof -
        have "card (running_set i (sx_db s)) + count_if (pending_task i) (sx_flight s) + waiting i (sx_ticks s) \<le> 1"
          using lim by (simp add: limits_def task_limit_def)
        then show ?thesis using set [of i] pend(1) [of i] by linarith
      qed
      moreover have "card (running_ids v db') + count_if (pending_for v) ((sx_flight s)[k := ?f]) \<le> sc_maxPerUser cfg" for v
      proof -
        have "card (running_ids v (sx_db s)) + count_if (pending_for v) (sx_flight s) \<le> sc_maxPerUser cfg"
          using lim by (simp add: limits_def user_limit_def)
        then show ?thesis using ids [of v] pend(2) [of v] by linarith
      qed
      ultimately show ?thesis unfolding step
        using lim by (simp add: limits_def global_limit_def task_limit_def user_limit_def)
    qed
  qed
qed

lemma limits_settle:
  assumes ok: "sched_ok s" and lim: "limits cfg s"
  shows "limits cfg (settle_flight cfg k outcome s)"
proof (cases "k < length (sx_flight s)")
  case False
  then show ?thesis using lim by (simp add: settle_flight_def)
next
  case k: True
  show ?thesis
  proof (cases "sx_flight s ! k")
    case (Dispatched task u st)
    then show ?thesis using lim by (simp add: settle_flight_def)
  next
    case (Started q task u st i)
    have flight: "flight_ok (sx_db s) (Started q task u st i)" using ok k Started by (metis nth_mem sched_ok_def)
    have "fewer (sx_db s) (snd (settle_run (sc_env cfg) q task u st i outcome (sx_db s)))"
      using ok by (intro fewer_settle) (simp add: sched_ok_def)
    moreover have "count_if P (drop_nth k (sx_flight s)) \<le> count_if P (sx_flight s)" for P
      using count_if_drop_nth [OF k, of P] by simp
    ultimately show ?thesis using limits_fewer [OF lim] k Started by (simp add: settle_flight_def)
  qed
qed

lemma limits_restart:
  assumes ok: "sched_ok s" and lim: "limits cfg s"
  shows "limits cfg (restart cfg s)"
proof -
  let ?db = "snd (mark_orphaned_runs (int (cn_maxTimeoutMs (sc_env cfg))) (sx_db s))"
  have "fewer (sx_db s) ?db" using ok by (intro fewer_orphaned) (simp add: sched_ok_def)
  from limits_fewer [OF lim this, of "[]" 0] show ?thesis
    by (auto simp: restart_def limits_def global_limit_def task_limit_def user_limit_def waiting_def intro: add_leD1)
qed

lemma limits_step:
  assumes ok: "sched_ok s" and lim: "limits cfg s" and "proper s e"
  shows "limits cfg (sched_step cfg s e)"
proof (cases e)
  case (UserActs q)
  have "cron_ok (sx_db s)" using ok by (simp add: sched_ok_def)
  from fewer_acts [OF this user_step_acts [OF this]] show ?thesis
    using limits_fewer [OF lim, of _ "sx_flight s" "sx_running s"] UserActs by simp
next
  case (TimePasses d)
  have "fewer (sx_db s) ((sx_db s)\<lparr>cd_now := cd_now (sx_db s) + int d\<rparr>)"
    by (simp add: fewer_def running_set_def running_ids_def run_of_def task_of_def)
  then show ?thesis using limits_fewer [OF lim, of _ "sx_flight s" "sx_running s"] TimePasses by simp
qed (use assms limits_tick_start limits_tick_task limits_begin limits_settle limits_restart in auto)

lemma limits_run: "sched_ok s \<Longrightarrow> limits cfg s \<Longrightarrow> in_order cfg s es \<Longrightarrow> limits cfg (sched_run cfg s es)"
  by (induction es arbitrary: s) (simp_all add: sched_run_def limits_step sched_ok_step)

section \<open>Properties\<close>

definition new_process :: "cron_db \<Rightarrow> sched_state" where
  "new_process db = \<lparr>sx_db = db, sx_running = 0, sx_ticks = [], sx_flight = []\<rparr>"

lemma new_process_ok: "cron_ok db \<Longrightarrow> sched_ok (new_process db)"
  by (simp add: new_process_def sched_ok_def)

lemma new_process_limits:
  assumes "\<forall>k. running_set k db = {}"
  shows "limits cfg (new_process db)"
proof -
  have "running_ids u db = {}" for u using assms by (simp add: running_ids_def)
  then show ?thesis
    using assms by (simp add: new_process_def limits_def global_limit_def task_limit_def user_limit_def waiting_def)
qed

lemma limits_counts:
  assumes "limits cfg s"
  shows "sx_running s \<le> sc_maxGlobal cfg" "card (running_set k (sx_db s)) \<le> 1" "card (running_ids u (sx_db s)) \<le> sc_maxPerUser cfg"
  using assms by (simp_all add: limits_def global_limit_def task_limit_def user_limit_def) (meson add_leD1)+

text \<open>C20: from tables in which nothing runs, and under every history of ticks, runs, user operations, time and
  restarts with two provisos: no tick starts before the last one has treated its tasks, and whenever a
  tick starts or treats its next task, every execution dispatched before, also those of the same tick,
  has created its run. Then at most the global number of executions is under way, no task has two running
  runs, and no user has more running tasks than the limit per user. The sources ensure neither proviso,
  and without either the limits break (theorem \<open>disorder_breaks_limits\<close>).\<close>

theorem scheduler_keeps_limits:
  assumes "cron_ok db" "\<forall>r \<in> set (cd_runs db). rn_status r \<noteq> Running" "in_order cfg (new_process db) es"
  shows "let s = sched_run cfg (new_process db) es in
    sx_running s = length (sx_flight s) \<and> sx_running s \<le> sc_maxGlobal cfg \<and>
    (\<forall>k. count_if (\<lambda>r. rn_taskId r = k \<and> rn_status r = Running) (cd_runs (sx_db s)) \<le> 1) \<and>
    (\<forall>u. find_running_count_by_user u (sx_db s) \<le> sc_maxPerUser cfg)"
proof -
  let ?s = "sched_run cfg (new_process db) es"
  have ok: "sched_ok ?s" using sched_ok_run new_process_ok assms(1) by blast
  have "running_set k db = {}" for k using assms(2) by (auto simp: running_set_def dest: run_of_Some)
  then have lim: "limits cfg ?s"
    using limits_run [OF new_process_ok [OF assms(1)] _ assms(3)] new_process_limits by blast
  have db: "cron_ok (sx_db ?s)" using ok by (simp add: sched_ok_def)
  show ?thesis
    using limits_counts [OF lim] ok unfolding Let_def running_rows_card [OF db] running_count_card [OF db]
    by (simp add: sched_ok_def)
qed

text \<open>Histories in the wrong order.\<close>

definition race_cfg :: "nat \<Rightarrow> sched_cfg" where
  "race_cfg n = \<lparr>sc_env = sample_cron_env RaceTimeout, sc_defaultTz = ''UTC'', sc_batchSize = 10, sc_maxGlobal = n, sc_maxPerUser = 1\<rparr>"

definition due_db :: "nat list \<Rightarrow> cron_db" where
  "due_db ids = empty_cron_db\<lparr>cd_tasks := map (\<lambda>i. sample_task\<lparr>ct_id := i\<rparr>) ids, cd_nextId := 10\<rparr>"

definition overlap_run :: sched_state where
  "overlap_run = sched_run (race_cfg 1) (new_process (due_db [0]))
     [TickStarts, TickStarts, TickTreats 0, TickTreats 0, RunBegins 0, RunBegins 1]"

definition burst_run :: sched_state where
  "burst_run = sched_run (race_cfg 2) (new_process (due_db [0, 1]))
     [TickStarts, TickTreats 0, TickTreats 0, RunBegins 0, RunBegins 1]"

text \<open>None of the limits survives the wrong order. Two ticks that overlap dispatch the same due task
  twice and exceed the global limit of one; and within one tick the second of two tasks of a user is
  dispatched past the limit of one while the run of the first is being created.\<close>

theorem disorder_breaks_limits:
  "(sx_running overlap_run = 2 \<and> sc_maxGlobal (race_cfg 1) = 1 \<and>
    count_if (\<lambda>r. rn_taskId r = 0 \<and> rn_status r = Running) (cd_runs (sx_db overlap_run)) = 2) \<and>
   (find_running_count_by_user ''u'' (sx_db burst_run) = 2 \<and> sc_maxPerUser (race_cfg 2) = 1)"
  by code_simp

section \<open>Runs of a dead process\<close>

definition orphan_left :: "nat \<Rightarrow> task_run \<Rightarrow> sched_state \<Rightarrow> bool" where
  "orphan_left i r s \<longleftrightarrow> i < cd_nextId (sx_db s) \<and> rn_taskId r < cd_nextId (sx_db s) \<and> i \<notin> set (started_ids (sx_flight s)) \<and>
     (run_of i (sx_db s) = Some r \<or> task_of (rn_taskId r) (sx_db s) = None)"

lemma settles_task_None: "settles i db db' \<Longrightarrow> task_of k db = None \<Longrightarrow> task_of k db' = None"
proof -
  assume a: "settles i db db'" "task_of k db = None"
  have "map ct_id (cd_tasks db') = map ct_id (cd_tasks db)"
    using a(1) unfolding settles_def by (metis (no_types, lifting) map_eq_conv map_map comp_apply fst_conv)
  then have "ct_id ` set (cd_tasks db') = ct_id ` set (cd_tasks db)" by (metis set_map)
  with a(2) show ?thesis by (simp add: task_of_None)
qed

lemma started_ids_drop: "set (started_ids (drop_nth k fs)) \<subseteq> set (started_ids fs)"
  using set_drop_nth_subset [of k fs] unfolding subset_iff started_ids_flight by blast

lemma orphan_acts:
  assumes ok: "cron_ok db" and acts: "acts_for u db db'" and row: "run_of i db = Some r"
  shows "run_of i db' = Some r \<or> task_of (rn_taskId r) db' = None"
proof (cases "task_of (rn_taskId r) db'")
  case (Some t)
  have r: "r \<in> set (cd_runs db)" "rn_id r = i" using run_of_Some [OF row] by simp_all
  then have "r \<in> set (cd_runs db')" using Some unfolding acts_for_runs [OF acts] by simp
  then show ?thesis using run_of_eq [OF acts_for_ok [OF acts]] r(2) by blast
qed simp

lemma orphan_step:
  assumes ok: "sched_ok s" and left: "orphan_left i r s" and e: "e \<noteq> Restarts"
  shows "orphan_left i r (sched_step cfg s e)"
proof (cases e)
  case TickStarts
  then show ?thesis using left by (simp add: tick_start_def Let_def orphan_left_def)
next
  case (TickTreats k)
  then show ?thesis using left
    by (cases rule: tick_task_cases [of cfg k s]) (simp_all add: orphan_left_def)
next
  case (RunBegins k)
  have db: "cron_ok (sx_db s)" using ok by (simp add: sched_ok_def)
  consider "begin_run cfg k s = s"
    | task u st where "k < length (sx_flight s)" "sx_flight s ! k = Dispatched task u st"
    by (cases "k < length (sx_flight s)"; cases "sx_flight s ! k") (auto simp: begin_run_def)
  then show ?thesis
  proof cases
    case 1
    then show ?thesis using left RunBegins by simp
  next
    case (2 task u st)
    obtain x db' where create: "open_task_run (sc_env cfg) (ct_id task) (sx_db s) = (x, db')" by fastforce
    show ?thesis
    proof (cases x)
      case (Inl e)
      then show ?thesis using left 2 RunBegins create open_task_run_Inl [OF create [unfolded Inl]] started_ids_drop [of k "sx_flight s"]
        by (auto simp: begin_run_def orphan_left_def)
    next
      case (Inr run)
      note fr = run_create_frame [OF db open_task_run_Inr [OF create [unfolded Inr]]]
      let ?f = "Started (prepare_run (sc_env cfg) task u (rn_id run) db') task u st (rn_id run)"
      have "set (started_ids ((sx_flight s)[k := ?f])) \<subseteq> insert (rn_id run) (set (started_ids (sx_flight s)))"
        using set_update_subset_insert [of "sx_flight s" k ?f] by (fastforce simp: started_ids_flight)
      then show ?thesis
        using left 2 RunBegins create Inr fr(2,4,7) fr(10) [of i] by (auto simp: begin_run_def orphan_left_def task_of_def)
    qed
  qed
next
  case (RunSettles k outcome)
  consider "settle_flight cfg k outcome s = s"
    | q task u st j where "k < length (sx_flight s)" "sx_flight s ! k = Started q task u st j"
    by (cases "k < length (sx_flight s)"; cases "sx_flight s ! k") (auto simp: settle_flight_def)
  then show ?thesis
  proof cases
    case 1
    then show ?thesis using left RunSettles by simp
  next
    case (2 q task u st j)
    have "j \<in> set (started_ids (sx_flight s))" unfolding started_ids_flight using 2 by (metis nth_mem started_id.simps(2))
    then have "i \<noteq> j" using left by (auto simp: orphan_left_def)
    then show ?thesis
      using left 2 RunSettles started_ids_drop [of k "sx_flight s"]
        settle_run_settles [of j "sx_db s" "sc_env cfg" q task u st outcome]
        settles_task_None [OF settle_run_settles [of j "sx_db s" "sc_env cfg" q task u st outcome], of "rn_taskId r"]
      by (auto simp: settle_flight_def orphan_left_def settles_def)
  qed
next
  case (UserActs p)
  have db: "cron_ok (sx_db s)" using ok by (simp add: sched_ok_def)
  note acts = user_step_acts [OF db, of p "cn_platform (sc_env cfg)" "sc_defaultTz cfg"]
  have "task_of k (user_step (cn_platform (sc_env cfg)) (sc_defaultTz cfg) p (sx_db s)) = None"
    if "task_of k (sx_db s) = None" "k < cd_nextId (sx_db s)" for k
    using acts_for_new [OF acts that(1)] that(2) by (metis leD not_None_eq)
  then show ?thesis using left UserActs acts_for_ids [OF acts] orphan_acts [OF db acts, of i r]
    by (auto simp: orphan_left_def)
next
  case (TimePasses d)
  then show ?thesis using left by (simp add: orphan_left_def run_of_def task_of_def)
qed (use e in simp)

lemma orphan_run:
  "sched_ok s \<Longrightarrow> orphan_left i r s \<Longrightarrow> Restarts \<notin> set es \<Longrightarrow> orphan_left i r (sched_run cfg s es)"
  unfolding sched_run_def by (induction es arbitrary: s) (auto simp: sched_ok_step orphan_step)

text \<open>A run that a dead process left running and that is younger than the threshold when the next
  process starts is never recovered by that process: whatever happens short of a restart, its row
  stays as it is as long as its task exists, and the task is never due again.\<close>

theorem young_orphan_blocks_task:
  assumes ok: "sched_ok s" and row: "run_of i (sx_db s) = Some r" "rn_status r = Running"
    and young: "cd_now (sx_db s) - int (cn_maxTimeoutMs (sc_env cfg)) \<le> rn_startedAt r"
    and es: "Restarts \<notin> set es"
  shows "let db = sx_db (sched_run cfg (sched_step cfg s Restarts) es) in
    (run_of i db = Some r \<or> task_of (rn_taskId r) db = None) \<and>
    (\<forall>now n. rn_taskId r \<notin> ct_id ` set (find_due now n db))"
proof -
  have db: "cron_ok (sx_db s)" using ok by (simp add: sched_ok_def)
  have r: "r \<in> set (cd_runs (sx_db s))" "rn_id r = i" using run_of_Some [OF row(1)] by simp_all
  have below: "i < cd_nextId (sx_db s)" "rn_taskId r < cd_nextId (sx_db s)"
    using db r run_task_below [OF db r(1)] by (auto simp: cron_ok_def)
  have "cd_nextId (snd (mark_orphaned_runs threshold d)) = cd_nextId d" for threshold d
    by (simp add: mark_orphaned_runs_def Let_def)
  then have "orphan_left i r (restart cfg s)"
    using row young below by (simp add: orphan_left_def restart_def orphaned_run_of)
  moreover have ok': "sched_ok (restart cfg s)" using sched_ok_step [OF ok, of cfg Restarts] by simp
  ultimately have left: "orphan_left i r (sched_run cfg (restart cfg s) es)" using orphan_run es by blast
  let ?db = "sx_db (sched_run cfg (restart cfg s) es)"
  have db': "cron_ok ?db" using sched_ok_run [OF ok', of cfg es] by (simp add: sched_ok_def)
  have "rn_taskId r \<notin> ct_id ` set (find_due now n ?db)" for now n
  proof
    assume "rn_taskId r \<in> ct_id ` set (find_due now n ?db)"
    then obtain t where t: "t \<in> set (cd_tasks ?db)" "ct_id t = rn_taskId r" "\<not> has_running (ct_id t) ?db"
      by (auto dest!: find_due_tasks simp: is_due_def)
    then have "run_of i ?db = Some r" using left task_of_eq [OF db' t(1)] by (simp add: orphan_left_def)
    then show False using t(2,3) row(2) by (auto simp: has_running_def list_ex_iff dest: run_of_Some)
  qed
  then show ?thesis using left by (simp add: orphan_left_def)
qed

section \<open>Witnesses\<close>

theorem scheduler_keeps_limits_witness:
  "in_order (race_cfg 1) (new_process (due_db [0])) [TickStarts, TickTreats 0, RunBegins 0] \<and>
   find_running_count_by_user ''u'' (sx_db (sched_run (race_cfg 1) (new_process (due_db [0])) [TickStarts, TickTreats 0, RunBegins 0])) \<le> 1"
proof -
  have ok: "cron_ok (due_db [0])" by (simp add: cron_ok_def due_db_def empty_cron_db_def)
  have idle: "\<forall>r \<in> set (cd_runs (due_db [0])). rn_status r \<noteq> Running" by (simp add: due_db_def empty_cron_db_def)
  have order: "in_order (race_cfg 1) (new_process (due_db [0])) [TickStarts, TickTreats 0, RunBegins 0]" by code_simp
  from scheduler_keeps_limits [OF ok idle order] order show ?thesis by (simp add: Let_def race_cfg_def del: in_order.simps)
qed

theorem young_orphan_blocks_task_witness:
  "rn_taskId sample_run \<notin> ct_id ` set (find_due 100 10 (sx_db (sched_run (race_cfg 1)
     (sched_step (race_cfg 1) (new_process (due_db [0]\<lparr>cd_runs := [sample_run]\<rparr>)) Restarts) [TimePasses 100])))"
proof -
  let ?s = "new_process (due_db [0]\<lparr>cd_runs := [sample_run]\<rparr>)"
  have "cron_ok (due_db [0]\<lparr>cd_runs := [sample_run]\<rparr>)" by (simp add: cron_ok_def due_db_def empty_cron_db_def sample_run_def)
  then have ok: "sched_ok ?s" by (rule new_process_ok)
  have row: "run_of 1 (sx_db ?s) = Some sample_run" "rn_status sample_run = Running"
    by (simp_all add: run_of_def new_process_def sample_run_def)
  have young: "cd_now (sx_db ?s) - int (cn_maxTimeoutMs (sc_env (race_cfg 1))) \<le> rn_startedAt sample_run"
    by (simp add: new_process_def sample_run_def due_db_def empty_cron_db_def)
  have "Restarts \<notin> set [TimePasses 100]" by simp
  from young_orphan_blocks_task [OF ok row young this] show ?thesis unfolding Let_def by blast
qed

end
