(* ===== verification/Effects.thy ===== *)
theory Effects
  imports ErrorClassifier
begin

text \<open>
  Awaited calls that change a state and may throw, with the control flow the sources build from
  them: sequencing, \<open>try/catch\<close>, \<open>try/finally\<close> and \<open>for ... of\<close>. \<open>triple\<close> is a Hoare triple with a
  postcondition for each way out; its rules are collected in \<open>triple_rules\<close>. The locale
  \<open>evolution\<close> is the contract of a kind of state change that sequences of calls inherit.
\<close>

named_theorems triple_rules \<open>Hoare rules for effectful procedures\<close>

type_synonym ('s, 'a) proc = "'s \<Rightarrow> (thrown + 'a) \<times> 's"

definition proc_return :: "'a \<Rightarrow> ('s, 'a) proc" where
  "proc_return x s = (Inr x, s)"

definition proc_throw :: "thrown \<Rightarrow> ('s, 'a) proc" where
  "proc_throw e s = (Inl e, s)"

definition proc_modify :: "('s \<Rightarrow> 's) \<Rightarrow> ('s, unit) proc" where
  "proc_modify f s = (Inr (), f s)"

definition proc_read :: "('s \<Rightarrow> 'a) \<Rightarrow> ('s, 'a) proc" where
  "proc_read f s = (Inr (f s), s)"

definition proc_bind :: "('s, 'a) proc \<Rightarrow> ('a \<Rightarrow> ('s, 'b) proc) \<Rightarrow> ('s, 'b) proc" where
  "proc_bind f g s = (case f s of (Inl e, t) \<Rightarrow> (Inl e, t) | (Inr x, t) \<Rightarrow> g x t)"

definition proc_then :: "('s, 'a) proc \<Rightarrow> ('s, 'b) proc \<Rightarrow> ('s, 'b) proc" where
  "proc_then f g = proc_bind f (\<lambda>_. g)"

definition proc_catch :: "('s, 'a) proc \<Rightarrow> (thrown \<Rightarrow> ('s, 'a) proc) \<Rightarrow> ('s, 'a) proc" where
  "proc_catch f h s = (case f s of (Inl e, t) \<Rightarrow> h e t | (Inr x, t) \<Rightarrow> (Inr x, t))"

text \<open>\<open>try { f } finally { g }\<close>: what \<open>g\<close> throws replaces the outcome of \<open>f\<close>.\<close>

definition proc_finally :: "('s, 'a) proc \<Rightarrow> ('s, unit) proc \<Rightarrow> ('s, 'a) proc" where
  "proc_finally f g s =
     (case f s of (r, t) \<Rightarrow> (case g t of (Inl e, u) \<Rightarrow> (Inl e, u) | (Inr _, u) \<Rightarrow> (r, u)))"

fun proc_each :: "('x \<Rightarrow> ('s, unit) proc) \<Rightarrow> 'x list \<Rightarrow> ('s, unit) proc" where
  "proc_each f [] s = (Inr (), s)"
| "proc_each f (x # xs) s = (case f x s of (Inl e, t) \<Rightarrow> (Inl e, t) | (Inr _, t) \<Rightarrow> proc_each f xs t)"

definition proc_lift :: "thrown + 'a \<Rightarrow> ('s, 'a) proc" where
  "proc_lift r s = (r, s)"

lemmas proc_defs = proc_return_def proc_throw_def proc_modify_def proc_read_def proc_bind_def
  proc_then_def proc_catch_def proc_finally_def proc_lift_def

lemma proc_bind_Inr: "f s = (Inr x, t) \<Longrightarrow> proc_bind f g s = g x t"
  by (simp add: proc_bind_def)

lemma proc_bind_Inl: "f s = (Inl e, t) \<Longrightarrow> proc_bind f g s = (Inl e, t)"
  by (simp add: proc_bind_def)

lemma proc_bind_return [simp]:
  "proc_bind (proc_return x) g = g x"
  "proc_bind (proc_throw e) g = proc_throw e"
  by (auto simp: proc_defs fun_eq_iff)

lemma proc_bind_assoc: "proc_bind (proc_bind f g) h = proc_bind f (\<lambda>x. proc_bind (g x) h)"
  by (auto simp: proc_bind_def fun_eq_iff split: prod.splits sum.splits)

section \<open>Hoare triples\<close>

definition outcome_in :: "('a \<Rightarrow> 's \<Rightarrow> bool) \<Rightarrow> (thrown \<Rightarrow> 's \<Rightarrow> bool) \<Rightarrow> (thrown + 'a) \<times> 's \<Rightarrow> bool" where
  "outcome_in Q E r = (case fst r of Inr x \<Rightarrow> Q x (snd r) | Inl e \<Rightarrow> E e (snd r))"

definition triple ::
  "('s \<Rightarrow> bool) \<Rightarrow> ('s, 'a) proc \<Rightarrow> ('a \<Rightarrow> 's \<Rightarrow> bool) \<Rightarrow> (thrown \<Rightarrow> 's \<Rightarrow> bool) \<Rightarrow> bool" where
  "triple P f Q E \<longleftrightarrow> (\<forall>s. P s \<longrightarrow> outcome_in Q E (f s))"

text \<open>The same assertion whichever way the procedure ends.\<close>

abbreviation preserves :: "('s \<Rightarrow> bool) \<Rightarrow> ('s, 'a) proc \<Rightarrow> bool" where
  "preserves P f \<equiv> triple P f (\<lambda>_. P) (\<lambda>_. P)"

lemma outcome_in_simps [simp]:
  "outcome_in Q E (Inr x, s) = Q x s"
  "outcome_in Q E (Inl e, s) = E e s"
  by (simp_all add: outcome_in_def)

lemma tripleI: "(\<And>s. P s \<Longrightarrow> outcome_in Q E (f s)) \<Longrightarrow> triple P f Q E"
  by (simp add: triple_def)

lemma tripleD: "triple P f Q E \<Longrightarrow> P s \<Longrightarrow> outcome_in Q E (f s)"
  by (simp add: triple_def)

lemma triple_Inr: "triple P f Q E \<Longrightarrow> P s \<Longrightarrow> f s = (Inr x, t) \<Longrightarrow> Q x t"
  by (drule (1) tripleD) simp

lemma triple_Inl: "triple P f Q E \<Longrightarrow> P s \<Longrightarrow> f s = (Inl e, t) \<Longrightarrow> E e t"
  by (drule (1) tripleD) simp

lemma triple_snd: "triple P f (\<lambda>_. Q) (\<lambda>_. Q) \<Longrightarrow> P s \<Longrightarrow> Q (snd (f s))"
  by (drule (1) tripleD) (simp add: outcome_in_def split: sum.splits)

lemma triple_weaken:
  "triple P' f Q' E' \<Longrightarrow> (\<And>s. P s \<Longrightarrow> P' s) \<Longrightarrow> (\<And>x s. Q' x s \<Longrightarrow> Q x s) \<Longrightarrow> (\<And>e s. E' e s \<Longrightarrow> E e s) \<Longrightarrow>
   triple P f Q E"
  by (auto simp: triple_def outcome_in_def split: sum.splits)

lemma triple_return [triple_rules]: "(\<And>s. P s \<Longrightarrow> Q x s) \<Longrightarrow> triple P (proc_return x) Q E"
  by (simp add: triple_def proc_return_def)

lemma triple_throw [triple_rules]: "(\<And>s. P s \<Longrightarrow> E e s) \<Longrightarrow> triple P (proc_throw e) Q E"
  by (simp add: triple_def proc_throw_def)

lemma triple_modify [triple_rules]: "(\<And>s. P s \<Longrightarrow> Q () (f s)) \<Longrightarrow> triple P (proc_modify f) Q E"
  by (simp add: triple_def proc_modify_def)

lemma triple_read [triple_rules]: "(\<And>s. P s \<Longrightarrow> Q (f s) s) \<Longrightarrow> triple P (proc_read f) Q E"
  by (simp add: triple_def proc_read_def)

lemma triple_lift [triple_rules]:
  "(\<And>x s. r = Inr x \<Longrightarrow> P s \<Longrightarrow> Q x s) \<Longrightarrow> (\<And>e s. r = Inl e \<Longrightarrow> P s \<Longrightarrow> E e s) \<Longrightarrow> triple P (proc_lift r) Q E"
  by (cases r) (auto simp: triple_def proc_lift_def)

lemma triple_bind:
  assumes "triple P f R E" and "\<And>x. triple (R x) (g x) Q E"
  shows "triple P (proc_bind f g) Q E"
proof (rule tripleI)
  fix s assume "P s"
  with assms(1) have "outcome_in R E (f s)" by (rule tripleD)
  with assms(2) show "outcome_in Q E (proc_bind f g s)"
    by (cases "f s"; cases "fst (f s)") (auto simp: proc_bind_def intro: tripleD)
qed

lemma triple_then:
  "triple P f (\<lambda>_. R) E \<Longrightarrow> triple R g Q E \<Longrightarrow> triple P (proc_then f g) Q E"
  unfolding proc_then_def by (rule triple_bind)

lemma triple_catch:
  assumes "triple P f Q R" and "\<And>e. triple (R e) (h e) Q E"
  shows "triple P (proc_catch f h) Q E"
proof (rule tripleI)
  fix s assume "P s"
  with assms(1) have "outcome_in Q R (f s)" by (rule tripleD)
  with assms(2) show "outcome_in Q E (proc_catch f h s)"
    by (cases "f s"; cases "fst (f s)") (auto simp: proc_catch_def intro: tripleD)
qed

lemma triple_finally:
  assumes "triple P f Q' E'" and "\<And>x. triple (Q' x) g (\<lambda>_. Q x) E" and "\<And>e. triple (E' e) g (\<lambda>_. E e) E"
  shows "triple P (proc_finally f g) Q E"
proof (rule tripleI)
  fix s assume "P s"
  with assms(1) have "outcome_in Q' E' (f s)" by (rule tripleD)
  moreover obtain r t where ft: "f s = (r, t)" by (cases "f s")
  moreover obtain q u where gt: "g t = (q, u)" by (cases "g t")
  ultimately show "outcome_in Q E (proc_finally f g s)"
    using tripleD [OF assms(2), of _ t] tripleD [OF assms(3), of _ t]
    by (cases r; cases q) (auto simp: proc_finally_def)
qed

lemma triple_each:
  assumes "\<And>x. x \<in> set xs \<Longrightarrow> triple P (f x) (\<lambda>_. P) E"
  shows "triple P (proc_each f xs) (\<lambda>_. P) E"
  using assms
proof (induction xs)
  case Nil
  then show ?case by (simp add: triple_def)
next
  case (Cons x xs)
  then have head: "triple P (f x) (\<lambda>_. P) E" and tail: "triple P (proc_each f xs) (\<lambda>_. P) E" by simp_all
  show ?case
  proof (rule tripleI)
    fix s assume "P s"
    with head have "outcome_in (\<lambda>_. P) E (f x s)" by (rule tripleD)
    then show "outcome_in (\<lambda>_. P) E (proc_each f (x # xs) s)"
      using tail by (auto simp: triple_def outcome_in_def split: sum.splits prod.splits)
  qed
qed

lemma preserves_bind: "preserves P f \<Longrightarrow> (\<And>x. preserves P (g x)) \<Longrightarrow> preserves P (proc_bind f g)"
  by (rule triple_bind)

lemma preserves_catch: "preserves P f \<Longrightarrow> (\<And>e. preserves P (h e)) \<Longrightarrow> preserves P (proc_catch f h)"
  by (rule triple_catch)

lemma preserves_then: "preserves P f \<Longrightarrow> preserves P g \<Longrightarrow> preserves P (proc_then f g)"
  by (rule triple_then)

lemma preserves_finally: "preserves P f \<Longrightarrow> preserves P g \<Longrightarrow> preserves P (proc_finally f g)"
  by (rule triple_finally)

lemma preserves_if: "(b \<Longrightarrow> preserves P f) \<Longrightarrow> (\<not> b \<Longrightarrow> preserves P g) \<Longrightarrow> preserves P (if b then f else g)"
  by simp

section \<open>How a procedure may change the state\<close>

definition obeys :: "('s \<Rightarrow> 's \<Rightarrow> bool) \<Rightarrow> ('s, 'a) proc \<Rightarrow> bool" where
  "obeys R f \<longleftrightarrow> (\<forall>s. R s (snd (f s)))"

lemma obeysD: "obeys R f \<Longrightarrow> R s (snd (f s))"
  by (simp add: obeys_def)

lemma obeys_outcome: "obeys R f \<Longrightarrow> f s = (r, t) \<Longrightarrow> R s t"
  by (metis snd_conv obeysD)

text \<open>Any allowed change composes: a preorder on states.\<close>

locale evolution =
  fixes R :: "'s \<Rightarrow> 's \<Rightarrow> bool"
  assumes stay: "R s s"
    and chain: "R s t \<Longrightarrow> R t u \<Longrightarrow> R s u"
begin

lemma obeys_return: "obeys R (proc_return x)"
  by (simp add: obeys_def proc_return_def stay)

lemma obeys_throw: "obeys R (proc_throw e)"
  by (simp add: obeys_def proc_throw_def stay)

lemma obeys_lift: "obeys R (proc_lift r)"
  by (simp add: obeys_def proc_lift_def stay)

lemma obeys_bind: "obeys R f \<Longrightarrow> (\<And>x. obeys R (g x)) \<Longrightarrow> obeys R (proc_bind f g)"
  unfolding obeys_def proc_bind_def
  by (auto split: prod.splits sum.splits) (metis snd_conv chain)+

lemma obeys_then: "obeys R f \<Longrightarrow> obeys R g \<Longrightarrow> obeys R (proc_then f g)"
  unfolding proc_then_def by (rule obeys_bind)

lemma obeys_catch: "obeys R f \<Longrightarrow> (\<And>e. obeys R (h e)) \<Longrightarrow> obeys R (proc_catch f h)"
  unfolding obeys_def proc_catch_def
  by (auto split: prod.splits sum.splits) (metis snd_conv chain)+

lemma obeys_finally: "obeys R f \<Longrightarrow> obeys R g \<Longrightarrow> obeys R (proc_finally f g)"
  unfolding obeys_def proc_finally_def
  by (auto split: prod.splits sum.splits) (metis snd_conv chain)+

lemma obeys_each: "(\<And>x. x \<in> set xs \<Longrightarrow> obeys R (f x)) \<Longrightarrow> obeys R (proc_each f xs)"
proof (induction xs)
  case Nil
  then show ?case by (simp add: obeys_def stay)
next
  case (Cons x xs)
  then have "obeys R (f x)" "obeys R (proc_each f xs)" by simp_all
  then show ?case
    unfolding obeys_def by (auto split: prod.splits sum.splits) (metis snd_conv chain)+
qed

lemma obeys_if: "(b \<Longrightarrow> obeys R f) \<Longrightarrow> (\<not> b \<Longrightarrow> obeys R g) \<Longrightarrow> obeys R (if b then f else g)"
  by simp

lemmas obeys_rules = obeys_return obeys_throw obeys_lift obeys_bind obeys_then obeys_catch
  obeys_finally obeys_each obeys_if

end

text \<open>Keeping a component is such a preorder.\<close>

interpretation steady: evolution "\<lambda>s t. X t = X s" for X :: "'s \<Rightarrow> 'x"
  by unfold_locales simp_all

abbreviation keeps :: "('s \<Rightarrow> 'x) \<Rightarrow> ('s, 'a) proc \<Rightarrow> bool" where
  "keeps X f \<equiv> obeys (\<lambda>s t. X t = X s) f"

lemmas preserves_rules = preserves_bind preserves_catch preserves_then preserves_finally preserves_if triple_each

end
