(* ===== verification/AgentRuns.thy ===== *)
theory AgentRuns
  imports Effects SessionStore
begin

text \<open>
  The rows of agent runs and everything that writes them outside the runner: the repository
  (\<open>db/agent-run.repository.ts\<close>, with the pagination helpers of \<open>db/utils.ts\<close>), the registry of abort
  controllers (\<open>engine/agent-run-registry.service.ts\<close>) and the reaper of stale runs
  (\<open>engine/stale-run-reaper.service.ts\<close>). A controller is shared by reference with the run that
  registered it, so controllers have identities and the reasons they were aborted with are a store.
\<close>

section \<open>Pages\<close>

record pagination =
  pg_page :: nat
  pg_limit :: nat

record 'a page =
  pr_data :: "'a list"
  pr_total :: nat
  pr_page :: nat
  pr_limit :: nat
  pr_totalPages :: nat

definition build_pagination_args :: "pagination \<Rightarrow> nat \<times> nat" where
  "build_pagination_args inp = ((pg_page inp - 1) * pg_limit inp, pg_limit inp)"

definition build_paginated_response :: "'a list \<Rightarrow> nat \<Rightarrow> pagination \<Rightarrow> 'a page" where
  "build_paginated_response rows matching inp =
     \<lparr>pr_data = rows, pr_total = matching, pr_page = pg_page inp, pr_limit = pg_limit inp,
      pr_totalPages = (matching + pg_limit inp - 1) div pg_limit inp\<rparr>"

text \<open>\<open>findMany\<close> with \<open>skip\<close> and \<open>take\<close>, and \<open>count\<close>, over the matching rows in query order.\<close>

definition find_page :: "pagination \<Rightarrow> 'a list \<Rightarrow> 'a page" where
  "find_page inp rows =
     (case build_pagination_args inp of
        (skip, taken) \<Rightarrow> build_paginated_response (take taken (drop skip rows)) (length rows) inp)"

section \<open>Rows\<close>

datatype agent_status = AgPending | AgIdle | AgRunning | AgCompleted | AgFailed | AgCancelled

text \<open>The JSON column of the usage: \<open>None\<close> for a value that is no object; both fields optional.\<close>

record agent_run =
  ag_id :: string
  ag_agentDefinitionId :: string
  ag_sessionId :: "string option"
  ag_status :: agent_status
  ag_input :: string
  ag_output :: "string option"
  ag_error :: "string option"
  ag_tokenUsage :: "(nat option \<times> nat option) option"
  ag_tokenBudget :: "nat option"
  ag_tokenGracePercent :: "nat option"
  ag_startedAt :: int
  ag_completedAt :: "int option"
  ag_parentAgentRunId :: "string option"

record run_db =
  rd_rows :: "agent_run list"
  rd_ids :: "nat \<Rightarrow> string"
  rd_nextId :: nat
  rd_now :: int

definition is_terminal :: "agent_status \<Rightarrow> bool" where
  "is_terminal st \<longleftrightarrow> st \<in> {AgCompleted, AgFailed, AgCancelled}"

section \<open>Repository\<close>

definition run_of :: "string \<Rightarrow> run_db \<Rightarrow> agent_run option" where
  "run_of i db = find (\<lambda>r. ag_id r = i) (rd_rows db)"

definition find_run :: "string \<Rightarrow> run_db \<Rightarrow> thrown + agent_run" where
  "find_run i db = (case run_of i db of None \<Rightarrow> Inl (not_found_error ''AgentRun'' i) | Some r \<Rightarrow> Inr r)"

definition newest_first :: "agent_run list \<Rightarrow> agent_run list" where
  "newest_first = sort_key (\<lambda>r. - ag_startedAt r)"

definition oldest_first :: "agent_run list \<Rightarrow> agent_run list" where
  "oldest_first = sort_key ag_startedAt"

definition find_all_runs :: "pagination \<Rightarrow> run_db \<Rightarrow> agent_run page" where
  "find_all_runs inp db = find_page inp (newest_first (rd_rows db))"

definition find_runs_by_status :: "agent_status \<Rightarrow> pagination \<Rightarrow> run_db \<Rightarrow> agent_run page" where
  "find_runs_by_status st inp db = find_page inp (newest_first (filter (\<lambda>r. ag_status r = st) (rd_rows db)))"

definition find_runs_by_session :: "string \<Rightarrow> pagination \<Rightarrow> run_db \<Rightarrow> agent_run page" where
  "find_runs_by_session sid inp db =
     find_page inp (newest_first (filter (\<lambda>r. ag_sessionId r = Some sid) (rd_rows db)))"

text \<open>The relation filter \<open>session: {userId}\<close>.\<close>

definition run_owner :: "session_db \<Rightarrow> agent_run \<Rightarrow> string option" where
  "run_owner sdb r =
     (case ag_sessionId r of None \<Rightarrow> None | Some sid \<Rightarrow> map_option se_userId (find_session sid sdb))"

definition find_runs_by_definition ::
  "session_db \<Rightarrow> string \<Rightarrow> pagination \<Rightarrow> string option \<Rightarrow> run_db \<Rightarrow> agent_run page" where
  "find_runs_by_definition sdb defId inp userId db =
     find_page inp
       (newest_first
         (filter (\<lambda>r. ag_agentDefinitionId r = defId \<and> (falsy userId \<or> run_owner sdb r = userId)) (rd_rows db)))"

definition find_all_by_status :: "agent_status \<Rightarrow> run_db \<Rightarrow> agent_run list" where
  "find_all_by_status st db = oldest_first (filter (\<lambda>r. ag_status r = st) (rd_rows db))"

definition find_by_parent_id :: "string \<Rightarrow> run_db \<Rightarrow> agent_run list" where
  "find_by_parent_id p db = oldest_first (filter (\<lambda>r. ag_parentAgentRunId r = Some p) (rd_rows db))"

definition is_active_primary :: "agent_run \<Rightarrow> bool" where
  "is_active_primary r \<longleftrightarrow> ag_status r = AgRunning \<and> ag_parentAgentRunId r = None"

definition find_active_primary_run :: "string \<Rightarrow> run_db \<Rightarrow> agent_run option" where
  "find_active_primary_run sid db =
     (case newest_first (filter (\<lambda>r. ag_sessionId r = Some sid \<and> is_active_primary r) (rd_rows db)) of
        [] \<Rightarrow> None | r # _ \<Rightarrow> Some r)"

definition count_active_primary_runs_for_user :: "session_db \<Rightarrow> string \<Rightarrow> run_db \<Rightarrow> nat" where
  "count_active_primary_runs_for_user sdb u db =
     count_if (\<lambda>r. is_active_primary r \<and> run_owner sdb r = Some u) (rd_rows db)"

definition sum_session_token_usage :: "string \<Rightarrow> run_db \<Rightarrow> nat" where
  "sum_session_token_usage sid db =
     foldl (\<lambda>total r. case ag_tokenUsage r of
                         None \<Rightarrow> total
                       | Some (i, out) \<Rightarrow> total + (case i of None \<Rightarrow> 0 | Some n \<Rightarrow> n) + (case out of None \<Rightarrow> 0 | Some n \<Rightarrow> n))
       0 (filter (\<lambda>r. ag_sessionId r = Some sid) (rd_rows db))"

record create_run_input =
  cr_agentDefinitionId :: string
  cr_sessionId :: "string option"
  cr_input :: string
  cr_status :: "agent_status option"
  cr_parentAgentRunId :: "string option"
  cr_tokenBudget :: "nat option"
  cr_tokenGracePercent :: "nat option"

definition create_run :: "create_run_input \<Rightarrow> run_db \<Rightarrow> agent_run \<times> run_db" where
  "create_run inp db =
     (let r = \<lparr>ag_id = rd_ids db (rd_nextId db), ag_agentDefinitionId = cr_agentDefinitionId inp,
               ag_sessionId = cr_sessionId inp,
               ag_status = (case cr_status inp of None \<Rightarrow> AgIdle | Some st \<Rightarrow> st), ag_input = cr_input inp,
               ag_output = None, ag_error = None, ag_tokenUsage = Some (None, None),
               ag_tokenBudget = cr_tokenBudget inp, ag_tokenGracePercent = cr_tokenGracePercent inp,
               ag_startedAt = rd_now db, ag_completedAt = None,
               ag_parentAgentRunId = (if falsy (cr_parentAgentRunId inp) then None else cr_parentAgentRunId inp)\<rparr>
      in (r, db\<lparr>rd_rows := rd_rows db @ [r], rd_nextId := Suc (rd_nextId db)\<rparr>))"

record agent_run_update =
  ru_status :: "agent_status option"
  ru_sessionId :: "string option"
  ru_output :: "string option"
  ru_error :: "string option"
  ru_tokenUsage :: "(nat option \<times> nat option) option option"
  ru_completedAt :: "int option"

definition no_update :: agent_run_update where
  "no_update = \<lparr>ru_status = None, ru_sessionId = None, ru_output = None, ru_error = None,
     ru_tokenUsage = None, ru_completedAt = None\<rparr>"

definition set_if :: "'a option \<Rightarrow> 'a option \<Rightarrow> 'a option" where
  "set_if new old = (case new of None \<Rightarrow> old | Some x \<Rightarrow> Some x)"

definition apply_update :: "int \<Rightarrow> agent_run_update \<Rightarrow> agent_run \<Rightarrow> agent_run" where
  "apply_update now u r =
     r\<lparr>ag_status := (case ru_status u of None \<Rightarrow> ag_status r | Some st \<Rightarrow> st),
       ag_startedAt := (if ru_status u = Some AgRunning then now else ag_startedAt r),
       ag_sessionId := set_if (ru_sessionId u) (ag_sessionId r),
       ag_output := set_if (ru_output u) (ag_output r),
       ag_error := set_if (ru_error u) (ag_error r),
       ag_tokenUsage := (case ru_tokenUsage u of None \<Rightarrow> ag_tokenUsage r | Some v \<Rightarrow> v),
       ag_completedAt := set_if (ru_completedAt u) (ag_completedAt r)\<rparr>"

definition map_runs :: "(agent_run \<Rightarrow> bool) \<Rightarrow> (agent_run \<Rightarrow> agent_run) \<Rightarrow> run_db \<Rightarrow> run_db" where
  "map_runs P f db = db\<lparr>rd_rows := map (\<lambda>r. if P r then f r else r) (rd_rows db)\<rparr>"

definition update_run :: "string \<Rightarrow> agent_run_update \<Rightarrow> run_db \<Rightarrow> (thrown + agent_run) \<times> run_db" where
  "update_run i u db =
     (case run_of i db of
        None \<Rightarrow> (Inl (not_found_error ''AgentRun'' ''unknown''), db)
      | Some r \<Rightarrow> (Inr (apply_update (rd_now db) u r), map_runs (\<lambda>x. ag_id x = i) (apply_update (rd_now db) u) db))"

definition delete_run :: "string \<Rightarrow> run_db \<Rightarrow> (thrown + agent_run) \<times> run_db" where
  "delete_run i db =
     (case run_of i db of
        None \<Rightarrow> (Inl (not_found_error ''AgentRun'' ''unknown''), db)
      | Some r \<Rightarrow> (Inr r, db\<lparr>rd_rows := filter (\<lambda>x. ag_id x \<noteq> i) (rd_rows db)\<rparr>))"

text \<open>\<open>updateMany\<close>: the rows that match are changed and counted.\<close>

definition update_many :: "(agent_run \<Rightarrow> bool) \<Rightarrow> agent_run_update \<Rightarrow> run_db \<Rightarrow> nat \<times> run_db" where
  "update_many P u db = (count_if P (rd_rows db), map_runs P (apply_update (rd_now db) u) db)"

definition cancel_if_active :: "string \<Rightarrow> run_db \<Rightarrow> bool \<times> run_db" where
  "cancel_if_active i db =
     (case update_many (\<lambda>r. ag_id r = i \<and> (ag_status r = AgPending \<or> ag_status r = AgRunning))
             (no_update\<lparr>ru_status := Some AgCancelled, ru_completedAt := Some (rd_now db)\<rparr>) db of
        (n, db') \<Rightarrow> (0 < n, db'))"

section \<open>Registry of controllers\<close>

record run_registry =
  rg_controllers :: "(string \<times> nat) list"
  rg_reasons :: "nat \<Rightarrow> string option"

definition register_run :: "string \<Rightarrow> nat \<Rightarrow> run_registry \<Rightarrow> run_registry" where
  "register_run i c g = g\<lparr>rg_controllers := upd_assoc i c (rg_controllers g)\<rparr>"

definition unregister_run :: "string \<Rightarrow> run_registry \<Rightarrow> run_registry" where
  "unregister_run i g = g\<lparr>rg_controllers := del_assoc i (rg_controllers g)\<rparr>"

text \<open>\<open>controller.abort(reason)\<close>: only the first abort counts.\<close>

definition abort_controller :: "nat \<Rightarrow> string \<Rightarrow> run_registry \<Rightarrow> run_registry" where
  "abort_controller c reason g =
     (case rg_reasons g c of Some _ \<Rightarrow> g | None \<Rightarrow> g\<lparr>rg_reasons := (rg_reasons g)(c \<mapsto> reason)\<rparr>)"

definition abort_run :: "string \<Rightarrow> string \<Rightarrow> run_registry \<Rightarrow> bool \<times> run_registry" where
  "abort_run i reason g =
     (case map_of (rg_controllers g) i of
        None \<Rightarrow> (False, g)
      | Some c \<Rightarrow> (True, abort_controller c reason g))"

text \<open>
  The stop button. Between the query and the update other writers may act on the rows: \<open>between\<close> is
  what they do.
\<close>

definition abort_all_for_user ::
  "session_db \<Rightarrow> (run_db \<Rightarrow> run_db) \<Rightarrow> string \<Rightarrow> run_db \<times> run_registry \<Rightarrow> nat \<times> run_db \<times> run_registry" where
  "abort_all_for_user sdb between u s =
     (case s of (db, g) \<Rightarrow>
       (let ids = map ag_id (filter (\<lambda>r. ag_status r = AgRunning \<and> run_owner sdb r = Some u) (rd_rows db)) in
        if ids = [] then (0, db, g)
        else
          (let g' = foldl (\<lambda>g i. snd (abort_run i ''user_stop'' g)) g ids;
               db' = between db in
           case update_many (\<lambda>r. ag_id r \<in> set ids \<and> ag_status r = AgRunning)
                  (no_update\<lparr>ru_status := Some AgCancelled, ru_error := Some ''Stopped by user'',
                             ru_completedAt := Some (rd_now db')\<rparr>) db' of
             (n, db'') \<Rightarrow> (n, db'', g'))))"

section \<open>Reaper\<close>

definition stale_threshold_ms :: int where
  "stale_threshold_ms = 600000"

definition reap_error :: string where
  "reap_error = ''Agent run timed out (stale run reaper)''"

text \<open>
  The state of one sweep: the rows, the controllers, the runs whose failure the reaper publishes and
  the number of rows it flipped. \<open>between k\<close> is what other writers do before the \<open>k\<close>-th guarded update.
\<close>

record reap_state =
  rp_db :: run_db
  rp_registry :: run_registry
  rp_published :: "string list"
  rp_reaped :: nat

definition reap_one :: "(run_db \<Rightarrow> run_db) \<Rightarrow> string \<times> string option \<Rightarrow> reap_state \<Rightarrow> reap_state" where
  "reap_one between run s =
     (case run of (i, parent) \<Rightarrow>
       (case abort_run i ''stale_timeout'' (rp_registry s) of (hadController, g) \<Rightarrow>
         (let db = between (rp_db s) in
          case update_many (\<lambda>r. ag_id r = i \<and> ag_status r = AgRunning)
                 (no_update\<lparr>ru_status := Some AgFailed, ru_error := Some reap_error,
                            ru_completedAt := Some (rd_now db)\<rparr>) db of
            (n, db') \<Rightarrow>
              if n = 0 then s\<lparr>rp_db := db', rp_registry := g\<rparr>
              else s\<lparr>rp_db := db', rp_registry := g, rp_reaped := Suc (rp_reaped s),
                     rp_published := rp_published s @ (if \<not> hadController \<and> \<not> falsy parent then [i] else [])\<rparr>)))"

fun reap_rows :: "(nat \<Rightarrow> run_db \<Rightarrow> run_db) \<Rightarrow> nat \<Rightarrow> (string \<times> string option) list \<Rightarrow> reap_state \<Rightarrow> reap_state" where
  "reap_rows between k [] s = s"
| "reap_rows between k (run # runs) s = reap_rows between (Suc k) runs (reap_one (between k) run s)"

definition stale_runs :: "run_db \<Rightarrow> (string \<times> string option) list" where
  "stale_runs db =
     map (\<lambda>r. (ag_id r, ag_parentAgentRunId r))
       (filter (\<lambda>r. ag_status r = AgRunning \<and> ag_startedAt r < rd_now db - stale_threshold_ms) (rd_rows db))"

definition reap_stale_runs :: "(nat \<Rightarrow> run_db \<Rightarrow> run_db) \<Rightarrow> run_db \<Rightarrow> run_registry \<Rightarrow> reap_state" where
  "reap_stale_runs between db g =
     reap_rows between 0 (stale_runs db) \<lparr>rp_db = db, rp_registry = g, rp_published = [], rp_reaped = 0\<rparr>"

text \<open>The runner settles its row only while it is still running (\<open>agent-runner.service.ts\<close>).\<close>

definition finish_run :: "string \<Rightarrow> agent_status \<Rightarrow> string option \<Rightarrow> string option \<Rightarrow> run_db \<Rightarrow> run_db" where
  "finish_run i st output err db =
     snd (update_many (\<lambda>r. ag_id r = i \<and> ag_status r = AgRunning)
            (no_update\<lparr>ru_status := Some st, ru_output := output, ru_error := err,
                       ru_completedAt := Some (rd_now db)\<rparr>) db)"

section \<open>Pages partition the rows\<close>

lemma build_page_data: "pr_data (find_page inp rows) = take (pg_limit inp) (drop ((pg_page inp - 1) * pg_limit inp) rows)"
  by (simp add: find_page_def build_pagination_args_def build_paginated_response_def)

lemma pages_upto:
  "concat (map (\<lambda>p. take n (drop (p * n) rows)) [0..<k]) = take (k * n) rows"
proof (induction k)
  case 0
  then show ?case by simp
next
  case (Suc k)
  have "take (Suc k * n) rows = take (k * n) rows @ take n (drop (k * n) rows)"
    by (simp only: mult_Suc add.commute [of n] take_add)
  with Suc show ?case by simp
qed

lemma ceil_div_mult: "0 < (n :: nat) \<Longrightarrow> m \<le> (m + n - 1) div n * n"
proof -
  assume n: "0 < n"
  have "m + n - 1 < ((m + n - 1) div n + 1) * n"
    using n dividend_less_div_times [of n "m + n - 1"] by (simp add: algebra_simps)
  then show ?thesis by (simp add: algebra_simps)
qed

text \<open>Reading every page of a query, from the first to the reported last one, returns every
  matching row exactly once and in query order, whatever the page size.\<close>

theorem pages_partition_rows:
  assumes "0 < limit"
  shows "concat (map (\<lambda>p. pr_data (find_page \<lparr>pg_page = Suc p, pg_limit = limit\<rparr> rows))
           [0..<pr_totalPages (find_page \<lparr>pg_page = 1, pg_limit = limit\<rparr> rows)]) = rows"
proof -
  let ?k = "pr_totalPages (find_page \<lparr>pg_page = 1, pg_limit = limit\<rparr> rows)"
  have "length rows \<le> ?k * limit"
    using ceil_div_mult [OF assms, of "length rows"]
    by (simp add: find_page_def build_pagination_args_def build_paginated_response_def)
  then show ?thesis by (simp add: build_page_data pages_upto)
qed

lemma pages_partition_rows_witness:
  "concat (map (\<lambda>p. pr_data (find_page \<lparr>pg_page = Suc p, pg_limit = 2\<rparr> [1, 2, 3, 4, 5 :: nat]))
     [0..<pr_totalPages (find_page \<lparr>pg_page = 1, pg_limit = 2\<rparr> [1, 2, 3, 4, 5 :: nat])]) = [1, 2, 3, 4, 5]"
  by (rule pages_partition_rows) simp

section \<open>Settled rows\<close>

text \<open>A settled row is never written again.\<close>

definition settled_stays :: "run_db \<Rightarrow> run_db \<Rightarrow> bool" where
  "settled_stays db db' \<longleftrightarrow> (\<forall>r \<in> set (rd_rows db). is_terminal (ag_status r) \<longrightarrow> r \<in> set (rd_rows db'))"

lemma settled_stays_refl [simp, intro]: "settled_stays db db"
  by (simp add: settled_stays_def)

lemma settled_stays_trans: "settled_stays db db' \<Longrightarrow> settled_stays db' db'' \<Longrightarrow> settled_stays db db''"
  by (auto simp: settled_stays_def)

lemma settled_stays_map_runs:
  "(\<And>r. P r \<Longrightarrow> \<not> is_terminal (ag_status r)) \<Longrightarrow> settled_stays db (map_runs P f db)"
  by (force simp: settled_stays_def map_runs_def)

lemma settled_stays_update_many:
  "(\<And>r. P r \<Longrightarrow> \<not> is_terminal (ag_status r)) \<Longrightarrow> settled_stays db (snd (update_many P u db))"
  by (simp add: update_many_def settled_stays_map_runs)

lemma settled_stays_cancel: "settled_stays db (snd (cancel_if_active i db))"
  unfolding cancel_if_active_def
  by (simp add: split_beta) (rule settled_stays_update_many, auto simp: is_terminal_def)

lemma settled_stays_finish: "settled_stays db (finish_run i st output err db)"
  unfolding finish_run_def by (rule settled_stays_update_many) (auto simp: is_terminal_def)

lemma settled_stays_create: "settled_stays db (snd (create_run inp db))"
  by (auto simp: settled_stays_def create_run_def Let_def)

lemma settled_stays_stop_all:
  assumes "\<And>db. settled_stays db (between db)"
  shows "settled_stays db (fst (snd (abort_all_for_user sdb between u (db, g))))"
proof -
  have "settled_stays (between db) (snd (update_many (\<lambda>r. ag_id r \<in> I \<and> ag_status r = AgRunning) v (between db)))" for I v
    by (rule settled_stays_update_many) (auto simp: is_terminal_def)
  with assms show ?thesis
    by (auto simp: abort_all_for_user_def Let_def split_beta intro: settled_stays_trans)
qed

lemma settled_stays_reap_one:
  assumes "\<And>db. settled_stays db (between db)"
  shows "settled_stays (rp_db s) (rp_db (reap_one between run s))"
proof -
  have "settled_stays (between (rp_db s))
          (snd (update_many (\<lambda>r. ag_id r = fst run \<and> ag_status r = AgRunning) v (between (rp_db s))))" for v
    by (rule settled_stays_update_many) (auto simp: is_terminal_def)
  with assms show ?thesis
    by (auto simp: reap_one_def Let_def split_beta intro: settled_stays_trans)
qed

lemma settled_stays_reap_rows:
  assumes "\<And>k db. settled_stays db (between k db)"
  shows "settled_stays (rp_db s) (rp_db (reap_rows between k runs s))"
  using assms
proof (induction between k runs s rule: reap_rows.induct)
  case (1 between k s)
  then show ?case by simp
next
  case (2 between k run runs s)
  have "settled_stays (rp_db s) (rp_db (reap_one (between k) run s))"
    by (rule settled_stays_reap_one) (rule 2(2))
  with 2(1) [OF 2(2)] show ?case by (auto intro: settled_stays_trans)
qed

text \<open>C27: The stop button, \<open>task_cancel\<close>, the reaper and the end of a run may race in any order with any
  other writer that respects settled rows: a run row that is completed, failed or cancelled is never
  written again, neither its status nor its output nor its error.\<close>

theorem guarded_writers_keep_settled_rows:
  assumes "\<And>k db. settled_stays db (between k db)"
  shows "settled_stays db (snd (cancel_if_active i db)) \<and>
         settled_stays db (fst (snd (abort_all_for_user sdb (between 0) u (db, g)))) \<and>
         settled_stays db (rp_db (reap_stale_runs between db g)) \<and>
         settled_stays db (finish_run i st output err db)"
  using assms settled_stays_cancel settled_stays_finish settled_stays_stop_all [of "between 0"]
    settled_stays_reap_rows [of between "\<lparr>rp_db = db, rp_registry = g, rp_published = [], rp_reaped = 0\<rparr>"]
  by (simp add: reap_stale_runs_def)

section \<open>What the reaper and the stop button do\<close>

definition reap_update :: "run_db \<Rightarrow> agent_run_update" where
  "reap_update db = no_update\<lparr>ru_status := Some AgFailed, ru_error := Some reap_error, ru_completedAt := Some (rd_now db)\<rparr>"

lemma map_runs_simps [simp]:
  "rd_rows (map_runs P f db) = map (\<lambda>r. if P r then f r else r) (rd_rows db)"
  "rd_now (map_runs P f db) = rd_now db"
  "rd_ids (map_runs P f db) = rd_ids db"
  "rd_nextId (map_runs P f db) = rd_nextId db"
  by (simp_all add: map_runs_def)

lemma apply_update_frame [simp]:
  "ag_id (apply_update now u r) = ag_id r"
  "ag_parentAgentRunId (apply_update now u r) = ag_parentAgentRunId r"
  "ag_agentDefinitionId (apply_update now u r) = ag_agentDefinitionId r"
  "ag_status (apply_update now u r) = (case ru_status u of None \<Rightarrow> ag_status r | Some st \<Rightarrow> st)"
  by (simp_all add: apply_update_def)

lemma count_if_pos: "0 < count_if P xs \<longleftrightarrow> (\<exists>x \<in> set xs. P x)"
  by (induction xs) auto

lemma abort_run_controllers [simp]: "rg_controllers (snd (abort_run i reason g)) = rg_controllers g"
  by (simp add: abort_run_def abort_controller_def split: option.split)

lemma abort_run_found: "fst (abort_run i reason g) \<longleftrightarrow> map_of (rg_controllers g) i \<noteq> None"
  by (simp add: abort_run_def split: option.split)

lemma reap_one_running:
  assumes "\<exists>r \<in> set (rd_rows (rp_db s)). ag_id r = i \<and> ag_status r = AgRunning"
  shows "reap_one (\<lambda>db. db) (i, parent) s =
    s\<lparr>rp_db := map_runs (\<lambda>r. ag_id r = i \<and> ag_status r = AgRunning)
                 (apply_update (rd_now (rp_db s)) (reap_update (rp_db s))) (rp_db s),
      rp_registry := snd (abort_run i ''stale_timeout'' (rp_registry s)),
      rp_reaped := Suc (rp_reaped s),
      rp_published := rp_published s @
        (if map_of (rg_controllers (rp_registry s)) i = None \<and> \<not> falsy parent then [i] else [])\<rparr>"
proof -
  from assms have "count_if (\<lambda>r. ag_id r = i \<and> ag_status r = AgRunning) (rd_rows (rp_db s)) \<noteq> 0"
    using count_if_pos [of "\<lambda>r. ag_id r = i \<and> ag_status r = AgRunning" "rd_rows (rp_db s)"] by simp
  then show ?thesis
    by (simp add: reap_one_def update_many_def Let_def reap_update_def split_beta abort_run_found
        del: not_None_eq)
qed

lemma reap_rows_all:
  assumes "distinct (map fst runs)"
    and "\<forall>i \<in> set (map fst runs). \<exists>r \<in> set (rd_rows (rp_db s)). ag_id r = i \<and> ag_status r = AgRunning"
  shows "rd_rows (rp_db (reap_rows (\<lambda>_ db. db) k runs s)) =
           map (\<lambda>r. if ag_id r \<in> set (map fst runs) \<and> ag_status r = AgRunning
                     then apply_update (rd_now (rp_db s)) (reap_update (rp_db s)) r else r) (rd_rows (rp_db s)) \<and>
         rp_reaped (reap_rows (\<lambda>_ db. db) k runs s) = rp_reaped s + length runs \<and>
         rp_published (reap_rows (\<lambda>_ db. db) k runs s) = rp_published s @
           map fst (filter (\<lambda>(i, p). map_of (rg_controllers (rp_registry s)) i = None \<and> \<not> falsy p) runs)"
  using assms
proof (induction runs arbitrary: k s)
  case Nil
  then show ?case by (simp add: map_idI)
next
  case (Cons run runs)
  obtain i p where run: "run = (i, p)" by (cases run)
  let ?s = "reap_one (\<lambda>db. db) (i, p) s"
  let ?f = "apply_update (rd_now (rp_db s)) (reap_update (rp_db s))"
  from Cons.prems(2) run have "\<exists>r \<in> set (rd_rows (rp_db s)). ag_id r = i \<and> ag_status r = AgRunning" by simp
  note step = reap_one_running [OF this, of p]
  have upd: "reap_update (rp_db ?s) = reap_update (rp_db s)" "rd_now (rp_db ?s) = rd_now (rp_db s)"
    by (simp_all add: step reap_update_def)
  have rows: "rd_rows (rp_db ?s) = map (\<lambda>r. if ag_id r = i \<and> ag_status r = AgRunning then ?f r else r) (rd_rows (rp_db s))"
    and rest: "rp_reaped ?s = Suc (rp_reaped s)" "rg_controllers (rp_registry ?s) = rg_controllers (rp_registry s)"
      "rp_published ?s = rp_published s @
         (if map_of (rg_controllers (rp_registry s)) i = None \<and> \<not> falsy p then [i] else [])"
    by (simp_all add: step)
  have failed: "ru_status (reap_update (rp_db s)) = Some AgFailed" by (simp add: reap_update_def)
  have ready: "\<forall>j \<in> set (map fst runs). \<exists>r \<in> set (rd_rows (rp_db ?s)). ag_id r = j \<and> ag_status r = AgRunning"
  proof
    fix j assume j: "j \<in> set (map fst runs)"
    with Cons.prems(1) run have "j \<noteq> i" by auto
    from j Cons.prems(2) obtain r where r: "r \<in> set (rd_rows (rp_db s))" "ag_id r = j" "ag_status r = AgRunning"
      by auto
    with \<open>j \<noteq> i\<close> have "r \<in> set (rd_rows (rp_db ?s))" unfolding rows by (auto intro: image_eqI [of _ _ r])
    with r show "\<exists>r \<in> set (rd_rows (rp_db ?s)). ag_id r = j \<and> ag_status r = AgRunning" by blast
  qed
  from Cons.prems(1) have "distinct (map fst runs)" by simp
  note ih = Cons.IH [OF this ready, of "Suc k", unfolded upd rest]
  have "rd_rows (rp_db (reap_rows (\<lambda>_ db. db) (Suc k) runs ?s)) =
      map (\<lambda>r. if ag_id r \<in> set (map fst runs) \<and> ag_status r = AgRunning then ?f r else r) (rd_rows (rp_db ?s))"
    using ih by blast
  also have "\<dots> = map (\<lambda>r. if ag_id r \<in> set (map fst (run # runs)) \<and> ag_status r = AgRunning then ?f r else r)
                   (rd_rows (rp_db s))"
    unfolding rows run map_map by (rule map_cong [OF refl]) (auto simp: failed)
  finally show ?case using ih unfolding run by simp
qed

text \<open>C28: With no other writer in between, a sweep of the reaper fails exactly the runs that have been
  running for more than ten minutes and touches no other row; it reports as many runs as it flipped and
  publishes a failure exactly for those that have a parent and no controller left in the process.\<close>

theorem reap_is_exact:
  assumes "distinct (map ag_id (rd_rows db))"
  shows "rd_rows (rp_db (reap_stale_runs (\<lambda>_ db. db) db g)) =
           map (\<lambda>r. if ag_status r = AgRunning \<and> ag_startedAt r < rd_now db - 600000
                     then apply_update (rd_now db) (reap_update db) r else r) (rd_rows db) \<and>
         rp_reaped (reap_stale_runs (\<lambda>_ db. db) db g) =
           count_if (\<lambda>r. ag_status r = AgRunning \<and> ag_startedAt r < rd_now db - 600000) (rd_rows db) \<and>
         rp_published (reap_stale_runs (\<lambda>_ db. db) db g) =
           map ag_id (filter (\<lambda>r. ag_status r = AgRunning \<and> ag_startedAt r < rd_now db - 600000 \<and>
              map_of (rg_controllers g) (ag_id r) = None \<and> \<not> falsy (ag_parentAgentRunId r)) (rd_rows db))"
proof -
  let ?P = "\<lambda>r. ag_status r = AgRunning \<and> ag_startedAt r < rd_now db - 600000"
  let ?L = "stale_runs db"
  have L: "?L = map (\<lambda>r. (ag_id r, ag_parentAgentRunId r)) (filter ?P (rd_rows db))"
    by (simp add: stale_runs_def stale_threshold_ms_def)
  have ids: "map fst ?L = map ag_id (filter ?P (rd_rows db))" by (simp add: L)
  have d: "distinct (map fst ?L)" unfolding ids by (rule distinct_map_filter [OF assms])
  have run: "\<forall>i \<in> set (map fst ?L). \<exists>r \<in> set (rd_rows db). ag_id r = i \<and> ag_status r = AgRunning"
    unfolding ids by auto
  have mem: "ag_id r \<in> set (map fst ?L) \<and> ag_status r = AgRunning \<longleftrightarrow> ?P r" if "r \<in> set (rd_rows db)" for r
    using that assms unfolding ids by (auto simp: distinct_map inj_on_def)
  let ?s = "\<lparr>rp_db = db, rp_registry = g, rp_published = [], rp_reaped = 0\<rparr>"
  from reap_rows_all [of ?L ?s 0] d run mem
  show ?thesis
    by (auto simp: reap_stale_runs_def L filter_map o_def count_if_def conj_assoc cong: map_cong)
qed

definition sample_run :: "string \<Rightarrow> string option \<Rightarrow> agent_status \<Rightarrow> int \<Rightarrow> agent_run" where
  "sample_run i parent st started =
     \<lparr>ag_id = i, ag_agentDefinitionId = ''d1'', ag_sessionId = Some ''s1'', ag_status = st, ag_input = ''do it'',
      ag_output = None, ag_error = None, ag_tokenUsage = Some (None, None), ag_tokenBudget = None,
      ag_tokenGracePercent = None, ag_startedAt = started, ag_completedAt = None, ag_parentAgentRunId = parent\<rparr>"

definition sample_runs :: run_db where
  "sample_runs =
     \<lparr>rd_rows = [sample_run ''a'' None AgRunning 0, sample_run ''b'' (Some ''a'') AgRunning 0,
                 sample_run ''c'' (Some ''a'') AgRunning 900000, sample_run ''d'' (Some ''a'') AgCompleted 0],
      rd_ids = \<lambda>n. ''r'' @ show_nat n, rd_nextId = 0, rd_now = 1000000\<rparr>"

definition no_controllers :: run_registry where
  "no_controllers = \<lparr>rg_controllers = [], rg_reasons = \<lambda>_. None\<rparr>"

lemmas sample_runs_defs = sample_runs_def sample_run_def no_controllers_def

lemma reap_is_exact_witness:
  "rp_published (reap_stale_runs (\<lambda>_ db. db) sample_runs no_controllers) = [''b''] \<and>
   rp_reaped (reap_stale_runs (\<lambda>_ db. db) sample_runs no_controllers) = 2"
  using reap_is_exact [of sample_runs no_controllers] by (simp add: sample_runs_defs falsy_def)

lemma guarded_writers_keep_settled_rows_witness:
  "settled_stays sample_runs (snd (cancel_if_active ''d'' sample_runs)) \<and>
   settled_stays sample_runs (fst (snd (abort_all_for_user empty_db (\<lambda>db. db) ''u'' (sample_runs, no_controllers)))) \<and>
   settled_stays sample_runs (rp_db (reap_stale_runs (\<lambda>_ db. db) sample_runs no_controllers)) \<and>
   settled_stays sample_runs (finish_run ''d'' AgFailed None None sample_runs)"
  using guarded_writers_keep_settled_rows [of "\<lambda>_ db. db"] by simp

text \<open>
  Not every writer is guarded. Between its checks and its registration a run is not in the registry and
  its row is still pending; a cancel in that window reports success, and the run's first write sets the
  row to running again.
\<close>

theorem cancelled_run_starts_anyway:
  assumes "run_of i db = Some r" and "ag_status r = AgPending" and "map_of (rg_controllers g) i = None"
  shows "fst (abort_run i ''parent_cancelled'' g) = False \<and> fst (cancel_if_active i db) \<and>
         (\<exists>r'. fst (update_run i (no_update\<lparr>ru_status := Some AgRunning\<rparr>) (snd (cancel_if_active i db))) = Inr r' \<and>
               ag_status r' = AgRunning)"
proof -
  from assms(1) have r: "r \<in> set (rd_rows db)" "ag_id r = i"
    by (auto simp: run_of_def find_Some_iff)
  then have active: "fst (cancel_if_active i db)"
    using assms(2) by (force simp: cancel_if_active_def update_many_def count_if_pos)
  have "map ag_id (rd_rows (snd (cancel_if_active i db))) = map ag_id (rd_rows db)"
    by (simp add: cancel_if_active_def update_many_def)
  with r have "i \<in> ag_id ` set (rd_rows (snd (cancel_if_active i db)))"
    by (metis image_eqI list.set_map)
  then have "run_of i (snd (cancel_if_active i db)) \<noteq> None"
    by (auto simp: run_of_def find_None_iff)
  with active show ?thesis
    using assms(3) by (auto simp: abort_run_def update_run_def)
qed

lemma abort_fold_controllers [simp]:
  "rg_controllers (foldl (\<lambda>g i. snd (abort_run i reason g)) g ids) = rg_controllers g"
  by (induction ids arbitrary: g) simp_all

lemma abort_fold_reasons:
  "rg_reasons (foldl (\<lambda>g i. snd (abort_run i reason g)) g ids) c \<noteq> rg_reasons g c \<Longrightarrow>
   \<exists>i \<in> set ids. map_of (rg_controllers g) i = Some c"
proof (induction ids arbitrary: g)
  case Nil
  then show ?case by simp
next
  case (Cons i ids)
  let ?g = "snd (abort_run i reason g)"
  show ?case
  proof (cases "rg_reasons ?g c = rg_reasons g c")
    case True
    with Cons.prems Cons.IH [of ?g] show ?thesis by auto
  next
    case False
    then have "map_of (rg_controllers g) i = Some c"
      by (auto simp: abort_run_def abort_controller_def split: option.splits if_splits)
    then show ?thesis by simp
  qed
qed

text \<open>The stop button of one user writes no row of anybody else and aborts no controller but those of
  that user's running runs, whatever other writers do meanwhile.\<close>

theorem stop_all_is_contained:
  assumes "r \<in> set (rd_rows db) \<inter> set (rd_rows (between db))"
    and "\<not> (\<exists>x \<in> set (rd_rows db). ag_id x = ag_id r \<and> ag_status x = AgRunning \<and> run_owner sdb x = Some u)"
  shows "r \<in> set (rd_rows (fst (snd (abort_all_for_user sdb between u (db, g))))) \<and>
    {c. rg_reasons (snd (snd (abort_all_for_user sdb between u (db, g)))) c \<noteq> rg_reasons g c} \<subseteq>
    {c. \<exists>x \<in> set (rd_rows db). run_owner sdb x = Some u \<and> ag_status x = AgRunning \<and>
          map_of (rg_controllers g) (ag_id x) = Some c}"
proof
  from assms show "r \<in> set (rd_rows (fst (snd (abort_all_for_user sdb between u (db, g)))))"
    by (auto simp: abort_all_for_user_def Let_def update_many_def intro!: image_eqI [of _ _ r])
  show "{c. rg_reasons (snd (snd (abort_all_for_user sdb between u (db, g)))) c \<noteq> rg_reasons g c} \<subseteq>
    {c. \<exists>x \<in> set (rd_rows db). run_owner sdb x = Some u \<and> ag_status x = AgRunning \<and>
          map_of (rg_controllers g) (ag_id x) = Some c}"
    by (auto simp: abort_all_for_user_def Let_def split_beta split: if_splits dest!: abort_fold_reasons)
qed

definition sample_sessions :: session_db where
  "sample_sessions =
     empty_db\<lparr>db_sessions := [\<lparr>se_id = ''s1'', se_userId = ''u1'', se_agentDefinitionId = ''d1'', se_channelId = None,
                                se_isActive = True, se_lastConsolidatedAt = None\<rparr>]\<rparr>"

lemma stop_all_is_contained_witness:
  "sample_run ''a'' None AgRunning 0 \<in>
     set (rd_rows (fst (snd (abort_all_for_user sample_sessions (\<lambda>db. db) ''u2'' (sample_runs, no_controllers)))))"
  using stop_all_is_contained [of "sample_run ''a'' None AgRunning 0" sample_runs "\<lambda>db. db" sample_sessions "''u2''"
      no_controllers]
  by (simp add: sample_runs_defs sample_sessions_def run_owner_def find_session_def)

end
