(* ===== verification/ResultDelivery.thy ===== *)
theory ResultDelivery
  imports AgentRuns
begin

text \<open>
  How the outcome of a sub-agent reaches its parent: the publisher
  (\<open>engine/sub-agent-result.publisher.ts\<close>), the delivery half of \<open>engine/task-executor.service.ts\<close>
  (\<open>tryDeliverResults\<close>, \<open>deliverResults\<close>, \<open>handleDeliveryError\<close>, the sweep) over the list and lock
  commands of \<open>cache/redis.service.ts\<close>, and the consumption of queued results by the task tools.

  Each parent session has a queue, a processing list, a lock and a counter in Redis: one \<open>delivery\<close>
  record. A list is written left end first. Redis may refuse a command or lose its answer; which
  command meets which fate is part of the state. A serialised payload is the payload itself
  (\<open>JSON.parse\<close> inverts \<open>JSON.stringify\<close>); anything else on the list is \<open>Unparseable\<close>. What a parent
  run does to its own lists while it runs is an arbitrary script, and so is the time it takes: the
  counter lapses an hour after it was given its expiry. How many hours a delivery takes in all is a
  number of the state, any number. The lists expire a day after the last publication; that is left out.
\<close>

section \<open>State\<close>

record result_payload =
  pl_agentRunId :: string
  pl_parentAgentRunId :: string
  pl_agentName :: string
  pl_output :: "string option"
  pl_completed :: bool
  pl_error :: "string option"
  pl_deliveryAttempts :: "nat option"

record sub_outcome =
  oc_completed :: bool
  oc_output :: "string option"
  oc_error :: "string option"

datatype queue_item = Payload result_payload | Unparseable string

text \<open>Fate of a command: answered, refused without effect, or carried out with its answer lost.\<close>

datatype fate = Answered | Refused | AnswerLost

record delivery =
  dl_queue :: "queue_item list"
  dl_processing :: "queue_item list"
  dl_lock :: "string option"
  dl_count :: int
  dl_ttl :: bool
  dl_hours :: nat
  dl_fates :: "fate list"
  dl_wakeups :: nat
  dl_responses :: "(string \<times> string) list"
  dl_turns :: nat
  dl_inputs :: "string list"
  dl_handed :: "result_payload list"
  dl_consumed :: "result_payload list"
  dl_dropped :: "queue_item list"
  dl_deadLetters :: "result_payload list"

definition redis_error :: thrown where
  "redis_error = ThrownError (ErrorObj ''Connection is closed.'' None None None)"

definition call :: "(delivery \<Rightarrow> 'a \<times> delivery) \<Rightarrow> (delivery, 'a) proc" where
  "call f s =
     (case dl_fates s of
        [] \<Rightarrow> (case f s of (x, t) \<Rightarrow> (Inr x, t))
      | Answered # fs \<Rightarrow> (case f (s\<lparr>dl_fates := fs\<rparr>) of (x, t) \<Rightarrow> (Inr x, t))
      | Refused # fs \<Rightarrow> (Inl redis_error, s\<lparr>dl_fates := fs\<rparr>)
      | AnswerLost # fs \<Rightarrow> (Inl redis_error, snd (f (s\<lparr>dl_fates := fs\<rparr>))))"

section \<open>Commands\<close>

text \<open>\<open>EXPIRE\<close> of the lists, and of the counter.\<close>

definition expire_list :: "delivery \<Rightarrow> unit \<times> delivery" where
  "expire_list s = ((), s)"

definition expire_count :: "delivery \<Rightarrow> unit \<times> delivery" where
  "expire_count s = ((), s\<lparr>dl_ttl := True\<rparr>)"

text \<open>An hour passes: a counter with an expiry is gone, and counts from zero without one.\<close>

definition lapse :: "delivery \<Rightarrow> delivery" where
  "lapse s =
     (if dl_hours s = 0 then s
      else s\<lparr>dl_hours := dl_hours s - 1, dl_count := (if dl_ttl s then 0 else dl_count s), dl_ttl := False\<rparr>)"

definition lpush_queue :: "queue_item \<Rightarrow> delivery \<Rightarrow> unit \<times> delivery" where
  "lpush_queue x s = ((), s\<lparr>dl_queue := x # dl_queue s\<rparr>)"

definition lpush_processing :: "queue_item \<Rightarrow> delivery \<Rightarrow> unit \<times> delivery" where
  "lpush_processing x s = ((), s\<lparr>dl_processing := x # dl_processing s\<rparr>)"

text \<open>\<open>LMOVE queue processing RIGHT LEFT\<close> and back.\<close>

definition lmove_out :: "delivery \<Rightarrow> queue_item option \<times> delivery" where
  "lmove_out s =
     (if dl_queue s = [] then (None, s)
      else (Some (last (dl_queue s)),
            s\<lparr>dl_queue := butlast (dl_queue s), dl_processing := last (dl_queue s) # dl_processing s\<rparr>))"

definition lmove_back :: "delivery \<Rightarrow> queue_item option \<times> delivery" where
  "lmove_back s =
     (if dl_processing s = [] then (None, s)
      else (Some (last (dl_processing s)),
            s\<lparr>dl_processing := butlast (dl_processing s), dl_queue := last (dl_processing s) # dl_queue s\<rparr>))"

definition lrem_processing :: "queue_item \<Rightarrow> delivery \<Rightarrow> unit \<times> delivery" where
  "lrem_processing x s = ((), s\<lparr>dl_processing := remove1 x (dl_processing s)\<rparr>)"

text \<open>The same command where the item is given up. \<open>dl_dropped\<close> is no list of Redis but the record of the
  items the log tells are dropped.\<close>

definition lrem_drop :: "queue_item \<Rightarrow> delivery \<Rightarrow> unit \<times> delivery" where
  "lrem_drop x s = ((), s\<lparr>dl_processing := remove1 x (dl_processing s), dl_dropped := dl_dropped s @ [x]\<rparr>)"

text \<open>The same commands where a tool takes a result; they answer whether something was removed.\<close>

definition take_queue :: "result_payload \<Rightarrow> delivery \<Rightarrow> bool \<times> delivery" where
  "take_queue p s =
     (if Payload p \<in> set (dl_queue s)
      then (True, s\<lparr>dl_queue := remove1 (Payload p) (dl_queue s), dl_consumed := dl_consumed s @ [p]\<rparr>)
      else (False, s))"

definition take_processing :: "result_payload \<Rightarrow> delivery \<Rightarrow> bool \<times> delivery" where
  "take_processing p s =
     (if Payload p \<in> set (dl_processing s)
      then (True, s\<lparr>dl_processing := remove1 (Payload p) (dl_processing s), dl_consumed := dl_consumed s @ [p]\<rparr>)
      else (False, s))"

definition cmd_incr :: "delivery \<Rightarrow> int \<times> delivery" where
  "cmd_incr s = (dl_count s + 1, s\<lparr>dl_count := dl_count s + 1\<rparr>)"

definition cmd_decr :: "delivery \<Rightarrow> unit \<times> delivery" where
  "cmd_decr s = ((), s\<lparr>dl_count := dl_count s - 1\<rparr>)"

definition publish_wakeup :: "delivery \<Rightarrow> unit \<times> delivery" where
  "publish_wakeup s = ((), s\<lparr>dl_wakeups := Suc (dl_wakeups s)\<rparr>)"

definition publish_response :: "string \<Rightarrow> string \<Rightarrow> delivery \<Rightarrow> unit \<times> delivery" where
  "publish_response sid output s = ((), s\<lparr>dl_responses := dl_responses s @ [(sid, output)]\<rparr>)"

definition set_nx :: "string \<Rightarrow> delivery \<Rightarrow> bool \<times> delivery" where
  "set_nx token s = (if dl_lock s = None then (True, s\<lparr>dl_lock := Some token\<rparr>) else (False, s))"

definition release_fenced_lock :: "string \<Rightarrow> delivery \<Rightarrow> bool \<times> delivery" where
  "release_fenced_lock token s = (if dl_lock s = Some token then (True, s\<lparr>dl_lock := None\<rparr>) else (False, s))"

section \<open>Publisher\<close>

definition publish_max_attempts :: nat where
  "publish_max_attempts = 3"

fun push_attempts :: "nat \<Rightarrow> result_payload \<Rightarrow> (delivery, bool) proc" where
  "push_attempts 0 p = proc_return False"
| "push_attempts (Suc n) p =
     proc_catch (proc_then (call (lpush_queue (Payload p))) (proc_return True)) (\<lambda>_. push_attempts n p)"

definition enqueue_outcome :: "result_payload \<Rightarrow> (delivery, unit) proc" where
  "enqueue_outcome p =
     proc_bind (push_attempts publish_max_attempts p)
       (\<lambda>enqueued.
          if \<not> enqueued then proc_modify (\<lambda>s. s\<lparr>dl_deadLetters := dl_deadLetters s @ [p]\<rparr>)
          else proc_catch (proc_then (call expire_list) (proc_then (call expire_list) (call publish_wakeup)))
                 (\<lambda>_. proc_return ()))"

record delivery_env =
  de_runs :: run_db
  de_sessions :: session_db
  de_agentName :: "string \<Rightarrow> thrown + string"

text \<open>The payload and the session it goes to; \<open>None\<close> where there is nobody to tell.\<close>

definition outcome_target :: "delivery_env \<Rightarrow> string \<Rightarrow> sub_outcome \<Rightarrow> (string \<times> result_payload) option" where
  "outcome_target env i oc =
     (case find_run i (de_runs env) of
        Inl e \<Rightarrow> None
      | Inr child \<Rightarrow>
          if falsy (ag_parentAgentRunId child) then None
          else
            (case find_run (the (ag_parentAgentRunId child)) (de_runs env) of
               Inl e \<Rightarrow> None
             | Inr parent \<Rightarrow>
                 (case de_agentName env (ag_agentDefinitionId child) of
                    Inl e \<Rightarrow> None
                  | Inr name \<Rightarrow>
                      if falsy (ag_sessionId parent) then None
                      else Some (the (ag_sessionId parent),
                             \<lparr>pl_agentRunId = i, pl_parentAgentRunId = the (ag_parentAgentRunId child), pl_agentName = name,
                              pl_output = oc_output oc, pl_completed = oc_completed oc, pl_error = oc_error oc,
                              pl_deliveryAttempts = None\<rparr>))))"

definition publish_outcome ::
  "delivery_env \<Rightarrow> string \<Rightarrow> sub_outcome \<Rightarrow> (string \<Rightarrow> delivery) \<Rightarrow> string \<Rightarrow> delivery" where
  "publish_outcome env i oc bus =
     (case outcome_target env i oc of
        None \<Rightarrow> bus
      | Some (sid, p) \<Rightarrow> bus(sid := snd (enqueue_outcome p (bus sid))))"

definition failed_outcome :: "string \<Rightarrow> sub_outcome" where
  "failed_outcome message = \<lparr>oc_completed = False, oc_output = None, oc_error = Some message\<rparr>"

definition publish_failure :: "delivery_env \<Rightarrow> string \<Rightarrow> string \<Rightarrow> (string \<Rightarrow> delivery) \<Rightarrow> string \<Rightarrow> delivery" where
  "publish_failure env i message = publish_outcome env i (failed_outcome message)"

section \<open>Consumption by the task tools\<close>

text \<open>One pass over the entries a list had when it was read; a command that fails is passed over.\<close>

fun consume_entries ::
  "(result_payload \<Rightarrow> delivery \<Rightarrow> bool \<times> delivery) \<Rightarrow> string list \<Rightarrow> queue_item list \<Rightarrow>
   (string \<times> result_payload) list \<Rightarrow> delivery \<Rightarrow> (string \<times> result_payload) list \<times> delivery" where
  "consume_entries grab ids [] got s = (got, s)"
| "consume_entries grab ids (Unparseable u # xs) got s = consume_entries grab ids xs got s"
| "consume_entries grab ids (Payload p # xs) got s =
     (if pl_agentRunId p \<in> set ids
      then (case call (grab p) s of
              (removed, t) \<Rightarrow>
                consume_entries grab ids xs (if removed = Inr True then upd_assoc (pl_agentRunId p) p got else got) t)
      else consume_entries grab ids xs got s)"

definition consume_queued_results :: "string list \<Rightarrow> (delivery, (string \<times> result_payload) list) proc" where
  "consume_queued_results ids =
     proc_bind (call (\<lambda>s. (dl_queue s, s))) (\<lambda>raws.
     proc_bind (\<lambda>s. case consume_entries take_queue ids raws [] s of (got, t) \<Rightarrow> (Inr got, t)) (\<lambda>got.
     proc_bind (call (\<lambda>s. (dl_processing s, s))) (\<lambda>raws'.
       (\<lambda>s. case consume_entries take_processing ids raws' got s of (got', t) \<Rightarrow> (Inr got', t)))))"

section \<open>Parent runs\<close>

text \<open>While the parent runs, its children report, its tools consume, its lock may expire and go to
  somebody else, and its counter may lapse. The script of the \<open>n\<close>-th run and its result are the environment's.\<close>

datatype parent_activity =
    ChildReports result_payload
  | ToolConsumes "string list"
  | LockTaken "string option"
  | HourPasses

fun parent_acts :: "parent_activity list \<Rightarrow> delivery \<Rightarrow> delivery" where
  "parent_acts [] s = s"
| "parent_acts (ChildReports p # acts) s = parent_acts acts (snd (enqueue_outcome p s))"
| "parent_acts (ToolConsumes ids # acts) s = parent_acts acts (snd (consume_queued_results ids s))"
| "parent_acts (LockTaken token # acts) s = parent_acts acts (s\<lparr>dl_lock := token\<rparr>)"
| "parent_acts (HourPasses # acts) s = parent_acts acts (lapse s)"

record parent_turn =
  pt_activity :: "parent_activity list"
  pt_result :: "thrown + string option"

definition or_text :: "string option \<Rightarrow> string \<Rightarrow> string" where
  "or_text x d = (case x of None \<Rightarrow> d | Some y \<Rightarrow> y)"

definition result_section :: "result_payload \<Rightarrow> string" where
  "result_section r =
     join newline
       [''### '' @ pl_agentName r @ '' (task '' @ pl_agentRunId r @ '') '' @ em_dash @ '' '' @
          (if pl_completed r then ''completed'' else ''failed''),
        (if pl_completed r then or_text (pl_output r) ''(no output)''
         else ''Error: '' @ or_text (pl_error r) ''Unknown error'')]"

definition format_batch_injection :: "result_payload list \<Rightarrow> string" where
  "format_batch_injection rs =
     join newline
       [''[Sub-Agent Results]'',
        show_nat (length rs) @ '' sub-agent task(s) settled; all their results are below.'',
        [], join (newline @ newline) (map result_section rs), [], ''---'',
        ''You may continue processing, spawn new tasks, or compose a final response for the user.'']"

definition run_parent :: "(nat \<Rightarrow> parent_turn) \<Rightarrow> result_payload list \<Rightarrow> (delivery, string option) proc" where
  "run_parent turns items s =
     (let turn = turns (dl_turns s);
          t = parent_acts (pt_activity turn)
                (s\<lparr>dl_turns := Suc (dl_turns s), dl_inputs := dl_inputs s @ [format_batch_injection items]\<rparr>)
      in case pt_result turn of
           Inl e \<Rightarrow> (Inl e, t)
         | Inr output \<Rightarrow> (Inr output, t\<lparr>dl_handed := dl_handed t @ items\<rparr>))"

section \<open>Delivery\<close>

definition max_results_per_wave :: nat where
  "max_results_per_wave = 20"

definition max_delivery_attempts :: nat where
  "max_delivery_attempts = 5"

fun drain_wave :: "nat \<Rightarrow> (delivery, queue_item list) proc" where
  "drain_wave 0 = proc_return []"
| "drain_wave (Suc n) =
     proc_bind (call lmove_out)
       (\<lambda>r. case r of None \<Rightarrow> proc_return []
             | Some raw \<Rightarrow> proc_bind (drain_wave n) (\<lambda>batch. proc_return (raw # batch)))"

text \<open>Unparseable entries are dropped, the others are kept in order.\<close>

fun parse_batch :: "queue_item list \<Rightarrow> (delivery, result_payload list) proc" where
  "parse_batch [] = proc_return []"
| "parse_batch (Payload p # xs) = proc_bind (parse_batch xs) (\<lambda>ps. proc_return (p # ps))"
| "parse_batch (Unparseable u # xs) = proc_then (call (lrem_drop (Unparseable u))) (parse_batch xs)"

definition give_back :: "result_payload \<Rightarrow> (delivery, unit) proc" where
  "give_back p = proc_then (call (lpush_queue (Payload p))) (call (lrem_processing (Payload p)))"

definition attempts_of :: "result_payload \<Rightarrow> nat" where
  "attempts_of p = (case pl_deliveryAttempts p of None \<Rightarrow> 0 | Some n \<Rightarrow> n)"

definition handle_delivery_error :: "result_payload \<Rightarrow> (delivery, unit) proc" where
  "handle_delivery_error p =
     proc_catch
       (if max_delivery_attempts \<le> attempts_of p + 1 then call (lrem_drop (Payload p))
        else proc_then (call (lpush_processing (Payload (p\<lparr>pl_deliveryAttempts := Some (attempts_of p + 1)\<rparr>))))
               (call (lrem_processing (Payload p))))
       (\<lambda>_. proc_return ())"

text \<open>One reinvocation of the parent with the whole wave; \<open>True\<close> asks for the next wave.\<close>

definition reinvoke_parent ::
  "delivery_env \<Rightarrow> (nat \<Rightarrow> parent_turn) \<Rightarrow> string \<Rightarrow> result_payload list \<Rightarrow> (delivery, bool) proc" where
  "reinvoke_parent env turns sid items =
     proc_bind (proc_lift (case find_session sid (de_sessions env) of
                             None \<Rightarrow> Inl (not_found_error ''Session'' sid) | Some s \<Rightarrow> Inr s)) (\<lambda>_.
     proc_bind (run_parent turns items) (\<lambda>output.
     proc_then (if falsy output then proc_return () else call (publish_response sid (the output)))
       (proc_then (proc_each (\<lambda>p. call (lrem_processing (Payload p))) items)
          (proc_return True))))"

definition skip_wave :: "result_payload list \<Rightarrow> (delivery, bool) proc" where
  "skip_wave items =
     proc_then (proc_each (\<lambda>p. call (lrem_drop (Payload p))) items)
       (proc_then (call cmd_decr) (proc_return True))"

definition dispatch_wave :: "delivery_env \<Rightarrow> (nat \<Rightarrow> parent_turn) \<Rightarrow> result_payload list \<Rightarrow> (delivery, bool) proc" where
  "dispatch_wave env turns items =
     proc_bind (proc_lift (find_run (pl_parentAgentRunId (hd items)) (de_runs env))) (\<lambda>parentRun.
       if falsy (ag_sessionId parentRun) then skip_wave items
       else reinvoke_parent env turns (the (ag_sessionId parentRun)) items)"

definition attempt_wave ::
  "delivery_env \<Rightarrow> nat \<Rightarrow> (nat \<Rightarrow> parent_turn) \<Rightarrow> result_payload list \<Rightarrow> int \<Rightarrow> (delivery, bool) proc" where
  "attempt_wave env maxReinvocations turns items n =
     (if n > int maxReinvocations then
        proc_then (call cmd_decr) (proc_then (proc_each give_back items) (proc_return False))
      else
        proc_catch (dispatch_wave env turns items)
          (\<lambda>_. proc_then (call cmd_decr)
                  (proc_then (proc_each handle_delivery_error items) (proc_return False))))"

definition wave_of_items ::
  "delivery_env \<Rightarrow> nat \<Rightarrow> (nat \<Rightarrow> parent_turn) \<Rightarrow> result_payload list \<Rightarrow> (delivery, bool) proc" where
  "wave_of_items env maxReinvocations turns items =
     (if items = [] then proc_return True
      else
        proc_bind (call cmd_incr) (\<lambda>count.
        proc_then (if count = 1 then call expire_count else proc_return ())
          (attempt_wave env maxReinvocations turns items count)))"

definition deliver_wave :: "delivery_env \<Rightarrow> nat \<Rightarrow> (nat \<Rightarrow> parent_turn) \<Rightarrow> (delivery, bool) proc" where
  "deliver_wave env maxReinvocations turns =
     proc_bind (drain_wave max_results_per_wave) (\<lambda>batch.
       if batch = [] then proc_return False
       else proc_bind (parse_batch batch) (wave_of_items env maxReinvocations turns))"

section \<open>Frames of the commands\<close>

text \<open>A change the command makes and the fates do not touch.\<close>

lemma call_outcomes:
  "\<exists>fs. call f s = (Inr (fst (f (s\<lparr>dl_fates := fs\<rparr>))), snd (f (s\<lparr>dl_fates := fs\<rparr>))) \<or>
        call f s = (Inl redis_error, s\<lparr>dl_fates := fs\<rparr>) \<or>
        call f s = (Inl redis_error, snd (f (s\<lparr>dl_fates := fs\<rparr>)))"
proof (cases "dl_fates s")
  case Nil
  then have "call f s = (Inr (fst (f s)), snd (f s))" by (simp add: call_def split_beta)
  moreover from Nil have "s = s\<lparr>dl_fates := []\<rparr>" by simp
  ultimately show ?thesis by metis
next
  case (Cons fate fs)
  then show ?thesis by (intro exI [of _ fs], cases fate) (simp_all add: call_def split_beta)
qed

lemma obeys_call:
  assumes "\<And>s. R s (snd (f s))" and "\<And>s t fs. R (s\<lparr>dl_fates := fs\<rparr>) t \<Longrightarrow> R s t"
    and "\<And>s fs. R s (s\<lparr>dl_fates := fs\<rparr>)"
  shows "obeys R (call f)"
  unfolding obeys_def
proof
  fix s
  obtain fs where fs: "call f s = (Inr (fst (f (s\<lparr>dl_fates := fs\<rparr>))), snd (f (s\<lparr>dl_fates := fs\<rparr>))) \<or>
      call f s = (Inl redis_error, s\<lparr>dl_fates := fs\<rparr>) \<or>
      call f s = (Inl redis_error, snd (f (s\<lparr>dl_fates := fs\<rparr>)))"
    using call_outcomes by blast
  have "R s (snd (f (s\<lparr>dl_fates := fs\<rparr>)))" by (rule assms(2)) (rule assms(1))
  with fs assms(3) show "R s (snd (call f s))" by auto
qed

lemma keeps_call:
  assumes "\<And>s. X (snd (f s)) = X s" and "\<And>s fs. X (s\<lparr>dl_fates := fs\<rparr>) = X s"
  shows "keeps X (call f)"
  using assms by (intro obeys_call) simp_all

lemma triple_call:
  assumes "\<And>s. P s \<Longrightarrow> Q (fst (f s)) (snd (f s))" and "\<And>s. P s \<Longrightarrow> E redis_error s"
    and "\<And>s. P s \<Longrightarrow> E redis_error (snd (f s))" and "\<And>s fs. P (s\<lparr>dl_fates := fs\<rparr>) = P s"
  shows "triple P (call f) Q E"
proof (rule tripleI)
  fix s assume P: "P s"
  then have P': "P (s\<lparr>dl_fates := fs\<rparr>)" for fs by (simp add: assms(4))
  from call_outcomes [of f s] show "outcome_in Q E (call f s)"
    using assms(1-3) [OF P'] by auto
qed

lemmas command_defs = expire_list_def expire_count_def lpush_queue_def lpush_processing_def lmove_out_def lmove_back_def
  lrem_processing_def lrem_drop_def take_queue_def take_processing_def cmd_incr_def cmd_decr_def
  publish_wakeup_def publish_response_def set_nx_def release_fenced_lock_def

lemma consume_entries_obeys:
  assumes "evolution R" and "\<And>p. obeys R (call (grab p))"
  shows "R s (snd (consume_entries grab ids xs got s))"
  using assms(2)
proof (induction grab ids xs got s rule: consume_entries.induct)
  case (1 grab ids got s)
  with assms(1) show ?case by (simp add: evolution.stay)
next
  case (2 grab ids u xs got s)
  then show ?case by simp
next
  case (3 grab ids p xs got s)
  obtain r t where c: "call (grab p) s = (r, t)" by (cases "call (grab p) s")
  with 3(3) have step: "R s t" by (metis obeys_outcome)
  show ?case
  proof (cases "pl_agentRunId p \<in> set ids")
    case True
    note rest = 3(1) [OF True c [symmetric] 3(3)]
    from True have "consume_entries grab ids (Payload p # xs) got s =
        consume_entries grab ids xs (if r = Inr True then upd_assoc (pl_agentRunId p) p got else got) t"
      by (simp add: c)
    then show ?thesis using evolution.chain [OF assms(1) step rest] by presburger
  next
    case False
    with 3(2) [OF False 3(3)] show ?thesis by simp
  qed
qed

lemma consume_queued_obeys:
  assumes "evolution R" and "\<And>p. obeys R (call (take_queue p))" and "\<And>p. obeys R (call (take_processing p))"
    and "\<And>s t fs. R (s\<lparr>dl_fates := fs\<rparr>) t \<Longrightarrow> R s t" and "\<And>s fs. R s (s\<lparr>dl_fates := fs\<rparr>)"
  shows "obeys R (consume_queued_results ids)"
proof -
  have read: "obeys R (call (\<lambda>s. (X s, s)))" for X :: "delivery \<Rightarrow> queue_item list"
    by (rule obeys_call) (unfold snd_conv, rule evolution.stay [OF assms(1)], erule assms(4), rule assms(5))
  have pass: "obeys R (\<lambda>s. case consume_entries grab ids raws got s of (got, t) \<Rightarrow> (Inr got, t))"
    if "\<And>p. obeys R (call (grab p))" for grab raws and got :: "(string \<times> result_payload) list"
    unfolding obeys_def
    using consume_entries_obeys [OF assms(1) that] by (auto simp: split_beta)
  show ?thesis
    unfolding consume_queued_results_def
    by (intro evolution.obeys_bind [OF assms(1)] read pass assms(2,3))
qed

lemma enqueue_obeys:
  assumes "evolution R" and "\<And>p s. R s (snd (lpush_queue (Payload p) s))" and "\<And>s. R s (snd (publish_wakeup s))"
    and "\<And>p s. R s (s\<lparr>dl_deadLetters := dl_deadLetters s @ [p]\<rparr>)"
    and "\<And>s t fs. R (s\<lparr>dl_fates := fs\<rparr>) t \<Longrightarrow> R s t" and "\<And>s fs. R s (s\<lparr>dl_fates := fs\<rparr>)"
  shows "obeys R (enqueue_outcome p)"
proof -
  note ev = evolution.obeys_rules [OF assms(1)]
  have one: "obeys R (call (lpush_queue (Payload p)))"
    by (rule obeys_call) (rule assms(2), erule assms(5), rule assms(6))
  have push: "obeys R (push_attempts n p)" for n
  proof (induction n)
    case 0
    show ?case unfolding push_attempts.simps by (rule ev)
  next
    case (Suc n)
    show ?case unfolding push_attempts.simps by (intro ev one Suc)
  qed
  have ign: "obeys R (call expire_list)"
    by (rule obeys_call) (unfold expire_list_def snd_conv, rule evolution.stay [OF assms(1)], erule assms(5), rule assms(6))
  have wake: "obeys R (call publish_wakeup)"
    by (rule obeys_call) (rule assms(3), erule assms(5), rule assms(6))
  show ?thesis
    unfolding enqueue_outcome_def
    by (intro ev push ign wake) (simp add: obeys_def proc_modify_def assms(4))
qed

text \<open>What a parent run does is a sequence of enqueued outcomes and consumed results.\<close>

lemma parent_acts_obeys:
  assumes "evolution R" and "\<And>p. obeys R (enqueue_outcome p)" and "\<And>ids. obeys R (consume_queued_results ids)"
    and "\<And>token s. R s (s\<lparr>dl_lock := token\<rparr>)" and "\<And>s. R s (lapse s)"
  shows "R s (parent_acts acts s)"
proof (induction acts s rule: parent_acts.induct)
  case (1 s)
  then show ?case using assms(1) by (simp add: evolution.stay)
next
  case (2 p acts s)
  show ?case using evolution.chain [OF assms(1) obeysD [OF assms(2)] 2] by simp
next
  case (3 ids acts s)
  show ?case using evolution.chain [OF assms(1) obeysD [OF assms(3)] 3] by simp
next
  case (4 token acts s)
  show ?case using evolution.chain [OF assms(1) assms(4) 4] by simp
next
  case (5 acts s)
  show ?case using evolution.chain [OF assms(1) assms(5) 5] by simp
qed

section \<open>The counter and termination\<close>

text \<open>The room the counter leaves under the cap: now, and after each hour that is still to come.\<close>

definition room_of :: "nat \<Rightarrow> nat \<Rightarrow> int \<Rightarrow> nat" where
  "room_of cap h c = nat (int cap - c) + h * Suc cap"

definition room :: "nat \<Rightarrow> delivery \<Rightarrow> nat" where
  "room cap s = room_of cap (dl_hours s) (dl_count s)"

lemma lapse_room: "room cap (lapse s) \<le> room cap s"
proof (cases "dl_hours s")
  case (Suc h)
  then show ?thesis by (simp add: lapse_def room_def room_of_def)
qed (simp add: lapse_def)

lemma room_frame [simp]:
  "room cap (s\<lparr>dl_fates := fs\<rparr>) = room cap s"
  "room cap (s\<lparr>dl_lock := l\<rparr>) = room cap s"
  "room cap (s\<lparr>dl_turns := n\<rparr>) = room cap s"
  "room cap (s\<lparr>dl_inputs := is\<rparr>) = room cap s"
  "room cap (s\<lparr>dl_handed := ps\<rparr>) = room cap s"
  "room cap (s\<lparr>dl_processing := xs\<rparr>) = room cap s"
  "room cap (s\<lparr>dl_queue := xs\<rparr>) = room cap s"
  "room cap (s\<lparr>dl_ttl := b\<rparr>) = room cap s"
  "room cap (s\<lparr>dl_wakeups := n\<rparr>) = room cap s"
  "room cap (s\<lparr>dl_responses := rs\<rparr>) = room cap s"
  "room cap (s\<lparr>dl_consumed := ps\<rparr>) = room cap s"
  "room cap (s\<lparr>dl_dropped := xs\<rparr>) = room cap s"
  "room cap (s\<lparr>dl_deadLetters := ps\<rparr>) = room cap s"
  by (simp_all add: room_def)

lemma room_acts: "room cap (parent_acts acts s) \<le> room cap s"
proof -
  have ev: "evolution (\<lambda>s t. room cap t \<le> room cap s)" by unfold_locales simp_all
  show ?thesis
    by (rule parent_acts_obeys [OF ev enqueue_obeys [OF ev] consume_queued_obeys [OF ev]])
      (auto intro!: obeys_call lapse_room simp: command_defs)
qed

definition at_count :: "nat \<Rightarrow> int \<Rightarrow> nat \<Rightarrow> delivery \<Rightarrow> bool" where
  "at_count h c q s \<longleftrightarrow> dl_hours s = h \<and> dl_count s = c \<and> length (dl_queue s) = q"

lemma at_count_fates [simp]: "at_count h c q (s\<lparr>dl_fates := fs\<rparr>) = at_count h c q s"
  by (simp add: at_count_def)

lemma drain_count:
  "triple (at_count h c q) (drain_wave n) (\<lambda>batch s. at_count h c (q - length batch) s \<and> length batch \<le> q) (\<lambda>_ _. True)"
proof (induction n arbitrary: q)
  case 0
  show ?case by (auto intro!: triple_return)
next
  case (Suc n)
  show ?case
    unfolding drain_wave.simps
  proof (rule triple_bind)
    show "triple (at_count h c q) (call lmove_out)
        (\<lambda>r s. case r of None \<Rightarrow> at_count h c q s | Some _ \<Rightarrow> at_count h c (q - 1) s \<and> 0 < q) (\<lambda>_ _. True)"
      by (rule triple_call) (auto simp: lmove_out_def at_count_def)
    fix r
    show "triple (\<lambda>s. case r of None \<Rightarrow> at_count h c q s | Some _ \<Rightarrow> at_count h c (q - 1) s \<and> 0 < q)
        (case r of None \<Rightarrow> proc_return [] | Some raw \<Rightarrow> proc_bind (drain_wave n) (\<lambda>batch. proc_return (raw # batch)))
        (\<lambda>batch s. at_count h c (q - length batch) s \<and> length batch \<le> q) (\<lambda>_ _. True)"
    proof (cases r)
      case None
      then show ?thesis by (auto intro!: triple_return)
    next
      case (Some raw)
      have "triple (\<lambda>s. at_count h c (q - 1) s \<and> 0 < q) (drain_wave n)
          (\<lambda>batch s. at_count h c (q - 1 - length batch) s \<and> length batch \<le> q - 1 \<and> 0 < q) (\<lambda>_ _. True)"
        using Suc.IH [of "q - 1"] by (auto simp: triple_def outcome_in_def split: sum.splits)
      with Some show ?thesis
        by simp (erule triple_bind, rule triple_return, auto)
    qed
  qed
qed

lemma parse_count: "preserves (at_count h c q) (parse_batch batch)"
  by (induction batch rule: parse_batch.induct)
    (auto intro!: preserves_rules triple_call triple_return simp: command_defs at_count_def)

lemma triple_const: "triple (\<lambda>s. b \<and> P s) f Q E = (b \<longrightarrow> triple P f Q E)"
  by (auto simp: triple_def)

lemma triple_True: "triple P f (\<lambda>_ _. True) (\<lambda>_ _. True)"
  by (auto simp: triple_def outcome_in_def split: sum.splits)

lemma run_parent_room: "preserves (\<lambda>s. room cap s \<le> r) (run_parent turns items)"
proof (rule tripleI)
  fix s assume "room cap s \<le> r"
  with room_acts [of cap "pt_activity (turns (dl_turns s))"
      "s\<lparr>dl_turns := Suc (dl_turns s), dl_inputs := dl_inputs s @ [format_batch_injection items]\<rparr>"]
  show "outcome_in (\<lambda>_ s. room cap s \<le> r) (\<lambda>_ s. room cap s \<le> r) (run_parent turns items s)"
    by (auto simp: run_parent_def Let_def split: sum.split)
qed

lemma triple_keep:
  "keeps X f \<Longrightarrow> (\<And>s t. X t = X s \<Longrightarrow> P s \<Longrightarrow> P t) \<Longrightarrow> triple P f (\<lambda>_. P) (\<lambda>_. P)"
  by (auto simp: obeys_def triple_def outcome_in_def split: sum.splits)

lemma triple_any_error: "triple P f Q E \<Longrightarrow> triple P f Q (\<lambda>_ _. True)"
  by (auto simp: triple_def outcome_in_def split: sum.splits)

lemma skip_count:
  "triple (at_count h c q) (skip_wave items) (\<lambda>_. at_count h (c - 1) q) (\<lambda>_ _. True)"
  unfolding skip_wave_def
proof (rule triple_then)
  show "triple (at_count h c q) (proc_each (\<lambda>p. call (lrem_drop (Payload p))) items) (\<lambda>_. at_count h c q) (\<lambda>_ _. True)"
    by (rule triple_each, rule triple_call) (auto simp: command_defs at_count_def)
  show "triple (at_count h c q) (proc_then (call cmd_decr) (proc_return True)) (\<lambda>_. at_count h (c - 1) q) (\<lambda>_ _. True)"
    by (rule triple_then [of _ _ "at_count h (c - 1) q"], rule triple_call)
      (auto simp: command_defs at_count_def intro: triple_return)
qed

lemma reinvoke_room: "preserves (\<lambda>s. room cap s \<le> r) (reinvoke_parent env turns sid items)"
proof -
  have rem: "keeps (room cap) (call (lrem_processing (Payload p)))" for p
    by (rule keeps_call) (auto simp: command_defs room_def)
  have resp: "keeps (room cap) (call (publish_response sid out))" for out
    by (rule keeps_call) (auto simp: command_defs room_def)
  show ?thesis
    unfolding reinvoke_parent_def
    by (intro preserves_rules triple_lift run_parent_room triple_keep [OF rem] triple_keep [OF resp] triple_return) simp_all
qed

lemma dispatch_count:
  "triple (at_count h c q) (dispatch_wave env turns items)
     (\<lambda>b s. at_count h (c - 1) q s \<or> room cap s \<le> room_of cap h c) (\<lambda>_ _. True)"
  unfolding dispatch_wave_def
proof (rule triple_bind)
  let ?Q = "\<lambda>b s. at_count h (c - 1) q s \<or> room cap s \<le> room_of cap h c"
  show "triple (at_count h c q) (proc_lift (find_run (pl_parentAgentRunId (hd items)) (de_runs env)))
      (\<lambda>_. at_count h c q) (\<lambda>_ _. True)"
    by (rule triple_lift) simp_all
  fix r
  have a: "triple (at_count h c q) (skip_wave items) ?Q (\<lambda>_ _. True)"
    by (rule triple_weaken [OF skip_count]) auto
  have b: "triple (at_count h c q) (reinvoke_parent env turns sid items) ?Q (\<lambda>_ _. True)" for sid
    by (rule triple_weaken [OF reinvoke_room [of cap "room_of cap h c"]]) (auto simp: at_count_def room_def)
  show "triple (at_count h c q)
      (if falsy (ag_sessionId r) then skip_wave items else reinvoke_parent env turns (the (ag_sessionId r)) items)
      ?Q (\<lambda>_ _. True)"
    by (simp add: a b)
qed

text \<open>What asks for another wave: fewer results are queued, or there is less room.\<close>

definition progressed :: "nat \<Rightarrow> nat \<Rightarrow> int \<Rightarrow> nat \<Rightarrow> bool \<Rightarrow> delivery \<Rightarrow> bool" where
  "progressed cap h c q b s \<longleftrightarrow>
     (b \<longrightarrow> room cap s = room_of cap h c \<and> length (dl_queue s) < q \<or> room cap s < room_of cap h c)"

lemma giving_up: "triple P (proc_then f (proc_then g (proc_return False))) (progressed cap h c q) (\<lambda>_ _. True)"
  by (intro triple_then [OF triple_True] triple_return) (simp add: progressed_def)

lemma attempt_progress:
  assumes "q' < q"
  shows "triple (at_count h (c + 1) q') (attempt_wave env cap turns items (c + 1)) (progressed cap h c q) (\<lambda>_ _. True)"
proof (cases "c + 1 > int cap")
  case True
  then show ?thesis by (simp add: attempt_wave_def giving_up)
next
  case False
  have "triple (at_count h (c + 1) q') (dispatch_wave env turns items) (progressed cap h c q) (\<lambda>_ _. True)"
    by (rule triple_weaken [OF dispatch_count [where cap = cap]])
      (use False assms in \<open>auto simp: progressed_def at_count_def room_def room_of_def\<close>)
  with False show ?thesis
    unfolding attempt_wave_def by (simp add: triple_catch giving_up)
qed

lemma items_progress:
  assumes "q' < q"
  shows "triple (at_count h c q') (wave_of_items env cap turns items) (progressed cap h c q) (\<lambda>_ _. True)"
proof (cases "items = []")
  case True
  with assms show ?thesis
    by (auto simp: wave_of_items_def progressed_def at_count_def room_def intro!: triple_return)
next
  case False
  have incr: "triple (at_count h c q') (call cmd_incr) (\<lambda>count s. count = c + 1 \<and> at_count h (c + 1) q' s) (\<lambda>_ _. True)"
    by (rule triple_call) (auto simp: command_defs at_count_def)
  have expire: "triple (at_count h (c + 1) q') (if b then call expire_count else proc_return ())
      (\<lambda>_. at_count h (c + 1) q') (\<lambda>_ _. True)" for b
    by (cases b) (auto intro!: triple_call triple_return simp: command_defs at_count_def)
  show ?thesis
    unfolding wave_of_items_def if_not_P [OF False]
  proof (rule triple_bind [OF incr])
    fix count
    show "triple (\<lambda>s. count = c + 1 \<and> at_count h (c + 1) q' s)
        (proc_then (if count = 1 then call expire_count else proc_return ()) (attempt_wave env cap turns items count))
        (progressed cap h c q) (\<lambda>_ _. True)"
      unfolding triple_const
      by (intro impI, hypsubst) (rule triple_then [OF expire attempt_progress [OF assms]])
  qed
qed

lemma wave_progress:
  "triple (at_count h c q) (deliver_wave env cap turns) (progressed cap h c q) (\<lambda>_ _. True)"
  unfolding deliver_wave_def
proof (rule triple_bind [OF drain_count])
  fix batch :: "queue_item list"
  let ?q = "q - length batch"
  show "triple (\<lambda>s. at_count h c ?q s \<and> length batch \<le> q)
      (if batch = [] then proc_return False else proc_bind (parse_batch batch) (wave_of_items env cap turns))
      (progressed cap h c q) (\<lambda>_ _. True)"
  proof (cases "batch = [] \<or> q < length batch")
    case True
    then show ?thesis by (auto simp: triple_def proc_return_def progressed_def)
  next
    case False
    then have less: "?q < q" by (cases batch) auto
    have parse: "triple (\<lambda>s. at_count h c ?q s \<and> length batch \<le> q) (parse_batch batch) (\<lambda>_. at_count h c ?q) (\<lambda>_ _. True)"
      using parse_count [of h c ?q batch] by (rule triple_weaken) auto
    from False have ne: "batch \<noteq> []" by simp
    show ?thesis
      unfolding if_not_P [OF ne] by (rule triple_bind [OF parse items_progress [OF less]])
  qed
qed

lemma wave_decreases:
  assumes "deliver_wave env cap turns s = (Inr True, t)"
  shows "(t, s) \<in> measures [room cap, \<lambda>s. length (dl_queue s)]"
proof -
  have "at_count (dl_hours s) (dl_count s) (length (dl_queue s)) s" by (simp add: at_count_def)
  from triple_Inr [OF wave_progress this assms]
  show ?thesis by (auto simp: progressed_def room_def)
qed

text \<open>The waves of one delivery: the loop ends, for every fate of the commands and every parent.\<close>

function deliver_results :: "delivery_env \<Rightarrow> nat \<Rightarrow> (nat \<Rightarrow> parent_turn) \<Rightarrow> (delivery, unit) proc" where
  "deliver_results env cap turns s =
     (case deliver_wave env cap turns s of
        (Inl e, t) \<Rightarrow> (Inl e, t)
      | (Inr again, t) \<Rightarrow> if again then deliver_results env cap turns t else (Inr (), t))"
  by pat_completeness auto
termination
proof (relation "measures [\<lambda>(env, cap, turns, s). room cap s, \<lambda>(env, cap, turns, s). length (dl_queue s)]",
    goal_cases)
  case 1
  show ?case by simp
next
  case (2 env cap turns s r t again)
  then have "deliver_wave env cap turns s = (Inr True, t)" by simp
  from wave_decreases [OF this] show ?case by simp
qed

declare deliver_results.simps [simp del]

section \<open>A delivery under its lock\<close>

definition deliver_locked :: "delivery_env \<Rightarrow> nat \<Rightarrow> (nat \<Rightarrow> parent_turn) \<Rightarrow> (delivery, unit) proc" where
  "deliver_locked env cap turns =
     proc_then (deliver_results env cap turns)
       (proc_bind (call (\<lambda>s. (length (dl_queue s), s)))
          (\<lambda>remaining. if 0 < remaining then deliver_results env cap turns else proc_return ()))"

definition try_deliver_results ::
  "delivery_env \<Rightarrow> nat \<Rightarrow> (nat \<Rightarrow> parent_turn) \<Rightarrow> string \<Rightarrow> string \<Rightarrow> (delivery, unit) proc" where
  "try_deliver_results env cap turns sid token =
     (if find_active_primary_run sid (de_runs env) \<noteq> None then proc_return ()
      else
        proc_bind (call (set_nx token))
          (\<lambda>acquired.
             if \<not> acquired then proc_return ()
             else proc_finally (deliver_locked env cap turns)
                    (proc_then (call (release_fenced_lock token)) (proc_return ()))))"

section \<open>The sweep\<close>

text \<open>Moving everything back; the count of moved items.\<close>

lemma lmove_back_shrinks:
  assumes "call lmove_back s = (Inr (Some x), t)"
  shows "length (dl_processing t) < length (dl_processing s)"
  using assms
  by (auto simp: call_def lmove_back_def split: list.splits fate.splits if_splits)

function requeue_loop :: "(delivery, nat) proc" where
  "requeue_loop s =
     (case call lmove_back s of
        (Inl e, t) \<Rightarrow> (Inl e, t)
      | (Inr None, t) \<Rightarrow> (Inr 0, t)
      | (Inr (Some x), t) \<Rightarrow>
          (case requeue_loop t of (Inl e, u) \<Rightarrow> (Inl e, u) | (Inr n, u) \<Rightarrow> (Inr (Suc n), u)))"
  by pat_completeness auto
termination
  by (relation "measure (\<lambda>s. length (dl_processing s))") (auto dest: lmove_back_shrinks [OF sym])

declare requeue_loop.simps [simp del]

definition requeue_session :: "bool \<Rightarrow> (delivery, unit) proc" where
  "requeue_session skipLocked =
     proc_bind (if skipLocked then call (\<lambda>s. (dl_lock s \<noteq> None, s)) else proc_return False)
       (\<lambda>locked.
          if locked then proc_return ()
          else proc_bind requeue_loop
                 (\<lambda>moved. if moved = 0 then proc_return () else call publish_wakeup))"

text \<open>
  One pass over the sessions whose processing lists the scan found; the first failure ends the pass,
  and is swallowed.
\<close>

fun requeue_processing_lists :: "bool \<Rightarrow> string list \<Rightarrow> (string \<Rightarrow> delivery) \<Rightarrow> string \<Rightarrow> delivery" where
  "requeue_processing_lists skipLocked [] bus = bus"
| "requeue_processing_lists skipLocked (sid # sids) bus =
     (case requeue_session skipLocked (bus sid) of
        (Inl e, t) \<Rightarrow> bus(sid := t)
      | (Inr _, t) \<Rightarrow> requeue_processing_lists skipLocked sids (bus(sid := t)))"

section \<open>What a delivery may change\<close>

text \<open>The contract of a kind of change that taking results out of the queue makes, and below of one that
  a whole delivery makes if the treatment of single results and the reinvocation do.\<close>

locale delivery_moves = evolution R for R :: "delivery \<Rightarrow> delivery \<Rightarrow> bool" +
  assumes fates_before: "R (s\<lparr>dl_fates := fs\<rparr>) t \<Longrightarrow> R s t"
    and fates_after: "R s (s\<lparr>dl_fates := fs\<rparr>)"
    and moves_out: "R s (snd (lmove_out s))"
    and drops_garbage: "R s (snd (lrem_drop (Unparseable u) s))"
begin

lemma obeys_command: "(\<And>s. R s (snd (f s))) \<Longrightarrow> obeys R (call f)"
  by (rule obeys_call) (assumption, erule fates_before, rule fates_after)

lemma obeys_moves:
  "obeys R (call lmove_out)"
  "obeys R (call (lrem_drop (Unparseable u)))"
  "obeys R (call (\<lambda>s. (g s, s)))"
  by (rule obeys_command, simp add: command_defs stay moves_out [unfolded lmove_out_def]
        drops_garbage [unfolded lrem_drop_def snd_conv])+

lemma obeys_drain: "obeys R (drain_wave n)"
proof (induction n)
  case 0
  show ?case by (simp add: obeys_return)
next
  case (Suc n)
  have "obeys R (case r of None \<Rightarrow> proc_return []
      | Some raw \<Rightarrow> proc_bind (drain_wave n) (\<lambda>batch. proc_return (raw # batch)))" for r
    by (cases r) (auto intro: obeys_rules Suc)
  then show ?case
    unfolding drain_wave.simps by (intro obeys_bind obeys_moves)
qed

lemma obeys_parse: "obeys R (parse_batch batch)"
  by (induction batch rule: parse_batch.induct) (auto intro!: obeys_rules obeys_moves)

end

locale delivery_change = delivery_moves R for R :: "delivery \<Rightarrow> delivery \<Rightarrow> bool" +
  assumes counts: "R s (s\<lparr>dl_count := n\<rparr>)"
    and expires: "R s (s\<lparr>dl_ttl := b\<rparr>)"
    and locks: "R s (s\<lparr>dl_lock := l\<rparr>)"
begin

lemma obeys_commands:
  "obeys R (call cmd_incr)"
  "obeys R (call cmd_decr)"
  "obeys R (call expire_count)"
  "obeys R (call (set_nx token))"
  "obeys R (call (release_fenced_lock token))"
  by (rule obeys_command, simp add: command_defs stay counts expires locks)+

lemma obeys_wave:
  assumes "\<And>p. obeys R (give_back p)" and "\<And>p. obeys R (handle_delivery_error p)"
    and "\<And>items. obeys R (dispatch_wave env turns items)"
  shows "obeys R (deliver_wave env cap turns)"
proof -
  have "obeys R (attempt_wave env cap turns items n)" for items n
    unfolding attempt_wave_def by (intro obeys_rules obeys_commands obeys_moves assms)
  then have "obeys R (wave_of_items env cap turns items)" for items
    unfolding wave_of_items_def by (intro obeys_rules obeys_commands obeys_moves)
  then show ?thesis
    unfolding deliver_wave_def by (intro obeys_rules obeys_drain obeys_parse)
qed

lemma obeys_deliver:
  assumes "\<And>p. obeys R (give_back p)" and "\<And>p. obeys R (handle_delivery_error p)"
    and "\<And>items. obeys R (dispatch_wave env turns items)"
  shows "obeys R (deliver_results env cap turns)"
proof -
  note wave = obeys_wave [of env turns cap, OF assms]
  have "R s (snd (deliver_results env cap turns s))" for s
    using wave
  proof (induction env cap turns s rule: deliver_results.induct)
    case (1 env cap turns s)
    obtain r t where w: "deliver_wave env cap turns s = (r, t)" by (cases "deliver_wave env cap turns s")
    with 1(2) have step: "R s t" by (metis obeys_outcome)
    show ?case
    proof (cases r)
      case (Inl e)
      with w step show ?thesis by (simp add: deliver_results.simps [of env cap turns s])
    next
      case (Inr again)
      with w 1 step show ?thesis
        by (cases again) (auto simp: deliver_results.simps [of env cap turns s] intro: chain)
    qed
  qed
  then show ?thesis by (simp add: obeys_def)
qed

lemma obeys_try_deliver:
  assumes "\<And>p. obeys R (give_back p)" and "\<And>p. obeys R (handle_delivery_error p)"
    and "\<And>items. obeys R (dispatch_wave env turns items)"
  shows "obeys R (try_deliver_results env cap turns sid token)"
proof -
  have "obeys R (deliver_locked env cap turns)"
    unfolding deliver_locked_def by (intro obeys_rules obeys_moves obeys_deliver assms)
  then show ?thesis
    unfolding try_deliver_results_def by (intro obeys_rules obeys_commands)
qed

end

section \<open>No result disappears\<close>

fun item_ids :: "queue_item \<Rightarrow> string set" where
  "item_ids (Payload p) = {pl_agentRunId p}"
| "item_ids (Unparseable u) = {}"

definition payload_ids :: "queue_item list \<Rightarrow> string set" where
  "payload_ids xs = (\<Union>x \<in> set xs. item_ids x)"

text \<open>The runs whose outcome is waiting, was given to a parent, or was given up with a log line.\<close>

definition accounted :: "delivery \<Rightarrow> string set" where
  "accounted s =
     payload_ids (dl_queue s) \<union> payload_ids (dl_processing s) \<union> payload_ids (dl_dropped s) \<union>
     pl_agentRunId ` set (dl_handed s) \<union> pl_agentRunId ` set (dl_consumed s) \<union>
     pl_agentRunId ` set (dl_deadLetters s)"

definition accounts :: "delivery \<Rightarrow> delivery \<Rightarrow> bool" where
  "accounts s t \<longleftrightarrow> accounted s \<subseteq> accounted t"

lemma payload_ids_simps [simp]:
  "payload_ids [] = {}"
  "payload_ids (x # xs) = item_ids x \<union> payload_ids xs"
  "payload_ids (xs @ ys) = payload_ids xs \<union> payload_ids ys"
  by (auto simp: payload_ids_def)

lemma payload_ids_butlast: "xs \<noteq> [] \<Longrightarrow> payload_ids xs = payload_ids (butlast xs) \<union> item_ids (last xs)"
  using payload_ids_simps(3) [of "butlast xs" "[last xs]"] by simp

lemma payload_ids_remove1: "payload_ids xs \<subseteq> payload_ids (remove1 x xs) \<union> item_ids x"
  by (induction xs) auto

lemma accounted_frame [simp]:
  "accounted (s\<lparr>dl_fates := fs\<rparr>) = accounted s"
  "accounted (s\<lparr>dl_count := n\<rparr>) = accounted s"
  "accounted (s\<lparr>dl_ttl := b\<rparr>) = accounted s"
  "accounted (s\<lparr>dl_lock := l\<rparr>) = accounted s"
  by (simp_all add: accounted_def)

interpretation accounting: delivery_change accounts
proof
  fix s u
  show "accounts s (snd (lmove_out s))"
    by (auto simp: accounts_def lmove_out_def accounted_def payload_ids_butlast)
  show "accounts s (snd (lrem_drop (Unparseable u) s))"
    using payload_ids_remove1 [of "dl_processing s" "Unparseable u"]
    by (auto simp: accounts_def lrem_drop_def accounted_def)
qed (auto simp: accounts_def)

lemma accounts_call: "(\<And>s. accounted s \<subseteq> accounted (snd (f s))) \<Longrightarrow> obeys accounts (call f)"
  by (rule obeys_call) (simp_all add: accounts_def)

lemma accounts_commands:
  "obeys accounts (call expire_list)"
  "obeys accounts (call (lpush_queue x))"
  "obeys accounts (call (lpush_processing x))"
  "obeys accounts (call lmove_out)"
  "obeys accounts (call lmove_back)"
  "obeys accounts (call (lrem_drop x))"
  "obeys accounts (call (take_queue p))"
  "obeys accounts (call (take_processing p))"
  "obeys accounts (call cmd_incr)"
  "obeys accounts (call cmd_decr)"
  "obeys accounts (call publish_wakeup)"
  "obeys accounts (call (publish_response sid out))"
  "obeys accounts (call (set_nx token))"
  "obeys accounts (call (release_fenced_lock token))"
  "obeys accounts (call (\<lambda>s. (g s, s)))"
proof -
  show "obeys accounts (call lmove_out)"
    by (rule accounts_call) (auto simp: lmove_out_def accounted_def payload_ids_butlast)
  show "obeys accounts (call lmove_back)"
    by (rule accounts_call) (auto simp: lmove_back_def accounted_def payload_ids_butlast)
  show "obeys accounts (call (lrem_drop x))"
  proof (rule accounts_call)
    fix s
    show "accounted s \<subseteq> accounted (snd (lrem_drop x s))"
      using payload_ids_remove1 [of "dl_processing s" x] by (auto simp: lrem_drop_def accounted_def)
  qed
  show "obeys accounts (call (take_queue p))"
  proof (rule accounts_call)
    fix s
    show "accounted s \<subseteq> accounted (snd (take_queue p s))"
      using payload_ids_remove1 [of "dl_queue s" "Payload p"] by (auto simp: take_queue_def accounted_def)
  qed
  show "obeys accounts (call (take_processing p))"
  proof (rule accounts_call)
    fix s
    show "accounted s \<subseteq> accounted (snd (take_processing p s))"
      using payload_ids_remove1 [of "dl_processing s" "Payload p"] by (auto simp: take_processing_def accounted_def)
  qed
qed (rule accounts_call, auto simp: command_defs accounted_def)+

lemma accounts_enqueue: "obeys accounts (enqueue_outcome p)"
  by (rule enqueue_obeys [OF accounting.evolution_axioms]) (auto simp: accounts_def command_defs accounted_def)

lemma accounts_consume: "obeys accounts (consume_queued_results ids)"
  by (rule consume_queued_obeys [OF accounting.evolution_axioms]) (auto simp: accounts_commands accounts_def)

lemma accounts_acts: "accounts s (parent_acts acts s)"
  by (rule parent_acts_obeys [OF accounting.evolution_axioms accounts_enqueue accounts_consume])
    (simp_all add: accounts_def lapse_def, simp_all add: accounted_def)

text \<open>Removing an item is safe while its run is accounted for elsewhere.\<close>

definition spared :: "string set \<Rightarrow> result_payload \<Rightarrow> delivery \<Rightarrow> bool" where
  "spared A p s \<longleftrightarrow> A \<subseteq> accounted s \<and>
     pl_agentRunId p \<in> accounted (s\<lparr>dl_processing := remove1 (Payload p) (dl_processing s)\<rparr>)"

lemma accounted_rem:
  "accounted s \<subseteq> insert (pl_agentRunId p) (accounted (s\<lparr>dl_processing := remove1 (Payload p) (dl_processing s)\<rparr>))"
  using payload_ids_remove1 [of "dl_processing s" "Payload p"] by (auto simp: accounted_def)

lemma rem_spared: "spared A p s \<Longrightarrow> A \<subseteq> accounted (snd (lrem_processing (Payload p) s))"
  using accounted_rem [of s p] by (auto simp: spared_def lrem_processing_def)

lemma accounts_rem: "triple (spared A p) (call (lrem_processing (Payload p))) (\<lambda>_ s. A \<subseteq> accounted s) (\<lambda>_ s. A \<subseteq> accounted s)"
proof (rule triple_call)
  fix s fs
  show "spared A p (s\<lparr>dl_fates := fs\<rparr>) = spared A p s" by (simp add: spared_def accounted_def)
qed (auto simp: rem_spared, auto simp: spared_def)

lemma accountsI: "(\<And>A. triple (\<lambda>s. A \<subseteq> accounted s) f (\<lambda>_ s. A \<subseteq> accounted s) (\<lambda>_ s. A \<subseteq> accounted s)) \<Longrightarrow> obeys accounts f"
  unfolding obeys_def accounts_def using triple_snd [of _ f] by blast

lemma accountsD: "obeys accounts f \<Longrightarrow> triple (\<lambda>s. A \<subseteq> accounted s) f (\<lambda>_ s. A \<subseteq> accounted s) (\<lambda>_ s. A \<subseteq> accounted s)"
  by (auto simp: obeys_def accounts_def triple_def outcome_in_def split: sum.splits)

lemma accounts_give_back: "obeys accounts (give_back p)"
proof (rule accountsI)
  fix A
  let ?A = "\<lambda>s. A \<subseteq> accounted s"
  have "triple ?A (call (lpush_queue (Payload p))) (\<lambda>_. spared A p) (\<lambda>_. ?A)"
    by (rule triple_call) (auto simp: lpush_queue_def spared_def accounted_def)
  then show "triple ?A (give_back p) (\<lambda>_. ?A) (\<lambda>_. ?A)"
    unfolding give_back_def by (rule triple_then [OF _ accounts_rem])
qed

lemma accounts_error: "obeys accounts (handle_delivery_error p)"
proof -
  let ?p = "p\<lparr>pl_deliveryAttempts := Some (attempts_of p + 1)\<rparr>"
  have "obeys accounts (proc_then (call (lpush_processing (Payload ?p))) (call (lrem_processing (Payload p))))"
  proof (rule accountsI)
    fix A
    let ?A = "\<lambda>s. A \<subseteq> accounted s"
    have ne: "?p \<noteq> p" by (cases p) (auto simp: attempts_of_def split: option.splits)
    have "triple ?A (call (lpush_processing (Payload ?p))) (\<lambda>_. spared A p) (\<lambda>_. ?A)"
      by (rule triple_call) (use ne in \<open>auto simp: lpush_processing_def spared_def accounted_def\<close>)
    then show "triple ?A (proc_then (call (lpush_processing (Payload ?p))) (call (lrem_processing (Payload p)))) (\<lambda>_. ?A) (\<lambda>_. ?A)"
      by (rule triple_then [OF _ accounts_rem])
  qed
  then show ?thesis
    unfolding handle_delivery_error_def
    by (intro accounting.obeys_catch accounting.obeys_if accounts_commands accounting.obeys_return)
qed

lemma accounts_reinvoke: "obeys accounts (reinvoke_parent env turns sid items)"
proof (rule accountsI)
  fix A
  let ?A = "\<lambda>s. A \<subseteq> accounted s"
  let ?H = "\<lambda>s. ?A s \<and> set items \<subseteq> set (dl_handed s)"
  have run: "triple ?A (run_parent turns items) (\<lambda>_. ?H) (\<lambda>_. ?A)"
  proof (rule tripleI)
    fix s assume "?A s"
    have "accounted (s\<lparr>dl_turns := Suc (dl_turns s), dl_inputs := dl_inputs s @ [format_batch_injection items]\<rparr>) = accounted s"
      by (simp add: accounted_def)
    then have "?A (parent_acts (pt_activity (turns (dl_turns s)))
        (s\<lparr>dl_turns := Suc (dl_turns s), dl_inputs := dl_inputs s @ [format_batch_injection items]\<rparr>))"
      using \<open>?A s\<close> accounts_acts unfolding accounts_def by (metis subset_trans)
    then show "outcome_in (\<lambda>_. ?H) (\<lambda>_. ?A) (run_parent turns items s)"
      by (auto simp: run_parent_def Let_def accounted_def split: sum.split)
  qed
  have resp: "triple ?H (if falsy out then proc_return () else call (publish_response sid (the out))) (\<lambda>_. ?H) (\<lambda>_. ?A)" for out
    by (auto intro!: triple_return triple_call simp: publish_response_def accounted_def)
  have rem: "triple ?H (proc_each (\<lambda>p. call (lrem_processing (Payload p))) items) (\<lambda>_. ?H) (\<lambda>_. ?A)"
  proof (rule triple_each)
    fix p assume p: "p \<in> set items"
    have "?A (snd (lrem_processing (Payload p) s))" if "?H s" for s
      by (rule rem_spared) (use that p in \<open>auto simp: spared_def accounted_def\<close>)
    then show "triple ?H (call (lrem_processing (Payload p))) (\<lambda>_. ?H) (\<lambda>_. ?A)"
      by (intro triple_call) (auto simp: lrem_processing_def)
  qed
  show "triple ?A (reinvoke_parent env turns sid items) (\<lambda>_. ?A) (\<lambda>_. ?A)"
    unfolding reinvoke_parent_def
    by (rule triple_bind [OF triple_lift], assumption, assumption)
      (rule triple_bind [OF run], rule triple_then [OF resp], rule triple_then [OF rem], rule triple_return, simp)
qed

lemma accounts_skip: "obeys accounts (skip_wave items)"
  unfolding skip_wave_def by (intro accounting.obeys_rules accounts_commands)

lemma accounts_dispatch: "obeys accounts (dispatch_wave env turns items)"
  unfolding dispatch_wave_def
  by (intro accounting.obeys_rules accounts_skip accounts_reinvoke)


end
