(* ===== verification/ResultProps.thy ===== *)
theory ResultProps
  imports ResultDelivery
begin

text \<open>
  What the delivery of sub-agent results guarantees beyond losing nothing: when a result is given up,
  how often a parent is reinvoked, in which order results arrive when nothing fails, what a publication
  leaves behind, and what the sweep does not see.
\<close>

section \<open>When a result is given up\<close>

text \<open>The parent run of a result is there, but belongs to no session.\<close>

definition sessionless_parent :: "delivery_env \<Rightarrow> result_payload \<Rightarrow> bool" where
  "sessionless_parent env p =
     (case find_run (pl_parentAgentRunId p) (de_runs env) of Inl e \<Rightarrow> False | Inr r \<Rightarrow> falsy (ag_sessionId r))"

definition gives_up_late :: "delivery_env \<Rightarrow> delivery \<Rightarrow> delivery \<Rightarrow> bool" where
  "gives_up_late env s t \<longleftrightarrow>
     set (dl_dropped s) \<subseteq> set (dl_dropped t) \<and>
     (\<forall>p. Payload p \<in> set (dl_dropped t) - set (dl_dropped s) \<longrightarrow>
        4 \<le> attempts_of p \<or> (\<exists>q. Payload q \<in> set (dl_dropped t) \<and> sessionless_parent env q))"

interpretation giving_up: delivery_change "gives_up_late env" for env
proof
  fix s t u
  assume "gives_up_late env s t" "gives_up_late env t u"
  then show "gives_up_late env s u" unfolding gives_up_late_def by (meson DiffD1 DiffD2 DiffI subset_eq)
qed (auto simp: gives_up_late_def command_defs)

lemma late_keeps: "keeps dl_dropped f \<Longrightarrow> obeys (gives_up_late env) f"
  by (simp add: obeys_def gives_up_late_def)

lemma dropped_commands:
  "keeps dl_dropped (call expire_list)"
  "keeps dl_dropped (call (lpush_queue x))"
  "keeps dl_dropped (call (lpush_processing x))"
  "keeps dl_dropped (call (lrem_processing x))"
  "keeps dl_dropped (call (take_queue p))"
  "keeps dl_dropped (call (take_processing p))"
  "keeps dl_dropped (call publish_wakeup)"
  "keeps dl_dropped (call (publish_response sid out))"
  by (rule keeps_call, auto simp: command_defs)+

lemma late_give_back: "obeys (gives_up_late env) (give_back p)"
  unfolding give_back_def by (intro late_keeps steady.obeys_rules dropped_commands)

lemma late_error: "obeys (gives_up_late env) (handle_delivery_error p)"
proof -
  have "obeys (gives_up_late env) (call (lrem_drop (Payload p)))" if "max_delivery_attempts \<le> attempts_of p + 1"
    using that by (intro giving_up.obeys_command)
      (auto simp: gives_up_late_def lrem_drop_def max_delivery_attempts_def)
  moreover have "obeys (gives_up_late env)
      (proc_then (call (lpush_processing (Payload (p\<lparr>pl_deliveryAttempts := Some (attempts_of p + 1)\<rparr>))))
         (call (lrem_processing (Payload p))))"
    by (intro late_keeps steady.obeys_then dropped_commands)
  ultimately show ?thesis
    unfolding handle_delivery_error_def
    by (intro giving_up.obeys_catch giving_up.obeys_if giving_up.obeys_return)
qed

lemma dropped_acts: "dl_dropped (parent_acts acts s) = dl_dropped s"
proof -
  have ev: "evolution (\<lambda>s t. dl_dropped t = dl_dropped s)" by unfold_locales simp_all
  show ?thesis
    by (rule parent_acts_obeys [OF ev enqueue_obeys [OF ev] consume_queued_obeys [OF ev]])
      (auto intro!: keeps_call simp: command_defs lapse_def)
qed

lemma dropped_reinvoke: "keeps dl_dropped (reinvoke_parent env turns sid items)"
proof -
  have "keeps dl_dropped (run_parent turns items)"
    by (auto simp: obeys_def run_parent_def Let_def dropped_acts split: sum.split)
  then show ?thesis
    unfolding reinvoke_parent_def by (intro steady.obeys_rules dropped_commands)
qed

lemma late_skip:
  assumes "items \<noteq> []" "sessionless_parent env (hd items)"
  shows "obeys (gives_up_late env) (skip_wave items)"
proof -
  obtain q qs where items: "items = q # qs" using assms(1) by (cases items) auto
  let ?drop = "\<lambda>p. call (lrem_drop (Payload p))"
  let ?R = "\<lambda>s t. Payload q \<in> set (dl_dropped s) \<longrightarrow> gives_up_late env s t"
  have evo: "evolution ?R"
    by unfold_locales (auto simp: giving_up.stay intro: giving_up.chain, auto simp: gives_up_late_def)
  have "obeys ?R (?drop p)" for p
    by (rule obeys_call) (use assms items in \<open>auto simp: gives_up_late_def command_defs\<close>)
  then have rest: "obeys ?R (proc_each ?drop qs)" by (intro evolution.obeys_each [OF evo])
  have first: "gives_up_late env s (snd (?drop q s)) \<and>
      (\<not> isl (fst (?drop q s)) \<longrightarrow> Payload q \<in> set (dl_dropped (snd (?drop q s))))" for s
    using call_outcomes [of "lrem_drop (Payload q)" s] assms items
    by (auto simp: gives_up_late_def command_defs)
  have "gives_up_late env s (snd (proc_each ?drop items s))" for s
  proof (cases "?drop q s")
    case (Pair r t)
    with first [of s] obeysD [OF rest, of t] show ?thesis
      by (cases r) (auto simp: items intro: giving_up.chain)
  qed
  then have "obeys (gives_up_late env) (proc_each ?drop items)" by (simp add: obeys_def)
  then show ?thesis
    unfolding skip_wave_def by (intro giving_up.obeys_then giving_up.obeys_commands giving_up.obeys_return)
qed

lemma late_dispatch: "obeys (gives_up_late env) (dispatch_wave env turns items)"
proof (cases "items = []")
  case True
  have "obeys (gives_up_late env) (skip_wave [])"
    unfolding skip_wave_def by (intro giving_up.obeys_rules giving_up.obeys_commands) simp_all
  with True late_keeps [OF dropped_reinvoke] show ?thesis
    unfolding dispatch_wave_def by (intro giving_up.obeys_bind giving_up.obeys_lift giving_up.obeys_if) simp_all
next
  case False
  have "obeys (gives_up_late env) (skip_wave items)" if "find_run (pl_parentAgentRunId (hd items)) (de_runs env) = Inr r"
    "falsy (ag_sessionId r)" for r
    by (rule late_skip [OF False]) (simp add: sessionless_parent_def that)
  then show ?thesis
    using late_keeps [OF dropped_reinvoke]
    by (auto simp: dispatch_wave_def proc_bind_def proc_lift_def obeys_def giving_up.stay split: sum.splits)
qed

text \<open>C26: Whatever Redis and the parents do, a delivery gives up a result only when it fails for the fifth
  time, or together with a result whose parent run belongs to no session: a wave that starts with such
  a result is dropped whole and at once (lemma \<open>sessionless_parent_drops_wave\<close>). Everything else a
  delivery drops was not a result at all.\<close>

theorem dropped_only_after_retries:
  assumes "Payload p \<in> set (dl_dropped (snd (try_deliver_results env cap turns sid token s)))"
    and "Payload p \<notin> set (dl_dropped s)"
  shows "4 \<le> attempts_of p \<or>
    (\<exists>q. Payload q \<in> set (dl_dropped (snd (try_deliver_results env cap turns sid token s))) \<and> sessionless_parent env q)"
  using obeysD [OF giving_up.obeys_try_deliver [where env = env and turns = turns and cap = cap and sid = sid and token = token,
      OF late_give_back late_error late_dispatch], of s] assms
  by (simp add: gives_up_late_def)

section \<open>How often a parent is reinvoked\<close>

lemma turns_acts: "dl_turns (parent_acts acts s) = dl_turns s"
proof -
  have ev: "evolution (\<lambda>s t. dl_turns t = dl_turns s)" by unfold_locales simp_all
  show ?thesis
    by (rule parent_acts_obeys [OF ev enqueue_obeys [OF ev] consume_queued_obeys [OF ev]])
      (auto intro!: keeps_call simp: command_defs lapse_def)
qed

lemma triple_choose: "triple P f Q E \<Longrightarrow> triple P g Q E \<Longrightarrow> triple P (if b then f else g) Q E"
  by simp

text \<open>Turns taken and turns there is still room for: within a delivery, while a wave has its place on the
  counter, and when a delivery ends, whose last turn may have been given back to the counter.\<close>

definition fits :: "nat \<Rightarrow> nat \<Rightarrow> delivery \<Rightarrow> bool" where
  "fits cap m s \<longleftrightarrow> dl_turns s + room cap s \<le> m"

definition below :: "nat \<Rightarrow> nat \<Rightarrow> delivery \<Rightarrow> bool" where
  "below cap m s \<longleftrightarrow> dl_turns s + room cap s < m"

definition ends :: "nat \<Rightarrow> nat \<Rightarrow> delivery \<Rightarrow> bool" where
  "ends cap m s \<longleftrightarrow> dl_turns s \<le> m \<and> fits cap (Suc m) s"

lemma within_ends: "fits cap m s \<Longrightarrow> ends cap m s"
  by (simp add: fits_def ends_def)

lemma below_within: "below cap m s \<Longrightarrow> fits cap m s"
  by (simp add: fits_def below_def)

lemma measure_keep:
  assumes "keeps (\<lambda>s. (dl_turns s, room cap s)) f"
  shows "preserves (fits cap m) f" "preserves (below cap m) f" "preserves (ends cap m) f"
  using assms by (auto intro!: triple_keep [OF assms] simp: fits_def below_def ends_def)

interpretation measure_kept: delivery_moves "\<lambda>s t. (dl_turns t, room cap t) = (dl_turns s, room cap s)" for cap
  by unfold_locales (auto simp: command_defs)

lemma measure_commands:
  "keeps (\<lambda>s. (dl_turns s, room cap s)) (call expire_count)"
  "keeps (\<lambda>s. (dl_turns s, room cap s)) (call (lpush_queue x))"
  "keeps (\<lambda>s. (dl_turns s, room cap s)) (call (lpush_processing x))"
  "keeps (\<lambda>s. (dl_turns s, room cap s)) (call (lrem_processing x))"
  "keeps (\<lambda>s. (dl_turns s, room cap s)) (call (lrem_drop x))"
  "keeps (\<lambda>s. (dl_turns s, room cap s)) (call (publish_response sid out))"
  "keeps (\<lambda>s. (dl_turns s, room cap s)) (call (set_nx token))"
  "keeps (\<lambda>s. (dl_turns s, room cap s)) (call (release_fenced_lock token))"
  "keeps (\<lambda>s. (dl_turns s, room cap s)) (call (\<lambda>s. (g s, s)))"
  by (rule measure_kept.obeys_command, simp add: command_defs)+

lemma measure_steps:
  "keeps (\<lambda>s. (dl_turns s, room cap s)) (handle_delivery_error p)"
  "keeps (\<lambda>s. (dl_turns s, room cap s)) (give_back p)"
  unfolding handle_delivery_error_def give_back_def by (intro steady.obeys_rules measure_commands)+

lemmas measure_kept_commands = measure_keep [OF measure_commands(1)] measure_keep [OF measure_commands(4)]
  measure_keep [OF measure_commands(5)] measure_keep [OF measure_commands(6)]

lemma room_decr: "dl_turns (snd (cmd_decr s)) = dl_turns s \<and> room cap (snd (cmd_decr s)) \<le> Suc (room cap s)"
  by (simp add: cmd_decr_def room_def room_of_def)

lemma decr_within: "triple (below cap m) (call cmd_decr) (\<lambda>_. fits cap m) (\<lambda>_. fits cap m)"
proof (rule triple_call)
  show "fits cap m (snd (cmd_decr s))" if "below cap m s" for s
    using that room_decr [of s cap] by (simp add: below_def fits_def)
  then show "fits cap m (snd (cmd_decr s))" if "below cap m s" for s using that .
qed (auto simp: below_def fits_def)

lemma decr_ends: "triple (fits cap m) (call cmd_decr) (\<lambda>_. ends cap m) (\<lambda>_. ends cap m)"
proof (rule triple_call)
  show "ends cap m (snd (cmd_decr s))" if "fits cap m s" for s
    using that room_decr [of s cap] by (simp add: ends_def fits_def)
  then show "ends cap m (snd (cmd_decr s))" if "fits cap m s" for s using that .
qed (auto simp: ends_def fits_def)

lemma run_within: "triple (below cap m) (run_parent turns items) (\<lambda>_. fits cap m) (\<lambda>_. fits cap m)"
proof (rule tripleI)
  fix s assume "below cap m s"
  with room_acts [of cap "pt_activity (turns (dl_turns s))"
      "s\<lparr>dl_turns := Suc (dl_turns s), dl_inputs := dl_inputs s @ [format_batch_injection items]\<rparr>"]
  show "outcome_in (\<lambda>_. fits cap m) (\<lambda>_. fits cap m) (run_parent turns items s)"
    by (auto simp: run_parent_def Let_def turns_acts below_def fits_def split: sum.split)
qed

lemma reinvoke_within:
  "triple (below cap m) (reinvoke_parent env turns sid items) (\<lambda>_. fits cap m) (\<lambda>_. fits cap m)"
  unfolding reinvoke_parent_def
  by (rule triple_bind [OF triple_lift], assumption, erule below_within)
    (intro triple_bind [OF run_within] preserves_rules measure_kept_commands triple_return; assumption)

lemma skip_within: "triple (below cap m) (skip_wave items) (\<lambda>_. fits cap m) (\<lambda>_. fits cap m)"
proof -
  have "triple (below cap m) (proc_each (\<lambda>p. call (lrem_drop (Payload p))) items) (\<lambda>_. below cap m) (\<lambda>_. fits cap m)"
    by (rule triple_weaken [where P' = "below cap m" and Q' = "\<lambda>_. below cap m" and E' = "\<lambda>_. below cap m"])
      (intro preserves_rules measure_kept_commands, auto intro: below_within)
  then show ?thesis
    unfolding skip_wave_def by (rule triple_then) (rule triple_then [OF decr_within triple_return], assumption)
qed

lemma dispatch_within:
  "triple (below cap m) (dispatch_wave env turns items) (\<lambda>_. fits cap m) (\<lambda>_. fits cap m)"
  unfolding dispatch_wave_def
  by (rule triple_bind [OF triple_lift], assumption, erule below_within) (simp add: skip_within reinvoke_within)

text \<open>A wave that asks for another one keeps the measure, any other leaves it at most one turn above.\<close>

abbreviation waved :: "nat \<Rightarrow> nat \<Rightarrow> bool \<Rightarrow> delivery \<Rightarrow> bool" where
  "waved cap m b \<equiv> if b then fits cap m else ends cap m"

lemma attempt_within:
  "triple (\<lambda>s. dl_count s = c \<and> (if c \<le> int cap then below cap m s else fits cap m s))
     (attempt_wave env cap turns items c) (waved cap m) (\<lambda>_. ends cap m)"
proof (cases "c \<le> int cap")
  case True
  have handler: "triple (fits cap m)
      (proc_then (call cmd_decr) (proc_then (proc_each handle_delivery_error items) (proc_return False)))
      (waved cap m) (\<lambda>_. ends cap m)"
    by (rule triple_then [OF decr_ends], rule triple_then [OF triple_each], rule measure_keep(3) [OF measure_steps(1)])
      (rule triple_return, simp)
  have "triple (below cap m) (dispatch_wave env turns items) (waved cap m) (\<lambda>_. fits cap m)"
    by (rule triple_weaken [OF dispatch_within]) (auto intro: within_ends)
  from triple_catch [OF this handler] True show ?thesis
    by (auto simp: attempt_wave_def elim: triple_weaken)
next
  case False
  let ?P = "\<lambda>s. dl_count s = c \<and> fits cap m s"
  have "triple ?P (call cmd_decr) (\<lambda>_. fits cap m) (\<lambda>_. ends cap m)"
    by (rule triple_call) (use False in \<open>auto simp: cmd_decr_def fits_def ends_def room_def room_of_def\<close>)
  moreover have "triple (fits cap m) (proc_then (proc_each give_back items) (proc_return False)) (waved cap m) (\<lambda>_. ends cap m)"
    by (rule triple_weaken [where P' = "fits cap m" and Q' = "waved cap m" and E' = "\<lambda>_. fits cap m"])
      (rule triple_then [OF triple_each], rule measure_keep(1) [OF measure_steps(2)], rule triple_return,
        auto intro: within_ends)
  ultimately show ?thesis using False by (simp add: attempt_wave_def triple_then)
qed

lemma items_within: "triple (fits cap m) (wave_of_items env cap turns items) (waved cap m) (\<lambda>_. ends cap m)"
proof (cases "items = []")
  case True
  then show ?thesis by (auto simp: wave_of_items_def intro!: triple_return)
next
  case False
  let ?held = "\<lambda>c s. dl_count s = c \<and> (if c \<le> int cap then below cap m s else fits cap m s)"
  have incr: "triple (fits cap m) (call cmd_incr) ?held (\<lambda>_. ends cap m)"
    by (rule triple_call) (auto simp: cmd_incr_def fits_def below_def ends_def room_def room_of_def)
  have "triple (?held c) (call expire_count) (\<lambda>_. ?held c) (\<lambda>_. ends cap m)" for c
    by (rule triple_call)
      (auto simp: expire_count_def fits_def below_def ends_def room_def split: if_splits)
  moreover have "triple (?held c) (proc_return ()) (\<lambda>_. ?held c) (\<lambda>_. ends cap m)" for c
    by (rule triple_return)
  ultimately have expire: "triple (?held c) (if c = 1 then call expire_count else proc_return ()) (\<lambda>_. ?held c) (\<lambda>_. ends cap m)" for c
    by (rule triple_choose)
  show ?thesis
    unfolding wave_of_items_def if_not_P [OF False]
    by (rule triple_bind [OF incr], rule triple_then [OF expire attempt_within])
qed

lemma wave_within: "triple (fits cap m) (deliver_wave env cap turns) (waved cap m) (\<lambda>_. ends cap m)"
proof -
  have drain: "triple (fits cap m) (drain_wave k) (\<lambda>_. fits cap m) (\<lambda>_. ends cap m)" for k
    by (rule triple_weaken [OF measure_keep(1) [OF measure_kept.obeys_drain]]) (auto intro: within_ends)
  have parse: "triple (fits cap m) (parse_batch b) (\<lambda>_. fits cap m) (\<lambda>_. ends cap m)" for b
    by (rule triple_weaken [OF measure_keep(1) [OF measure_kept.obeys_parse]]) (auto intro: within_ends)
  have none: "triple (fits cap m) (proc_return False) (waved cap m) (\<lambda>_. ends cap m)"
    by (rule triple_return) (simp add: within_ends)
  have rest: "triple (fits cap m) (if b = [] then proc_return False
      else proc_bind (parse_batch b) (wave_of_items env cap turns)) (waved cap m) (\<lambda>_. ends cap m)" for b
    using none triple_bind [OF parse items_within] by simp
  show ?thesis
    unfolding deliver_wave_def by (rule triple_bind [OF drain rest])
qed

lemma deliver_ends: "fits cap m s \<Longrightarrow> ends cap m (snd (deliver_results env cap turns s))"
proof (induction env cap turns s rule: deliver_results.induct)
  case (1 env cap turns s)
  obtain r t where w: "deliver_wave env cap turns s = (r, t)" by (cases "deliver_wave env cap turns s")
  show ?case
  proof (cases r)
    case (Inl e)
    with triple_Inl [OF wave_within 1(2)] w show ?thesis by (simp add: deliver_results.simps [of env cap turns s])
  next
    case (Inr again)
    with triple_Inr [OF wave_within 1(2)] w have t: "waved cap m again t" by simp
    with w Inr 1(1) show ?thesis
      by (cases again) (simp_all add: deliver_results.simps [of env cap turns s])
  qed
qed

lemma deliver_triple: "triple (fits cap m) (deliver_results env cap turns) (\<lambda>_. ends cap m) (\<lambda>_. ends cap m)"
  using deliver_ends by (auto simp: triple_def outcome_in_def split: sum.splits)

lemma locked_ends:
  "triple (fits cap m) (deliver_locked env cap turns) (\<lambda>_. ends cap (Suc m)) (\<lambda>_. ends cap (Suc m))"
proof -
  have up: "ends cap m s \<Longrightarrow> ends cap (Suc m) s" and again: "ends cap m s \<Longrightarrow> fits cap (Suc m) s" for s
    by (auto simp: ends_def fits_def)
  have "triple (fits cap m) (deliver_results env cap turns) (\<lambda>_. ends cap m) (\<lambda>_. ends cap (Suc m))"
    by (rule triple_weaken [OF deliver_triple [of _ m]]) (auto intro: up)
  moreover have "triple (ends cap m) (call (\<lambda>s. (length (dl_queue s), s))) (\<lambda>_. ends cap m) (\<lambda>_. ends cap (Suc m))"
    by (rule triple_weaken [OF measure_keep(3) [where m = m, OF measure_commands(9)]]) (auto intro: up)
  moreover have "triple (ends cap m) (if 0 < n then deliver_results env cap turns else proc_return ())
      (\<lambda>_. ends cap (Suc m)) (\<lambda>_. ends cap (Suc m))" for n :: nat
    by (rule triple_choose [OF triple_weaken [OF deliver_triple [of _ "Suc m"]] triple_return]) (auto intro: again up)
  ultimately show ?thesis
    unfolding deliver_locked_def by (intro triple_then triple_bind)
qed

text \<open>C25: How often a parent is reinvoked. \<open>room\<close> is what the counter leaves under the cap now, and the cap
  and one more for every hour that passes during the delivery, as the counter lapses an hour after it
  got its expiry, and a failure after that counts it down to minus one. The waves of one delivery
  reinvoke the parent at most so often, and the whole delivery under its lock, with its second look at
  the queue, once more, as a failed last turn is given back to the counter; however many results arrive
  meanwhile and whether the runs succeed or fail.\<close>

theorem reinvocations_bounded:
  "dl_turns (snd (deliver_results env cap turns s)) \<le> dl_turns s + nat (int cap - dl_count s) + dl_hours s * Suc cap \<and>
   dl_turns (snd (try_deliver_results env cap turns sid token s)) \<le>
     Suc (dl_turns s + nat (int cap - dl_count s) + dl_hours s * Suc cap)"
proof -
  let ?m = "dl_turns s + room cap s"
  have start: "fits cap ?m s" by (simp add: fits_def)
  let ?E = "\<lambda>_. ends cap (Suc ?m)"
  have up: "fits cap ?m s \<Longrightarrow> ends cap (Suc ?m) s" for s by (auto simp: ends_def fits_def)
  have release: "preserves (ends cap (Suc ?m)) (proc_then (call (release_fenced_lock token)) (proc_return ()))"
    by (intro preserves_rules measure_keep(3) [OF measure_commands(8)] triple_return)
  have "triple (fits cap ?m) (proc_finally (deliver_locked env cap turns)
      (proc_then (call (release_fenced_lock token)) (proc_return ()))) (\<lambda>_. ends cap (Suc ?m)) ?E"
    by (rule triple_finally [OF locked_ends release release])
  moreover have "triple (fits cap ?m) (call (set_nx token)) (\<lambda>_. fits cap ?m) ?E"
    by (rule triple_weaken [OF measure_keep(1) [OF measure_commands(7)]]) (auto intro: up)
  moreover have "triple (fits cap ?m) (proc_return ()) (\<lambda>_. ends cap (Suc ?m)) ?E"
    by (rule triple_return) (rule up)
  ultimately have "triple (fits cap ?m) (try_deliver_results env cap turns sid token) (\<lambda>_. ends cap (Suc ?m)) ?E"
    unfolding try_deliver_results_def by (auto intro!: triple_bind)
  from triple_snd [OF this start] deliver_ends [OF start, of env turns] show ?thesis
    by (simp add: ends_def room_def room_of_def)
qed

section \<open>Delivery when nothing fails\<close>

lemma call_quiet: "dl_fates s = [] \<Longrightarrow> call f s = (Inr (fst (f s)), snd (f s))"
  by (simp add: call_def split_beta)

lemma if_run: "(if b then f else g) s = (if b then f s else g s)"
  by simp

lemma drain_quiet:
  "dl_fates s = [] \<Longrightarrow> drain_wave n s =
     (Inr (take n (rev (dl_queue s))),
      s\<lparr>dl_queue := rev (drop n (rev (dl_queue s))), dl_processing := rev (take n (rev (dl_queue s))) @ dl_processing s\<rparr>)"
proof (induction n arbitrary: s)
  case 0
  then show ?case by (simp add: proc_return_def)
next
  case (Suc n)
  show ?case
  proof (cases "dl_queue s" rule: rev_cases)
    case Nil
    with Suc.prems show ?thesis by (simp add: proc_bind_def call_quiet lmove_out_def proc_return_def)
  next
    case (snoc xs x)
    with Suc show ?thesis by (simp add: proc_bind_def call_quiet lmove_out_def proc_return_def)
  qed
qed

lemma parse_quiet: "parse_batch (map Payload ps) = proc_return ps"
  by (induction ps) simp_all

lemma rem_quiet:
  "dl_fates s = [] \<Longrightarrow> proc_each (\<lambda>p. call (lrem_processing (Payload p))) ps s =
     (Inr (), s\<lparr>dl_processing := fold remove1 (map Payload ps) (dl_processing s)\<rparr>)"
  by (induction ps arbitrary: s) (simp_all add: call_quiet lrem_processing_def)

lemma remove1_front: "x \<in> set xs \<Longrightarrow> remove1 x (xs @ ys) = remove1 x xs @ ys"
  by (simp add: remove1_append)

lemma fold_remove1_front: "mset xs = mset zs \<Longrightarrow> fold remove1 xs (zs @ ys) = ys"
proof (induction xs arbitrary: zs)
  case Nil
  then show ?case by simp
next
  case (Cons x xs)
  then have "x \<in> set zs" by (metis list.set_intros(1) set_mset_mset)
  moreover from Cons.prems have "mset xs = mset (remove1 x zs)" by (metis add_mset_remove_trivial mset.simps(2) mset_remove1)
  ultimately show ?case using Cons.IH [of "remove1 x zs"] by (simp add: remove1_front)
qed

lemma items_quiet:
  assumes "dl_fates u = []" and "items \<noteq> []"
  shows "wave_of_items env cap turns items u =
    attempt_wave env cap turns items (dl_count u + 1)
      (u\<lparr>dl_count := dl_count u + 1, dl_ttl := (dl_count u = 0 \<or> dl_ttl u)\<rparr>)"
  using assms
  by (cases "dl_count u = 0")
    (simp_all add: wave_of_items_def proc_bind_def proc_then_def call_quiet cmd_incr_def expire_count_def proc_return_def)

text \<open>A parent that can be reinvoked, and parents that answer without doing anything to their lists.\<close>

definition deliverable :: "delivery_env \<Rightarrow> result_payload \<Rightarrow> bool" where
  "deliverable env p \<longleftrightarrow>
     (case find_run (pl_parentAgentRunId p) (de_runs env) of
        Inl e \<Rightarrow> False
      | Inr r \<Rightarrow> \<not> falsy (ag_sessionId r) \<and> find_session (the (ag_sessionId r)) (de_sessions env) \<noteq> None)"

definition answers_quietly :: "(nat \<Rightarrow> parent_turn) \<Rightarrow> bool" where
  "answers_quietly turns \<longleftrightarrow> (\<forall>n. pt_activity (turns n) = [] \<and> \<not> isl (pt_result (turns n)))"

lemma wave_quiet:
  assumes "dl_fates s = []" "dl_queue s = map Payload q" "q \<noteq> []" "list_all (deliverable env) q"
    "answers_quietly turns" "dl_count s + 1 \<le> int cap"
  obtains t where "deliver_wave env cap turns s = (Inr True, t)" "dl_fates t = []"
    "dl_queue t = map Payload (rev (drop 20 (rev q)))" "dl_processing t = dl_processing s"
    "dl_handed t = dl_handed s @ take 20 (rev q)" "dl_turns t = Suc (dl_turns s)" "dl_count t = dl_count s + 1"
    "dl_dropped t = dl_dropped s"
proof -
  let ?items = "take 20 (rev q)"
  have batch: "take 20 (rev (dl_queue s)) = map Payload ?items" by (simp add: assms(2) rev_map take_map)
  have ne: "?items \<noteq> []" using assms(3) by simp
  then have hd: "hd ?items \<in> set q" by (metis hd_in_set in_set_takeD set_rev)
  with assms(4) have "deliverable env (hd ?items)" by (simp add: list_all_iff)
  then obtain r where r: "find_run (pl_parentAgentRunId (hd ?items)) (de_runs env) = Inr r"
    "\<not> falsy (ag_sessionId r)" "find_session (the (ag_sessionId r)) (de_sessions env) \<noteq> None"
    unfolding deliverable_def by (cases "find_run (pl_parentAgentRunId (hd ?items)) (de_runs env)") simp_all
  obtain sess where sess: "find_session (the (ag_sessionId r)) (de_sessions env) = Some sess" using r(3) by blast
  from assms(5) obtain out where turn: "pt_activity (turns (dl_turns s)) = []" "pt_result (turns (dl_turns s)) = Inr out"
    by (metis answers_quietly_def sum.collapse(2))
  have gone: "fold remove1 (map Payload ?items) (rev (map Payload ?items) @ dl_processing s) = dl_processing s"
    by (rule fold_remove1_front) simp
  let ?ttl = "dl_count s = 0 \<or> dl_ttl s"
  let ?s = "s\<lparr>dl_queue := rev (drop 20 (rev (dl_queue s))),
        dl_processing := rev (map Payload ?items) @ dl_processing s\<rparr>"
  let ?t = "s\<lparr>dl_queue := rev (drop 20 (rev (dl_queue s))), dl_count := dl_count s + 1, dl_ttl := ?ttl,
        dl_turns := Suc (dl_turns s), dl_inputs := dl_inputs s @ [format_batch_injection ?items],
        dl_handed := dl_handed s @ ?items,
        dl_responses := dl_responses s @ (if falsy out then [] else [(the (ag_sessionId r), the out)])\<rparr>"
  have "reinvoke_parent env turns (the (ag_sessionId r)) ?items (?s\<lparr>dl_count := dl_count s + 1, dl_ttl := ?ttl\<rparr>) = (Inr True, ?t)"
    using assms(1) gone
    by (simp add: reinvoke_parent_def run_parent_def proc_bind_def proc_then_def proc_lift_def proc_return_def
        if_run call_quiet publish_response_def rem_quiet sess turn Let_def)
  then have "dispatch_wave env turns ?items (?s\<lparr>dl_count := dl_count s + 1, dl_ttl := ?ttl\<rparr>) = (Inr True, ?t)"
    by (simp add: dispatch_wave_def proc_bind_def proc_lift_def r del: hd_take)
  then have "attempt_wave env cap turns ?items (dl_count s + 1) (?s\<lparr>dl_count := dl_count s + 1, dl_ttl := ?ttl\<rparr>) = (Inr True, ?t)"
    using assms(6) by (simp add: attempt_wave_def proc_catch_def)
  then have "wave_of_items env cap turns ?items ?s = (Inr True, ?t)"
    using ne assms(1) items_quiet [of ?s ?items env cap turns] by simp
  then have t: "deliver_wave env cap turns s = (Inr True, ?t)"
    using ne assms(1)
    by (simp add: deliver_wave_def proc_bind_def max_results_per_wave_def drain_quiet batch parse_quiet proc_return_def)
  show ?thesis
    by (rule that [OF t]) (simp_all add: assms(1,2) rev_map drop_map)
qed

lemma deliver_quiet:
  assumes "dl_fates s = []" "dl_queue s = map Payload q" "list_all (deliverable env) q" "answers_quietly turns"
    "dl_count s + int ((length q + 19) div 20) \<le> int cap"
  shows "dl_queue (snd (deliver_results env cap turns s)) = [] \<and>
         dl_processing (snd (deliver_results env cap turns s)) = dl_processing s \<and>
         dl_handed (snd (deliver_results env cap turns s)) = dl_handed s @ rev q \<and>
         dl_turns (snd (deliver_results env cap turns s)) = dl_turns s + (length q + 19) div 20"
  using assms
proof (induction "length q" arbitrary: q s rule: less_induct)
  case less
  show ?case
  proof (cases "q = []")
    case True
    with less.prems show ?thesis
      by (simp add: deliver_results.simps [of env cap turns s] deliver_wave_def drain_quiet proc_bind_def proc_return_def)
  next
    case False
    then have pos: "1 \<le> (length q + 19) div 20" by (cases q) auto
    with less.prems(5) have room: "dl_count s + 1 \<le> int cap" by linarith
    obtain t where t: "deliver_wave env cap turns s = (Inr True, t)" "dl_fates t = []"
      "dl_queue t = map Payload (rev (drop 20 (rev q)))" "dl_processing t = dl_processing s"
      "dl_handed t = dl_handed s @ take 20 (rev q)" "dl_turns t = Suc (dl_turns s)" "dl_count t = dl_count s + 1"
      "dl_dropped t = dl_dropped s"
      by (rule wave_quiet [OF less.prems(1,2) False less.prems(3,4) room])
    let ?q = "rev (drop 20 (rev q))"
    have len: "length ?q < length q" using False by (cases q) auto
    have all: "list_all (deliverable env) ?q"
      using less.prems(3) by (auto simp: list_all_iff dest: in_set_dropD)
    have waves: "Suc ((length ?q + 19) div 20) = (length q + 19) div 20"
    proof (cases "length q \<le> 20")
      case True
      with pos False show ?thesis by (cases q) (auto simp: div_nat_eqI)
    next
      case False
      then have "length q + 19 = (length ?q + 19) + 20" by simp
      then show ?thesis by simp
    qed
    with less.prems(5) t(7) have "dl_count t + int ((length ?q + 19) div 20) \<le> int cap" by linarith
    note IH = less.hyps [OF len t(2,3) all less.prems(4) this]
    from t(1) have "snd (deliver_results env cap turns s) = snd (deliver_results env cap turns t)"
      by (simp add: deliver_results.simps [of env cap turns s])
    with IH t(4,5,6) waves show ?thesis by simp
  qed
qed

text \<open>C24: When nothing fails and the counter leaves room, a delivery hands every queued result to the
  parent exactly once, in the order in which they were published, in as few reinvocations as waves of
  twenty allow, and leaves nothing queued or in processing that was not there before.\<close>

theorem quiet_delivery_is_fifo:
  assumes "dl_fates s = []" and "dl_queue s = map Payload q" and "list_all (deliverable env) q"
    and "answers_quietly turns" and "dl_count s + int ((length q + 19) div 20) \<le> int cap"
  shows "dl_queue (snd (deliver_results env cap turns s)) = [] \<and>
         dl_processing (snd (deliver_results env cap turns s)) = dl_processing s \<and>
         dl_handed (snd (deliver_results env cap turns s)) = dl_handed s @ rev q \<and>
         dl_turns (snd (deliver_results env cap turns s)) = dl_turns s + (length q + 19) div 20"
  using assms by (rule deliver_quiet)

section \<open>Publication\<close>

definition failing :: "fate \<Rightarrow> bool" where
  "failing f \<longleftrightarrow> f \<noteq> Answered"

lemma push_attempts_total: "\<not> isl (fst (push_attempts n p s))"
  by (induction n arbitrary: s) (auto simp: proc_defs split: prod.splits sum.splits)

lemma push_attempts_pushed:
  "push_attempts n p s = (Inr True, t) \<Longrightarrow> Payload p \<in> set (dl_queue t)"
  by (induction n arbitrary: s)
    (auto simp: proc_defs call_def lpush_queue_def split: prod.splits sum.splits list.splits fate.splits)

lemma push_attempts_failed:
  "push_attempts n p s = (Inr False, t) \<Longrightarrow> n \<le> length (dl_fates s) \<and> list_all failing (take n (dl_fates s))"
proof (induction n arbitrary: s)
  case 0
  then show ?case by simp
next
  case (Suc n)
  then obtain f fs where f: "dl_fates s = f # fs" "f \<noteq> Answered"
    by (auto simp: proc_defs call_def lpush_queue_def split: prod.splits sum.splits list.splits fate.splits)
  with Suc.prems have "\<exists>s'. push_attempts n p s' = (Inr False, t) \<and> dl_fates s' = fs"
    by (cases f) (auto simp: proc_defs call_def lpush_queue_def)
  with Suc.IH f show ?case by (auto simp: failing_def)
qed

lemma call_queue: "(\<And>s. dl_queue (snd (f s)) = dl_queue s) \<Longrightarrow> keeps dl_queue (call f)"
  by (rule keeps_call) simp_all

text \<open>Publishing an outcome never fails to the caller, and afterwards the outcome is in the parent's
  queue, or it is in the log of lost outcomes and the first three attempts to write it all failed.\<close>

theorem publication_reaches_queue_or_log:
  "\<not> isl (fst (enqueue_outcome p s)) \<and>
   (Payload p \<in> set (dl_queue (snd (enqueue_outcome p s))) \<or>
    p \<in> set (dl_deadLetters (snd (enqueue_outcome p s))) \<and>
    3 \<le> length (dl_fates s) \<and> list_all failing (take 3 (dl_fates s)))"
proof -
  obtain b t where push: "push_attempts 3 p s = (Inr b, t)"
    using push_attempts_total [of 3 p s] by (metis prod.collapse sum.collapse(2))
  show ?thesis
  proof (cases b)
    case True
    let ?after = "proc_catch (proc_then (call expire_list) (proc_then (call expire_list) (call publish_wakeup)))
      (\<lambda>_. proc_return ())"
    have "keeps dl_queue ?after"
      by (intro steady.obeys_rules call_queue) (simp_all add: command_defs)
    moreover have "\<not> isl (fst (?after t))"
      by (auto simp: proc_catch_def proc_return_def split: prod.splits sum.splits)
    moreover from push True have "Payload p \<in> set (dl_queue t)" by (auto dest: push_attempts_pushed)
    ultimately show ?thesis
      using push True by (simp add: enqueue_outcome_def publish_max_attempts_def proc_bind_def obeys_def)
  next
    case False
    with push push_attempts_failed [of 3 p s t] show ?thesis
      by (simp add: enqueue_outcome_def publish_max_attempts_def proc_bind_def proc_modify_def)
  qed
qed

section \<open>Exclusion\<close>

text \<open>While a primary run of the session is live, or somebody holds its delivery lock, a delivery takes
  nothing from the queue, reinvokes nobody and leaves the lock alone.\<close>

theorem no_delivery_while_busy:
  assumes "find_active_primary_run sid (de_runs env) \<noteq> None \<or> dl_lock s \<noteq> None"
  shows "\<exists>fs. snd (try_deliver_results env cap turns sid token s) = s\<lparr>dl_fates := fs\<rparr>"
proof (cases "find_active_primary_run sid (de_runs env) = None")
  case True
  with assms have "snd (set_nx token (s\<lparr>dl_fates := fs\<rparr>)) = s\<lparr>dl_fates := fs\<rparr>"
    "fst (set_nx token (s\<lparr>dl_fates := fs\<rparr>)) = False" for fs
    by (auto simp: set_nx_def)
  with True call_outcomes [of "set_nx token" s] show ?thesis
    by (auto simp: try_deliver_results_def proc_bind_def proc_return_def)
next
  case False
  then have "snd (try_deliver_results env cap turns sid token s) = s\<lparr>dl_fates := dl_fates s\<rparr>"
    by (simp add: try_deliver_results_def proc_return_def)
  then show ?thesis by blast
qed

section \<open>The sweep\<close>

lemma requeue_loop_quiet:
  "dl_fates s = [] \<Longrightarrow> requeue_loop s =
     (Inr (length (dl_processing s)), s\<lparr>dl_processing := [], dl_queue := dl_processing s @ dl_queue s\<rparr>)"
proof (induction "length (dl_processing s)" arbitrary: s)
  case 0
  then show ?case by (simp add: requeue_loop.simps [of s] call_quiet lmove_back_def)
next
  case (Suc n)
  then have ne: "dl_processing s \<noteq> []" by auto
  let ?t = "s\<lparr>dl_processing := butlast (dl_processing s), dl_queue := last (dl_processing s) # dl_queue s\<rparr>"
  from Suc ne have "requeue_loop ?t =
      (Inr n, ?t\<lparr>dl_processing := [], dl_queue := butlast (dl_processing s) @ last (dl_processing s) # dl_queue s\<rparr>)"
    by simp
  with Suc.prems Suc.hyps(2) ne show ?case
    by (simp add: requeue_loop.simps [of s] call_quiet lmove_back_def)
qed

text \<open>When nothing fails, the sweep returns everything a failed delivery left in the processing list
  of an unlocked session to the queue, oldest result first in line again, and announces it.\<close>

theorem sweep_requeues_stuck_results:
  assumes "dl_fates s = []" and "dl_lock s = None" and "dl_processing s \<noteq> []"
  shows "requeue_session True s =
    (Inr (), s\<lparr>dl_processing := [], dl_queue := dl_processing s @ dl_queue s, dl_wakeups := Suc (dl_wakeups s)\<rparr>)"
  using assms
  by (simp add: requeue_session_def proc_bind_def call_quiet requeue_loop_quiet publish_wakeup_def)

text \<open>
  It only looks at processing lists: a result that waits in the queue, because its announcement was
  lost or because the cap sent it back, is neither announced nor moved by it.
\<close>

theorem sweep_misses_queued_results:
  assumes "dl_processing s = []"
  shows "dl_queue (snd (requeue_session b s)) = dl_queue s \<and> dl_wakeups (snd (requeue_session b s)) = dl_wakeups s"
proof -
  have "\<exists>fs. snd (requeue_loop s) = s\<lparr>dl_fates := fs\<rparr> \<and> fst (requeue_loop s) \<in> {Inl redis_error, Inr 0}"
    if "dl_processing s = []" for s
    using call_outcomes [of lmove_back s] that by (auto simp: requeue_loop.simps [of s] lmove_back_def)
  note loop = this
  have locked: "\<exists>fs. snd (call (\<lambda>s. (dl_lock s \<noteq> None, s)) s) = s\<lparr>dl_fates := fs\<rparr>"
    using call_outcomes [of "\<lambda>s. (dl_lock s \<noteq> None, s)" s] by auto
  obtain r t where rt: "(if b then call (\<lambda>s. (dl_lock s \<noteq> None, s)) else proc_return False) s = (r, t)"
    by (cases "(if b then call (\<lambda>s. (dl_lock s \<noteq> None, s)) else proc_return False) s")
  then have t: "dl_queue t = dl_queue s" "dl_wakeups t = dl_wakeups s" "dl_processing t = []"
    using locked assms by (auto simp: proc_return_def split: if_splits)
  from loop [OF t(3)] rt t show ?thesis
    by (cases r) (auto simp: requeue_session_def proc_bind_def proc_return_def split: prod.splits sum.splits)
qed

section \<open>Instances\<close>

definition sample_env :: delivery_env where
  "sample_env =
     \<lparr>de_runs = sample_runs\<lparr>rd_rows := [sample_run ''a'' None AgCompleted 0, sample_run ''b'' (Some ''a'') AgCompleted 0,
                                       sample_run ''c'' (Some ''a'') AgFailed 0]\<rparr>,
      de_sessions = sample_sessions, de_agentName = \<lambda>_. Inr ''worker''\<rparr>"

definition sample_result :: "string \<Rightarrow> string \<Rightarrow> nat option \<Rightarrow> result_payload" where
  "sample_result i parent attempts =
     \<lparr>pl_agentRunId = i, pl_parentAgentRunId = parent, pl_agentName = ''worker'', pl_output = Some ''42'',
      pl_completed = True, pl_error = None, pl_deliveryAttempts = attempts\<rparr>"

definition sample_delivery :: "fate list \<Rightarrow> queue_item list \<Rightarrow> delivery" where
  "sample_delivery fates q =
     \<lparr>dl_queue = q, dl_processing = [], dl_lock = None, dl_count = 0, dl_ttl = False, dl_hours = 0, dl_fates = fates, dl_wakeups = 0,
      dl_responses = [], dl_turns = 0, dl_inputs = [], dl_handed = [], dl_consumed = [], dl_dropped = [],
      dl_deadLetters = []\<rparr>"

definition sample_turns :: "thrown + string option \<Rightarrow> nat \<Rightarrow> parent_turn" where
  "sample_turns r n = \<lparr>pt_activity = [], pt_result = r\<rparr>"

lemma dropped_only_after_retries_witness:
  "4 \<le> attempts_of (sample_result ''b'' ''a'' (Some 4))"
proof -
  let ?p = "sample_result ''b'' ''a'' (Some 4)"
  let ?t = "snd (try_deliver_results sample_env 10 (sample_turns (Inl ThrownOther)) ''s1'' ''t'' (sample_delivery [] [Payload ?p]))"
  have "dl_dropped ?t = [Payload ?p] \<and> \<not> sessionless_parent sample_env ?p" by code_simp
  with dropped_only_after_retries [of ?p sample_env 10 "sample_turns (Inl ThrownOther)" "''s1''" "''t''" "sample_delivery [] [Payload ?p]"]
  show ?thesis by (auto simp: sample_delivery_def)
qed

text \<open>A wave that starts with a result whose parent lost its session is dropped without an attempt.\<close>

lemma sessionless_parent_drops_wave:
  "(let env = sample_env\<lparr>de_runs := sample_runs\<lparr>rd_rows := [sample_run ''a'' None AgCompleted 0,
                 (sample_run ''d'' None AgCompleted 0)\<lparr>ag_sessionId := None\<rparr>]\<rparr>\<rparr>;
        t = snd (try_deliver_results env 10 (sample_turns (Inr (Some ''ok''))) ''s1'' ''t''
              (sample_delivery [] [Payload (sample_result ''b'' ''a'' None), Payload (sample_result ''x'' ''d'' None)]))
    in (dl_turns t, dl_queue t, payload_ids (dl_dropped t) = {''b'', ''x''})) = (0, [], True)"
  by code_simp

text \<open>A counter that lapses while the parent runs lets the same delivery reinvoke it beyond the cap; and the
  failure of a run that outlived its place counts below zero, so that the cap allows one run more.\<close>

lemma lapsed_counter_exceeds_cap:
  "(let turns = (\<lambda>n. \<lparr>pt_activity = if n = 0 then [HourPasses, ChildReports (sample_result ''c'' ''a'' None)] else [],
                    pt_result = Inr None\<rparr>);
        t = snd (deliver_results sample_env 1 turns
              ((sample_delivery [] [Payload (sample_result ''b'' ''a'' None)])\<lparr>dl_hours := 1\<rparr>))
    in dl_turns t = 2) \<and>
   (let turns = (\<lambda>n. \<lparr>pt_activity = [HourPasses], pt_result = Inl ThrownOther\<rparr>);
        t = snd (deliver_results sample_env 1 turns
              ((sample_delivery [] [Payload (sample_result ''b'' ''a'' None)])\<lparr>dl_hours := 1\<rparr>))
    in dl_count t = -1)"
  by code_simp

lemma quiet_delivery_is_fifo_witness:
  "dl_handed (snd (deliver_results sample_env 10 (sample_turns (Inr (Some ''ok'')))
      (sample_delivery [] [Payload (sample_result ''c'' ''a'' None), Payload (sample_result ''b'' ''a'' None)]))) =
   [sample_result ''b'' ''a'' None, sample_result ''c'' ''a'' None]"
proof -
  let ?q = "[sample_result ''c'' ''a'' None, sample_result ''b'' ''a'' None]"
  have ok: "list_all (deliverable sample_env) ?q" by code_simp
  show ?thesis
    using quiet_delivery_is_fifo [of "sample_delivery [] (map Payload ?q)" ?q sample_env "sample_turns (Inr (Some ''ok''))" 10] ok
    by (simp add: sample_delivery_def answers_quietly_def sample_turns_def)
qed

lemma no_delivery_while_busy_witness:
  "dl_queue (snd (try_deliver_results sample_env 10 (sample_turns (Inr None)) ''s1'' ''t''
     ((sample_delivery [] [Payload (sample_result ''b'' ''a'' None)])\<lparr>dl_lock := Some ''other''\<rparr>))) =
   [Payload (sample_result ''b'' ''a'' None)]"
  using no_delivery_while_busy [of "''s1''" sample_env
    "(sample_delivery [] [Payload (sample_result ''b'' ''a'' None)])\<lparr>dl_lock := Some ''other''\<rparr>" 10
    "sample_turns (Inr None)" "''t''"]
  by (auto simp: sample_delivery_def)

lemma sweep_requeues_stuck_results_witness:
  "dl_queue (snd (requeue_session True
     ((sample_delivery [] [])\<lparr>dl_processing := [Payload (sample_result ''b'' ''a'' (Some 1))]\<rparr>))) =
   [Payload (sample_result ''b'' ''a'' (Some 1))]"
  using sweep_requeues_stuck_results
    [of "(sample_delivery [] [])\<lparr>dl_processing := [Payload (sample_result ''b'' ''a'' (Some 1))]\<rparr>"]
  by (simp add: sample_delivery_def)

text \<open>
  Three behaviours the comments of the sources rule out. A parent that answered is run again on the same
  results when only the announcement of its answer failed; one result whose parent cannot be loaded
  takes the whole wave down with it until all of it is dropped; a publication whose first answer was
  lost is queued twice.
\<close>

theorem answered_wave_is_delivered_again:
  "(let s = snd (try_deliver_results sample_env 10 (sample_turns (Inr (Some ''ok''))) ''s1'' ''t''
              (sample_delivery [Answered, Answered, Answered, Answered, Answered, Refused]
                 [Payload (sample_result ''b'' ''a'' None)]));
        t = snd (try_deliver_results sample_env 10 (sample_turns (Inr (Some ''ok''))) ''s1'' ''t''
              (snd (requeue_session True s)))
    in (map pl_agentRunId (dl_handed s), map pl_agentRunId (dl_handed t))) = ([''b''], [''b'', ''b''])"
  by code_simp

fun delivery_cycles :: "nat \<Rightarrow> (nat \<Rightarrow> parent_turn) \<Rightarrow> delivery \<Rightarrow> delivery" where
  "delivery_cycles 0 turns s = s"
| "delivery_cycles (Suc n) turns s =
     delivery_cycles n turns
       (snd (requeue_session True (snd (try_deliver_results sample_env 10 turns ''s1'' ''t'' s))))"

theorem bad_parent_drops_whole_wave:
  "(let t = delivery_cycles 5 (sample_turns (Inr (Some ''ok'')))
              (sample_delivery [] [Payload (sample_result ''b'' ''a'' None), Payload (sample_result ''x'' ''gone'' None)])
    in (dl_turns t, dl_queue t, payload_ids (dl_dropped t) = {''b'', ''x''})) = (0, [], True)"
  by code_simp

theorem lost_answer_queues_twice:
  "length (dl_queue (snd (enqueue_outcome (sample_result ''b'' ''a'' None) (sample_delivery [AnswerLost] [])))) = 2"
  by code_simp

end
