(* ===== verification/TaskQueue.thy ===== *)
theory TaskQueue
  imports ResultDelivery ToolRegistry
begin

text \<open>
  The queue half of \<open>engine/task-executor.service.ts\<close>: submission with its two ceilings, the per-user
  queues drained round-robin under a global and a per-user limit, cancellation of queued tasks, the
  three racing ends of a running task (the run resolves, the run rejects, the watchdog fires) and the
  recovery of pending runs after a restart.

  Everything here runs between two awaits or in a timer, so the events of the machine are whole
  functions of the source: a submission, a cancellation, the settling of a run, the end of its
  publication (where \<open>finalize\<close> runs), the watchdog. The limits are integers; an environment variable
  that is no number is not modelled. What the executor tells the rest of the system is a list of
  effects in order.
\<close>

section \<open>State\<close>

record user_quota =
  uq_maxConcurrent :: int
  uq_maxPending :: int

text \<open>The options of a submission, less the parent's abort signal, which the executor only hands on to the
  run.\<close>

record submit_options =
  so_agentDefinitionId :: string
  so_input :: string
  so_userId :: string
  so_sessionId :: string
  so_budgetTracker :: "nat option"
  so_timeoutMs :: "int option"
  so_displayName :: "string option"
  so_userQuota :: "user_quota option"

record task_item =
  ti_agentRunId :: string
  ti_options :: submit_options

record executor_cfg =
  ec_maxConcurrent :: int
  ec_maxPending :: int
  ec_userDefault :: user_quota
  ec_defaultTimeoutMs :: int

text \<open>A call of \<open>executeTask\<close>: the run is awaited, or its outcome is being published, or the watchdog
  gave it up while the run is still awaited.\<close>

datatype task_phase = TaskRunning | TaskReporting | TaskAbandoned

record task_flight =
  tf_item :: task_item
  tf_phase :: task_phase

text \<open>What a run that resolves returns, as far as the executor looks at it.\<close>

record settled_run =
  sr_status :: agent_status
  sr_output :: "string option"
  sr_error :: "string option"

datatype executor_effect =
    RowFailed string string
  | RunStarted string int
  | RunAborted string string
  | OutcomePublished string sub_outcome

text \<open>Budget trackers are shared by reference: an option names one by its place in \<open>ex_trackers\<close>.\<close>

record executor =
  ex_queues :: "(string \<times> task_item list) list"
  ex_active :: "(string \<times> int) list"
  ex_rotation :: "string list"
  ex_rotationIdx :: nat
  ex_activeCount :: int
  ex_flights :: "task_flight list"
  ex_trackers :: "tracker list"
  ex_effects :: "executor_effect list"

definition new_executor :: executor where
  "new_executor =
     \<lparr>ex_queues = [], ex_active = [], ex_rotation = [], ex_rotationIdx = 0, ex_activeCount = 0, ex_flights = [],
      ex_trackers = [], ex_effects = []\<rparr>"

definition emit :: "executor_effect list \<Rightarrow> executor \<Rightarrow> executor" where
  "emit es s = s\<lparr>ex_effects := ex_effects s @ es\<rparr>"

section \<open>Draining the queues\<close>

definition quota_for :: "executor_cfg \<Rightarrow> submit_options \<Rightarrow> user_quota" where
  "quota_for cfg opts = (case so_userQuota opts of None \<Rightarrow> ec_userDefault cfg | Some q \<Rightarrow> q)"

definition pending_count :: "executor \<Rightarrow> nat" where
  "pending_count s = sum_list (map (length \<circ> snd) (ex_queues s))"

definition queue_of :: "string \<Rightarrow> executor \<Rightarrow> task_item list" where
  "queue_of u s = (case map_of (ex_queues s) u of None \<Rightarrow> [] | Some q \<Rightarrow> q)"

definition active_of :: "string \<Rightarrow> executor \<Rightarrow> int" where
  "active_of u s = (case map_of (ex_active s) u of None \<Rightarrow> 0 | Some n \<Rightarrow> n)"

definition eligible :: "executor_cfg \<Rightarrow> executor \<Rightarrow> string \<Rightarrow> bool" where
  "eligible cfg s u \<longleftrightarrow>
     (case queue_of u s of
        [] \<Rightarrow> False
      | item # _ \<Rightarrow> active_of u s < uq_maxConcurrent (quota_for cfg (ti_options item)))"

definition rotation_index :: "executor \<Rightarrow> nat \<Rightarrow> nat" where
  "rotation_index s i = (ex_rotationIdx s + i) mod length (ex_rotation s)"

definition next_eligible_item :: "executor_cfg \<Rightarrow> executor \<Rightarrow> (task_item \<times> executor) option" where
  "next_eligible_item cfg s =
     (case find (\<lambda>i. eligible cfg s (ex_rotation s ! rotation_index s i)) [0..<length (ex_rotation s)] of
        None \<Rightarrow> None
      | Some i \<Rightarrow>
          (let idx = rotation_index s i; u = ex_rotation s ! idx in
           Some (hd (queue_of u s),
                 s\<lparr>ex_rotationIdx := (idx + 1) mod length (ex_rotation s),
                   ex_queues := upd_assoc u (tl (queue_of u s)) (ex_queues s)\<rparr>)))"

text \<open>The synchronous start of \<open>executeTask\<close>.\<close>

definition timeout_of :: "executor_cfg \<Rightarrow> submit_options \<Rightarrow> int" where
  "timeout_of cfg opts = (case so_timeoutMs opts of None \<Rightarrow> ec_defaultTimeoutMs cfg | Some t \<Rightarrow> t)"

definition start_task :: "executor_cfg \<Rightarrow> task_item \<Rightarrow> executor \<Rightarrow> executor" where
  "start_task cfg item s =
     (let u = so_userId (ti_options item) in
      emit [RunStarted (ti_agentRunId item) (timeout_of cfg (ti_options item))]
        (s\<lparr>ex_activeCount := ex_activeCount s + 1,
           ex_active := upd_assoc u (active_of u s + 1) (ex_active s),
           ex_flights := ex_flights s @ [\<lparr>tf_item = item, tf_phase = TaskRunning\<rparr>]\<rparr>))"

lemma sum_upd_assoc_le:
  "map_of qs u = Some (x # xs) \<Longrightarrow>
   sum_list (map (length \<circ> snd) (upd_assoc u xs qs)) < sum_list (map (length \<circ> snd) qs)"
  by (induction u xs qs rule: upd_assoc.induct) (auto split: if_splits)

lemma next_eligible_pending:
  assumes "next_eligible_item cfg s = Some (item, t)"
  shows "pending_count t < pending_count s"
proof -
  from assms obtain i where i: "find (\<lambda>i. eligible cfg s (ex_rotation s ! rotation_index s i))
      [0..<length (ex_rotation s)] = Some i"
    by (auto simp: next_eligible_item_def split: option.splits)
  let ?u = "ex_rotation s ! rotation_index s i"
  from i have "eligible cfg s ?u" by (auto simp: find_Some_iff)
  then obtain x xs where "map_of (ex_queues s) ?u = Some (x # xs)"
    by (auto simp: eligible_def queue_of_def split: option.splits list.splits)
  with assms i sum_upd_assoc_le [OF this] show ?thesis
    by (auto simp: next_eligible_item_def pending_count_def queue_of_def Let_def)
qed

lemma pending_start [simp]: "pending_count (start_task cfg item s) = pending_count s"
  by (simp add: start_task_def emit_def pending_count_def Let_def)

function drain :: "executor_cfg \<Rightarrow> executor \<Rightarrow> executor" where
  "drain cfg s =
     (if ex_activeCount s < ec_maxConcurrent cfg then
        (case next_eligible_item cfg s of
           None \<Rightarrow> s
         | Some (item, t) \<Rightarrow> drain cfg (start_task cfg item t))
      else s)"
  by pat_completeness auto
termination
  by (relation "measure (\<lambda>(cfg, s). pending_count s)") (auto dest: next_eligible_pending)

declare drain.simps [simp del]

section \<open>Submission and cancellation\<close>

definition rejection :: "executor_cfg \<Rightarrow> submit_options \<Rightarrow> executor \<Rightarrow> string option" where
  "rejection cfg opts s =
     (let quota = quota_for cfg opts in
      if ec_maxPending cfg \<le> int (pending_count s) then Some ''Task queue is full; task rejected''
      else if uq_maxPending quota \<le> int (length (queue_of (so_userId opts) s)) then
        Some (''Your task queue is full ('' @ show_int (uq_maxPending quota) @
              '' pending tasks allowed by your plan); task rejected'')
      else None)"

definition enqueue_task :: "task_item \<Rightarrow> executor \<Rightarrow> executor" where
  "enqueue_task item s =
     (let u = so_userId (ti_options item) in
      (if map_of (ex_queues s) u = None then s\<lparr>ex_rotation := ex_rotation s @ [u]\<rparr> else s)
        \<lparr>ex_queues := upd_assoc u (queue_of u s @ [item]) (ex_queues s)\<rparr>)"

definition submit :: "executor_cfg \<Rightarrow> string \<Rightarrow> submit_options \<Rightarrow> executor \<Rightarrow> executor" where
  "submit cfg runId opts s =
     (case rejection cfg opts s of
        Some message \<Rightarrow> emit [RowFailed runId message, OutcomePublished runId (failed_outcome message)] s
      | None \<Rightarrow> drain cfg (enqueue_task \<lparr>ti_agentRunId = runId, ti_options = opts\<rparr> s))"

text \<open>The first queue that holds the task loses its first entry for it.\<close>

fun remove_first :: "('a \<Rightarrow> bool) \<Rightarrow> 'a list \<Rightarrow> 'a list" where
  "remove_first P [] = []"
| "remove_first P (x # xs) = (if P x then xs else x # remove_first P xs)"

definition has_run :: "string \<Rightarrow> task_item \<Rightarrow> bool" where
  "has_run runId item \<longleftrightarrow> ti_agentRunId item = runId"

definition cancel_queued :: "string \<Rightarrow> executor \<Rightarrow> bool \<times> executor" where
  "cancel_queued runId s =
     (case find (\<lambda>(u, q). list_ex (has_run runId) q) (ex_queues s) of
        None \<Rightarrow> (False, s)
      | Some (u, q) \<Rightarrow> (True, s\<lparr>ex_queues := upd_assoc u (remove_first (has_run runId) q) (ex_queues s)\<rparr>))"

section \<open>The ends of a task\<close>

definition finalize :: "executor_cfg \<Rightarrow> task_item \<Rightarrow> executor \<Rightarrow> executor" where
  "finalize cfg item s =
     (let u = so_userId (ti_options item);
          active = (case map_of (ex_active s) u of None \<Rightarrow> 1 | Some n \<Rightarrow> n) in
      drain cfg (s\<lparr>ex_activeCount := ex_activeCount s - 1, ex_active := upd_assoc u (max 0 (active - 1)) (ex_active s)\<rparr>))"

definition status_text :: "agent_status \<Rightarrow> string" where
  "status_text st =
     (case st of AgPending \<Rightarrow> ''pending'' | AgIdle \<Rightarrow> ''idle'' | AgRunning \<Rightarrow> ''running'' | AgCompleted \<Rightarrow> ''completed''
      | AgFailed \<Rightarrow> ''failed'' | AgCancelled \<Rightarrow> ''cancelled'')"

definition outcome_of :: "settled_run \<Rightarrow> sub_outcome" where
  "outcome_of r =
     (let completed = (sr_status r = AgCompleted) in
      \<lparr>oc_completed = completed, oc_output = sr_output r,
       oc_error = (if completed then None
                   else Some (case sr_error r of Some e \<Rightarrow> e
                              | None \<Rightarrow> ''Sub-agent run ended with status '' @ quoted (status_text (sr_status r))))\<rparr>)"

text \<open>The promise of the \<open>k\<close>-th call settles; a call the watchdog gave up just ends.\<close>

definition run_settles :: "nat \<Rightarrow> thrown + settled_run \<Rightarrow> executor \<Rightarrow> executor" where
  "run_settles k result s =
     (if length (ex_flights s) \<le> k then s
      else
        (let f = ex_flights s ! k; runId = ti_agentRunId (tf_item f) in
         case tf_phase f of
           TaskReporting \<Rightarrow> s
         | TaskAbandoned \<Rightarrow> s\<lparr>ex_flights := drop_nth k (ex_flights s)\<rparr>
         | TaskRunning \<Rightarrow>
             emit [OutcomePublished runId
                     (case result of Inr r \<Rightarrow> outcome_of r | Inl e \<Rightarrow> failed_outcome (thrown_text e))]
               (s\<lparr>ex_flights := (ex_flights s)[k := f\<lparr>tf_phase := TaskReporting\<rparr>]\<rparr>)))"

text \<open>The awaited publication is over (it never throws): the slot is freed.\<close>

definition report_ends :: "executor_cfg \<Rightarrow> nat \<Rightarrow> executor \<Rightarrow> executor" where
  "report_ends cfg k s =
     (if length (ex_flights s) \<le> k then s
      else
        (let f = ex_flights s ! k in
         case tf_phase f of
           TaskReporting \<Rightarrow> finalize cfg (tf_item f) (s\<lparr>ex_flights := drop_nth k (ex_flights s)\<rparr>)
         | _ \<Rightarrow> s))"

definition watchdog_fires :: "executor_cfg \<Rightarrow> nat \<Rightarrow> executor \<Rightarrow> executor" where
  "watchdog_fires cfg k s =
     (if length (ex_flights s) \<le> k then s
      else
        (let f = ex_flights s ! k; runId = ti_agentRunId (tf_item f) in
         case tf_phase f of
           TaskRunning \<Rightarrow>
             finalize cfg (tf_item f)
               (emit [RunAborted runId ''watchdog_timeout'', RowFailed runId ''Sub-agent run timed out (watchdog)'',
                      OutcomePublished runId (failed_outcome ''Sub-agent run timed out'')]
                 (s\<lparr>ex_flights := (ex_flights s)[k := f\<lparr>tf_phase := TaskAbandoned\<rparr>]\<rparr>))
         | _ \<Rightarrow> s))"

section \<open>Progress forwarding\<close>

definition progress_throttle_ms :: int where
  "progress_throttle_ms = 30000"

text \<open>The time of the last emission and what is published for a hint at time \<open>now\<close>.\<close>

definition forward_progress :: "submit_options \<Rightarrow> int \<Rightarrow> string \<Rightarrow> int \<Rightarrow> (string \<times> string) option \<times> int" where
  "forward_progress opts now hint lastEmit =
     (if now - lastEmit < progress_throttle_ms then (None, lastEmit)
      else (Some (so_sessionId opts,
                  ''_'' @ or_text (so_displayName opts) ''sub-agent'' @ '' is working: '' @ hint @ ''_''), now))"

section \<open>Recovery after a restart\<close>

text \<open>Pending runs grouped by session in order of first appearance; those without a session are skipped.\<close>

fun group_runs :: "agent_run list \<Rightarrow> (string \<times> agent_run list) list \<Rightarrow> (string \<times> agent_run list) list" where
  "group_runs [] groups = groups"
| "group_runs (r # rs) groups =
     (if falsy (ag_sessionId r) then group_runs rs groups
      else
        (let sid = the (ag_sessionId r) in
         group_runs rs (upd_assoc sid ((case map_of groups sid of None \<Rightarrow> [] | Some g \<Rightarrow> g) @ [r]) groups)))"

definition recovered_options :: "agent_run \<Rightarrow> string \<Rightarrow> string \<Rightarrow> nat option \<Rightarrow> submit_options" where
  "recovered_options r userId sid tracker =
     \<lparr>so_agentDefinitionId = ag_agentDefinitionId r, so_input = ag_input r, so_userId = userId, so_sessionId = sid,
      so_budgetTracker = tracker, so_timeoutMs = None, so_displayName = None, so_userQuota = None\<rparr>"

definition recovery_tracker :: "run_db \<Rightarrow> string \<Rightarrow> agent_run list \<Rightarrow> tracker option" where
  "recovery_tracker db sid runs =
     (case find (\<lambda>r. ag_tokenBudget r \<noteq> None) runs of
        None \<Rightarrow> None
      | Some r \<Rightarrow>
          Some (new_tracker (ag_tokenBudget r) (case ag_tokenGracePercent r of None \<Rightarrow> 10 | Some g \<Rightarrow> g)
                  (sum_session_token_usage sid db)))"

definition recover_session_group ::
  "executor_cfg \<Rightarrow> run_db \<Rightarrow> session_db \<Rightarrow> string \<times> agent_run list \<Rightarrow> executor \<Rightarrow> executor" where
  "recover_session_group cfg db sdb grp s =
     (case grp of (sid, runs) \<Rightarrow>
       (case find_session sid sdb of
          None \<Rightarrow> s
        | Some session \<Rightarrow>
            (case recovery_tracker db sid runs of
               None \<Rightarrow> fold (\<lambda>r. submit cfg (ag_id r) (recovered_options r (se_userId session) sid None)) runs s
             | Some tr \<Rightarrow>
                 fold (\<lambda>r. submit cfg (ag_id r) (recovered_options r (se_userId session) sid (Some (length (ex_trackers s)))))
                   runs (s\<lparr>ex_trackers := ex_trackers s @ [tr]\<rparr>))))"

definition recover_pending :: "executor_cfg \<Rightarrow> run_db \<Rightarrow> session_db \<Rightarrow> executor \<Rightarrow> executor" where
  "recover_pending cfg db sdb s =
     fold (recover_session_group cfg db sdb) (group_runs (find_all_by_status AgPending db) []) s"

section \<open>Events\<close>

datatype executor_event =
    Submit string submit_options
  | Cancel string
  | Settles nat "thrown + settled_run"
  | ReportEnds nat
  | WatchdogFires nat

fun executor_step :: "executor_cfg \<Rightarrow> executor \<Rightarrow> executor_event \<Rightarrow> executor" where
  "executor_step cfg s (Submit i opts) = submit cfg i opts s"
| "executor_step cfg s (Cancel i) = snd (cancel_queued i s)"
| "executor_step cfg s (Settles k r) = run_settles k r s"
| "executor_step cfg s (ReportEnds k) = report_ends cfg k s"
| "executor_step cfg s (WatchdogFires k) = watchdog_fires cfg k s"

definition executor_run :: "executor_cfg \<Rightarrow> executor_event list \<Rightarrow> executor" where
  "executor_run cfg evs = foldl (executor_step cfg) new_executor evs"

end
