(* ===== verification/TaskQueueProps.thy ===== *)
theory TaskQueueProps
  imports TaskQueue "HOL-Library.Multiset"
begin

text \<open>
  What the executor of \<open>engine/task-executor.service.ts\<close> keeps in every history: its books agree with
  the tasks that hold a slot (\<open>executor_ok\<close>), its limits hold, and every task is reported exactly once
  unless it was cancelled in the queue. \<open>executor_step_shape\<close> says once what an event can do; the
  invariants here and in the theory of fair turns are proved over its three cases. A drain keeps whatever
  its single pick keeps: the locale \<open>drained_invariant\<close>.
\<close>

section \<open>The books\<close>

definition holds_slot :: "task_flight \<Rightarrow> bool" where
  "holds_slot f \<longleftrightarrow> tf_phase f \<noteq> TaskAbandoned"

definition flight_user :: "task_flight \<Rightarrow> string" where
  "flight_user f = so_userId (ti_options (tf_item f))"

definition slots_of :: "string \<Rightarrow> executor \<Rightarrow> nat" where
  "slots_of u s = count_if (\<lambda>f. holds_slot f \<and> flight_user f = u) (ex_flights s)"

definition slots :: "executor \<Rightarrow> nat" where
  "slots s = count_if holds_slot (ex_flights s)"

text \<open>The part of the invariant about the queues, and the part about the counters.\<close>

definition queues_ok :: "executor \<Rightarrow> bool" where
  "queues_ok s \<longleftrightarrow>
     map fst (ex_queues s) = ex_rotation s \<and> distinct (ex_rotation s) \<and>
     (ex_rotation s = [] \<and> ex_rotationIdx s = 0 \<or> ex_rotationIdx s < length (ex_rotation s)) \<and>
     (\<forall>(u, q) \<in> set (ex_queues s). \<forall>item \<in> set q. so_userId (ti_options item) = u)"

definition counters_ok :: "executor \<Rightarrow> bool" where
  "counters_ok s \<longleftrightarrow> ex_activeCount s = int (slots s) \<and> (\<forall>u. active_of u s = int (slots_of u s))"

definition executor_ok :: "executor \<Rightarrow> bool" where
  "executor_ok s \<longleftrightarrow> queues_ok s \<and> counters_ok s"

lemma executor_ok_new [simp]: "executor_ok new_executor"
  by (simp add: executor_ok_def queues_ok_def counters_ok_def new_executor_def slots_def slots_of_def active_of_def)

lemma emit_frame [simp]:
  "ex_queues (emit es s) = ex_queues s" "ex_active (emit es s) = ex_active s"
  "ex_rotation (emit es s) = ex_rotation s" "ex_rotationIdx (emit es s) = ex_rotationIdx s"
  "ex_activeCount (emit es s) = ex_activeCount s" "ex_flights (emit es s) = ex_flights s"
  "ex_effects (emit es s) = ex_effects s @ es"
  by (simp_all add: emit_def)

lemma executor_ok_emit [simp]: "executor_ok (emit es s) = executor_ok s"
  by (simp add: executor_ok_def queues_ok_def counters_ok_def slots_def slots_of_def active_of_def)

lemma queues_ok_cong:
  "ex_queues t = ex_queues s \<Longrightarrow> ex_rotation t = ex_rotation s \<Longrightarrow> ex_rotationIdx t = ex_rotationIdx s \<Longrightarrow>
   queues_ok t = queues_ok s"
  by (simp add: queues_ok_def)

lemma counters_ok_cong:
  "ex_active t = ex_active s \<Longrightarrow> ex_activeCount t = ex_activeCount s \<Longrightarrow> ex_flights t = ex_flights s \<Longrightarrow>
   counters_ok t = counters_ok s"
  by (simp add: counters_ok_def slots_def slots_of_def active_of_def)

lemma queue_of_in: "queue_of u s \<noteq> [] \<Longrightarrow> (u, queue_of u s) \<in> set (ex_queues s)"
  by (auto simp: queue_of_def dest: map_of_SomeD split: option.splits)

lemma queue_users: "queues_ok s \<Longrightarrow> item \<in> set (queue_of u s) \<Longrightarrow> so_userId (ti_options item) = u"
  using queue_of_in [of u s] by (force simp: queues_ok_def)

text \<open>Picking an item: its owner, what is left of the queue, where the rotation stands.\<close>

lemma next_eligibleE:
  assumes "next_eligible_item cfg s = Some (item, t)"
  obtains i u rest where
    "find (\<lambda>i. eligible cfg s (ex_rotation s ! rotation_index s i)) [0..<length (ex_rotation s)] = Some i"
    "ex_rotation s ! rotation_index s i = u" "eligible cfg s u" "map_of (ex_queues s) u = Some (item # rest)"
    "t = s\<lparr>ex_rotationIdx := (rotation_index s i + 1) mod length (ex_rotation s),
           ex_queues := upd_assoc u rest (ex_queues s)\<rparr>"
proof -
  from assms obtain i where i: "find (\<lambda>i. eligible cfg s (ex_rotation s ! rotation_index s i))
      [0..<length (ex_rotation s)] = Some i"
    by (auto simp: next_eligible_item_def split: option.splits)
  let ?u = "ex_rotation s ! rotation_index s i"
  from i have el: "eligible cfg s ?u" by (auto simp: find_Some_iff)
  then obtain x rest where q: "map_of (ex_queues s) ?u = Some (x # rest)"
    by (auto simp: eligible_def queue_of_def split: option.splits list.splits)
  with assms i have "item = x"
    "t = s\<lparr>ex_rotationIdx := (rotation_index s i + 1) mod length (ex_rotation s),
           ex_queues := upd_assoc ?u rest (ex_queues s)\<rparr>"
    by (auto simp: next_eligible_item_def Let_def queue_of_def)
  with that [OF i refl el] q show thesis by simp
qed

lemma next_eligible_None:
  "next_eligible_item cfg s = None \<Longrightarrow> i < length (ex_rotation s) \<Longrightarrow> \<not> eligible cfg s (ex_rotation s ! rotation_index s i)"
  by (auto simp: next_eligible_item_def find_None_iff Let_def split: option.splits)

lemma rotation_onto:
  assumes "u \<in> set (ex_rotation s)" "ex_rotationIdx s < length (ex_rotation s)"
  obtains i where "i < length (ex_rotation s)" "ex_rotation s ! rotation_index s i = u"
proof -
  let ?n = "length (ex_rotation s)"
  from assms(1) obtain j where j: "j < ?n" "ex_rotation s ! j = u" by (auto simp: in_set_conv_nth)
  let ?i = "(j + ?n - ex_rotationIdx s) mod ?n"
  from assms(2) have "ex_rotationIdx s + (j + ?n - ex_rotationIdx s) = j + ?n" by linarith
  then have "rotation_index s ?i = (j + ?n) mod ?n" by (simp only: rotation_index_def mod_add_right_eq)
  then have "rotation_index s ?i = j" using j(1) by simp
  then have "ex_rotation s ! rotation_index s ?i = u" using j(2) by simp
  moreover from j(1) have "0 < ?n" by linarith
  then have "?i < ?n" by (rule mod_less_divisor)
  ultimately show thesis by (rule that [rotated])
qed

lemma queues_ok_upd:
  assumes "queues_ok s" "map_of (ex_queues s) u \<noteq> None" "\<forall>item \<in> set q. so_userId (ti_options item) = u"
    "ex_queues t = upd_assoc u q (ex_queues s)" "ex_rotation t = ex_rotation s"
    "ex_rotationIdx t < length (ex_rotation s)"
  shows "queues_ok t"
proof -
  have "u \<in> fst ` set (ex_queues s)" using assms(2) by (simp add: map_of_None_iff)
  then have keys: "map fst (ex_queues t) = map fst (ex_queues s)" unfolding assms(4) keys_upd_assoc by simp
  have "so_userId (ti_options item) = v" if "(v, r) \<in> set (ex_queues t)" "item \<in> set r" for v r item
  proof -
    from that(1) assms(4) set_upd_assoc_subset [of u q "ex_queues s"]
    have "(v, r) = (u, q) \<or> (v, r) \<in> set (ex_queues s)" by auto
    with that(2) assms(1,3) show ?thesis by (auto simp: queues_ok_def)
  qed
  with keys assms(1,5,6) show ?thesis by (auto simp: queues_ok_def)
qed

lemma next_eligible_ok:
  assumes "next_eligible_item cfg s = Some (item, t)" "executor_ok s"
  shows "executor_ok t"
proof (rule next_eligibleE [OF assms(1)])
  fix i u rest
  assume h: "map_of (ex_queues s) u = Some (item # rest)"
    "t = s\<lparr>ex_rotationIdx := (rotation_index s i + 1) mod length (ex_rotation s),
           ex_queues := upd_assoc u rest (ex_queues s)\<rparr>"
  from assms(2) have q: "queues_ok s" and c: "counters_ok s" by (simp_all add: executor_ok_def)
  from h(1) have "ex_rotation s \<noteq> []" using q by (auto simp: queues_ok_def)
  then have "(rotation_index s i + 1) mod length (ex_rotation s) < length (ex_rotation s)" by simp
  moreover have "\<forall>item \<in> set rest. so_userId (ti_options item) = u"
    using queue_users [OF q, of _ u] h(1) by (auto simp: queue_of_def)
  ultimately have "queues_ok t"
    using h by (intro queues_ok_upd [OF q, of u rest]) simp_all
  moreover have "counters_ok t = counters_ok s" by (rule counters_ok_cong) (simp_all add: h(2))
  ultimately show ?thesis using c by (simp add: executor_ok_def)
qed

lemma start_task_ok: "executor_ok s \<Longrightarrow> executor_ok (start_task cfg item s)"
  by (auto simp: executor_ok_def queues_ok_def counters_ok_def start_task_def Let_def slots_def slots_of_def
      active_of_def holds_slot_def flight_user_def split: option.splits)

lemma drain_induct [case_names full idle pick]:
  assumes "\<And>cfg s. \<not> ex_activeCount s < ec_maxConcurrent cfg \<Longrightarrow> P cfg s"
    and "\<And>cfg s. ex_activeCount s < ec_maxConcurrent cfg \<Longrightarrow> next_eligible_item cfg s = None \<Longrightarrow> P cfg s"
    and "\<And>cfg s item t. ex_activeCount s < ec_maxConcurrent cfg \<Longrightarrow> next_eligible_item cfg s = Some (item, t) \<Longrightarrow>
          P cfg (start_task cfg item t) \<Longrightarrow> P cfg s"
  shows "P cfg s"
proof (induction cfg s rule: drain.induct)
  case (1 cfg s)
  show ?case
  proof (cases "ex_activeCount s < ec_maxConcurrent cfg")
    case False
    then show ?thesis by (rule assms(1))
  next
    case True
    show ?thesis
    proof (cases "next_eligible_item cfg s")
      case None
      with True show ?thesis by (rule assms(2))
    next
      case (Some p)
      with 1 True show ?thesis by (cases p) (auto intro: assms(3))
    qed
  qed
qed

lemma drain_full [simp]: "\<not> ex_activeCount s < ec_maxConcurrent cfg \<Longrightarrow> drain cfg s = s"
  by (simp add: drain.simps)

lemma drain_idle [simp]: "next_eligible_item cfg s = None \<Longrightarrow> drain cfg s = s"
  by (simp add: drain.simps)

lemma drain_pick:
  "ex_activeCount s < ec_maxConcurrent cfg \<Longrightarrow> next_eligible_item cfg s = Some (item, t) \<Longrightarrow>
   drain cfg s = drain cfg (start_task cfg item t)"
  by (subst drain.simps) simp

text \<open>The contract of what a drain keeps.\<close>

locale drained_invariant =
  fixes P :: "executor_cfg \<Rightarrow> executor \<Rightarrow> bool"
  assumes pick: "P cfg s \<Longrightarrow> ex_activeCount s < ec_maxConcurrent cfg \<Longrightarrow> next_eligible_item cfg s = Some (item, t) \<Longrightarrow>
    P cfg (start_task cfg item t)"
begin

lemma drain: "P cfg s \<Longrightarrow> P cfg (drain cfg s)"
  by (induction cfg s rule: drain_induct) (auto simp: drain_pick intro: pick)

end

interpretation books: drained_invariant "\<lambda>_. executor_ok"
  by unfold_locales (auto intro: start_task_ok next_eligible_ok)

section \<open>Every event keeps the books\<close>

lemma enqueue_ok:
  assumes "executor_ok s"
  shows "executor_ok (enqueue_task item s)"
proof -
  let ?u = "so_userId (ti_options item)"
  let ?t = "enqueue_task item s"
  from assms have q: "queues_ok s" and c: "counters_ok s" by (simp_all add: executor_ok_def)
  have users: "\<forall>x \<in> set (queue_of ?u s @ [item]). so_userId (ti_options x) = ?u"
    using queue_users [OF q, of _ ?u] by auto
  have "queues_ok ?t"
  proof (cases "map_of (ex_queues s) ?u = None")
    case True
    then have fresh: "?u \<notin> fst ` set (ex_queues s)" by (simp add: map_of_None_iff)
    have "so_userId (ti_options x) = v" if "(v, r) \<in> set (ex_queues ?t)" "x \<in> set r" for v r x
    proof -
      from that(1) set_upd_assoc_subset [of ?u "queue_of ?u s @ [item]" "ex_queues s"]
      have "(v, r) = (?u, queue_of ?u s @ [item]) \<or> (v, r) \<in> set (ex_queues s)"
        by (auto simp: enqueue_task_def Let_def split: if_splits)
      with that(2) users q show ?thesis by (auto simp: queues_ok_def)
    qed
    then have "\<forall>(v, r) \<in> set (ex_queues ?t). \<forall>x \<in> set r. so_userId (ti_options x) = v" by blast
    moreover have "map fst (ex_queues ?t) = ex_rotation s @ [?u]" "ex_rotation ?t = ex_rotation s @ [?u]"
      "ex_rotationIdx ?t = ex_rotationIdx s"
      using True fresh q by (auto simp: enqueue_task_def keys_upd_assoc queues_ok_def Let_def)
    moreover have "?u \<notin> set (ex_rotation s)" using fresh q by (metis list.set_map queues_ok_def)
    ultimately show ?thesis
      using q unfolding queues_ok_def by (simp, cases "ex_rotation s = []") simp_all
  next
    case False
    then have "ex_rotation s \<noteq> []" using q by (auto simp: queues_ok_def)
    with q have "ex_rotationIdx ?t < length (ex_rotation s)"
      by (simp add: queues_ok_def enqueue_task_def Let_def)
    then show ?thesis
      by (intro queues_ok_upd [OF q False users]) (simp_all add: enqueue_task_def Let_def False del: not_None_eq)
  qed
  moreover have "counters_ok ?t = counters_ok s"
    by (rule counters_ok_cong) (simp_all add: enqueue_task_def Let_def)
  ultimately show ?thesis using c by (simp add: executor_ok_def)
qed

lemma submit_ok: "executor_ok s \<Longrightarrow> executor_ok (submit cfg i opts s)"
  by (auto simp: submit_def split: option.splits intro!: books.drain enqueue_ok)

lemma remove_first_subset: "set (remove_first P xs) \<subseteq> set xs"
  by (induction xs) auto

lemma cancel_ok:
  assumes "executor_ok s"
  shows "executor_ok (snd (cancel_queued i s))"
proof (cases "find (\<lambda>(u, q). list_ex (has_run i) q) (ex_queues s)")
  case None
  with assms show ?thesis by (simp add: cancel_queued_def)
next
  case (Some p)
  obtain u q where p: "p = (u, q)" by (cases p)
  let ?t = "snd (cancel_queued i s)"
  have t: "?t = s\<lparr>ex_queues := upd_assoc u (remove_first (has_run i) q) (ex_queues s)\<rparr>"
    using Some p by (simp add: cancel_queued_def)
  from assms have ok: "queues_ok s" and c: "counters_ok s" by (simp_all add: executor_ok_def)
  from Some p have mem: "(u, q) \<in> set (ex_queues s)" by (auto simp: find_Some_iff in_set_conv_nth)
  then have "u \<in> fst ` set (ex_queues s)" by (rule image_eqI [rotated]) simp
  then have "map_of (ex_queues s) u \<noteq> None" by (simp only: map_of_None_iff not_not)
  moreover from mem ok have "\<forall>x \<in> set (remove_first (has_run i) q). so_userId (ti_options x) = u"
    using remove_first_subset [of "has_run i" q] by (fastforce simp: queues_ok_def)
  moreover from mem ok have "ex_rotationIdx s < length (ex_rotation s)" by (force simp: queues_ok_def)
  ultimately have "queues_ok ?t"
    by (intro queues_ok_upd [OF ok]) (simp_all add: t)
  moreover have "counters_ok ?t = counters_ok s" by (rule counters_ok_cong) (simp_all add: t)
  ultimately show ?thesis using c by (simp add: executor_ok_def)
qed

text \<open>Giving back the slot of a task that no longer holds it.\<close>

definition one_slot_over :: "string \<Rightarrow> executor \<Rightarrow> bool" where
  "one_slot_over u s \<longleftrightarrow> queues_ok s \<and> ex_activeCount s = int (slots s) + 1 \<and>
     (\<forall>v. active_of v s = int (slots_of v s) + (if v = u then 1 else 0))"

text \<open>Freeing a slot: the state before the last drain.\<close>

definition freed :: "task_item \<Rightarrow> executor \<Rightarrow> executor" where
  "freed item s =
     (let u = so_userId (ti_options item);
          active = (case map_of (ex_active s) u of None \<Rightarrow> 1 | Some n \<Rightarrow> n) in
      s\<lparr>ex_activeCount := ex_activeCount s - 1, ex_active := upd_assoc u (max 0 (active - 1)) (ex_active s)\<rparr>)"

lemma finalize_freed: "finalize cfg item s = drain cfg (freed item s)"
  by (simp add: finalize_def freed_def Let_def)

lemma freed_ok:
  assumes "one_slot_over (so_userId (ti_options item)) s"
  shows "executor_ok (freed item s)"
proof -
  let ?u = "so_userId (ti_options item)"
  from assms have "0 < active_of ?u s" by (simp add: one_slot_over_def)
  then obtain n where n: "map_of (ex_active s) ?u = Some n" "active_of ?u s = n"
    by (auto simp: active_of_def split: option.splits)
  let ?t = "s\<lparr>ex_activeCount := ex_activeCount s - 1, ex_active := upd_assoc ?u (max 0 (n - 1)) (ex_active s)\<rparr>"
  have "slots ?t = slots s" "slots_of v ?t = slots_of v s" for v by (simp_all add: slots_def slots_of_def)
  moreover have "active_of v ?t = (if v = ?u then max 0 (n - 1) else active_of v s)" for v
    by (simp add: active_of_def)
  moreover have "queues_ok ?t = queues_ok s" by (rule queues_ok_cong) simp_all
  ultimately have "executor_ok ?t"
    using assms n(2) by (auto simp: executor_ok_def counters_ok_def one_slot_over_def)
  then show ?thesis using n(1) by (simp add: freed_def Let_def)
qed

text \<open>Exchanging or dropping one flight changes the books by that flight alone.\<close>

lemma slots_drop:
  assumes "k < length (ex_flights s)"
  shows "slots s = slots (s\<lparr>ex_flights := drop_nth k (ex_flights s)\<rparr>) + (if holds_slot (ex_flights s ! k) then 1 else 0)"
    and "slots_of v s = slots_of v (s\<lparr>ex_flights := drop_nth k (ex_flights s)\<rparr>) +
         (if holds_slot (ex_flights s ! k) \<and> flight_user (ex_flights s ! k) = v then 1 else 0)"
  using count_if_drop_nth [OF assms] by (simp_all add: slots_def slots_of_def)

lemma slots_put:
  assumes "k < length (ex_flights s)"
  shows "slots (s\<lparr>ex_flights := (ex_flights s)[k := f]\<rparr>) + (if holds_slot (ex_flights s ! k) then 1 else 0) =
         slots s + (if holds_slot f then 1 else 0)"
    and "slots_of v (s\<lparr>ex_flights := (ex_flights s)[k := f]\<rparr>) +
         (if holds_slot (ex_flights s ! k) \<and> flight_user (ex_flights s ! k) = v then 1 else 0) =
         slots_of v s + (if holds_slot f \<and> flight_user f = v then 1 else 0)"
  using count_if_update [OF assms, of holds_slot f]
    count_if_update [OF assms, of "\<lambda>f. holds_slot f \<and> flight_user f = v" f]
  by (simp_all add: slots_def slots_of_def)

lemma books_same_slots:
  assumes "executor_ok s" "ex_queues t = ex_queues s" "ex_rotation t = ex_rotation s"
    "ex_rotationIdx t = ex_rotationIdx s" "ex_active t = ex_active s" "ex_activeCount t = ex_activeCount s"
    "slots t = slots s" "\<And>v. slots_of v t = slots_of v s"
  shows "executor_ok t"
  using assms queues_ok_cong [OF assms(2-4)] by (simp add: executor_ok_def counters_ok_def active_of_def)

lemma books_one_over:
  assumes "executor_ok s" "ex_queues t = ex_queues s" "ex_rotation t = ex_rotation s"
    "ex_rotationIdx t = ex_rotationIdx s" "ex_active t = ex_active s" "ex_activeCount t = ex_activeCount s"
    "slots s = slots t + 1" "\<And>v. slots_of v s = slots_of v t + (if u = v then 1 else 0)"
  shows "one_slot_over u t"
  using assms queues_ok_cong [OF assms(2-4)]
  by (auto simp: executor_ok_def counters_ok_def active_of_def one_slot_over_def)

lemma one_slot_over_emit [simp]: "one_slot_over u (emit es s) = one_slot_over u s"
  by (simp add: one_slot_over_def queues_ok_def slots_def slots_of_def active_of_def)

lemma run_settles_ok:
  assumes "executor_ok s"
  shows "executor_ok (run_settles k r s)"
proof (cases "k < length (ex_flights s)")
  case True
  show ?thesis
  proof (cases "tf_phase (ex_flights s ! k)")
    case TaskRunning
    let ?f = "(ex_flights s ! k)\<lparr>tf_phase := TaskReporting\<rparr>"
    have "holds_slot (ex_flights s ! k)" "holds_slot ?f" "flight_user ?f = flight_user (ex_flights s ! k)"
      by (simp_all add: holds_slot_def flight_user_def TaskRunning)
    then have "executor_ok (s\<lparr>ex_flights := (ex_flights s)[k := ?f]\<rparr>)"
      using slots_put [OF True, where f = ?f] by (intro books_same_slots [OF assms]) simp_all
    with True TaskRunning show ?thesis by (simp add: run_settles_def Let_def)
  next
    case TaskReporting
    with assms True show ?thesis by (simp add: run_settles_def Let_def)
  next
    case TaskAbandoned
    then have "\<not> holds_slot (ex_flights s ! k)" by (simp add: holds_slot_def)
    then have "executor_ok (s\<lparr>ex_flights := drop_nth k (ex_flights s)\<rparr>)"
      using slots_drop [OF True] by (intro books_same_slots [OF assms]) simp_all
    with True TaskAbandoned show ?thesis by (simp add: run_settles_def Let_def)
  qed
next
  case False
  with assms show ?thesis by (simp add: run_settles_def)
qed

text \<open>The two events that free a slot: the state before the last drain is right again.\<close>

lemma report_freed_ok:
  assumes "executor_ok s" "k < length (ex_flights s)" "tf_phase (ex_flights s ! k) = TaskReporting"
  shows "executor_ok (freed (tf_item (ex_flights s ! k)) (s\<lparr>ex_flights := drop_nth k (ex_flights s)\<rparr>))"
proof -
  have "holds_slot (ex_flights s ! k)" by (simp add: holds_slot_def assms(3))
  then have "one_slot_over (flight_user (ex_flights s ! k)) (s\<lparr>ex_flights := drop_nth k (ex_flights s)\<rparr>)"
    using slots_drop [OF assms(2)] by (intro books_one_over [OF assms(1)]) simp_all
  then show ?thesis by (intro freed_ok) (simp add: flight_user_def)
qed

lemma watchdog_freed_ok:
  assumes "executor_ok s" "k < length (ex_flights s)" "tf_phase (ex_flights s ! k) = TaskRunning"
  shows "executor_ok (freed (tf_item (ex_flights s ! k))
    (emit es (s\<lparr>ex_flights := (ex_flights s)[k := (ex_flights s ! k)\<lparr>tf_phase := TaskAbandoned\<rparr>]\<rparr>)))"
proof -
  let ?f = "(ex_flights s ! k)\<lparr>tf_phase := TaskAbandoned\<rparr>"
  from assms(3) have "holds_slot (ex_flights s ! k)" "\<not> holds_slot ?f" by (simp_all add: holds_slot_def)
  then have "one_slot_over (flight_user (ex_flights s ! k)) (s\<lparr>ex_flights := (ex_flights s)[k := ?f]\<rparr>)"
    using slots_put [OF assms(2), where f = ?f] by (intro books_one_over [OF assms(1)]) (simp_all add: eq_commute)
  then show ?thesis by (intro freed_ok) (simp add: flight_user_def)
qed

lemma report_ends_cases:
  obtains (idle) "report_ends cfg k s = s"
  | (free) "k < length (ex_flights s)" "tf_phase (ex_flights s ! k) = TaskReporting"
      "report_ends cfg k s =
       drain cfg (freed (tf_item (ex_flights s ! k)) (s\<lparr>ex_flights := drop_nth k (ex_flights s)\<rparr>))"
  by (cases "k < length (ex_flights s)"; cases "tf_phase (ex_flights s ! k)")
     (simp_all add: report_ends_def finalize_freed Let_def)

lemma watchdog_cases:
  obtains (idle) "watchdog_fires cfg k s = s"
  | (free) es where "k < length (ex_flights s)" "tf_phase (ex_flights s ! k) = TaskRunning"
      "es = (let i = ti_agentRunId (tf_item (ex_flights s ! k)) in
         [RunAborted i ''watchdog_timeout'', RowFailed i ''Sub-agent run timed out (watchdog)'',
          OutcomePublished i (failed_outcome ''Sub-agent run timed out'')])"
      "watchdog_fires cfg k s =
       drain cfg (freed (tf_item (ex_flights s ! k))
         (emit es (s\<lparr>ex_flights := (ex_flights s)[k := (ex_flights s ! k)\<lparr>tf_phase := TaskAbandoned\<rparr>]\<rparr>)))"
  by (cases "k < length (ex_flights s)"; cases "tf_phase (ex_flights s ! k)")
     (simp_all add: watchdog_fires_def finalize_freed Let_def)

lemma report_ends_ok: "executor_ok s \<Longrightarrow> executor_ok (report_ends cfg k s)"
  by (cases rule: report_ends_cases [of cfg k s]) (simp_all add: books.drain report_freed_ok)

lemma watchdog_ok: "executor_ok s \<Longrightarrow> executor_ok (watchdog_fires cfg k s)"
  by (cases rule: watchdog_cases [of cfg k s]) (simp_all add: books.drain watchdog_freed_ok)

lemma executor_step_ok: "executor_ok s \<Longrightarrow> executor_ok (executor_step cfg s e)"
  by (cases e) (simp_all add: submit_ok cancel_ok run_settles_ok report_ends_ok watchdog_ok)

text \<open>What every event keeps holds after any history.\<close>

lemma executor_run_invariant:
  assumes "P new_executor" "\<And>s e. P s \<Longrightarrow> e \<in> set evs \<Longrightarrow> P (executor_step cfg s e)"
  shows "P (executor_run cfg evs)"
proof -
  have "P (foldl (executor_step cfg) s es)" if "P s" "set es \<subseteq> set evs" for s es
    using that by (induction es arbitrary: s) (auto intro: assms(2))
  with assms(1) show ?thesis by (simp add: executor_run_def)
qed

lemma executor_run_ok: "executor_ok (executor_run cfg evs)"
  by (rule executor_run_invariant [where P = executor_ok]) (auto intro: executor_step_ok)

section \<open>What is queued\<close>

definition queued :: "executor \<Rightarrow> task_item multiset" where
  "queued s = mset (concat (map snd (ex_queues s)))"

lemma size_queued: "size (queued s) = pending_count s"
  by (simp add: queued_def pending_count_def length_concat comp_def)

lemma mset_upd_assoc:
  "map_of qs u = Some q \<Longrightarrow>
   mset (concat (map snd (upd_assoc u r qs))) + mset q = mset (concat (map snd qs)) + mset r"
  by (induction u r qs rule: upd_assoc.induct) (auto simp: ac_simps split: if_splits)

lemma mset_upd_assoc_fresh:
  "map_of qs u = None \<Longrightarrow> mset (concat (map snd (upd_assoc u r qs))) = mset (concat (map snd qs)) + mset r"
  by (induction u r qs rule: upd_assoc.induct) (auto simp: ac_simps split: if_splits)

lemma queued_cong: "ex_queues t = ex_queues s \<Longrightarrow> queued t = queued s"
  by (simp add: queued_def)

lemma queued_frame [simp]:
  "queued (emit es s) = queued s" "queued (start_task cfg item s) = queued s"
  "queued (s\<lparr>ex_flights := fs\<rparr>) = queued s"
  by (simp_all add: queued_def start_task_def Let_def)

lemma queued_pick:
  assumes "next_eligible_item cfg s = Some (item, t)"
  shows "queued s = add_mset item (queued t)"
proof (rule next_eligibleE [OF assms])
  fix i u rest
  assume "map_of (ex_queues s) u = Some (item # rest)"
    "t = s\<lparr>ex_rotationIdx := (rotation_index s i + 1) mod length (ex_rotation s),
           ex_queues := upd_assoc u rest (ex_queues s)\<rparr>"
  then show ?thesis using mset_upd_assoc [of "ex_queues s" u "item # rest" rest] by (simp add: queued_def)
qed

lemma queued_enqueue: "queued (enqueue_task item s) = add_mset item (queued s)"
proof (cases "map_of (ex_queues s) (so_userId (ti_options item))")
  case None
  then show ?thesis by (simp add: queued_def enqueue_task_def queue_of_def mset_upd_assoc_fresh Let_def)
next
  case (Some q)
  then show ?thesis
    using mset_upd_assoc [OF Some, of "q @ [item]"]
    by (simp add: queued_def enqueue_task_def queue_of_def Let_def)
qed

lemma mset_remove_first:
  "list_ex P q \<Longrightarrow> \<exists>x. P x \<and> mset q = add_mset x (mset (remove_first P q))"
  by (induction q) auto

text \<open>A cancellation takes one entry of the run out of the queues, or finds none there.\<close>

lemma queued_cancel:
  assumes "map fst (ex_queues s) = ex_rotation s" "distinct (ex_rotation s)"
  shows "fst (cancel_queued i s) \<Longrightarrow> \<exists>x. has_run i x \<and> queued s = add_mset x (queued (snd (cancel_queued i s)))"
    and "\<not> fst (cancel_queued i s) \<Longrightarrow> snd (cancel_queued i s) = s"
proof -
  assume "fst (cancel_queued i s)"
  then obtain u q where f: "find (\<lambda>(u, q). list_ex (has_run i) q) (ex_queues s) = Some (u, q)"
    by (auto simp: cancel_queued_def split: option.splits)
  then have "(u, q) \<in> set (ex_queues s)" "list_ex (has_run i) q" by (auto simp: find_Some_iff in_set_conv_nth)
  with assms have "map_of (ex_queues s) u = Some q" by (auto intro: map_of_is_SomeI)
  from mset_upd_assoc [OF this, of "remove_first (has_run i) q"] mset_remove_first [OF \<open>list_ex (has_run i) q\<close>] f
  show "\<exists>x. has_run i x \<and> queued s = add_mset x (queued (snd (cancel_queued i s)))"
    by (auto simp: queued_def cancel_queued_def)
next
  assume "\<not> fst (cancel_queued i s)"
  then show "snd (cancel_queued i s) = s" by (auto simp: cancel_queued_def split: option.splits)
qed

section \<open>The limits\<close>

lemma active_of_start:
  "active_of v (start_task cfg item s) =
   active_of v s + (if v = so_userId (ti_options item) then 1 else 0)"
  by (simp add: active_of_def start_task_def Let_def split: option.splits)

lemma activeCount_start [simp]: "ex_activeCount (start_task cfg item s) = ex_activeCount s + 1"
  by (simp add: start_task_def Let_def)

lemma next_eligible_frame:
  "next_eligible_item cfg s = Some (item, t) \<Longrightarrow>
   ex_activeCount t = ex_activeCount s \<and> ex_active t = ex_active s \<and> ex_flights t = ex_flights s \<and>
   ex_effects t = ex_effects s \<and> ex_rotation t = ex_rotation s \<and> ex_trackers t = ex_trackers s"
  by (erule next_eligibleE) simp

lemma pick_owner:
  assumes "next_eligible_item cfg s = Some (item, t)" "queues_ok s"
  shows "eligible cfg s (so_userId (ti_options item))" "item \<in># queued s"
    "active_of (so_userId (ti_options item)) s < uq_maxConcurrent (quota_for cfg (ti_options item))"
proof -
  from assms(1) obtain i u rest where h: "eligible cfg s u" "map_of (ex_queues s) u = Some (item # rest)"
    by (rule next_eligibleE)
  then have "queue_of u s = item # rest" by (simp add: queue_of_def)
  with assms(2) queue_users [of s item u] have "u = so_userId (ti_options item)" by simp
  with h \<open>queue_of u s = item # rest\<close>
  show "eligible cfg s (so_userId (ti_options item))"
    "active_of (so_userId (ti_options item)) s < uq_maxConcurrent (quota_for cfg (ti_options item))"
    by (auto simp: eligible_def)
  show "item \<in># queued s" using queued_pick [OF assms(1)] by simp
qed

lemma pending_drain: "pending_count (drain cfg s) \<le> pending_count s"
proof (induction cfg s rule: drain_induct)
  case (pick cfg s item t)
  with next_eligible_pending [of cfg s item t] show ?case by (simp add: drain_pick)
qed simp_all

text \<open>No user holds more slots than the largest concurrency its submitted tasks asked for.\<close>

definition share_ok :: "(string \<Rightarrow> int) \<Rightarrow> executor_cfg \<Rightarrow> executor \<Rightarrow> bool" where
  "share_ok Q cfg s \<longleftrightarrow>
     executor_ok s \<and>
     (\<forall>item. item \<in># queued s \<longrightarrow> uq_maxConcurrent (quota_for cfg (ti_options item)) \<le> Q (so_userId (ti_options item))) \<and>
     (\<forall>u. active_of u s \<le> max 0 (Q u))"

definition room_ok :: "executor_cfg \<Rightarrow> executor \<Rightarrow> bool" where
  "room_ok cfg s \<longleftrightarrow> ex_activeCount s \<le> max 0 (ec_maxConcurrent cfg)"

interpretation room: drained_invariant room_ok
  by unfold_locales (auto simp: room_ok_def dest: next_eligible_frame)

lemma share_pick:
  assumes "share_ok Q cfg s" "next_eligible_item cfg s = Some (item, t)"
  shows "share_ok Q cfg (start_task cfg item t)"
proof -
  let ?u = "so_userId (ti_options item)"
  from assms(1) have ok: "executor_ok s" by (simp add: share_ok_def)
  then have q: "queues_ok s" by (simp add: executor_ok_def)
  have same: "active_of v t = active_of v s" for v
    using next_eligible_frame [OF assms(2)] by (simp add: active_of_def)
  from pick_owner(2,3) [OF assms(2) q] assms(1) have "active_of ?u s < Q ?u" by (force simp: share_ok_def)
  then have "active_of v (start_task cfg item t) \<le> max 0 (Q v)" for v
    using assms(1) by (auto simp: active_of_start same share_ok_def)
  moreover have "executor_ok (start_task cfg item t)"
    using start_task_ok next_eligible_ok [OF assms(2) ok] by blast
  ultimately show ?thesis
    using assms(1) queued_pick [OF assms(2)] by (simp add: share_ok_def)
qed

interpretation share: drained_invariant "share_ok Q" for Q
  by unfold_locales (rule share_pick)

definition limits_ok :: "(string \<Rightarrow> int) \<Rightarrow> executor_cfg \<Rightarrow> executor \<Rightarrow> bool" where
  "limits_ok Q cfg s \<longleftrightarrow>
     share_ok Q cfg s \<and> room_ok cfg s \<and> int (pending_count s) \<le> max 0 (ec_maxPending cfg)"

lemma limits_drain: "limits_ok Q cfg s \<Longrightarrow> limits_ok Q cfg (drain cfg s)"
  using pending_drain [of cfg s] by (auto simp: limits_ok_def intro: share.drain room.drain)

lemma limits_emit [simp]: "limits_ok Q cfg (emit es s) = limits_ok Q cfg s"
  by (simp add: limits_ok_def share_ok_def room_ok_def active_of_def pending_count_def)

lemma enqueue_frame [simp]:
  "ex_active (enqueue_task item s) = ex_active s" "ex_activeCount (enqueue_task item s) = ex_activeCount s"
  "ex_flights (enqueue_task item s) = ex_flights s" "ex_effects (enqueue_task item s) = ex_effects s"
  "active_of u (enqueue_task item s) = active_of u s"
  by (simp_all add: enqueue_task_def active_of_def Let_def)

lemma limits_submit:
  assumes "limits_ok Q cfg s" "uq_maxConcurrent (quota_for cfg opts) \<le> Q (so_userId opts)"
  shows "limits_ok Q cfg (submit cfg i opts s)"
proof (cases "rejection cfg opts s")
  case None
  let ?t = "enqueue_task \<lparr>ti_agentRunId = i, ti_options = opts\<rparr> s"
  from None have "int (pending_count s) < ec_maxPending cfg"
    by (simp add: rejection_def Let_def split: if_splits)
  moreover have "pending_count ?t = Suc (pending_count s)"
    by (simp add: size_queued [symmetric] queued_enqueue)
  moreover have "share_ok Q cfg ?t"
    using assms by (auto simp: limits_ok_def share_ok_def enqueue_ok queued_enqueue)
  ultimately have "limits_ok Q cfg ?t"
    using assms(1) by (simp add: limits_ok_def room_ok_def)
  with None show ?thesis by (simp add: submit_def limits_drain)
next
  case (Some m)
  with assms show ?thesis by (simp add: submit_def)
qed

lemma queued_cancel_subset: "queues_ok s \<Longrightarrow> queued (snd (cancel_queued i s)) \<subseteq># queued s"
  using queued_cancel [of s i] by (cases "fst (cancel_queued i s)") (auto simp: queues_ok_def)

lemma cancel_frame [simp]:
  "ex_active (snd (cancel_queued i s)) = ex_active s" "ex_activeCount (snd (cancel_queued i s)) = ex_activeCount s"
  "ex_flights (snd (cancel_queued i s)) = ex_flights s" "ex_effects (snd (cancel_queued i s)) = ex_effects s"
  "ex_rotation (snd (cancel_queued i s)) = ex_rotation s" "ex_rotationIdx (snd (cancel_queued i s)) = ex_rotationIdx s"
  by (simp_all add: cancel_queued_def split: option.splits)

lemma freed_frame [simp]:
  "ex_activeCount (freed item s) = ex_activeCount s - 1" "ex_queues (freed item s) = ex_queues s"
  "ex_rotation (freed item s) = ex_rotation s" "ex_rotationIdx (freed item s) = ex_rotationIdx s"
  "ex_flights (freed item s) = ex_flights s" "ex_effects (freed item s) = ex_effects s"
  "queued (freed item s) = queued s" "pending_count (freed item s) = pending_count s"
  by (simp_all add: freed_def Let_def queued_def pending_count_def)

lemma active_of_freed: "active_of v (freed item s) \<le> max 0 (active_of v s)"
  by (auto simp: freed_def active_of_def Let_def split: option.splits)

text \<open>The settling of a run changes the flights and the effects only.\<close>

lemma run_settles_cases:
  obtains fs es where "run_settles k r s = s\<lparr>ex_flights := fs, ex_effects := ex_effects s @ es\<rparr>"
proof -
  have "\<exists>fs es. run_settles k r s = s\<lparr>ex_flights := fs, ex_effects := ex_effects s @ es\<rparr>"
  proof (cases "length (ex_flights s) \<le> k")
    case True
    then have "run_settles k r s = s\<lparr>ex_flights := ex_flights s, ex_effects := ex_effects s @ []\<rparr>"
      by (simp add: run_settles_def)
    then show ?thesis by blast
  next
    case False
    then show ?thesis
    proof (cases "tf_phase (ex_flights s ! k)")
      case TaskRunning
      with False show ?thesis by (auto simp: run_settles_def emit_def Let_def)
    next
      case TaskReporting
      with False have "run_settles k r s = s\<lparr>ex_flights := ex_flights s, ex_effects := ex_effects s @ []\<rparr>"
        by (simp add: run_settles_def Let_def)
      then show ?thesis by blast
    next
      case TaskAbandoned
      with False have "run_settles k r s = s\<lparr>ex_flights := drop_nth k (ex_flights s), ex_effects := ex_effects s @ []\<rparr>"
        by (simp add: run_settles_def Let_def)
      then show ?thesis by blast
    qed
  qed
  with that show thesis by blast
qed

text \<open>What an event does to the executor: it leaves the counters alone and adds nothing to the queues; or
  it frees a slot and drains; or it accepts a submission and drains.\<close>

lemma executor_step_shape:
  assumes "executor_ok s"
  obtains (frame) "executor_ok (executor_step cfg s e)" "queued (executor_step cfg s e) \<subseteq># queued s"
      "ex_active (executor_step cfg s e) = ex_active s" "ex_activeCount (executor_step cfg s e) = ex_activeCount s"
  | (freeing) t where "executor_step cfg s e = drain cfg t" "executor_ok t" "queued t = queued s"
      "ex_activeCount t = ex_activeCount s - 1" "\<And>v. active_of v t \<le> max 0 (active_of v s)"
  | (accepting) i opts where "e = Submit i opts" "rejection cfg opts s = None"
      "executor_step cfg s e = drain cfg (enqueue_task \<lparr>ti_agentRunId = i, ti_options = opts\<rparr> s)"
proof (cases e)
  case (Submit i opts)
  show thesis
  proof (cases "rejection cfg opts s")
    case None
    with Submit show thesis by (intro accepting [of i opts]) (simp_all add: submit_def)
  next
    case (Some m)
    with Submit assms show thesis by (intro frame) (simp_all add: submit_def)
  qed
next
  case (Cancel i)
  moreover have "queues_ok s" using assms by (simp add: executor_ok_def)
  ultimately show thesis by (intro frame) (simp_all add: cancel_ok assms queued_cancel_subset)
next
  case (Settles k r)
  obtain fs es where "run_settles k r s = s\<lparr>ex_flights := fs, ex_effects := ex_effects s @ es\<rparr>"
    by (rule run_settles_cases)
  with Settles run_settles_ok [OF assms, of k r] show thesis by (intro frame) (simp_all add: queued_def)
next
  case (ReportEnds k)
  show thesis
  proof (cases rule: report_ends_cases [of cfg k s])
    case idle
    with assms ReportEnds show thesis by (intro frame) simp_all
  next
    case free
    with ReportEnds active_of_freed [of _ "tf_item (ex_flights s ! k)" "s\<lparr>ex_flights := drop_nth k (ex_flights s)\<rparr>"]
    show thesis by (intro freeing [OF _ report_freed_ok [OF assms free(1,2)]]) (simp_all add: active_of_def)
  qed
next
  case (WatchdogFires k)
  let ?t = "s\<lparr>ex_flights := (ex_flights s)[k := (ex_flights s ! k)\<lparr>tf_phase := TaskAbandoned\<rparr>]\<rparr>"
  show thesis
  proof (cases rule: watchdog_cases [of cfg k s])
    case idle
    with assms WatchdogFires show thesis by (intro frame) simp_all
  next
    case (free es)
    with WatchdogFires active_of_freed [of _ "tf_item (ex_flights s ! k)" "emit es ?t"]
    show thesis by (intro freeing [OF _ watchdog_freed_ok [OF assms free(1,2), of es]]) (simp_all add: active_of_def)
  qed
qed

lemma executor_limits_step:
  assumes "limits_ok Q cfg s"
    "\<And>i opts. e = Submit i opts \<Longrightarrow> uq_maxConcurrent (quota_for cfg opts) \<le> Q (so_userId opts)"
  shows "limits_ok Q cfg (executor_step cfg s e)"
proof -
  from assms(1) have ok: "executor_ok s" by (simp add: limits_ok_def share_ok_def)
  from ok show ?thesis
  proof (cases rule: executor_step_shape [of s cfg e])
    case frame
    have "pending_count (executor_step cfg s e) \<le> pending_count s"
      using frame(2) by (simp add: size_queued [symmetric] size_mset_mono)
    with assms(1) frame mset_subset_eqD [OF frame(2)] show ?thesis
      by (auto simp: limits_ok_def share_ok_def room_ok_def active_of_def)
  next
    case (freeing t)
    have "active_of v t \<le> max 0 (Q v)" for v
      using freeing(5) [of v] assms(1) by (auto simp: limits_ok_def share_ok_def intro: order_trans)
    moreover have "pending_count t = pending_count s" by (simp flip: size_queued add: freeing(3))
    ultimately have "limits_ok Q cfg t"
      using assms(1) freeing(2-4) by (simp add: limits_ok_def share_ok_def room_ok_def)
    with freeing(1) show ?thesis by (simp add: limits_drain)
  next
    case (accepting i opts)
    then show ?thesis using limits_submit [OF assms(1), of opts i] assms(2) by simp
  qed
qed

text \<open>C29: In every history of submissions, cancellations, settlings, report ends and watchdog firings, the
  executor's counters are the slots its tasks hold, no more tasks run than the global limit, no more wait
  than the queue limit, and no user holds more slots than the largest concurrency its tasks were
  submitted with.\<close>

theorem executor_keeps_limits:
  assumes "\<forall>i opts. Submit i opts \<in> set evs \<longrightarrow> uq_maxConcurrent (quota_for cfg opts) \<le> Q (so_userId opts)"
  shows "let s = executor_run cfg evs in
    ex_activeCount s = int (slots s) \<and> int (slots s) \<le> max 0 (ec_maxConcurrent cfg) \<and>
    int (pending_count s) \<le> max 0 (ec_maxPending cfg) \<and>
    active_of u s = int (slots_of u s) \<and> int (slots_of u s) \<le> max 0 (Q u)"
proof -
  have "limits_ok Q cfg (executor_run cfg evs)"
  proof (rule executor_run_invariant)
    show "limits_ok Q cfg new_executor"
      by (simp add: limits_ok_def share_ok_def room_ok_def active_of_def queued_def pending_count_def)
        (simp add: new_executor_def)
  next
    fix s e
    assume "limits_ok Q cfg s" "e \<in> set evs"
    with assms show "limits_ok Q cfg (executor_step cfg s e)" by (intro executor_limits_step) auto
  qed
  then have "share_ok Q cfg (executor_run cfg evs)" "room_ok cfg (executor_run cfg evs)"
    "int (pending_count (executor_run cfg evs)) \<le> max 0 (ec_maxPending cfg)"
    by (simp_all add: limits_ok_def)
  moreover from this(1) have "counters_ok (executor_run cfg evs)" by (simp add: share_ok_def executor_ok_def)
  ultimately show ?thesis by (simp add: share_ok_def room_ok_def counters_ok_def Let_def)
qed

section \<open>Every task is accounted for\<close>

definition waiting_of :: "string \<Rightarrow> executor \<Rightarrow> nat" where
  "waiting_of i s = count_if (has_run i) (concat (map snd (ex_queues s)))"

definition runs_task :: "string \<Rightarrow> task_flight \<Rightarrow> bool" where
  "runs_task i f \<longleftrightarrow> tf_phase f = TaskRunning \<and> has_run i (tf_item f)"

definition running_of :: "string \<Rightarrow> executor \<Rightarrow> nat" where
  "running_of i s = count_if (runs_task i) (ex_flights s)"

fun publishes :: "string \<Rightarrow> executor_effect \<Rightarrow> bool" where
  "publishes i (OutcomePublished j _) = (j = i)"
| "publishes i _ = False"

definition published_of :: "string \<Rightarrow> executor \<Rightarrow> nat" where
  "published_of i s = count_if (publishes i) (ex_effects s)"

definition tasks_accounted :: "string \<Rightarrow> executor \<Rightarrow> nat" where
  "tasks_accounted i s = waiting_of i s + running_of i s + published_of i s"

lemma waiting_mset: "waiting_of i s = size (filter_mset (has_run i) (queued s))"
  by (simp add: waiting_of_def queued_def count_if_def flip: mset_filter)

lemma start_frame [simp]:
  "ex_flights (start_task cfg item s) = ex_flights s @ [\<lparr>tf_item = item, tf_phase = TaskRunning\<rparr>]"
  "ex_effects (start_task cfg item s) =
   ex_effects s @ [RunStarted (ti_agentRunId item) (timeout_of cfg (ti_options item))]"
  by (simp_all add: start_task_def Let_def)

lemma accounted_pick:
  assumes "next_eligible_item cfg s = Some (item, t)"
  shows "tasks_accounted i (start_task cfg item t) = tasks_accounted i s"
  using queued_pick [OF assms] next_eligible_frame [OF assms]
  by (simp add: tasks_accounted_def waiting_mset running_of_def published_of_def runs_task_def)

interpretation tally: drained_invariant "\<lambda>_ s. tasks_accounted i s = n" for i n
  by unfold_locales (simp add: accounted_pick)

lemma accounted_drain [simp]: "tasks_accounted i (drain cfg s) = tasks_accounted i s"
  by (rule tally.drain) simp

lemma accounted_enqueue: "tasks_accounted i (enqueue_task item s) = tasks_accounted i s + (if has_run i item then 1 else 0)"
  by (simp add: tasks_accounted_def waiting_mset queued_enqueue running_of_def published_of_def)

lemma accounted_emit: "tasks_accounted i (emit es s) = tasks_accounted i s + count_if (publishes i) es"
  by (simp add: tasks_accounted_def waiting_mset running_of_def published_of_def)

lemma accounted_freed [simp]: "tasks_accounted i (freed item s) = tasks_accounted i s"
  by (simp add: tasks_accounted_def waiting_mset running_of_def published_of_def)

lemma accounted_put:
  "k < length (ex_flights s) \<Longrightarrow>
   tasks_accounted i (s\<lparr>ex_flights := (ex_flights s)[k := f]\<rparr>) + (if runs_task i (ex_flights s ! k) then 1 else 0) =
   tasks_accounted i s + (if runs_task i f then 1 else 0)"
  using count_if_update [of k "ex_flights s" "runs_task i" f]
  by (simp add: tasks_accounted_def waiting_mset running_of_def published_of_def)

lemma accounted_drop:
  "k < length (ex_flights s) \<Longrightarrow> \<not> runs_task i (ex_flights s ! k) \<Longrightarrow>
   tasks_accounted i (s\<lparr>ex_flights := drop_nth k (ex_flights s)\<rparr>) = tasks_accounted i s"
  using count_if_drop_nth [of k "ex_flights s" "runs_task i"]
  by (simp add: tasks_accounted_def waiting_mset running_of_def published_of_def)

lemma accounted_submit: "tasks_accounted i (submit cfg j opts s) = tasks_accounted i s + (if j = i then 1 else 0)"
  by (simp add: submit_def accounted_emit accounted_enqueue has_run_def split: option.splits)

lemma accounted_cancel:
  assumes "queues_ok s"
  shows "tasks_accounted i (snd (cancel_queued j s)) + (if j = i \<and> fst (cancel_queued j s) then 1 else 0) = tasks_accounted i s"
proof (cases "fst (cancel_queued j s)")
  case True
  with queued_cancel(1) [of s j] assms obtain x
    where "has_run j x" "queued s = add_mset x (queued (snd (cancel_queued j s)))" by (auto simp: queues_ok_def)
  with True show ?thesis
    by (simp add: tasks_accounted_def waiting_mset running_of_def published_of_def has_run_def)
next
  case False
  with queued_cancel(2) [of s j] assms show ?thesis by (simp add: queues_ok_def)
qed

lemma accounted_settles [simp]: "tasks_accounted i (run_settles k r s) = tasks_accounted i s"
proof (cases "k < length (ex_flights s)")
  case True
  show ?thesis
  proof (cases "tf_phase (ex_flights s ! k)")
    case TaskRunning
    with True accounted_put [OF True, of i "(ex_flights s ! k)\<lparr>tf_phase := TaskReporting\<rparr>"] show ?thesis
      by (auto simp: run_settles_def accounted_emit Let_def runs_task_def has_run_def split: if_splits)
  qed (use True in \<open>simp_all add: run_settles_def Let_def accounted_drop runs_task_def\<close>)
qed (simp add: run_settles_def)

lemma accounted_report [simp]: "tasks_accounted i (report_ends cfg k s) = tasks_accounted i s"
  by (cases rule: report_ends_cases [of cfg k s]) (simp_all add: accounted_drop runs_task_def)

lemma accounted_watchdog [simp]: "tasks_accounted i (watchdog_fires cfg k s) = tasks_accounted i s"
proof (cases rule: watchdog_cases [of cfg k s])
  case free
  with accounted_put [OF free(1), of i "(ex_flights s ! k)\<lparr>tf_phase := TaskAbandoned\<rparr>"] show ?thesis
    by (auto simp: accounted_emit Let_def runs_task_def has_run_def split: if_splits)
qed simp

text \<open>The submissions of a task in a history, and the cancellations that found it queued.\<close>

fun submits :: "string \<Rightarrow> executor_event \<Rightarrow> bool" where
  "submits i (Submit j _) = (j = i)"
| "submits i _ = False"

fun cancelled_from :: "executor_cfg \<Rightarrow> string \<Rightarrow> executor \<Rightarrow> executor_event list \<Rightarrow> nat" where
  "cancelled_from cfg i s [] = 0"
| "cancelled_from cfg i s (e # es) =
     (if e = Cancel i \<and> fst (cancel_queued i s) then 1 else 0) + cancelled_from cfg i (executor_step cfg s e) es"

lemma accounted_step:
  assumes "executor_ok s"
  shows "tasks_accounted i (executor_step cfg s e) + (if e = Cancel i \<and> fst (cancel_queued i s) then 1 else 0) =
         tasks_accounted i s + (if submits i e then 1 else 0)"
proof (cases e)
  case (Cancel j)
  with assms accounted_cancel [of s i j] show ?thesis
    by (cases "j = i"; cases "fst (cancel_queued j s)") (simp_all add: executor_ok_def)
qed (auto simp: accounted_submit)

text \<open>C30: No task is lost and none is reported twice: after any history, the submissions of a run are
  its entries in the queues, its calls that still run, its published outcomes and its successful
  cancellations. A run submitted once and not cancelled, once it neither waits nor runs, has published
  exactly one outcome, whichever of the three exits came first.\<close>

theorem each_task_is_reported_once:
  "let s = executor_run cfg evs in
   waiting_of i s + running_of i s + published_of i s + cancelled_from cfg i new_executor evs =
   count_if (submits i) evs"
proof -
  have "tasks_accounted i (foldl (executor_step cfg) s es) + cancelled_from cfg i s es =
        tasks_accounted i s + count_if (submits i) es" if "executor_ok s" for s es
    using that
  proof (induction es arbitrary: s)
    case (Cons e es)
    from Cons.IH [OF executor_step_ok [OF Cons.prems, of cfg e]] accounted_step [OF Cons.prems, of i cfg e]
    show ?case by (auto split: if_splits)
  qed simp
  from this [OF executor_ok_new, of evs]
  show ?thesis
    by (simp add: executor_run_def Let_def tasks_accounted_def waiting_of_def running_of_def published_of_def new_executor_def)
qed

section \<open>The theorems at concrete histories\<close>

definition sample_executor_cfg :: executor_cfg where
  "sample_executor_cfg =
     \<lparr>ec_maxConcurrent = 2, ec_maxPending = 4, ec_userDefault = \<lparr>uq_maxConcurrent = 1, uq_maxPending = 3\<rparr>,
      ec_defaultTimeoutMs = 5\<rparr>"

definition sample_options :: "string \<Rightarrow> user_quota option \<Rightarrow> submit_options" where
  "sample_options u q =
     \<lparr>so_agentDefinitionId = ''a'', so_input = ''i'', so_userId = u, so_sessionId = ''s'', so_budgetTracker = None,
      so_timeoutMs = None, so_displayName = None, so_userQuota = q\<rparr>"

text \<open>Three tasks of one user and one of another; the first run fails, the second is given up.\<close>

definition sample_history :: "executor_event list" where
  "sample_history =
     [Submit ''1'' (sample_options ''u'' None), Submit ''2'' (sample_options ''u'' None),
      Submit ''3'' (sample_options ''v'' None), Submit ''4'' (sample_options ''u'' None),
      Settles 0 (Inr \<lparr>sr_status = AgFailed, sr_output = None, sr_error = None\<rparr>), ReportEnds 0]"

lemma sample_history_quotas:
  "Submit i opts \<in> set sample_history \<Longrightarrow> uq_maxConcurrent (quota_for sample_executor_cfg opts) = 1"
  by (auto simp: sample_history_def sample_executor_cfg_def sample_options_def quota_for_def)

theorem executor_keeps_limits_witness:
  "let s = executor_run sample_executor_cfg sample_history in slots s = 2 \<and> slots s \<le> 2 \<and> slots_of ''u'' s \<le> 1"
proof -
  have "\<forall>i opts. Submit i opts \<in> set sample_history \<longrightarrow>
      uq_maxConcurrent (quota_for sample_executor_cfg opts) \<le> (\<lambda>_. 1) (so_userId opts)"
    by (simp add: sample_history_quotas)
  from executor_keeps_limits [OF this, of "''u''"] show ?thesis
    unfolding Let_def by (simp, code_simp)
qed

end
