(* ===== verification/TaskTurns.thy ===== *)
theory TaskTurns
  imports TaskQueueProps
begin

text \<open>
  How the executor of \<open>engine/task-executor.service.ts\<close> shares its slots: no slot idles while a user
  below its quota has work, the queues can always be emptied by watchdogs and the ends of publications,
  and a drain serves the users in turn.
\<close>

section \<open>No slot is left idle\<close>

definition no_idle_slot :: "executor_cfg \<Rightarrow> executor \<Rightarrow> bool" where
  "no_idle_slot cfg s \<longleftrightarrow>
     ec_maxConcurrent cfg \<le> ex_activeCount s \<or> (\<forall>u. \<not> eligible cfg s u)"

lemma eligible_in_rotation:
  assumes "queues_ok s" "eligible cfg s u"
  obtains i where "i < length (ex_rotation s)" "ex_rotation s ! rotation_index s i = u"
proof -
  from assms(2) have "queue_of u s \<noteq> []" by (auto simp: eligible_def)
  then have "u \<in> set (map fst (ex_queues s))" using queue_of_in by force
  with assms(1) have u: "u \<in> set (ex_rotation s)" by (simp add: queues_ok_def)
  then have "ex_rotation s \<noteq> []" by auto
  with assms(1) have "ex_rotationIdx s < length (ex_rotation s)" by (simp add: queues_ok_def)
  with u that show thesis by (elim rotation_onto)
qed

lemma drain_leaves_no_idle: "executor_ok s \<Longrightarrow> no_idle_slot cfg (drain cfg s)"
proof (induction cfg s rule: drain_induct)
  case (full cfg s)
  then show ?case by (simp add: no_idle_slot_def)
next
  case (idle cfg s)
  then have "\<not> eligible cfg s u" for u
    using next_eligible_None by (metis eligible_in_rotation executor_ok_def)
  with idle show ?case by (simp add: no_idle_slot_def)
next
  case (pick cfg s item t)
  then show ?case by (simp add: drain_pick start_task_ok [OF next_eligible_ok])
qed

lemma queue_of_queued:
  assumes "queues_ok s"
  shows "queue_of u s \<noteq> [] \<longleftrightarrow> (\<exists>item. item \<in># queued s \<and> so_userId (ti_options item) = u)"
proof
  assume "queue_of u s \<noteq> []"
  then have "(u, queue_of u s) \<in> set (ex_queues s)" by (rule queue_of_in)
  moreover have "hd (queue_of u s) \<in> set (queue_of u s)" using \<open>queue_of u s \<noteq> []\<close> by simp
  ultimately show "\<exists>item. item \<in># queued s \<and> so_userId (ti_options item) = u"
    using queue_users [OF assms, of "hd (queue_of u s)" u] by (force simp: queued_def)
next
  assume "\<exists>item. item \<in># queued s \<and> so_userId (ti_options item) = u"
  then obtain item v q where h: "so_userId (ti_options item) = u" "(v, q) \<in> set (ex_queues s)" "item \<in> set q"
    by (auto simp: queued_def)
  with assms have "v = u" by (auto simp: queues_ok_def)
  with h assms have "map_of (ex_queues s) u = Some q" by (auto simp: queues_ok_def intro: map_of_is_SomeI)
  with h(3) show "queue_of u s \<noteq> []" by (auto simp: queue_of_def)
qed

text \<open>Every queued task asked for the concurrency \<open>Q\<close> gives its user.\<close>

definition uniform :: "(string \<Rightarrow> int) \<Rightarrow> executor_cfg \<Rightarrow> executor \<Rightarrow> bool" where
  "uniform Q cfg s \<longleftrightarrow>
     executor_ok s \<and>
     (\<forall>item. item \<in># queued s \<longrightarrow> uq_maxConcurrent (quota_for cfg (ti_options item)) = Q (so_userId (ti_options item)))"

lemma eligible_uniform:
  assumes "uniform Q cfg s"
  shows "eligible cfg s u \<longleftrightarrow>
    (\<exists>item. item \<in># queued s \<and> so_userId (ti_options item) = u) \<and> active_of u s < Q u"
proof (cases "queue_of u s")
  case Nil
  with assms queue_of_queued [of s u] show ?thesis by (auto simp: eligible_def uniform_def executor_ok_def)
next
  case (Cons item rest)
  with assms queue_of_queued [of s u] have ex: "\<exists>item. item \<in># queued s \<and> so_userId (ti_options item) = u"
    by (simp add: uniform_def executor_ok_def)
  have "(u, queue_of u s) \<in> set (ex_queues s)" using Cons by (intro queue_of_in) simp
  with Cons have "item \<in># queued s" by (force simp: queued_def)
  moreover have "so_userId (ti_options item) = u"
    using assms Cons queue_users [of s item u] by (simp add: uniform_def executor_ok_def)
  ultimately have "uq_maxConcurrent (quota_for cfg (ti_options item)) = Q u" using assms by (auto simp: uniform_def)
  with Cons ex show ?thesis by (simp add: eligible_def)
qed

lemma queued_drain: "queued (drain cfg s) \<subseteq># queued s"
proof (induction cfg s rule: drain_induct)
  case (pick cfg s item t)
  have "queued t \<subseteq># queued s" unfolding queued_pick [OF pick(2)] by (metis add_mset_add_single mset_subset_eq_add_left)
  with pick show ?case by (simp add: drain_pick subset_mset.order_trans)
qed simp_all

text \<open>With one concurrency for each user, an event leaves no slot idle.\<close>

lemma uniform_drain: "uniform Q cfg s \<Longrightarrow> uniform Q cfg (drain cfg s)"
  using mset_subset_eqD [OF queued_drain [of cfg s]] by (auto simp: uniform_def intro: books.drain)

lemma uniform_cong: "executor_ok t \<Longrightarrow> queued t = queued s \<Longrightarrow> uniform Q cfg s \<Longrightarrow> uniform Q cfg t"
  by (simp add: uniform_def)

definition settled_ok :: "(string \<Rightarrow> int) \<Rightarrow> executor_cfg \<Rightarrow> executor \<Rightarrow> bool" where
  "settled_ok Q cfg s \<longleftrightarrow> uniform Q cfg s \<and> no_idle_slot cfg s"

lemma settled_drain: "uniform Q cfg s \<Longrightarrow> settled_ok Q cfg (drain cfg s)"
  unfolding settled_ok_def by (intro conjI uniform_drain drain_leaves_no_idle) (simp_all add: uniform_def)

lemma settled_frame:
  assumes "settled_ok Q cfg s" "executor_ok t" "queued t \<subseteq># queued s" "ex_active t = ex_active s"
    "ex_activeCount t = ex_activeCount s"
  shows "settled_ok Q cfg t"
proof -
  have "active_of u t = active_of u s" for u using assms(4) by (simp add: active_of_def)
  moreover have uni: "uniform Q cfg t"
    using assms(1,2) mset_subset_eqD [OF assms(3)] by (auto simp: settled_ok_def uniform_def)
  moreover have "uniform Q cfg s" using assms(1) by (simp add: settled_ok_def)
  ultimately have "eligible cfg s u" if "eligible cfg t u" for u
    using that mset_subset_eqD [OF assms(3)] unfolding eligible_uniform [OF uni] eligible_uniform [OF \<open>uniform Q cfg s\<close>]
    by metis
  with assms(1,5) uni show ?thesis by (auto simp: settled_ok_def no_idle_slot_def)
qed

lemma settled_step:
  assumes "settled_ok Q cfg s"
    "\<And>i opts. e = Submit i opts \<Longrightarrow> uq_maxConcurrent (quota_for cfg opts) = Q (so_userId opts)"
  shows "settled_ok Q cfg (executor_step cfg s e)"
proof -
  from assms(1) have ok: "executor_ok s" and uni: "uniform Q cfg s" by (simp_all add: settled_ok_def uniform_def)
  from ok show ?thesis
  proof (cases rule: executor_step_shape [of s cfg e])
    case frame
    then show ?thesis by (rule settled_frame [OF assms(1)])
  next
    case (freeing t)
    with settled_drain [OF uniform_cong [OF freeing(2,3) uni]] show ?thesis by simp
  next
    case (accepting i opts)
    have "uniform Q cfg (enqueue_task \<lparr>ti_agentRunId = i, ti_options = opts\<rparr> s)"
      using assms(2) [OF accepting(1)] uni by (auto simp: uniform_def enqueue_ok queued_enqueue)
    with accepting(3) show ?thesis by (simp add: settled_drain)
  qed
qed

text \<open>C32: While every task of a user is submitted with the same concurrency quota, no capacity idles:
  after any event of any history, if a global slot is free, each user with a queued task already holds
  as many slots as its quota allows.\<close>

theorem free_slots_mean_saturated_users:
  assumes "\<forall>i opts. Submit i opts \<in> set evs \<longrightarrow> uq_maxConcurrent (quota_for cfg opts) = Q (so_userId opts)"
    and "ex_activeCount (executor_run cfg evs) < ec_maxConcurrent cfg"
    and "item \<in> set (concat (map snd (ex_queues (executor_run cfg evs))))"
  shows "Q (so_userId (ti_options item)) \<le> int (slots_of (so_userId (ti_options item)) (executor_run cfg evs))"
proof -
  let ?s = "executor_run cfg evs"
  have "settled_ok Q cfg ?s"
  proof (rule executor_run_invariant)
    show "settled_ok Q cfg new_executor"
      by (simp add: settled_ok_def uniform_def no_idle_slot_def queued_def eligible_def queue_of_def new_executor_def)
         (simp add: executor_ok_new [unfolded new_executor_def])
  next
    fix s e
    assume "settled_ok Q cfg s" "e \<in> set evs"
    with assms(1) show "settled_ok Q cfg (executor_step cfg s e)" by (intro settled_step) auto
  qed
  then have uni: "uniform Q cfg ?s" and "\<not> eligible cfg ?s (so_userId (ti_options item))"
    using assms(2) by (auto simp: settled_ok_def no_idle_slot_def)
  moreover have "item \<in># queued ?s" using assms(3) by (simp add: queued_def)
  ultimately have "Q (so_userId (ti_options item)) \<le> active_of (so_userId (ti_options item)) ?s"
    by (auto simp: eligible_uniform [OF uni])
  with uni show ?thesis by (simp add: uniform_def executor_ok_def counters_ok_def)
qed

section \<open>The queue empties\<close>

text \<open>While anything is queued, some task holds a slot: a free executor would have taken it.\<close>

definition busy :: "executor_cfg \<Rightarrow> executor \<Rightarrow> bool" where
  "busy cfg s \<longleftrightarrow>
     executor_ok s \<and>
     (\<forall>item. item \<in># queued s \<longrightarrow> 0 < uq_maxConcurrent (quota_for cfg (ti_options item))) \<and>
     (0 < pending_count s \<longrightarrow> 0 < slots s)"

definition positive_quotas :: "executor_cfg \<Rightarrow> executor \<Rightarrow> bool" where
  "positive_quotas cfg s \<longleftrightarrow>
     executor_ok s \<and> (\<forall>item. item \<in># queued s \<longrightarrow> 0 < uq_maxConcurrent (quota_for cfg (ti_options item)))"

lemma busy_drain:
  assumes "positive_quotas cfg s" "0 < ec_maxConcurrent cfg"
  shows "busy cfg (drain cfg s)"
proof -
  let ?t = "drain cfg s"
  from assms(1) have ok: "executor_ok ?t" and pos: "item \<in># queued ?t \<Longrightarrow> 0 < uq_maxConcurrent (quota_for cfg (ti_options item))" for item
    using mset_subset_eqD [OF queued_drain [of cfg s]] by (auto simp: positive_quotas_def intro: books.drain)
  have "0 < slots ?t" if "0 < pending_count ?t"
  proof (rule ccontr)
    assume "\<not> 0 < slots ?t"
    with ok have "slots ?t = 0" and act: "ex_activeCount ?t = 0" by (simp_all add: executor_ok_def counters_ok_def)
    have "active_of u ?t = 0" for u
    proof -
      have "slots_of u ?t \<le> slots ?t" unfolding slots_def slots_of_def by (rule count_if_mono) simp
      with \<open>slots ?t = 0\<close> ok show ?thesis by (simp add: executor_ok_def counters_ok_def)
    qed
    moreover from that obtain item where it: "item \<in># queued ?t"
      by (metis size_queued multiset_nonemptyE size_empty less_numeral_extra(3))
    let ?u = "so_userId (ti_options item)"
    from ok have q: "queues_ok ?t" by (simp add: executor_ok_def)
    with it queue_of_queued [OF q, of ?u] obtain x rest where xr: "queue_of ?u ?t = x # rest"
      by (cases "queue_of ?u ?t") auto
    then have "(?u, queue_of ?u ?t) \<in> set (ex_queues ?t)" by (intro queue_of_in) simp
    with xr have "x \<in># queued ?t" by (force simp: queued_def)
    ultimately have "eligible cfg ?t ?u" using pos [of x] xr by (simp add: eligible_def)
    moreover have "no_idle_slot cfg ?t" using assms(1) by (simp add: positive_quotas_def drain_leaves_no_idle)
    ultimately show False using act assms(2) by (auto simp: no_idle_slot_def)
  qed
  with ok pos show ?thesis by (simp add: busy_def)
qed

text \<open>The work that is left: every end of a task lowers it.\<close>

definition work_left :: "executor \<Rightarrow> nat" where
  "work_left s = 2 * pending_count s + slots s"

lemma work_drain: "work_left (drain cfg s) \<le> work_left s"
proof (induction cfg s rule: drain_induct)
  case (pick cfg s item t)
  have "slots (start_task cfg item t) = Suc (slots s)"
    using next_eligible_frame [OF pick(2)] by (simp add: slots_def holds_slot_def)
  with next_eligible_pending [OF pick(2)] pick show ?case by (simp add: drain_pick work_left_def)
qed simp_all

lemma busy_end:
  assumes "busy cfg s" "0 < ec_maxConcurrent cfg" "0 < slots s"
  obtains e where "busy cfg (executor_step cfg s e)" "work_left (executor_step cfg s e) < work_left s"
    "\<exists>k. e = ReportEnds k \<or> e = WatchdogFires k"
proof -
  note that0 = that
  from assms(1) have ok: "executor_ok s" by (simp add: busy_def)
  from assms(3) obtain k where k: "k < length (ex_flights s)" "holds_slot (ex_flights s ! k)"
    by (auto simp: slots_def count_if_pos in_set_conv_nth)
  have ends: thesis if "executor_step cfg s e = drain cfg t" "executor_ok t" "queued t = queued s"
    "slots s = Suc (slots t)" "\<exists>k. e = ReportEnds k \<or> e = WatchdogFires k" for e t
  proof (rule that0 [of e])
    have "positive_quotas cfg t" using assms(1) that(2,3) by (simp add: positive_quotas_def busy_def)
    with busy_drain assms(2) that(1) show "busy cfg (executor_step cfg s e)" by simp
    have "work_left t < work_left s" using that(3,4) by (simp add: work_left_def flip: size_queued)
    with work_drain [of cfg t] that(1) show "work_left (executor_step cfg s e) < work_left s" by simp
  qed (rule that(5))
  show thesis
  proof (cases "tf_phase (ex_flights s ! k)")
    case TaskRunning
    let ?f = "(ex_flights s ! k)\<lparr>tf_phase := TaskAbandoned\<rparr>"
    obtain es where "watchdog_fires cfg k s =
        drain cfg (freed (tf_item (ex_flights s ! k)) (emit es (s\<lparr>ex_flights := (ex_flights s)[k := ?f]\<rparr>)))"
      using k(1) TaskRunning by (simp add: watchdog_fires_def finalize_freed Let_def)
    moreover have "slots s = Suc (slots (s\<lparr>ex_flights := (ex_flights s)[k := ?f]\<rparr>))"
      using slots_put(1) [OF k(1), of ?f] k(2) by (simp add: holds_slot_def)
    ultimately show thesis
      by (intro ends [of "WatchdogFires k", OF _ watchdog_freed_ok [OF ok k(1) TaskRunning, of es]])
         (simp_all add: slots_def)
  next
    case TaskReporting
    show thesis
    proof (rule ends [of "ReportEnds k"])
      show "executor_ok (freed (tf_item (ex_flights s ! k)) (s\<lparr>ex_flights := drop_nth k (ex_flights s)\<rparr>))"
        by (rule report_freed_ok [OF ok k(1) TaskReporting])
    qed (use slots_drop(1) [OF k(1)] k TaskReporting in \<open>simp_all add: slots_def report_ends_def finalize_freed Let_def\<close>)
  next
    case TaskAbandoned
    with k(2) show thesis by (simp add: holds_slot_def)
  qed
qed

lemma busy_step:
  assumes "busy cfg s" "0 < ec_maxConcurrent cfg"
    "\<And>i opts. e = Submit i opts \<Longrightarrow> 0 < uq_maxConcurrent (quota_for cfg opts)"
  shows "busy cfg (executor_step cfg s e)"
proof -
  from assms(1) have ok: "executor_ok s" by (simp add: busy_def)
  from ok show ?thesis
  proof (cases rule: executor_step_shape [of s cfg e])
    case frame
    have "pending_count (executor_step cfg s e) \<le> pending_count s"
      using frame(2) by (simp add: size_queued [symmetric] size_mset_mono)
    moreover have "slots (executor_step cfg s e) = slots s"
      using ok frame(1,4) by (simp add: executor_ok_def counters_ok_def)
    ultimately show ?thesis
      using assms(1) frame(1) mset_subset_eqD [OF frame(2)] by (auto simp: busy_def)
  next
    case (freeing t)
    then have "positive_quotas cfg t" using assms(1) by (simp add: busy_def positive_quotas_def)
    with freeing(1) assms(2) show ?thesis by (simp add: busy_drain)
  next
    case (accepting i opts)
    have "positive_quotas cfg (enqueue_task \<lparr>ti_agentRunId = i, ti_options = opts\<rparr> s)"
      using assms(1) assms(3) [OF accepting(1)] by (auto simp: busy_def positive_quotas_def enqueue_ok queued_enqueue)
    with accepting(3) assms(2) show ?thesis by (simp add: busy_drain)
  qed
qed

lemma busy_finishes:
  "busy cfg s \<Longrightarrow> 0 < ec_maxConcurrent cfg \<Longrightarrow>
   \<exists>ends. (\<forall>e \<in> set ends. \<exists>k. e = ReportEnds k \<or> e = WatchdogFires k) \<and> length ends \<le> work_left s \<and>
     work_left (foldl (executor_step cfg) s ends) = 0"
proof (induction "work_left s" arbitrary: s rule: less_induct)
  case less
  show ?case
  proof (cases "slots s = 0")
    case True
    with less.prems have "work_left s = 0" by (simp add: busy_def work_left_def)
    then show ?thesis by (intro exI [of _ "[]"]) simp
  next
    case False
    then obtain e where e: "busy cfg (executor_step cfg s e)" "work_left (executor_step cfg s e) < work_left s"
      "\<exists>k. e = ReportEnds k \<or> e = WatchdogFires k"
      using busy_end [OF less.prems] by auto
    from less.hyps [OF e(2,1) less.prems(2)] obtain ends where
      "\<forall>e \<in> set ends. \<exists>k. e = ReportEnds k \<or> e = WatchdogFires k" "length ends \<le> work_left (executor_step cfg s e)"
      "work_left (foldl (executor_step cfg) (executor_step cfg s e) ends) = 0" by blast
    with e(2,3) show ?thesis by (intro exI [of _ "e # ends"]) simp
  qed
qed

text \<open>C31: With a positive global limit and positive quotas the executor never gets stuck: after any
  history there is a sequence of watchdog firings and of ends of publications that were awaited, at most
  two for each queued task and one for each held slot, that leaves no task queued and no slot held. No
  run has to settle for that; but a task whose outcome is being published holds its slot until the
  publication ends, as its watchdog is cleared by then.\<close>

theorem executor_can_always_finish:
  assumes "0 < ec_maxConcurrent cfg"
    and "\<forall>i opts. Submit i opts \<in> set evs \<longrightarrow> 0 < uq_maxConcurrent (quota_for cfg opts)"
  shows "\<exists>ends. (\<forall>e \<in> set ends. \<exists>k. e = ReportEnds k \<or> e = WatchdogFires k) \<and>
    length ends \<le> 2 * pending_count (executor_run cfg evs) + slots (executor_run cfg evs) \<and>
    pending_count (executor_run cfg (evs @ ends)) = 0 \<and> slots (executor_run cfg (evs @ ends)) = 0"
proof -
  have "busy cfg (executor_run cfg evs)"
  proof (rule executor_run_invariant)
    show "busy cfg new_executor" by (simp add: busy_def) (simp add: queued_def pending_count_def new_executor_def)
  next
    fix s e
    assume "busy cfg s" "e \<in> set evs"
    with assms show "busy cfg (executor_step cfg s e)" by (intro busy_step) auto
  qed
  from busy_finishes [OF this assms(1)] show ?thesis
    by (simp add: executor_run_def work_left_def)
qed

section \<open>Fair turns\<close>

lemma active_pick: "next_eligible_item cfg s = Some (item, t) \<Longrightarrow> active_of v t = active_of v s"
  using next_eligible_frame [of cfg s item t] by (simp add: active_of_def)

lemma active_drain: "active_of v s \<le> active_of v (drain cfg s)"
proof (induction cfg s rule: drain_induct)
  case (pick cfg s item t)
  then show ?case by (simp add: drain_pick active_of_start active_pick [OF pick(2)] split: if_splits)
qed simp_all

text \<open>C33: A drain serves in turn: a user with eligible work that stands \<open>d\<close> places after the rotation
  index gets a slot from any drain with more than \<open>d\<close> free slots, however many tasks the users before it
  have queued.\<close>

theorem drain_serves_in_turn:
  assumes "executor_ok s" "eligible cfg s u" "d < length (ex_rotation s)"
    "ex_rotation s ! rotation_index s d = u" "int d < ec_maxConcurrent cfg - ex_activeCount s"
  shows "active_of u s < active_of u (drain cfg s)"
  using assms
proof (induction d arbitrary: s rule: less_induct)
  case (less d)
  from less.prems(3) have n: "0 < length (ex_rotation s)" by linarith
  have "next_eligible_item cfg s \<noteq> None"
    using less.prems(2-4) next_eligible_None by blast
  then obtain item t where pick: "next_eligible_item cfg s = Some (item, t)" by auto
  let ?s = "start_task cfg item t"
  from less.prems(5) pick have drain: "drain cfg s = drain cfg ?s" by (intro drain_pick) simp_all
  from pick obtain i v rest where
    i: "find (\<lambda>i. eligible cfg s (ex_rotation s ! rotation_index s i)) [0..<length (ex_rotation s)] = Some i"
    and v: "ex_rotation s ! rotation_index s i = v" "map_of (ex_queues s) v = Some (item # rest)"
    and t: "t = s\<lparr>ex_rotationIdx := (rotation_index s i + 1) mod length (ex_rotation s),
                ex_queues := upd_assoc v rest (ex_queues s)\<rparr>"
    by (rule next_eligibleE)
  from less.prems(1) have "so_userId (ti_options item) = v"
    using queue_users [of s item v] v(2) by (simp add: executor_ok_def queue_of_def)
  show ?case
  proof (cases "v = u")
    case True
    have "active_of u s < active_of u ?s"
      using True \<open>so_userId (ti_options item) = v\<close> by (simp add: active_of_start active_pick [OF pick])
    with active_drain [of u ?s cfg] drain show ?thesis by simp
  next
    case False
    have "i < d"
    proof (rule ccontr)
      assume "\<not> i < d"
      with False v(1) less.prems(4) have "d < i" by (cases "i = d") auto
      with i less.prems(2,4) show False by (auto simp: find_Some_iff)
    qed
    have same: "active_of u ?s = active_of u s"
      using False \<open>so_userId (ti_options item) = v\<close> by (simp add: active_of_start active_pick [OF pick])
    have q: "queue_of u ?s = queue_of u s" using False by (simp add: queue_of_def start_task_def Let_def t)
    have rot: "ex_rotation ?s = ex_rotation s" by (simp add: start_task_def Let_def t)
    have "rotation_index ?s (d - i - 1) =
        ((ex_rotationIdx s + i) mod length (ex_rotation s) + (1 + (d - i - 1))) mod length (ex_rotation s)"
      unfolding rotation_index_def rot by (simp add: rotation_index_def start_task_def Let_def t mod_add_left_eq)
    also have "\<dots> = (ex_rotationIdx s + i + (1 + (d - i - 1))) mod length (ex_rotation s)"
      by (rule mod_add_left_eq)
    also have "\<dots> = rotation_index s d" using \<open>i < d\<close> by (simp add: rotation_index_def)
    finally have "ex_rotation ?s ! rotation_index ?s (d - i - 1) = u" using less.prems(4) rot by simp
    moreover have "executor_ok ?s" using less.prems(1) start_task_ok next_eligible_ok [OF pick] by blast
    moreover have "eligible cfg ?s u" using less.prems(2) unfolding eligible_def q same .
    moreover have "int (d - i - 1) < ec_maxConcurrent cfg - ex_activeCount ?s"
      using less.prems(5) \<open>i < d\<close> next_eligible_frame [OF pick] by simp
    ultimately have "active_of u ?s < active_of u (drain cfg ?s)"
      using less.prems(3) \<open>i < d\<close> rot by (intro less.IH [of "d - i - 1"]) simp_all
    with same drain show ?thesis by simp
  qed
qed

section \<open>The theorems at concrete histories\<close>

definition waiting_history :: "executor_event list" where
  "waiting_history = [Submit ''1'' (sample_options ''u'' None), Submit ''2'' (sample_options ''u'' None)]"

theorem free_slots_mean_saturated_users_witness:
  "1 \<le> slots_of ''u'' (executor_run sample_executor_cfg waiting_history)"
proof -
  have "\<forall>i opts. Submit i opts \<in> set waiting_history \<longrightarrow>
      uq_maxConcurrent (quota_for sample_executor_cfg opts) = (\<lambda>_. 1) (so_userId opts)"
    by (auto simp: waiting_history_def sample_executor_cfg_def sample_options_def quota_for_def)
  moreover have "ex_activeCount (executor_run sample_executor_cfg waiting_history) < ec_maxConcurrent sample_executor_cfg"
    by code_simp
  moreover have "\<lparr>ti_agentRunId = ''2'', ti_options = sample_options ''u'' None\<rparr> \<in>
      set (concat (map snd (ex_queues (executor_run sample_executor_cfg waiting_history))))"
    by code_simp
  ultimately have "(\<lambda>_. 1) ''u'' \<le> int (slots_of (so_userId (sample_options ''u'' None))
      (executor_run sample_executor_cfg waiting_history))"
    using free_slots_mean_saturated_users
      [of waiting_history sample_executor_cfg "\<lambda>_. 1" "\<lparr>ti_agentRunId = ''2'', ti_options = sample_options ''u'' None\<rparr>"]
    by simp
  then show ?thesis by (simp add: sample_options_def)
qed

theorem executor_can_always_finish_witness:
  "\<exists>ends. pending_count (executor_run sample_executor_cfg (sample_history @ ends)) = 0 \<and>
     slots (executor_run sample_executor_cfg (sample_history @ ends)) = 0"
  using executor_can_always_finish [of sample_executor_cfg sample_history] sample_history_quotas
  by (auto simp: sample_executor_cfg_def)

theorem drain_serves_in_turn_witness:
  "let item = (\<lambda>u. \<lparr>ti_agentRunId = u, ti_options = sample_options u None\<rparr>);
       s = enqueue_task (item ''v'') (enqueue_task (item ''u'') (enqueue_task (item ''u'') new_executor)) in
   active_of ''v'' s < active_of ''v'' (drain sample_executor_cfg s)"
  unfolding Let_def
  by (rule drain_serves_in_turn [where d = 1]) (simp add: enqueue_ok, code_simp, code_simp, code_simp, code_simp)

text \<open>A cancellation does not drain: when the task at the head of a user's queue asked for less
  concurrency than the one behind it, cancelling it leaves a free slot and an eligible task waiting.\<close>

theorem cancelled_head_leaves_slot_idle:
  "let wide = Some \<lparr>uq_maxConcurrent = 2, uq_maxPending = 3\<rparr>;
       s = executor_run sample_executor_cfg
         [Submit ''1'' (sample_options ''u'' wide), Submit ''2'' (sample_options ''u'' None),
          Submit ''3'' (sample_options ''u'' wide), Cancel ''2''] in
   ex_activeCount s < ec_maxConcurrent sample_executor_cfg \<and> eligible sample_executor_cfg s ''u''"
  by code_simp

end
