(* ===== verification/AgentRunner.thy ===== *)
theory AgentRunner
  imports AgentRuns CapacityLedger Consolidation ReasoningLoop
begin

text \<open>
  \<open>engine/agent-runner.service.ts\<close>: one run of an agent from admission to cleanup, over the tables,
  registries, pool and ledger of the other theories. With it come the two checks of
  \<open>engine/token-counter.service.ts\<close>, \<open>engine/tools/mcp/bindings-from-tiers.ts\<close> and the choice between
  the two message stores.

  The run is a procedure of \<open>Effects\<close> over a frame: the shared world, the local variables that the
  \<open>finally\<close> block reads, and the log of what the run did to its surroundings. Every awaited call of
  another service is a field of \<open>runner_env\<close>, a procedure over the world alone: it may throw, and it
  may change the world in whatever way other runs, the stop button, the reaper or the users do
  meanwhile, but not the locals of the run. The reasoning loop is such a field too: its own theory says
  what it does with the messages it is given. Logging and progress callbacks are left out.
\<close>

section \<open>Inputs\<close>

record mcp_binding =
  mb_serverId :: string
  mb_enabledTools :: "string list"

record mcp_connection =
  mc_status :: string
  mc_recommended :: "string list option"

record mcp_server =
  ms_id :: string
  ms_enabled :: bool
  ms_connections :: "mcp_connection list"

text \<open>An agent definition; \<open>af_mcp\<close> is its parsed allowlist of MCP tools, \<open>None\<close> if it does not parse.\<close>

record agent_row =
  af_id :: string
  af_name :: string
  af_isActive :: bool
  af_provider :: string
  af_model :: string
  af_streamingEnabled :: bool
  af_container :: agent_def
  af_mcp :: "mcp_binding list option"

record run_policy =
  up_maxConcurrentPrimaryRuns :: nat
  up_maxTokenBudget :: "nat option"
  up_allowedProviders :: "string list"
  up_wikiLintEnabled :: bool
  up_cronEnabled :: bool
  up_allowPython :: bool
  up_allowPythonNet :: bool
  up_allowShellNet :: bool
  up_allowMcp :: bool

text \<open>The options of a run, less what only the context builder and the loop's callbacks read.\<close>

record agent_options =
  op_agentDefinitionId :: string
  op_input :: string
  op_userId :: string
  op_sessionId :: "string option"
  op_isSubAgent :: bool
  op_isScheduledTask :: bool
  op_isReinvocation :: bool
  op_agentRunId :: "string option"
  op_channelId :: "string option"
  op_tokenBudget :: "nat option"
  op_tokenGracePercent :: "nat option"
  op_budgetTracker :: "nat option" \<comment> \<open>shared by reference: its place among the trackers\<close>
  op_timeoutMs :: "int option"
  op_taskRunStore :: "string option" \<comment> \<open>the caller's message store\<close>
  op_fullTranscript :: bool
  op_hasEventSink :: bool
  op_abortSignal :: "nat option"

record agent_result =
  rt_agentRunId :: string
  rt_sessionId :: "string option"
  rt_output :: "string option"
  rt_status :: agent_status
  rt_responseMessageId :: "string option"
  rt_streamingUsed :: bool
  rt_usage :: llm_usage
  rt_error :: "string option"

section \<open>World, frame, environment\<close>

record runner_world =
  wd_runs :: run_db
  wd_sessions :: session_db
  wd_taskRuns :: "task_run_message list"
  wd_registry :: run_registry
  wd_nextController :: nat
  wd_activity :: activity_registry
  wd_pool :: container_pool
  wd_ledger :: capacity_ledger
  wd_trackers :: "tracker list"

datatype tool_group =
    ContainerTools | WebTools | WikiTools bool | SessionTools
  | SpawnTool | SpawnBatchTool | TaskStatusTool | TaskWaitTool | TaskCancelTool | TaskResultTool
  | ReportProgressTool string | CronTools bool | BrowserTools
  | PythonRunTool string | PythonRunNetTool | ShellNetTool | McpTools "mcp_binding list"

record workspace_paths =
  ws_localPath :: string
  ws_hostPath :: string

record context_input =
  bi_agentDef :: agent_row
  bi_history :: "chat_message list"
  bi_options :: agent_options
  bi_workspacePath :: "string option"
  bi_workers :: "(string \<times> string) list option"
  bi_session :: "session_row option"

type_synonym staleness = "(string \<times> (string \<times> bool)) list"

record loop_request =
  lq_messages :: "chat_message list"
  lq_model :: string
  lq_tools :: "tool_group list"
  lq_tracker :: "nat option"
  lq_timeoutMs :: "int option"
  lq_streaming :: bool
  lq_stalenessMap :: staleness

datatype runner_effect =
    ContainerStarted string
  | ContainerStopped string
  | PoolAcquired string string
  | PoolEvicted string
  | PoolReleased string
  | SlotTaken
  | SlotFreed
  | McpOpened
  | McpClosed
  | HistorySaved "chat_message list"
  | LoopStarted loop_request
  | UsageRecorded llm_usage
  | Unregistered string
  | DeliveryTriggered string

record run_frame =
  rx_world :: runner_world
  rx_containerId :: "string option"
  rx_slotHeld :: bool
  rx_mcpOpen :: bool
  rx_log :: "runner_effect list"

text \<open>The awaited calls whose answer the run does not use, and its own queries of the tables.\<close>

datatype runner_call =
    CountRuns | QuerySession | WriteRow | LoadHistory | SaveHistory | CreateProvider | ReadSettings
  | WarmBrowserQuota | ResolveVision | ReleaseBrowser

record runner_env =
  rv_call :: "runner_call \<Rightarrow> (runner_world, unit) proc"
  rv_findDefinition :: "string \<Rightarrow> (runner_world, agent_row) proc"
  rv_findPolicyId :: "string \<Rightarrow> (runner_world, string) proc"
  rv_findPolicy :: "string \<Rightarrow> (runner_world, run_policy) proc"
  rv_spentThisMonth :: "string \<Rightarrow> (runner_world, rat) proc"
  rv_taskRowIds :: "runner_world \<Rightarrow> nat \<Rightarrow> string list"
  rv_findUserAgent :: "string \<Rightarrow> (runner_world, string option) proc"
  rv_resolvePath :: "string \<Rightarrow> workspace_paths"
  rv_findActiveWorkers :: "(runner_world, (string \<times> string) list) proc"
  rv_buildMessages :: "context_input \<Rightarrow> (runner_world, chat_message list \<times> staleness) proc"
  rv_resolveProvider :: "string \<Rightarrow> (runner_world, unit) proc"
  rv_prepareWorkspace :: "workspace_paths \<Rightarrow> (runner_world, unit) proc"
  rv_start :: "agent_def \<Rightarrow> string option \<Rightarrow> (runner_world, string) proc"
  rv_stop :: "string \<Rightarrow> (runner_world, unit) proc"
  rv_acquire :: "agent_def \<Rightarrow> string \<Rightarrow> string option \<Rightarrow> (runner_world, string) proc"
  rv_evict :: "string \<Rightarrow> (runner_world, unit) proc"
  rv_poolConfig :: pool_config
  rv_findServers :: "string list \<Rightarrow> string \<Rightarrow> (runner_world, mcp_server list) proc"
  rv_findEnabledServers :: "string \<Rightarrow> (runner_world, mcp_server list) proc"
  rv_registerMcp :: "mcp_server list \<Rightarrow> mcp_binding list \<Rightarrow> (runner_world, unit) proc"
  rv_closeMcp :: "(runner_world, unit) proc"
  rv_loop :: "loop_request \<Rightarrow> (runner_world, loop_result) proc"
  rv_consolidate :: "string \<Rightarrow> (runner_world, unit) proc"
  rv_warning :: "string \<Rightarrow> (runner_world, token_warning) proc"
  rv_recordUsage :: "llm_usage \<Rightarrow> (runner_world, unit) proc"
  rv_parentFirst :: "runner_world \<Rightarrow> bool" \<comment> \<open>of two aborted signals, which aborted first\<close>
  rv_queueLength :: "string \<Rightarrow> (runner_world, nat) proc"
  rv_publish :: "string \<Rightarrow> (runner_world, unit) proc"

definition outside :: "(runner_world, 'a) proc \<Rightarrow> (run_frame, 'a) proc" where
  "outside f s = (case f (rx_world s) of (r, w) \<Rightarrow> (r, s\<lparr>rx_world := w\<rparr>))"

definition on_world :: "(runner_world \<Rightarrow> runner_world) \<Rightarrow> (run_frame, unit) proc" where
  "on_world f = proc_modify (\<lambda>s. s\<lparr>rx_world := f (rx_world s)\<rparr>)"

definition of_world :: "(runner_world \<Rightarrow> 'a) \<Rightarrow> (run_frame, 'a) proc" where
  "of_world f = proc_read (\<lambda>s. f (rx_world s))"

definition log_effect :: "runner_effect \<Rightarrow> (run_frame, unit) proc" where
  "log_effect e = proc_modify (\<lambda>s. s\<lparr>rx_log := rx_log s @ [e]\<rparr>)"

definition ignore_errors :: "('s, unit) proc \<Rightarrow> ('s, unit) proc" where
  "ignore_errors f = proc_catch f (\<lambda>_. proc_return ())"

definition run_error :: "string \<Rightarrow> thrown" where
  "run_error message = ThrownError (ErrorObj message None None None)"

section \<open>Admission\<close>

record budget_check =
  bc_allowed :: bool
  bc_currentUsageUsd :: rat
  bc_limitUsd :: "rat option"

text \<open>The cap is stored in cents; the division is one of doubles.\<close>

definition check_budget :: "runner_env \<Rightarrow> string \<Rightarrow> string \<Rightarrow> (runner_world, budget_check) proc" where
  "check_budget env userId policyId =
     proc_bind (rv_findPolicy env policyId) (\<lambda>policy.
     proc_bind (rv_spentThisMonth env userId) (\<lambda>used.
       proc_return
         (case up_maxTokenBudget policy of
            None \<Rightarrow> \<lparr>bc_allowed = True, bc_currentUsageUsd = used, bc_limitUsd = None\<rparr>
          | Some cents \<Rightarrow>
              (let limit = rnd (of_nat cents / 100) in
               \<lparr>bc_allowed = (used < limit), bc_currentUsageUsd = used, bc_limitUsd = Some limit\<rparr>))))"

definition check_provider_allowed :: "runner_env \<Rightarrow> string \<Rightarrow> string \<Rightarrow> (runner_world, bool) proc" where
  "check_provider_allowed env policyId provider =
     proc_bind (rv_findPolicy env policyId) (\<lambda>policy. proc_return (provider \<in> set (up_allowedProviders policy)))"

text \<open>\<open>toFixed(4)\<close> of a number that is not negative.\<close>

definition to_fixed4 :: "rat \<Rightarrow> string" where
  "to_fixed4 x =
     (let n = nat \<lfloor>x * 10000 + 1 / 2\<rfloor>; frac = show_nat (n mod 10000)
      in show_nat (n div 10000) @ ''.'' @ replicate (4 - length frac) (CHR 0x30) @ frac)"

definition is_user_primary :: "agent_options \<Rightarrow> bool" where
  "is_user_primary opts \<longleftrightarrow> \<not> op_isSubAgent opts \<and> \<not> op_isReinvocation opts \<and> \<not> op_isScheduledTask opts"

definition active_primaries :: "string \<Rightarrow> runner_world \<Rightarrow> nat" where
  "active_primaries u w = count_active_primary_runs_for_user (wd_sessions w) u (wd_runs w)"

definition admit_primary :: "runner_env \<Rightarrow> agent_options \<Rightarrow> run_policy \<Rightarrow> (runner_world, unit) proc" where
  "admit_primary env opts policy =
     (if is_user_primary opts then
        proc_then (rv_call env CountRuns) (proc_bind (proc_read (active_primaries (op_userId opts))) (\<lambda>n.
          if up_maxConcurrentPrimaryRuns policy \<le> n then
            proc_throw (run_error (''You already have '' @ show_nat n @ '' agent run(s) in progress '' @
              [char_of (226 :: nat), char_of (128 :: nat), char_of (148 :: nat)] @ '' your plan allows '' @
              show_nat (up_maxConcurrentPrimaryRuns policy) @
              '' concurrent run(s). Please wait for one to finish and try again.''))
          else proc_return ()))
      else proc_return ())"

definition admit :: "runner_env \<Rightarrow> agent_options \<Rightarrow> (runner_world, agent_row \<times> run_policy) proc" where
  "admit env opts =
     proc_bind (rv_findDefinition env (op_agentDefinitionId opts)) (\<lambda>def.
       if \<not> af_isActive def then
         proc_throw (run_error (''Agent definition '' @ quoted (op_agentDefinitionId opts) @ '' is inactive''))
       else
         proc_bind (rv_findPolicyId env (op_userId opts)) (\<lambda>policyId.
         proc_bind (rv_findPolicy env policyId) (\<lambda>policy.
         proc_then (admit_primary env opts policy)
        (proc_bind (check_budget env (op_userId opts) policyId) (\<lambda>budget.
           if \<not> bc_allowed budget then
             proc_throw (run_error (''Token budget exceeded for user '' @ quoted (op_userId opts) @ '': $'' @
               to_fixed4 (bc_currentUsageUsd budget) @ '' used of $'' @
               to_fixed4 (case bc_limitUsd budget of None \<Rightarrow> 0 | Some l \<Rightarrow> l) @ '' budget''))
           else
             proc_bind (check_provider_allowed env policyId (af_provider def)) (\<lambda>ok.
               if \<not> ok then
                 proc_throw (run_error (''Provider '' @ quoted (af_provider def) @ '' is not allowed by policy '' @
                   quoted policyId))
               else proc_return (def, policy)))))))"

section \<open>Session, row, registration\<close>

definition session_options :: "agent_options \<Rightarrow> get_or_create_options" where
  "session_options opts =
     \<lparr>go_userId = op_userId opts, go_agentDefinitionId = op_agentDefinitionId opts,
      go_sessionId = (if op_isSubAgent opts then None else op_sessionId opts),
      go_channelId = (if \<not> op_isSubAgent opts \<and> \<not> falsy (op_channelId opts) then op_channelId opts else None)\<rparr>"

definition open_session :: "runner_env \<Rightarrow> agent_options \<Rightarrow> (runner_world, session_row option) proc" where
  "open_session env opts =
     (if op_taskRunStore opts \<noteq> None then proc_return None
      else
        proc_then (rv_call env QuerySession) (\<lambda>w.
          case get_or_create (session_options opts) (wd_sessions w) of
            (r, db) \<Rightarrow> (map_sum id Some r, w\<lparr>wd_sessions := db\<rparr>)))"

definition open_row ::
  "runner_env \<Rightarrow> agent_options \<Rightarrow> session_row option \<Rightarrow> (runner_world, agent_run) proc" where
  "open_row env opts session =
     proc_then (rv_call env WriteRow) (\<lambda>w.
       if falsy (op_agentRunId opts) then
         (case create_run
                 \<lparr>cr_agentDefinitionId = op_agentDefinitionId opts, cr_sessionId = map_option se_id session,
                  cr_input = op_input opts, cr_status = Some AgRunning, cr_parentAgentRunId = None,
                  cr_tokenBudget = None, cr_tokenGracePercent = None\<rparr> (wd_runs w) of
            (row, db) \<Rightarrow> (Inr row, w\<lparr>wd_runs := db\<rparr>))
       else
         (case update_run (the (op_agentRunId opts))
                 (no_update\<lparr>ru_status := Some AgRunning, ru_sessionId := map_option se_id session\<rparr>) (wd_runs w) of
            (r, db) \<Rightarrow> (r, w\<lparr>wd_runs := db\<rparr>)))"

text \<open>The run registers a fresh controller; \<open>AbortSignal.any\<close> takes the reason of whichever signal
  aborts first.\<close>

definition register_controller :: "agent_row \<Rightarrow> session_row option \<Rightarrow> agent_run \<Rightarrow> runner_world \<Rightarrow> runner_world" where
  "register_controller def session row w =
     w\<lparr>wd_nextController := Suc (wd_nextController w),
       wd_registry := register_run (ag_id row) (wd_nextController w) (wd_registry w),
       wd_activity := ra_register (ag_id row)
         \<lparr>rm_agentName = Some (af_name def), rm_sessionId = map_option se_id session,
          rm_parentAgentRunId = (if falsy (ag_parentAgentRunId row) then None else ag_parentAgentRunId row)\<rparr>
         (wd_activity w)\<rparr>"

definition abort_reason :: "runner_env \<Rightarrow> nat \<Rightarrow> nat option \<Rightarrow> runner_world \<Rightarrow> string option" where
  "abort_reason env local parent w =
     (let own = rg_reasons (wd_registry w) local;
          inherited = (case parent of None \<Rightarrow> None | Some c \<Rightarrow> rg_reasons (wd_registry w) c)
      in case (own, inherited) of
           (None, r) \<Rightarrow> r
         | (Some r, None) \<Rightarrow> Some r
         | (Some r, Some r') \<Rightarrow> Some (if rv_parentFirst env w then r' else r))"

definition is_cancelled :: "runner_env \<Rightarrow> agent_options \<Rightarrow> nat \<Rightarrow> runner_world \<Rightarrow> bool" where
  "is_cancelled env opts c w \<longleftrightarrow> abort_reason env c (op_abortSignal opts) w = Some ''user_stop''"

text \<open>The message store: the caller's transcript of a task run, or the session.\<close>

datatype message_store = SessionMessages string | TaskRunMessages string

definition store_of :: "agent_options \<Rightarrow> session_row option \<Rightarrow> message_store" where
  "store_of opts session =
     (case op_taskRunStore opts of
        Some runId \<Rightarrow> TaskRunMessages runId
      | None \<Rightarrow> SessionMessages (case session of None \<Rightarrow> [] | Some s \<Rightarrow> se_id s))"

fun load_from :: "message_store \<Rightarrow> runner_world \<Rightarrow> chat_message list" where
  "load_from (SessionMessages sid) w = load_messages sid (wd_sessions w)"
| "load_from (TaskRunMessages i) w = load_task_run i (wd_taskRuns w)"

fun save_to ::
  "runner_env \<Rightarrow> message_store \<Rightarrow> chat_message list \<Rightarrow> bool list option \<Rightarrow> (runner_world, string list) proc" where
  "save_to env (SessionMessages sid) ms hidden w =
     (case save_messages sid ms hidden (wd_sessions w) of (ids, db) \<Rightarrow> (Inr ids, w\<lparr>wd_sessions := db\<rparr>))"
| "save_to env (TaskRunMessages i) ms hidden w =
     (Inr (rv_taskRowIds env w (length ms)), w\<lparr>wd_taskRuns := append_many i ms (wd_taskRuns w)\<rparr>)"

definition save_history ::
  "runner_env \<Rightarrow> message_store \<Rightarrow> chat_message list \<Rightarrow> bool list option \<Rightarrow> (run_frame, string list) proc" where
  "save_history env st ms hidden =
     proc_then (outside (rv_call env SaveHistory))
       (proc_then (log_effect (HistorySaved ms)) (outside (save_to env st ms hidden)))"

definition user_message :: "agent_options \<Rightarrow> chat_message" where
  "user_message opts = (plain_msg User (op_input opts))\<lparr>msg_senderId := Some (op_userId opts)\<rparr>"

section \<open>History, context, container\<close>

text \<open>Steps 7 to 9.\<close>

definition prepare_messages ::
  "runner_env \<Rightarrow> agent_options \<Rightarrow> agent_row \<Rightarrow> session_row option \<Rightarrow>
     (run_frame, chat_message list \<times> staleness \<times> workspace_paths option) proc" where
  "prepare_messages env opts def session =
     proc_bind
       (if op_isSubAgent opts then proc_return []
        else proc_then (outside (rv_call env LoadHistory)) (of_world (load_from (store_of opts session)))) (\<lambda>history.
     proc_bind (outside (rv_findUserAgent env (op_userId opts))) (\<lambda>agent.
       let workspace = map_option (rv_resolvePath env) agent in
     proc_bind
       (if op_isSubAgent opts then proc_return None
        else proc_bind (outside (rv_findActiveWorkers env)) (\<lambda>ws. proc_return (Some ws))) (\<lambda>workers.
     proc_bind (outside (rv_buildMessages env
         \<lparr>bi_agentDef = def, bi_history = history, bi_options = opts,
          bi_workspacePath = (if op_isSubAgent opts then None else map_option ws_localPath workspace),
          bi_workers = workers, bi_session = session\<rparr>)) (\<lambda>(messages, stale).
     proc_then
       (if op_isSubAgent opts then proc_return ()
        else proc_bind (save_history env (store_of opts session) [user_message opts]
                          (if op_isReinvocation opts then Some [True] else None)) (\<lambda>_. proc_return ()))
       (proc_return (messages, stale, workspace))))))"

text \<open>Steps 10 to 12, up to the start of the container.\<close>

definition prepare_provider :: "runner_env \<Rightarrow> agent_row \<Rightarrow> workspace_paths option \<Rightarrow> (run_frame, unit) proc" where
  "prepare_provider env def workspace =
     proc_then (outside (rv_resolveProvider env (af_provider def)))
    (proc_then (outside (rv_call env CreateProvider))
       (case workspace of None \<Rightarrow> proc_return () | Some ws \<Rightarrow> outside (rv_prepareWorkspace env ws)))"

definition capacity_message :: "container_pool \<Rightarrow> capacity_ledger \<Rightarrow> string" where
  "capacity_message pool l =
     ''Host is at container capacity ('' @ show_nat (occupied pool l) @ ''/'' @ show_ceiling (cl_ceiling l) @
     '' containers active) '' @ [char_of (226 :: nat), char_of (128 :: nat), char_of (148 :: nat)] @
     '' sub-agent cannot start now. Retry shortly or reduce parallel fan-out.''"

definition take_slot :: "(run_frame, unit) proc" where
  "take_slot s =
     (let w = rx_world s in
      case try_acquire_sub_agent (wd_pool w) (wd_ledger w) of
        (False, l) \<Rightarrow> (Inl (run_error (capacity_message (wd_pool w) (wd_ledger w))), s)
      | (True, l) \<Rightarrow>
          (Inr (), s\<lparr>rx_world := w\<lparr>wd_ledger := l\<rparr>, rx_slotHeld := True, rx_log := rx_log s @ [SlotTaken]\<rparr>))"

definition uses_pool :: "agent_options \<Rightarrow> session_row option \<Rightarrow> bool" where
  "uses_pool opts session \<longleftrightarrow> \<not> op_isSubAgent opts \<and> session \<noteq> None"

definition set_container :: "string \<Rightarrow> (run_frame, unit) proc" where
  "set_container cid = proc_modify (\<lambda>s. s\<lparr>rx_containerId := Some cid\<rparr>)"

definition get_container ::
  "runner_env \<Rightarrow> agent_options \<Rightarrow> agent_row \<Rightarrow> session_row option \<Rightarrow> workspace_paths option \<Rightarrow> (run_frame, string) proc" where
  "get_container env opts def session workspace =
     (if \<not> uses_pool opts session then
        proc_then (if op_isSubAgent opts then take_slot else proc_return ())
       (proc_bind (outside (rv_start env (af_container def) (map_option ws_hostPath workspace))) (\<lambda>cid.
          proc_then (set_container cid) (proc_then (log_effect (ContainerStarted cid)) (proc_return cid))))
      else
        (let sid = se_id (the session) in
         proc_bind (outside (rv_acquire env (af_container def) sid (map_option ws_hostPath workspace))) (\<lambda>cid.
           proc_then (set_container cid) (proc_then (log_effect (PoolAcquired sid cid)) (proc_return cid)))))"

section \<open>Tools\<close>

definition bindings_from_tiers :: "mcp_server list \<Rightarrow> mcp_binding list" where
  "bindings_from_tiers servers =
     concat (map (\<lambda>s.
       if \<not> ms_enabled s then []
       else
         (case ms_connections s of
            [] \<Rightarrow> []
          | c # _ \<Rightarrow>
              if mc_status c \<noteq> ''active'' then []
              else
                (let recommended = (case mc_recommended c of None \<Rightarrow> [] | Some ts \<Rightarrow> ts) in
                 if recommended = [] then [] else [\<lparr>mb_serverId = ms_id s, mb_enabledTools = recommended\<rparr>]))) servers)"

text \<open>The tools registered without asking anyone: containers, the web, the wiki, recall, and the
  cooperation tools of a primary run or the progress tool of a sub-agent.\<close>

definition own_tools :: "agent_options \<Rightarrow> agent_row \<Rightarrow> run_policy \<Rightarrow> session_row option \<Rightarrow> tool_group list" where
  "own_tools opts def policy session =
     [ContainerTools, WebTools, WikiTools (up_wikiLintEnabled policy), SessionTools] @
     (if \<not> op_isSubAgent opts \<and> session \<noteq> None
      then [SpawnTool, SpawnBatchTool, TaskStatusTool, TaskWaitTool, TaskCancelTool, TaskResultTool] else []) @
     (if op_isSubAgent opts \<and> \<not> falsy (op_sessionId opts) then [ReportProgressTool (the (op_sessionId opts))] else [])"

definition sandbox_tools ::
  "run_policy \<Rightarrow> session_row option \<Rightarrow> string \<Rightarrow> workspace_paths option \<Rightarrow> tool_group list" where
  "sandbox_tools policy session runId workspace =
     (if up_allowPython policy \<and> workspace \<noteq> None
      then [PythonRunTool (case session of None \<Rightarrow> ''agentrun-'' @ runId | Some s \<Rightarrow> se_id s)] else []) @
     (if up_allowPythonNet policy \<and> workspace \<noteq> None then [PythonRunNetTool] else []) @
     (if up_allowShellNet policy \<and> workspace \<noteq> None then [ShellNetTool] else [])"

definition mcp_tools :: "runner_env \<Rightarrow> agent_options \<Rightarrow> agent_row \<Rightarrow> run_policy \<Rightarrow> (run_frame, tool_group list) proc" where
  "mcp_tools env opts def policy =
     proc_then (proc_modify (\<lambda>s. s\<lparr>rx_mcpOpen := True, rx_log := rx_log s @ [McpOpened]\<rparr>))
       (if \<not> up_allowMcp policy then proc_return []
        else
          proc_bind
            (if af_mcp def \<noteq> None \<and> the (af_mcp def) \<noteq> [] then
               proc_bind (outside (rv_findServers env (map mb_serverId (the (af_mcp def))) (op_userId opts)))
                 (\<lambda>servers. proc_return (servers, the (af_mcp def)))
             else
               proc_bind (outside (rv_findEnabledServers env (op_userId opts)))
                 (\<lambda>servers. proc_return (servers, bindings_from_tiers servers))) (\<lambda>(servers, bindings).
            if bindings = [] then proc_return []
            else proc_then (outside (rv_registerMcp env servers bindings)) (proc_return [McpTools bindings])))"

definition collect_tools ::
  "runner_env \<Rightarrow> agent_options \<Rightarrow> agent_row \<Rightarrow> run_policy \<Rightarrow> session_row option \<Rightarrow> string \<Rightarrow> workspace_paths option \<Rightarrow>
     (run_frame, tool_group list) proc" where
  "collect_tools env opts def policy session runId workspace =
     proc_then (outside (rv_call env ReadSettings))
    (proc_then (outside (rv_call env WarmBrowserQuota))
    (proc_then (outside (rv_call env ResolveVision))
    (proc_bind (mcp_tools env opts def policy) (\<lambda>mcp.
       proc_return (own_tools opts def policy session @
         (if up_cronEnabled policy then [CronTools (op_isScheduledTask opts)] else []) @ [BrowserTools] @
         sandbox_tools policy session runId workspace @ mcp)))))"

section \<open>The loop and what follows it\<close>

definition streams :: "agent_options \<Rightarrow> agent_row \<Rightarrow> bool" where
  "streams opts def \<longleftrightarrow> \<not> op_isSubAgent opts \<and> af_streamingEnabled def \<and> op_hasEventSink opts"

definition record_usage :: "runner_env \<Rightarrow> llm_usage \<Rightarrow> (run_frame, unit) proc" where
  "record_usage env usage = proc_then (outside (rv_recordUsage env usage)) (log_effect (UsageRecorded usage))"

definition cancelled_result :: "agent_run \<Rightarrow> session_row option \<Rightarrow> bool \<Rightarrow> llm_usage \<Rightarrow> agent_result" where
  "cancelled_result row session streaming usage =
     \<lparr>rt_agentRunId = ag_id row, rt_sessionId = map_option se_id session, rt_output = None, rt_status = AgCancelled,
      rt_responseMessageId = None, rt_streamingUsed = streaming, rt_usage = usage, rt_error = None\<rparr>"

text \<open>Step 16: the messages the loop added, and the id of the last reply among them.\<close>

definition save_reply ::
  "runner_env \<Rightarrow> agent_options \<Rightarrow> agent_row \<Rightarrow> session_row option \<Rightarrow> nat \<Rightarrow> loop_result \<Rightarrow>
     (run_frame, string option) proc" where
  "save_reply env opts def session initial lr =
     (let loopMessages = drop initial (lr_messages lr) in
      if op_isSubAgent opts \<or> loopMessages = [] then proc_return None
      else
        proc_bind (save_history env (store_of opts session) loopMessages
                     (Some (compute_hidden_in_history loopMessages (streams opts def)))) (\<lambda>savedIds.
          proc_return
            (case find_last_index (\<lambda>m. msg_role m = Assistant) loopMessages (length loopMessages) of
               None \<Rightarrow> None
             | Some i \<Rightarrow> if i < length savedIds then Some (savedIds ! i) else None)))"

text \<open>Step 17.\<close>

definition context_warning :: "token_warning \<Rightarrow> string" where
  "context_warning warning =
     (case warning of
        WarnNone \<Rightarrow> []
      | WarnCritical \<Rightarrow> newline @ newline @ ''---'' @ newline @ ''Session context is nearly full. Run /compact to free space.''
      | WarnApproaching \<Rightarrow>
          newline @ newline @ ''---'' @ newline @ ''Session context is getting large. Consider running /compact.'')"

definition consolidate_session :: "runner_env \<Rightarrow> agent_options \<Rightarrow> session_row option \<Rightarrow> (run_frame, string) proc" where
  "consolidate_session env opts session =
     (if op_isSubAgent opts \<or> session = None then proc_return []
      else
        (let sid = se_id (the session) in
         proc_then (outside (rv_consolidate env sid))
           (proc_bind (outside (rv_warning env sid)) (\<lambda>wn. proc_return (context_warning wn)))))"

text \<open>Step 19.\<close>

definition run_status :: "loop_result \<Rightarrow> agent_status" where
  "run_status lr = (if lr_hitTimeout lr then AgFailed else if lr_hitTokenBudget lr then AgFailed else AgCompleted)"

definition timeout_suffix :: "loop_result \<Rightarrow> string" where
  "timeout_suffix lr =
     (if lr_hitTimeout lr
      then newline @ newline @ ''---'' @ newline @ ''Agent run timed out. Try a simpler request or break it into smaller tasks.''
      else [])"

definition transcript_output :: "agent_options \<Rightarrow> loop_result \<Rightarrow> string" where
  "transcript_output opts lr =
     (if op_fullTranscript opts then
        join (newline @ newline)
          (filter (\<lambda>c. trim_ws c \<noteq> []) (map msg_content (filter (\<lambda>m. msg_role m = Assistant) (lr_messages lr))))
      else (case lr_content lr of None \<Rightarrow> [] | Some c \<Rightarrow> c))"

definition final_output :: "agent_options \<Rightarrow> loop_result \<Rightarrow> string \<Rightarrow> string option" where
  "final_output opts lr warning =
     (let out = transcript_output opts lr @ warning @ timeout_suffix lr in if out = [] then None else Some out)"

definition settle_row ::
  "runner_env \<Rightarrow> string \<Rightarrow> agent_status \<Rightarrow> string option \<Rightarrow> string option \<Rightarrow> (run_frame, unit) proc" where
  "settle_row env i st output err =
     proc_then (outside (rv_call env WriteRow))
       (on_world (\<lambda>w. w\<lparr>wd_runs := finish_run i st output err (wd_runs w)\<rparr>))"

definition complete_run ::
  "runner_env \<Rightarrow> agent_options \<Rightarrow> agent_row \<Rightarrow> session_row option \<Rightarrow> agent_run \<Rightarrow> nat \<Rightarrow> loop_result \<Rightarrow>
     (run_frame, agent_result) proc" where
  "complete_run env opts def session row initial lr =
     proc_bind (save_reply env opts def session initial lr) (\<lambda>responseId.
     proc_bind (consolidate_session env opts session) (\<lambda>warning.
     proc_then (record_usage env (lr_totalUsage lr))
    (let out = final_output opts lr warning;
         timedOut = (if lr_hitTimeout lr then Some ''Agent run timed out'' else None) in
     proc_then (settle_row env (ag_id row) (run_status lr) (Some (case out of None \<Rightarrow> [] | Some x \<Rightarrow> x)) timedOut)
       (proc_return
          \<lparr>rt_agentRunId = ag_id row, rt_sessionId = map_option se_id session, rt_output = out,
           rt_status = run_status lr, rt_responseMessageId = responseId, rt_streamingUsed = streams opts def,
           rt_usage = lr_totalUsage lr,
           rt_error = (if lr_hitTimeout lr then timedOut
                       else if lr_hitTokenBudget lr then Some ''token_budget_exceeded'' else None)\<rparr>))))"

definition run_body ::
  "runner_env \<Rightarrow> agent_options \<Rightarrow> agent_row \<Rightarrow> run_policy \<Rightarrow> nat option \<Rightarrow> session_row option \<Rightarrow> agent_run \<Rightarrow> nat \<Rightarrow>
     (run_frame, agent_result) proc" where
  "run_body env opts def policy tracker session row c =
     proc_bind (prepare_messages env opts def session) (\<lambda>(messages, stale, workspace).
     proc_then (prepare_provider env def workspace)
    (proc_bind (get_container env opts def session workspace) (\<lambda>cid.
     proc_bind (collect_tools env opts def policy session (ag_id row) workspace) (\<lambda>tools.
       let request = \<lparr>lq_messages = messages, lq_model = af_model def, lq_tools = tools, lq_tracker = tracker,
                      lq_timeoutMs = op_timeoutMs opts, lq_streaming = streams opts def, lq_stalenessMap = stale\<rparr> in
       proc_then (log_effect (LoopStarted request))
      (proc_bind (outside (rv_loop env request)) (\<lambda>lr.
       proc_bind (of_world (is_cancelled env opts c)) (\<lambda>cancelled.
         if cancelled then
           proc_then (record_usage env (lr_totalUsage lr))
             (proc_return (cancelled_result row session (streams opts def) (lr_totalUsage lr)))
         else complete_run env opts def session row (length messages) lr)))))))"

section \<open>Failure and cleanup\<close>

definition on_failure ::
  "runner_env \<Rightarrow> agent_options \<Rightarrow> session_row option \<Rightarrow> agent_run \<Rightarrow> nat \<Rightarrow> thrown \<Rightarrow> (run_frame, agent_result) proc" where
  "on_failure env opts session row c err =
     proc_bind (of_world (is_cancelled env opts c)) (\<lambda>cancelled.
       if cancelled then
         proc_then (ignore_errors (record_usage env zero_usage)) (proc_return (cancelled_result row session False zero_usage))
       else
         proc_then (settle_row env (ag_id row) AgFailed None (Some (thrown_text err)))
        (proc_bind (proc_read rx_containerId) (\<lambda>cid.
         proc_then
           (if \<not> op_isSubAgent opts \<and> session \<noteq> None \<and> cid \<noteq> None then
              proc_then (log_effect (PoolEvicted (se_id (the session)))) (outside (rv_evict env (se_id (the session))))
            else proc_return ())
           (proc_throw err))))"

definition close_mcp :: "runner_env \<Rightarrow> (run_frame, unit) proc" where
  "close_mcp env =
     proc_bind (proc_read rx_mcpOpen) (\<lambda>opened.
       if opened then proc_then (log_effect McpClosed) (ignore_errors (outside (rv_closeMcp env))) else proc_return ())"

definition give_container :: "runner_env \<Rightarrow> agent_options \<Rightarrow> session_row option \<Rightarrow> (run_frame, unit) proc" where
  "give_container env opts session =
     proc_bind (proc_read rx_containerId) (\<lambda>cid.
       if \<not> uses_pool opts session \<and> cid \<noteq> None then
         proc_then (outside (rv_stop env (the cid))) (log_effect (ContainerStopped (the cid)))
       else if uses_pool opts session then
         proc_then (log_effect (PoolReleased (se_id (the session))))
           (on_world (\<lambda>w. w\<lparr>wd_pool := snd (release (rv_poolConfig env) (se_id (the session)) (wd_pool w))\<rparr>))
       else proc_return ())"

definition free_slot :: "(run_frame, unit) proc" where
  "free_slot =
     proc_bind (proc_read rx_slotHeld) (\<lambda>held.
       if held then
         proc_then (on_world (\<lambda>w. w\<lparr>wd_ledger := release_sub_agent (wd_ledger w)\<rparr>)) (log_effect SlotFreed)
       else proc_return ())"

definition unregister :: "string \<Rightarrow> (run_frame, unit) proc" where
  "unregister i =
     proc_then (on_world (\<lambda>w. w\<lparr>wd_registry := unregister_run i (wd_registry w),
                                wd_activity := ra_unregister i (wd_activity w)\<rparr>))
       (log_effect (Unregistered i))"

definition wake_delivery :: "runner_env \<Rightarrow> agent_options \<Rightarrow> session_row option \<Rightarrow> (run_frame, unit) proc" where
  "wake_delivery env opts session =
     (if op_isSubAgent opts \<or> session = None then proc_return ()
      else
        (let sid = se_id (the session) in
         ignore_errors
           (proc_bind (outside (rv_queueLength env sid)) (\<lambda>queued.
              if 0 < queued then proc_then (log_effect (DeliveryTriggered sid)) (outside (rv_publish env sid))
              else proc_return ()))))"

definition cleanup :: "runner_env \<Rightarrow> agent_options \<Rightarrow> session_row option \<Rightarrow> agent_run \<Rightarrow> (run_frame, unit) proc" where
  "cleanup env opts session row =
     proc_then (close_mcp env)
    (proc_then (give_container env opts session)
    (proc_then free_slot
    (proc_then (ignore_errors (outside (rv_call env ReleaseBrowser)))
    (proc_then (unregister (ag_id row))
       (wake_delivery env opts session)))))"

definition run_registered ::
  "runner_env \<Rightarrow> agent_options \<Rightarrow> agent_row \<Rightarrow> run_policy \<Rightarrow> nat option \<Rightarrow> session_row option \<Rightarrow> agent_run \<Rightarrow> nat \<Rightarrow>
     (run_frame, agent_result) proc" where
  "run_registered env opts def policy tracker session row c =
     proc_finally
       (proc_catch (run_body env opts def policy tracker session row c) (on_failure env opts session row c))
       (cleanup env opts session row)"

section \<open>The run\<close>

definition resolve_tracker :: "agent_options \<Rightarrow> runner_world \<Rightarrow> nat option \<times> runner_world" where
  "resolve_tracker opts w =
     (case op_budgetTracker opts of
        Some t \<Rightarrow> (Some t, w)
      | None \<Rightarrow>
          (case op_tokenBudget opts of
             None \<Rightarrow> (None, w)
           | Some budget \<Rightarrow>
               (Some (length (wd_trackers w)),
                w\<lparr>wd_trackers := wd_trackers w @
                    [new_tracker (Some budget) (case op_tokenGracePercent opts of None \<Rightarrow> 10 | Some g \<Rightarrow> g) 0]\<rparr>)))"

definition no_locals :: "run_frame \<Rightarrow> run_frame" where
  "no_locals s = s\<lparr>rx_containerId := None, rx_slotHeld := False, rx_mcpOpen := False\<rparr>"

definition agent_run_proc :: "runner_env \<Rightarrow> agent_options \<Rightarrow> (run_frame, agent_result) proc" where
  "agent_run_proc env opts =
     proc_bind (outside (\<lambda>w. apfst Inr (resolve_tracker opts w))) (\<lambda>tracker.
     proc_bind (outside (admit env opts)) (\<lambda>(def, policy).
     proc_bind (outside (open_session env opts)) (\<lambda>session.
     proc_bind (outside (open_row env opts session)) (\<lambda>row.
     proc_bind (of_world wd_nextController) (\<lambda>c.
     proc_then (on_world (register_controller def session row))
    (proc_then (proc_modify no_locals)
       (run_registered env opts def policy tracker session row c)))))))"

section \<open>Rules for the run's own steps\<close>

text \<open>An assertion that does not read the world survives any outside call.\<close>

lemma triple_outside_frame:
  "(\<And>s w. P (s\<lparr>rx_world := w\<rparr>) = P s) \<Longrightarrow> preserves P (outside f)"
  by (auto simp: triple_def outside_def outcome_in_def split: prod.splits sum.splits)

lemma triple_on_world_frame:
  "(\<And>s w. P (s\<lparr>rx_world := w\<rparr>) = P s) \<Longrightarrow> preserves P (on_world f)"
  by (auto simp: triple_def on_world_def proc_modify_def)

lemma triple_of_world: "triple P (of_world f) (\<lambda>_. P) E"
  by (auto simp: triple_def of_world_def proc_read_def)

lemma triple_log:
  "(\<And>s. P s \<Longrightarrow> Q () (s\<lparr>rx_log := rx_log s @ [e]\<rparr>)) \<Longrightarrow> triple P (log_effect e) Q E"
  by (simp add: triple_def log_effect_def proc_modify_def)

lemma triple_ignore: "triple P f (\<lambda>_. Q) (\<lambda>_. Q) \<Longrightarrow> triple P (ignore_errors f) (\<lambda>_. Q) E"
  unfolding ignore_errors_def by (rule triple_catch) (auto intro: triple_return)

end
