(* ===== verification/QuietRun.thy ===== *)
theory QuietRun
  imports AgentRunner
begin

text \<open>
  Concrete runs of \<open>AgentRunner\<close>: an environment whose calls return at once, and the evaluation of a
  primary and of a sub-agent run in it, for any context and any answer of the loop. The collection
  \<open>run_eval\<close> executes the programs of \<open>Effects\<close> step by step, from the front, by rewriting.
\<close>

section \<open>A quiet environment\<close>

text \<open>An environment in which every call returns at once and changes nothing, for concrete runs: the
  context it builds and the answer of its loop are given.\<close>

definition quiet_agent :: agent_row where
  "quiet_agent =
     \<lparr>af_id = ''d'', af_name = ''helper'', af_isActive = True, af_provider = ''openai'', af_model = ''m'',
      af_streamingEnabled = False, af_container = \<lparr>ad_id = ''d'', ad_idleTimeoutSeconds = None\<rparr>, af_mcp = None\<rparr>"

definition quiet_policy :: run_policy where
  "quiet_policy =
     \<lparr>up_maxConcurrentPrimaryRuns = 2, up_maxTokenBudget = None, up_allowedProviders = [''openai''],
      up_wikiLintEnabled = True, up_cronEnabled = True, up_allowPython = False, up_allowPythonNet = False,
      up_allowShellNet = False, up_allowMcp = False\<rparr>"

definition quiet_env :: "chat_message list \<Rightarrow> loop_result \<Rightarrow> runner_env" where
  "quiet_env context lr =
     \<lparr>rv_call = \<lambda>_. proc_return (), rv_findDefinition = \<lambda>_. proc_return quiet_agent,
      rv_findPolicyId = \<lambda>_. proc_return ''p'', rv_findPolicy = \<lambda>_. proc_return quiet_policy,
      rv_spentThisMonth = \<lambda>_. proc_return 0, rv_taskRowIds = \<lambda>_ n. replicate n [], rv_findUserAgent = \<lambda>_. proc_return None,
      rv_resolvePath = \<lambda>p. \<lparr>ws_localPath = p, ws_hostPath = p\<rparr>, rv_findActiveWorkers = proc_return [],
      rv_buildMessages = \<lambda>_. proc_return (context, []), rv_resolveProvider = \<lambda>_. proc_return (),
      rv_prepareWorkspace = \<lambda>_. proc_return (), rv_start = \<lambda>_ _. proc_return ''c'', rv_stop = \<lambda>_. proc_return (),
      rv_acquire = \<lambda>_ _ _. proc_return ''c'', rv_evict = \<lambda>_. proc_return (), rv_poolConfig = default_pool_config,
      rv_findServers = \<lambda>_ _. proc_return [], rv_findEnabledServers = \<lambda>_. proc_return [],
      rv_registerMcp = \<lambda>_ _. proc_return (), rv_closeMcp = proc_return (), rv_loop = \<lambda>_. proc_return lr,
      rv_consolidate = \<lambda>_. proc_return (), rv_warning = \<lambda>_. proc_return WarnNone, rv_recordUsage = \<lambda>_. proc_return (),
      rv_parentFirst = \<lambda>_. False, rv_queueLength = \<lambda>_. proc_return 0, rv_publish = \<lambda>_. proc_return ()\<rparr>"

definition quiet_options :: "bool \<Rightarrow> agent_options" where
  "quiet_options sub =
     \<lparr>op_agentDefinitionId = ''d'', op_input = ''hi'', op_userId = ''u'', op_sessionId = Some ''s'', op_isSubAgent = sub,
      op_isScheduledTask = False, op_isReinvocation = False, op_agentRunId = None, op_channelId = None,
      op_tokenBudget = None, op_tokenGracePercent = None, op_budgetTracker = None, op_timeoutMs = None,
      op_taskRunStore = None, op_fullTranscript = False, op_hasEventSink = False, op_abortSignal = None\<rparr>"

definition quiet_session :: session_row where
  "quiet_session =
     \<lparr>se_id = ''s'', se_userId = ''u'', se_agentDefinitionId = ''d'', se_channelId = None, se_isActive = True,
      se_lastConsolidatedAt = None\<rparr>"

text \<open>The world has the session of the user, two runs, one of them settled, and an empty pool.\<close>

definition quiet_world :: runner_world where
  "quiet_world =
     \<lparr>wd_runs = \<lparr>rd_rows = [sample_run ''a'' None AgRunning 0, sample_run ''z'' None AgCompleted 0],
                 rd_ids = \<lambda>n. ''r'' @ show_nat n, rd_nextId = 0, rd_now = 1\<rparr>,
      wd_sessions = empty_db\<lparr>db_sessions := [quiet_session], db_nextId := 1\<rparr>, wd_taskRuns = [], wd_registry = no_controllers,
      wd_nextController = 0, wd_activity = [], wd_pool = empty_pool, wd_ledger = new_ledger None, wd_trackers = []\<rparr>"

definition quiet_frame :: run_frame where
  "quiet_frame =
     \<lparr>rx_world = quiet_world, rx_containerId = None, rx_slotHeld = False, rx_mcpOpen = False, rx_log = []\<rparr>"

definition quiet_answer :: "chat_message list \<Rightarrow> loop_result" where
  "quiet_answer ms =
     \<lparr>lr_content = Some ''hello'', lr_messages = ms, lr_totalUsage = zero_usage, lr_iterations = 1,
      lr_hitMaxIterations = False, lr_hitTokenBudget = False, lr_hitTimeout = False\<rparr>"

definition quiet_talk :: "chat_message list" where
  "quiet_talk = [plain_msg System ''be brief'', plain_msg User ''hi'', plain_msg Assistant ''hello'']"

section \<open>Executing a run by rewriting\<close>

named_theorems run_eval \<open>rules that execute the first step of a procedure at a state\<close>

lemma eval_step [run_eval]:
  "proc_bind (proc_modify f) k s = k () (f s)"
  "proc_then (proc_modify f) g s = g (f s)"
  "proc_bind (proc_read r) k' s = k' (r s) s"
  "proc_then (proc_return x) g = g"
  "proc_then (proc_throw e) g = proc_throw e"
  "proc_catch (proc_return x) h = proc_return x"
  "proc_catch (proc_throw e) h = h e"
  "outside (proc_return x) = proc_return x"
  "outside (proc_throw e) = proc_throw e"
  by (auto simp: proc_defs outside_def fun_eq_iff)

lemma eval_assoc [run_eval]:
  "proc_then (proc_bind a b) g = proc_bind a (\<lambda>x. proc_then (b x) g)"
  "proc_then (proc_then a' b') g = proc_then a' (proc_then b' g)"
  "proc_bind (proc_then a' c) h = proc_then a' (proc_bind c h)"
  by (auto simp: proc_defs fun_eq_iff split: prod.splits sum.splits)

lemma eval_end [run_eval]:
  "case_prod F (proc_return x s) = F (Inr x) s"
  "case_prod F (proc_throw e s) = F (Inl e) s"
  "case_prod F' (proc_modify f s) = F' (Inr ()) (f s)"
  "fst (proc_return x s) = Inr x" "snd (proc_return x s) = s"
  "fst (proc_throw e s) = Inl e" "snd (proc_throw e s) = s"
  by (simp_all add: proc_defs)

text \<open>A step already applied to its state in part.\<close>

lemma eval_applied [run_eval]:
  "proc_bind (\<lambda>a. proc_return x (h a)) k s = k x (h s)"
  "proc_then (\<lambda>a. proc_return x (h a)) k' s = k' (h s)"
  "proc_bind (\<lambda>a. if p a then f a else g a) k s = (if p s then proc_bind f k s else proc_bind g k s)"
  "proc_then (\<lambda>a. if p a then f' a else g' a) k' s = (if p s then proc_then f' k' s else proc_then g' k' s)"
  by (simp_all add: proc_defs)

lemma eval_slot [run_eval]:
  "fst (try_acquire_sub_agent (wd_pool (rx_world s)) (wd_ledger (rx_world s))) \<Longrightarrow>
   proc_then take_slot g s =
   g (s\<lparr>rx_world := (rx_world s)\<lparr>wd_ledger := snd (try_acquire_sub_agent (wd_pool (rx_world s)) (wd_ledger (rx_world s)))\<rparr>,
        rx_slotHeld := True, rx_log := rx_log s @ [SlotTaken]\<rparr>)"
  by (auto simp: take_slot_def proc_then_def proc_bind_def Let_def split: prod.splits bool.splits)

lemma eval_save [run_eval]:
  "proc_bind (outside (save_to env (SessionMessages sid) ms hidden)) k s =
   (let r = save_messages sid ms hidden (wd_sessions (rx_world s)) in
    k (fst r) (s\<lparr>rx_world := (rx_world s)\<lparr>wd_sessions := snd r\<rparr>\<rparr>))"
  by (simp add: outside_def proc_bind_def Let_def split: prod.splits)

lemmas run_parts = run_registered_def run_body_def prepare_messages_def prepare_provider_def get_container_def
  collect_tools_def mcp_tools_def complete_run_def save_reply_def save_history_def consolidate_session_def
  record_usage_def settle_row_def on_failure_def cleanup_def close_mcp_def give_container_def free_slot_def
  unregister_def wake_delivery_def uses_pool_def streams_def store_of_def
  log_effect_def on_world_def of_world_def set_container_def ignore_errors_def proc_catch_def proc_finally_def

lemma quiet_env_calls [run_eval]:
  "rv_call (quiet_env ms lr) c = proc_return ()"
  "rv_findUserAgent (quiet_env ms lr) u = proc_return None"
  "rv_findActiveWorkers (quiet_env ms lr) = proc_return []"
  "rv_buildMessages (quiet_env ms lr) i = proc_return (ms, [])"
  "rv_resolveProvider (quiet_env ms lr) p = proc_return ()"
  "rv_start (quiet_env ms lr) a h = proc_return ''c''"
  "rv_stop (quiet_env ms lr) cid = proc_return ()"
  "rv_acquire (quiet_env ms lr) a sid h = proc_return ''c''"
  "rv_loop (quiet_env ms lr) q = proc_return lr"
  "rv_consolidate (quiet_env ms lr) sid = proc_return ()"
  "rv_warning (quiet_env ms lr) sid = proc_return WarnNone"
  "rv_recordUsage (quiet_env ms lr) u' = proc_return ()"
  "rv_closeMcp (quiet_env ms lr) = proc_return ()"
  "rv_queueLength (quiet_env ms lr) sid = proc_return 0"
  by (simp_all add: quiet_env_def)

lemma quiet_options_fields [run_eval]:
  "op_isSubAgent (quiet_options sub) = sub" "op_isReinvocation (quiet_options sub) = False"
  "op_isScheduledTask (quiet_options sub) = False" "op_taskRunStore (quiet_options sub) = None"
  "op_timeoutMs (quiet_options sub) = None" "op_abortSignal (quiet_options sub) = None"
  "op_hasEventSink (quiet_options sub) = False"
  by (simp_all add: quiet_options_def)

lemma quiet_rows [run_eval]:
  "up_allowMcp quiet_policy = False" "up_cronEnabled quiet_policy = True" "af_streamingEnabled quiet_agent = False"
  "se_id quiet_session = ''s''" "wd_registry (rx_world quiet_frame) = no_controllers"
  "rx_log quiet_frame = []" "rx_slotHeld quiet_frame = False" "rx_mcpOpen quiet_frame = False"
  "rx_containerId quiet_frame = None"
  by (simp_all add: quiet_policy_def quiet_agent_def quiet_session_def quiet_frame_def quiet_world_def)

lemma quiet_no_locals: "no_locals quiet_frame = quiet_frame"
  by (simp add: no_locals_def quiet_frame_def)

lemma quiet_slot [run_eval]:
  "fst (try_acquire_sub_agent (wd_pool (rx_world quiet_frame)) (wd_ledger (rx_world quiet_frame)))"
  by (simp add: quiet_frame_def quiet_world_def) code_simp

lemma never_cancelled [run_eval]:
  "wd_registry w = no_controllers \<Longrightarrow> op_abortSignal opts = None \<Longrightarrow> is_cancelled env opts c w = False"
  by (simp add: is_cancelled_def no_controllers_def abort_reason_def)

definition quiet_request :: "bool \<Rightarrow> chat_message list \<Rightarrow> loop_request" where
  "quiet_request sub ms =
     \<lparr>lq_messages = ms, lq_model = af_model quiet_agent,
      lq_tools = own_tools (quiet_options sub) quiet_agent quiet_policy (if sub then None else Some quiet_session) @
        [CronTools False, BrowserTools] @
        sandbox_tools quiet_policy (if sub then None else Some quiet_session) (ag_id (sample_run ''a'' None AgRunning 0)) None,
      lq_tracker = None, lq_timeoutMs = None, lq_streaming = False, lq_stalenessMap = []\<rparr>"

definition quiet_run :: "bool \<Rightarrow> runner_env \<Rightarrow> (thrown + agent_result) \<times> run_frame" where
  "quiet_run sub env =
     run_registered env (quiet_options sub) quiet_agent quiet_policy None (if sub then None else Some quiet_session)
       (sample_run ''a'' None AgRunning 0) 0 quiet_frame"

lemma quiet_run_unfold:
  "run_registered env (quiet_options sub) quiet_agent quiet_policy None (if sub then None else Some quiet_session)
     (sample_run ''a'' None AgRunning 0) 0 quiet_frame = (fst (quiet_run sub env), snd (quiet_run sub env))"
  by (simp add: quiet_run_def)

lemma quiet_sub_agent_log:
  "rx_log (snd (quiet_run True (quiet_env ms lr))) =
   [SlotTaken, ContainerStarted ''c'', McpOpened, LoopStarted (quiet_request True ms), UsageRecorded (lr_totalUsage lr),
    McpClosed, ContainerStopped ''c'', SlotFreed, Unregistered (ag_id (sample_run ''a'' None AgRunning 0))]"
  by (simp add: quiet_run_def quiet_request_def run_parts run_eval proc_bind_assoc Let_def split del: if_split)

lemma quiet_sub_agent_result:
  "map_sum (\<lambda>x. x) (\<lambda>res. (rt_status res, rt_output res)) (fst (quiet_run True (quiet_env ms lr))) =
   Inr (run_status lr, final_output (quiet_options True) lr [])"
  by (simp add: quiet_run_def run_parts run_eval proc_bind_assoc Let_def split del: if_split)

lemma quiet_primary_log:
  "rx_log (snd (quiet_run False (quiet_env ms lr))) =
   [HistorySaved [user_message (quiet_options False)], PoolAcquired ''s'' ''c'', McpOpened, LoopStarted (quiet_request False ms)] @
   (if drop (length ms) (lr_messages lr) = [] then [] else [HistorySaved (drop (length ms) (lr_messages lr))]) @
   [UsageRecorded (lr_totalUsage lr), McpClosed, PoolReleased ''s'', Unregistered (ag_id (sample_run ''a'' None AgRunning 0))]"
  by (cases "length (lr_messages lr) \<le> length ms")
     (simp_all add: quiet_run_def quiet_request_def run_parts run_eval proc_bind_assoc Let_def context_warning_def split del: if_split)

lemma quiet_primary_result:
  "map_sum (\<lambda>x. x) (\<lambda>res. (rt_status res, rt_output res)) (fst (quiet_run False (quiet_env ms lr))) =
   Inr (run_status lr, final_output (quiet_options False) lr [])"
  by (cases "length (lr_messages lr) \<le> length ms")
     (simp_all add: quiet_run_def run_parts run_eval proc_bind_assoc Let_def context_warning_def split del: if_split)

text \<open>Two runs that fail: a provider that cannot be resolved, and a container that cannot be stopped.\<close>

definition provider_missing :: thrown where
  "provider_missing = run_error ''No API key configured''"

definition no_provider_env :: runner_env where
  "no_provider_env = (quiet_env (take 2 quiet_talk) (quiet_answer quiet_talk))\<lparr>rv_resolveProvider := \<lambda>_. proc_throw provider_missing\<rparr>"

definition stop_fails_env :: runner_env where
  "stop_fails_env = (quiet_env (take 2 quiet_talk) (quiet_answer quiet_talk))\<lparr>rv_stop := \<lambda>_. proc_throw (run_error ''docker'')\<rparr>"

lemma no_provider_calls [run_eval]:
  "rv_call no_provider_env c = proc_return ()"
  "rv_findUserAgent no_provider_env u = proc_return None"
  "rv_findActiveWorkers no_provider_env = proc_return []"
  "rv_buildMessages no_provider_env i = proc_return (take 2 quiet_talk, [])"
  "rv_resolveProvider no_provider_env p = proc_throw provider_missing"
  "rv_queueLength no_provider_env sid = proc_return 0"
  "rv_poolConfig no_provider_env = default_pool_config"
  by (simp_all add: no_provider_env_def quiet_env_def)

lemma no_provider_log:
  "rx_log (snd (quiet_run False no_provider_env)) =
   [HistorySaved [user_message (quiet_options False)], PoolReleased ''s'', Unregistered (ag_id (sample_run ''a'' None AgRunning 0))]"
  by (simp add: quiet_run_def run_parts run_eval proc_bind_assoc Let_def split del: if_split)

lemma stop_fails_run:
  "fst (quiet_run True stop_fails_env) = Inl (run_error ''docker'')"
  "rx_log (snd (quiet_run True stop_fails_env)) =
   [SlotTaken, ContainerStarted ''c'', McpOpened, LoopStarted (quiet_request True (take 2 quiet_talk)),
    UsageRecorded zero_usage, McpClosed]"
  by (simp_all add: quiet_run_def quiet_request_def stop_fails_env_def run_parts run_eval proc_bind_assoc Let_def
      quiet_answer_def split del: if_split)

end
