(* ===== verification/AgentRunnerProps.thy ===== *)
theory AgentRunnerProps
  imports QuietRun
begin

text \<open>
  What a run of \<open>engine/agent-runner.service.ts\<close> guarantees whatever the other services answer, throw or
  change meanwhile: it stays within the rights of its options and policy, gives back what it took,
  leaves its row settled and never touches a settled row, and reports what its loop answered. The
  environment is arbitrary; where a theorem needs more of it, the hypothesis is a relation that all its
  calls obey.
\<close>

section \<open>The rights of a run\<close>

fun tool_permitted ::
  "agent_options \<Rightarrow> agent_row \<Rightarrow> run_policy \<Rightarrow> session_row option \<Rightarrow> tool_group \<Rightarrow> bool" where
  "tool_permitted opts def policy session (ReportProgressTool sid) \<longleftrightarrow> op_isSubAgent opts \<and> op_sessionId opts = Some sid"
| "tool_permitted opts def policy session (CronTools scheduled) \<longleftrightarrow>
     up_cronEnabled policy \<and> scheduled = op_isScheduledTask opts"
| "tool_permitted opts def policy session (PythonRunTool _) \<longleftrightarrow> up_allowPython policy"
| "tool_permitted opts def policy session PythonRunNetTool \<longleftrightarrow> up_allowPythonNet policy"
| "tool_permitted opts def policy session ShellNetTool \<longleftrightarrow> up_allowShellNet policy"
| "tool_permitted opts def policy session (McpTools bindings) \<longleftrightarrow>
     up_allowMcp policy \<and> bindings \<noteq> [] \<and>
     (\<forall>allowed. af_mcp def = Some allowed \<and> allowed \<noteq> [] \<longrightarrow> bindings = allowed)"
| "tool_permitted opts def policy session g \<longleftrightarrow>
     (g \<in> {SpawnTool, SpawnBatchTool, TaskStatusTool, TaskWaitTool, TaskCancelTool, TaskResultTool} \<longrightarrow>
        \<not> op_isSubAgent opts \<and> session \<noteq> None)"

definition own_session :: "agent_options \<Rightarrow> session_row option \<Rightarrow> string \<Rightarrow> bool" where
  "own_session opts session sid \<longleftrightarrow> \<not> op_isSubAgent opts \<and> map_option se_id session = Some sid"

fun permitted ::
  "agent_options \<Rightarrow> agent_row \<Rightarrow> run_policy \<Rightarrow> session_row option \<Rightarrow> agent_run \<Rightarrow> runner_effect \<Rightarrow> bool" where
  "permitted opts def policy session row (HistorySaved _) \<longleftrightarrow> \<not> op_isSubAgent opts"
| "permitted opts def policy session row (ContainerStarted _) \<longleftrightarrow> op_isSubAgent opts \<or> session = None"
| "permitted opts def policy session row (ContainerStopped _) \<longleftrightarrow> op_isSubAgent opts \<or> session = None"
| "permitted opts def policy session row (PoolAcquired sid _) \<longleftrightarrow> own_session opts session sid"
| "permitted opts def policy session row (PoolEvicted sid) \<longleftrightarrow> own_session opts session sid"
| "permitted opts def policy session row (PoolReleased sid) \<longleftrightarrow> own_session opts session sid"
| "permitted opts def policy session row (DeliveryTriggered sid) \<longleftrightarrow> own_session opts session sid"
| "permitted opts def policy session row SlotTaken \<longleftrightarrow> op_isSubAgent opts"
| "permitted opts def policy session row SlotFreed \<longleftrightarrow> op_isSubAgent opts"
| "permitted opts def policy session row (LoopStarted q) \<longleftrightarrow>
     lq_model q = af_model def \<and> (\<forall>g \<in> set (lq_tools q). tool_permitted opts def policy session g) \<and>
     (lq_streaming q \<longrightarrow> \<not> op_isSubAgent opts \<and> af_streamingEnabled def)"
| "permitted opts def policy session row (Unregistered i) \<longleftrightarrow> i = ag_id row"
| "permitted opts def policy session row _ \<longleftrightarrow> True"

text \<open>The assertion: everything logged so far was permitted, and a slot is held by sub-agents only.\<close>

definition lawful ::
  "agent_options \<Rightarrow> agent_row \<Rightarrow> run_policy \<Rightarrow> session_row option \<Rightarrow> agent_run \<Rightarrow> run_frame \<Rightarrow> bool" where
  "lawful opts def policy session row s \<longleftrightarrow>
     (\<forall>e \<in> set (rx_log s). permitted opts def policy session row e) \<and> (rx_slotHeld s \<longrightarrow> op_isSubAgent opts)"

lemma lawful_world [simp]: "lawful opts def policy session row (s\<lparr>rx_world := w\<rparr>) = lawful opts def policy session row s"
  by (simp add: lawful_def)

lemma lawful_locals [simp]:
  "lawful opts def policy session row (s\<lparr>rx_containerId := c\<rparr>) = lawful opts def policy session row s"
  by (simp add: lawful_def)

lemma lawful_log [simp]:
  "lawful opts def policy session row (s\<lparr>rx_log := rx_log s @ [e]\<rparr>) =
   (lawful opts def policy session row s \<and> permitted opts def policy session row e)"
  by (auto simp: lawful_def)

lemma lawful_rules:
  "preserves (lawful opts def policy session row) (outside f)"
  "preserves (lawful opts def policy session row) (on_world h)"
  "preserves (lawful opts def policy session row) (of_world g)"
  "preserves (lawful opts def policy session row) (proc_return x)"
  "preserves (lawful opts def policy session row) (proc_throw e)"
  "preserves (lawful opts def policy session row) (proc_read r)"
  "preserves (lawful opts def policy session row) (set_container c)"
  "permitted opts def policy session row x' \<Longrightarrow> preserves (lawful opts def policy session row) (log_effect x')"
  "preserves (lawful opts def policy session row) k \<Longrightarrow> preserves (lawful opts def policy session row) (ignore_errors k)"
  by (auto intro: triple_outside_frame triple_on_world_frame triple_of_world triple_return triple_throw triple_read
      triple_log triple_ignore simp: set_container_def intro!: triple_modify)

lemmas lawful_intros = preserves_bind preserves_then preserves_finally preserves_if lawful_rules

lemma lawful_save_history:
  "\<not> op_isSubAgent opts \<Longrightarrow> preserves (lawful opts def policy session row) (save_history env st ms hidden)"
  unfolding save_history_def by (intro lawful_intros) simp

lemma lawful_prepare_messages:
  "preserves (lawful opts def policy session row) (prepare_messages env opts def session)"
  unfolding prepare_messages_def Let_def split_beta
  by (intro lawful_intros lawful_save_history)

lemma lawful_prepare_provider:
  "preserves (lawful opts def policy session row) (prepare_provider env def' ws)"
  unfolding prepare_provider_def by (cases ws) (simp_all, (intro lawful_intros)+)

lemma lawful_take_slot:
  "op_isSubAgent opts \<Longrightarrow> preserves (lawful opts def policy session row) take_slot"
  by (auto simp: triple_def take_slot_def lawful_def Let_def split: prod.splits bool.splits)

lemma uses_pool_session: "uses_pool opts session \<Longrightarrow> own_session opts session (se_id (the session))"
  by (auto simp: uses_pool_def own_session_def)

lemma lawful_get_container:
  "preserves (lawful opts def policy session row) (get_container env opts def session ws)"
  unfolding get_container_def Let_def
  by (intro lawful_intros lawful_take_slot) (auto simp: uses_pool_session uses_pool_def)

text \<open>The tools handed to the loop are the permitted ones.\<close>

lemma permitted_own_tools: "g \<in> set (own_tools opts def policy session) \<Longrightarrow> tool_permitted opts def policy session g"
  by (auto simp: own_tools_def falsy_def split: if_splits)

lemma permitted_sandbox: "g \<in> set (sandbox_tools policy session i ws) \<Longrightarrow> tool_permitted opts def policy session g"
  by (auto simp: sandbox_tools_def split: if_splits)

lemma lawful_mcp_tools:
  "triple (lawful opts def policy session row) (mcp_tools env opts def policy)
     (\<lambda>gs s. lawful opts def policy session row s \<and> (\<forall>g \<in> set gs. tool_permitted opts def policy session g))
     (\<lambda>_. lawful opts def policy session row)"
proof -
  let ?I = "lawful opts def policy session row"
  let ?choice = "\<lambda>sb s. ?I s \<and> (\<forall>allowed. af_mcp def = Some allowed \<and> allowed \<noteq> [] \<longrightarrow> snd sb = allowed)"
  have "preserves ?I (proc_modify (\<lambda>s. s\<lparr>rx_mcpOpen := True, rx_log := rx_log s @ [McpOpened]\<rparr>))"
    by (rule triple_modify) (auto simp: lawful_def)
  moreover have "triple ?I
      (if af_mcp def \<noteq> None \<and> the (af_mcp def) \<noteq> [] then
         proc_bind (outside (rv_findServers env (map mb_serverId (the (af_mcp def))) (op_userId opts)))
           (\<lambda>servers. proc_return (servers, the (af_mcp def)))
       else proc_bind (outside (rv_findEnabledServers env (op_userId opts)))
              (\<lambda>servers. proc_return (servers, bindings_from_tiers servers))) ?choice (\<lambda>_. ?I)"
    by (auto intro!: triple_bind [OF lawful_rules(1)] triple_return)
  moreover have "triple (?choice sb)
      (if snd sb = [] then proc_return []
       else proc_then (outside (rv_registerMcp env (fst sb) (snd sb))) (proc_return [McpTools (snd sb)]))
      (\<lambda>gs s. ?I s \<and> (\<forall>g \<in> set gs. tool_permitted opts def policy session g)) (\<lambda>_. ?I)"
    if "up_allowMcp policy" for sb
  proof (cases "snd sb = []")
    case True
    then show ?thesis by (auto intro!: triple_return)
  next
    case False
    have "triple (?choice sb) (outside (rv_registerMcp env (fst sb) (snd sb))) (\<lambda>_. ?choice sb) (\<lambda>_. ?I)"
      by (rule triple_weaken [OF triple_outside_frame [where P = "?choice sb"]]) auto
    with False that show ?thesis by (auto intro!: triple_then [where R = "?choice sb"] triple_return)
  qed
  ultimately show ?thesis
    unfolding mcp_tools_def split_beta
    by (cases "up_allowMcp policy") (auto intro!: triple_then [where R = ?I] triple_bind [where R = ?choice] triple_return)
qed

lemma lawful_collect_tools:
  "triple (lawful opts def policy session row) (collect_tools env opts def policy session i ws)
     (\<lambda>gs s. lawful opts def policy session row s \<and> (\<forall>g \<in> set gs. tool_permitted opts def policy session g))
     (\<lambda>_. lawful opts def policy session row)"
  unfolding collect_tools_def
  by (intro triple_then [OF lawful_rules(1)] triple_bind [OF lawful_mcp_tools] triple_return)
     (auto dest: permitted_own_tools permitted_sandbox)

lemma lawful_record_usage: "preserves (lawful opts def policy session row) (record_usage env u)"
  unfolding record_usage_def by (intro lawful_intros) simp

lemma lawful_settle: "preserves (lawful opts def policy session row) (settle_row env i st out err)"
  unfolding settle_row_def by (intro lawful_intros)

lemma lawful_complete: "preserves (lawful opts def policy session row) (complete_run env opts def session row' n lr)"
  unfolding complete_run_def save_reply_def consolidate_session_def Let_def
  by (intro lawful_intros lawful_save_history lawful_record_usage lawful_settle) simp_all

lemma lawful_run_body:
  "preserves (lawful opts def policy session row) (run_body env opts def policy tracker session row c)"
  unfolding run_body_def split_beta Let_def
  apply (rule preserves_bind [OF lawful_prepare_messages])
  apply (rule preserves_then [OF lawful_prepare_provider])
  apply (rule preserves_bind [OF lawful_get_container])
  apply (rule triple_bind [OF lawful_collect_tools])
  apply (rule triple_then [OF triple_log [where Q = "\<lambda>_. lawful opts def policy session row"]])
   apply (auto simp: streams_def) [1]
  by (intro lawful_intros lawful_record_usage lawful_complete)

lemma lawful_on_failure:
  "preserves (lawful opts def policy session row) (on_failure env opts session row' c e)"
  unfolding on_failure_def
  by (intro lawful_intros lawful_record_usage lawful_settle) (auto simp: own_session_def)

lemma lawful_free_slot: "preserves (lawful opts def policy session row) free_slot"
  unfolding free_slot_def
proof (rule triple_bind [where R = "\<lambda>held s. lawful opts def policy session row s \<and> (held \<longrightarrow> op_isSubAgent opts)"])
  show "triple (lawful opts def policy session row) (proc_read rx_slotHeld)
      (\<lambda>held s. lawful opts def policy session row s \<and> (held \<longrightarrow> op_isSubAgent opts)) (\<lambda>_. lawful opts def policy session row)"
    by (rule triple_read) (simp add: lawful_def)
  fix held
  show "triple (\<lambda>s. lawful opts def policy session row s \<and> (held \<longrightarrow> op_isSubAgent opts))
      (if held then proc_then (on_world (\<lambda>w. w\<lparr>wd_ledger := release_sub_agent (wd_ledger w)\<rparr>)) (log_effect SlotFreed)
       else proc_return ()) (\<lambda>_. lawful opts def policy session row) (\<lambda>_. lawful opts def policy session row)"
    by (auto simp: triple_def proc_defs on_world_def log_effect_def lawful_def)
qed

lemma lawful_cleanup: "preserves (lawful opts def policy session row) (cleanup env opts session row)"
  unfolding cleanup_def close_mcp_def give_container_def unregister_def wake_delivery_def Let_def
  by (intro lawful_intros lawful_free_slot) (auto simp: uses_pool_session own_session_def uses_pool_def)

lemma lawful_run_registered:
  "preserves (lawful opts def policy session row) (run_registered env opts def policy tracker session row c)"
  unfolding run_registered_def
  by (intro preserves_finally preserves_catch lawful_run_body lawful_on_failure lawful_cleanup)

text \<open>What admission has checked, each query in the world the one before left: the room in the plan in the
  world whose runs were counted, between the policy and the budget.\<close>

definition admitted ::
  "runner_env \<Rightarrow> agent_options \<Rightarrow> runner_world \<Rightarrow> agent_row \<Rightarrow> run_policy \<Rightarrow> runner_world \<Rightarrow> bool" where
  "admitted env opts w0 def policy w6 \<longleftrightarrow>
     (\<exists>w1 policyId w2 w3 w4 budget w5.
        rv_findDefinition env (op_agentDefinitionId opts) w0 = (Inr def, w1) \<and> af_isActive def \<and>
        rv_findPolicyId env (op_userId opts) w1 = (Inr policyId, w2) \<and>
        rv_findPolicy env policyId w2 = (Inr policy, w3) \<and>
        (if is_user_primary opts
         then rv_call env CountRuns w3 = (Inr (), w4) \<and>
           active_primaries (op_userId opts) w4 < up_maxConcurrentPrimaryRuns policy
         else w4 = w3) \<and>
        check_budget env (op_userId opts) policyId w4 = (Inr budget, w5) \<and> bc_allowed budget \<and>
        check_provider_allowed env policyId (af_provider def) w5 = (Inr True, w6))"

lemma proc_bind_InrE:
  assumes "proc_bind f g s = (Inr y, u)"
  obtains x t where "f s = (Inr x, t)" "g x t = (Inr y, u)"
  using assms by (auto simp: proc_bind_def split: prod.splits sum.splits)

lemma admit_admitted:
  assumes "admit env opts w = (Inr (def, policy), w')"
  shows "admitted env opts w def policy w'"
proof -
  from assms obtain d w1 where d: "rv_findDefinition env (op_agentDefinitionId opts) w = (Inr d, w1)"
    and a: "(if \<not> af_isActive d then proc_throw (run_error (''Agent definition '' @ quoted (op_agentDefinitionId opts) @ '' is inactive''))
       else
         proc_bind (rv_findPolicyId env (op_userId opts)) (\<lambda>policyId.
         proc_bind (rv_findPolicy env policyId) (\<lambda>policy.
         proc_then (admit_primary env opts policy)
        (proc_bind (check_budget env (op_userId opts) policyId) (\<lambda>budget.
           if \<not> bc_allowed budget then
             proc_throw (run_error (''Token budget exceeded for user '' @ quoted (op_userId opts) @ '': $'' @
               to_fixed4 (bc_currentUsageUsd budget) @ '' used of $'' @
               to_fixed4 (case bc_limitUsd budget of None \<Rightarrow> 0 | Some l \<Rightarrow> l) @ '' budget''))
           else
             proc_bind (check_provider_allowed env policyId (af_provider d)) (\<lambda>ok.
               if \<not> ok then
                 proc_throw (run_error (''Provider '' @ quoted (af_provider d) @ '' is not allowed by policy '' @
                   quoted policyId))
               else proc_return (d, policy))))))) w1 = (Inr (def, policy), w')"
    unfolding admit_def by (rule proc_bind_InrE)
  from a have act: "af_isActive d" by (cases "af_isActive d") (simp_all add: proc_throw_def)
  from a act obtain pid w2 p w3 w4 b w5 w6 where
    "rv_findPolicyId env (op_userId opts) w1 = (Inr pid, w2)" "rv_findPolicy env pid w2 = (Inr p, w3)"
    "admit_primary env opts p w3 = (Inr (), w4)"
    "check_budget env (op_userId opts) pid w4 = (Inr b, w5)" "bc_allowed b"
    "check_provider_allowed env pid (af_provider d) w5 = (Inr True, w6)" and same: "d = def" "p = policy" "w6 = w'"
    unfolding proc_then_def
    by (auto elim!: proc_bind_InrE simp: proc_throw_def proc_return_def split: if_splits)
  moreover from this(3) have "if is_user_primary opts
      then rv_call env CountRuns w3 = (Inr (), w4) \<and> active_primaries (op_userId opts) w4 < up_maxConcurrentPrimaryRuns p
      else w4 = w3"
    unfolding admit_primary_def proc_then_def
    by (auto elim!: proc_bind_InrE simp: proc_throw_def proc_read_def proc_return_def not_le split: if_splits)
  ultimately show ?thesis using d act unfolding admitted_def same by (intro exI conjI)
qed

text \<open>Every run is a refusal before anything is logged, or the registered part of an admitted run.\<close>

lemma agent_run_cases:
  assumes "agent_run_proc env opts s = (r, t)"
  obtains (refused) e w where "r = Inl e" "t = s\<lparr>rx_world := w\<rparr>"
  | (registered) tracker def policy w0 w1 session w2 row w3 where
      "resolve_tracker opts (rx_world s) = (tracker, w0)"
      "admit env opts w0 = (Inr (def, policy), w1)" "open_session env opts w1 = (Inr session, w2)"
      "open_row env opts session w2 = (Inr row, w3)"
      "run_registered env opts def policy tracker session row (wd_nextController w3)
         (no_locals (s\<lparr>rx_world := register_controller def session row w3\<rparr>)) = (r, t)"
proof -
  obtain tracker w0 where tr: "resolve_tracker opts (rx_world s) = (tracker, w0)" by (cases "resolve_tracker opts (rx_world s)")
  show thesis
  proof (cases "admit env opts w0")
    case (Pair a w1)
    show thesis
    proof (cases a)
      case (Inl e)
      with assms tr Pair show thesis
        by (intro refused [of e w1]) (simp_all add: agent_run_proc_def proc_bind_def outside_def)
    next
      case (Inr dp)
      obtain def policy where dp: "dp = (def, policy)" by (cases dp)
      obtain b w2 where os: "open_session env opts w1 = (b, w2)" by (cases "open_session env opts w1")
      show thesis
      proof (cases b)
        case (Inl e)
        with assms tr Pair Inr dp os show thesis
          by (intro refused [of e w2]) (simp_all add: agent_run_proc_def proc_bind_def outside_def)
      next
        case session: (Inr session)
        obtain d w3 where row: "open_row env opts session w2 = (d, w3)" by (cases "open_row env opts session w2")
        show thesis
        proof (cases d)
          case (Inl e)
          with assms tr Pair Inr dp os session row show thesis
            by (intro refused [of e w3]) (simp_all add: agent_run_proc_def proc_bind_def outside_def)
        next
          case r: (Inr row')
          with assms tr Pair Inr dp os session row show thesis
            by (intro registered [of tracker w0 def policy w1 session w2 row' w3])
               (simp_all add: agent_run_proc_def proc_bind_def outside_def proc_then_def of_world_def proc_read_def
                 on_world_def proc_modify_def)
        qed
      qed
    qed
  qed
qed

text \<open>C35: A run does nothing it has no right to. Either it was refused before it touched a container, a
  transcript or a queue, or it was admitted (active definition, policy, for a user's own run fewer active
  runs than the plan allows when they were counted, budget, provider), then got its session in the
  world that admission left, and everything it did was permitted: a sub-agent saves no history,
  wakes no delivery, uses no pool and gets no spawning tools; a primary run takes no slot and touches
  the pool under its own session only; the loop gets Python, network, cron and MCP tools only if the
  policy allows them, and an explicit MCP allowlist is handed on unchanged.\<close>

theorem run_stays_within_its_rights:
  assumes "agent_run_proc env opts s = (r, t)" "rx_log s = []"
  shows "rx_log t = [] \<or>
    (\<exists>def policy session row w0 w1 w2.
       w0 = snd (resolve_tracker opts (rx_world s)) \<and> admitted env opts w0 def policy w1 \<and>
       open_session env opts w1 = (Inr session, w2) \<and>
       (\<forall>e \<in> set (rx_log t). permitted opts def policy session row e))"
  using assms(1)
proof (cases rule: agent_run_cases)
  case refused
  with assms(2) show ?thesis by simp
next
  case (registered tracker def policy w0 w1 session w2 row w3)
  let ?s = "no_locals (s\<lparr>rx_world := register_controller def session row w3\<rparr>)"
  have "lawful opts def policy session row ?s" using assms(2) by (simp add: lawful_def no_locals_def)
  from triple_snd [OF lawful_run_registered this] registered(5) have "lawful opts def policy session row t"
    by (metis snd_conv)
  moreover have "w0 = snd (resolve_tracker opts (rx_world s))" using registered(1) by simp
  ultimately show ?thesis using admit_admitted [OF registered(2)] registered(3) unfolding lawful_def by blast
qed

lemma run_stays_within_its_rights_witness:
  "let env = quiet_env quiet_talk (quiet_answer quiet_talk); opts = quiet_options True;
       es = rx_log (snd (agent_run_proc env opts quiet_frame))
   in es = [] \<or>
    (\<exists>def policy session row w0 w1 w2.
       w0 = snd (resolve_tracker opts (rx_world quiet_frame)) \<and> admitted env opts w0 def policy w1 \<and>
       open_session env opts w1 = (Inr session, w2) \<and>
       (\<forall>e \<in> set es. permitted opts def policy session row e))"
  unfolding Let_def
  by (rule run_stays_within_its_rights [OF prod.collapse [symmetric]]) (simp add: quiet_rows)

section \<open>What a run takes it gives back\<close>

definition occ :: "runner_effect \<Rightarrow> run_frame \<Rightarrow> nat" where
  "occ e s = count_list (rx_log s) e"

lemma occ_frame [simp]:
  "occ e (s\<lparr>rx_world := w\<rparr>) = occ e s" "occ e (s\<lparr>rx_containerId := c\<rparr>) = occ e s"
  "occ e (s\<lparr>rx_slotHeld := b\<rparr>) = occ e s" "occ e (s\<lparr>rx_mcpOpen := b\<rparr>) = occ e s"
  "occ e (s\<lparr>rx_log := rx_log s @ [e']\<rparr>) = occ e s + (if e' = e then 1 else 0)"
  by (simp_all add: occ_def)

text \<open>The log is balanced but for the container \<open>c\<close>, a slot if \<open>h\<close>, MCP connections if \<open>m\<close>; the run was
  unregistered \<open>u\<close> times and its pool entry released \<open>p\<close> times.\<close>

definition owes ::
  "agent_options \<Rightarrow> session_row option \<Rightarrow> agent_run \<Rightarrow> string option \<Rightarrow> bool \<Rightarrow> bool \<Rightarrow> nat \<Rightarrow> nat \<Rightarrow> run_frame \<Rightarrow> bool" where
  "owes opts session row c h m u p s \<longleftrightarrow>
     (\<forall>cid. occ (ContainerStarted cid) s =
        occ (ContainerStopped cid) s + (if \<not> uses_pool opts session \<and> c = Some cid then 1 else 0)) \<and>
     occ SlotTaken s = occ SlotFreed s + (if h then 1 else 0) \<and>
     occ McpOpened s = occ McpClosed s + (if m then 1 else 0) \<and>
     occ (Unregistered (ag_id row)) s = u \<and>
     occ (PoolReleased (se_id (the session))) s = p"

text \<open>The locals say what is owed.\<close>

definition books :: "agent_options \<Rightarrow> session_row option \<Rightarrow> agent_run \<Rightarrow> run_frame \<Rightarrow> bool" where
  "books opts session row s \<longleftrightarrow>
     owes opts session row (rx_containerId s) (rx_slotHeld s) (rx_mcpOpen s) 0 0 s"

fun neutral :: "runner_effect \<Rightarrow> bool" where
  "neutral (HistorySaved _) = True"
| "neutral (LoopStarted _) = True"
| "neutral (UsageRecorded _) = True"
| "neutral (PoolAcquired _ _) = True"
| "neutral (PoolEvicted _) = True"
| "neutral (DeliveryTriggered _) = True"
| "neutral _ = False"

lemma owes_frame [simp]:
  "owes opts session row c h m u p (s\<lparr>rx_world := w\<rparr>) = owes opts session row c h m u p s"
  "owes opts session row c h m u p (s\<lparr>rx_containerId := c'\<rparr>) = owes opts session row c h m u p s"
  "neutral e \<Longrightarrow> owes opts session row c h m u p (s\<lparr>rx_log := rx_log s @ [e]\<rparr>) = owes opts session row c h m u p s"
  by (cases e; simp add: owes_def)+

text \<open>The books with the locals fixed, as they stand between the steps that change them.\<close>

definition books_at ::
  "agent_options \<Rightarrow> session_row option \<Rightarrow> agent_run \<Rightarrow> (string option \<Rightarrow> bool \<Rightarrow> bool \<Rightarrow> bool) \<Rightarrow> run_frame \<Rightarrow> bool" where
  "books_at opts session row L s \<longleftrightarrow> books opts session row s \<and> L (rx_containerId s) (rx_slotHeld s) (rx_mcpOpen s)"

lemma books_at_frame [simp]:
  "books_at opts session row L (s\<lparr>rx_world := w\<rparr>) = books_at opts session row L s"
  "neutral e \<Longrightarrow> books_at opts session row L (s\<lparr>rx_log := rx_log s @ [e]\<rparr>) = books_at opts session row L s"
  by (simp_all add: books_at_def books_def)

lemma books_rules:
  "preserves (books_at opts session row L) (outside f)"
  "preserves (books_at opts session row L) (on_world h)"
  "preserves (books_at opts session row L) (of_world g)"
  "preserves (books_at opts session row L) (proc_return x)"
  "preserves (books_at opts session row L) (proc_throw e)"
  "preserves (books_at opts session row L) (proc_read r)"
  "neutral x' \<Longrightarrow> preserves (books_at opts session row L) (log_effect x')"
  "preserves (books_at opts session row L) k \<Longrightarrow> preserves (books_at opts session row L) (ignore_errors k)"
  by (auto intro: triple_outside_frame triple_on_world_frame triple_of_world triple_return triple_throw triple_read
      triple_log triple_ignore)

lemmas books_intros = preserves_bind preserves_then preserves_finally preserves_if books_rules

lemma books_steps:
  "preserves (books_at opts session row L) (prepare_messages env opts def session)"
  "preserves (books_at opts session row L) (prepare_provider env def ws)"
  "preserves (books_at opts session row L) (record_usage env u)"
  "preserves (books_at opts session row L) (settle_row env i st out err)"
  "preserves (books_at opts session row L) (complete_run env opts def session row' n lr)"
  unfolding prepare_messages_def prepare_provider_def record_usage_def settle_row_def complete_run_def save_reply_def
    consolidate_session_def save_history_def Let_def split_beta
  by (cases ws; (intro books_intros | simp split del: if_split))+

lemma books_get_container:
  "triple (books_at opts session row (\<lambda>c h m. c = None \<and> \<not> h \<and> \<not> m)) (get_container env opts def session ws)
     (\<lambda>_. books_at opts session row (\<lambda>c h m. \<not> m)) (\<lambda>_. books_at opts session row (\<lambda>c h m. True))"
proof -
  let ?B = "books_at opts session row"
  have slot: "triple (?B (\<lambda>c h m. c = None \<and> \<not> h \<and> \<not> m)) (if op_isSubAgent opts then take_slot else proc_return ())
      (\<lambda>_. ?B (\<lambda>c h m. c = None \<and> \<not> m)) (\<lambda>_. ?B (\<lambda>c h m. True))"
    by (auto simp: triple_def take_slot_def proc_return_def books_at_def books_def owes_def occ_def Let_def
        split: prod.splits bool.splits)
  have weak: "triple (?B (\<lambda>c h m. c = None \<and> \<not> m)) (outside f) (\<lambda>_. ?B (\<lambda>c h m. c = None \<and> \<not> m)) (\<lambda>_. ?B (\<lambda>c h m. True))"
    for f :: "(runner_world, string) proc"
    by (rule triple_weaken [OF books_rules(1)]) (auto simp: books_at_def)
  have put: "triple (?B (\<lambda>c h m. c = None \<and> \<not> m)) (proc_then (set_container cid) (proc_then (log_effect x) (proc_return cid)))
      (\<lambda>_. ?B (\<lambda>c h m. \<not> m)) (\<lambda>_. ?B (\<lambda>c h m. True))"
    if "x = (if uses_pool opts session then PoolAcquired sid cid else ContainerStarted cid)" for cid sid x
    using that
    by (auto simp: triple_def proc_defs set_container_def log_effect_def books_at_def books_def owes_def occ_def)
  show ?thesis
  proof (cases "uses_pool opts session")
    case True
    then have "triple (?B (\<lambda>c h m. c = None \<and> \<not> m)) (get_container env opts def session ws)
        (\<lambda>_. ?B (\<lambda>c h m. \<not> m)) (\<lambda>_. ?B (\<lambda>c h m. True))"
      unfolding get_container_def Let_def
      by (simp only: not_True_eq_False if_False) (rule triple_bind [OF weak put], simp)
    then show ?thesis by (rule triple_weaken) (auto simp: books_at_def)
  next
    case False
    then show ?thesis
      unfolding get_container_def Let_def
      by (simp only: not_False_eq_True if_True) (rule triple_then [OF slot triple_bind [OF weak put]], simp)
  qed
qed

lemma books_mcp_tools:
  "triple (books_at opts session row (\<lambda>c h m. \<not> m)) (mcp_tools env opts def policy)
     (\<lambda>_. books_at opts session row (\<lambda>c h m. True)) (\<lambda>_. books_at opts session row (\<lambda>c h m. True))"
  unfolding mcp_tools_def split_beta
proof (rule triple_then [where R = "books_at opts session row (\<lambda>c h m. True)"])
  show "triple (books_at opts session row (\<lambda>c h m. \<not> m))
      (proc_modify (\<lambda>s. s\<lparr>rx_mcpOpen := True, rx_log := rx_log s @ [McpOpened]\<rparr>))
      (\<lambda>_. books_at opts session row (\<lambda>c h m. True)) (\<lambda>_. books_at opts session row (\<lambda>c h m. True))"
    by (rule triple_modify) (auto simp: books_at_def books_def owes_def occ_def)
qed (intro books_intros)

lemma books_collect_tools:
  "triple (books_at opts session row (\<lambda>c h m. \<not> m)) (collect_tools env opts def policy session i ws)
     (\<lambda>_. books_at opts session row (\<lambda>c h m. True)) (\<lambda>_. books_at opts session row (\<lambda>c h m. True))"
proof -
  let ?B = "books_at opts session row"
  have out: "triple (?B (\<lambda>c h m. \<not> m)) (outside f) (\<lambda>_. ?B (\<lambda>c h m. \<not> m)) (\<lambda>_. ?B (\<lambda>c h m. True))"
    for f :: "(runner_world, unit) proc"
    by (rule triple_weaken [OF books_rules(1)]) (auto simp: books_at_def)
  show ?thesis
    unfolding collect_tools_def
    by (rule triple_then [OF out] triple_bind [OF books_mcp_tools] books_rules)+
qed

lemma books_run_body:
  "triple (books_at opts session row (\<lambda>c h m. c = None \<and> \<not> h \<and> \<not> m)) (run_body env opts def policy tracker session row' c)
     (\<lambda>_. books_at opts session row (\<lambda>c h m. True)) (\<lambda>_. books_at opts session row (\<lambda>c h m. True))"
proof -
  let ?B = "books_at opts session row"
  let ?fresh = "?B (\<lambda>c h m. c = None \<and> \<not> h \<and> \<not> m)"
  have prep: "triple ?fresh f (\<lambda>_. ?fresh) (\<lambda>_. ?B (\<lambda>c h m. True))" if "preserves ?fresh f" for f :: "(run_frame, 'b) proc"
    by (rule triple_weaken [OF that]) (auto simp: books_at_def)
  show ?thesis
    unfolding run_body_def split_beta Let_def
    by (rule triple_bind [OF prep [OF books_steps(1)]] triple_then [OF prep [OF books_steps(2)]]
        triple_bind [OF books_get_container] triple_bind [OF books_collect_tools])+
       (intro books_intros books_steps; simp)
qed

lemma books_on_failure: "preserves (books_at opts session row L) (on_failure env opts session row' c e)"
  unfolding on_failure_def by (intro books_intros books_steps) simp

text \<open>The cleanup pays what is owed; it can only fail at the container.\<close>

definition settled_log :: "agent_options \<Rightarrow> session_row option \<Rightarrow> agent_run \<Rightarrow> run_frame \<Rightarrow> bool" where
  "settled_log opts session row = owes opts session row None False False 1 (if uses_pool opts session then 1 else 0)"

lemma cleanup_pays:
  assumes "\<And>cid w. fst (rv_stop env cid w) = Inr ()"
  shows "triple (books_at opts session row (\<lambda>c h m. True)) (cleanup env opts session row)
    (\<lambda>_. settled_log opts session row) (\<lambda>_ _. False)"
proof -
  let ?p = "if uses_pool opts session then 1 else 0 :: nat"
  let ?O = "owes opts session row"
  have mcp: "triple (books_at opts session row (\<lambda>c h m. True)) (close_mcp env)
      (\<lambda>_ s. ?O (rx_containerId s) (rx_slotHeld s) False 0 0 s) (\<lambda>_ _. False)"
    by (auto simp: triple_def close_mcp_def proc_defs log_effect_def ignore_errors_def outside_def books_at_def
        books_def owes_def occ_def split: prod.splits sum.splits)
  have container: "triple (\<lambda>s. ?O (rx_containerId s) (rx_slotHeld s) False 0 0 s) (give_container env opts session)
      (\<lambda>_ s. ?O None (rx_slotHeld s) False 0 ?p s) (\<lambda>_ _. False)"
  proof (rule tripleI)
    fix s
    assume s: "?O (rx_containerId s) (rx_slotHeld s) False 0 0 s"
    show "outcome_in (\<lambda>_ s. ?O None (rx_slotHeld s) False 0 ?p s) (\<lambda>_ _. False) (give_container env opts session s)"
    proof (cases "uses_pool opts session")
      case True
      with s show ?thesis
        by (auto simp: give_container_def proc_defs log_effect_def on_world_def owes_def occ_def)
    next
      case False
      show ?thesis
      proof (cases "rx_containerId s")
        case None
        with s False show ?thesis by (simp add: give_container_def proc_defs owes_def)
      next
        case (Some cid)
        obtain w where "rv_stop env cid (rx_world s) = (Inr (), w)"
          using assms [of cid "rx_world s"] by (metis prod.collapse)
        with s False Some show ?thesis
          by (auto simp: give_container_def proc_defs log_effect_def outside_def owes_def occ_def)
      qed
    qed
  qed
  have slot: "triple (\<lambda>s. ?O None (rx_slotHeld s) False 0 ?p s) free_slot (\<lambda>_. ?O None False False 0 ?p) (\<lambda>_ _. False)"
    by (auto simp: triple_def free_slot_def proc_defs log_effect_def on_world_def owes_def occ_def)
  have browser: "triple (?O None False False 0 ?p) (ignore_errors (outside f)) (\<lambda>_. ?O None False False 0 ?p) (\<lambda>_ _. False)"
    for f by (rule triple_ignore [OF triple_outside_frame]) simp
  have unreg: "triple (?O None False False 0 ?p) (unregister (ag_id row)) (\<lambda>_. ?O None False False 1 ?p) (\<lambda>_ _. False)"
    by (auto simp: triple_def unregister_def proc_defs log_effect_def on_world_def owes_def occ_def)
  have wake: "triple (?O None False False 1 ?p) (wake_delivery env opts session) (\<lambda>_. ?O None False False 1 ?p) (\<lambda>_ _. False)"
    by (auto simp: triple_def wake_delivery_def proc_defs log_effect_def ignore_errors_def outside_def Let_def
        split: prod.splits sum.splits)
  show ?thesis
    unfolding cleanup_def settled_log_def
    by (rule triple_then [OF mcp] triple_then [OF container] triple_then [OF slot] triple_then [OF browser]
        triple_then [OF unreg] wake)+
qed

text \<open>C34: Provided that stopping a container never throws, a run gives back what it took, whatever else
  fails in it and wherever: each container it started is stopped as often as it was started, each capacity
  slot freed, the MCP connections closed; the run is unregistered exactly once and releases its pool
  entry exactly once if it runs in the pool. Where a stop throws, the rest of the cleanup is skipped
  (\<open>AgentRunnerReply.failed_stop_leaks_slot\<close>).\<close>

theorem run_gives_back_what_it_took:
  assumes "\<forall>cid w. fst (rv_stop env cid w) = Inr ()" "rx_log s = []"
    and "run_registered env opts def policy tracker session row c (no_locals s) = (r, t)"
  shows "(\<forall>cid. count_list (rx_log t) (ContainerStarted cid) = count_list (rx_log t) (ContainerStopped cid)) \<and>
    count_list (rx_log t) SlotTaken = count_list (rx_log t) SlotFreed \<and>
    count_list (rx_log t) McpOpened = count_list (rx_log t) McpClosed \<and>
    count_list (rx_log t) (Unregistered (ag_id row)) = 1 \<and>
    (uses_pool opts session \<longrightarrow> count_list (rx_log t) (PoolReleased (se_id (the session))) = 1)"
proof -
  let ?B = "books_at opts session row"
  have "?B (\<lambda>c h m. c = None \<and> \<not> h \<and> \<not> m) (no_locals s)"
    using assms(2) by (simp add: books_at_def books_def owes_def occ_def no_locals_def)
  moreover have "triple (?B (\<lambda>c h m. c = None \<and> \<not> h \<and> \<not> m)) (run_registered env opts def policy tracker session row c)
      (\<lambda>_. settled_log opts session row) (\<lambda>_. settled_log opts session row)"
    unfolding run_registered_def
  proof (rule triple_finally)
    show "triple (?B (\<lambda>c h m. c = None \<and> \<not> h \<and> \<not> m))
        (proc_catch (run_body env opts def policy tracker session row c) (on_failure env opts session row c))
        (\<lambda>_. ?B (\<lambda>c h m. True)) (\<lambda>_. ?B (\<lambda>c h m. True))"
      by (rule triple_catch [OF books_run_body books_on_failure])
  qed (rule triple_weaken [OF cleanup_pays]; use assms(1) in simp)+
  ultimately have "settled_log opts session row t"
    using assms(3) triple_snd by (metis snd_conv)
  then show ?thesis by (simp add: settled_log_def owes_def occ_def)
qed

lemma run_gives_back_what_it_took_witness:
  "(let es = rx_log (snd (quiet_run True (quiet_env quiet_talk (quiet_answer quiet_talk)))) in
      (\<forall>cid. count_list es (ContainerStarted cid) = count_list es (ContainerStopped cid)) \<and>
      count_list es SlotTaken = count_list es SlotFreed \<and> SlotFreed \<in> set es)"
  using run_gives_back_what_it_took [where env = "quiet_env quiet_talk (quiet_answer quiet_talk)" and s = quiet_frame
      and opts = "quiet_options True" and def = quiet_agent and policy = quiet_policy and tracker = None
      and session = None and row = "sample_run ''a'' None AgRunning 0" and c = 0
      and r = "fst (quiet_run True (quiet_env quiet_talk (quiet_answer quiet_talk)))"
      and t = "snd (quiet_run True (quiet_env quiet_talk (quiet_answer quiet_talk)))"]
  by (simp add: quiet_env_calls proc_return_def quiet_rows quiet_no_locals quiet_run_def [symmetric] quiet_sub_agent_log Let_def)

end
