(* ===== verification/AgentRunnerRow.thy ===== *)
theory AgentRunnerRow
  imports QuietRun
begin

section \<open>The row of the run\<close>

text \<open>All calls of the environment change the world only in the way \<open>R\<close> allows.\<close>

definition env_obeys :: "(runner_world \<Rightarrow> runner_world \<Rightarrow> bool) \<Rightarrow> runner_env \<Rightarrow> bool" where
  "env_obeys R env \<longleftrightarrow>
     (\<forall>x. obeys R (rv_call env x)) \<and> (\<forall>x. obeys R (rv_findUserAgent env x)) \<and> obeys R (rv_findActiveWorkers env) \<and>
     (\<forall>x. obeys R (rv_buildMessages env x)) \<and> (\<forall>x. obeys R (rv_resolveProvider env x)) \<and>
     (\<forall>x. obeys R (rv_prepareWorkspace env x)) \<and> (\<forall>x y. obeys R (rv_start env x y)) \<and>
     (\<forall>x. obeys R (rv_stop env x)) \<and> (\<forall>x y z. obeys R (rv_acquire env x y z)) \<and> (\<forall>x. obeys R (rv_evict env x)) \<and>
     (\<forall>x y. obeys R (rv_findServers env x y)) \<and> (\<forall>x. obeys R (rv_findEnabledServers env x)) \<and>
     (\<forall>x y. obeys R (rv_registerMcp env x y)) \<and> obeys R (rv_closeMcp env) \<and> (\<forall>x. obeys R (rv_loop env x)) \<and>
     (\<forall>x. obeys R (rv_consolidate env x)) \<and> (\<forall>x. obeys R (rv_warning env x)) \<and>
     (\<forall>x. obeys R (rv_recordUsage env x)) \<and> (\<forall>x. obeys R (rv_queueLength env x)) \<and> (\<forall>x. obeys R (rv_publish env x))"

lemma obeys_outside: "obeys R f \<Longrightarrow> obeys (\<lambda>s t. R (rx_world s) (rx_world t)) (outside f)"
  by (auto simp: obeys_def outside_def split: prod.splits) (metis snd_conv)

text \<open>The contract of a discipline on the rows of runs that the run's own writes respect: it ignores the
  other tables and allows the guarded write that settles a row.\<close>

locale row_discipline = evolution R for R :: "runner_world \<Rightarrow> runner_world \<Rightarrow> bool" +
  assumes other_tables: "wd_runs w' = wd_runs w \<Longrightarrow> R w w'"
    and settling: "is_terminal st \<Longrightarrow> R w (w\<lparr>wd_runs := finish_run i st out err (wd_runs w)\<rparr>)"

sublocale row_discipline \<subseteq> frames: evolution "\<lambda>s t. R (rx_world s) (rx_world t)"
  by unfold_locales (auto intro: stay chain)

context row_discipline
begin

abbreviation fine :: "(run_frame, 'a) proc \<Rightarrow> bool" where
  "fine f \<equiv> obeys (\<lambda>s t. R (rx_world s) (rx_world t)) f"

lemma fine_own:
  "(\<And>w. wd_runs (h w) = wd_runs w) \<Longrightarrow> fine (on_world h)"
  "fine (of_world g)" "fine (proc_read r)" "fine (log_effect e)" "fine (set_container c)" "fine take_slot"
  "fine free_slot" "fine (unregister i)" "fine (proc_modify (\<lambda>s. s\<lparr>rx_mcpOpen := True, rx_log := rx_log s @ [x]\<rparr>))"
  by (auto simp: obeys_def on_world_def of_world_def log_effect_def set_container_def take_slot_def free_slot_def
      unregister_def proc_defs Let_def intro: stay other_tables split: prod.splits bool.splits)

lemma fine_save: "fine (outside (save_to env st ms hidden))"
  by (rule obeys_outside, cases st) (auto simp: obeys_def intro!: other_tables split: prod.splits)

lemma fine_ignore: "fine f \<Longrightarrow> fine (ignore_errors f)"
  unfolding ignore_errors_def by (intro frames.obeys_catch frames.obeys_return)

lemmas fine_rules = frames.obeys_bind frames.obeys_then frames.obeys_finally frames.obeys_if frames.obeys_return
  frames.obeys_throw fine_own fine_save fine_ignore obeys_outside

lemma fine_settle:
  assumes "env_obeys R env" "is_terminal st"
  shows "fine (settle_row env i st out err)"
proof -
  have "fine (on_world (\<lambda>w. w\<lparr>wd_runs := finish_run i st out err (wd_runs w)\<rparr>))"
    using assms(2) by (auto simp: obeys_def on_world_def proc_modify_def intro: settling)
  with assms(1) show ?thesis
    unfolding settle_row_def by (intro frames.obeys_then obeys_outside) (simp_all add: env_obeys_def)
qed

lemma terminal_status: "is_terminal (run_status lr)" "is_terminal AgFailed"
  by (simp_all add: is_terminal_def run_status_def)

lemma fine_steps:
  assumes "env_obeys R env"
  shows "fine (prepare_messages env opts def session)" "fine (prepare_provider env def ws)"
    "fine (get_container env opts def session ws)" "fine (collect_tools env opts def policy session i ws)"
    "fine (save_reply env opts def session n lr)" "fine (consolidate_session env opts session)" "fine (record_usage env u)"
  using assms
  unfolding prepare_messages_def prepare_provider_def get_container_def collect_tools_def mcp_tools_def save_reply_def
    consolidate_session_def record_usage_def save_history_def Let_def split_beta
  by (cases ws; intro fine_rules; simp add: env_obeys_def; fail | cases ws; simp; intro fine_rules; simp add: env_obeys_def)+

lemma fine_cleanup: "env_obeys R env \<Longrightarrow> fine (cleanup env opts session row)"
  unfolding cleanup_def close_mcp_def give_container_def wake_delivery_def Let_def
  by (intro fine_rules) (simp_all add: env_obeys_def)

lemma fine_complete: "env_obeys R env \<Longrightarrow> fine (complete_run env opts def session row n lr)"
  unfolding complete_run_def Let_def by (intro fine_rules fine_steps fine_settle terminal_status)

lemma fine_run_body: "env_obeys R env \<Longrightarrow> fine (run_body env opts def policy tracker session row c)"
  unfolding run_body_def split_beta Let_def
  by (intro fine_rules fine_steps fine_complete) (simp_all add: env_obeys_def)

lemma fine_on_failure: "env_obeys R env \<Longrightarrow> fine (on_failure env opts session row c e)"
  unfolding on_failure_def by (intro fine_rules fine_steps fine_settle terminal_status) (simp_all add: env_obeys_def)

lemma fine_run: "env_obeys R env \<Longrightarrow> fine (run_registered env opts def policy tracker session row c)"
  unfolding run_registered_def
  by (intro frames.obeys_finally frames.obeys_catch fine_run_body fine_on_failure fine_cleanup)

end

text \<open>Two disciplines: settled rows stay as they are, and the row of a run that runs or is settled
  remains so.\<close>

definition rows_settled :: "runner_world \<Rightarrow> runner_world \<Rightarrow> bool" where
  "rows_settled w w' \<longleftrightarrow> settled_stays (wd_runs w) (wd_runs w')"

interpretation settled: row_discipline rows_settled
  by unfold_locales (auto simp: rows_settled_def intro: settled_stays_trans settled_stays_finish)

definition row_statuses :: "string \<Rightarrow> runner_world \<Rightarrow> agent_status set" where
  "row_statuses i w = ag_status ` {r \<in> set (rd_rows (wd_runs w)). ag_id r = i}"

definition row_started :: "string \<Rightarrow> runner_world \<Rightarrow> bool" where
  "row_started i w \<longleftrightarrow> row_statuses i w \<noteq> {} \<and> (\<forall>st \<in> row_statuses i w. st = AgRunning \<or> is_terminal st)"

definition row_done :: "string \<Rightarrow> runner_world \<Rightarrow> bool" where
  "row_done i w \<longleftrightarrow> row_statuses i w \<noteq> {} \<and> (\<forall>st \<in> row_statuses i w. is_terminal st)"

definition row_goes_on :: "string \<Rightarrow> runner_world \<Rightarrow> runner_world \<Rightarrow> bool" where
  "row_goes_on i w w' \<longleftrightarrow> (row_started i w \<longrightarrow> row_started i w') \<and> (row_done i w \<longrightarrow> row_done i w')"

lemma image_ids: "(\<And>r. ag_id (f r) = ag_id r) \<Longrightarrow> {r \<in> f ` S. ag_id r = i} = f ` {r \<in> S. ag_id r = i}"
  by auto

lemma statuses_finish:
  "row_statuses i (w\<lparr>wd_runs := finish_run j st out err (wd_runs w)\<rparr>) =
   (if j = i then (\<lambda>x. if x = AgRunning then st else x) ` row_statuses i w else row_statuses i w)"
proof -
  let ?u = "no_update\<lparr>ru_status := Some st, ru_output := out, ru_error := err, ru_completedAt := Some (rd_now (wd_runs w))\<rparr>"
  let ?f = "\<lambda>r. if ag_id r = j \<and> ag_status r = AgRunning then apply_update (rd_now (wd_runs w)) ?u r else r"
  let ?A = "{r \<in> set (rd_rows (wd_runs w)). ag_id r = i}"
  have image: "ag_status ` {r \<in> ?f ` S. ag_id r = i} = (\<lambda>r. ag_status (?f r)) ` {r \<in> S. ag_id r = i}" for S
    by (subst image_ids, simp) (simp only: image_image)
  have "row_statuses i (w\<lparr>wd_runs := finish_run j st out err (wd_runs w)\<rparr>) = (\<lambda>r. ag_status (?f r)) ` ?A"
    unfolding image [symmetric] by (simp add: row_statuses_def finish_run_def update_many_def)
  also have "\<dots> = (\<lambda>r. if j = i \<and> ag_status r = AgRunning then st else ag_status r) ` ?A"
    by (rule image_cong) auto
  also have "\<dots> = (if j = i then (\<lambda>x. if x = AgRunning then st else x) ` row_statuses i w else row_statuses i w)"
    by (cases "j = i") (simp_all only: row_statuses_def image_image simp_thms if_True if_False)
  finally show ?thesis .
qed

lemma statuses_other_tables: "wd_runs w' = wd_runs w \<Longrightarrow> row_statuses i w' = row_statuses i w"
  by (simp add: row_statuses_def)

lemma started_finish:
  "is_terminal st \<Longrightarrow> row_started i w \<Longrightarrow> row_started i (w\<lparr>wd_runs := finish_run j st out err (wd_runs w)\<rparr>)"
  "is_terminal st \<Longrightarrow> row_done i w \<Longrightarrow> row_done i (w\<lparr>wd_runs := finish_run j st out err (wd_runs w)\<rparr>)"
  by (auto simp: row_started_def row_done_def statuses_finish)

lemma done_finish:
  "is_terminal st \<Longrightarrow> row_started i w \<Longrightarrow> row_done i (w\<lparr>wd_runs := finish_run i st out err (wd_runs w)\<rparr>)"
  by (auto simp: row_started_def row_done_def statuses_finish)

interpretation going: row_discipline "row_goes_on i" for i
proof unfold_locales
  fix w w' :: runner_world
  assume "wd_runs w' = wd_runs w"
  then show "row_goes_on i w w'"
    using statuses_other_tables [of w' w i] by (simp add: row_goes_on_def row_started_def row_done_def)
qed (auto simp: row_goes_on_def intro: started_finish)

section \<open>A run leaves its row settled\<close>

lemma obeys_preserves: "obeys Q f \<Longrightarrow> (\<And>s t. Q s t \<Longrightarrow> P s \<Longrightarrow> P t) \<Longrightarrow> preserves P f"
  by (auto simp: obeys_def triple_def outcome_in_def split: sum.splits)

definition started_at :: "string \<Rightarrow> run_frame \<Rightarrow> bool" where
  "started_at i s \<longleftrightarrow> row_started i (rx_world s)"

definition done_at :: "string \<Rightarrow> run_frame \<Rightarrow> bool" where
  "done_at i s \<longleftrightarrow> row_done i (rx_world s)"

lemma keeps_started: "going.fine i f \<Longrightarrow> preserves (started_at i) f"
  by (rule obeys_preserves, assumption) (simp add: started_at_def row_goes_on_def)

lemma keeps_done: "going.fine i f \<Longrightarrow> preserves (done_at i) f"
  by (rule obeys_preserves, assumption) (simp add: done_at_def row_goes_on_def)

text \<open>The environment of the theorem: it keeps rows going, and the write of the row gets through.\<close>

definition row_env :: "string \<Rightarrow> runner_env \<Rightarrow> bool" where
  "row_env i env \<longleftrightarrow> env_obeys (row_goes_on i) env \<and> (\<forall>w. fst (rv_call env WriteRow w) = Inr ()) \<and>
     (\<forall>cid w. fst (rv_stop env cid w) = Inr ())"

lemma settle_row_done:
  assumes "row_env i env" "is_terminal st"
  shows "triple (started_at i) (settle_row env i st out err) (\<lambda>_. done_at i) E"
proof (rule tripleI)
  fix s
  assume s: "started_at i s"
  obtain w where w: "rv_call env WriteRow (rx_world s) = (Inr (), w)"
    using assms(1) by (metis row_env_def prod.collapse)
  have "row_goes_on i (rx_world s) w"
    using assms(1) w obeysD [of "row_goes_on i" "rv_call env WriteRow" "rx_world s"]
    by (simp add: row_env_def env_obeys_def)
  with s have "row_started i w" by (simp add: row_goes_on_def started_at_def)
  with w assms(2) show "outcome_in (\<lambda>_. done_at i) E (settle_row env i st out err s)"
    by (simp add: settle_row_def proc_defs outside_def on_world_def done_at_def done_finish)
qed

definition reported :: "string \<Rightarrow> agent_result \<Rightarrow> run_frame \<Rightarrow> bool" where
  "reported i r s \<longleftrightarrow> rt_status r = AgCancelled \<or> done_at i s"

lemma complete_run_done:
  assumes "row_env (ag_id row) env"
  shows "triple (started_at (ag_id row)) (complete_run env opts def session row n lr) (reported (ag_id row)) (\<lambda>_. started_at (ag_id row))"
proof -
  let ?i = "ag_id row"
  from assms have obeys: "env_obeys (row_goes_on ?i) env" by (simp add: row_env_def)
  note steps = going.fine_steps [OF obeys]
  have "triple (done_at ?i) (proc_return r) (reported ?i) (\<lambda>_. started_at ?i)" for r
    by (rule triple_return) (simp add: reported_def)
  then show ?thesis
    unfolding complete_run_def Let_def
    by (intro triple_bind [OF keeps_started [OF steps(5)]] triple_bind [OF keeps_started [OF steps(6)]]
        triple_then [OF keeps_started [OF steps(7)]] triple_then [OF settle_row_done [OF assms going.terminal_status(1)]])
qed

lemma run_body_done:
  assumes "row_env (ag_id row) env"
  shows "triple (started_at (ag_id row)) (run_body env opts def policy tracker session row c) (reported (ag_id row))
    (\<lambda>_. started_at (ag_id row))"
proof -
  let ?i = "ag_id row"
  from assms have obeys: "env_obeys (row_goes_on ?i) env" by (simp add: row_env_def)
  note steps = going.fine_steps [OF obeys]
  have loop: "going.fine ?i (outside (rv_loop env q))" for q using obeys by (intro obeys_outside) (simp add: env_obeys_def)
  have stop: "triple (started_at ?i) (proc_return (cancelled_result row session b u)) (reported ?i) (\<lambda>_. started_at ?i)" for b u
    by (rule triple_return) (simp add: reported_def cancelled_result_def)
  show ?thesis
    unfolding run_body_def split_beta Let_def
    apply (intro triple_bind [OF keeps_started [OF steps(1)]] triple_then [OF keeps_started [OF steps(2)]]
        triple_bind [OF keeps_started [OF steps(3)]] triple_bind [OF keeps_started [OF steps(4)]]
        triple_then [OF keeps_started [OF going.fine_own(4)]] triple_bind [OF keeps_started [OF loop]]
        triple_bind [OF keeps_started [OF going.fine_own(2)]])
    by (auto intro: triple_then [OF keeps_started [OF steps(7)] stop] complete_run_done [OF assms])
qed

lemma on_failure_done:
  assumes "row_env (ag_id row) env"
  shows "triple (started_at (ag_id row)) (on_failure env opts session row c e) (reported (ag_id row)) (\<lambda>_. done_at (ag_id row))"
proof -
  let ?i = "ag_id row"
  from assms have obeys: "env_obeys (row_goes_on ?i) env" by (simp add: row_env_def)
  have evict: "going.fine ?i (if b then proc_then (log_effect x) (outside (rv_evict env sid)) else proc_return ())" for b x sid
    using obeys by (intro going.fine_rules) (simp_all add: env_obeys_def)
  have usage: "triple (started_at ?i) (ignore_errors (record_usage env zero_usage)) (\<lambda>_. started_at ?i) (\<lambda>_. done_at ?i)"
    by (rule triple_ignore [OF keeps_started [OF going.fine_steps(7) [OF obeys]]])
  have stop: "triple (started_at ?i) (proc_return (cancelled_result row session False zero_usage)) (reported ?i) (\<lambda>_. done_at ?i)"
    by (rule triple_return) (simp add: reported_def cancelled_result_def)
  have rest: "triple (done_at ?i)
      (proc_bind (proc_read rx_containerId) (\<lambda>cid. proc_then
         (if \<not> op_isSubAgent opts \<and> session \<noteq> None \<and> cid \<noteq> None
          then proc_then (log_effect (PoolEvicted (se_id (the session)))) (outside (rv_evict env (se_id (the session))))
          else proc_return ()) (proc_throw e))) (reported ?i) (\<lambda>_. done_at ?i)"
    by (intro triple_bind [OF keeps_done [OF going.fine_own(3)]] triple_then [OF keeps_done [OF evict]] triple_throw)
  have world: "triple (started_at ?i) (of_world g) (\<lambda>_. started_at ?i) (\<lambda>_. done_at ?i)" for g :: "runner_world \<Rightarrow> bool"
    by (simp add: triple_def of_world_def proc_read_def)
  show ?thesis
    unfolding on_failure_def
  proof (rule triple_bind [OF world])
    fix cancelled
    show "triple (started_at ?i)
        (if cancelled then
           proc_then (ignore_errors (record_usage env zero_usage)) (proc_return (cancelled_result row session False zero_usage))
         else
           proc_then (settle_row env ?i AgFailed None (Some (thrown_text e)))
            (proc_bind (proc_read rx_containerId) (\<lambda>cid. proc_then
              (if \<not> op_isSubAgent opts \<and> session \<noteq> None \<and> cid \<noteq> None
               then proc_then (log_effect (PoolEvicted (se_id (the session)))) (outside (rv_evict env (se_id (the session))))
               else proc_return ()) (proc_throw e)))) (reported ?i) (\<lambda>_. done_at ?i)"
      using triple_then [OF usage stop] triple_then [OF settle_row_done [OF assms going.terminal_status(2)] rest]
      by (cases cancelled) (simp_all only: if_True if_False)
  qed
qed

abbreviation returns :: "(run_frame, 'a) proc \<Rightarrow> bool" where
  "returns f \<equiv> triple (\<lambda>_. True) f (\<lambda>_ _. True) (\<lambda>_ _. False)"

lemma returns_own:
  "returns (on_world h)" "returns (log_effect e)" "returns (proc_read g)" "returns (proc_return x)"
  "returns (ignore_errors k)" "(\<And>w. fst (f w) = Inr ()) \<Longrightarrow> returns (outside f)"
  by (auto simp: triple_def on_world_def log_effect_def ignore_errors_def outside_def proc_defs outcome_in_def
      split: prod.splits sum.splits) (metis fst_conv sum.distinct(1))

lemma returns_if: "returns f \<Longrightarrow> returns g \<Longrightarrow> returns (if b then f else g)"
  by simp

lemma cleanup_returns:
  assumes "\<And>cid w. fst (rv_stop env cid w) = Inr ()"
  shows "fst (cleanup env opts session row s) = Inr ()"
proof -
  have "returns (cleanup env opts session row)"
    unfolding cleanup_def close_mcp_def give_container_def free_slot_def unregister_def wake_delivery_def Let_def
    by (intro triple_then [where R = "\<lambda>_. True"] triple_bind [where R = "\<lambda>_ _. True"] returns_if returns_own assms)
  from tripleD [OF this, of s] show ?thesis by (auto simp: outcome_in_def split: sum.splits)
qed

text \<open>C36: A run leaves its row settled, if the row is running when the run starts or settled already, if
  every write of the row gets through, if stopping a container never throws, and if whatever else happens
  meanwhile leaves the row running or settled: then, whatever the other calls of the run answer or throw,
  the row is completed, failed or cancelled when the run ends, unless the run reports a cancellation,
  whose row the stop button itself writes. A refused write of the row leaves it running, for the reaper.\<close>

theorem run_leaves_its_row_settled:
  assumes "row_env (ag_id row) env" "row_started (ag_id row) (rx_world s)"
    and "run_registered env opts def policy tracker session row c s = (r, t)"
  shows "row_done (ag_id row) (rx_world t) \<or> (\<exists>res. r = Inr res \<and> rt_status res = AgCancelled)"
proof -
  let ?i = "ag_id row"
  from assms(1) have obeys: "env_obeys (row_goes_on ?i) env" and stop: "\<And>cid w. fst (rv_stop env cid w) = Inr ()"
    by (simp_all add: row_env_def)
  have inner: "triple (started_at ?i) (proc_catch (run_body env opts def policy tracker session row c) (on_failure env opts session row c))
      (reported ?i) (\<lambda>_. done_at ?i)"
    by (rule triple_catch [OF run_body_done [OF assms(1)] on_failure_done [OF assms(1)]])
  obtain r' t' where in_out: "proc_catch (run_body env opts def policy tracker session row c) (on_failure env opts session row c) s = (r', t')"
    by (cases "proc_catch (run_body env opts def policy tracker session row c) (on_failure env opts session row c) s")
  have "started_at ?i s" using assms(2) by (simp add: started_at_def)
  from tripleD [OF inner this] in_out have out: "outcome_in (reported ?i) (\<lambda>_. done_at ?i) (r', t')" by simp
  from assms(3) in_out cleanup_returns [OF stop, of opts session row t'] have "r' = r" "t = snd (cleanup env opts session row t')"
    by (auto simp: run_registered_def proc_finally_def split: prod.splits sum.splits)
  with keeps_done [OF going.fine_cleanup [OF obeys]] have kept: "done_at ?i t' \<Longrightarrow> done_at ?i t"
    by (metis triple_snd)
  show ?thesis
  proof (cases r)
    case (Inl e)
    with out \<open>r' = r\<close> kept show ?thesis by (simp add: done_at_def)
  next
    case (Inr res)
    with out \<open>r' = r\<close> kept show ?thesis by (auto simp: done_at_def reported_def)
  qed
qed

lemma run_leaves_its_row_settled_witness:
  "row_done ''a'' (rx_world (snd (quiet_run True (quiet_env quiet_talk (quiet_answer quiet_talk)))))"
proof -
  let ?env = "quiet_env quiet_talk (quiet_answer quiet_talk)"
  have "row_env ''a'' ?env"
    by (simp add: row_env_def env_obeys_def obeys_def row_goes_on_def quiet_env_def proc_return_def)
  moreover have "row_started ''a'' (rx_world quiet_frame)"
    unfolding row_started_def row_statuses_def set_filter [symmetric]
    by (simp add: quiet_frame_def quiet_world_def sample_run_def)
  ultimately show ?thesis
    using run_leaves_its_row_settled [OF _ _ quiet_run_unfold [of ?env True], unfolded if_True]
      quiet_sub_agent_result [of quiet_talk "quiet_answer quiet_talk"]
    by (auto simp: sample_run_def run_status_def quiet_answer_def)
qed

text \<open>From its registration on, a run never writes a row that is already settled, its own included, if the
  other services leave settled rows alone. Its first write, before that, does
  (\<open>AgentRuns.cancelled_run_starts_anyway\<close>).\<close>

theorem run_keeps_settled_rows:
  assumes "env_obeys rows_settled env" "run_registered env opts def policy tracker session row c s = (r, t)"
    and "x \<in> set (rd_rows (wd_runs (rx_world s)))" "is_terminal (ag_status x)"
  shows "x \<in> set (rd_rows (wd_runs (rx_world t)))"
  using obeys_outcome [OF settled.fine_run [OF assms(1)] assms(2)] assms(3,4)
  by (simp add: rows_settled_def settled_stays_def)

lemma run_keeps_settled_rows_witness:
  "sample_run ''z'' None AgCompleted 0 \<in>
     set (rd_rows (wd_runs (rx_world (snd (quiet_run True (quiet_env quiet_talk (quiet_answer quiet_talk)))))))"
proof (rule run_keeps_settled_rows [OF _ quiet_run_unfold])
  show "env_obeys rows_settled (quiet_env quiet_talk (quiet_answer quiet_talk))"
    by (simp add: env_obeys_def obeys_def rows_settled_def settled_stays_def quiet_env_def proc_return_def)
  show "sample_run ''z'' None AgCompleted 0 \<in> set (rd_rows (wd_runs (rx_world quiet_frame)))"
    by (simp add: quiet_frame_def quiet_world_def)
  show "is_terminal (ag_status (sample_run ''z'' None AgCompleted 0))"
    by (simp add: sample_run_def is_terminal_def)
qed

end
