(* ===== verification/AgentRunnerReply.thy ===== *)
theory AgentRunnerReply
  imports QuietRun
begin

text \<open>
  What a run of \<open>engine/agent-runner.service.ts\<close> reports: the answer of its loop, the messages it
  saves, and what three of its paths get wrong.
\<close>

section \<open>The transcript\<close>

fun saved_in :: "runner_effect list \<Rightarrow> chat_message list list" where
  "saved_in [] = []"
| "saved_in (HistorySaved ms # es) = ms # saved_in es"
| "saved_in (_ # es) = saved_in es"

fun loops_in :: "runner_effect list \<Rightarrow> loop_request list" where
  "loops_in [] = []"
| "loops_in (LoopStarted q # es) = q # loops_in es"
| "loops_in (_ # es) = loops_in es"

fun plain_effect :: "runner_effect \<Rightarrow> bool" where
  "plain_effect (HistorySaved _) = False"
| "plain_effect (LoopStarted _) = False"
| "plain_effect _ = True"

lemma saved_in_append [simp]: "saved_in (es @ fs) = saved_in es @ saved_in fs"
  by (induction es rule: saved_in.induct) simp_all

lemma loops_in_append [simp]: "loops_in (es @ fs) = loops_in es @ loops_in fs"
  by (induction es rule: loops_in.induct) simp_all

lemma plain_in [simp]: "plain_effect e \<Longrightarrow> saved_in [e] = []" "plain_effect e \<Longrightarrow> loops_in [e] = []"
  by (cases e; simp)+

text \<open>What has been saved and which loops were started so far.\<close>

definition told :: "chat_message list list \<Rightarrow> loop_request list \<Rightarrow> run_frame \<Rightarrow> bool" where
  "told ms qs s \<longleftrightarrow> saved_in (rx_log s) = ms \<and> loops_in (rx_log s) = qs"

lemma told_frame [simp]:
  "told ms qs (s\<lparr>rx_world := w\<rparr>) = told ms qs s" "told ms qs (s\<lparr>rx_containerId := c\<rparr>) = told ms qs s"
  "plain_effect e \<Longrightarrow> told ms qs (s\<lparr>rx_log := rx_log s @ [e]\<rparr>) = told ms qs s"
  by (simp_all add: told_def)

text \<open>An assertion carried through a step that ends normally; nothing is said if it throws.\<close>

abbreviation carries :: "('s \<Rightarrow> bool) \<Rightarrow> ('s, 'a) proc \<Rightarrow> bool" where
  "carries P f \<equiv> triple P f (\<lambda>_. P) (\<lambda>_ _. True)"

lemma carries_bind: "carries P f \<Longrightarrow> (\<And>x. carries P (g x)) \<Longrightarrow> carries P (proc_bind f g)"
  by (rule triple_bind)

lemma carries_then: "carries P f \<Longrightarrow> carries P g \<Longrightarrow> carries P (proc_then f g)"
  by (rule triple_then)

lemma told_rules:
  "carries (told ms qs) (outside f)"
  "carries (told ms qs) (on_world h)"
  "carries (told ms qs) (of_world g)"
  "carries (told ms qs) (proc_return x)"
  "carries (told ms qs) (proc_throw err)"
  "carries (told ms qs) (proc_read r)"
  "carries (told ms qs) (set_container c)"
  "plain_effect e \<Longrightarrow> carries (told ms qs) (log_effect e)"
  "carries (told ms qs) (if b then take_slot else proc_return ())"
  "carries (told ms qs) (proc_modify (\<lambda>s. s\<lparr>rx_mcpOpen := True, rx_log := rx_log s @ [McpOpened]\<rparr>))"
  by (auto simp: triple_def outside_def on_world_def of_world_def log_effect_def set_container_def take_slot_def
      proc_defs outcome_in_def Let_def told_def split: prod.splits sum.splits bool.splits)

lemma told_if:
  "triple P f Q E \<Longrightarrow> triple P g Q E \<Longrightarrow> triple P (if b then f else g) Q E"
  by simp

lemmas told_intros = carries_bind carries_then told_if told_rules

lemma told_save_history:
  "triple (told ms qs) (save_history env st new hidden) (\<lambda>_. told (ms @ [new]) qs) (\<lambda>_ _. True)"
proof -
  have "triple (told ms qs) (log_effect (HistorySaved new)) (\<lambda>_. told (ms @ [new]) qs) (\<lambda>_ _. True)"
    by (simp add: triple_def log_effect_def proc_modify_def told_def)
  then show ?thesis
    unfolding save_history_def by (intro triple_then [OF told_rules(1)] triple_then [OF _ told_rules(1)])
qed

definition first_saved :: "agent_options \<Rightarrow> chat_message list list" where
  "first_saved opts = (if op_isSubAgent opts then [] else [[user_message opts]])"

lemma told_prepare:
  "triple (told [] []) (prepare_messages env opts def session) (\<lambda>_. told (first_saved opts) []) (\<lambda>_ _. True)"
proof -
  have save: "triple (told [] [])
      (if op_isSubAgent opts then proc_return ()
       else proc_bind (save_history env (store_of opts session) [user_message opts] h) (\<lambda>_. proc_return ()))
      (\<lambda>_. told (first_saved opts) []) (\<lambda>_ _. True)" for h
    using triple_bind [OF told_save_history [of "[]" "[]" env "store_of opts session" "[user_message opts]" h] told_rules(4)]
    by (auto simp: first_saved_def told_rules)
  show ?thesis
    unfolding prepare_messages_def Let_def split_beta
    by (intro triple_bind [where R = "\<lambda>_. told [] []"] triple_then [OF save] carries_then told_if told_rules)
qed

lemma told_prepare_provider: "carries (told ms qs) (prepare_provider env def ws)"
  unfolding prepare_provider_def by (cases ws) (simp_all, (intro told_intros)+)

lemma told_get_container: "carries (told ms qs) (get_container env opts def session ws)"
  unfolding get_container_def Let_def by (intro told_intros) simp_all

lemma told_collect_tools:
  "carries (told ms qs) (collect_tools env opts def policy session i ws)"
  unfolding collect_tools_def mcp_tools_def Let_def split_beta by (intro told_intros)

lemma told_record_usage: "carries (told ms qs) (record_usage env u)"
  unfolding record_usage_def by (intro told_intros) simp

lemma told_settle: "carries (told ms qs) (settle_row env i st out err)"
  unfolding settle_row_def by (intro told_intros)

text \<open>What is saved of the loop's messages: those after the initial ones, if there are any.\<close>

definition last_saved :: "agent_options \<Rightarrow> nat \<Rightarrow> loop_result \<Rightarrow> chat_message list list" where
  "last_saved opts n lr =
     (if op_isSubAgent opts \<or> drop n (lr_messages lr) = [] then [] else [drop n (lr_messages lr)])"

lemma told_save_reply:
  "triple (told ms qs) (save_reply env opts def session n lr) (\<lambda>_. told (ms @ last_saved opts n lr) qs) (\<lambda>_ _. True)"
  using triple_bind [OF told_save_history told_rules(4)]
  by (auto simp: save_reply_def last_saved_def Let_def told_rules)

lemma told_consolidate:
  "triple (told ms qs) (consolidate_session env opts session)
     (\<lambda>warning s. told ms qs s \<and> (\<exists>wn. warning = context_warning wn)) (\<lambda>_ _. True)"
proof -
  have none: "context_warning WarnNone = []" by (simp add: context_warning_def)
  have "triple (told ms qs) (proc_return (context_warning wn))
      (\<lambda>warning s. told ms qs s \<and> (\<exists>wn. warning = context_warning wn)) (\<lambda>_ _. True)" for wn
    by (rule triple_return) auto
  moreover have "triple (told ms qs) (proc_return [])
      (\<lambda>warning s. told ms qs s \<and> (\<exists>wn. warning = context_warning wn)) (\<lambda>_ _. True)"
    by (rule triple_return) (auto simp: none [symmetric])
  ultimately show ?thesis
    unfolding consolidate_session_def Let_def
    by (auto intro!: told_if triple_then [OF told_rules(1)] triple_bind [OF told_rules(1)])
qed

section \<open>The reply\<close>

text \<open>The result reports the loop's answer to the request.\<close>

definition reports :: "agent_options \<Rightarrow> loop_request \<Rightarrow> loop_result \<Rightarrow> agent_result \<Rightarrow> run_frame \<Rightarrow> bool" where
  "reports opts q lr res s \<longleftrightarrow>
     told (first_saved opts @ last_saved opts (length (lq_messages q)) lr) [q] s \<and>
     rt_status res = run_status lr \<and> rt_usage res = lr_totalUsage lr \<and>
     (\<exists>wn. rt_output res = final_output opts lr (context_warning wn))"

lemma complete_run_reports:
  assumes "n = length (lq_messages q)"
  shows "triple (told (first_saved opts) [q]) (complete_run env opts def session row n lr) (reports opts q lr) (\<lambda>_ _. True)"
proof -
  let ?ms = "first_saved opts @ last_saved opts n lr"
  have last: "triple (\<lambda>s. told ?ms [q] s \<and> (\<exists>wn. warning = context_warning wn))
      (proc_then (record_usage env (lr_totalUsage lr))
        (let out = final_output opts lr warning;
             timedOut = (if lr_hitTimeout lr then Some ''Agent run timed out'' else None) in
         proc_then (settle_row env (ag_id row) (run_status lr) (Some (case out of None \<Rightarrow> [] | Some x \<Rightarrow> x)) timedOut)
           (proc_return
              \<lparr>rt_agentRunId = ag_id row, rt_sessionId = map_option se_id session, rt_output = out,
               rt_status = run_status lr, rt_responseMessageId = responseId, rt_streamingUsed = streams opts def,
               rt_usage = lr_totalUsage lr,
               rt_error = (if lr_hitTimeout lr then timedOut
                           else if lr_hitTokenBudget lr then Some ''token_budget_exceeded'' else None)\<rparr>)))
      (reports opts q lr) (\<lambda>_ _. True)" (is "triple _ ?finish _ _") for warning responseId
  proof (cases "\<exists>wn. warning = context_warning wn")
    case True
    have "triple (told ?ms [q]) ?finish (reports opts q lr) (\<lambda>_ _. True)"
      unfolding Let_def
      by (intro triple_then [OF told_record_usage] triple_then [OF told_settle] triple_return)
         (use True in \<open>auto simp: reports_def assms\<close>)
    then show ?thesis by (rule triple_weaken) auto
  qed (simp add: triple_def)
  show ?thesis
    unfolding complete_run_def
    by (intro triple_bind [OF told_save_reply] triple_bind [OF told_consolidate] last)
qed

definition loop_answered :: "runner_env \<Rightarrow> loop_request \<Rightarrow> loop_result \<Rightarrow> bool" where
  "loop_answered env q lr \<longleftrightarrow> (\<exists>w w'. rv_loop env q w = (Inr lr, w'))"

definition reply_ok :: "runner_env \<Rightarrow> agent_options \<Rightarrow> agent_result \<Rightarrow> run_frame \<Rightarrow> bool" where
  "reply_ok env opts res s \<longleftrightarrow>
     rt_status res = AgCancelled \<or> (\<exists>q lr. loop_answered env q lr \<and> reports opts q lr res s)"

lemma run_body_reply:
  "triple (told [] []) (run_body env opts def policy tracker session row c) (reply_ok env opts) (\<lambda>_ _. True)"
proof -
  have start: "triple (told (first_saved opts) []) (log_effect (LoopStarted q)) (\<lambda>_. told (first_saved opts) [q]) (\<lambda>_ _. True)" for q
    by (simp add: triple_def log_effect_def proc_modify_def told_def)
  have loop: "triple (told (first_saved opts) [q]) (outside (rv_loop env q))
      (\<lambda>lr s. told (first_saved opts) [q] s \<and> loop_answered env q lr) (\<lambda>_ _. True)" for q
    by (auto simp: triple_def outside_def outcome_in_def loop_answered_def split: prod.splits sum.splits)
  have finish: "triple (\<lambda>s. told (first_saved opts) [q] s \<and> loop_answered env q lr)
      (proc_bind (of_world (is_cancelled env opts c)) (\<lambda>cancelled.
         if cancelled then
           proc_then (record_usage env (lr_totalUsage lr))
             (proc_return (cancelled_result row session (streams opts def) (lr_totalUsage lr)))
         else complete_run env opts def session row n lr))
      (reply_ok env opts) (\<lambda>_ _. True)" (is "triple _ ?finish _ _") if n: "n = length (lq_messages q)" for q lr n
  proof (cases "loop_answered env q lr")
    case True
    have "triple (told (first_saved opts) [q])
        (proc_then (record_usage env u) (proc_return (cancelled_result row session b u))) (reply_ok env opts) (\<lambda>_ _. True)"
      for u b by (rule triple_then [OF told_record_usage], rule triple_return) (simp add: reply_ok_def cancelled_result_def)
    moreover have "triple (told (first_saved opts) [q])
        (complete_run env opts def session row n lr) (reply_ok env opts) (\<lambda>_ _. True)"
      by (rule triple_weaken [OF complete_run_reports [OF n]]) (use True in \<open>auto simp: reply_ok_def\<close>)
    ultimately have "triple (told (first_saved opts) [q]) ?finish (reply_ok env opts) (\<lambda>_ _. True)"
      by (intro triple_bind [OF told_rules(3)] told_if)
    then show ?thesis by (rule triple_weaken) auto
  qed (simp add: triple_def)
  show ?thesis
    unfolding run_body_def split_beta Let_def
    by (rule triple_bind [OF told_prepare] triple_then [OF told_prepare_provider] triple_bind [OF told_get_container]
        triple_bind [OF told_collect_tools] triple_then [OF start] triple_bind [OF loop])+
       (rule finish, simp)
qed

lemma on_failure_reply:
  "triple P (on_failure env opts session row c e) (reply_ok env opts) (\<lambda>_ _. True)"
proof -
  have any: "triple (\<lambda>_. True) f (\<lambda>_ _. True) (\<lambda>_ _. True)" for f :: "(run_frame, 'z) proc"
    by (simp add: triple_def outcome_in_def split: sum.splits)
  have "triple (\<lambda>_. True) (on_failure env opts session row c e) (reply_ok env opts) (\<lambda>_ _. True)"
    unfolding on_failure_def
    by (rule triple_bind [OF any], rule told_if; rule triple_then [OF any])
       (auto intro!: triple_return triple_bind [OF any] triple_then [OF any] triple_throw
         simp: reply_ok_def cancelled_result_def)
  then show ?thesis by (rule triple_weaken) auto
qed

lemma reply_ok_frame [simp]:
  "reply_ok env opts res (s\<lparr>rx_world := w\<rparr>) = reply_ok env opts res s"
  "plain_effect e \<Longrightarrow> reply_ok env opts res (s\<lparr>rx_log := rx_log s @ [e]\<rparr>) = reply_ok env opts res s"
  by (simp_all add: reply_ok_def reports_def)

lemma reply_ok_rules:
  "carries (reply_ok env opts res) (outside f)"
  "carries (reply_ok env opts res) (on_world h)"
  "carries (reply_ok env opts res) (proc_read r)"
  "carries (reply_ok env opts res) (proc_return x)"
  "plain_effect e \<Longrightarrow> carries (reply_ok env opts res) (log_effect e)"
  "preserves (reply_ok env opts res) k \<Longrightarrow> carries (reply_ok env opts res) (ignore_errors k)"
  by (auto simp: triple_def outside_def on_world_def log_effect_def ignore_errors_def proc_defs outcome_in_def
      split: prod.splits sum.splits)

lemma cleanup_reply: "carries (reply_ok env opts res) (cleanup env opts session row)"
  unfolding cleanup_def close_mcp_def give_container_def free_slot_def unregister_def wake_delivery_def Let_def
  by (intro carries_bind carries_then told_if reply_ok_rules preserves_bind preserves_then preserves_if
      triple_outside_frame triple_log triple_return) simp_all

text \<open>C40: A run that reports anything but a cancellation reports its loop. The loop was started once and
  answered; the result carries the status, usage and output of that answer. The transcript of a sub-agent
  gets nothing. That of a primary run gets the user's message and then, in one piece, the part of the
  loop's messages beyond the number of messages the loop was given: where the loop only appended to these,
  exactly the messages it added, in order and once each. Where it compressed them that part is short of
  the answer or empty (lemma \<open>compressed_run_loses_reply\<close>).\<close>

theorem result_is_the_loops_answer:
  assumes "run_registered env opts def policy tracker session row c s = (Inr res, t)" "rx_log s = []"
    and "rt_status res \<noteq> AgCancelled"
  shows "\<exists>q lr wn. (\<exists>w w'. rv_loop env q w = (Inr lr, w')) \<and> loops_in (rx_log t) = [q] \<and>
    rt_status res = run_status lr \<and> rt_usage res = lr_totalUsage lr \<and>
    rt_output res = final_output opts lr (context_warning wn) \<and>
    saved_in (rx_log t) =
      (if op_isSubAgent opts then []
       else [user_message opts] #
         (if drop (length (lq_messages q)) (lr_messages lr) = [] then [] else [drop (length (lq_messages q)) (lr_messages lr)])) \<and>
    (\<forall>added. \<not> op_isSubAgent opts \<longrightarrow> lr_messages lr = lq_messages q @ added \<longrightarrow>
       saved_in (rx_log t) = [user_message opts] # (if added = [] then [] else [added]))"
proof -
  have "triple (told [] []) (run_registered env opts def policy tracker session row c) (reply_ok env opts) (\<lambda>_ _. True)"
    unfolding run_registered_def
    by (rule triple_finally [OF triple_catch [OF run_body_reply on_failure_reply] cleanup_reply])
       (simp add: triple_def outcome_in_def split: sum.splits)
  moreover have "told [] [] s" using assms(2) by (simp add: told_def)
  ultimately have "reply_ok env opts res t" using assms(1) by (rule triple_Inr)
  with assms(3) obtain q lr where q: "loop_answered env q lr" and r: "reports opts q lr res t"
    by (auto simp: reply_ok_def)
  then obtain w w' wn where "rv_loop env q w = (Inr lr, w')" "rt_output res = final_output opts lr (context_warning wn)"
    by (auto simp: loop_answered_def reports_def)
  with r show ?thesis
    by (intro exI [of _ q] exI [of _ lr] exI [of _ wn])
       (auto simp: reports_def told_def first_saved_def last_saved_def)
qed

lemma result_is_the_loops_answer_witness:
  "(\<exists>res q lr wn. fst (quiet_run False (quiet_env (take 2 quiet_talk) (quiet_answer quiet_talk))) = Inr res \<and>
     (\<exists>w w'. rv_loop (quiet_env (take 2 quiet_talk) (quiet_answer quiet_talk)) q w = (Inr lr, w')) \<and>
     rt_output res = final_output (quiet_options False) lr (context_warning wn) \<and>
     saved_in (rx_log (snd (quiet_run False (quiet_env (take 2 quiet_talk) (quiet_answer quiet_talk))))) =
       [user_message (quiet_options False)] #
       (if drop (length (lq_messages q)) (lr_messages lr) = [] then [] else [drop (length (lq_messages q)) (lr_messages lr)]))"
proof -
  let ?env = "quiet_env (take 2 quiet_talk) (quiet_answer quiet_talk)"
  obtain res where res: "fst (quiet_run False ?env) = Inr res" "rt_status res = AgCompleted"
    using quiet_primary_result [of "take 2 quiet_talk" "quiet_answer quiet_talk"]
    by (cases "fst (quiet_run False ?env)") (auto simp: run_status_def quiet_answer_def)
  have "rt_status res \<noteq> AgCancelled" using res(2) by simp
  from result_is_the_loops_answer [OF quiet_run_unfold [of ?env False, unfolded res(1)] quiet_rows(6) this] res(1)
  show ?thesis unfolding quiet_options_fields if_False by blast
qed

section \<open>Where runs lose replies, locks and slots\<close>

text \<open>\<open>agent-runner.service.ts:863\<close> takes the loop's messages behind the length of the context it was
  given. When the loop compressed the context there are fewer of them, and nothing of the answer is saved
  although the run completes with it.\<close>

lemma compressed_run_loses_reply:
  "\<exists>res. fst (quiet_run False (quiet_env quiet_talk (quiet_answer (tl quiet_talk)))) = Inr res \<and>
     rt_status res = AgCompleted \<and> rt_output res = Some ''hello'' \<and>
     saved_in (rx_log (snd (quiet_run False (quiet_env quiet_talk (quiet_answer (tl quiet_talk)))))) =
       [[user_message (quiet_options False)]]"
proof -
  let ?lr = "quiet_answer (tl quiet_talk)"
  have "final_output (quiet_options False) ?lr [] = Some ''hello''"
    by (simp add: final_output_def transcript_output_def timeout_suffix_def quiet_answer_def quiet_options_def)
  with quiet_primary_result [of quiet_talk ?lr]
  have "\<exists>res. fst (quiet_run False (quiet_env quiet_talk ?lr)) = Inr res \<and>
     rt_status res = AgCompleted \<and> rt_output res = Some ''hello''"
    by (cases "fst (quiet_run False (quiet_env quiet_talk ?lr))") (auto simp: run_status_def quiet_answer_def)
  then show ?thesis by (simp add: quiet_primary_log quiet_answer_def)
qed

text \<open>The cleanup releases the session's pool entry even when the run never acquired it (lines 1028-1029):
  a run that fails at its provider idles the container another run of the session is using.\<close>

lemma early_failure_releases_pool:
  "let es = rx_log (snd (quiet_run False no_provider_env)) in
     PoolReleased ''s'' \<in> set es \<and> (\<forall>cid. PoolAcquired ''s'' cid \<notin> set es)"
  by (simp add: no_provider_log)

text \<open>A container that cannot be stopped aborts the cleanup (line 1027): the slot stays taken, the run stays
  registered, and a run whose loop succeeded and whose row is settled is reported as an error.\<close>

lemma failed_stop_leaks_slot:
  "fst (quiet_run True stop_fails_env) = Inl (run_error ''docker'') \<and>
   (let es = rx_log (snd (quiet_run True stop_fails_env)) in
      SlotTaken \<in> set es \<and> SlotFreed \<notin> set es \<and> (\<forall>i. Unregistered i \<notin> set es))"
  by (simp add: stop_fails_run)

end
