(* ===== verification/FileSystem.thy ===== *)
theory FileSystem
  imports JsText Effects
begin

text \<open>
  What the sources use of Node's \<open>path\<close> and \<open>fs\<close> modules on a POSIX system: absolute path texts and
  their normal form, a disk with directories, files and symbolic links, and the calls that look up,
  read and change it. A disk maps the real path of every object, as the list of its names, to the
  object; a link is followed at most forty times, as Linux does.
\<close>

section \<open>Path texts\<close>

abbreviation slash :: char where
  "slash \<equiv> CHR ''/''"

definition names :: "string \<Rightarrow> string list" where
  "names p = filter (\<lambda>s. s \<noteq> []) (split_on slash p)"

definition is_absolute :: "string \<Rightarrow> bool" where
  "is_absolute p = starts_with p [slash]"

definition path_text :: "string list \<Rightarrow> string" where
  "path_text ns = slash # join [slash] ns"

text \<open>Dots resolved by the text alone; the parent of the root is the root.\<close>

fun normal :: "string list \<Rightarrow> string list \<Rightarrow> string list" where
  "normal acc [] = acc"
| "normal acc (x # xs) =
     (if x = ''.'' then normal acc xs
      else if x = ''..'' then normal (butlast acc) xs
      else normal (acc @ [x]) xs)"

text \<open>\<open>path.resolve(base, p)\<close> and \<open>path.join(base, p)\<close> for an absolute base, \<open>path.relative(from, to)\<close> for two
  absolute paths, \<open>path.dirname(p)\<close> for an absolute path without repeated slashes.\<close>

definition path_resolve :: "string \<Rightarrow> string \<Rightarrow> string" where
  "path_resolve base p = path_text (normal [] (if is_absolute p then names p else names base @ names p))"

definition path_join :: "string \<Rightarrow> string \<Rightarrow> string" where
  "path_join base p =
     (let ns = normal [] (names base @ names p) in
      path_text ns @ (if p \<noteq> [] \<and> last p = slash \<and> ns \<noteq> [] then [slash] else []))"

fun drop_common :: "'a list \<Rightarrow> 'a list \<Rightarrow> 'a list \<times> 'a list" where
  "drop_common (x # xs) (y # ys) = (if x = y then drop_common xs ys else (x # xs, y # ys))"
| "drop_common xs ys = (xs, ys)"

definition path_relative :: "string \<Rightarrow> string \<Rightarrow> string" where
  "path_relative a b =
     (case drop_common (normal [] (names a)) (normal [] (names b)) of
        (up, down) \<Rightarrow> join [slash] (replicate (length up) ''..'' @ down))"

definition path_dirname :: "string \<Rightarrow> string" where
  "path_dirname p = path_text (butlast (names p))"

definition path_basename :: "string \<Rightarrow> string" where
  "path_basename p = (case names p of [] \<Rightarrow> [] | n # ns \<Rightarrow> last (n # ns))"

definition path_extname :: "string \<Rightarrow> string" where
  "path_extname p =
     (let s = path_basename p in
      case find_last_index (\<lambda>c. c = CHR ''.'') s (length s) of
        None \<Rightarrow> []
      | Some i \<Rightarrow> if i = 0 \<or> s = ''..'' then [] else drop i s)"

subsection \<open>Names of a text\<close>

definition plain_name :: "string \<Rightarrow> bool" where
  "plain_name n \<longleftrightarrow> n \<noteq> [] \<and> slash \<notin> set n"

lemma split_on_plain: "\<forall>w \<in> set (split_on c s). c \<notin> set w"
  by (induction s) (auto split: list.splits)

lemma names_plain: "n \<in> set (names p) \<Longrightarrow> plain_name n"
  using split_on_plain [of slash p] by (auto simp: names_def plain_name_def)

lemma split_on_append: "split_on c (s @ c # t) = split_on c s @ split_on c t"
  by (induction s) (auto split: list.splits)

lemma names_append: "names (s @ slash # t) = names s @ names t"
  by (simp add: names_def split_on_append)

lemma names_Nil [simp]: "names [] = []"
  by (simp add: names_def)

lemma names_slash [simp]: "names (slash # t) = names t"
  using names_append [of "[]" t] by simp

lemma names_name: "plain_name n \<Longrightarrow> names n = [n]"
  by (simp add: names_def plain_name_def split_on_none)

lemma names_join: "list_all plain_name ns \<Longrightarrow> names (join [slash] ns) = ns"
proof (induction "[slash]" ns rule: join.induct)
  case (3 x y ys)
  then show ?case using names_append [of x "join [slash] (y # ys)"] by (simp add: names_name)
qed (simp_all add: names_name)

lemma names_path_text: "list_all plain_name ns \<Longrightarrow> names (path_text ns) = ns"
  by (simp add: path_text_def names_join)

lemma plain_names [simp]: "list_all plain_name (names p)"
  by (simp add: list_all_iff names_plain)

text \<open>A text under another one names what is under it.\<close>

lemma names_below:
  "s = b \<or> starts_with s (b @ [slash]) \<Longrightarrow> prefix (names b) (names s)"
  by (auto simp: starts_with_def prefix_def names_append)

lemma normal_append: "normal acc (xs @ ys) = normal (normal acc xs) ys"
  by (induction acc xs rule: normal.induct) auto

lemma normal_subset: "set (normal acc xs) \<subseteq> set acc \<union> set xs"
  by (induction acc xs rule: normal.induct) (auto dest: in_set_butlastD)

definition dotless :: "string list \<Rightarrow> bool" where
  "dotless ns \<longleftrightarrow> ''.'' \<notin> set ns \<and> ''..'' \<notin> set ns"

lemma dotless_normal: "dotless acc \<Longrightarrow> dotless (normal acc xs)"
  by (induction acc xs rule: normal.induct) (auto simp: dotless_def dest: in_set_butlastD)

lemma normal_dotless: "dotless xs \<Longrightarrow> normal acc xs = acc @ xs"
  by (induction acc xs rule: normal.induct) (auto simp: dotless_def)

lemma plain_normal: "list_all plain_name acc \<Longrightarrow> list_all plain_name xs \<Longrightarrow> list_all plain_name (normal acc xs)"
  using normal_subset [of acc xs] by (auto simp: list_all_iff)

lemma names_resolve:
  "names (path_resolve base p) = normal [] (if is_absolute p then names p else names base @ names p)"
  unfolding path_resolve_def by (rule names_path_text) (simp add: plain_normal)

lemma path_text_resolve: "path_text (names (path_resolve base p)) = path_resolve base p"
  unfolding names_resolve by (simp add: path_resolve_def)

lemma dotless_resolve [simp]: "dotless (names (path_resolve base p))"
  unfolding names_resolve by (rule dotless_normal) (simp add: dotless_def)

section \<open>A disk\<close>

datatype node = Directory | Regular (node_content: string) | Link (link_target: string)

type_synonym place = "string list"

type_synonym disk = "(place \<times> node) list"

definition node_at :: "disk \<Rightarrow> place \<Rightarrow> node option" where
  "node_at d q = (if q = [] then Some Directory else map_of d q)"

datatype fs_error = ENOENT | ENOTDIR | EISDIR | EEXIST | ENOTEMPTY | EINVAL | ELOOP

fun error_name :: "fs_error \<Rightarrow> string" where
  "error_name ENOENT = ''ENOENT''"
| "error_name ENOTDIR = ''ENOTDIR''"
| "error_name EISDIR = ''EISDIR''"
| "error_name EEXIST = ''EEXIST''"
| "error_name ENOTEMPTY = ''ENOTEMPTY''"
| "error_name EINVAL = ''EINVAL''"
| "error_name ELOOP = ''ELOOP''"

definition fs_thrown :: "fs_error \<Rightarrow> thrown" where
  "fs_thrown e = ThrownError (ErrorObj (error_name e) (Some (error_name e)) None None)"

text \<open>The place a path leads to from a directory, links followed. The last name may be missing.\<close>

function locate :: "disk \<Rightarrow> nat \<Rightarrow> place \<Rightarrow> string list \<Rightarrow> fs_error + place" where
  "locate d n cur [] = Inr cur"
| "locate d n cur (x # xs) =
     (if node_at d cur \<noteq> Some Directory then Inl ENOTDIR
      else if x = ''.'' then locate d n cur xs
      else if x = ''..'' then locate d n (butlast cur) xs
      else
        (case node_at d (cur @ [x]) of
           None \<Rightarrow> if xs = [] then Inr (cur @ [x]) else Inl ENOENT
         | Some (Link t) \<Rightarrow>
             if n = 0 then Inl ELOOP
             else locate d (n - 1) (if is_absolute t then [] else cur) (names t @ xs)
         | Some _ \<Rightarrow> locate d n (cur @ [x]) xs))"
  by pat_completeness auto
termination
  by (relation "measures [\<lambda>(d, n, cur, xs). n, \<lambda>(d, n, cur, xs). length xs]") auto

declare locate.simps(2) [simp del]

text \<open>One step of a successful walk, and induction along it.\<close>

lemma locate_step:
  assumes "locate d n cur (x # xs) = Inr q"
  obtains (dot) "x = ''.''" "locate d n cur xs = Inr q" "node_at d cur = Some Directory"
  | (up) "x = ''..''" "locate d n (butlast cur) xs = Inr q" "node_at d cur = Some Directory"
  | (missing) "x \<noteq> ''.''" "x \<noteq> ''..''" "node_at d (cur @ [x]) = None" "xs = []" "q = cur @ [x]" "node_at d cur = Some Directory"
  | (link) t m where "x \<noteq> ''.''" "x \<noteq> ''..''" "node_at d (cur @ [x]) = Some (Link t)" "n = Suc m"
      "locate d m (if is_absolute t then [] else cur) (names t @ xs) = Inr q" "node_at d cur = Some Directory"
  | (down) v where "x \<noteq> ''.''" "x \<noteq> ''..''" "node_at d (cur @ [x]) = Some v" "\<And>t. v \<noteq> Link t"
      "locate d n (cur @ [x]) xs = Inr q" "node_at d cur = Some Directory"
proof -
  note walk = assms [unfolded locate.simps]
  have dir: "node_at d cur = Some Directory" using walk by (simp split: if_splits)
  show thesis
  proof (cases "x = ''.'' \<or> x = ''..''")
    case True
    with walk dir show thesis by (elim disjE) (auto intro: dot up)
  next
    case False
    show thesis
    proof (cases "node_at d (cur @ [x])")
      case None
      with walk dir False show thesis by (intro missing) (simp_all split: if_splits)
    next
      case (Some v)
      show thesis
      proof (cases v)
        case (Link t)
        with walk dir False Some show thesis by (intro link [of t "n - 1"]) (simp_all split: if_splits)
      next
        case Directory
        with walk dir False Some show thesis by (intro down [of v]) simp_all
      next
        case (Regular c)
        with walk dir False Some show thesis by (intro down [of v]) simp_all
      qed
    qed
  qed
qed

lemma locate_induct [consumes 1, case_names stop dot up missing link down]:
  assumes "locate d n cur xs = Inr q"
    and "\<And>n. P n q []"
    and "\<And>n cur xs. node_at d cur = Some Directory \<Longrightarrow> P n cur xs \<Longrightarrow> P n cur (''.'' # xs)"
    and "\<And>n cur xs. node_at d cur = Some Directory \<Longrightarrow> P n (butlast cur) xs \<Longrightarrow> P n cur (''..'' # xs)"
    and "\<And>n cur x. node_at d cur = Some Directory \<Longrightarrow> x \<noteq> ''.'' \<Longrightarrow> x \<noteq> ''..'' \<Longrightarrow> node_at d (cur @ [x]) = None \<Longrightarrow>
      q = cur @ [x] \<Longrightarrow> P n cur [x]"
    and "\<And>n cur x xs t. node_at d cur = Some Directory \<Longrightarrow> x \<noteq> ''.'' \<Longrightarrow> x \<noteq> ''..'' \<Longrightarrow>
      node_at d (cur @ [x]) = Some (Link t) \<Longrightarrow>
      P n (if is_absolute t then [] else cur) (names t @ xs) \<Longrightarrow> P (Suc n) cur (x # xs)"
    and "\<And>n cur x xs v. node_at d cur = Some Directory \<Longrightarrow> x \<noteq> ''.'' \<Longrightarrow> x \<noteq> ''..'' \<Longrightarrow>
      node_at d (cur @ [x]) = Some v \<Longrightarrow> (\<And>t. v \<noteq> Link t) \<Longrightarrow> P n (cur @ [x]) xs \<Longrightarrow> P n cur (x # xs)"
  shows "P n cur xs"
proof -
  have "locate d n cur xs = Inr q \<Longrightarrow> P n cur xs"
  proof (induction "(n, cur, xs)" arbitrary: n cur xs rule: wf_induct_rule [OF wf_measures [of "[fst, length \<circ> snd \<circ> snd]"]])
    case (1 n cur xs)
    show ?case
    proof (cases xs)
      case Nil
      with 1 assms(2) show ?thesis by simp
    next
      case (Cons x ys)
      from 1(2) [unfolded Cons] show ?thesis
      proof (cases rule: locate_step)
        case dot
        with 1(1) [of n cur ys] Cons assms(3) show ?thesis by simp
      next
        case up
        with 1(1) [of n "butlast cur" ys] Cons assms(4) show ?thesis by simp
      next
        case missing
        with Cons assms(5) show ?thesis by simp
      next
        case (link t m)
        with 1(1) [of m "if is_absolute t then [] else cur" "names t @ ys"] Cons assms(6) show ?thesis by simp
      next
        case (down v)
        with 1(1) [of n "cur @ [x]" ys] Cons assms(7) show ?thesis by simp
      qed
    qed
  qed
  with assms(1) show ?thesis by simp
qed

definition max_links :: nat where
  "max_links = 40"

definition find_place :: "disk \<Rightarrow> string \<Rightarrow> fs_error + place" where
  "find_place d p = locate d max_links [] (names p)"

text \<open>The object a path leads to.\<close>

definition look :: "disk \<Rightarrow> string \<Rightarrow> fs_error + place \<times> node" where
  "look d p =
     (case find_place d p of
        Inl e \<Rightarrow> Inl e
      | Inr q \<Rightarrow> (case node_at d q of None \<Rightarrow> Inl ENOENT | Some v \<Rightarrow> Inr (q, v)))"

text \<open>The directory entry a path names: links on the way are followed, the last name is not.\<close>

definition find_entry :: "disk \<Rightarrow> string list \<Rightarrow> fs_error + place" where
  "find_entry d ns =
     (if ns = [] then Inr []
      else
        (case locate d max_links [] (butlast ns) of
           Inl e \<Rightarrow> Inl e
         | Inr q \<Rightarrow>
             (case node_at d q of
                None \<Rightarrow> Inl ENOENT
              | Some Directory \<Rightarrow> Inr (q @ [last ns])
              | Some _ \<Rightarrow> Inl ENOTDIR)))"

section \<open>The calls\<close>

definition exists_sync :: "string \<Rightarrow> disk \<Rightarrow> bool" where
  "exists_sync p d = (case look d p of Inl _ \<Rightarrow> False | Inr _ \<Rightarrow> True)"

definition realpath_sync :: "string \<Rightarrow> disk \<Rightarrow> fs_error + string" where
  "realpath_sync p d = (case look d p of Inl e \<Rightarrow> Inl e | Inr (q, _) \<Rightarrow> Inr (path_text q))"

definition fs_stat :: "string \<Rightarrow> disk \<Rightarrow> fs_error + node" where
  "fs_stat p d = (case look d p of Inl e \<Rightarrow> Inl e | Inr (_, v) \<Rightarrow> Inr v)"

definition children :: "disk \<Rightarrow> place \<Rightarrow> (string \<times> node) list" where
  "children d q = map (\<lambda>(p, v). (last p, v)) (filter (\<lambda>(p, _). p \<noteq> [] \<and> butlast p = q) d)"

definition fs_readdir :: "string \<Rightarrow> disk \<Rightarrow> fs_error + (string \<times> node) list" where
  "fs_readdir p d =
     (case look d p of
        Inl e \<Rightarrow> Inl e
      | Inr (q, Directory) \<Rightarrow> Inr (children d q)
      | Inr _ \<Rightarrow> Inl ENOTDIR)"

definition fs_readFile :: "string \<Rightarrow> disk \<Rightarrow> fs_error + string" where
  "fs_readFile p d =
     (case look d p of
        Inl e \<Rightarrow> Inl e
      | Inr (_, Regular c) \<Rightarrow> Inr c
      | Inr _ \<Rightarrow> Inl EISDIR)"

definition fs_writeFile :: "string \<Rightarrow> string \<Rightarrow> disk \<Rightarrow> fs_error + disk" where
  "fs_writeFile p c d =
     (case find_place d p of
        Inl e \<Rightarrow> Inl e
      | Inr q \<Rightarrow> if node_at d q = Some Directory then Inl EISDIR else Inr (upd_assoc q (Regular c) d))"

text \<open>\<open>mkdir(p, \{ recursive: true \})\<close> makes the directories that are missing, from the root down.\<close>

definition make_dir :: "disk \<Rightarrow> string list \<Rightarrow> fs_error \<Rightarrow> fs_error + disk" where
  "make_dir d ns taken =
     (case find_entry d ns of
        Inl e \<Rightarrow> Inl e
      | Inr q \<Rightarrow>
          (case node_at d q of
             None \<Rightarrow> Inr (upd_assoc q Directory d)
           | Some _ \<Rightarrow>
               (case look d (path_text ns) of
                  Inl e \<Rightarrow> Inl e
                | Inr (_, v) \<Rightarrow> if v = Directory then Inr d else Inl taken)))"

fun make_dirs :: "disk \<Rightarrow> string list \<Rightarrow> string list \<Rightarrow> fs_error + disk" where
  "make_dirs d ns [] = Inr d"
| "make_dirs d ns (x # xs) =
     (case make_dir d (ns @ [x]) (if xs = [] then EEXIST else ENOTDIR) of
        Inl e \<Rightarrow> Inl e
      | Inr d' \<Rightarrow> make_dirs d' (ns @ [x]) xs)"

definition fs_mkdir :: "string \<Rightarrow> disk \<Rightarrow> fs_error + disk" where
  "fs_mkdir p d = make_dirs d [] (names p)"

definition subtree :: "place \<Rightarrow> place \<Rightarrow> bool" where
  "subtree q p = prefix q p"

definition remove_tree :: "place \<Rightarrow> disk \<Rightarrow> disk" where
  "remove_tree q d = filter (\<lambda>(p, _). \<not> subtree q p) d"

definition move_tree :: "place \<Rightarrow> place \<Rightarrow> disk \<Rightarrow> disk" where
  "move_tree a b d =
     map (\<lambda>(p, v). (if subtree a p then b @ drop (length a) p else p, v)) (remove_tree b d)"

definition fs_rename :: "string \<Rightarrow> string \<Rightarrow> disk \<Rightarrow> fs_error + disk" where
  "fs_rename p p' d =
     (case (find_entry d (names p), find_entry d (names p')) of
        (Inl e, _) \<Rightarrow> Inl e
      | (_, Inl e) \<Rightarrow> Inl e
      | (Inr a, Inr b) \<Rightarrow>
          (case node_at d a of
             None \<Rightarrow> Inl ENOENT
           | Some v \<Rightarrow>
               if a = b then Inr d
               else if subtree a b then Inl EINVAL
               else if subtree b a then Inl ENOTEMPTY
               else
                 (case node_at d b of
                    None \<Rightarrow> Inr (move_tree a b d)
                  | Some Directory \<Rightarrow>
                      if v \<noteq> Directory then Inl EISDIR
                      else if children d b \<noteq> [] then Inl ENOTEMPTY
                      else Inr (move_tree a b d)
                  | Some _ \<Rightarrow> if v = Directory then Inl ENOTDIR else Inr (move_tree a b d))))"

text \<open>\<open>rm(p, \{ recursive: true, force: true \})\<close>: a path that is not there is no error.\<close>

definition fs_rm :: "string \<Rightarrow> disk \<Rightarrow> fs_error + disk" where
  "fs_rm p d =
     (case find_entry d (names p) of
        Inl ENOENT \<Rightarrow> Inr d
      | Inl e \<Rightarrow> Inl e
      | Inr q \<Rightarrow> Inr (remove_tree q d))"

end
