(* ===== verification/ScopedFs.thy ===== *)
theory ScopedFs
  imports FileSystem
begin

text \<open>
  \<open>workspace/scoped-fs.ts\<close>: file operations under a base directory. A path of the user is made absolute by
  its text and must stay under the base; what it leads to must be under the base too, if it exists.
\<close>

definition http_error :: "int \<Rightarrow> string \<Rightarrow> thrown" where
  "http_error status message = ThrownError (ErrorObj message None (Some status) None)"

abbreviation invalid_path :: thrown where
  "invalid_path \<equiv> http_error 400 ''Invalid path''"

type_synonym 'a file_op = "(disk, 'a) proc"

text \<open>A call of \<open>fs\<close> that reads, and one that changes the disk.\<close>

definition reading :: "(disk \<Rightarrow> fs_error + 'a) \<Rightarrow> 'a file_op" where
  "reading f d = (case f d of Inl e \<Rightarrow> (Inl (fs_thrown e), d) | Inr x \<Rightarrow> (Inr x, d))"

definition changing :: "(disk \<Rightarrow> fs_error + disk) \<Rightarrow> unit file_op" where
  "changing f d = (case f d of Inl e \<Rightarrow> (Inl (fs_thrown e), d) | Inr d' \<Rightarrow> (Inr (), d'))"

section \<open>The base and the checks\<close>

text \<open>The constructor: a base that exists is replaced by its real path.\<close>

definition scope_base :: "string \<Rightarrow> disk \<Rightarrow> string" where
  "scope_base basePath d = (case realpath_sync basePath d of Inl _ \<Rightarrow> basePath | Inr p \<Rightarrow> p)"

definition under_base :: "string \<Rightarrow> string \<Rightarrow> bool" where
  "under_base base p \<longleftrightarrow> p = base \<or> starts_with p (base @ [slash])"

definition has_control :: "string \<Rightarrow> bool" where
  "has_control p = list_ex (\<lambda>c. (of_char c :: nat) \<le> 31) p"

definition scoped_resolve :: "string \<Rightarrow> string \<Rightarrow> thrown + string" where
  "scoped_resolve base userPath =
     (if has_control userPath then Inl invalid_path
      else
        (let cleaned = dropWhile (\<lambda>c. c = slash) userPath;
             resolved = (if cleaned = [] then base else path_resolve base cleaned)
         in if under_base base resolved then Inr resolved else Inl invalid_path))"

definition validate_resolved :: "string \<Rightarrow> string \<Rightarrow> unit file_op" where
  "validate_resolved base resolved d =
     (if exists_sync resolved d then
        (case realpath_sync resolved d of
           Inl e \<Rightarrow> (Inl (fs_thrown e), d)
         | Inr target \<Rightarrow> if under_base base target then (Inr (), d) else (Inl invalid_path, d))
      else (Inr (), d))"

definition resolve_and_validate :: "string \<Rightarrow> string \<Rightarrow> string file_op" where
  "resolve_and_validate base userPath =
     proc_bind (proc_lift (scoped_resolve base userPath)) (\<lambda>resolved.
       proc_then (validate_resolved base resolved) (proc_return resolved))"

section \<open>The operations\<close>

definition scoped_readdir :: "string \<Rightarrow> string \<Rightarrow> (string \<times> node) list file_op" where
  "scoped_readdir base p = proc_bind (resolve_and_validate base p) (\<lambda>r. reading (fs_readdir r))"

definition scoped_stat :: "string \<Rightarrow> string \<Rightarrow> node file_op" where
  "scoped_stat base p = proc_bind (resolve_and_validate base p) (\<lambda>r. reading (fs_stat r))"

definition scoped_readFile :: "string \<Rightarrow> string \<Rightarrow> string file_op" where
  "scoped_readFile base p = proc_bind (resolve_and_validate base p) (\<lambda>r. reading (fs_readFile r))"

definition scoped_writeFile :: "string \<Rightarrow> string \<Rightarrow> string \<Rightarrow> unit file_op" where
  "scoped_writeFile base p content =
     proc_bind (resolve_and_validate base p) (\<lambda>r.
       proc_then (changing (fs_mkdir (path_dirname r))) (changing (fs_writeFile r content)))"

definition scoped_mkdir :: "string \<Rightarrow> string \<Rightarrow> unit file_op" where
  "scoped_mkdir base p = proc_bind (resolve_and_validate base p) (\<lambda>r. changing (fs_mkdir r))"

definition scoped_rename :: "string \<Rightarrow> string \<Rightarrow> string \<Rightarrow> unit file_op" where
  "scoped_rename base old new =
     proc_bind (resolve_and_validate base old) (\<lambda>a.
     proc_bind (proc_lift (scoped_resolve base new)) (\<lambda>b.
       if \<not> under_base base b then proc_throw invalid_path
       else proc_then (changing (fs_mkdir (path_dirname b))) (changing (fs_rename a b))))"

definition scoped_remove :: "string \<Rightarrow> string \<Rightarrow> unit file_op" where
  "scoped_remove base p =
     proc_bind (resolve_and_validate base p) (\<lambda>r.
       if r = base then proc_throw (http_error 400 ''Cannot delete workspace root'')
       else changing (fs_rm r))"

text \<open>\<open>createReadStream\<close> opens the file when the stream is read; the model reads it.\<close>

definition scoped_read_stream :: "string \<Rightarrow> string \<Rightarrow> string file_op" where
  "scoped_read_stream base p = proc_bind (resolve_and_validate base p) (\<lambda>r. reading (fs_readFile r))"

definition scoped_write_stream :: "string \<Rightarrow> string \<Rightarrow> string \<Rightarrow> unit file_op" where
  "scoped_write_stream base p content =
     proc_bind (resolve_and_validate base p) (\<lambda>r. changing (fs_writeFile r content))"

text \<open>\<open>exists\<close> checks the text of the path only.\<close>

definition scoped_exists :: "string \<Rightarrow> string \<Rightarrow> bool file_op" where
  "scoped_exists base p =
     proc_bind (proc_lift (scoped_resolve base p)) (\<lambda>r d. (Inr (exists_sync r d), d))"

section \<open>Reads stay under the base\<close>

definition rooted :: "string \<Rightarrow> bool" where
  "rooted base \<longleftrightarrow> base = path_text (names base)"

lemma under_names: "under_base base p \<Longrightarrow> prefix (names base) (names p)"
  unfolding under_base_def by (rule names_below)

lemma list_all_butlast: "list_all P xs \<Longrightarrow> list_all P (butlast xs)"
  by (metis append_butlast_last_id butlast.simps(1) list_all_append)

lemma locate_plain:
  "locate d n cur xs = Inr q \<Longrightarrow> list_all plain_name cur \<longrightarrow> list_all plain_name xs \<longrightarrow> list_all plain_name q"
  by (induction rule: locate_induct) (simp_all add: list_all_butlast)

lemma look_plain: "look d p = Inr (q, v) \<Longrightarrow> list_all plain_name q"
  unfolding look_def find_place_def by (auto split: sum.splits option.splits dest!: locate_plain)

lemma look_node: "look d p = Inr (q, v) \<Longrightarrow> node_at d q = Some v"
  unfolding look_def by (auto split: sum.splits option.splits)

text \<open>What passes the checks and is there, is under the base.\<close>

lemma validated_inside:
  assumes "resolve_and_validate base p d = (Inr r, d')" "look d r = Inr (q, v)"
  shows "d' = d \<and> prefix (names base) q"
proof -
  have "validate_resolved base r d = (Inr (), d)" "d' = d"
    using assms(1) by (auto simp: resolve_and_validate_def proc_defs validate_resolved_def split: sum.splits prod.splits if_splits)
  with assms(2) have "under_base base (path_text q)"
    by (auto simp: validate_resolved_def exists_sync_def realpath_sync_def split: if_splits)
  with under_names names_path_text [OF look_plain [OF assms(2)]] \<open>d' = d\<close> show ?thesis by metis
qed

lemma resolve_and_validate_frame: "snd (resolve_and_validate base p d) = d"
  by (auto simp: resolve_and_validate_def proc_defs validate_resolved_def split: sum.splits prod.splits)

lemma reading_inside:
  assumes "proc_bind (resolve_and_validate base p) (\<lambda>r. reading (f r)) d = (Inr x, d')"
    and f: "\<And>r e. look d r = Inl e \<Longrightarrow> f r d = Inl e" "\<And>r q v. look d r = Inr (q, v) \<Longrightarrow> f r d = g q v"
  obtains q v where "d' = d" "prefix (names base) q" "node_at d q = Some v" "g q v = Inr x"
proof -
  obtain r where r: "resolve_and_validate base p d = (Inr r, d)" and x: "reading (f r) d = (Inr x, d')"
    using assms(1) resolve_and_validate_frame [of base p d]
    by (auto simp: proc_bind_def split: prod.splits sum.splits)
  from x have x': "f r d = Inr x" "d' = d" by (auto simp: reading_def split: sum.splits)
  then obtain qv where "look d r = Inr qv" using f(1) by (cases "look d r") auto
  then obtain q v where l: "look d r = Inr (q, v)" by (cases qv) simp
  with x' f(2) have "g q v = Inr x" by simp
  with that x' validated_inside [OF r l] look_node [OF l] show thesis by blast
qed

lemma readFile_inside:
  assumes "scoped_readFile base p d = (Inr c, d')"
  shows "d' = d \<and> (\<exists>q. prefix (names base) q \<and> node_at d q = Some (Regular c))"
proof -
  let ?g = "\<lambda>q v. case v of Regular c \<Rightarrow> Inr c | _ \<Rightarrow> Inl EISDIR"
  obtain q v where "d' = d" "prefix (names base) q" "node_at d q = Some v" "?g q v = Inr c"
    by (rule reading_inside [OF assms [unfolded scoped_readFile_def], of ?g])
       (simp_all add: fs_readFile_def split: node.splits)
  then show ?thesis by (cases v) auto
qed

end
