(* ===== verification/ScopedProps.thy ===== *)
theory ScopedProps
  imports ScopedFs
begin

text \<open>
  Whatever a user asks of a \<open>ScopedFs\<close>, the disk changes under its base only, as long as the links under
  the base lead back into it. \<open>scope_ok\<close> states that of a disk, \<open>keeps_scope\<close> is the relation every
  operation obeys.
\<close>

section \<open>A base whose links stay inside\<close>

definition tame :: "place \<Rightarrow> string \<Rightarrow> bool" where
  "tame b t \<longleftrightarrow> ''..'' \<notin> set (names t) \<and> (is_absolute t \<longrightarrow> prefix b (names t))"

definition scope_ok :: "place \<Rightarrow> disk \<Rightarrow> bool" where
  "scope_ok b d \<longleftrightarrow> dotless b \<and> list_all plain_name b \<and>
     (\<forall>p \<in> set (prefixes b). node_at d p = Some Directory) \<and>
     (\<forall>(q, v) \<in> set d. case v of Link t \<Rightarrow> prefix b q \<longrightarrow> tame b t | _ \<Rightarrow> True)"

lemma scope_dir: "scope_ok b d \<Longrightarrow> prefix p b \<Longrightarrow> node_at d p = Some Directory"
  by (simp add: scope_ok_def)

lemma scope_link: "scope_ok b d \<Longrightarrow> node_at d q = Some (Link t) \<Longrightarrow> prefix b q \<Longrightarrow> tame b t"
  by (auto simp: scope_ok_def node_at_def split: if_splits dest!: map_of_SomeD)

text \<open>A walk that is on its way to the base, or in it, without going up.\<close>

definition heading :: "place \<Rightarrow> place \<Rightarrow> string list \<Rightarrow> bool" where
  "heading b cur xs \<longleftrightarrow> ''..'' \<notin> set xs \<and> (prefix b cur \<or> (\<exists>m r. b = cur @ m \<and> xs = m @ r))"

lemma heading_next:
  assumes "scope_ok b d" "heading b cur (x # xs)"
  shows "heading b (cur @ [x]) xs" "prefix b cur \<or> node_at d (cur @ [x]) = Some Directory" "x = ''.'' \<Longrightarrow> prefix b cur"
proof -
  have "prefix b cur \<or> (\<exists>m r. b = cur @ x # m \<and> xs = m @ r)"
    using assms(2) by (auto simp: heading_def Cons_eq_append_conv)
  with assms show "heading b (cur @ [x]) xs" "prefix b cur \<or> node_at d (cur @ [x]) = Some Directory" "x = ''.'' \<Longrightarrow> prefix b cur"
    by (auto simp: heading_def scope_ok_def dotless_def)
qed

lemma locate_heads:
  "locate d n cur xs = Inr q \<Longrightarrow> scope_ok b d \<longrightarrow> heading b cur xs \<longrightarrow>
   prefix b q \<and> ((\<forall>t. node_at d cur \<noteq> Some (Link t)) \<longrightarrow> (\<forall>t. node_at d q \<noteq> Some (Link t)))"
proof (induction rule: locate_induct)
  case (stop n)
  then show ?case by (auto simp: heading_def)
next
  case (dot n cur xs)
  show ?case
  proof (intro impI)
    assume ok: "scope_ok b d" and h: "heading b cur (''.'' # xs)"
    from heading_next(3) [OF ok h] h have "heading b cur xs" by (simp add: heading_def)
    with dot ok show "prefix b q \<and> ((\<forall>t. node_at d cur \<noteq> Some (Link t)) \<longrightarrow> (\<forall>t. node_at d q \<noteq> Some (Link t)))" by blast
  qed
next
  case (up n cur xs)
  then show ?case by (simp add: heading_def)
next
  case (missing n cur x)
  then show ?case using heading_next(2) by (metis option.distinct(1) prefix_snoc)
next
  case (link n cur x xs t)
  show ?case
  proof (intro impI)
    assume ok: "scope_ok b d" and h: "heading b cur (x # xs)"
    from heading_next(2) [OF ok h] link(4) have "prefix b cur" by simp
    then have "tame b t" using scope_link [OF ok link(4)] by simp
    with \<open>prefix b cur\<close> h have "heading b (if is_absolute t then [] else cur) (names t @ xs)"
      by (auto simp: heading_def tame_def prefix_def)
    moreover have "node_at d (if is_absolute t then [] else cur) = Some Directory"
      using link(1) by (auto simp: node_at_def split: if_splits)
    ultimately show "prefix b q \<and> ((\<forall>t. node_at d cur \<noteq> Some (Link t)) \<longrightarrow> (\<forall>t. node_at d q \<noteq> Some (Link t)))"
      using link(5) ok by simp
  qed
next
  case (down n cur x xs v)
  then show ?case using heading_next(1) by fastforce
qed

lemma locate_confined: "locate d n cur xs = Inr q \<Longrightarrow> scope_ok b d \<Longrightarrow> heading b cur xs \<Longrightarrow> prefix b q"
  using locate_heads by blast

lemma heading_root: "dotless ns \<Longrightarrow> prefix b ns \<Longrightarrow> heading b [] ns"
  by (auto simp: heading_def dotless_def prefix_def)

lemma find_place_confined:
  "find_place d p = Inr q \<Longrightarrow> scope_ok b d \<Longrightarrow> dotless (names p) \<Longrightarrow> prefix b (names p) \<Longrightarrow> prefix b q"
  unfolding find_place_def using locate_confined heading_root by blast

text \<open>Directories are found where they are.\<close>

lemma locate_directories:
  "(\<And>p. prefix p (cur @ xs) \<Longrightarrow> node_at d p = Some Directory) \<Longrightarrow> dotless xs \<Longrightarrow> locate d n cur xs = Inr (cur @ xs)"
proof (induction xs arbitrary: cur)
  case (Cons x xs)
  have "node_at d cur = Some Directory" "node_at d (cur @ [x]) = Some Directory"
    using Cons.prems(1) [of cur] Cons.prems(1) [of "cur @ [x]"] by simp_all
  moreover have "locate d n (cur @ [x]) xs = Inr ((cur @ [x]) @ xs)"
    using Cons by (intro Cons.IH) (simp_all add: dotless_def)
  ultimately show ?case using Cons.prems(2) by (auto simp: locate.simps(2) dotless_def)
qed simp

lemma dotless_prefix: "dotless ns \<Longrightarrow> prefix ms ns \<Longrightarrow> dotless ms"
  by (auto simp: dotless_def prefix_def)

lemma find_entry_base:
  assumes "scope_ok b d" "prefix ns b"
  shows "find_entry d ns = Inr ns"
proof (cases ns rule: rev_cases)
  case (snoc ms x)
  from assms snoc have "prefix ms b" "dotless b" by (auto simp: scope_ok_def dest: append_prefixD)
  moreover have "locate d max_links [] ms = Inr ([] @ ms)"
    using assms \<open>prefix ms b\<close> \<open>dotless b\<close>
    by (intro locate_directories) (auto intro: scope_dir dotless_prefix prefix_order.trans)
  ultimately show ?thesis using snoc assms(1) scope_dir by (simp add: find_entry_def)
qed (simp add: find_entry_def)

lemma find_entry_confined:
  assumes "find_entry d ns = Inr q" "scope_ok b d" "dotless ns" "prefix b ns" "ns \<noteq> b"
  shows "prefix b q \<and> q \<noteq> b"
proof (cases ns rule: rev_cases)
  case Nil
  with assms show ?thesis by simp
next
  case (snoc ms x)
  with assms(4,5) have "prefix b ms" by (auto simp: prefix_snoc)
  moreover from assms(1) snoc obtain c where "locate d max_links [] ms = Inr c" "q = c @ [x]"
    by (auto simp: find_entry_def split: sum.splits option.splits node.splits)
  moreover have "dotless ms" using assms(3) snoc by (simp add: dotless_def)
  ultimately have "prefix b c" using locate_confined assms(2) heading_root by blast
  with \<open>q = c @ [x]\<close> show ?thesis by (auto simp: prefix_def)
qed

section \<open>Changes under the base\<close>

definition outside_of :: "place \<Rightarrow> disk \<Rightarrow> disk" where
  "outside_of b d = filter (\<lambda>(q, _). \<not> prefix b q) d"

definition keeps_scope :: "place \<Rightarrow> disk \<Rightarrow> disk \<Rightarrow> bool" where
  "keeps_scope b d d' \<longleftrightarrow> (scope_ok b d \<longrightarrow> scope_ok b d' \<and> outside_of b d' = outside_of b d)"

interpretation scoped: evolution "keeps_scope b" for b
  by unfold_locales (auto simp: keeps_scope_def)

lemma map_of_filter_key: "map_of (filter (\<lambda>(p, _). P p) d) q = (if P q then map_of d q else None)"
  by (induction d) auto

lemma outside_node: "outside_of b d' = outside_of b d \<Longrightarrow> \<not> prefix b q \<Longrightarrow> node_at d' q = node_at d q"
  using map_of_filter_key [of "\<lambda>q. \<not> prefix b q" d' q] map_of_filter_key [of "\<lambda>q. \<not> prefix b q" d q]
  by (simp add: outside_of_def node_at_def)

text \<open>It is enough to look at the base itself, at what is outside, and at the links that are there now.\<close>

lemma keeps_scopeI:
  assumes "scope_ok b d \<Longrightarrow> outside_of b d' = outside_of b d" "scope_ok b d \<Longrightarrow> node_at d' b = Some Directory"
    and "\<And>q t. scope_ok b d \<Longrightarrow> (q, Link t) \<in> set d' \<Longrightarrow> prefix b q \<Longrightarrow> \<exists>q'. prefix b q' \<and> (q', Link t) \<in> set d"
  shows "keeps_scope b d d'"
  unfolding keeps_scope_def
proof (intro impI conjI)
  assume ok: "scope_ok b d"
  then show out: "outside_of b d' = outside_of b d" by (rule assms(1))
  have "node_at d' p = Some Directory" if "prefix p b" for p
  proof (cases "p = b")
    case False
    with that have "\<not> prefix b p" using prefix_order.antisym by blast
    from outside_node [OF out this] scope_dir [OF ok that] show ?thesis by simp
  qed (simp add: assms(2) [OF ok])
  moreover have "tame b t" if "(q, Link t) \<in> set d'" "prefix b q" for q t
    using assms(3) [OF ok that] ok by (fastforce simp: scope_ok_def)
  ultimately show "scope_ok b d'"
    using ok by (auto simp: scope_ok_def split: node.splits)
qed

lemma filter_upd_assoc: "\<not> P q \<Longrightarrow> filter (\<lambda>(k, _). P k) (upd_assoc q v d) = filter (\<lambda>(k, _). P k) d"
  by (induction d) auto

lemma keeps_update:
  assumes "prefix b q" "q \<noteq> b" "\<And>t. v \<noteq> Link t"
  shows "keeps_scope b d (upd_assoc q v d)"
proof (rule keeps_scopeI)
  show "outside_of b (upd_assoc q v d) = outside_of b d"
    unfolding outside_of_def using assms(1) by (intro filter_upd_assoc) simp
  show "node_at (upd_assoc q v d) b = Some Directory" if "scope_ok b d"
    using scope_dir [OF that, of b] assms(2) by (auto simp: node_at_def split: if_splits)
  show "\<exists>q'. prefix b q' \<and> (q', Link t) \<in> set d" if "(p, Link t) \<in> set (upd_assoc q v d)" "prefix b p" for p t
    using that assms(3) [of t] set_upd_assoc_subset [of q v d] by auto
qed

lemma keeps_remove_tree:
  assumes "prefix b q" "q \<noteq> b"
  shows "keeps_scope b d (remove_tree q d)"
proof (rule keeps_scopeI)
  have "\<not> prefix b p \<Longrightarrow> \<not> prefix q p" for p using assms(1) prefix_order.trans by blast
  then show "outside_of b (remove_tree q d) = outside_of b d"
    unfolding outside_of_def remove_tree_def subtree_def filter_filter by (intro filter_cong) auto
  have "\<not> prefix q b" using assms prefix_order.antisym by blast
  with scope_dir [of b d b] show "scope_ok b d \<Longrightarrow> node_at (remove_tree q d) b = Some Directory"
    by (auto simp: node_at_def remove_tree_def subtree_def map_of_filter_key split: if_splits)
qed (auto simp: remove_tree_def)

lemma outside_moved:
  assumes "prefix b a" "prefix b c"
  shows "outside_of b (move_tree a c d) = outside_of b d"
proof -
  have "\<not> prefix b p \<Longrightarrow> \<not> prefix a p \<and> \<not> prefix c p" for p using assms prefix_order.trans by blast
  moreover have "prefix b (c @ r)" for r using assms(2) by (rule prefix_prefix)
  ultimately show ?thesis
    by (induction d) (auto simp: outside_of_def move_tree_def remove_tree_def subtree_def split: if_splits)
qed

lemma map_of_move_tree:
  "\<not> prefix a p \<Longrightarrow> \<not> prefix c p \<Longrightarrow> map_of (move_tree a c d) p = map_of d p"
  by (induction d) (auto simp: move_tree_def remove_tree_def subtree_def)

lemma keeps_move_tree:
  assumes "prefix b a" "a \<noteq> b" "prefix b c" "c \<noteq> b"
  shows "keeps_scope b d (move_tree a c d)"
proof (rule keeps_scopeI)
  show "outside_of b (move_tree a c d) = outside_of b d" by (rule outside_moved [OF assms(1,3)])
  have "\<not> prefix a b" "\<not> prefix c b" using assms prefix_order.antisym by blast+
  with map_of_move_tree scope_dir [of b d b] show "scope_ok b d \<Longrightarrow> node_at (move_tree a c d) b = Some Directory"
    by (auto simp: node_at_def split: if_splits)
  show "\<exists>q'. prefix b q' \<and> (q', Link t) \<in> set d" if "(p, Link t) \<in> set (move_tree a c d)" "prefix b p" for p t
  proof -
    from that(1) obtain p' where "(p', Link t) \<in> set d" "p = (if prefix a p' then c @ drop (length a) p' else p')"
      by (auto simp: move_tree_def remove_tree_def subtree_def split: if_splits)
    with assms(1) that(2) show ?thesis by (auto split: if_splits intro: prefix_order.trans)
  qed
qed

section \<open>The calls of the file system\<close>

lemma keeps_same: "keeps_scope b d d"
  by (rule scoped.stay)

lemma writeFile_keeps:
  assumes "dotless (names p)" "prefix b (names p)" "fs_writeFile p c d = Inr d'"
  shows "keeps_scope b d d'"
proof (cases "scope_ok b d")
  case True
  from assms(3) obtain q where q: "find_place d p = Inr q" "node_at d q \<noteq> Some Directory" "d' = upd_assoc q (Regular c) d"
    by (auto simp: fs_writeFile_def split: sum.splits if_splits)
  moreover from find_place_confined [OF q(1) True assms(1,2)] have "prefix b q" .
  moreover have "q \<noteq> b" using q(2) scope_dir [OF True, of b] by auto
  ultimately show ?thesis using keeps_update by simp
qed (simp add: keeps_scope_def)

lemma make_dir_keeps:
  assumes "dotless ns" "prefix b ns \<or> prefix ns b" "make_dir d ns e = Inr d'"
  shows "keeps_scope b d d'"
proof (cases "scope_ok b d")
  case True
  from assms(3) obtain q where q: "find_entry d ns = Inr q" "d' = d \<or> node_at d q = None \<and> d' = upd_assoc q Directory d"
    by (auto simp: make_dir_def split: sum.splits option.splits if_splits)
  show ?thesis
  proof (cases "prefix ns b")
    case True
    with q find_entry_base [OF \<open>scope_ok b d\<close> True] scope_dir [OF \<open>scope_ok b d\<close> True] show ?thesis
      by (auto intro: keeps_same)
  next
    case False
    with assms(2) have "prefix b ns" "ns \<noteq> b" by auto
    from find_entry_confined [OF q(1) \<open>scope_ok b d\<close> assms(1) this] q(2) show ?thesis
      by (auto intro: keeps_same keeps_update)
  qed
qed (simp add: keeps_scope_def)

lemma make_dirs_keeps:
  "dotless (ns @ xs) \<Longrightarrow> prefix b (ns @ xs) \<or> prefix (ns @ xs) b \<Longrightarrow> make_dirs d ns xs = Inr d' \<Longrightarrow> keeps_scope b d d'"
proof (induction d ns xs rule: make_dirs.induct)
  case (2 d ns x xs)
  from 2(4) obtain d1 where d1: "make_dir d (ns @ [x]) (if xs = [] then EEXIST else ENOTDIR) = Inr d1" "make_dirs d1 (ns @ [x]) xs = Inr d'"
    by (auto split: sum.splits)
  have "prefix (ns @ [x]) (ns @ x # xs)" by simp
  with 2(3) have "prefix b (ns @ [x]) \<or> prefix (ns @ [x]) b"
    using prefix_same_cases prefix_order.trans by metis
  moreover have "dotless (ns @ [x])" using 2(2) by (simp add: dotless_def)
  ultimately have "keeps_scope b d d1" using make_dir_keeps d1(1) by blast
  moreover have "keeps_scope b d1 d'" using 2 d1 by simp
  ultimately show ?case by (rule scoped.chain)
qed (simp add: keeps_same)

lemma mkdir_keeps:
  "dotless (names p) \<Longrightarrow> prefix b (names p) \<or> prefix (names p) b \<Longrightarrow> fs_mkdir p d = Inr d' \<Longrightarrow> keeps_scope b d d'"
  unfolding fs_mkdir_def by (rule make_dirs_keeps [of "[]", simplified])

lemma rm_keeps:
  assumes "dotless (names p)" "prefix b (names p)" "names p \<noteq> b" "fs_rm p d = Inr d'"
  shows "keeps_scope b d d'"
proof (cases "scope_ok b d")
  case True
  from assms(4) have "d' = d \<or> (\<exists>q. find_entry d (names p) = Inr q \<and> d' = remove_tree q d)"
    by (auto simp: fs_rm_def split: sum.splits fs_error.splits)
  with find_entry_confined [OF _ True assms(1-3)] show ?thesis by (auto intro: keeps_same keeps_remove_tree)
qed (simp add: keeps_scope_def)

lemma rename_keeps:
  assumes "dotless (names p)" "prefix b (names p)" "dotless (names p')" "prefix b (names p')" "fs_rename p p' d = Inr d'"
  shows "keeps_scope b d d'"
proof (cases "scope_ok b d")
  case True
  from assms(5) obtain a c where ac: "find_entry d (names p) = Inr a" "find_entry d (names p') = Inr c"
      "d' = d \<or> \<not> prefix a c \<and> \<not> prefix c a \<and> d' = move_tree a c d"
    by (auto simp: fs_rename_def subtree_def split: sum.splits option.splits node.splits if_splits)
  have entry: "prefix b q" "q = b \<longleftrightarrow> ns = b" if "find_entry d ns = Inr q" "dotless ns" "prefix b ns" for ns q
    using find_entry_confined [OF that(1) True that(2,3)] find_entry_base [OF True, of ns] that by (cases "ns = b"; auto)+
  have "prefix b a" "prefix b c" using entry(1) ac assms by blast+
  with ac(3) show ?thesis
    using keeps_move_tree [of b a c d] by (auto intro: keeps_same)
qed (simp add: keeps_scope_def)

section \<open>The operations of \<open>ScopedFs\<close>\<close>

lemma changing_obeys: "(\<And>d d'. f d = Inr d' \<Longrightarrow> R d d') \<Longrightarrow> (\<And>d. R d d) \<Longrightarrow> obeys R (changing f)"
  by (auto simp: obeys_def changing_def split: sum.splits)

lemma reading_obeys: "(\<And>d. R d d) \<Longrightarrow> obeys R (reading f)"
  by (auto simp: obeys_def reading_def split: sum.splits)

text \<open>A base as the constructor leaves it, at a place.\<close>

definition base_at :: "string \<Rightarrow> place \<Rightarrow> bool" where
  "base_at base b \<longleftrightarrow> base = path_text b \<and> list_all plain_name b \<and> dotless b"

lemma resolve_names:
  assumes "base_at base b" "scoped_resolve base p = Inr r"
  shows "dotless (names r)" "prefix b (names r)" "names r = b \<longrightarrow> r = base"
proof -
  have b: "names base = b" using assms(1) by (simp add: base_at_def names_path_text)
  from assms(2) have u: "under_base base r" and r: "r = base \<or> (\<exists>q. r = path_resolve base q)"
    by (auto simp: scoped_resolve_def Let_def split: if_splits)
  from r assms(1) b show "dotless (names r)" by (auto simp: base_at_def)
  from under_names [OF u] b show "prefix b (names r)" by simp
  from r assms(1) show "names r = b \<longrightarrow> r = base"
    by (metis base_at_def path_text_resolve)
qed

lemma validate_keeps: "obeys (keeps_scope b) (validate_resolved base r)"
  by (auto simp: obeys_def validate_resolved_def keeps_same split: sum.splits)

text \<open>An operation on a checked path.\<close>

lemma checked_obeys:
  assumes "base_at base b"
    and "\<And>r. dotless (names r) \<Longrightarrow> prefix b (names r) \<Longrightarrow> (names r = b \<longrightarrow> r = base) \<Longrightarrow> obeys (keeps_scope b) (f r)"
  shows "obeys (keeps_scope b) (proc_bind (resolve_and_validate base p) f)"
    and "obeys (keeps_scope b) (proc_bind (proc_lift (scoped_resolve base p)) f)"
proof -
  have lifted: "obeys (keeps_scope b) (proc_bind (proc_lift (scoped_resolve base p)) f)"
    if "\<And>r. dotless (names r) \<Longrightarrow> prefix b (names r) \<Longrightarrow> (names r = b \<longrightarrow> r = base) \<Longrightarrow> obeys (keeps_scope b) (f r)" for f
    using that resolve_names [OF assms(1)]
    by (cases "scoped_resolve base p") (auto simp: obeys_def proc_defs keeps_same)
  from lifted assms(2) show "obeys (keeps_scope b) (proc_bind (proc_lift (scoped_resolve base p)) f)" by blast
  show "obeys (keeps_scope b) (proc_bind (resolve_and_validate base p) f)"
    unfolding resolve_and_validate_def proc_then_def proc_bind_assoc
    by (rule lifted) (simp, rule scoped.obeys_bind [OF validate_keeps assms(2)])
qed

lemma parent_heads:
  assumes "prefix b ns"
  shows "prefix b (butlast ns) \<or> prefix (butlast ns) b"
  using assms by (cases ns rule: rev_cases) (auto simp: prefix_snoc)

lemma dirname_keeps:
  assumes "dotless (names r)" "prefix b (names r)"
  shows "obeys (keeps_scope b) (changing (fs_mkdir (path_dirname r)))"
proof (rule changing_obeys [OF mkdir_keeps])
  have n: "names (path_dirname r) = butlast (names r)"
    unfolding path_dirname_def by (rule names_path_text) (simp add: list_all_butlast)
  show "dotless (names (path_dirname r))" using assms(1) by (auto simp: n dotless_def dest: in_set_butlastD)
  show "prefix b (names (path_dirname r)) \<or> prefix (names (path_dirname r)) b"
    unfolding n by (rule parent_heads [OF assms(2)])
qed (auto intro: keeps_same)

lemmas scoped_rules = scoped.obeys_rules changing_obeys [OF writeFile_keeps] changing_obeys [OF mkdir_keeps]
  changing_obeys [OF rename_keeps] dirname_keeps

lemma scoped_ops_keep:
  assumes "base_at base b"
  shows "obeys (keeps_scope b) (scoped_writeFile base p c)" "obeys (keeps_scope b) (scoped_mkdir base p)"
    "obeys (keeps_scope b) (scoped_rename base p p')" "obeys (keeps_scope b) (scoped_remove base p)"
    "obeys (keeps_scope b) (scoped_write_stream base p c)"
proof -
  show "obeys (keeps_scope b) (scoped_writeFile base p c)"
    unfolding scoped_writeFile_def
    by (intro checked_obeys [OF assms] scoped.obeys_then dirname_keeps changing_obeys [OF writeFile_keeps]) (auto intro: keeps_same)
  show "obeys (keeps_scope b) (scoped_mkdir base p)"
    unfolding scoped_mkdir_def
    by (intro checked_obeys [OF assms] changing_obeys [OF mkdir_keeps]) (auto intro: keeps_same)
  show "obeys (keeps_scope b) (scoped_rename base p p')"
    unfolding scoped_rename_def
    by (intro checked_obeys [OF assms] scoped.obeys_if scoped.obeys_throw scoped.obeys_then dirname_keeps
        changing_obeys [OF rename_keeps]) (auto intro: keeps_same)
  show "obeys (keeps_scope b) (scoped_remove base p)"
    unfolding scoped_remove_def
    by (intro checked_obeys [OF assms] scoped.obeys_if scoped.obeys_throw changing_obeys [OF rm_keeps]) (auto intro: keeps_same)
  show "obeys (keeps_scope b) (scoped_write_stream base p c)"
    unfolding scoped_write_stream_def
    by (intro checked_obeys [OF assms] changing_obeys [OF writeFile_keeps]) (auto intro: keeps_same)
qed

lemma scoped_reads_keep:
  "keeps (\<lambda>d. d) (resolve_and_validate base p)" "keeps (\<lambda>d. d) (scoped_readdir base p)" "keeps (\<lambda>d. d) (scoped_stat base p)"
  "keeps (\<lambda>d. d) (scoped_readFile base p)" "keeps (\<lambda>d. d) (scoped_read_stream base p)" "keeps (\<lambda>d. d) (scoped_exists base p)"
proof -
  show check: "keeps (\<lambda>d. d) (resolve_and_validate base p)"
    by (simp add: obeys_def resolve_and_validate_frame)
  show "keeps (\<lambda>d. d) (scoped_readdir base p)" "keeps (\<lambda>d. d) (scoped_stat base p)"
    "keeps (\<lambda>d. d) (scoped_readFile base p)" "keeps (\<lambda>d. d) (scoped_read_stream base p)"
    unfolding scoped_readdir_def scoped_stat_def scoped_readFile_def scoped_read_stream_def
    by (intro steady.obeys_bind check reading_obeys; simp)+
  show "keeps (\<lambda>d. d) (scoped_exists base p)"
    by (auto simp: obeys_def scoped_exists_def proc_defs split: sum.splits)
qed

end
