(* ===== verification/Workspace.thy ===== *)
theory Workspace
  imports ScopedProps
begin

text \<open>
  \<open>workspace/workspace.service.ts\<close> and \<open>engine/workspace-resolver.ts\<close>: the files of a user's workspace as
  the web interface lists, reads, writes, renames, moves, deletes and uploads them, over \<open>ScopedFs\<close>. The
  user agents, the environment variables, the modification times and the collation of names are
  fields of an environment.
\<close>

section \<open>File types\<close>

datatype file_type =
    FCode | FMarkdown | FJson | FText | FImage | FVideo | FAudio | FPdf | FArchive | FUnknown | FDirectory

definition file_type_map :: "(string \<times> file_type) list" where
  "file_type_map =
     map (\<lambda>e. (e, FCode))
       [''.ts'', ''.tsx'', ''.js'', ''.jsx'', ''.py'', ''.go'', ''.rs'', ''.java'', ''.c'', ''.cpp'', ''.h'', ''.css'', ''.scss'',
        ''.html'', ''.vue'', ''.svelte'', ''.sh'', ''.bash'', ''.zsh'', ''.sql'', ''.yaml'', ''.yml'', ''.toml'', ''.xml'', ''.rb'',
        ''.php'', ''.swift'', ''.kt'', ''.dockerfile''] @
     map (\<lambda>e. (e, FMarkdown)) [''.md'', ''.mdx''] @
     map (\<lambda>e. (e, FJson)) [''.json'', ''.jsonc'', ''.json5''] @
     map (\<lambda>e. (e, FText)) [''.txt'', ''.log'', ''.env'', ''.gitignore'', ''.editorconfig'', ''.dockerignore'', ''.csv''] @
     map (\<lambda>e. (e, FImage)) [''.png'', ''.jpg'', ''.jpeg'', ''.gif'', ''.svg'', ''.webp'', ''.ico''] @
     map (\<lambda>e. (e, FVideo)) [''.mp4'', ''.webm'', ''.mov''] @
     map (\<lambda>e. (e, FAudio)) [''.mp3'', ''.wav'', ''.ogg''] @
     [(''.pdf'', FPdf)] @
     map (\<lambda>e. (e, FArchive)) [''.zip'', ''.tar'', ''.gz'', ''.rar'']"

definition binary_types :: "file_type list" where
  "binary_types = [FImage, FVideo, FAudio, FPdf, FArchive]"

definition editable_types :: "file_type list" where
  "editable_types = [FText, FCode, FMarkdown, FJson]"

definition mime_type_map :: "(string \<times> string) list" where
  "mime_type_map =
     [(''.png'', ''image/png''), (''.jpg'', ''image/jpeg''), (''.jpeg'', ''image/jpeg''), (''.gif'', ''image/gif''),
      (''.webp'', ''image/webp''), (''.svg'', ''image/svg+xml''), (''.ico'', ''image/x-icon''), (''.mp4'', ''video/mp4''),
      (''.webm'', ''video/webm''), (''.mov'', ''video/quicktime''), (''.mp3'', ''audio/mpeg''), (''.wav'', ''audio/wav''),
      (''.ogg'', ''audio/ogg''), (''.pdf'', ''application/pdf''), (''.zip'', ''application/zip''),
      (''.tar'', ''application/x-tar''), (''.gz'', ''application/gzip''), (''.rar'', ''application/vnd.rar''),
      (''.json'', ''application/json''), (''.md'', ''text/markdown''), (''.mdx'', ''text/markdown'')]"

definition max_file_size :: nat where
  "max_file_size = 1024 * 1024"

definition detect_file_type :: "string \<Rightarrow> file_type" where
  "detect_file_type filename =
     (case map_of file_type_map (to_lower (path_extname filename)) of None \<Rightarrow> FUnknown | Some t \<Rightarrow> t)"

fun type_name :: "file_type \<Rightarrow> string" where
  "type_name FCode = ''code''"
| "type_name FMarkdown = ''markdown''"
| "type_name FJson = ''json''"
| "type_name FText = ''text''"
| "type_name FImage = ''image''"
| "type_name FVideo = ''video''"
| "type_name FAudio = ''audio''"
| "type_name FPdf = ''pdf''"
| "type_name FArchive = ''archive''"
| "type_name FUnknown = ''unknown''"
| "type_name FDirectory = ''directory''"

section \<open>The environment and the answers\<close>

record workspace_env =
  wk_workspacePath :: "string \<Rightarrow> string option"
  wk_cwd :: string
  wk_basePath :: "string option"
  wk_hostBasePath :: "string option"
  wk_mtime :: "disk \<Rightarrow> string \<Rightarrow> string"
  wk_now :: string
  wk_rank :: "string \<Rightarrow> nat"

record file_entry =
  fe_name :: string
  fe_path :: string
  fe_size :: nat
  fe_modifiedAt :: string
  fe_isDirectory :: bool
  fe_type :: file_type

record directory_listing =
  dl_path :: string
  dl_parent :: "string option"
  dl_entries :: "file_entry list"

record file_content =
  fc_path :: string
  fc_name :: string
  fc_size :: nat
  fc_modifiedAt :: string
  fc_type :: file_type
  fc_content :: "string option"
  fc_truncated :: bool

fun node_size :: "node \<Rightarrow> nat" where
  "node_size (Regular c) = length c"
| "node_size _ = 0"

definition not_found :: "string \<Rightarrow> thrown" where
  "not_found message = http_error 404 message"

definition bad_request :: "string \<Rightarrow> thrown" where
  "bad_request message = http_error 400 message"

definition conflict :: "string \<Rightarrow> thrown" where
  "conflict message = http_error 409 message"

text \<open>\<open>resolveWorkspacePaths\<close>: the path of the API process and the path of the host.\<close>

definition resolve_workspace_paths :: "workspace_env \<Rightarrow> string \<Rightarrow> string \<times> string" where
  "resolve_workspace_paths env rel =
     (let localBase = (case wk_basePath env of None \<Rightarrow> ''./data'' | Some p \<Rightarrow> p);
          hostBase = (case wk_hostBasePath env of None \<Rightarrow> localBase | Some p \<Rightarrow> p)
      in (path_resolve (path_resolve (wk_cwd env) localBase) rel, path_resolve (path_resolve (wk_cwd env) hostBase) rel))"

text \<open>The base of the \<open>ScopedFs\<close> and the path it was made of.\<close>

definition create_scoped_fs :: "workspace_env \<Rightarrow> string \<Rightarrow> (string \<times> string) file_op" where
  "create_scoped_fs env userId =
     (case wk_workspacePath env userId of
        None \<Rightarrow> proc_throw (not_found ''No workspace found for this user'')
      | Some rel \<Rightarrow>
          (let localPath = fst (resolve_workspace_paths env rel) in
           proc_then (changing (fs_mkdir localPath))
             (proc_bind (proc_read (scope_base localPath)) (\<lambda>base. proc_return (base, localPath)))))"

definition relative_to :: "string \<Rightarrow> string \<Rightarrow> string" where
  "relative_to basePath p = slash # path_relative basePath p"

definition lifted_resolve :: "string \<Rightarrow> string \<Rightarrow> string file_op" where
  "lifted_resolve base p = proc_lift (scoped_resolve base p)"

text \<open>\<open>try \{ await sfs.stat(p) \} catch \{ throw new NotFoundException(message) \}\<close>.\<close>

definition stat_or :: "string \<Rightarrow> string \<Rightarrow> string \<Rightarrow> node file_op" where
  "stat_or base p message = proc_catch (scoped_stat base p) (\<lambda>_. proc_throw (not_found message))"

definition modified_at :: "workspace_env \<Rightarrow> string \<Rightarrow> string file_op" where
  "modified_at env p = proc_read (\<lambda>d. wk_mtime env d p)"

definition build_file_entry :: "string \<Rightarrow> string \<Rightarrow> bool \<Rightarrow> nat \<Rightarrow> string \<Rightarrow> file_entry" where
  "build_file_entry name p isDirectory bytes modifiedAt =
     \<lparr>fe_name = name, fe_path = p, fe_size = bytes, fe_modifiedAt = modifiedAt, fe_isDirectory = isDirectory,
      fe_type = (if isDirectory then FDirectory else detect_file_type name)\<rparr>"

section \<open>Listing and reading\<close>

definition list_entry :: "workspace_env \<Rightarrow> string \<Rightarrow> string \<Rightarrow> string \<Rightarrow> string \<times> node \<Rightarrow> disk \<Rightarrow> file_entry" where
  "list_entry env base basePath resolved dirent d =
     (let (name, v) = dirent;
          entryRelative = relative_to basePath (path_join resolved name);
          isDirectory = (v = Directory);
          st = fst (scoped_stat base entryRelative d)
      in build_file_entry name entryRelative isDirectory
           (case st of Inl _ \<Rightarrow> 0 | Inr u \<Rightarrow> if isDirectory then 0 else node_size u)
           (case st of Inl _ \<Rightarrow> wk_now env | Inr _ \<Rightarrow> wk_mtime env d entryRelative))"

text \<open>Directories first, then by name.\<close>

definition sort_entries :: "workspace_env \<Rightarrow> file_entry list \<Rightarrow> file_entry list" where
  "sort_entries env es = sort_key (\<lambda>e. if fe_isDirectory e then 0 else 1 :: nat) (sort_key (wk_rank env \<circ> fe_name) es)"

definition list_directory :: "workspace_env \<Rightarrow> string \<Rightarrow> string \<Rightarrow> directory_listing file_op" where
  "list_directory env userId dirPath =
     proc_bind (create_scoped_fs env userId) (\<lambda>(base, basePath).
     proc_bind (lifted_resolve base dirPath) (\<lambda>resolved.
     proc_bind (stat_or base dirPath ''Directory not found'') (\<lambda>st.
       if st \<noteq> Directory then proc_throw (bad_request ''Path is not a directory'')
       else
         proc_bind (scoped_readdir base dirPath) (\<lambda>dirents.
         proc_bind (proc_read (\<lambda>d. map (\<lambda>e. list_entry env base basePath resolved e d) dirents)) (\<lambda>entries.
           let normalizedPath = relative_to basePath resolved in
           proc_return
             \<lparr>dl_path = normalizedPath,
              dl_parent = (if normalizedPath = [slash] then None else Some (relative_to basePath (path_dirname resolved))),
              dl_entries = sort_entries env entries\<rparr>)))))"

definition read_file :: "workspace_env \<Rightarrow> string \<Rightarrow> string \<Rightarrow> file_content file_op" where
  "read_file env userId filePath =
     proc_bind (create_scoped_fs env userId) (\<lambda>(base, basePath).
     proc_bind (lifted_resolve base filePath) (\<lambda>resolved.
     proc_bind (stat_or base filePath ''File not found'') (\<lambda>st.
     proc_bind (modified_at env filePath) (\<lambda>modified.
       if st = Directory then proc_throw (bad_request ''Path is a directory, not a file'')
       else
         (let name = path_basename resolved;
              type = detect_file_type name;
              result = \<lparr>fc_path = relative_to basePath resolved, fc_name = name, fc_size = node_size st,
                        fc_modifiedAt = modified, fc_type = type, fc_content = None, fc_truncated = False\<rparr>
          in if type \<in> set binary_types then proc_return result
             else if node_size st > max_file_size then proc_return (result\<lparr>fc_truncated := True\<rparr>)
             else proc_bind (scoped_readFile base filePath) (\<lambda>content.
                    proc_return (result\<lparr>fc_content := Some content\<rparr>)))))))"

definition download_file :: "workspace_env \<Rightarrow> string \<Rightarrow> string \<Rightarrow> (string \<times> string \<times> string \<times> nat) file_op" where
  "download_file env userId filePath =
     proc_bind (create_scoped_fs env userId) (\<lambda>(base, _).
     proc_bind (stat_or base filePath ''File not found'') (\<lambda>st.
       if st = Directory then proc_throw (bad_request ''Cannot download a directory'')
       else
         proc_bind (lifted_resolve base filePath) (\<lambda>resolved.
           let filename = path_basename resolved;
               type = detect_file_type filename;
               contentType =
                 (case map_of mime_type_map (to_lower (path_extname filename)) of
                    Some m \<Rightarrow> m
                  | None \<Rightarrow> if type \<in> {FCode, FText} then ''text/plain'' else ''application/octet-stream'')
           in proc_bind (scoped_read_stream base filePath) (\<lambda>content.
                proc_return (content, filename, contentType, node_size st)))))"

definition projector_dir :: string where
  "projector_dir = ''/projector''"

definition projector_index :: "string \<Rightarrow> string" where
  "projector_index name = projector_dir @ [slash] @ name @ ''/index.html''"

fun projector_items :: "string \<Rightarrow> (string \<times> node) list \<Rightarrow> (string \<times> string) list file_op" where
  "projector_items base [] = proc_return []"
| "projector_items base ((name, v) # rest) =
     (if v \<noteq> Directory then projector_items base rest
      else
        proc_bind (scoped_exists base (projector_index name)) (\<lambda>there.
        proc_bind (projector_items base rest) (\<lambda>items.
          proc_return (if there then (name, projector_index name) # items else items))))"

definition list_projector_items :: "workspace_env \<Rightarrow> string \<Rightarrow> (string \<times> string) list file_op" where
  "list_projector_items env userId =
     proc_bind (create_scoped_fs env userId) (\<lambda>(base, _).
     proc_bind (scoped_exists base projector_dir) (\<lambda>there.
       if \<not> there then proc_return []
       else
         proc_bind (scoped_stat base projector_dir) (\<lambda>st.
           if st \<noteq> Directory then proc_return []
           else
             proc_bind (scoped_readdir base projector_dir) (\<lambda>dirents.
             proc_bind (projector_items base dirents) (\<lambda>items.
               proc_return (sort_key (wk_rank env \<circ> fst) items))))))"

definition get_projector_item_html :: "workspace_env \<Rightarrow> string \<Rightarrow> string \<Rightarrow> (string \<times> string) file_op" where
  "get_projector_item_html env userId name =
     proc_bind (create_scoped_fs env userId) (\<lambda>(base, _).
     proc_bind (scoped_exists base (projector_index name)) (\<lambda>there.
       if \<not> there then proc_throw (not_found (''Projector item \"'' @ name @ ''\" not found''))
       else proc_bind (scoped_readFile base (projector_index name)) (\<lambda>html. proc_return (name, html))))"

section \<open>Writing\<close>

definition update_file_content ::
  "workspace_env \<Rightarrow> string \<Rightarrow> string \<Rightarrow> string \<Rightarrow> string \<Rightarrow> bool \<Rightarrow> (string \<times> nat \<times> string) file_op" where
  "update_file_content env userId filePath content expectedModifiedAt force =
     proc_bind (create_scoped_fs env userId) (\<lambda>(base, basePath).
     proc_bind (lifted_resolve base filePath) (\<lambda>resolved.
     proc_bind (stat_or base filePath ''File not found'') (\<lambda>st.
     proc_bind (modified_at env filePath) (\<lambda>current.
       if st = Directory then proc_throw (bad_request ''Path is a directory, not a file'')
       else if \<not> force \<and> current \<noteq> expectedModifiedAt then proc_throw (conflict ''File was modified since last read'')
       else
         (let type = detect_file_type (path_basename resolved) in
          if type \<notin> set editable_types
          then proc_throw (bad_request (''File type \"'' @ type_name type @ ''\" is not editable''))
          else
            proc_then (scoped_writeFile base filePath content)
           (proc_bind (scoped_stat base filePath) (\<lambda>st'.
            proc_bind (modified_at env filePath) (\<lambda>modified.
              proc_return (relative_to basePath resolved, node_size st', modified)))))))))"

datatype entry_kind = NewFile | NewDirectory

definition create_entry :: "workspace_env \<Rightarrow> string \<Rightarrow> string \<Rightarrow> entry_kind \<Rightarrow> file_entry file_op" where
  "create_entry env userId entryPath kind =
     proc_bind (create_scoped_fs env userId) (\<lambda>(base, basePath).
     proc_bind (scoped_exists base entryPath) (\<lambda>there.
       if there then proc_throw (conflict ''Path already exists'')
       else
         proc_then (case kind of NewDirectory \<Rightarrow> scoped_mkdir base entryPath | NewFile \<Rightarrow> scoped_writeFile base entryPath [])
        (proc_bind (scoped_stat base entryPath) (\<lambda>st.
         proc_bind (modified_at env entryPath) (\<lambda>modified.
         proc_bind (lifted_resolve base entryPath) (\<lambda>resolved.
           proc_return (build_file_entry (path_basename resolved) (relative_to basePath resolved) (kind = NewDirectory)
             (if kind = NewDirectory then 0 else node_size st) modified)))))))"

text \<open>The common end of renaming and moving.\<close>

definition rename_to ::
  "workspace_env \<Rightarrow> string \<Rightarrow> string \<Rightarrow> string \<Rightarrow> string \<Rightarrow> string \<Rightarrow> file_entry file_op" where
  "rename_to env base entryPath newRelativePath name taken =
     proc_bind (scoped_exists base newRelativePath) (\<lambda>there.
       if there then proc_throw (conflict taken)
       else
         proc_then (scoped_rename base entryPath newRelativePath)
        (proc_bind (scoped_stat base newRelativePath) (\<lambda>st.
         proc_bind (modified_at env newRelativePath) (\<lambda>modified.
           proc_return (build_file_entry name newRelativePath (st = Directory)
             (if st = Directory then 0 else node_size st) modified)))))"

definition rename_entry :: "workspace_env \<Rightarrow> string \<Rightarrow> string \<Rightarrow> string \<Rightarrow> file_entry file_op" where
  "rename_entry env userId entryPath newName =
     proc_bind (create_scoped_fs env userId) (\<lambda>(base, basePath).
     proc_bind (scoped_exists base entryPath) (\<lambda>there.
       if \<not> there then proc_throw (not_found ''Path not found'')
       else
         proc_bind (lifted_resolve base entryPath) (\<lambda>resolved.
           rename_to env base entryPath (relative_to basePath (path_join (path_dirname resolved) newName)) newName
             (''\"'' @ newName @ ''\" already exists in this directory''))))"

definition is_directory_at :: "string \<Rightarrow> string \<Rightarrow> bool file_op" where
  "is_directory_at base p =
     proc_catch (proc_bind (scoped_stat base p) (\<lambda>st. proc_return (st = Directory))) (\<lambda>_. proc_return False)"

definition move_entry :: "workspace_env \<Rightarrow> string \<Rightarrow> string \<Rightarrow> string \<Rightarrow> file_entry file_op" where
  "move_entry env userId entryPath destination =
     proc_bind (create_scoped_fs env userId) (\<lambda>(base, basePath).
     proc_bind (scoped_exists base entryPath) (\<lambda>there.
       if \<not> there then proc_throw (not_found ''Source path not found'')
       else
         proc_bind (is_directory_at base destination) (\<lambda>dir.
           if \<not> dir then proc_throw (not_found ''Destination directory not found'')
           else
             proc_bind (lifted_resolve base entryPath) (\<lambda>resolved.
             proc_bind (lifted_resolve base destination) (\<lambda>destResolved.
               let name = path_basename resolved in
               rename_to env base entryPath (relative_to basePath (path_join destResolved name)) name
                 (''\"'' @ name @ ''\" already exists at destination''))))))"

definition delete_entry :: "workspace_env \<Rightarrow> string \<Rightarrow> string \<Rightarrow> string file_op" where
  "delete_entry env userId entryPath =
     proc_bind (create_scoped_fs env userId) (\<lambda>(base, basePath).
     proc_bind (scoped_exists base entryPath) (\<lambda>there.
       if \<not> there then proc_throw (not_found ''Path not found'')
       else
         proc_bind (lifted_resolve base entryPath) (\<lambda>resolved.
           proc_then (scoped_remove base entryPath) (proc_return (relative_to basePath resolved)))))"

definition upload_file ::
  "workspace_env \<Rightarrow> string \<Rightarrow> string \<Rightarrow> string \<Rightarrow> string \<Rightarrow> bool \<Rightarrow> string option \<Rightarrow> file_entry file_op" where
  "upload_file env userId dirPath filename data overwrite fileRelativePath =
     proc_bind (create_scoped_fs env userId) (\<lambda>(base, basePath).
     proc_bind (if dirPath \<noteq> [slash] then is_directory_at base dirPath else proc_return True) (\<lambda>dir.
       if \<not> dir then proc_throw (not_found ''Target directory not found'')
       else
         proc_bind (lifted_resolve base dirPath) (\<lambda>resolved.
           let effectiveFilename = (case fileRelativePath of None \<Rightarrow> filename | Some r \<Rightarrow> r);
               relativePath = relative_to basePath (path_join resolved effectiveFilename)
           in
           proc_bind (if overwrite then proc_return False else scoped_exists base relativePath) (\<lambda>taken.
             if taken then proc_throw (conflict (''\"'' @ effectiveFilename @ ''\" already exists''))
             else
               proc_then (scoped_writeFile base relativePath data)
              (proc_bind (scoped_stat base relativePath) (\<lambda>st.
               proc_bind (modified_at env relativePath) (\<lambda>modified.
                 proc_return (build_file_entry (path_basename relativePath) relativePath False (node_size st) modified))))))))"

end
