(* ===== verification/WorkspaceProps.thy ===== *)
theory WorkspaceProps
  imports Workspace
begin

text \<open>
  What the workspace service guarantees: its requests change nothing outside the workspaces of their
  users, what it serves lies in the user's workspace, and what it saved it reads back. And where a link
  left in a workspace defeats it.
\<close>

section \<open>The workspace of a user\<close>

definition local_path :: "workspace_env \<Rightarrow> string \<Rightarrow> string option" where
  "local_path env userId = map_option (\<lambda>rel. fst (resolve_workspace_paths env rel)) (wk_workspacePath env userId)"

definition workspace_place :: "workspace_env \<Rightarrow> string \<Rightarrow> place option" where
  "workspace_place env userId = map_option names (local_path env userId)"

lemma local_path_text:
  assumes "local_path env u = Some p"
  shows "base_at p (names p)"
  using assms path_text_resolve
  by (auto simp: local_path_def resolve_workspace_paths_def base_at_def Let_def)

lemma look_directory:
  assumes "scope_ok b d" "prefix ns b"
  shows "look d (path_text ns) = Inr (ns, Directory)"
proof -
  have "list_all plain_name ns" "dotless ns"
    using assms by (auto simp: scope_ok_def prefix_def dotless_def)
  moreover have "locate d max_links [] ns = Inr ([] @ ns)"
    using assms \<open>dotless ns\<close> by (intro locate_directories) (auto intro: scope_dir prefix_order.trans)
  ultimately show ?thesis
    using scope_dir [OF assms] by (simp add: look_def find_place_def names_path_text)
qed

lemma make_dirs_there:
  "scope_ok b d \<Longrightarrow> prefix (ns @ xs) b \<Longrightarrow> make_dirs d ns xs = Inr d"
proof (induction xs arbitrary: ns)
  case (Cons x xs)
  then have p: "prefix (ns @ [x]) b" "prefix ((ns @ [x]) @ xs) b" by (auto simp: prefix_def)
  have "make_dir d (ns @ [x]) e = Inr d" for e
    using find_entry_base [OF Cons.prems(1) p(1)] look_directory [OF Cons.prems(1) p(1)] scope_dir [OF Cons.prems(1) p(1)]
    by (simp add: make_dir_def)
  with Cons.IH [OF Cons.prems(1) p(2)] show ?case by simp
qed simp

text \<open>A workspace that is there is its own base, and opening it changes nothing.\<close>

lemma create_scoped_there:
  assumes "local_path env u = Some p" "scope_ok (names p) d"
  shows "create_scoped_fs env u d = (Inr (p, p), d)"
proof -
  obtain rel where rel: "wk_workspacePath env u = Some rel" "p = fst (resolve_workspace_paths env rel)"
    using assms(1) by (auto simp: local_path_def)
  have "p = path_text (names p)" using local_path_text [OF assms(1)] by (simp add: base_at_def)
  with look_directory [OF assms(2) prefix_order.order_refl] have "look d p = Inr (names p, Directory)" by simp
  with \<open>p = path_text (names p)\<close> have "scope_base p d = p" by (simp add: scope_base_def realpath_sync_def)
  moreover have "fs_mkdir p d = Inr d"
    unfolding fs_mkdir_def using assms(2) by (intro make_dirs_there [of "names p"]) auto
  ultimately show ?thesis
    using rel by (simp add: create_scoped_fs_def Let_def proc_defs changing_def)
qed

lemma create_scoped_unknown:
  "local_path env u = None \<Longrightarrow> create_scoped_fs env u d = (Inl (not_found ''No workspace found for this user''), d)"
  by (simp add: local_path_def create_scoped_fs_def proc_throw_def)

lemma opened_keeps:
  assumes "local_path env u = Some p" "obeys (keeps_scope (names p)) (f (p, p))"
  shows "obeys (keeps_scope (names p)) (proc_bind (create_scoped_fs env u) f)"
  unfolding obeys_def
proof
  fix d
  show "keeps_scope (names p) d (snd (proc_bind (create_scoped_fs env u) f d))"
  proof (cases "scope_ok (names p) d")
    case True
    with create_scoped_there [OF assms(1) True] assms(2) show ?thesis by (simp add: proc_bind_def obeys_def)
  qed (simp add: keeps_scope_def)
qed

section \<open>Changes stay inside\<close>

lemma same_keeps: "keeps (\<lambda>d. d) f \<Longrightarrow> obeys (keeps_scope b) f"
  by (simp add: obeys_def keeps_same)

lemma reading_parts:
  "obeys (keeps_scope b) (lifted_resolve base p)" "obeys (keeps_scope b) (modified_at env p)"
  "obeys (keeps_scope b) (proc_read g)" "obeys (keeps_scope b) (scoped_exists base p)"
  "obeys (keeps_scope b) (scoped_stat base p)" "obeys (keeps_scope b) (scoped_readdir base p)"
  "obeys (keeps_scope b) (scoped_readFile base p)" "obeys (keeps_scope b) (scoped_read_stream base p)"
  by (simp_all add: same_keeps scoped_reads_keep)
     (simp_all add: obeys_def lifted_resolve_def modified_at_def proc_defs keeps_same)

lemma reading_helpers:
  "obeys (keeps_scope b) (stat_or base p m)" "obeys (keeps_scope b) (is_directory_at base p)"
  "obeys (keeps_scope b) (projector_items base ds)"
proof -
  show "obeys (keeps_scope b) (stat_or base p m)" "obeys (keeps_scope b) (is_directory_at base p)"
    unfolding stat_or_def is_directory_at_def by (intro scoped.obeys_rules reading_parts)+
  show "obeys (keeps_scope b) (projector_items base ds)"
  proof (induction ds)
    case (Cons d ds)
    then show ?case by (cases d) (auto intro!: scoped.obeys_rules reading_parts)
  qed (simp add: scoped.obeys_rules)
qed

lemmas keep_intros = scoped.obeys_return scoped.obeys_throw scoped.obeys_bind scoped.obeys_then scoped.obeys_if
  scoped_ops_keep reading_parts reading_helpers

datatype workspace_request =
    ListDirectory string
  | ReadFile string
  | DownloadFile string
  | ListProjector
  | GetProjector string
  | UpdateContent string string string bool
  | CreateEntry string entry_kind
  | RenameEntry string string
  | MoveEntry string string
  | DeleteEntry string
  | UploadFile string string string bool "string option"

fun handle_request :: "workspace_env \<Rightarrow> string \<Rightarrow> workspace_request \<Rightarrow> unit file_op" where
  "handle_request env u (ListDirectory p) = proc_then (list_directory env u p) (proc_return ())"
| "handle_request env u (ReadFile p) = proc_then (read_file env u p) (proc_return ())"
| "handle_request env u (DownloadFile p) = proc_then (download_file env u p) (proc_return ())"
| "handle_request env u ListProjector = proc_then (list_projector_items env u) (proc_return ())"
| "handle_request env u (GetProjector n) = proc_then (get_projector_item_html env u n) (proc_return ())"
| "handle_request env u (UpdateContent p c t f) = proc_then (update_file_content env u p c t f) (proc_return ())"
| "handle_request env u (CreateEntry p k) = proc_then (create_entry env u p k) (proc_return ())"
| "handle_request env u (RenameEntry p n) = proc_then (rename_entry env u p n) (proc_return ())"
| "handle_request env u (MoveEntry p q) = proc_then (move_entry env u p q) (proc_return ())"
| "handle_request env u (DeleteEntry p) = proc_then (delete_entry env u p) (proc_return ())"
| "handle_request env u (UploadFile p n c over rel) = proc_then (upload_file env u p n c over rel) (proc_return ())"

fun serve :: "workspace_env \<Rightarrow> (string \<times> workspace_request) list \<Rightarrow> disk \<Rightarrow> disk" where
  "serve env [] d = d"
| "serve env ((u, r) # rs) d = serve env rs (snd (handle_request env u r d))"

lemma service_keeps:
  assumes p: "local_path env u = Some p"
  shows "obeys (keeps_scope (names p)) (list_directory env u x)"
    "obeys (keeps_scope (names p)) (read_file env u x)"
    "obeys (keeps_scope (names p)) (download_file env u x)"
    "obeys (keeps_scope (names p)) (list_projector_items env u)"
    "obeys (keeps_scope (names p)) (get_projector_item_html env u x)"
    "obeys (keeps_scope (names p)) (update_file_content env u x c t force)"
    "obeys (keeps_scope (names p)) (create_entry env u x k)"
    "obeys (keeps_scope (names p)) (rename_entry env u x n)"
    "obeys (keeps_scope (names p)) (move_entry env u x y)"
    "obeys (keeps_scope (names p)) (delete_entry env u x)"
    "obeys (keeps_scope (names p)) (upload_file env u x n c over rel)"
proof -
  have b: "base_at p (names p)" by (rule local_path_text [OF p])
  have rename: "obeys (keeps_scope (names p)) (rename_to env p x y n m)" for x y n m
    unfolding rename_to_def by (intro keep_intros b)
  note open' = opened_keeps [OF p]
  show "obeys (keeps_scope (names p)) (list_directory env u x)"
    unfolding list_directory_def Let_def by (rule open', simp only: prod.case, intro keep_intros)
  show "obeys (keeps_scope (names p)) (read_file env u x)"
    unfolding read_file_def Let_def by (rule open', simp only: prod.case, intro keep_intros)
  show "obeys (keeps_scope (names p)) (download_file env u x)"
    unfolding download_file_def Let_def by (rule open', simp only: prod.case, intro keep_intros)
  show "obeys (keeps_scope (names p)) (list_projector_items env u)"
    unfolding list_projector_items_def by (rule open', simp only: prod.case, intro keep_intros)
  show "obeys (keeps_scope (names p)) (get_projector_item_html env u x)"
    unfolding get_projector_item_html_def by (rule open', simp only: prod.case, intro keep_intros)
  show "obeys (keeps_scope (names p)) (update_file_content env u x c t force)"
    unfolding update_file_content_def Let_def by (rule open', simp only: prod.case, intro keep_intros b)
  have make: "obeys (keeps_scope (names p)) (case k of NewDirectory \<Rightarrow> scoped_mkdir p x | NewFile \<Rightarrow> scoped_writeFile p x [])"
    using scoped_ops_keep [OF b] by (cases k) simp_all
  show "obeys (keeps_scope (names p)) (create_entry env u x k)"
    unfolding create_entry_def by (rule open', simp only: prod.case, intro keep_intros make)
  show "obeys (keeps_scope (names p)) (rename_entry env u x n)"
    unfolding rename_entry_def by (rule open', simp only: prod.case, intro keep_intros rename)
  show "obeys (keeps_scope (names p)) (move_entry env u x y)"
    unfolding move_entry_def Let_def by (rule open', simp only: prod.case, intro keep_intros rename)
  show "obeys (keeps_scope (names p)) (delete_entry env u x)"
    unfolding delete_entry_def by (rule open', simp only: prod.case, intro keep_intros b)
  show "obeys (keeps_scope (names p)) (upload_file env u x n c over rel)"
    unfolding upload_file_def Let_def by (rule open', simp only: prod.case, intro keep_intros b)
qed

lemma request_keeps:
  "local_path env u = Some p \<Longrightarrow> obeys (keeps_scope (names p)) (handle_request env u r)"
  by (cases r) (simp_all add: scoped.obeys_then service_keeps scoped.obeys_return)

lemma request_unknown:
  assumes "local_path env u = None"
  shows "snd (handle_request env u r d) = d"
  by (cases r)
     (simp_all add: list_directory_def read_file_def download_file_def list_projector_items_def
      get_projector_item_html_def update_file_content_def create_entry_def rename_entry_def move_entry_def
      delete_entry_def upload_file_def proc_then_def proc_bind_def create_scoped_unknown [OF assms])

text \<open>Workspaces do not contain one another.\<close>

definition apart :: "place \<Rightarrow> place \<Rightarrow> bool" where
  "apart b b' \<longleftrightarrow> \<not> prefix b b' \<and> \<not> prefix b' b"

lemma apart_keeps:
  assumes "scope_ok b d" "keeps_scope b d d'" "scope_ok b' d" "apart b b'"
  shows "scope_ok b' d'"
proof -
  from assms(1,2) have out: "outside_of b d' = outside_of b d" by (simp add: keeps_scope_def)
  have "node_at d' p = Some Directory" if "prefix p b'" for p
  proof -
    from that assms(4) have "\<not> prefix b p" using prefix_order.trans by (auto simp: apart_def)
    from outside_node [OF out this] scope_dir [OF assms(3) that] show ?thesis by simp
  qed
  moreover have "tame b' t" if "(q, Link t) \<in> set d'" "prefix b' q" for q t
  proof -
    from that(2) assms(4) have "\<not> prefix b q" using prefix_same_cases by (auto simp: apart_def)
    with that(1) have "(q, Link t) \<in> set (outside_of b d')" by (simp add: outside_of_def)
    then have "(q, Link t) \<in> set d" unfolding out by (simp add: outside_of_def)
    with that(2) assms(3) show ?thesis by (fastforce simp: scope_ok_def)
  qed
  ultimately show ?thesis
    using assms(3) by (auto simp: scope_ok_def split: node.splits)
qed

definition workspaces_ok :: "workspace_env \<Rightarrow> string set \<Rightarrow> disk \<Rightarrow> bool" where
  "workspaces_ok env us d \<longleftrightarrow>
     (\<forall>u \<in> us. \<forall>b. workspace_place env u = Some b \<longrightarrow> scope_ok b d \<and>
        (\<forall>u' \<in> us. \<forall>b'. workspace_place env u' = Some b' \<longrightarrow> b' = b \<or> apart b b'))"

lemma workspaces_ok_step:
  assumes "workspaces_ok env us d" "u \<in> us"
  shows "workspaces_ok env us (snd (handle_request env u r d)) \<and>
    (\<forall>q. (\<forall>b. workspace_place env u = Some b \<longrightarrow> \<not> prefix b q) \<longrightarrow> node_at (snd (handle_request env u r d)) q = node_at d q)"
proof (cases "local_path env u")
  case None
  then show ?thesis using assms(1) by (simp add: request_unknown)
next
  case (Some p)
  let ?d = "snd (handle_request env u r d)"
  from Some have place: "workspace_place env u = Some (names p)" by (simp add: workspace_place_def)
  with assms have ok: "scope_ok (names p) d" by (auto simp: workspaces_ok_def)
  have k: "keeps_scope (names p) d ?d" using request_keeps [OF Some] by (simp add: obeys_def)
  have "scope_ok b' ?d" if "u' \<in> us" "workspace_place env u' = Some b'" for u' b'
  proof (cases "b' = names p")
    case True
    then show ?thesis using k ok by (simp add: keeps_scope_def)
  next
    case False
    with that place assms have "scope_ok b' d" "apart (names p) b'" unfolding workspaces_ok_def by blast+
    with apart_keeps [OF ok k] show ?thesis by simp
  qed
  with assms(1) have "workspaces_ok env us ?d" unfolding workspaces_ok_def by blast
  moreover have "node_at ?d q = node_at d q" if "\<not> prefix (names p) q" for q
    using k ok by (intro outside_node [OF _ that]) (simp add: keeps_scope_def)
  ultimately show ?thesis using place by simp
qed


section \<open>What is served lies inside\<close>

text \<open>The base of a user's workspace on a disk: its real path, whatever links lead there.\<close>

definition real_base :: "workspace_env \<Rightarrow> string \<Rightarrow> disk \<Rightarrow> place" where
  "real_base env u d = (case local_path env u of None \<Rightarrow> [] | Some p \<Rightarrow> names (scope_base p d))"

text \<open>The ways a request hands out the content of a file.\<close>

definition serves :: "workspace_env \<Rightarrow> string \<Rightarrow> disk \<Rightarrow> string \<Rightarrow> disk \<Rightarrow> bool" where
  "serves env u d c d' \<longleftrightarrow>
     (\<exists>p fc. read_file env u p d = (Inr fc, d') \<and> fc_content fc = Some c) \<or>
     (\<exists>p name mime n. download_file env u p d = (Inr (c, name, mime, n), d')) \<or>
     (\<exists>item name. get_projector_item_html env u item d = (Inr (name, c), d'))"

definition served :: "workspace_env \<Rightarrow> string \<Rightarrow> string \<Rightarrow> disk \<Rightarrow> bool" where
  "served env u c d \<longleftrightarrow> (\<exists>q. prefix (real_base env u d) q \<and> node_at d q = Some (Regular c))"

abbreviation opened :: "workspace_env \<Rightarrow> string \<Rightarrow> string \<Rightarrow> disk \<Rightarrow> bool" where
  "opened env u base d \<equiv> names base = real_base env u d"

lemma create_opens: "triple (\<lambda>_. True) (create_scoped_fs env u) (\<lambda>x. opened env u (fst x)) (\<lambda>_ _. True)"
  by (rule tripleI)
     (auto simp: create_scoped_fs_def real_base_def local_path_def Let_def proc_defs
       split: option.splits prod.splits sum.splits)

lemma framed: "keeps (\<lambda>d. d) f \<Longrightarrow> triple P f (\<lambda>_. P) (\<lambda>_ _. True)"
  by (auto simp: triple_def obeys_def outcome_in_def split: sum.splits)

lemma frames:
  "keeps (\<lambda>d. d) (lifted_resolve base p)" "keeps (\<lambda>d. d) (modified_at env p)" "keeps (\<lambda>d. d) (stat_or base p m)"
proof -
  show "keeps (\<lambda>d. d) (lifted_resolve base p)" "keeps (\<lambda>d. d) (modified_at env p)"
    by (simp_all add: lifted_resolve_def modified_at_def obeys_def proc_defs)
  show "keeps (\<lambda>d. d) (stat_or base p m)"
    unfolding stat_or_def by (intro steady.obeys_catch steady.obeys_throw scoped_reads_keep)
qed

lemma reading_served:
  "triple (opened env u base) (scoped_readFile base p) (\<lambda>c. served env u c) (\<lambda>_ _. True)"
proof (rule tripleI)
  fix d
  assume o: "opened env u base d"
  obtain r d' where run: "scoped_readFile base p d = (r, d')" by fastforce
  show "outcome_in (\<lambda>c. served env u c) (\<lambda>_ _. True) (scoped_readFile base p d)"
  proof (cases r)
    case (Inr c)
    from readFile_inside [OF run [unfolded Inr]] o run Inr show ?thesis by (auto simp: served_def)
  qed (simp add: run)
qed

lemmas framed_steps = framed [OF frames(1)] framed [OF frames(2)] framed [OF frames(3)] framed [OF scoped_reads_keep(6)]

lemma triple_ite: "(b \<Longrightarrow> triple P f Q E) \<Longrightarrow> (\<not> b \<Longrightarrow> triple P g Q E) \<Longrightarrow> triple P (if b then f else g) Q E"
  by simp

lemma read_file_serves:
  "triple (\<lambda>_. True) (read_file env u p) (\<lambda>fc d. \<forall>c. fc_content fc = Some c \<longrightarrow> served env u c d) (\<lambda>_ _. True)"
proof -
  have "triple (opened env u (fst x)) (scoped_readFile (fst x) p) (\<lambda>c. served env u c) (\<lambda>_ _. True)" for x :: "string \<times> string"
    by (rule reading_served)
  then show ?thesis
    unfolding read_file_def Let_def split_beta
    by (intro triple_bind [OF create_opens] triple_bind [OF framed_steps(1)] triple_bind [OF framed_steps(3)]
        triple_bind [OF framed_steps(2)] triple_bind [OF reading_served] triple_ite triple_return triple_throw; simp)
qed

lemma download_serves:
  "triple (\<lambda>_. True) (download_file env u p) (\<lambda>x. served env u (fst x)) (\<lambda>_ _. True)"
  unfolding download_file_def Let_def split_beta scoped_read_stream_def scoped_readFile_def [symmetric]
  by (intro triple_bind [OF create_opens] triple_bind [OF framed_steps(1)] triple_bind [OF framed_steps(3)]
      triple_bind [OF reading_served] triple_ite triple_return triple_throw; simp)

lemma projector_serves:
  "triple (\<lambda>_. True) (get_projector_item_html env u n) (\<lambda>x. served env u (snd x)) (\<lambda>_ _. True)"
  unfolding get_projector_item_html_def split_beta
  by (intro triple_bind [OF create_opens] triple_bind [OF framed_steps(4)] triple_bind [OF reading_served]
      triple_ite triple_return triple_throw; simp)

text \<open>C38: A request serves the content of files of its user's workspace only, whatever links anyone left
  there: what reading a file, downloading it or showing a projector item hands out is the content of a
  regular file whose real path is under the real path of the workspace.\<close>

theorem workspace_serves_own_files:
  assumes "serves env u d c d'"
  shows "\<exists>q. prefix (real_base env u d') q \<and> node_at d' q = Some (Regular c)"
proof -
  have "served env u c d'"
    using assms triple_Inr [OF read_file_serves TrueI] triple_Inr [OF download_serves TrueI]
      triple_Inr [OF projector_serves TrueI]
    unfolding serves_def by fastforce
  then show ?thesis by (simp add: served_def)
qed

section \<open>What was saved is read back\<close>

lemma bind_InrE:
  assumes "proc_bind f g s = (Inr y, u)"
  obtains x t where "f s = (Inr x, t)" "g x t = (Inr y, u)"
  using assms by (auto simp: proc_bind_def split: prod.splits sum.splits)

lemma locate_update:
  "locate d n cur xs = Inr q \<Longrightarrow> node_at d q \<noteq> Some Directory \<longrightarrow> (\<forall>t. node_at d q \<noteq> Some (Link t)) \<longrightarrow>
   locate (upd_assoc q (Regular c) d) n cur xs = Inr q"
proof (induction rule: locate_induct)
  case (down n cur x xs v)
  then show ?case
    by (cases "cur @ [x] = q"; cases v) (auto simp: locate.simps(2) node_at_def split: if_splits)
qed (auto simp: locate.simps(2) node_at_def split: if_splits)

lemma under_base_text:
  assumes "prefix b q" "b \<noteq> []"
  shows "under_base (path_text b) (path_text q)"
proof -
  obtain r where q: "q = b @ r" using assms(1) by (auto simp: prefix_def)
  have join: "r \<noteq> [] \<Longrightarrow> b \<noteq> [] \<Longrightarrow> join [slash] (b @ r) = join [slash] b @ [slash] @ join [slash] r" for b r
    by (induction "[slash]" b rule: join.induct) (auto simp: neq_Nil_conv)
  show ?thesis
  proof (cases "r = []")
    case True
    with q show ?thesis by (simp add: under_base_def)
  next
    case False
    with q join [OF False assms(2)] show ?thesis
      by (auto simp: under_base_def path_text_def starts_with_def prefix_def)
  qed
qed

text \<open>A file just written is what its path leads to.\<close>

lemma written_is_there:
  assumes base: "base_at base b" "b \<noteq> []" and "scope_ok b d"
    and written: "scoped_writeFile base p c d = (Inr (), d')"
  obtains r q where "scoped_resolve base p = Inr r" "look d' r = Inr (q, Regular c)" "prefix b q" "scope_ok b d'"
proof -
  have same: "validate_resolved base r d = (x, t) \<Longrightarrow> t = d" for r x t
    by (auto simp: validate_resolved_def split: if_splits sum.splits)
  from written obtain r d1 where r: "scoped_resolve base p = Inr r" "changing (fs_mkdir (path_dirname r)) d = (Inr (), d1)"
      "changing (fs_writeFile r c) d1 = (Inr (), d')"
    by (auto simp: scoped_writeFile_def proc_then_def resolve_and_validate_def proc_lift_def proc_return_def
        elim!: bind_InrE dest!: same)
  note n = resolve_names [OF base(1) r(1)]
  have ok1: "scope_ok b d1"
    using obeysD [OF dirname_keeps [OF n(1,2)], of d] r(2) assms(3) by (simp add: keeps_scope_def)
  from r(3) obtain q where q: "find_place d1 r = Inr q" "node_at d1 q \<noteq> Some Directory" "d' = upd_assoc q (Regular c) d1"
    by (auto simp: changing_def fs_writeFile_def split: sum.splits if_splits)
  have "heading b [] (names r)" using n(1,2) by (rule heading_root)
  with locate_heads q(1) ok1 have "prefix b q" "\<forall>t. node_at d1 q \<noteq> Some (Link t)"
    unfolding find_place_def by (fastforce simp: node_at_def)+
  with q have "find_place d' r = Inr q" using locate_update unfolding find_place_def by blast
  moreover have "node_at d' q = Some (Regular c)" using q(2,3) by (auto simp: node_at_def)
  ultimately have "look d' r = Inr (q, Regular c)" by (simp add: look_def)
  moreover have "scope_ok b d'"
    using writeFile_keeps [OF n(1,2), of c d1 d'] r(3) ok1 by (auto simp: changing_def keeps_scope_def split: sum.splits)
  ultimately show thesis using that r(1) \<open>prefix b q\<close> by blast
qed

lemma there_reads:
  assumes "base_at base b" "b \<noteq> []" "scoped_resolve base p = Inr r" "look d r = Inr (q, Regular c)" "prefix b q"
  shows "scoped_stat base p d = (Inr (Regular c), d)" "scoped_readFile base p d = (Inr c, d)"
proof -
  have "under_base base (path_text q)" using under_base_text [OF assms(5,2)] assms(1) by (simp add: base_at_def)
  with assms(3,4) have "resolve_and_validate base p d = (Inr r, d)"
    by (simp add: resolve_and_validate_def validate_resolved_def exists_sync_def realpath_sync_def proc_defs)
  with assms(4) show "scoped_stat base p d = (Inr (Regular c), d)" "scoped_readFile base p d = (Inr c, d)"
    by (simp_all add: scoped_stat_def scoped_readFile_def proc_bind_def reading_def fs_stat_def fs_readFile_def)
qed

lemma frame_run: "keeps (\<lambda>d. d) f \<Longrightarrow> f d = (r, d') \<Longrightarrow> d' = d"
  using obeysD [of "\<lambda>s t. t = s" f d] by simp

lemma editable_text: "t \<in> set editable_types \<Longrightarrow> t \<notin> set binary_types"
  by (auto simp: editable_types_def binary_types_def)

text \<open>C39: What a user saves is what the user reads: after a successful save of a file, reading the same path
  returns exactly the saved content, or reports it as too large, provided the links in the workspace
  lead back into it.\<close>

theorem saved_content_reads_back:
  assumes p: "local_path env u = Some p" and "names p \<noteq> []" and ok: "scope_ok (names p) d"
    and saved: "update_file_content env u path c t force d = (Inr answer, d')"
  shows "\<exists>fc. read_file env u path d' = (Inr fc, d') \<and> fc_truncated fc = (max_file_size < length c) \<and>
    fc_content fc = (if max_file_size < length c then None else Some c)"
proof -
  have base: "base_at p (names p)" by (rule local_path_text [OF p])
  from saved obtain r where r: "scoped_resolve p path = Inr r"
    and type: "detect_file_type (path_basename r) \<in> set editable_types"
    and wrote: "scoped_writeFile p path c d = (Inr (), d')"
    unfolding update_file_content_def Let_def lifted_resolve_def proc_then_def
    by (auto simp: proc_bind_def [of "create_scoped_fs env u"] create_scoped_there [OF p ok] proc_lift_def proc_return_def
        proc_throw_def elim!: bind_InrE dest!: frame_run [OF frames(2)] frame_run [OF frames(3)] frame_run [OF scoped_reads_keep(3)]
        split: if_splits)
  obtain q where q: "look d' r = Inr (q, Regular c)" "prefix (names p) q" "scope_ok (names p) d'"
    using written_is_there [OF base assms(2) ok wrote] r by auto
  note reads = there_reads [OF base assms(2) r q(1,2)]
  from reads(1) have st: "stat_or p path ''File not found'' d' = (Inr (Regular c), d')"
    by (simp add: stat_or_def proc_catch_def)
  show ?thesis
    using create_scoped_there [OF p q(3)] r st reads(2) editable_text [OF type]
    by (simp add: read_file_def Let_def proc_defs lifted_resolve_def modified_at_def)
qed

section \<open>Instances and gaps\<close>

definition sample_disk :: "disk" where
  "sample_disk =
     [([''data''], Directory), ([''data'', ''u''], Directory), ([''data'', ''u'', ''a.txt''], Regular ''old''),
      ([''data'', ''v''], Directory), ([''data'', ''v'', ''b.txt''], Regular ''secret''), ([''etc''], Directory)]"

definition sample_workspaces :: workspace_env where
  "sample_workspaces =
     \<lparr>wk_workspacePath = (\<lambda>u. if u \<in> {''u'', ''v''} then Some u else None), wk_cwd = ''/srv'', wk_basePath = Some ''/data'',
      wk_hostBasePath = None, wk_mtime = (\<lambda>_ _. ''now''), wk_now = ''now'', wk_rank = length\<rparr>"

lemma sample_local: "local_path sample_workspaces ''u'' = Some ''/data/u''"
  by code_simp

lemma sample_scope: "scope_ok [''data'', ''u''] sample_disk"
  by code_simp


lemma workspace_serves_own_files_witness:
  "\<exists>q. prefix (real_base sample_workspaces ''u'' sample_disk) q \<and> node_at sample_disk q = Some (Regular ''old'')"
proof (rule workspace_serves_own_files)
  have answer: "download_file sample_workspaces ''u'' ''/a.txt'' sample_disk =
      (Inr (''old'', ''a.txt'', ''text/plain'', 3), sample_disk)"
    by code_simp
  then show "serves sample_workspaces ''u'' sample_disk ''old'' sample_disk"
    unfolding serves_def by (intro disjI2 disjI1 exI)
qed

lemma saved_content_reads_back_witness:
  "\<exists>fc. fst (read_file sample_workspaces ''u'' ''/a.txt''
      (snd (update_file_content sample_workspaces ''u'' ''/a.txt'' ''new'' ''now'' False sample_disk))) = Inr fc \<and>
    fc_content fc = Some ''new''"
proof -
  have "\<not> isl (fst (update_file_content sample_workspaces ''u'' ''/a.txt'' ''new'' ''now'' False sample_disk))" by code_simp
  then obtain answer where "update_file_content sample_workspaces ''u'' ''/a.txt'' ''new'' ''now'' False sample_disk =
      (Inr answer, snd (update_file_content sample_workspaces ''u'' ''/a.txt'' ''new'' ''now'' False sample_disk))"
    by (metis prod.collapse sum.collapse(2))
  moreover have "names ''/data/u'' = [''data'', ''u'']" by code_simp
  ultimately show ?thesis
    using saved_content_reads_back [OF sample_local, of sample_disk "''/a.txt''" "''new''" "''now''" False answer] sample_scope
    by (force simp: max_file_size_def)
qed

text \<open>The checks look at what a path leads to only if that exists. Through a link that leads out of the
  workspace, as an agent can leave one there, an upload makes a file outside.\<close>

lemma upload_follows_link_out:
  "let d = ([''data'', ''u'', ''x''], Link ''/etc'') # sample_disk;
       d' = snd (handle_request sample_workspaces ''u'' (UploadFile ''/'' ''x/passwd'' ''root'' False None) d)
   in node_at d [''etc'', ''passwd''] = None \<and> node_at d' [''etc'', ''passwd''] = Some (Regular ''root'')"
  by code_simp

text \<open>Removing is checked at the end of the path, but takes the entry: through such a link a link outside
  that points into the workspace is removed.\<close>

lemma delete_removes_entry_outside:
  "let d = [([''data'', ''u'', ''x''], Link ''/etc''), ([''etc'', ''l''], Link ''/data/u/a.txt'')] @ sample_disk;
       d' = snd (handle_request sample_workspaces ''u'' (DeleteEntry ''/x/l'') d)
   in node_at d' [''etc'', ''l''] = None"
  by code_simp

text \<open>Paths are made relative to the configured path but resolved against the real one: where the data
  directory is reached through a link shorter than what it leads to, every upload is refused.\<close>

lemma linked_base_refuses_uploads:
  "fst (handle_request (sample_workspaces\<lparr>wk_basePath := Some ''/mnt''\<rparr>) ''u'' (UploadFile ''/'' ''x'' ''data'' False None)
     (([''mnt''], Link ''/data/v'') # sample_disk)) = Inl invalid_path"
  by code_simp

text \<open>The table of types has entries for dot files, but such a name has no extension.\<close>

lemma dot_files_have_no_type: "map detect_file_type [''.env'', ''.gitignore'', ''.dockerignore''] = [FUnknown, FUnknown, FUnknown]"
  by code_simp

end
