(* ===== verification/Spec2Isabelle.thy ===== *)
theory Spec2Isabelle
  imports ReasoningProps ApprovalMachine ToolRegistry PoolMachine CapacityLedger Consolidation MessageChunker SsrfProtection SchedulerLimits ResultProps TaskTurns AgentRunnerProps AgentRunnerRow AgentRunnerReply WorkspaceProps
begin

text \<open>
  Clawix: a server on which agents of many users run. This development models the engine of
  \<open>src/packages/api/src\<close>; the paths below are relative to that directory. A run of an agent is admitted
  by \<open>engine/agent-runner.service.ts\<close>, which takes a container from the pool and hands a conversation
  to the reasoning loop. The loop alternates calls of a model (wrapped in the recovery loop, which
  retries and compresses) and calls of tools (through the registry, which asks the approval service).
  A tool may submit sub-agents to the executor, whose results are queued in Redis and delivered to the
  parent as a further run; the cron scheduler starts runs of its own. Rows of the database record all
  of it: sessions and transcripts, agent runs, tasks and task runs, approvals.

  \<^bold>\<open>Theories and sources.\<close>

  \<^item> \<open>Prelude\<close>, \<open>JsNumber\<close>, \<open>JsText\<close>, \<open>Effects\<close>: what the components share. Strings as lists of
    characters with the string methods the sources call; numbers as exact rationals that are rounded to
    53 bits where an operation may be inexact; reading numbers from text; awaited calls that change a
    state and may throw, with sequence, try/catch, try/finally and loops, and a Hoare triple over them.
  \<^item> \<open>RunGuards\<close> (\<open>engine/budget-tracker.ts\<close>, \<open>engine/tool-loop-guard.ts\<close>), \<open>Chat\<close> (the provider types of
    \<open>packages/shared\<close>), \<open>ErrorClassifier\<close> (\<open>engine/error-classifier.ts\<close>), \<open>RecoveryLoop\<close>
    (\<open>engine/recovery-loop.ts\<close>), \<open>Compressor\<close> (\<open>engine/compressor.ts\<close>, \<open>microcompact.ts\<close>,
    \<open>compact-prompt.ts\<close>, \<open>history-visibility.ts\<close>), \<open>ReasoningLoop\<close> and \<open>ReasoningProps\<close>
    (\<open>engine/reasoning-loop.ts\<close>).
  \<^item> \<open>ApprovalTypes\<close>, \<open>Approvals\<close>, \<open>ApprovalMachine\<close> (\<open>approvals/\<close> and its two repositories; the
    machine cuts the calls where they await and interleaves them), \<open>ToolRegistry\<close>
    (\<open>engine/tool-registry.ts\<close>).
  \<^item> \<open>ContainerPool\<close>, \<open>PoolMachine\<close> (\<open>engine/container-pool.service.ts\<close>, call by call and interleaved),
    \<open>CapacityLedger\<close> (\<open>engine/container-capacity.ledger.ts\<close>, \<open>engine/capacity.service.ts\<close>).
  \<^item> \<open>SessionStore\<close> (\<open>engine/session-manager.service.ts\<close>, \<open>engine/message-store/\<close>), \<open>Consolidation\<close>
    (\<open>engine/memory-consolidation.service.ts\<close>).
  \<^item> \<open>MessageChunker\<close> (\<open>channels/utils/message-chunker.ts\<close>), \<open>SsrfProtection\<close>
    (\<open>engine/tools/web/ssrf-protection.ts\<close>).
  \<^item> \<open>CronSchedule\<close> (\<open>engine/cron-guard.service.ts\<close>, \<open>cron-next-run.ts\<close>, \<open>cron-error-messages.ts\<close>),
    \<open>CronTasks\<close> (\<open>db/task.repository.ts\<close>, \<open>db/task-run.repository.ts\<close>), \<open>CronProcessor\<close>
    (\<open>engine/cron-task-processor.service.ts\<close>), \<open>CronJobs\<close> and \<open>CronOwnership\<close> (\<open>tasks/\<close>,
    \<open>engine/tools/cron.ts\<close>), \<open>CronScheduler\<close> and \<open>SchedulerLimits\<close> (\<open>engine/cron-scheduler.service.ts\<close>).
  \<^item> \<open>AgentRuns\<close> (\<open>db/agent-run.repository.ts\<close>, \<open>engine/agent-run-registry.service.ts\<close>,
    \<open>engine/stale-run-reaper.service.ts\<close>, \<open>engine/tools/task-tools.ts\<close>).
  \<^item> \<open>TaskQueue\<close>, \<open>TaskQueueProps\<close>, \<open>TaskTurns\<close> (submission, queues and slots of
    \<open>engine/task-executor.service.ts\<close>), \<open>ResultDelivery\<close>, \<open>ResultProps\<close> (its delivery of results, and
    \<open>engine/sub-agent-result.publisher.ts\<close>).
  \<^item> \<open>AgentRunner\<close>, \<open>QuietRun\<close> (concrete runs), \<open>AgentRunnerProps\<close>, \<open>AgentRunnerRow\<close>,
    \<open>AgentRunnerReply\<close> (\<open>engine/agent-runner.service.ts\<close>).
  \<^item> \<open>FileSystem\<close> (Node's path and fs modules on a disk with links), \<open>ScopedFs\<close>, \<open>ScopedProps\<close>
    (\<open>workspace/scoped-fs.ts\<close>), \<open>Workspace\<close>, \<open>WorkspaceProps\<close> (\<open>workspace/workspace.service.ts\<close>,
    \<open>engine/workspace-resolver.ts\<close>).

  \<^bold>\<open>State, operations, environments.\<close> An object of the sources is a record of its fields, a method a
  definition that returns the changed record, in the order of the source; a table is a list of rows. An
  error is a value of a sum or a constructor of the result, so every throw and early return is a branch.
  What is not in the repository or is a mere caller's choice (a provider, the Docker host, Redis, the
  clock, a tool's inner work) is a record of functions over an abstract world, with no law attached;
  where a theorem needs one it is a premise of the theorem and its text names it. Concurrency is a list
  of events over the states between two awaits (\<open>ApprovalMachine\<close>, \<open>PoolMachine\<close>, \<open>TaskQueue\<close>,
  \<open>CronScheduler\<close>), or arbitrary writers between the steps of an operation (\<open>AgentRuns\<close>, \<open>AgentRunner\<close>).

  \<^bold>\<open>Interfaces.\<close> Each is interpreted on the model's own definitions.

  \<^item> \<open>consent_gate\<close>, what the registry relies on before it runs a tool, is provided by the approval service.
  \<^item> \<open>conversation_reducer\<close>, a compressor that keeps tool results behind their calls, and
    \<open>world_relation\<close>, a relation every call of a loop's world respects, carry the reasoning loop.
  \<^item> \<open>session_containers\<close> carries the isolation of containers over the events of \<open>PoolMachine\<close>.
  \<^item> \<open>message_store\<close>, saving behind what loads, is provided by the sessions and by the task runs.
  \<^item> \<open>evolution\<close>, a reflexive and transitive relation between states, is extended by \<open>row_discipline\<close>
    (a run and its row), \<open>delivery_moves\<close> and \<open>delivery_change\<close> (the commands of a delivery); it also
    bounds what a \<open>ScopedFs\<close> may change.
  \<^item> \<open>drained_invariant\<close>, an invariant kept by starting a queued task, lifts the executor's books, its
    limits, its fair shares and its accounts from single steps to all histories.

  \<^bold>\<open>What is shown,\<close> under the premises that each property's text names.

  \<^item> A run of the loop stays within its iterations and, if it alone charges its tracker, its tokens, keeps a
    well-paired conversation well paired and reports its end truthfully; a recovery makes a bounded number of calls and invents no answer.
  \<^item> No tool that needs consent runs without an answer of its owner, also when prompts, timeouts, aborts
    and restarts overlap, and a settled request never changes.
  \<^item> A container serves one session, and serial use on a host that obeys leaks none; the ledger counts
    the admitted sub-agents.
  \<^item> Transcripts load back; consolidation archives and summarizes and touches no other session.
  \<^item> Cron runs settle, users reach their own tasks only, and the limits hold under the order of events
    the statement names, with counterexamples without it.
  \<^item> The executor keeps its limits, accounts for each task once, never gets stuck and serves users in
    turn; a delivery loses no result, keeps the order when nothing fails and reinvokes a bounded number
    of times.
  \<^item> An agent run gives back what it took, does what its policy permits, leaves its row settled and
    reports what its loop answered. Writers outside the runner never touch a settled row.
  \<^item> Requests on a workspace stay inside it, serve its own files and read back what they saved.

  Beside the properties stand lemmas that show where the code does less than it seems to: among others
  \<open>compressed_run_loses_reply\<close>, \<open>failed_stop_leaks_container\<close>, \<open>refused_failure_leaves_run_running\<close>,
  \<open>lapsed_counter_exceeds_cap\<close>, \<open>sessionless_parent_drops_wave\<close>, \<open>cancelled_run_starts_anyway\<close> and
  \<open>consolidation_breaks_transcript\<close>.

  \<^bold>\<open>Loops and bounds.\<close> The recovery loop recurses on the actions its policy has left, which it cannot
  exceed as every action uses one up. The reasoning loop recurses on its iterations. \<open>split_message\<close> is
  a partial function, as it need not return; for which limits it does is a theorem. The result delivery
  follows scripts: the fate of each Redis command and the hours that pass are lists, which may have any
  length and content; its waves are measured by the room the counter leaves under the cap, also after
  the hours still to come, and by the queue, and the requeueing by the list it empties. A path lookup follows at most
  forty links, as Linux does, and then fails.

  \<^bold>\<open>Not modelled.\<close> The Docker command lines of \<open>engine/container-runner.ts\<close>; the Python container pool
  and the inner work of single tools (shell, files, web, browser, wiki, session search); the adapters of
  model providers and of channels; MCP protocol traffic; prompt assembly, skills and templates;
  authentication, administration and settings, which are rows the engine reads; metrics and reports; the
  bootstrap of the framework; the web client in \<open>packages/web\<close>. They call third-party libraries or only
  read and write rows; where the engine calls them they are fields of an environment. Logs, counters of
  metrics and heartbeat timers are left out throughout.
\<close>

end
